(* ===== verification/Prelude.thy ===== *)
theory Prelude
  imports Main "HOL-Library.Word" "HOL-Library.Monad_Syntax"
begin

unbundle bit_operations_syntax

text \<open>
  The shared ground of the development: the machine types of the C sources, byte buffers and
  their bounds-checked accesses, errno results, and the word, list and option lemmas that the
  component theories use through the collections declared here.

  \<^item> \<open>u8\<close>, \<open>u16\<close>, \<open>u32\<close>, \<open>u64\<close> are the fixed-width unsigned integers. A \<open>size_t\<close> is a \<open>nat\<close>:
    it counts bytes of an object in memory, and where the source guards a sum or a product
    against \<open>SIZE_MAX\<close> the guard is written out.
  \<^item> A buffer with its size is a byte list. A C string is the list of its bytes before the
    terminator.
  \<^item> A raw access \<open>p[i]\<close>, \<open>memcpy\<close> or a store into a bounded array is an operation of type
    \<open>_ option\<close> in which \<open>None\<close> is an access outside the object. The component theories prove
    that their operations never evaluate to it.
  \<^item> A function that returns zero or a negative errno is of type \<open>errno + _\<close>; its out-parameters
    are the value on the right.
\<close>

section \<open>Machine types\<close>

type_synonym u8 = "8 word"
type_synonym u16 = "16 word"
type_synonym u32 = "32 word"
type_synonym u64 = "64 word"
type_synonym bytes = "u8 list"

datatype errno =
    EINVAL | ENOSPC | EMSGSIZE | EPROTO | EPROTONOSUPPORT | EOVERFLOW | ENOMEM
  | EBUSY | ERANGE | EIO | ENOTCONN | EALREADY | ENOENT | EEXIST | ELOOP | EACCES | ETIMEDOUT
  | ENODEV | EADDRINUSE | EFBIG | ECONNRESET | ENOTSUP | EAGAIN | EPERM | EBADMSG | ESTALE | ECANCELED

type_synonym 'a result = "errno + 'a"

text \<open>Facts that turn machine words into numbers, and facts about bounded buffers.\<close>

named_theorems word_unat
named_theorems buffer_simps

definition SIZE_MAX :: nat where
  "SIZE_MAX = 2 ^ 64 - 1"

definition UINT16_MAX :: nat where
  "UINT16_MAX = 65535"

definition UINT32_MAX :: nat where
  "UINT32_MAX = 4294967295"

definition UINT64_MAX :: nat where
  "UINT64_MAX = 2 ^ 64 - 1"

text \<open>The bytes of a string literal.\<close>

abbreviation str :: "string \<Rightarrow> bytes" where
  "str s \<equiv> map of_char s"

text \<open>Offsets stay sums of a base and a numeral.\<close>

declare add_2_eq_Suc [simp del] add_2_eq_Suc' [simp del]

section \<open>Bounded buffers\<close>

definition slice :: "nat \<Rightarrow> nat \<Rightarrow> 'a list \<Rightarrow> 'a list" where
  "slice off n xs = take n (drop off xs)"

definition blit :: "'a list \<Rightarrow> nat \<Rightarrow> 'a list \<Rightarrow> 'a list" where
  "blit dst off src = take off dst @ src @ drop (off + length src) dst"

text \<open>\<open>p[i]\<close>, a \<open>memcpy\<close> out of a buffer, a \<open>memcpy\<close> into one.\<close>

definition byte_at :: "'a list \<Rightarrow> nat \<Rightarrow> 'a option" where
  "byte_at xs i = (if i < length xs then Some (xs ! i) else None)"

definition bytes_at :: "'a list \<Rightarrow> nat \<Rightarrow> nat \<Rightarrow> 'a list option" where
  "bytes_at xs off n = (if off + n \<le> length xs then Some (slice off n xs) else None)"

definition store_at :: "'a list \<Rightarrow> nat \<Rightarrow> 'a list \<Rightarrow> 'a list option" where
  "store_at xs off src = (if off + length src \<le> length xs then Some (blit xs off src) else None)"

lemma length_slice [simp, buffer_simps]: "length (slice off n xs) = min n (length xs - off)"
  by (simp add: slice_def)

lemma slice_0 [simp]: "slice 0 n xs = take n xs"
  by (simp add: slice_def)

lemma nth_slice [simp, buffer_simps]:
  "i < n \<Longrightarrow> off + i < length xs \<Longrightarrow> slice off n xs ! i = xs ! (off + i)"
  by (simp add: slice_def)

lemma length_blit [simp, buffer_simps]:
  "off + length src \<le> length dst \<Longrightarrow> length (blit dst off src) = length dst"
  by (simp add: blit_def)

lemma nth_blit [buffer_simps]:
  assumes "off + length src \<le> length dst" and "i < length dst"
  shows "blit dst off src ! i =
    (if off \<le> i \<and> i < off + length src then src ! (i - off) else dst ! i)"
proof -
  have "min (length dst) off = off"
    using assms by simp
  then show ?thesis
    using assms by (auto simp: blit_def nth_append)
qed

lemma slice_blit_same [simp, buffer_simps]:
  "off + length src \<le> length dst \<Longrightarrow> n = length src \<Longrightarrow> slice off n (blit dst off src) = src"
  by (simp add: slice_def blit_def)

lemma slice_blit_other [buffer_simps]:
  assumes "off + length src \<le> length dst" and "o2 + n \<le> off \<or> off + length src \<le> o2"
    and "o2 + n \<le> length dst"
  shows "slice o2 n (blit dst off src) = slice o2 n dst"
  using assms by (intro nth_equalityI) (auto simp: nth_blit)

lemma blit_whole [simp]: "length src = length dst \<Longrightarrow> blit dst 0 src = src"
  by (simp add: blit_def)

lemma blit_nil [simp]: "blit dst off [] = dst"
  by (simp add: blit_def)

lemma byte_at_Some_iff [simp]: "byte_at xs i = Some v \<longleftrightarrow> i < length xs \<and> v = xs ! i"
  by (auto simp: byte_at_def)

lemma byte_at_None_iff [simp]: "byte_at xs i = None \<longleftrightarrow> length xs \<le> i"
  by (auto simp: byte_at_def)

lemma byte_at_in [simp]: "i < length xs \<Longrightarrow> byte_at xs i = Some (xs ! i)"
  by (simp add: byte_at_def)

lemma bytes_at_in [simp]: "off + n \<le> length xs \<Longrightarrow> bytes_at xs off n = Some (slice off n xs)"
  by (simp add: bytes_at_def)

lemma bytes_at_Some_iff: "bytes_at xs off n = Some ys \<longleftrightarrow> off + n \<le> length xs \<and> ys = slice off n xs"
  by (auto simp: bytes_at_def)

lemma store_at_in [simp]:
  "off + length src \<le> length xs \<Longrightarrow> store_at xs off src = Some (blit xs off src)"
  by (simp add: store_at_def)

lemma store_at_Some_iff:
  "store_at xs off src = Some ys \<longleftrightarrow> off + length src \<le> length xs \<and> ys = blit xs off src"
  by (auto simp: store_at_def)

section \<open>Results\<close>

lemma map_sum_Inr_iff [simp]: "map_sum f g x = Inr y \<longleftrightarrow> (\<exists>z. x = Inr z \<and> y = g z)"
  by (cases x) auto

lemma map_sum_Inl_iff [simp]: "map_sum f g x = Inl y \<longleftrightarrow> (\<exists>z. x = Inl z \<and> y = f z)"
  by (cases x) auto

text \<open>
  Parsers of untrusted bytes run in \<open>('e, 'a) run\<close>: \<open>Done\<close> of what the code stores on success,
  \<open>Fail\<close> of its error code, \<open>Fault\<close> when it would access memory outside an object. \<open>and_then\<close> is
  sequencing, \<open>or_fail\<close> a checked operation whose failure is an error code, \<open>raw\<close> an unchecked
  access.
\<close>

datatype ('e, 'a) run = Fault | Fail 'e | Done 'a

fun and_then :: "('e, 'a) run \<Rightarrow> ('a \<Rightarrow> ('e, 'b) run) \<Rightarrow> ('e, 'b) run" where
  "and_then Fault f = Fault"
| "and_then (Fail e) f = Fail e"
| "and_then (Done x) f = f x"

definition or_fail :: "'e \<Rightarrow> 'a option \<Rightarrow> ('e, 'a) run" where
  "or_fail e m = (case m of None \<Rightarrow> Fail e | Some x \<Rightarrow> Done x)"

definition raw :: "'a option \<Rightarrow> ('e, 'a) run" where
  "raw m = (case m of None \<Rightarrow> Fault | Some x \<Rightarrow> Done x)"

text \<open>
  A call of an errno function inside a run: its error is returned as it is (\<open>lift_result\<close>), or
  replaced by the caller's own (\<open>or_error\<close>).
\<close>

definition lift_result :: "'e + 'a \<Rightarrow> ('e, 'a) run" where
  "lift_result r = (case r of Inl e \<Rightarrow> Fail e | Inr x \<Rightarrow> Done x)"

definition or_error :: "'e \<Rightarrow> 'f + 'a \<Rightarrow> ('e, 'a) run" where
  "or_error e r = (case r of Inl _ \<Rightarrow> Fail e | Inr x \<Rightarrow> Done x)"

definition require :: "bool \<Rightarrow> 'e \<Rightarrow> ('e, unit) run" where
  "require b e = (if b then Done () else Fail e)"

lemma and_then_Done_iff [simp]: "and_then m f = Done y \<longleftrightarrow> (\<exists>x. m = Done x \<and> f x = Done y)"
  by (cases m) auto

lemma and_then_Fault_iff [simp]:
  "and_then m f = Fault \<longleftrightarrow> m = Fault \<or> (\<exists>x. m = Done x \<and> f x = Fault)"
  by (cases m) auto

lemma or_fail_simps [simp]:
  "or_fail e (Some x) = Done x" "or_fail e None = Fail e"
  "or_fail e m = Done y \<longleftrightarrow> m = Some y" "or_fail e m \<noteq> Fault"
  by (auto simp: or_fail_def split: option.splits)

lemma raw_simps [simp]:
  "raw (Some x) = Done x" "raw None = Fault"
  "raw m = Done y \<longleftrightarrow> m = Some y" "raw m = Fault \<longleftrightarrow> m = None" "raw m \<noteq> Fail e"
  by (auto simp: raw_def split: option.splits)

lemma lift_result_simps [simp]:
  "lift_result (Inr x) = Done x" "lift_result (Inl e) = Fail e"
  "lift_result r = Done y \<longleftrightarrow> r = Inr y" "lift_result r \<noteq> Fault"
  "lift_result r = Fail e \<longleftrightarrow> r = Inl e"
  by (auto simp: lift_result_def split: sum.splits)

lemma or_error_simps [simp]:
  "or_error e (Inr x) = Done x" "or_error e (Inl f) = Fail e"
  "or_error e r = Done y \<longleftrightarrow> r = Inr y" "or_error e r \<noteq> Fault"
  by (auto simp: or_error_def split: sum.splits)

lemma require_simps [simp]:
  "require True e = Done ()" "require False e = Fail e"
  "require b e = Done u \<longleftrightarrow> b" "require b e \<noteq> Fault"
  by (auto simp: require_def)

lemma and_then_cong [fundef_cong]:
  "m = n \<Longrightarrow> (\<And>x. n = Done x \<Longrightarrow> f x = g x) \<Longrightarrow> and_then m f = and_then n g"
  by (cases n) auto

text \<open>
  \<open>ensures m P\<close>: the run \<open>m\<close> has no fault, and what it stores on success satisfies \<open>P\<close>.
\<close>

definition ensures :: "('e, 'a) run \<Rightarrow> ('a \<Rightarrow> bool) \<Rightarrow> bool" where
  "ensures m P \<longleftrightarrow> m \<noteq> Fault \<and> (\<forall>x. m = Done x \<longrightarrow> P x)"

lemma ensures_simps [simp]:
  "ensures Fault P \<longleftrightarrow> False"
  "ensures (Fail e) P \<longleftrightarrow> True"
  "ensures (Done x) P \<longleftrightarrow> P x"
  "ensures (or_fail e opt) P \<longleftrightarrow> (\<forall>x. opt = Some x \<longrightarrow> P x)"
  "ensures (raw opt) P \<longleftrightarrow> (\<exists>x. opt = Some x \<and> P x)"
  "ensures (and_then m f) P \<longleftrightarrow> ensures m (\<lambda>x. ensures (f x) P)"
  "ensures (lift_result r) P \<longleftrightarrow> (\<forall>x. r = Inr x \<longrightarrow> P x)"
  "ensures (or_error e r') P \<longleftrightarrow> (\<forall>x. r' = Inr x \<longrightarrow> P x)"
  "ensures (require b e) Q \<longleftrightarrow> (b \<longrightarrow> Q ())"
  by (auto simp: ensures_def)

lemma ensures_if [simp]:
  "ensures (if b then m else n) P \<longleftrightarrow> (b \<longrightarrow> ensures m P) \<and> (\<not> b \<longrightarrow> ensures n P)"
  by simp

lemma ensures_prod [simp]:
  "ensures (case p of (a, b) \<Rightarrow> m a b) P \<longleftrightarrow> (case p of (a, b) \<Rightarrow> ensures (m a b) P)"
  by (cases p) simp

lemma ensures_mono: "ensures m P \<Longrightarrow> (\<And>x. P x \<Longrightarrow> Q x) \<Longrightarrow> ensures m Q"
  by (auto simp: ensures_def)

lemma ensuresD: "ensures m P \<Longrightarrow> m = Done x \<Longrightarrow> P x" and ensures_no_fault: "ensures m P \<Longrightarrow> m \<noteq> Fault"
  by (auto simp: ensures_def)

section \<open>Machine words as numbers\<close>

lemma unat_u8_less [simp]: "unat (x :: u8) < 256"
  using unsigned_less [of x, where 'a = nat] by simp

lemma unat_u8_le [simp]: "unat (x :: u8) \<le> 255"
  using unat_u8_less [of x] by linarith

lemma unat_u16_less [simp]: "unat (x :: u16) < 65536"
  using unsigned_less [of x, where 'a = nat] by simp

lemma unat_u16_le [simp]: "unat (x :: u16) \<le> 65535"
  using unat_u16_less [of x] by linarith

lemma unat_u32_less [simp]: "unat (x :: u32) < 4294967296"
  using unsigned_less [of x, where 'a = nat] by simp

lemma unat_u32_le [simp]: "unat (x :: u32) \<le> 4294967295"
  using unat_u32_less [of x] by linarith

lemma unat_u64_less [simp]: "unat (x :: u64) < 18446744073709551616"
  using unsigned_less [of x, where 'a = nat] by simp

text \<open>
  A mask of the high bits of a byte is clear exactly below the first of them, and the low bits
  of a word are a remainder.
\<close>

lemma and_high_mask_eq_0:
  fixes x :: "'a :: len word"
  assumes "m = NOT (mask n)" and "n \<le> LENGTH('a)"
  shows "x AND m = 0 \<longleftrightarrow> unat x < 2 ^ n"
proof -
  have "x AND NOT (mask n) = 0 \<longleftrightarrow> take_bit n x = x"
    by (auto simp: bit_eq_iff bit_simps)
  also have "\<dots> \<longleftrightarrow> take_bit n (unat x) = unat x"
    by (metis unsigned_take_bit_eq unsigned_word_eqI)
  finally show ?thesis
    by (simp add: assms take_bit_nat_eq_self_iff)
qed

lemma and_low_mask [word_unat]:
  fixes x :: "'a :: len word"
  assumes "m = mask n"
  shows "unat (x AND m) = unat x mod 2 ^ n"
  using assms by (metis take_bit_eq_mask take_bit_eq_mod unsigned_take_bit_eq)

lemma and_c0_eq_0 [word_unat]: "(x :: u8) AND 0xC0 = 0 \<longleftrightarrow> unat x < 64"
  by (subst and_high_mask_eq_0 [where n = 6]) (simp_all add: mask_eq_exp_minus_1)

lemma unat_drop_bit [word_unat]: "unat (drop_bit n (x :: 'a :: len word)) = unat x div 2 ^ n"
  by (subst unat_drop_bit_eq) (rule drop_bit_eq_div)

lemma unat_ucast_widen [word_unat]:
  "LENGTH('a) \<le> LENGTH('b) \<Longrightarrow> unat (ucast (x :: 'a :: len word) :: 'b :: len word) = unat x"
proof -
  assume "LENGTH('a) \<le> LENGTH('b)"
  then have "unat x < 2 ^ LENGTH('b)"
    using unsigned_less [of x, where 'a = nat] less_le_trans power_increasing
    by (metis one_le_numeral)
  then show ?thesis
    by (simp add: unsigned_ucast_eq take_bit_nat_eq_self)
qed

text \<open>
  Big-endian encodings. Joining the bytes of a word and splitting it into them are inverse.
\<close>

definition u16_be :: "u16 \<Rightarrow> bytes" where
  "u16_be v = [ucast (drop_bit 8 v), ucast (v AND 0xFF)]"

definition u32_be :: "u32 \<Rightarrow> bytes" where
  "u32_be v = [ucast (drop_bit 24 v), ucast (drop_bit 16 v AND 0xFF),
               ucast (drop_bit 8 v AND 0xFF), ucast (v AND 0xFF)]"

definition u64_be :: "u64 \<Rightarrow> bytes" where
  "u64_be v = u32_be (ucast (drop_bit 32 v)) @ u32_be (ucast (v AND 0xFFFFFFFF))"

definition join16 :: "u8 \<Rightarrow> u8 \<Rightarrow> u16" where
  "join16 a b = push_bit 8 (ucast a) OR ucast b"

definition join32 :: "u8 \<Rightarrow> u8 \<Rightarrow> u8 \<Rightarrow> u8 \<Rightarrow> u32" where
  "join32 a b c d = push_bit 24 (ucast a) OR push_bit 16 (ucast b) OR push_bit 8 (ucast c) OR ucast d"

definition join64 :: "u32 \<Rightarrow> u32 \<Rightarrow> u64" where
  "join64 a b = push_bit 32 (ucast a) OR ucast b"

lemma length_be [simp]: "length (u16_be a) = 2" "length (u32_be b) = 4" "length (u64_be c) = 8"
  by (simp_all add: u16_be_def u32_be_def u64_be_def)

lemma not_bit_beyond: "LENGTH('a) \<le> n \<Longrightarrow> \<not> bit (x :: 'a :: len word) n"
  using bit_imp_le_length [of x n] by auto

lemma ff_mask: "(0xFF :: u16) = mask 8" "(0xFF :: u32) = mask 8" "(0xFFFFFFFF :: u64) = mask 32"
  by (simp_all add: mask_eq_exp_minus_1)

lemma unat_join16 [word_unat, simp]: "unat (join16 a b) = unat a * 256 + unat b"
proof -
  have "join16 a b = push_bit 8 (ucast a) + ucast b"
    unfolding join16_def
    by (rule disjunctive_add [symmetric]) (auto simp: bit_simps not_bit_beyond)
  moreover have "unat a * 256 + unat b < 65536"
    using unat_u8_less [of a] unat_u8_less [of b] by linarith
  ultimately show ?thesis
    by (simp add: unat_word_ariths push_bit_eq_mult unat_ucast_widen)
qed

lemma u16_be_join16 [simp]: "u16_be (join16 a b) = [a, b]"
  unfolding u16_be_def join16_def ff_mask
  by (auto intro!: bit_word_eqI simp: bit_simps not_bit_beyond)

lemma join16_u16_be [simp]: "join16 (ucast (drop_bit 8 v)) (ucast (v AND 0xFF)) = v"
  unfolding join16_def ff_mask by (rule bit_word_eqI) (auto simp: bit_simps)

lemma u32_be_join32 [simp]: "u32_be (join32 a b c d) = [a, b, c, d]"
  unfolding u32_be_def join32_def ff_mask
  by (auto intro!: bit_word_eqI simp: bit_simps not_bit_beyond)

lemma join32_u32_be [simp]:
  "join32 (ucast (drop_bit 24 v)) (ucast (drop_bit 16 v AND 0xFF)) (ucast (drop_bit 8 v AND 0xFF))
    (ucast (v AND 0xFF)) = v"
  unfolding join32_def ff_mask
proof (rule bit_word_eqI)
  fix n assume "n < LENGTH(32)"
  then consider "n < 8" | "8 \<le> n" "n < 16" | "16 \<le> n" "n < 24" | "24 \<le> n" "n < 32"
    by fastforce
  then show "bit (push_bit 24 (ucast (ucast (drop_bit 24 v) :: u8))
      OR push_bit 16 (ucast (ucast (drop_bit 16 v AND mask 8) :: u8))
      OR push_bit 8 (ucast (ucast (drop_bit 8 v AND mask 8) :: u8))
      OR ucast (ucast (v AND mask 8) :: u8) :: u32) n = bit v n"
    by cases (auto simp: bit_simps)
qed

lemma join64_u64_be [simp]: "join64 (ucast (drop_bit 32 v)) (ucast (v AND 0xFFFFFFFF)) = v"
  unfolding join64_def ff_mask by (rule bit_word_eqI) (auto simp: bit_simps)

lemma u64_be_join64: "u64_be (join64 a b) = u32_be a @ u32_be b"
proof -
  have "ucast (drop_bit 32 (join64 a b)) = a" "ucast (join64 a b AND 0xFFFFFFFF) = b"
    unfolding join64_def ff_mask
    by (auto intro!: bit_word_eqI simp: bit_simps not_bit_beyond)
  then show ?thesis by (simp add: u64_be_def)
qed

lemma u16_be_inj [simp]: "u16_be a = u16_be b \<longleftrightarrow> a = b"
proof
  assume "u16_be a = u16_be b"
  then have "ucast (drop_bit 8 a) = (ucast (drop_bit 8 b) :: u8)"
    and "ucast (a AND 0xFF) = (ucast (b AND 0xFF) :: u8)"
    unfolding u16_be_def list.inject by blast+
  then show "a = b"
    using join16_u16_be [of a] join16_u16_be [of b] by argo
qed simp

lemma u32_be_inj [simp]: "u32_be a = u32_be b \<longleftrightarrow> a = b"
proof
  assume "u32_be a = u32_be b"
  then have "ucast (drop_bit 24 a) = (ucast (drop_bit 24 b) :: u8)"
    and "ucast (drop_bit 16 a AND 0xFF) = (ucast (drop_bit 16 b AND 0xFF) :: u8)"
    and "ucast (drop_bit 8 a AND 0xFF) = (ucast (drop_bit 8 b AND 0xFF) :: u8)"
    and "ucast (a AND 0xFF) = (ucast (b AND 0xFF) :: u8)"
    unfolding u32_be_def list.inject by blast+
  then show "a = b"
    using join32_u32_be [of a] join32_u32_be [of b] by argo
qed simp

lemma u32_be_append_inj: "u32_be a @ u32_be b = u32_be c @ u32_be d \<longleftrightarrow> a = c \<and> b = d"
  by simp

lemma u64_be_inj [simp]: "u64_be a = u64_be b \<longleftrightarrow> a = b"
proof
  assume "u64_be a = u64_be b"
  then have "ucast (drop_bit 32 a) = (ucast (drop_bit 32 b) :: u32)"
    and "ucast (a AND 0xFFFFFFFF) = (ucast (b AND 0xFFFFFFFF) :: u32)"
    by (simp_all only: u64_be_def u32_be_append_inj)
  then show "a = b"
    using join64_u64_be [of a] join64_u64_be [of b] by argo
qed simp

lemma u16_be_eq_iff: "u16_be v = [a, b] \<longleftrightarrow> v = join16 a b"
  using u16_be_inj [of v "join16 a b"] by (simp only: u16_be_join16)

lemma u32_be_eq_iff: "u32_be v = [a, b, c, d] \<longleftrightarrow> v = join32 a b c d"
  using u32_be_inj [of v "join32 a b c d"] by (simp only: u32_be_join32)

lemma u64_be_eq_iff: "u64_be v = [a, b, c, d] @ [e, f, g, h] \<longleftrightarrow> v = join64 (join32 a b c d) (join32 e f g h)"
  using u64_be_inj [of v "join64 (join32 a b c d) (join32 e f g h)"]
  by (simp only: u64_be_join64 u32_be_join32)

end
