(* ===== verification/Checked.thy ===== *)
theory Checked
  imports Prelude
begin

text \<open>
  \<^verbatim>\<open>src/common/checked.c\<close>: the checked arithmetic and the bounded network-order reads and writes
  that every parser and every codec of the program goes through. A read is \<open>Some v\<close> when the C
  function returns true with \<open>v\<close> stored, \<open>None\<close> when it returns false; a write returns the C
  result and the buffer after it.
\<close>

section \<open>Operations\<close>

definition jg_size_add :: "nat \<Rightarrow> nat \<Rightarrow> nat option" where
  "jg_size_add left right = (if right > SIZE_MAX - left then None else Some (left + right))"

definition jg_size_multiply :: "nat \<Rightarrow> nat \<Rightarrow> nat option" where
  "jg_size_multiply left right =
     (if left \<noteq> 0 \<and> right > SIZE_MAX div left then None else Some (left * right))"

definition jg_range_valid :: "nat \<Rightarrow> nat \<Rightarrow> nat \<Rightarrow> bool" where
  "jg_range_valid off len total_size = (off \<le> total_size \<and> len \<le> total_size - off)"

definition jg_read_u16_be :: "bytes \<Rightarrow> nat \<Rightarrow> u16 option" where
  "jg_read_u16_be data off =
     (if \<not> jg_range_valid off 2 (length data) then None
      else Some (push_bit 8 (ucast (data ! off)) OR ucast (data ! (off + 1))))"

definition jg_read_u32_be :: "bytes \<Rightarrow> nat \<Rightarrow> u32 option" where
  "jg_read_u32_be data off =
     (if \<not> jg_range_valid off 4 (length data) then None
      else Some (push_bit 24 (ucast (data ! off)) OR push_bit 16 (ucast (data ! (off + 1)))
                 OR push_bit 8 (ucast (data ! (off + 2))) OR ucast (data ! (off + 3))))"

definition jg_read_u64_be :: "bytes \<Rightarrow> nat \<Rightarrow> u64 option" where
  "jg_read_u64_be data off = do {
     high \<leftarrow> jg_read_u32_be data off;
     low \<leftarrow> jg_read_u32_be data (off + 4);
     Some (push_bit 32 (ucast high) OR ucast low) }"

definition jg_write_u16_be :: "bytes \<Rightarrow> nat \<Rightarrow> u16 \<Rightarrow> bool \<times> bytes" where
  "jg_write_u16_be data off v =
     (if \<not> jg_range_valid off 2 (length data) then (False, data)
      else (True, data[off := ucast (drop_bit 8 v), off + 1 := ucast (v AND 0xFF)]))"

definition jg_write_u32_be :: "bytes \<Rightarrow> nat \<Rightarrow> u32 \<Rightarrow> bool \<times> bytes" where
  "jg_write_u32_be data off v =
     (if \<not> jg_range_valid off 4 (length data) then (False, data)
      else (True, data[off := ucast (drop_bit 24 v), off + 1 := ucast (drop_bit 16 v AND 0xFF),
                       off + 2 := ucast (drop_bit 8 v AND 0xFF), off + 3 := ucast (v AND 0xFF)]))"

definition jg_write_u64_be :: "bytes \<Rightarrow> nat \<Rightarrow> u64 \<Rightarrow> bool \<times> bytes" where
  "jg_write_u64_be data off v =
     (let (ok, data1) = jg_write_u32_be data off (ucast (drop_bit 32 v))
      in if ok then jg_write_u32_be data1 (off + 4) (ucast (v AND 0xFFFFFFFF)) else (False, data1))"

text \<open>
  The loop of \<open>jg_utf8_text_valid\<close> over the bytes from \<open>index\<close> on. Each continuation byte is read
  only after \<open>sequence_size > data_size - index\<close> was refused.
\<close>

fun utf8_sequence_size :: "u8 \<Rightarrow> nat option" where
  "utf8_sequence_size first =
     (if first \<ge> 0xC2 \<and> first \<le> 0xDF then Some 2
      else if first \<ge> 0xE0 \<and> first \<le> 0xEF then Some 3
      else if first \<ge> 0xF0 \<and> first \<le> 0xF4 then Some 4
      else None)"

function utf8_loop :: "bytes \<Rightarrow> nat \<Rightarrow> bool" where
  "utf8_loop data index =
     (if \<not> index < length data then True
      else let first = data ! index in
        if first \<le> 0x7F then
          (if first < 0x20 \<or> first = 0x7F then False else utf8_loop data (index + 1))
        else case utf8_sequence_size first of
          None \<Rightarrow> False
        | Some n \<Rightarrow>
            if n > length data - index then False
            else if data ! (index + 1) AND 0xC0 \<noteq> 0x80
                 \<or> (n \<ge> 3 \<and> data ! (index + 2) AND 0xC0 \<noteq> 0x80)
                 \<or> (n = 4 \<and> data ! (index + 3) AND 0xC0 \<noteq> 0x80) then False
            else if (first = 0xE0 \<and> data ! (index + 1) < 0xA0)
                 \<or> (first = 0xED \<and> data ! (index + 1) > 0x9F)
                 \<or> (first = 0xF0 \<and> data ! (index + 1) < 0x90)
                 \<or> (first = 0xF4 \<and> data ! (index + 1) > 0x8F) then False
            else utf8_loop data (index + n))"
  by pat_completeness auto
termination
  by (relation "measure (\<lambda>(d, i). length d - i)") (auto split: if_splits)

definition jg_utf8_text_valid :: "bytes \<Rightarrow> bool \<Rightarrow> bool" where
  "jg_utf8_text_valid data allow_empty =
     (if \<not> allow_empty \<and> data = [] then False else utf8_loop data 0)"

definition jg_secure_clear :: "bytes \<Rightarrow> bytes" where
  "jg_secure_clear data = map (\<lambda>_. 0) data"

declare utf8_loop.simps [simp del]

section \<open>Reads and writes\<close>

lemma jg_size_add_Some_iff:
  "left \<le> SIZE_MAX \<Longrightarrow> jg_size_add left right = Some s \<longleftrightarrow> s = left + right \<and> s \<le> SIZE_MAX"
  by (auto simp: jg_size_add_def)

lemma jg_size_multiply_Some_iff:
  "jg_size_multiply left right = Some p \<longleftrightarrow> p = left * right \<and> p \<le> SIZE_MAX"
proof (cases "left = 0")
  case False
  then have "right \<le> SIZE_MAX div left \<longleftrightarrow> left * right \<le> SIZE_MAX"
    by (simp add: less_eq_div_iff_mult_less_eq mult.commute)
  with False show ?thesis by (auto simp: jg_size_multiply_def)
qed (auto simp: jg_size_multiply_def)

lemma jg_range_valid_iff [simp, buffer_simps]: "jg_range_valid off len n \<longleftrightarrow> off + len \<le> n"
  by (auto simp: jg_range_valid_def)

text \<open>
  A read returns the value whose big-endian bytes stand at the offset; a write in range puts the
  big-endian bytes there. The codecs are verified over these two views.
\<close>

lemma jg_read_u16_be_None_iff [simp]: "jg_read_u16_be data off = None \<longleftrightarrow> length data < off + 2"
  by (auto simp: jg_read_u16_be_def)

lemma jg_read_u32_be_None_iff [simp]: "jg_read_u32_be data off = None \<longleftrightarrow> length data < off + 4"
  by (auto simp: jg_read_u32_be_def)

lemma slice_2: "off + 2 \<le> length xs \<Longrightarrow> slice off 2 xs = [xs ! off, xs ! (off + 1)]"
  by (intro nth_equalityI) (auto simp: less_Suc_eq numeral_2_eq_2)

lemma slice_4: "off + 4 \<le> length xs \<Longrightarrow>
  slice off 4 xs = [xs ! off, xs ! (off + 1), xs ! (off + 2), xs ! (off + 3)]"
  by (intro nth_equalityI) (auto simp: less_Suc_eq eval_nat_numeral)

lemma slice_8: "off + 8 \<le> length xs \<Longrightarrow> slice off 8 xs = slice off 4 xs @ slice (off + 4) 4 xs"
  by (simp add: slice_def take_add [of 4 4, simplified] add.commute)

lemma jg_read_u16_be_join:
  "off + 2 \<le> length data \<Longrightarrow> jg_read_u16_be data off = Some (join16 (data ! off) (data ! (off + 1)))"
  by (simp add: jg_read_u16_be_def join16_def)

lemma jg_read_u32_be_join:
  "off + 4 \<le> length data \<Longrightarrow> jg_read_u32_be data off =
   Some (join32 (data ! off) (data ! (off + 1)) (data ! (off + 2)) (data ! (off + 3)))"
  by (simp add: jg_read_u32_be_def join32_def)

lemma jg_read_u16_be_Some_iff:
  "jg_read_u16_be data off = Some v \<longleftrightarrow> off + 2 \<le> length data \<and> slice off 2 data = u16_be v"
proof (cases "off + 2 \<le> length data")
  case True
  then show ?thesis
    by (simp only: jg_read_u16_be_join slice_2) (metis option.inject u16_be_eq_iff)
qed (simp add: jg_read_u16_be_def)

lemma jg_read_u32_be_Some_iff:
  "jg_read_u32_be data off = Some v \<longleftrightarrow> off + 4 \<le> length data \<and> slice off 4 data = u32_be v"
proof (cases "off + 4 \<le> length data")
  case True
  then show ?thesis
    by (simp only: jg_read_u32_be_join slice_4) (metis option.inject u32_be_eq_iff)
qed (simp add: jg_read_u32_be_def)

lemma jg_read_u16_be_bound: "jg_read_u16_be data off = Some v \<Longrightarrow> off + 2 \<le> length data"
  by (simp add: jg_read_u16_be_Some_iff)

lemma jg_read_u32_be_bound: "jg_read_u32_be data off = Some v \<Longrightarrow> off + 4 \<le> length data"
  by (simp add: jg_read_u32_be_Some_iff)

lemma jg_read_u64_be_join:
  "off + 8 \<le> length data \<Longrightarrow> jg_read_u64_be data off =
   Some (join64 (join32 (data ! off) (data ! (off + 1)) (data ! (off + 2)) (data ! (off + 3)))
     (join32 (data ! (off + 4)) (data ! (off + 4 + 1)) (data ! (off + 4 + 2)) (data ! (off + 4 + 3))))"
  by (simp add: jg_read_u64_be_def jg_read_u32_be_join join64_def del: add_2_eq_Suc')

lemma jg_read_u64_be_None_iff [simp]: "jg_read_u64_be data off = None \<longleftrightarrow> length data < off + 8"
proof (cases "off + 8 \<le> length data")
  case True
  then show ?thesis by (subst jg_read_u64_be_join) simp_all
next
  case False
  then show ?thesis
    by (auto simp: jg_read_u64_be_def bind_eq_None_conv dest!: jg_read_u32_be_bound)
qed

lemma jg_read_u64_be_Some_iff:
  "jg_read_u64_be data off = Some v \<longleftrightarrow> off + 8 \<le> length data \<and> slice off 8 data = u64_be v"
proof (cases "off + 8 \<le> length data")
  case True
  then have "off + 4 \<le> length data" "off + 4 + 4 \<le> length data"
    by simp_all
  with True have "jg_read_u64_be data off = Some v \<longleftrightarrow> slice off 8 data = u64_be v"
    by (simp only: jg_read_u64_be_join slice_8 slice_4) (metis option.inject u64_be_eq_iff)
  with True show ?thesis by simp
next
  case False
  then have "jg_read_u64_be data off = None" by simp
  with False show ?thesis by (metis option.distinct(1))
qed

lemma write_u16_blit:
  "off + 2 \<le> length data \<Longrightarrow> jg_write_u16_be data off v = (True, blit data off (u16_be v))"
  by (auto simp: jg_write_u16_be_def u16_be_def nth_blit nth_list_update nth_Cons' intro!: nth_equalityI)

lemma write_u32_blit:
  "off + 4 \<le> length data \<Longrightarrow> jg_write_u32_be data off v = (True, blit data off (u32_be v))"
  by (auto simp: jg_write_u32_be_def u32_be_def nth_blit nth_list_update nth_Cons' intro!: nth_equalityI)

lemma blit_blit_adjacent:
  "off + length a \<le> length d \<Longrightarrow>
   blit (blit d off a) (off + length a) b = blit d off (a @ b)"
  by (simp add: blit_def ac_simps)

lemma write_u64_blit:
  "off + 8 \<le> length data \<Longrightarrow> jg_write_u64_be data off v = (True, blit data off (u64_be v))"
  using blit_blit_adjacent [of off "u32_be (ucast (drop_bit 32 v))" data
      "u32_be (ucast (v AND 0xFFFFFFFF))"]
  by (simp add: jg_write_u64_be_def write_u32_blit u64_be_def)

lemmas write_blit = write_u16_blit write_u32_blit write_u64_blit
lemmas read_slice = jg_read_u16_be_Some_iff jg_read_u32_be_Some_iff jg_read_u64_be_Some_iff

text \<open>The big-endian value at an offset of a buffer, as the specifications of the parsers state it.\<close>

definition u16_at :: "bytes \<Rightarrow> nat \<Rightarrow> u16 \<Rightarrow> bool" where
  "u16_at msg off v \<longleftrightarrow> slice off 2 msg = u16_be v"

lemma read_u16_at: "jg_read_u16_be msg off = Some v \<longleftrightarrow> u16_at msg off v"
proof -
  have "off + 2 \<le> length msg" if "slice off 2 msg = u16_be v"
    using arg_cong [OF that, of length] by simp
  then show ?thesis by (auto simp: u16_at_def jg_read_u16_be_Some_iff)
qed

lemma u16_at_bound: "u16_at msg off v \<Longrightarrow> off + 2 \<le> length msg"
  by (simp add: jg_read_u16_be_bound flip: read_u16_at)

definition be16 :: "bytes \<Rightarrow> nat \<Rightarrow> u16" where
  "be16 data off = join16 (data ! off) (data ! (off + 1))"

definition be32 :: "bytes \<Rightarrow> nat \<Rightarrow> u32" where
  "be32 data off = join32 (data ! off) (data ! (off + 1)) (data ! (off + 2)) (data ! (off + 3))"

lemma read_be:
  "jg_read_u16_be data off = Some v \<longleftrightarrow> off + 2 \<le> length data \<and> v = be16 data off"
  "jg_read_u32_be data off = Some w \<longleftrightarrow> off + 4 \<le> length data \<and> w = be32 data off"
proof -
  show "jg_read_u16_be data off = Some v \<longleftrightarrow> off + 2 \<le> length data \<and> v = be16 data off"
    by (cases "off + 2 \<le> length data") (auto simp: jg_read_u16_be_join be16_def dest: jg_read_u16_be_bound)
  show "jg_read_u32_be data off = Some w \<longleftrightarrow> off + 4 \<le> length data \<and> w = be32 data off"
    by (cases "off + 4 \<le> length data") (auto simp: jg_read_u32_be_join be32_def dest: jg_read_u32_be_bound)
qed

section \<open>Round trip\<close>

text \<open>
  C40. A 64-bit value written into a buffer at any offset reports success exactly when the eight bytes
  are in range; then reading it back gives the value, the buffer keeps its size, and no other byte
  has changed.
\<close>

theorem jg_write_read_u64_be:
  assumes "jg_write_u64_be data off v = (ok, data')"
  shows "(ok \<longleftrightarrow> off + 8 \<le> length data) \<and> (ok \<longrightarrow> jg_read_u64_be data' off = Some v)
    \<and> length data' = length data
    \<and> (\<forall>i < length data. i < off \<or> off + 8 \<le> i \<longrightarrow> data' ! i = data ! i)"
proof (cases "off + 8 \<le> length data")
  case True
  with assms show ?thesis
    by (auto simp: write_u64_blit jg_read_u64_be_Some_iff nth_blit)
next
  case False
  show ?thesis
  proof (cases "off + 4 \<le> length data")
    case True
    with False have "\<not> off + 4 + 4 \<le> length data" by simp
    with True False assms show ?thesis
      by (auto simp: jg_write_u64_be_def write_u32_blit jg_write_u32_be_def [of _ "off + 4"] nth_blit)
  next
    case short: False
    with False assms show ?thesis
      by (auto simp: jg_write_u64_be_def jg_write_u32_be_def)
  qed
qed

theorem jg_write_read_u64_be_witness:
  "jg_read_u64_be (blit (replicate 12 0) 3 [1, 2, 3, 4, 5, 6, 7, 8]) 3 = Some 0x0102030405060708"
proof -
  have "jg_write_u64_be (replicate 12 0) 3 0x0102030405060708
      = (True, blit (replicate 12 0) 3 [1, 2, 3, 4, 5, 6, 7, 8])"
    by code_simp
  from jg_write_read_u64_be [OF this] show ?thesis by simp
qed

end
