(* ===== verification/Utf8.thy ===== *)
theory Utf8
  imports Checked
begin

text \<open>
  The text validator of \<^verbatim>\<open>src/common/checked.c\<close> against the definition of UTF-8: \<open>utf8_encode\<close> is
  the encoding of a Unicode scalar value in its shortest form, and valid text is a concatenation of
  encodings of scalar values that are no ASCII control.
\<close>

section \<open>The encoding\<close>

definition text_scalar :: "nat \<Rightarrow> bool" where
  "text_scalar c \<longleftrightarrow> 0x20 \<le> c \<and> c \<noteq> 0x7F \<and> c < 0x110000 \<and> \<not> (0xD800 \<le> c \<and> c \<le> 0xDFFF)"

definition utf8_codes :: "nat \<Rightarrow> nat list" where
  "utf8_codes c =
     (if c < 0x80 then [c]
      else if c < 0x800 then [0xC0 + c div 64, 0x80 + c mod 64]
      else if c < 0x10000 then [0xE0 + c div 4096, 0x80 + c div 64 mod 64, 0x80 + c mod 64]
      else [0xF0 + c div 262144, 0x80 + c div 4096 mod 64, 0x80 + c div 64 mod 64, 0x80 + c mod 64])"

definition utf8_encode :: "nat \<Rightarrow> bytes" where
  "utf8_encode c = map of_nat (utf8_codes c)"

lemma u8_all: "list_all (\<lambda>n. P (of_nat n)) [0..<256] \<Longrightarrow> P (b :: u8)"
  using unat_u8_less [of b] by (auto simp: list_all_iff dest: bspec [of _ _ "unat b"])

lemma continuation_iff: "(b :: u8) AND 0xC0 = 0x80 \<longleftrightarrow> 0x80 \<le> unat b \<and> unat b < 0xC0"
  by (rule u8_all [where P = "\<lambda>b. b AND 0xC0 = 0x80 \<longleftrightarrow> 0x80 \<le> unat b \<and> unat b < 0xC0"]) code_simp

text \<open>The sequences that one round of the loop accepts, as byte values.\<close>

definition continuation :: "nat \<Rightarrow> bool" where
  "continuation b \<longleftrightarrow> 0x80 \<le> b \<and> b < 0xC0"

fun sequence_ok :: "nat list \<Rightarrow> bool" where
  "sequence_ok [a] \<longleftrightarrow> 0x20 \<le> a \<and> a < 0x7F"
| "sequence_ok [a, b] \<longleftrightarrow> 0xC2 \<le> a \<and> a \<le> 0xDF \<and> continuation b"
| "sequence_ok [a, b, c] \<longleftrightarrow> 0xE0 \<le> a \<and> a \<le> 0xEF \<and> continuation b \<and> continuation c
     \<and> \<not> (a = 0xE0 \<and> b < 0xA0) \<and> \<not> (a = 0xED \<and> b > 0x9F)"
| "sequence_ok [a, b, c, d] \<longleftrightarrow> 0xF0 \<le> a \<and> a \<le> 0xF4 \<and> continuation b \<and> continuation c
     \<and> continuation d \<and> \<not> (a = 0xF0 \<and> b < 0x90) \<and> \<not> (a = 0xF4 \<and> b > 0x8F)"
| "sequence_ok _ \<longleftrightarrow> False"

lemma sequence_ok_codes: "text_scalar c \<Longrightarrow> sequence_ok (utf8_codes c)"
proof -
  assume c: "text_scalar c"
  then have b: "c < 0x110000" by (simp add: text_scalar_def)
  consider "c < 0x80" | "0x80 \<le> c" "c < 0x800" | "0x800 \<le> c" "c < 0x10000" | "0x10000 \<le> c"
    by linarith
  then show ?thesis
  proof cases
    case 3
    define q where "q = c div 64"
    have d: "c div 4096 = q div 64"
      by (simp add: q_def div_mult2_eq [symmetric])
    have "0x20 \<le> q" "q < 0x400" "\<not> (0x360 \<le> q \<and> q < 0x380)"
      using 3 c unfolding q_def text_scalar_def by auto
    then have "\<not> (q div 64 = 0 \<and> q mod 64 < 0x20)" "\<not> (q div 64 = 13 \<and> q mod 64 > 0x1F)" "q div 64 \<le> 0xF"
      using div_mult_mod_eq [of q 64] by linarith+
    with 3 show ?thesis
      by (auto simp: utf8_codes_def continuation_def d simp flip: q_def)
  next
    case 4
    define q where "q = c div 4096"
    have d: "c div 262144 = q div 64"
      by (simp add: q_def div_mult2_eq [symmetric])
    have "0x10 \<le> q" "q < 0x110"
      using 4 b unfolding q_def by auto
    then have "\<not> (q div 64 = 0 \<and> q mod 64 < 0x10)" "\<not> (q div 64 = 4 \<and> q mod 64 > 0xF)" "q div 64 \<le> 4"
      using div_mult_mod_eq [of q 64] by linarith+
    with 4 show ?thesis
      by (auto simp: utf8_codes_def continuation_def d simp flip: q_def)
  qed (use c in \<open>auto simp: utf8_codes_def continuation_def text_scalar_def\<close>)
qed

lemma digit: "k \<le> (a :: nat) \<Longrightarrow> a < k + n \<Longrightarrow> \<exists>a'. a = k + a' \<and> a' < n"
  by (auto simp: nat_le_iff_add)

lemma sequence_ok_decode: "sequence_ok s \<Longrightarrow> \<exists>c. text_scalar c \<and> s = utf8_codes c"
proof (induction s rule: sequence_ok.induct)
  case (1 a)
  then show ?case by (intro exI [of _ a]) (simp add: text_scalar_def utf8_codes_def)
next
  case (2 a b)
  then obtain a' b' where "a = 0xC0 + a'" "a' < 32" "b = 0x80 + b'" "b' < 64"
    using digit [of "0xC0" a 32] digit [of "0x80" b 64] by (auto simp: continuation_def)
  with 2 show ?case
    by (intro exI [of _ "a' * 64 + b'"]) (auto simp: text_scalar_def utf8_codes_def)
next
  case (3 a b c)
  then obtain a' b' c' where "a = 0xE0 + a'" "a' < 16" "b = 0x80 + b'" "b' < 64" "c = 0x80 + c'" "c' < 64"
    using digit [of "0xE0" a 16] digit [of "0x80" b 64] digit [of "0x80" c 64]
    by (auto simp: continuation_def)
  note eqs = this
  define q where "q = a' * 64 + b'"
  define v where "v = q * 64 + c'"
  have "\<not> (a' = 0 \<and> b' < 32)" "\<not> (a' = 13 \<and> b' > 31)"
    using eqs 3 by auto
  moreover have "a' = 0 \<or> 1 \<le> a' \<and> a' \<le> 12 \<or> a' = 13 \<or> 14 \<le> a'"
    by linarith
  ultimately have q: "0x20 \<le> q" "q < 0x400" "\<not> (0x360 \<le> q \<and> q < 0x380)"
    using \<open>a' < 16\<close> \<open>b' < 64\<close> unfolding q_def by auto
  have "v mod 64 = c'" "v div 64 = q"
    using eqs by (simp_all add: v_def)
  moreover have "q mod 64 = b'" "q div 64 = a'"
    using eqs by (simp_all add: q_def)
  moreover have "v div 4096 = q div 64"
    by (simp add: div_mult2_eq [symmetric] add: \<open>v div 64 = q\<close> [symmetric])
  moreover from q have "0x800 \<le> v" "v < 0x10000" "\<not> (0xD800 \<le> v \<and> v \<le> 0xDFFF)"
    using eqs unfolding v_def by linarith+
  ultimately show ?case
    using eqs by (intro exI [of _ v]) (simp add: text_scalar_def utf8_codes_def)
next
  case (4 a b c d)
  then obtain a' b' c' d' where eqs: "a = 0xF0 + a'" "a' < 8" "b = 0x80 + b'" "b' < 64"
    "c = 0x80 + c'" "c' < 64" "d = 0x80 + d'" "d' < 64"
    using digit [of "0xF0" a 8] digit [of "0x80" b 64] digit [of "0x80" c 64] digit [of "0x80" d 64]
    by (auto simp: continuation_def)
  define p where "p = a' * 64 + b'"
  define q where "q = p * 64 + c'"
  define v where "v = q * 64 + d'"
  have "v mod 64 = d'" "v div 64 = q"
    using eqs by (simp_all add: v_def)
  moreover have "q mod 64 = c'" "q div 64 = p"
    using eqs by (simp_all add: q_def)
  moreover have "p mod 64 = b'" "p div 64 = a'"
    using eqs by (simp_all add: p_def)
  moreover have "v div 4096 = p"
    using \<open>v div 64 = q\<close> \<open>q div 64 = p\<close> div_mult2_eq [of v 64 64] by simp
  moreover have "v div 262144 = p div 64"
    using \<open>v div 4096 = p\<close> div_mult2_eq [of v 4096 64] by simp
  moreover have "0x10 \<le> p" "p < 0x110"
    using eqs 4 unfolding p_def sequence_ok.simps by linarith+
  then have "0x10000 \<le> v" "v < 0x110000"
    using eqs unfolding v_def q_def distrib_right mult.assoc by simp_all
  ultimately show ?case
    using eqs by (intro exI [of _ v]) (simp add: text_scalar_def utf8_codes_def)
qed auto

lemma map_unat_encode: "text_scalar c \<Longrightarrow> map unat (utf8_encode c) = utf8_codes c"
proof -
  assume "text_scalar c"
  then have "k < 256" if "k \<in> set (utf8_codes c)" for k
    using that sequence_ok_codes [of c]
    by (cases "utf8_codes c" rule: sequence_ok.cases) (auto simp: continuation_def)
  then show ?thesis
    by (auto simp: utf8_encode_def unat_of_nat intro!: map_idI)
qed

lemmas byte_nat = word_le_nat_alt word_less_nat_alt 

text \<open>One round of the loop, and the whole loop.\<close>

lemma drop_nth: "drop i data = s @ rest \<Longrightarrow> k < length s \<Longrightarrow> data ! (i + k) = s ! k \<and> i + k < length data"
  by (metis (no_types, lifting) add.commute drop_drop drop_eq_Nil2 leI length_append length_drop
      less_diff_conv nth_append nth_drop trans_less_add1 list.size(3) not_less_zero nless_le)

lemma utf8_loop_step:
  assumes "drop i data = s @ rest" and "sequence_ok (map unat s)"
  shows "utf8_loop data i \<longleftrightarrow> utf8_loop data (i + length s)"
proof -
  have l: "length data - i = length s + length rest"
    using arg_cong [OF assms(1), of length] by simp
  have "sequence_ok (map unat s) \<Longrightarrow> \<exists>a b c d. s = [a] \<or> s = [a, b] \<or> s = [a, b, c] \<or> s = [a, b, c, d]"
    by (cases "map unat s" rule: sequence_ok.cases) (auto simp: map_eq_Cons_conv)
  with assms(2) obtain a b c d where "s = [a] \<or> s = [a, b] \<or> s = [a, b, c] \<or> s = [a, b, c, d]"
    by blast
  then consider "s = [a]" | "s = [a, b]" | "s = [a, b, c]" | "s = [a, b, c, d]"
    by blast
  then show ?thesis
  proof cases
    case 1
    with assms l drop_nth [OF assms(1), of 0] have "data ! i = a" "i < length data" "a \<le> 0x7F" "\<not> a < 0x20" "a \<noteq> 0x7F"
      by (auto simp: byte_nat)
    with 1 have "utf8_loop data i = utf8_loop data (i + 1)"
      unfolding utf8_loop.simps [of data i] by (simp only: Let_def if_True if_False simp_thms)
    with 1 show ?thesis by simp
  next
    case 2
    with assms(2) have a: "\<not> a \<le> 0x7F" "utf8_sequence_size a = Some 2" "b AND 0xC0 = 0x80"
      "a \<noteq> 0xE0" "a \<noteq> 0xED" "a \<noteq> 0xF0" "a \<noteq> 0xF4"
      by (auto simp: byte_nat continuation_iff continuation_def)
    with 2 l drop_nth [OF assms(1), of 0] drop_nth [OF assms(1), of 1]
    have "data ! i = a" "data ! (i + 1) = b" "i < length data" "\<not> 2 > length data - i"
      by auto
    moreover have "length s = 2"
      using 2 by simp
    ultimately show ?thesis
      using a by (subst utf8_loop.simps) (auto simp: Let_def simp del: utf8_sequence_size.simps)
  next
    case 3
    with assms(2) have a: "\<not> a \<le> 0x7F" "utf8_sequence_size a = Some 3" "b AND 0xC0 = 0x80" "c AND 0xC0 = 0x80"
      "\<not> (a = 0xE0 \<and> b < 0xA0)" "\<not> (a = 0xED \<and> b > 0x9F)" "a \<noteq> 0xF0" "a \<noteq> 0xF4"
      by (auto simp: byte_nat continuation_iff continuation_def)
    with 3 l drop_nth [OF assms(1), of 0] drop_nth [OF assms(1), of 1] drop_nth [OF assms(1), of 2]
    have "data ! i = a" "data ! (i + 1) = b" "data ! (i + 2) = c" "i < length data" "\<not> 3 > length data - i"
      by auto
    moreover have "length s = 3"
      using 3 by simp
    ultimately show ?thesis
      using a by (subst utf8_loop.simps) (auto simp: Let_def simp del: utf8_sequence_size.simps)
  next
    case 4
    with assms(2) have a: "\<not> a \<le> 0x7F" "utf8_sequence_size a = Some 4" "b AND 0xC0 = 0x80" "c AND 0xC0 = 0x80"
      "d AND 0xC0 = 0x80" "a \<noteq> 0xE0" "a \<noteq> 0xED" "\<not> (a = 0xF0 \<and> b < 0x90)" "\<not> (a = 0xF4 \<and> b > 0x8F)"
      by (auto simp: byte_nat continuation_iff continuation_def)
    with 4 l drop_nth [OF assms(1), of 0] drop_nth [OF assms(1), of 1] drop_nth [OF assms(1), of 2]
      drop_nth [OF assms(1), of 3]
    have "data ! i = a" "data ! (i + 1) = b" "data ! (i + 2) = c" "data ! (i + 3) = d" "i < length data"
      "\<not> 4 > length data - i"
      by (auto simp: numeral_3_eq_3)
    moreover have "length s = 4"
      using 4 by simp
    ultimately show ?thesis
      using a by (subst utf8_loop.simps) (auto simp: Let_def simp del: utf8_sequence_size.simps)
  qed
qed

lemma drop_Cons: "i < length data \<Longrightarrow> drop i data = data ! i # drop (i + 1) data"
  by (simp add: Cons_nth_drop_Suc)

lemma utf8_sequence_size_cases:
  "utf8_sequence_size a = Some n \<Longrightarrow>
   n = 2 \<and> 0xC2 \<le> unat a \<and> unat a \<le> 0xDF \<or> n = 3 \<and> 0xE0 \<le> unat a \<and> unat a \<le> 0xEF
   \<or> n = 4 \<and> 0xF0 \<le> unat a \<and> unat a \<le> 0xF4"
  by (auto simp: byte_nat split: if_splits)

lemma utf8_loop_accepts:
  assumes "utf8_loop data i" and "i < length data"
  obtains n where "sequence_ok (map unat (slice i n data))"
proof (cases "data ! i \<le> 0x7F")
  case True
  with assms have "sequence_ok (map unat (slice i 1 data))"
    by (subst (asm) utf8_loop.simps)
      (auto simp: Let_def byte_nat slice_def drop_Cons word_unat_eq_iff split: if_splits)
  with that show ?thesis .
next
  case False
  let ?b = "\<lambda>k. data ! (i + k)"
  from assms False obtain n where n: "utf8_sequence_size (data ! i) = Some n" "n \<le> length data - i"
    and ok: "?b 1 AND 0xC0 = 0x80" "3 \<le> n \<longrightarrow> ?b 2 AND 0xC0 = 0x80" "n = 4 \<longrightarrow> ?b 3 AND 0xC0 = 0x80"
    and ok2: "\<not> (?b 0 = 0xE0 \<and> ?b 1 < 0xA0)" "\<not> (?b 0 = 0xED \<and> ?b 1 > 0x9F)"
       "\<not> (?b 0 = 0xF0 \<and> ?b 1 < 0x90)" "\<not> (?b 0 = 0xF4 \<and> ?b 1 > 0x8F)"
    by (subst (asm) utf8_loop.simps)
      (auto simp: Let_def simp del: utf8_sequence_size.simps split: if_splits option.splits)
  have "slice i n data = map ?b [0..<n]"
    using n(2) assms(2) by (intro nth_equalityI) auto
  moreover have "[0..<2] = [0, 1 :: nat]" "[0..<3] = [0, 1, 2 :: nat]" "[0..<4] = [0, 1, 2, 3 :: nat]"
    by (simp_all add: upt_rec)
  ultimately have "sequence_ok (map unat (slice i n data))"
    using ok [unfolded continuation_iff] ok2 utf8_sequence_size_cases [OF n(1)]
    by (elim disjE conjE) (simp_all add: continuation_iff continuation_def byte_nat word_unat_eq_iff)
  with that show ?thesis .
qed

lemma utf8_loop_iff:
  "utf8_loop data i \<longleftrightarrow>
   (\<exists>cs. list_all text_scalar cs \<and> drop i data = concat (map utf8_encode cs))"
proof (induction "length data - i" arbitrary: i rule: less_induct)
  case less
  show ?case
  proof (cases "i < length data")
    case False
    then show ?thesis
      by (subst utf8_loop.simps) (auto intro!: exI [of _ "[]"])
  next
    case True
    show ?thesis
    proof
      assume "utf8_loop data i"
      from utf8_loop_accepts [OF this True] obtain n
        where "sequence_ok (map unat (slice i n data))" .
      then obtain s rest where s: "drop i data = s @ rest" "sequence_ok (map unat s)"
        using append_take_drop_id [of n "drop i data"] unfolding slice_def by metis
      then have "s \<noteq> []" by auto
      with True have "length data - (i + length s) < length data - i" by (cases s) auto
      moreover have "utf8_loop data (i + length s)"
        using utf8_loop_step [OF s] \<open>utf8_loop data i\<close> by simp
      ultimately obtain cs where cs: "list_all text_scalar cs" "drop (i + length s) data = concat (map utf8_encode cs)"
        using less by blast
      obtain c where c: "text_scalar c" "map unat s = utf8_codes c"
        using sequence_ok_decode [OF s(2)] by blast
      have "s = utf8_encode c"
        unfolding utf8_encode_def c(2) [symmetric] by (simp add: map_idI)
      moreover have "drop (i + length s) data = rest"
        using arg_cong [OF s(1), of "drop (length s)"] by (simp add: add.commute)
      ultimately show "\<exists>cs. list_all text_scalar cs \<and> drop i data = concat (map utf8_encode cs)"
        using c(1) cs s(1) by (intro exI [of _ "c # cs"]) simp
    next
      assume "\<exists>cs. list_all text_scalar cs \<and> drop i data = concat (map utf8_encode cs)"
      then obtain c cs where cs: "text_scalar c" "list_all text_scalar cs"
        "drop i data = utf8_encode c @ concat (map utf8_encode cs)"
        using True by (metis concat.simps(2) drop_eq_Nil2 leD list.exhaust list.map(2) list.pred_inject(2) concat.simps(1) list.map(1))
      have ok: "sequence_ok (map unat (utf8_encode c))"
        using sequence_ok_codes [OF cs(1)] map_unat_encode [OF cs(1)] by simp
      have "drop (i + length (utf8_encode c)) data = concat (map utf8_encode cs)"
        using arg_cong [OF cs(3), of "drop (length (utf8_encode c))"] by (simp add: add.commute)
      moreover have "length data - (i + length (utf8_encode c)) < length data - i"
        using ok True by (cases "utf8_encode c") auto
      ultimately have "utf8_loop data (i + length (utf8_encode c))"
        using less cs(2) by blast
      with utf8_loop_step [OF cs(3) ok] show "utf8_loop data i" by simp
    qed
  qed
qed

section \<open>The validator\<close>

text \<open>
  C39. The text validator accepts exactly UTF-8: a byte string is accepted when it is a concatenation
  of shortest-form encodings of Unicode scalar values (no surrogate, at most U+10FFFF) none of which
  is an ASCII control or DEL, and the empty string when the caller allows it.
\<close>

theorem jg_utf8_text_valid_exact:
  "jg_utf8_text_valid data allow_empty \<longleftrightarrow>
   \<not> (data = [] \<and> \<not> allow_empty)
   \<and> (\<exists>cs. list_all text_scalar cs \<and> data = concat (map utf8_encode cs))"
  using utf8_loop_iff [of data 0] by (auto simp: jg_utf8_text_valid_def)

end
