(* ===== verification/Packet.thy ===== *)
theory Packet
  imports Checked
begin

text \<open>
  \<^verbatim>\<open>src/common/packet.c\<close>: the bounded Ethernet, IPv4, IPv6, UDP and TCP parser. A parser step
  takes the packet view and returns it updated. \<open>Fail e\<close> is the return of the error code \<open>e\<close>, after
  which the view is cleared; \<open>Done\<close> keeps the view, for \<open>JG_PACKET_OK\<close> and for \<open>JG_PACKET_NON_IP\<close>;
  \<open>Fault\<close> is an access outside the frame or outside an array of the view.
\<close>

section \<open>Data\<close>

datatype jg_packet_result =
    JG_PACKET_OK | JG_PACKET_NON_IP | JG_PACKET_TRUNCATED | JG_PACKET_MALFORMED
  | JG_PACKET_LIMIT_EXCEEDED

datatype jg_ip_version = JG_IP_NONE | JG_IP_V4 | JG_IP_V6

datatype jg_transport_protocol =
  JG_TRANSPORT_NONE | JG_TRANSPORT_UDP | JG_TRANSPORT_TCP | JG_TRANSPORT_OTHER

record jg_packet_limits =
  max_vlan_tags :: nat
  max_ipv6_extensions :: nat
  max_ipv6_extension_bytes :: nat

text \<open>
  The view. \<open>frame_size\<close> is the length of \<open>frame\<close>. \<open>vlan_tci\<close> holds the tags stored so far, so
  \<open>vlan_count\<close> is its length.
\<close>

record jg_packet_view =
  frame :: bytes
  ether_type_offset :: nat
  ether_type :: u16
  vlan_tci :: "u16 list"
  network_offset :: nat
  ip_version :: jg_ip_version
  source_address :: bytes
  destination_address :: bytes
  address_size :: nat
  fragment_id :: u32
  fragment_offset :: nat
  more_fragments :: bool
  fragmented :: bool
  ip_protocol :: u8
  transport_offset :: nat
  transport_size :: nat
  transport :: jg_transport_protocol
  source_port :: u16
  destination_port :: u16
  tcp_sequence :: u32
  tcp_acknowledgement :: u32
  tcp_flags :: u8
  payload_offset :: nat
  payload_size :: nat
  transport_complete :: bool

abbreviation frame_size :: "jg_packet_view \<Rightarrow> nat" where
  "frame_size v \<equiv> length (frame v)"

abbreviation vlan_count :: "jg_packet_view \<Rightarrow> nat" where
  "vlan_count v \<equiv> length (vlan_tci v)"

type_synonym parsed = "(jg_packet_result, jg_packet_view) run"

definition JG_PACKET_VLAN_LIMIT :: nat where "JG_PACKET_VLAN_LIMIT = 8"
definition JG_PACKET_ADDRESS_SIZE :: nat where "JG_PACKET_ADDRESS_SIZE = 16"

abbreviation JG_ETHERTYPE_IPV4 :: u16 where "JG_ETHERTYPE_IPV4 \<equiv> 0x0800"
abbreviation JG_ETHERTYPE_IPV6 :: u16 where "JG_ETHERTYPE_IPV6 \<equiv> 0x86DD"
abbreviation JG_IPPROTO_FRAGMENT :: u8 where "JG_IPPROTO_FRAGMENT \<equiv> 44"
abbreviation JG_IPPROTO_ESP :: u8 where "JG_IPPROTO_ESP \<equiv> 50"
abbreviation JG_IPPROTO_AH :: u8 where "JG_IPPROTO_AH \<equiv> 51"
abbreviation IPPROTO_UDP :: u8 where "IPPROTO_UDP \<equiv> 17"
abbreviation IPPROTO_TCP :: u8 where "IPPROTO_TCP \<equiv> 6"

text \<open>The view after \<open>memset(view, 0, sizeof(*view))\<close>.\<close>

definition cleared_view :: jg_packet_view where
  "cleared_view =
     \<lparr>frame = [], ether_type_offset = 0, ether_type = 0, vlan_tci = [], network_offset = 0,
      ip_version = JG_IP_NONE, source_address = replicate 16 0, destination_address = replicate 16 0,
      address_size = 0, fragment_id = 0, fragment_offset = 0, more_fragments = False,
      fragmented = False, ip_protocol = 0, transport_offset = 0, transport_size = 0,
      transport = JG_TRANSPORT_NONE, source_port = 0, destination_port = 0, tcp_sequence = 0,
      tcp_acknowledgement = 0, tcp_flags = 0, payload_offset = 0, payload_size = 0,
      transport_complete = False\<rparr>"

section \<open>Transport headers\<close>

definition is_vlan_ether_type :: "u16 \<Rightarrow> bool" where
  "is_vlan_ether_type t \<longleftrightarrow> t = 0x8100 \<or> t = 0x88A8 \<or> t = 0x9100"

abbreviation read16 :: "jg_packet_view \<Rightarrow> nat \<Rightarrow> (jg_packet_result, u16) run" where
  "read16 view off \<equiv> or_fail JG_PACKET_TRUNCATED (jg_read_u16_be (frame view) off)"

abbreviation read32 :: "jg_packet_view \<Rightarrow> nat \<Rightarrow> (jg_packet_result, u32) run" where
  "read32 view off \<equiv> or_fail JG_PACKET_TRUNCATED (jg_read_u32_be (frame view) off)"

definition parse_udp :: "jg_packet_view \<Rightarrow> parsed" where
  "parse_udp view =
     (if transport_size view < 8 then Fail JG_PACKET_TRUNCATED else
      and_then (read16 view (transport_offset view)) (\<lambda>sp.
      and_then (read16 view (transport_offset view + 2)) (\<lambda>dp.
      and_then (read16 view (transport_offset view + 4)) (\<lambda>udp_length.
        if udp_length < 8 then Fail JG_PACKET_MALFORMED
        else let view = view\<lparr>source_port := sp, destination_port := dp,
                             payload_offset := transport_offset view + 8\<rparr>
        in if unat udp_length \<le> transport_size view
           then Done (view\<lparr>payload_size := unat udp_length - 8, transport_complete := True,
                           transport := JG_TRANSPORT_UDP\<rparr>)
           else if fragmented view \<and> more_fragments view
           then Done (view\<lparr>payload_size := transport_size view - 8, transport_complete := False,
                           transport := JG_TRANSPORT_UDP\<rparr>)
           else Fail JG_PACKET_TRUNCATED))))"

definition parse_tcp :: "jg_packet_view \<Rightarrow> parsed" where
  "parse_tcp view =
     (if transport_size view < 20 then Fail JG_PACKET_TRUNCATED else
      and_then (read16 view (transport_offset view)) (\<lambda>sp.
      and_then (read16 view (transport_offset view + 2)) (\<lambda>dp.
      and_then (read32 view (transport_offset view + 4)) (\<lambda>sq.
      and_then (read32 view (transport_offset view + 8)) (\<lambda>ack.
      and_then (raw (byte_at (frame view) (transport_offset view + 12))) (\<lambda>b.
        let data_offset_words = drop_bit 4 b in
        if data_offset_words < 5 then Fail JG_PACKET_MALFORMED
        else let header_size = unat data_offset_words * 4 in
        if header_size > transport_size view then Fail JG_PACKET_TRUNCATED
        else and_then (raw (byte_at (frame view) (transport_offset view + 13))) (\<lambda>flags.
          Done (view\<lparr>source_port := sp, destination_port := dp, tcp_sequence := sq,
                     tcp_acknowledgement := ack, tcp_flags := flags,
                     payload_offset := transport_offset view + header_size,
                     payload_size := transport_size view - header_size,
                     transport_complete := (\<not> fragmented view \<or> \<not> more_fragments view),
                     transport := JG_TRANSPORT_TCP\<rparr>))))))))"

definition parse_transport :: "jg_packet_view \<Rightarrow> parsed" where
  "parse_transport view =
     (if fragmented view \<and> fragment_offset view \<noteq> 0 then
        Done (view\<lparr>transport := JG_TRANSPORT_NONE, payload_offset := transport_offset view,
                   payload_size := transport_size view\<rparr>)
      else if ip_protocol view = IPPROTO_UDP then parse_udp view
      else if ip_protocol view = IPPROTO_TCP then parse_tcp view
      else Done (view\<lparr>transport := JG_TRANSPORT_OTHER, payload_offset := transport_offset view,
                      payload_size := transport_size view,
                      transport_complete := (\<not> fragmented view \<or> \<not> more_fragments view)\<rparr>))"

section \<open>Network headers\<close>

text \<open>\<open>memcpy\<close> of an address of the frame into a 16-byte array of the view.\<close>

definition copy_address :: "bytes \<Rightarrow> nat \<Rightarrow> nat \<Rightarrow> bytes \<Rightarrow> (jg_packet_result, bytes) run" where
  "copy_address f off n array =
     and_then (raw (bytes_at f off n)) (\<lambda>src. raw (store_at array 0 src))"

definition parse_ipv4 :: "jg_packet_view \<Rightarrow> parsed" where
  "parse_ipv4 view =
     (let available = frame_size view - network_offset view; n = network_offset view in
      if available < 20 then Fail JG_PACKET_TRUNCATED else
      and_then (raw (byte_at (frame view) n)) (\<lambda>first.
        if drop_bit 4 first \<noteq> 4 then Fail JG_PACKET_MALFORMED
        else let header_size = unat (first AND 0x0F) * 4 in
        if header_size < 20 then Fail JG_PACKET_MALFORMED
        else if header_size > available then Fail JG_PACKET_TRUNCATED
        else
        and_then (read16 view (n + 2)) (\<lambda>total_length.
        and_then (read16 view (n + 4)) (\<lambda>identification.
        and_then (read16 view (n + 6)) (\<lambda>fragment_field.
          if unat total_length < header_size then Fail JG_PACKET_MALFORMED
          else if unat total_length > available then Fail JG_PACKET_TRUNCATED
          else
          and_then (copy_address (frame view) (n + 12) 4 (source_address view)) (\<lambda>sa.
          and_then (copy_address (frame view) (n + 16) 4 (destination_address view)) (\<lambda>da.
          and_then (raw (byte_at (frame view) (n + 9))) (\<lambda>protocol.
            let offset = unat (fragment_field AND 0x1FFF) * 8; more = (fragment_field AND 0x2000 \<noteq> 0) in
            parse_transport (view\<lparr>ip_version := JG_IP_V4, address_size := 4, source_address := sa,
              destination_address := da, fragment_id := ucast identification,
              fragment_offset := offset, more_fragments := more,
              fragmented := (offset \<noteq> 0 \<or> more), ip_protocol := protocol,
              transport_offset := n + header_size,
              transport_size := unat total_length - header_size\<rparr>)))))))))"

definition is_ipv6_common_extension :: "u8 \<Rightarrow> bool" where
  "is_ipv6_common_extension h \<longleftrightarrow> h = 0 \<or> h = 43 \<or> h = 60 \<or> h = 135"

text \<open>
  The branch of the loop body that sizes one extension header; a Fragment header also updates the
  fragment fields of the view.
\<close>

definition extension_header ::
  "jg_packet_view \<Rightarrow> u8 \<Rightarrow> nat \<Rightarrow> nat \<Rightarrow> (jg_packet_result, jg_packet_view \<times> nat) run" where
  "extension_header view next_header cursor remaining =
     (if next_header = JG_IPPROTO_FRAGMENT then
        (if remaining < 8 then Fail JG_PACKET_TRUNCATED else
         and_then (read16 view (cursor + 2)) (\<lambda>fragment_field.
         and_then (read32 view (cursor + 4)) (\<lambda>i.
           if fragment_field AND 0x0006 \<noteq> 0 then Fail JG_PACKET_MALFORMED
           else Done (view\<lparr>fragment_id := i, fragmented := True,
                  fragment_offset := unat (drop_bit 3 (fragment_field AND 0xFFF8)) * 8,
                  more_fragments := (fragment_field AND 0x0001 \<noteq> 0)\<rparr>, 8))))
      else if next_header = JG_IPPROTO_AH then
        and_then (raw (byte_at (frame view) (cursor + 1))) (\<lambda>l. Done (view, (unat l + 2) * 4))
      else
        and_then (raw (byte_at (frame view) (cursor + 1))) (\<lambda>l. Done (view, (unat l + 1) * 8)))"

lemma extension_header_size: "extension_header view h c r = Done (v, s) \<Longrightarrow> 0 < s"
  by (auto simp: extension_header_def split: if_splits)

function extension_loop ::
  "jg_packet_limits \<Rightarrow> jg_packet_view \<Rightarrow> u8 \<Rightarrow> nat \<Rightarrow> nat \<Rightarrow> nat \<Rightarrow> nat \<Rightarrow>
   (jg_packet_result, jg_packet_view \<times> u8 \<times> nat \<times> nat) run"
where
  "extension_loop limits view next_header cursor remaining extension_count extension_bytes =
     (if \<not> (is_ipv6_common_extension next_header \<or> next_header = JG_IPPROTO_FRAGMENT
             \<or> next_header = JG_IPPROTO_AH)
      then Done (view, next_header, cursor, remaining)
      else if extension_count \<ge> max_ipv6_extensions limits then Fail JG_PACKET_LIMIT_EXCEEDED
      else if remaining < 2 then Fail JG_PACKET_TRUNCATED
      else and_then (extension_header view next_header cursor remaining) (\<lambda>(view', extension_size).
        if extension_size > remaining then Fail JG_PACKET_TRUNCATED
        else and_then (or_fail JG_PACKET_LIMIT_EXCEEDED (jg_size_add extension_bytes extension_size))
          (\<lambda>bytes'.
            if bytes' > max_ipv6_extension_bytes limits then Fail JG_PACKET_LIMIT_EXCEEDED
            else and_then (raw (byte_at (frame view') cursor)) (\<lambda>next_header'.
              if fragmented view' \<and> fragment_offset view' \<noteq> 0
              then Done (view', next_header', cursor + extension_size, remaining - extension_size)
              else extension_loop limits view' next_header' (cursor + extension_size)
                     (remaining - extension_size) (extension_count + 1) bytes'))))"
  by pat_completeness auto
termination
  by (relation "measure (\<lambda>(l, v, h, c, r, n, b). r)") (auto dest: extension_header_size)

declare extension_loop.simps [simp del]

definition parse_ipv6_extensions :: "jg_packet_view \<Rightarrow> jg_packet_limits \<Rightarrow> u8 \<Rightarrow> parsed" where
  "parse_ipv6_extensions view limits first_next_header =
     and_then (extension_loop limits view first_next_header (network_offset view + 40)
                (transport_size view) 0 0) (\<lambda>(view, next_header, cursor, remaining).
       let view = view\<lparr>ip_protocol := next_header, transport_offset := cursor,
                       transport_size := remaining\<rparr> in
       if next_header = JG_IPPROTO_ESP then
         Done (view\<lparr>transport := JG_TRANSPORT_OTHER, payload_offset := cursor,
                    payload_size := remaining,
                    transport_complete := (\<not> fragmented view \<or> \<not> more_fragments view)\<rparr>)
       else parse_transport view)"

definition parse_ipv6 :: "jg_packet_view \<Rightarrow> jg_packet_limits \<Rightarrow> parsed" where
  "parse_ipv6 view limits =
     (let available = frame_size view - network_offset view; n = network_offset view in
      if available < 40 then Fail JG_PACKET_TRUNCATED else
      and_then (raw (byte_at (frame view) n)) (\<lambda>first.
        if drop_bit 4 first \<noteq> 6 then Fail JG_PACKET_MALFORMED else
        and_then (read16 view (n + 4)) (\<lambda>payload_length.
          if unat payload_length > available - 40 then Fail JG_PACKET_TRUNCATED else
          and_then (copy_address (frame view) (n + 8) 16 (source_address view)) (\<lambda>sa.
          and_then (copy_address (frame view) (n + 24) 16 (destination_address view)) (\<lambda>da.
          and_then (raw (byte_at (frame view) (n + 6))) (\<lambda>next_header.
            parse_ipv6_extensions (view\<lparr>ip_version := JG_IP_V6,
              address_size := JG_PACKET_ADDRESS_SIZE, source_address := sa,
              destination_address := da, transport_offset := n + 40,
              transport_size := unat payload_length\<rparr>) limits next_header))))))"

section \<open>Frames\<close>

definition jg_packet_limits_default :: jg_packet_limits where
  "jg_packet_limits_default =
     \<lparr>max_vlan_tags = 4, max_ipv6_extensions = 8, max_ipv6_extension_bytes = 2048\<rparr>"

text \<open>The loop over stacked VLAN tags; it returns the view, the EtherType and the cursor.\<close>

function vlan_loop ::
  "jg_packet_limits \<Rightarrow> jg_packet_view \<Rightarrow> u16 \<Rightarrow> nat \<Rightarrow>
   (jg_packet_result, jg_packet_view \<times> u16 \<times> nat) run"
where
  "vlan_loop limits view ether cursor =
     (if \<not> is_vlan_ether_type ether then Done (view, ether, cursor)
      else if vlan_count view \<ge> max_vlan_tags limits then Fail JG_PACKET_LIMIT_EXCEEDED
      else and_then (read16 view cursor) (\<lambda>tag.
        and_then (read16 view (cursor + 2)) (\<lambda>ether'.
          if \<not> vlan_count view < JG_PACKET_VLAN_LIMIT then Fault
          else vlan_loop limits (view\<lparr>vlan_tci := vlan_tci view @ [tag],
                 ether_type_offset := cursor + 2\<rparr>) ether' (cursor + 4))))"
  by pat_completeness auto
termination
  by (relation "measure (\<lambda>(l, v, e, c). max_vlan_tags l - vlan_count v)") auto

declare vlan_loop.simps [simp del]

text \<open>
  \<open>jg_packet_parse\<close>; a null \<open>frame\<close> or \<open>view\<close> is not represented, a null \<open>limits\<close> is \<open>None\<close>.
\<close>

definition jg_packet_parse ::
  "bytes \<Rightarrow> jg_packet_limits option \<Rightarrow> (jg_packet_result, jg_packet_result \<times> jg_packet_view) run" where
  "jg_packet_parse f limits =
     (let active = (case limits of None \<Rightarrow> jg_packet_limits_default | Some l \<Rightarrow> l) in
      if max_vlan_tags active > JG_PACKET_VLAN_LIMIT \<or> max_ipv6_extensions active = 0
         \<or> max_ipv6_extension_bytes active = 0
      then Fail JG_PACKET_MALFORMED
      else if length f < 14 then Fail JG_PACKET_TRUNCATED
      else and_then (or_fail JG_PACKET_TRUNCATED (jg_read_u16_be f 12)) (\<lambda>ether0.
        and_then (vlan_loop active (cleared_view\<lparr>frame := f, ether_type_offset := 12\<rparr>) ether0 14)
          (\<lambda>(view, ether, cursor).
            let view = view\<lparr>ether_type := ether, network_offset := cursor\<rparr> in
            if ether = JG_ETHERTYPE_IPV4
            then and_then (parse_ipv4 view) (\<lambda>view. Done (JG_PACKET_OK, view))
            else if ether = JG_ETHERTYPE_IPV6
            then and_then (parse_ipv6 view active) (\<lambda>view. Done (JG_PACKET_OK, view))
            else Done (JG_PACKET_NON_IP, view))))"

section \<open>What a view describes\<close>

text \<open>The part of a view that the transport parsers leave alone.\<close>

definition network_part where
  "network_part v = (frame v, ether_type_offset v, ether_type v, vlan_tci v, network_offset v,
     ip_version v, address_size v, source_address v, destination_address v, ip_protocol v,
     transport_offset v, transport_size v, fragment_id v, fragment_offset v, more_fragments v,
     fragmented v)"

definition transport_valid :: "jg_packet_view \<Rightarrow> bool" where
  "transport_valid v \<longleftrightarrow> (let t = transport_offset v; f = frame v in
     t + transport_size v \<le> length f \<and> t \<le> payload_offset v
     \<and> payload_offset v + payload_size v \<le> t + transport_size v
     \<and> (case transport v of
          JG_TRANSPORT_NONE \<Rightarrow> fragmented v \<and> fragment_offset v \<noteq> 0
            \<and> payload_offset v = t \<and> payload_size v = transport_size v
        | JG_TRANSPORT_UDP \<Rightarrow> ip_protocol v = IPPROTO_UDP
            \<and> source_port v = be16 f t \<and> destination_port v = be16 f (t + 2)
            \<and> payload_offset v = t + 8
            \<and> (if transport_complete v then payload_size v + 8 = unat (be16 f (t + 4))
               else fragmented v \<and> more_fragments v \<and> transport_size v < unat (be16 f (t + 4))
                 \<and> payload_size v + 8 = transport_size v)
        | JG_TRANSPORT_TCP \<Rightarrow> ip_protocol v = IPPROTO_TCP
            \<and> source_port v = be16 f t \<and> destination_port v = be16 f (t + 2)
            \<and> tcp_sequence v = be32 f (t + 4) \<and> tcp_acknowledgement v = be32 f (t + 8)
            \<and> tcp_flags v = f ! (t + 13)
            \<and> payload_offset v = t + 4 * (unat (f ! (t + 12)) div 16) \<and> t + 20 \<le> payload_offset v
            \<and> payload_offset v + payload_size v = t + transport_size v
            \<and> transport_complete v = (\<not> fragmented v \<or> \<not> more_fragments v)
        | JG_TRANSPORT_OTHER \<Rightarrow> ip_protocol v \<noteq> IPPROTO_UDP \<and> ip_protocol v \<noteq> IPPROTO_TCP
            \<and> payload_offset v = t \<and> payload_size v = transport_size v
            \<and> transport_complete v = (\<not> fragmented v \<or> \<not> more_fragments v)))"

lemma parse_udp_ensures:
  assumes "transport_offset v + transport_size v \<le> frame_size v" and "ip_protocol v = IPPROTO_UDP"
  shows "ensures (parse_udp v) (\<lambda>v'. network_part v' = network_part v \<and> transport_valid v')"
  using assms
  by (auto simp: parse_udp_def network_part_def transport_valid_def Let_def read_be word_less_nat_alt)

lemma parse_tcp_ensures:
  assumes "transport_offset v + transport_size v \<le> frame_size v" and "ip_protocol v = IPPROTO_TCP"
  shows "ensures (parse_tcp v) (\<lambda>v'. network_part v' = network_part v \<and> transport_valid v')"
  using assms
  by (auto simp: parse_tcp_def network_part_def transport_valid_def Let_def read_be word_less_nat_alt
      unat_drop_bit)

lemma parse_transport_ensures:
  assumes "transport_offset v + transport_size v \<le> frame_size v"
  shows "ensures (parse_transport v) (\<lambda>v'. network_part v' = network_part v \<and> transport_valid v')"
  using assms parse_udp_ensures [of v] parse_tcp_ensures [of v]
  by (auto simp: parse_transport_def network_part_def transport_valid_def Let_def)

text \<open>
  The IPv4 and IPv6 headers of a view. For IPv6, every extension header before the transport is
  passed over, so that what follows is not one, unless the packet is a later fragment.
\<close>

definition ipv4_valid :: "jg_packet_view \<Rightarrow> bool" where
  "ipv4_valid v \<longleftrightarrow> (let n = network_offset v; f = frame v in
     ether_type v = JG_ETHERTYPE_IPV4 \<and> ip_version v = JG_IP_V4 \<and> unat (f ! n) div 16 = 4
     \<and> address_size v = 4
     \<and> source_address v = slice (n + 12) 4 f @ replicate 12 0
     \<and> destination_address v = slice (n + 16) 4 f @ replicate 12 0
     \<and> ip_protocol v = f ! (n + 9)
     \<and> transport_offset v = n + 4 * (unat (f ! n) mod 16) \<and> n + 20 \<le> transport_offset v
     \<and> transport_offset v + transport_size v = n + unat (be16 f (n + 2))
     \<and> fragment_id v = ucast (be16 f (n + 4))
     \<and> fragment_offset v = 8 * (unat (be16 f (n + 6)) mod 8192)
     \<and> more_fragments v = bit (be16 f (n + 6)) 13
     \<and> fragmented v = (fragment_offset v \<noteq> 0 \<or> more_fragments v))"

definition is_extension :: "u8 \<Rightarrow> bool" where
  "is_extension h \<longleftrightarrow> is_ipv6_common_extension h \<or> h = JG_IPPROTO_FRAGMENT \<or> h = JG_IPPROTO_AH"

definition ipv6_valid :: "jg_packet_limits \<Rightarrow> jg_packet_view \<Rightarrow> bool" where
  "ipv6_valid limits v \<longleftrightarrow> (let n = network_offset v; f = frame v in
     ether_type v = JG_ETHERTYPE_IPV6 \<and> ip_version v = JG_IP_V6 \<and> unat (f ! n) div 16 = 6
     \<and> address_size v = 16
     \<and> source_address v = slice (n + 8) 16 f \<and> destination_address v = slice (n + 24) 16 f
     \<and> n + 40 \<le> transport_offset v
     \<and> transport_offset v \<le> n + 40 + max_ipv6_extension_bytes limits
     \<and> transport_offset v + transport_size v = n + 40 + unat (be16 f (n + 4))
     \<and> (is_extension (ip_protocol v) \<longrightarrow> fragmented v \<and> fragment_offset v \<noteq> 0))"

lemma and_1fff: "unat ((x :: u16) AND 0x1FFF) = unat x mod 8192"
  by (subst and_low_mask [where n = 13]) (simp_all add: mask_eq_exp_minus_1)

lemma and_0f: "unat ((x :: u8) AND 0x0F) = unat x mod 16"
  by (subst and_low_mask [where n = 4]) (simp_all add: mask_eq_exp_minus_1)

lemma and_2000: "(x :: u16) AND 0x2000 = 0 \<longleftrightarrow> \<not> bit x 13"
proof -
  have "(0x2000 :: u16) = 2 ^ 13" by simp
  then show ?thesis by (simp only: and_exp_eq_0_iff_not_bit)
qed

lemma drop_bit_4_eq: "drop_bit 4 (x :: u8) = of_nat k \<longleftrightarrow> unat x div 16 = k" if "k < 16"
proof -
  have "unat (of_nat k :: u8) = k" using that by (simp add: unat_of_nat)
  then show ?thesis using unat_drop_bit [of 4 x] by (auto simp: word_unat_eq_iff)
qed

lemma copy_address_in:
  assumes "off + n \<le> length f" and "n \<le> length array"
  shows "copy_address f off n array = Done (slice off n f @ drop n array)"
  using assms by (simp add: copy_address_def blit_def)

text \<open>The Ethernet part of a view that the network parsers leave alone.\<close>

definition ethernet_part :: "jg_packet_view \<Rightarrow> bytes \<times> nat \<times> u16 \<times> u16 list \<times> nat" where
  "ethernet_part v = (frame v, ether_type_offset v, ether_type v, vlan_tci v, network_offset v)"

lemma parse_transport_keeps:
  assumes "transport_offset w + transport_size w \<le> frame_size w"
    and "\<And>v. network_part v = network_part w \<Longrightarrow> transport_valid v \<Longrightarrow> P v"
  shows "ensures (parse_transport w) P"
  by (rule ensures_mono [OF parse_transport_ensures [OF assms(1)]]) (use assms(2) in blast)

lemma parse_ipv4_ensures:
  assumes "source_address v = replicate 16 0" "destination_address v = replicate 16 0"
    "ether_type v = JG_ETHERTYPE_IPV4"
  shows "ensures (parse_ipv4 v)
    (\<lambda>v'. ethernet_part v' = ethernet_part v \<and> ipv4_valid v' \<and> transport_valid v')"
  unfolding parse_ipv4_def Let_def using assms
  by (auto simp: read_be copy_address_in and_0f drop_bit_4_eq [of 4, simplified] network_part_def
      ethernet_part_def ipv4_valid_def Let_def and_2000 and_1fff intro!: parse_transport_keeps)

text \<open>The extension headers: only the fragment fields of the view change.\<close>

definition fragment_part where
  "fragment_part v = (ethernet_part v, ip_version v, address_size v, source_address v,
     destination_address v)"

lemma extension_header_ensures:
  assumes "c + r \<le> frame_size v" and "2 \<le> r"
  shows "ensures (extension_header v h c r) (\<lambda>(v', s). fragment_part v' = fragment_part v \<and> 0 < s)"
  using assms
  by (auto simp: extension_header_def fragment_part_def ethernet_part_def read_be)

lemma extension_loop_ensures:
  assumes "c + r \<le> frame_size v" and "b \<le> max_ipv6_extension_bytes limits" and "b \<le> SIZE_MAX"
  shows "ensures (extension_loop limits v h c r n b) (\<lambda>(v', h', c', r').
    fragment_part v' = fragment_part v \<and> c \<le> c' \<and> c' + r' = c + r
    \<and> c' + b \<le> c + max_ipv6_extension_bytes limits
    \<and> (is_extension h' \<longrightarrow> fragmented v' \<and> fragment_offset v' \<noteq> 0))"
  using assms
proof (induction limits v h c r n b rule: extension_loop.induct)
  case (1 limits v h c r n b)
  show ?case
  proof (cases "is_extension h \<and> n < max_ipv6_extensions limits \<and> 2 \<le> r")
    case False
    then show ?thesis
      using 1 by (subst extension_loop.simps) (auto simp: is_extension_def)
  next
    case True
    have hd: "ensures (extension_header v h c r) (\<lambda>(v', s). fragment_part v' = fragment_part v \<and> 0 < s)"
      using extension_header_ensures 1(2) True by blast
    show ?thesis
    proof (cases "extension_header v h c r")
      case (Done vs)
      obtain v' s where vs: "vs = (v', s)" by fastforce
      have v': "fragment_part v' = fragment_part v" "0 < s"
        using ensuresD [OF hd Done] vs by auto
      then have fr: "frame v' = frame v" by (simp add: fragment_part_def ethernet_part_def)
      have step: "ensures (extension_loop limits v' (frame v ! c) (c + s) (r - s) (n + 1) (b + s))
       (\<lambda>(v', h', c', r'). fragment_part v' = fragment_part v \<and> c \<le> c' \<and> c' + r' = c + r
          \<and> c' + b \<le> c + max_ipv6_extension_bytes limits
          \<and> (is_extension h' \<longrightarrow> fragmented v' \<and> fragment_offset v' \<noteq> 0))"
        if "s \<le> r" "b + s \<le> max_ipv6_extension_bytes limits" "b + s \<le> SIZE_MAX"
          "\<not> (fragmented v' \<and> fragment_offset v' \<noteq> 0)"
        by (rule ensures_mono [OF "1.IH" [of vs v' s "b + s" "frame v ! c"]])
          (use True 1(2-4) that v' fr Done vs in \<open>auto simp: is_extension_def jg_size_add_def\<close>)
      show ?thesis
        using True 1(2-4) vs v' fr Done step
        by (subst extension_loop.simps)
          (auto simp: is_extension_def [symmetric] jg_size_add_Some_iff)
    qed (use True hd in \<open>simp_all add: extension_loop.simps [of limits v] is_extension_def\<close>)
  qed
qed

lemma parse_ipv6_ensures:
  assumes "source_address v = replicate 16 0" "destination_address v = replicate 16 0"
    "ether_type v = JG_ETHERTYPE_IPV6"
  shows "ensures (parse_ipv6 v limits)
    (\<lambda>v'. ethernet_part v' = ethernet_part v \<and> ipv6_valid limits v' \<and> transport_valid v')"
proof -
  have ext: "ensures (parse_ipv6_extensions w limits h)
      (\<lambda>v'. ethernet_part v' = ethernet_part w \<and> ipv6_valid limits v' \<and> transport_valid v')"
    if w: "transport_offset w = network_offset w + 40" "ether_type w = JG_ETHERTYPE_IPV6"
      "transport_offset w + transport_size w \<le> frame_size w"
      "transport_size w = unat (be16 (frame w) (network_offset w + 4))"
      "unat (frame w ! network_offset w) div 16 = 6" "ip_version w = JG_IP_V6" "address_size w = 16"
      "source_address w = slice (network_offset w + 8) 16 (frame w)"
      "destination_address w = slice (network_offset w + 24) 16 (frame w)" for w h
  proof -
    let ?P = "\<lambda>v'. ethernet_part v' = ethernet_part w \<and> ipv6_valid limits v' \<and> transport_valid v'"
    have "ipv6_valid limits u" "ethernet_part u = ethernet_part w"
      if "fragment_part v' = fragment_part w" "network_offset w + 40 \<le> c'"
        "c' + r' = network_offset w + 40 + transport_size w"
        "c' \<le> network_offset w + 40 + max_ipv6_extension_bytes limits"
        "is_extension h' \<longrightarrow> fragmented v' \<and> fragment_offset v' \<noteq> 0"
        "network_part u = network_part (v'\<lparr>ip_protocol := h', transport_offset := c', transport_size := r'\<rparr>)"
      for v' h' c' r' u
      using that w
      by (simp_all add: fragment_part_def ethernet_part_def network_part_def ipv6_valid_def Let_def)
    note valid = this
    have fin: "ensures (let view = v'\<lparr>ip_protocol := h', transport_offset := c', transport_size := r'\<rparr> in
         if h' = JG_IPPROTO_ESP then
           Done (view\<lparr>transport := JG_TRANSPORT_OTHER, payload_offset := c', payload_size := r',
                      transport_complete := (\<not> fragmented view \<or> \<not> more_fragments view)\<rparr>)
         else parse_transport view) ?P"
      if *: "fragment_part v' = fragment_part w" "network_offset w + 40 \<le> c'"
        "c' + r' = network_offset w + 40 + transport_size w"
        "c' \<le> network_offset w + 40 + max_ipv6_extension_bytes limits"
        "is_extension h' \<longrightarrow> fragmented v' \<and> fragment_offset v' \<noteq> 0" for v' h' c' r'
    proof (cases "h' = JG_IPPROTO_ESP")
      case True
      have "frame v' = frame w" using *(1) by (simp add: fragment_part_def ethernet_part_def)
      then show ?thesis
        using True valid [OF *] *(3) w(1,3)
        by (simp add: network_part_def transport_valid_def Let_def)
    next
      case False
      then show ?thesis
        using valid [OF *] *(1,3) w(1,3)
        by (auto simp: fragment_part_def ethernet_part_def intro!: parse_transport_keeps)
    qed
    show ?thesis
      unfolding parse_ipv6_extensions_def ensures_simps
      by (rule ensures_mono [OF extension_loop_ensures]) (use w fin in \<open>auto simp del: ensures_if\<close>)
  qed
  show ?thesis
    unfolding parse_ipv6_def Let_def using assms
    by (auto simp: read_be copy_address_in drop_bit_4_eq [of 6, simplified] ethernet_part_def
        JG_PACKET_ADDRESS_SIZE_def intro!: ensures_mono [OF ext])
qed

section \<open>Correctness of the parser\<close>

text \<open>
  The VLAN tags of a frame: \<open>tags\<close> are the tags at offsets 14, 18 and so on, each announced by the
  EtherType before it, and the network header starts behind the last.
\<close>

definition ethernet_valid :: "jg_packet_view \<Rightarrow> bool" where
  "ethernet_valid v \<longleftrightarrow>
     network_offset v = 14 + 4 * vlan_count v \<and> network_offset v \<le> frame_size v
     \<and> ether_type_offset v = 12 + 4 * vlan_count v
     \<and> ether_type v = be16 (frame v) (ether_type_offset v) \<and> \<not> is_vlan_ether_type (ether_type v)
     \<and> (\<forall>i < vlan_count v. is_vlan_ether_type (be16 (frame v) (12 + 4 * i))
          \<and> vlan_tci v ! i = be16 (frame v) (14 + 4 * i))"

lemma vlan_loop_ensures:
  assumes "max_vlan_tags limits \<le> JG_PACKET_VLAN_LIMIT" and "vlan_count v \<le> max_vlan_tags limits"
    and "c = 14 + 4 * vlan_count v" and "ether_type_offset v = 12 + 4 * vlan_count v"
    and "c \<le> frame_size v" and "e = be16 (frame v) (ether_type_offset v)"
    and "\<forall>i < vlan_count v. is_vlan_ether_type (be16 (frame v) (12 + 4 * i))
          \<and> vlan_tci v ! i = be16 (frame v) (14 + 4 * i)"
  shows "ensures (vlan_loop limits v e c) (\<lambda>(v', e', c').
    ethernet_valid (v'\<lparr>ether_type := e', network_offset := c'\<rparr>)
    \<and> vlan_count v' \<le> max_vlan_tags limits
    \<and> frame v' = frame v \<and> source_address v' = source_address v
    \<and> destination_address v' = destination_address v)"
  using assms
proof (induction limits v e c rule: vlan_loop.induct)
  case (1 limits v e c)
  show ?case
  proof (cases "is_vlan_ether_type e \<and> vlan_count v < max_vlan_tags limits \<and> c + 4 \<le> frame_size v")
    case False
    then show ?thesis
      using 1(2-) by (subst vlan_loop.simps) (auto simp: ethernet_valid_def read_be)
  next
    case True
    let ?v = "v\<lparr>vlan_tci := vlan_tci v @ [be16 (frame v) c], ether_type_offset := c + 2\<rparr>"
    have reads: "jg_read_u16_be (frame v) c = Some (be16 (frame v) c)"
      "jg_read_u16_be (frame v) (c + 2) = Some (be16 (frame v) (c + 2))"
      using True by (simp_all add: read_be)
    have "\<forall>i < vlan_count ?v. is_vlan_ether_type (be16 (frame v) (12 + 4 * i))
          \<and> vlan_tci ?v ! i = be16 (frame v) (14 + 4 * i)"
      using 1(4,5,7,8) True by (auto simp: nth_append less_Suc_eq)
    then have IH: "ensures (vlan_loop limits ?v (be16 (frame v) (c + 2)) (c + 4)) (\<lambda>(v', e', c').
        ethernet_valid (v'\<lparr>ether_type := e', network_offset := c'\<rparr>)
        \<and> vlan_count v' \<le> max_vlan_tags limits
        \<and> frame v' = frame ?v \<and> source_address v' = source_address ?v
        \<and> destination_address v' = destination_address ?v)"
      using True 1(2-7) by (intro "1.IH") (auto simp: read_be)
    have "vlan_count v < JG_PACKET_VLAN_LIMIT" using True 1(2) by linarith
    then show ?thesis
      using True reads
      by (subst vlan_loop.simps) (auto intro!: ensures_mono [OF IH])
  qed
qed

lemma packet_parse_ensures:
  "ensures (jg_packet_parse f limits) (\<lambda>(result, v).
     frame v = f \<and> ethernet_valid v
     \<and> vlan_count v \<le> max_vlan_tags (case limits of None \<Rightarrow> jg_packet_limits_default | Some l \<Rightarrow> l)
     \<and> (case result of
          JG_PACKET_OK \<Rightarrow> (ipv4_valid v
             \<or> ipv6_valid (case limits of None \<Rightarrow> jg_packet_limits_default | Some l \<Rightarrow> l) v)
             \<and> transport_valid v
        | JG_PACKET_NON_IP \<Rightarrow> ether_type v \<noteq> JG_ETHERTYPE_IPV4 \<and> ether_type v \<noteq> JG_ETHERTYPE_IPV6
        | _ \<Rightarrow> False))"
proof -
  let ?l = "case limits of None \<Rightarrow> jg_packet_limits_default | Some l \<Rightarrow> l"
  let ?v = "cleared_view\<lparr>frame := f, ether_type_offset := 12\<rparr>"
  let ?E = "\<lambda>v. frame v = f \<and> ethernet_valid v \<and> vlan_count v \<le> max_vlan_tags ?l
    \<and> source_address v = replicate 16 0 \<and> destination_address v = replicate 16 0"
  have vlan: "ensures (vlan_loop ?l ?v (be16 f 12) 14)
      (\<lambda>(v, e, c). ?E (v\<lparr>ether_type := e, network_offset := c\<rparr>))"
    if "max_vlan_tags ?l \<le> JG_PACKET_VLAN_LIMIT" "14 \<le> length f"
    by (rule ensures_mono [OF vlan_loop_ensures]) (use that in \<open>auto simp: cleared_view_def\<close>)
  have v4: "ensures (parse_ipv4 v) (\<lambda>v. frame v = f \<and> ethernet_valid v
      \<and> vlan_count v \<le> max_vlan_tags ?l \<and> ipv4_valid v \<and> transport_valid v)"
    if "?E v" "ether_type v = JG_ETHERTYPE_IPV4" for v
    by (rule ensures_mono [OF parse_ipv4_ensures])
      (use that in \<open>auto simp: ethernet_valid_def ethernet_part_def\<close>)
  have v6: "ensures (parse_ipv6 v ?l) (\<lambda>v. frame v = f \<and> ethernet_valid v
      \<and> vlan_count v \<le> max_vlan_tags ?l \<and> ipv6_valid ?l v \<and> transport_valid v)"
    if "?E v" "ether_type v = JG_ETHERTYPE_IPV6" for v
    by (rule ensures_mono [OF parse_ipv6_ensures])
      (use that in \<open>auto simp: ethernet_valid_def ethernet_part_def\<close>)
  show ?thesis
    unfolding jg_packet_parse_def Let_def
    by (auto simp: read_be not_less intro!: ensures_mono [OF vlan] ensures_mono [OF v4]
        ensures_mono [OF v6])
qed

text \<open>
  C28. The packet parser is memory safe and sound on every frame and every limits: it returns
  without an access outside the frame or outside the arrays of the view, and on success the view
  describes the frame: the VLAN tags and EtherType, the IPv4 or IPv6 header with its addresses,
  fragment fields and transport range, and the UDP or TCP header with a payload inside the frame.
  No IPv6 extension header is left in front of the transport of an unfragmented packet.
\<close>

theorem jg_packet_parse_sound:
  "ensures (jg_packet_parse f limits) (\<lambda>(result, v).
     frame v = f \<and> ethernet_valid v
     \<and> vlan_count v \<le> max_vlan_tags (case limits of None \<Rightarrow> jg_packet_limits_default | Some l \<Rightarrow> l)
     \<and> (case result of
          JG_PACKET_OK \<Rightarrow> (ipv4_valid v
             \<or> ipv6_valid (case limits of None \<Rightarrow> jg_packet_limits_default | Some l \<Rightarrow> l) v)
             \<and> transport_valid v
        | JG_PACKET_NON_IP \<Rightarrow> ether_type v \<noteq> JG_ETHERTYPE_IPV4 \<and> ether_type v \<noteq> JG_ETHERTYPE_IPV6
        | _ \<Rightarrow> False))"
  by (rule packet_parse_ensures)

end
