(* ===== verification/Domain.thy ===== *)
theory Domain
  imports Checked
begin

text \<open>
  \<^verbatim>\<open>src/common/domain.c\<close>: normalisation of administrator-provided names and matching of policy
  domains at label boundaries. A name is the byte list before the C terminator. The IDNA library
  (\<open>idn2_lookup_u8\<close>) and the allocator are not part of the sources: they are the fields of the
  record \<open>environment\<close> that the operations take.

  The specification side of the theory is the label view of a name: \<open>split_dots\<close> gives its
  labels, \<open>ldh_label\<close> says what a label of a policy domain is, and \<open>policy_domain\<close> is the
  well-formedness the operations promise.
\<close>

section \<open>Operations\<close>

definition JG_DOMAIN_NAME_MAX :: nat where
  "JG_DOMAIN_NAME_MAX = 253"

definition JG_DOMAIN_LABEL_MAX :: nat where
  "JG_DOMAIN_LABEL_MAX = 63"

text \<open>
  \<open>idn2_lookup_u8\<close> returns \<open>None\<close> for any result other than \<open>IDN2_OK\<close> with a string;
  \<open>malloc env n\<close> says whether an allocation of \<open>n\<close> bytes succeeds.
\<close>

record environment =
  idn2_lookup_u8 :: "bytes \<Rightarrow> bytes option"
  malloc :: "nat \<Rightarrow> bool"

abbreviation dot :: u8 where "dot \<equiv> 0x2E"
abbreviation hyphen :: u8 where "hyphen \<equiv> 0x2D"

definition ascii_lower :: "u8 \<Rightarrow> u8" where
  "ascii_lower v = (if v \<ge> 0x41 \<and> v \<le> 0x5A then v + (0x61 - 0x41) else v)"

definition ldh_byte :: "u8 \<Rightarrow> bool" where
  "ldh_byte v = ((v \<ge> 0x61 \<and> v \<le> 0x7A) \<or> (v \<ge> 0x30 \<and> v \<le> 0x39) \<or> v = hyphen)"

text \<open>The loop of \<open>normalize_ascii\<close>: \<open>label_length\<close> and the bytes still to be read.\<close>

fun normalize_ascii_loop :: "nat \<Rightarrow> bytes \<Rightarrow> bytes result" where
  "normalize_ascii_loop label_length [] = (if label_length = 0 then Inl EINVAL else Inr [])"
| "normalize_ascii_loop label_length (c # rest) =
     (if c = dot then
        (if label_length = 0 \<or> label_length > JG_DOMAIN_LABEL_MAX then Inl EINVAL
         else map_sum id ((#) dot) (normalize_ascii_loop 0 rest))
      else let v = ascii_lower c in
        if \<not> ldh_byte v then Inl EINVAL
        else if (label_length = 0 \<and> v = hyphen) \<or> (v = hyphen \<and> (rest = [] \<or> hd rest = dot))
        then Inl EINVAL
        else if label_length + 1 > JG_DOMAIN_LABEL_MAX then Inl EINVAL
        else map_sum id ((#) v) (normalize_ascii_loop (label_length + 1) rest))"

definition normalize_ascii :: "bytes \<Rightarrow> nat \<Rightarrow> bytes result" where
  "normalize_ascii input output_size =
     (if length input = 0 \<or> length input > JG_DOMAIN_NAME_MAX then Inl EINVAL
      else if output_size \<le> length input then Inl ENOSPC
      else normalize_ascii_loop 0 input)"

definition jg_domain_normalize :: "'e environment_scheme \<Rightarrow> bytes \<Rightarrow> nat \<Rightarrow> bytes result" where
  "jg_domain_normalize env input output_size =
     (if output_size = 0 then Inl EINVAL
      else if length input = 0 \<or> length input > JG_DOMAIN_NAME_MAX * 4 then Inl EINVAL
      else let input_length = (if last input = dot then length input - 1 else length input);
               trimmed = take input_length input in
        if input_length = 0 then Inl EINVAL
        else if list_all (\<lambda>c. \<not> c > 0x7F) trimmed then normalize_ascii trimmed output_size
        else if \<not> malloc env (input_length + 1) then Inl ENOMEM
        else case idn2_lookup_u8 env trimmed of
          None \<Rightarrow> Inl EINVAL
        | Some alabel \<Rightarrow> normalize_ascii alabel output_size)"

definition jg_domain_is_normalized :: "bytes \<Rightarrow> bool" where
  "jg_domain_is_normalized domain =
     (case normalize_ascii domain (JG_DOMAIN_NAME_MAX + 1) of
        Inl _ \<Rightarrow> False | Inr normalized \<Rightarrow> domain = normalized)"

definition jg_domain_matches :: "bytes \<Rightarrow> bytes \<Rightarrow> bool \<Rightarrow> bool" where
  "jg_domain_matches name rule include_subdomains =
     (if \<not> jg_domain_is_normalized name \<or> \<not> jg_domain_is_normalized rule then False
      else if name = rule then True
      else if \<not> include_subdomains then False
      else length name > length rule
        \<and> name ! (length name - length rule - 1) = dot
        \<and> slice (length name - length rule) (length rule) name = rule)"

section \<open>The label view\<close>

fun split_dots :: "bytes \<Rightarrow> bytes list" where
  "split_dots [] = [[]]"
| "split_dots (c # cs) =
     (if c = dot then [] # split_dots cs else (c # hd (split_dots cs)) # tl (split_dots cs))"

fun join_dots :: "bytes list \<Rightarrow> bytes" where
  "join_dots [] = []"
| "join_dots [l] = l"
| "join_dots (l # m # ls) = l @ dot # join_dots (m # ls)"

definition ldh_label :: "bytes \<Rightarrow> bool" where
  "ldh_label l \<longleftrightarrow> l \<noteq> [] \<and> length l \<le> JG_DOMAIN_LABEL_MAX \<and> list_all ldh_byte l
     \<and> hd l \<noteq> hyphen \<and> last l \<noteq> hyphen"

definition policy_domain :: "bytes \<Rightarrow> bool" where
  "policy_domain d \<longleftrightarrow> length d \<le> JG_DOMAIN_NAME_MAX \<and> list_all ldh_label (split_dots d)"

lemma split_dots_nonempty [simp]: "split_dots d \<noteq> []"
  by (induction d) auto

lemma split_dots_Cons_hd_tl: "split_dots d = hd (split_dots d) # tl (split_dots d)"
  by simp

lemma join_split [simp]: "join_dots (split_dots d) = d"
proof (induction d)
  case (Cons c cs)
  obtain l ls where ls: "split_dots cs = l # ls"
    by (cases "split_dots cs") auto
  show ?case
    using Cons ls by (cases ls) auto
qed simp

lemma split_dots_no_dot: "\<forall>l \<in> set (split_dots d). dot \<notin> set l"
proof (induction d)
  case (Cons c cs)
  obtain l ls where "split_dots cs = l # ls"
    by (cases "split_dots cs") auto
  then show ?case using Cons by auto
qed simp

lemma split_dots_append_dot: "split_dots (a @ dot # b) = split_dots a @ split_dots b"
  by (induction a) (auto simp: hd_append)

lemma split_dots_single: "dot \<notin> set l \<Longrightarrow> split_dots l = [l]"
  by (induction l) auto

lemma split_join:
  "ls \<noteq> [] \<Longrightarrow> \<forall>l \<in> set ls. dot \<notin> set l \<Longrightarrow> split_dots (join_dots ls) = ls"
proof (induction ls rule: join_dots.induct)
  case (3 l m ls)
  then show ?case by (simp add: split_dots_append_dot split_dots_single)
qed (auto simp: split_dots_single)

lemma split_dots_inject: "split_dots a = split_dots b \<longleftrightarrow> a = b"
  by (metis join_split)

text \<open>
  What the loop accepts, with \<open>n\<close> bytes of the current label already read: the first label may
  lack its beginning, so its length counts from \<open>n\<close> and its first byte is constrained only
  when \<open>n = 0\<close>.
\<close>

definition label_tail :: "nat \<Rightarrow> bytes \<Rightarrow> bool" where
  "label_tail n l \<longleftrightarrow> n + length l \<noteq> 0 \<and> n + length l \<le> JG_DOMAIN_LABEL_MAX \<and> list_all ldh_byte l
     \<and> (n = 0 \<longrightarrow> l \<noteq> [] \<longrightarrow> hd l \<noteq> hyphen) \<and> (l \<noteq> [] \<longrightarrow> last l \<noteq> hyphen)"

lemma label_tail_0 [simp]: "label_tail 0 l = ldh_label l"
  by (auto simp: label_tail_def ldh_label_def)

lemma unat_ascii_lower:
  "unat (ascii_lower v) = (if 65 \<le> unat v \<and> unat v \<le> 90 then unat v + 32 else unat v)"
  by (auto simp: ascii_lower_def word_le_nat_alt unat_word_ariths)

lemma ascii_lower_idem [simp]: "ascii_lower (ascii_lower v) = ascii_lower v"
  by (rule word_unat_eq_iff [THEN iffD2]) (simp add: unat_ascii_lower)

lemma ascii_lower_dot_iff [simp]: "ascii_lower v = dot \<longleftrightarrow> v = dot"
  by (auto simp: word_unat_eq_iff unat_ascii_lower)

lemma ldh_byte_not_dot [simp]: "\<not> ldh_byte dot"
  by (simp add: ldh_byte_def)

lemma ldh_byte_lower: "ldh_byte v \<Longrightarrow> ascii_lower v = v"
  by (auto simp: ldh_byte_def word_unat_eq_iff unat_ascii_lower word_le_nat_alt)

section \<open>Normalisation\<close>

lemma normalize_ascii_loop_output:
  "normalize_ascii_loop n d = Inr out \<Longrightarrow> out = map ascii_lower d"
  by (induction n d arbitrary: out rule: normalize_ascii_loop.induct)
    (auto simp: Let_def ascii_lower_def [of dot] split: if_splits)

lemma normalize_ascii_loop_accepts:
  "n \<le> JG_DOMAIN_LABEL_MAX \<Longrightarrow> (\<exists>out. normalize_ascii_loop n d = Inr out) \<longleftrightarrow>
   label_tail n (hd (split_dots (map ascii_lower d)))
   \<and> list_all ldh_label (tl (split_dots (map ascii_lower d)))"
proof (induction n d rule: normalize_ascii_loop.induct)
  case (1 n)
  then show ?case by (auto simp: label_tail_def)
next
  case (2 n c rest)
  let ?s = "split_dots (map ascii_lower rest)"
  obtain l ls where ls: "?s = l # ls"
    by (cases ?s) auto
  show ?case
  proof (cases "c = dot")
    case True
    have "label_tail n [] \<longleftrightarrow> \<not> (n = 0 \<or> n > JG_DOMAIN_LABEL_MAX)"
      by (auto simp: label_tail_def)
    with True 2 ls show ?thesis by auto
  next
    case False
    let ?v = "ascii_lower c"
    have rest: "rest = [] \<or> hd rest = dot \<longleftrightarrow> l = []"
      using ls by (cases rest) (auto split: if_splits)
    have step: "label_tail n (?v # l) \<longleftrightarrow> ldh_byte ?v
        \<and> \<not> ((n = 0 \<and> ?v = hyphen) \<or> (?v = hyphen \<and> l = []))
        \<and> \<not> n + 1 > JG_DOMAIN_LABEL_MAX \<and> label_tail (n + 1) l"
      by (auto simp: label_tail_def)
    show ?thesis
    proof (cases "\<not> ldh_byte ?v \<or> ((n = 0 \<and> ?v = hyphen) \<or> (?v = hyphen \<and> l = []))
        \<or> n + 1 > JG_DOMAIN_LABEL_MAX")
      case True
      with False ls step rest show ?thesis by (auto simp: Let_def)
    next
      case ok: False
      then have "(\<exists>out. normalize_ascii_loop (n + 1) rest = Inr out) \<longleftrightarrow>
          label_tail (n + 1) l \<and> list_all ldh_label ls"
        using 2(2) [OF False refl] rest ls by auto
      with False ok ls step rest show ?thesis by (auto simp: Let_def)
    qed
  qed
qed

lemma normalize_ascii_Inr_iff:
  "normalize_ascii i n = Inr out \<longleftrightarrow>
   out = map ascii_lower i \<and> policy_domain out \<and> length i < n"
proof -
  have "normalize_ascii_loop 0 i = Inr out \<longleftrightarrow>
      out = map ascii_lower i \<and> list_all ldh_label (split_dots out)"
    using normalize_ascii_loop_accepts [of 0 i] normalize_ascii_loop_output [of 0 i]
    by (metis label_tail_0 le0 list.pred_inject(2) split_dots_Cons_hd_tl)
  moreover have "policy_domain (map ascii_lower i) \<Longrightarrow> i \<noteq> []"
    by (auto simp: policy_domain_def ldh_label_def)
  ultimately show ?thesis
    by (auto simp: normalize_ascii_def policy_domain_def)
qed

lemma policy_domain_lower: "policy_domain d \<Longrightarrow> map ascii_lower d = d"
proof -
  assume "policy_domain d"
  then have "list_all (\<lambda>l. map ascii_lower l = l) (split_dots d)"
    by (auto simp: policy_domain_def ldh_label_def list_all_iff ldh_byte_lower map_idI)
  then show ?thesis
  proof (induction d)
    case (Cons c cs)
    obtain l ls where "split_dots cs = l # ls"
      by (cases "split_dots cs") auto
    with Cons show ?case by (auto split: if_splits)
  qed simp
qed

lemma jg_domain_is_normalized_iff [simp]: "jg_domain_is_normalized d \<longleftrightarrow> policy_domain d"
proof -
  have "jg_domain_is_normalized d \<longleftrightarrow> normalize_ascii d (JG_DOMAIN_NAME_MAX + 1) = Inr d"
    by (auto simp: jg_domain_is_normalized_def split: sum.splits)
  also have "\<dots> \<longleftrightarrow> d = map ascii_lower d \<and> policy_domain d \<and> length d < JG_DOMAIN_NAME_MAX + 1"
    by (rule normalize_ascii_Inr_iff)
  also have "\<dots> \<longleftrightarrow> policy_domain d"
    using policy_domain_lower [of d] by (auto simp: policy_domain_def)
  finally show ?thesis .
qed

lemma not_policy_domain_Nil [simp]: "\<not> policy_domain []"
  by (simp add: policy_domain_def ldh_label_def)

lemma policy_domain_nonempty: "policy_domain d \<Longrightarrow> d \<noteq> []"
  by (cases d) auto

lemma policy_domain_last: "policy_domain d \<Longrightarrow> last d \<noteq> dot"
proof
  assume "policy_domain d" "last d = dot"
  then have "d = butlast d @ dot # []"
    using append_butlast_last_id [OF policy_domain_nonempty, of d] by simp
  then have "split_dots d = split_dots (butlast d) @ [[]]"
    using split_dots_append_dot [of "butlast d" "[]"] by simp
  with \<open>policy_domain d\<close> show False
    by (simp add: policy_domain_def ldh_label_def)
qed

lemma policy_domain_bytes: "policy_domain d \<Longrightarrow> c \<in> set d \<Longrightarrow> ldh_byte c \<or> c = dot"
proof -
  assume p: "policy_domain d" "c \<in> set d"
  then have "list_all (list_all ldh_byte) (split_dots d)"
    by (auto simp: policy_domain_def ldh_label_def list_all_iff)
  with p(2) show ?thesis
  proof (induction d)
    case (Cons b cs)
    obtain l ls where "split_dots cs = l # ls"
      by (cases "split_dots cs") auto
    with Cons show ?case by (auto split: if_splits)
  qed simp
qed

lemma jg_domain_normalize_Inr:
  "jg_domain_normalize env i n = Inr out \<Longrightarrow> policy_domain out \<and> length out < n"
  by (auto simp: jg_domain_normalize_def Let_def normalize_ascii_Inr_iff
      split: if_splits option.splits)

lemma jg_domain_normalize_policy_domain:
  assumes "policy_domain d" and "length d < n"
  shows "jg_domain_normalize env d n = Inr d"
proof -
  have "\<not> c > 0x7F" if "c \<in> set d" for c
    using policy_domain_bytes [OF assms(1) that] by (auto simp: ldh_byte_def word_less_nat_alt word_le_nat_alt)
  then have "list_all (\<lambda>c. \<not> c > 0x7F) d"
    by (simp add: list_all_iff)
  moreover have "normalize_ascii d n = Inr d"
    using assms by (simp add: normalize_ascii_Inr_iff policy_domain_lower)
  ultimately show ?thesis
    using assms policy_domain_nonempty [OF assms(1)] policy_domain_last [OF assms(1)]
    by (auto simp: jg_domain_normalize_def policy_domain_def JG_DOMAIN_NAME_MAX_def)
qed

section \<open>Matching at label boundaries\<close>

lemma split_dots_suffix_iff:
  "(\<exists>pre. pre \<noteq> [] \<and> split_dots name = pre @ split_dots rule) \<longleftrightarrow> (\<exists>p. name = p @ dot # rule)"
proof
  assume "\<exists>pre. pre \<noteq> [] \<and> split_dots name = pre @ split_dots rule"
  then obtain pre where pre: "pre \<noteq> []" "split_dots name = pre @ split_dots rule"
    by blast
  have "\<forall>l \<in> set pre. dot \<notin> set l"
    using split_dots_no_dot [of name] pre(2) by auto
  with pre have "split_dots name = split_dots (join_dots pre @ dot # rule)"
    by (simp add: split_dots_append_dot split_join)
  then show "\<exists>p. name = p @ dot # rule"
    by (auto simp: split_dots_inject)
next
  assume "\<exists>p. name = p @ dot # rule"
  then show "\<exists>pre. pre \<noteq> [] \<and> split_dots name = pre @ split_dots rule"
    by (auto simp: split_dots_append_dot)
qed

lemma suffix_at_iff:
  "(length name > length rule \<and> name ! (length name - length rule - 1) = dot
    \<and> slice (length name - length rule) (length rule) name = rule) \<longleftrightarrow> (\<exists>p. name = p @ dot # rule)"
proof
  assume "length name > length rule \<and> name ! (length name - length rule - 1) = dot
    \<and> slice (length name - length rule) (length rule) name = rule"
  then have a: "length name > length rule" "name ! (length name - length rule - 1) = dot"
    "slice (length name - length rule) (length rule) name = rule"
    by blast+
  define k where "k = length name - length rule - 1"
  have "k < length name"
    using a unfolding k_def by linarith
  then have "name = take k name @ name ! k # drop (Suc k) name"
    by (rule id_take_nth_drop)
  moreover have "drop (Suc k) name = rule"
    using a by (simp add: slice_def k_def Suc_diff_Suc)
  ultimately show "\<exists>p. name = p @ dot # rule"
    using a unfolding k_def by metis
qed (auto simp: slice_def)

lemma jg_domain_matches_iff:
  assumes "policy_domain name" and "policy_domain rule"
  shows "jg_domain_matches name rule sub \<longleftrightarrow>
    name = rule \<or> sub \<and> (\<exists>pre. pre \<noteq> [] \<and> split_dots name = pre @ split_dots rule)"
  using assms suffix_at_iff [of rule name]
  by (simp add: jg_domain_matches_def split_dots_suffix_iff)

section \<open>The contract of the component\<close>

text \<open>
  C37. Whatever the IDNA library and the allocator do, a name that normalises is a policy domain: at
  most 253 bytes, labels of 1 to 63 lower-case letters, digits and inner hyphens. It fits the output
  buffer with its terminator, the check for normalised names accepts it, and normalising it again
  changes nothing.
\<close>

theorem jg_domain_normalize_canonical:
  assumes "jg_domain_normalize env input output_size = Inr out"
  shows "policy_domain out \<and> length out < output_size \<and> jg_domain_is_normalized out
    \<and> jg_domain_normalize env' out output_size = Inr out"
  using jg_domain_normalize_Inr [OF assms] jg_domain_normalize_policy_domain [of out output_size env']
  by simp_all

theorem jg_domain_normalize_canonical_witness:
  "jg_domain_normalize \<lparr>idn2_lookup_u8 = (\<lambda>_. None), malloc = (\<lambda>_. False)\<rparr>
     (str ''a-1.IT'') 254 = Inr (str ''a-1.it'')"
proof -
  let ?env = "\<lparr>idn2_lookup_u8 = (\<lambda>_. None), malloc = (\<lambda>_. False)\<rparr>"
  have "jg_domain_normalize ?env (str ''a-1.IT.'') 254 = Inr (str ''a-1.it'')"
    by code_simp
  from jg_domain_normalize_canonical [OF this, of ?env]
  show ?thesis by code_simp
qed

text \<open>
  C38. A rule applies to a name exactly at label boundaries: on policy domains the matcher answers
  yes when the labels are equal or, if subdomains are included, when the labels of the rule end the
  labels of the name.
\<close>

theorem jg_domain_matches_exact:
  assumes "policy_domain name" and "policy_domain rule"
  shows "jg_domain_matches name rule include_subdomains \<longleftrightarrow>
    (\<exists>labels. split_dots name = labels @ split_dots rule \<and> (labels = [] \<or> include_subdomains))"
  using jg_domain_matches_iff [OF assms] by (metis append_Nil split_dots_inject)

theorem jg_domain_matches_exact_witness:
  "jg_domain_matches (str ''ads.x.it'') (str ''x.it'') True
   \<and> \<not> jg_domain_matches (str ''adsx.it'') (str ''x.it'') True"
proof -
  have p: "policy_domain (str ''ads.x.it'')" "policy_domain (str ''adsx.it'')" "policy_domain (str ''x.it'')"
    by code_simp+
  have s: "split_dots (str ''ads.x.it'') = [str ''ads''] @ split_dots (str ''x.it'')"
    by code_simp
  have n: "\<not> (\<exists>ls. split_dots (str ''adsx.it'') = ls @ split_dots (str ''x.it''))"
  proof -
    have "split_dots (str ''adsx.it'') = [str ''adsx'', str ''it'']" "split_dots (str ''x.it'') = [str ''x'', str ''it'']"
      by code_simp+
    then show ?thesis by (auto simp: append_eq_Cons_conv)
  qed
  show ?thesis
    unfolding jg_domain_matches_exact [OF p(1,3)] jg_domain_matches_exact [OF p(2,3)]
    using s n by blast
qed

end
