(* ===== verification/Dns.thy ===== *)
theory Dns
  imports Domain
begin

text \<open>
  \<^verbatim>\<open>src/common/dns.c\<close>: the bounded decoder of DNS wire names with compression pointers and the
  parser of classic DNS queries. A result is \<open>Fail\<close> of the parser's error code, \<open>Done\<close> of what
  \<open>JG_DNS_OK\<close> stores, or \<open>Fault\<close> when the C code would read outside the message or write outside the
  caller's name buffer.

  \<open>name_at\<close> is the specification: the wire format of RFC 1035 section 4.1.4 as an inductive
  relation, independent of the decoder's loop.
\<close>

section \<open>Data\<close>

datatype jg_dns_result =
  JG_DNS_OK | JG_DNS_TRUNCATED | JG_DNS_MALFORMED | JG_DNS_BAD_OPCODE | JG_DNS_LIMIT_EXCEEDED

record jg_dns_question =
  qname :: bytes
  wire_offset :: nat
  qtype :: u16
  qclass :: u16

record jg_dns_message =
  dns_id :: u16
  dns_flags :: u16
  wire_question_count :: u16
  answer_count :: u16
  authority_count :: u16
  additional_count :: u16
  question_wire_size :: nat
  has_edns0 :: bool
  questions :: "jg_dns_question list"

abbreviation question_count :: "jg_dns_message \<Rightarrow> nat" where
  "question_count m \<equiv> length (questions m)"

definition JG_DNS_HEADER_SIZE :: nat where "JG_DNS_HEADER_SIZE = 12"
definition JG_DNS_POINTER_LIMIT :: nat where "JG_DNS_POINTER_LIMIT = 16"
definition JG_DNS_QUESTION_LIMIT :: nat where "JG_DNS_QUESTION_LIMIT = 16"
definition JG_DNS_TYPE_OPT :: u16 where "JG_DNS_TYPE_OPT = 41"

section \<open>Decoding one name\<close>

definition is_policy_label_byte :: "u8 \<Rightarrow> bool" where
  "is_policy_label_byte v = (v \<ge> 0x21 \<and> v \<le> 0x7E \<and> v \<noteq> dot \<and> v \<noteq> 0x5C)"

text \<open>
  The inner loop copies \<open>n\<close> label bytes from \<open>src\<close> to the end of the output, lower-casing each.
  The output is the list of the bytes stored so far; a store at \<open>output_size\<close> or beyond is outside
  the buffer.
\<close>

fun copy_label :: "bytes \<Rightarrow> nat \<Rightarrow> nat \<Rightarrow> nat \<Rightarrow> bytes \<Rightarrow> (jg_dns_result, bytes) run" where
  "copy_label message output_size src 0 out = Done out"
| "copy_label message output_size src (Suc n) out =
     and_then (raw (byte_at message src)) (\<lambda>v.
       if \<not> is_policy_label_byte v then Fail JG_DNS_MALFORMED
       else if \<not> length out < output_size then Fault
       else copy_label message output_size (src + 1) n (out @ [ascii_lower v]))"

text \<open>The separator stored before every label but the first.\<close>

definition put_separator :: "nat \<Rightarrow> bytes \<Rightarrow> (jg_dns_result, bytes) run" where
  "put_separator output_size out =
     (if length out \<noteq> 0 then
        (if length out + 1 \<ge> output_size \<or> length out + 1 > JG_DOMAIN_NAME_MAX
         then Fail JG_DNS_LIMIT_EXCEEDED
         else if \<not> length out < output_size then Fault
         else Done (out @ [dot]))
      else Done out)"

text \<open>One label at \<open>cursor\<close> (past its length byte): separator, limits, copy.\<close>

definition put_label :: "bytes \<Rightarrow> nat \<Rightarrow> nat \<Rightarrow> nat \<Rightarrow> bytes \<Rightarrow> (jg_dns_result, bytes) run" where
  "put_label message output_size cursor n out =
     and_then (put_separator output_size out) (\<lambda>out1.
       if n > JG_DOMAIN_NAME_MAX - length out1 \<or> length out1 + n \<ge> output_size
       then Fail JG_DNS_LIMIT_EXCEEDED
       else copy_label message output_size cursor n out1)"

function decode_name_loop ::
  "bytes \<Rightarrow> nat \<Rightarrow> nat \<Rightarrow> nat \<Rightarrow> bytes \<Rightarrow> nat \<Rightarrow> bool \<Rightarrow> (jg_dns_result, bytes \<times> nat) run"
where
  "decode_name_loop message output_size cursor end_offset out pointer_depth jumped =
     (if cursor \<ge> length message then Fail JG_DNS_TRUNCATED
      else let label_length = message ! cursor in
        if label_length AND 0xC0 = 0xC0 then
          and_then (or_fail JG_DNS_TRUNCATED (jg_read_u16_be message cursor)) (\<lambda>pointer_value.
            let target = unat (pointer_value AND 0x3FFF) in
            if target \<ge> cursor \<or> target \<ge> length message then Fail JG_DNS_MALFORMED
            else if pointer_depth + 1 > JG_DNS_POINTER_LIMIT then Fail JG_DNS_LIMIT_EXCEEDED
            else decode_name_loop message output_size target
                   (if jumped then end_offset else cursor + 2) out (pointer_depth + 1) True)
        else if label_length AND 0xC0 \<noteq> 0 then Fail JG_DNS_MALFORMED
        else if label_length = 0 then
          (if \<not> length out < output_size then Fault
           else Done (out, if jumped then end_offset else cursor + 1))
        else if unat label_length > JG_DOMAIN_LABEL_MAX
             \<or> \<not> jg_range_valid (cursor + 1) (unat label_length) (length message)
        then Fail (if unat label_length > JG_DOMAIN_LABEL_MAX then JG_DNS_MALFORMED
                   else JG_DNS_TRUNCATED)
        else and_then (put_label message output_size (cursor + 1) (unat label_length) out) (\<lambda>out1.
          decode_name_loop message output_size (cursor + 1 + unat label_length)
            end_offset out1 pointer_depth jumped))"
  by pat_completeness auto
termination
  by (relation "measures [\<lambda>(m, n, c, e, w, d, j). JG_DNS_POINTER_LIMIT - d,
                          \<lambda>(m, n, c, e, w, d, j). length m - c]") auto

declare decode_name_loop.simps [simp del]

definition jg_dns_decode_name :: "bytes \<Rightarrow> nat \<Rightarrow> nat \<Rightarrow> (jg_dns_result, bytes \<times> nat) run" where
  "jg_dns_decode_name message off output_size =
     (if output_size = 0 then Fail JG_DNS_MALFORMED
      else if off \<ge> length message then Fail JG_DNS_TRUNCATED
      else decode_name_loop message output_size off 0 [] 0 False)"

section \<open>Parsing a query\<close>

text \<open>
  \<open>skip_records\<close> walks \<open>count\<close> resource records; \<open>edns\<close> is the flag \<open>parsed->has_edns0\<close> that an OPT
  record sets when \<open>detect_opt\<close> holds.
\<close>

fun skip_records :: "bytes \<Rightarrow> nat \<Rightarrow> nat \<Rightarrow> bool \<Rightarrow> bool \<Rightarrow> (jg_dns_result, nat \<times> bool) run" where
  "skip_records message cursor 0 detect_opt edns = Done (cursor, edns)"
| "skip_records message cursor (Suc count) detect_opt edns =
     and_then (jg_dns_decode_name message cursor (JG_DOMAIN_NAME_MAX + 1)) (\<lambda>(owner, record_cursor).
       if \<not> jg_range_valid record_cursor 10 (length message) then Fail JG_DNS_TRUNCATED
       else and_then (or_fail JG_DNS_TRUNCATED (jg_read_u16_be message record_cursor)) (\<lambda>type.
         and_then (or_fail JG_DNS_TRUNCATED (jg_read_u16_be message (record_cursor + 8))) (\<lambda>data_length.
           if \<not> jg_range_valid (record_cursor + 10) (unat data_length) (length message)
           then Fail JG_DNS_TRUNCATED
           else if detect_opt \<and> type = JG_DNS_TYPE_OPT then
             (if edns then Fail JG_DNS_MALFORMED
              else skip_records message (record_cursor + 10 + unat data_length) count detect_opt True)
           else skip_records message (record_cursor + 10 + unat data_length) count detect_opt edns)))"

text \<open>The question loop: \<open>count\<close> questions remain and \<open>qs\<close> are stored.\<close>

fun parse_questions ::
  "bytes \<Rightarrow> nat \<Rightarrow> nat \<Rightarrow> jg_dns_question list \<Rightarrow> (jg_dns_result, nat \<times> jg_dns_question list) run"
where
  "parse_questions message cursor 0 qs = Done (cursor, qs)"
| "parse_questions message cursor (Suc count) qs =
     and_then (jg_dns_decode_name message cursor (JG_DOMAIN_NAME_MAX + 1)) (\<lambda>(name, next).
       if name = [] then Fail JG_DNS_MALFORMED
       else and_then (or_fail JG_DNS_TRUNCATED (jg_read_u16_be message next)) (\<lambda>type.
         and_then (or_fail JG_DNS_TRUNCATED (jg_read_u16_be message (next + 2))) (\<lambda>class_code.
           parse_questions message (next + 4) count
             (qs @ [\<lparr>qname = name, wire_offset = cursor, qtype = type, qclass = class_code\<rparr>]))))"

text \<open>The three record sections after the questions, then the exact-length check.\<close>

definition parse_sections :: "bytes \<Rightarrow> nat \<Rightarrow> jg_dns_message \<Rightarrow> (jg_dns_result, jg_dns_message) run" where
  "parse_sections message cursor parsed =
     and_then (skip_records message cursor (unat (answer_count parsed)) False (has_edns0 parsed)) (\<lambda>(c1, e1).
     and_then (skip_records message c1 (unat (authority_count parsed)) False e1) (\<lambda>(c2, e2).
     and_then (skip_records message c2 (unat (additional_count parsed)) True e2) (\<lambda>(c3, e3).
       if c3 = length message then Done (parsed\<lparr>has_edns0 := e3\<rparr>) else Fail JG_DNS_MALFORMED)))"

definition jg_dns_parse_query :: "bytes \<Rightarrow> (jg_dns_result, jg_dns_message) run" where
  "jg_dns_parse_query message =
     (if length message < JG_DNS_HEADER_SIZE then Fail JG_DNS_TRUNCATED else
      and_then (or_fail JG_DNS_TRUNCATED (jg_read_u16_be message 0)) (\<lambda>i.
      and_then (or_fail JG_DNS_TRUNCATED (jg_read_u16_be message 2)) (\<lambda>f.
      and_then (or_fail JG_DNS_TRUNCATED (jg_read_u16_be message 4)) (\<lambda>qd.
      and_then (or_fail JG_DNS_TRUNCATED (jg_read_u16_be message 6)) (\<lambda>an.
      and_then (or_fail JG_DNS_TRUNCATED (jg_read_u16_be message 8)) (\<lambda>ns.
      and_then (or_fail JG_DNS_TRUNCATED (jg_read_u16_be message 10)) (\<lambda>ar.
        if f AND 0x8000 \<noteq> 0 then Fail JG_DNS_MALFORMED
        else if f AND 0x7800 \<noteq> 0 then Fail JG_DNS_BAD_OPCODE
        else if qd = 0 then Fail JG_DNS_MALFORMED
        else if unat qd > JG_DNS_QUESTION_LIMIT then Fail JG_DNS_LIMIT_EXCEEDED
        else and_then (parse_questions message JG_DNS_HEADER_SIZE (unat qd) []) (\<lambda>(cursor, qs).
          parse_sections message cursor
            \<lparr>dns_id = i, dns_flags = f, wire_question_count = qd, answer_count = an,
             authority_count = ns, additional_count = ar,
             question_wire_size = cursor - JG_DNS_HEADER_SIZE, has_edns0 = False,
             questions = qs\<rparr>))))))))"

section \<open>The wire format\<close>

text \<open>
  \<open>name_at msg off k ls next\<close>: at \<open>off\<close> the message holds a name with the labels \<open>ls\<close>, reached
  through \<open>k\<close> compression pointers, each to an earlier offset; the bytes after the name in place
  start at \<open>next\<close>.
\<close>

inductive name_at :: "bytes \<Rightarrow> nat \<Rightarrow> nat \<Rightarrow> bytes list \<Rightarrow> nat \<Rightarrow> bool" for msg where
  name_root: "off < length msg \<Longrightarrow> msg ! off = 0 \<Longrightarrow> name_at msg off 0 [] (off + 1)"
| name_label: "off < length msg \<Longrightarrow> n = unat (msg ! off) \<Longrightarrow> 1 \<le> n \<Longrightarrow> n \<le> 63 \<Longrightarrow>
     off + 1 + n \<le> length msg \<Longrightarrow> name_at msg (off + 1 + n) k ls next \<Longrightarrow>
     name_at msg off k (slice (off + 1) n msg # ls) next"
| name_pointer: "off + 2 \<le> length msg \<Longrightarrow> 192 \<le> unat (msg ! off) \<Longrightarrow>
     target = (unat (msg ! off) mod 64) * 256 + unat (msg ! (off + 1)) \<Longrightarrow> target < off \<Longrightarrow>
     name_at msg target k ls next \<Longrightarrow> name_at msg off (Suc k) ls (off + 2)"

inductive_simps name_at_unfold: "name_at msg off k ls next"

text \<open>The text of a name: its labels lower-cased and joined with dots.\<close>

definition append_name :: "bytes \<Rightarrow> bytes \<Rightarrow> bytes" where
  "append_name out l = (if out = [] then l else out @ dot # l)"

definition append_names :: "bytes \<Rightarrow> bytes list \<Rightarrow> bytes" where
  "append_names out ls = foldl append_name out (map (map ascii_lower) ls)"

definition policy_labels :: "bytes list \<Rightarrow> bool" where
  "policy_labels ls \<longleftrightarrow> list_all (list_all is_policy_label_byte) ls"

lemma append_names_Nil [simp]: "append_names out [] = out"
  by (simp add: append_names_def)

lemma append_names_Cons [simp]:
  "append_names out (l # ls) = append_names (append_name out (map ascii_lower l)) ls"
  by (simp add: append_names_def)

lemma policy_labels_simps [simp]:
  "policy_labels []" "policy_labels (l # ls) \<longleftrightarrow> list_all is_policy_label_byte l \<and> policy_labels ls"
  by (simp_all add: policy_labels_def)

lemma length_append_names: "length out \<le> length (append_names out ls)"
proof (induction ls arbitrary: out)
  case (Cons l ls)
  have "length out \<le> length (append_name out (map ascii_lower l))"
    by (simp add: append_name_def)
  with Cons [of "append_name out (map ascii_lower l)"] show ?case by simp
qed simp

lemma append_names_join:
  "list_all (\<lambda>l. l \<noteq> []) ls \<Longrightarrow> out \<noteq> [] \<Longrightarrow> ls \<noteq> [] \<Longrightarrow>
   append_names out ls = out @ dot # join_dots (map (map ascii_lower) ls)"
proof (induction ls arbitrary: out)
  case (Cons l ls)
  then show ?case
    using Cons.IH [of "out @ dot # map ascii_lower l"] by (cases ls) (auto simp: append_name_def)
qed simp

lemma append_names_join_Nil:
  "list_all (\<lambda>l. l \<noteq> []) ls \<Longrightarrow> append_names [] ls = join_dots (map (map ascii_lower) ls)"
proof (cases ls)
  case (Cons l ls')
  assume "list_all (\<lambda>l. l \<noteq> []) ls"
  with Cons show ?thesis
    using append_names_join [of ls' "map ascii_lower l"]
    by (cases ls') (auto simp: append_name_def)
qed simp

lemma name_at_labels: "name_at msg off k ls next \<Longrightarrow> list_all (\<lambda>l. l \<noteq> [] \<and> length l \<le> 63) ls"
  by (induction rule: name_at.induct) (auto simp flip: length_greater_0_conv)

lemma name_at_next: "name_at msg off k ls next \<Longrightarrow> off < next \<and> next \<le> length msg"
  by (induction rule: name_at.induct) auto

section \<open>Copying labels\<close>

lemma slice_Suc: "src < length xs \<Longrightarrow> slice src (Suc n) xs = xs ! src # slice (Suc src) n xs"
  by (simp add: slice_def Cons_nth_drop_Suc [symmetric])

lemma copy_label_eq:
  "src + n \<le> length msg \<Longrightarrow> length out + n \<le> osz \<Longrightarrow>
   copy_label msg osz src n out =
     (if list_all is_policy_label_byte (slice src n msg)
      then Done (out @ map ascii_lower (slice src n msg)) else Fail JG_DNS_MALFORMED)"
  by (induction n arbitrary: src out) (auto simp: slice_Suc slice_def [of _ 0])

lemma put_label_eq:
  assumes "1 \<le> n" and "cursor + n \<le> length msg" and "length out \<le> JG_DOMAIN_NAME_MAX"
    and "length out < osz"
  shows "put_label msg osz cursor n out =
    (let w = append_name out (map ascii_lower (slice cursor n msg)) in
     if length w > JG_DOMAIN_NAME_MAX \<or> length w \<ge> osz then Fail JG_DNS_LIMIT_EXCEEDED
     else if list_all is_policy_label_byte (slice cursor n msg) then Done w
     else Fail JG_DNS_MALFORMED)"
  using assms
  by (auto simp: put_label_def put_separator_def append_name_def copy_label_eq Let_def)

section \<open>Correctness of the decoder\<close>

lemma unat_and_c0: "unat ((b :: u8) AND 0xC0) = (unat b div 64) * 64"
proof -
  have c0: "(0xC0 :: u8) = push_bit 6 (mask 2)"
    by (simp add: mask_eq_exp_minus_1 push_bit_eq_mult)
  have "b AND 0xC0 = push_bit 6 (drop_bit 6 b)"
    unfolding c0 by (rule bit_word_eqI) (auto simp: bit_simps)
  moreover have "(unat b div 64) * 64 < 256"
    using unat_u8_less [of b] by (rule le_less_trans [rotated]) (simp add: div_times_less_eq_dividend)
  ultimately show ?thesis
    by (simp add: push_bit_eq_mult unat_word_ariths unat_drop_bit mult.commute)
qed

lemma c0_cases:
  "(b :: u8) AND 0xC0 = 0xC0 \<longleftrightarrow> 192 \<le> unat b"
  "(b :: u8) AND 0xC0 = 0 \<longleftrightarrow> unat b < 64"
proof -
  have arith: "(x div 64) * 64 = 192 \<longleftrightarrow> 192 \<le> x" if "x < 256" for x :: nat
  proof -
    have "3 \<le> x div 64 \<longleftrightarrow> 192 \<le> x"
      by (simp add: less_eq_div_iff_mult_less_eq)
    moreover have "x div 64 < 4"
      using that by (simp add: div_less_iff_less_mult)
    ultimately show ?thesis by linarith
  qed
  have "b AND 0xC0 = 0xC0 \<longleftrightarrow> unat (b AND 0xC0) = 192"
    by (auto simp: word_unat_eq_iff)
  then show "b AND 0xC0 = 0xC0 \<longleftrightarrow> 192 \<le> unat b"
    by (simp only: unat_and_c0 arith [OF unat_u8_less])
qed (rule and_c0_eq_0)

lemma pointer_target:
  "unat (join16 a b AND 0x3FFF) = (unat a mod 64) * 256 + unat b"
proof -
  have "unat (join16 a b AND 0x3FFF) = unat (join16 a b) mod 2 ^ 14"
    by (rule and_low_mask) (simp add: mask_eq_exp_minus_1)
  also have "\<dots> = (unat a * 256 + unat b) mod (256 * 64)"
    by simp
  also have "\<dots> = (unat a mod 64) * 256 + unat b"
    by (subst mod_mult2_eq) simp
  finally show ?thesis .
qed

text \<open>One step of the loop, by the kind of byte at the cursor.\<close>

lemma decode_out: "length msg \<le> c \<Longrightarrow> decode_name_loop msg osz c e out d j = Fail JG_DNS_TRUNCATED"
  by (subst decode_name_loop.simps) simp

lemma decode_reserved:
  "c < length msg \<Longrightarrow> 64 \<le> unat (msg ! c) \<Longrightarrow> unat (msg ! c) < 192 \<Longrightarrow>
   decode_name_loop msg osz c e out d j = Fail JG_DNS_MALFORMED"
  by (subst decode_name_loop.simps) (simp add: c0_cases)

lemma decode_root:
  "c < length msg \<Longrightarrow> msg ! c = 0 \<Longrightarrow> length out < osz \<Longrightarrow>
   decode_name_loop msg osz c e out d j = Done (out, if j then e else c + 1)"
  by (subst decode_name_loop.simps) simp

lemma decode_short_pointer:
  "c < length msg \<Longrightarrow> 192 \<le> unat (msg ! c) \<Longrightarrow> length msg < c + 2 \<Longrightarrow>
   decode_name_loop msg osz c e out d j = Fail JG_DNS_TRUNCATED"
  by (subst decode_name_loop.simps) (simp add: c0_cases jg_read_u16_be_def)

lemma decode_pointer:
  assumes "c + 2 \<le> length msg" and "192 \<le> unat (msg ! c)"
    and "t = (unat (msg ! c) mod 64) * 256 + unat (msg ! (c + 1))"
  shows "decode_name_loop msg osz c e out d j =
    (if c \<le> t then Fail JG_DNS_MALFORMED
     else if d + 1 > JG_DNS_POINTER_LIMIT then Fail JG_DNS_LIMIT_EXCEEDED
     else decode_name_loop msg osz t (if j then e else c + 2) out (d + 1) True)"
  using assms
  by (subst decode_name_loop.simps) (simp add: c0_cases jg_read_u16_be_join pointer_target)

lemma decode_label:
  assumes "c < length msg" and "n = unat (msg ! c)" and "1 \<le> n" and "n \<le> 63"
    and "length out \<le> JG_DOMAIN_NAME_MAX" and "length out < osz"
    and "w = append_name out (map ascii_lower (slice (c + 1) n msg))"
  shows "decode_name_loop msg osz c e out d j =
    (if length msg < c + 1 + n then Fail JG_DNS_TRUNCATED
     else if length w > JG_DOMAIN_NAME_MAX \<or> length w \<ge> osz then Fail JG_DNS_LIMIT_EXCEEDED
     else if list_all is_policy_label_byte (slice (c + 1) n msg)
     then decode_name_loop msg osz (c + 1 + n) e w d j
     else Fail JG_DNS_MALFORMED)"
proof -
  have "msg ! c \<noteq> 0" using assms(2,3) by auto
  then show ?thesis
    using assms put_label_eq [of n "c + 1" msg out osz]
    by (subst decode_name_loop.simps) (auto simp: c0_cases JG_DOMAIN_LABEL_MAX_def Let_def)
qed

lemma decode_cases [case_names out reserved root short_pointer pointer label]:
  assumes "length msg \<le> c \<Longrightarrow> P"
    and "c < length msg \<Longrightarrow> 64 \<le> unat (msg ! c) \<Longrightarrow> unat (msg ! c) < 192 \<Longrightarrow> P"
    and "c < length msg \<Longrightarrow> msg ! c = 0 \<Longrightarrow> P"
    and "c < length msg \<Longrightarrow> 192 \<le> unat (msg ! c) \<Longrightarrow> length msg < c + 2 \<Longrightarrow> P"
    and "c + 2 \<le> length msg \<Longrightarrow> 192 \<le> unat (msg ! c) \<Longrightarrow> P"
    and "c < length msg \<Longrightarrow> 1 \<le> unat (msg ! c) \<Longrightarrow> unat (msg ! c) \<le> 63 \<Longrightarrow> P"
  shows P
proof -
  have "msg ! c = 0 \<or> 1 \<le> unat (msg ! c)"
    by (metis One_nat_def Suc_leI unat_gt_0)
  then show P using assms by fastforce
qed

text \<open>The induction that the termination measure of the loop justifies.\<close>

lemma decode_induct [case_names step]:
  assumes step: "\<And>c out d. (\<And>t. d + 1 \<le> JG_DNS_POINTER_LIMIT \<Longrightarrow> P t out (d + 1)) \<Longrightarrow>
      (\<And>n w. c < length msg \<Longrightarrow> P (c + 1 + n) w d) \<Longrightarrow> P c out d"
  shows "P c out d"
proof (induction "(JG_DNS_POINTER_LIMIT - d, length msg - c)" arbitrary: c out d
    rule: wf_induct_rule [OF wf_lex_prod [OF wf_less_than wf_less_than]])
  case 1
  show ?case
  proof (rule step)
    fix t assume "d + 1 \<le> JG_DNS_POINTER_LIMIT"
    then show "P t out (d + 1)" by (intro 1) auto
  next
    fix n w assume "c < length msg"
    then show "P (c + 1 + n) w d" by (intro 1) auto
  qed
qed

lemma decode_name_loop_no_fault:
  "length out \<le> JG_DOMAIN_NAME_MAX \<Longrightarrow> length out < osz \<Longrightarrow>
   decode_name_loop msg osz c e out d j \<noteq> Fault"
proof (induction c out d arbitrary: e j rule: decode_induct [where msg = msg])
  case (step c out d)
  show ?case
  proof (cases msg c rule: decode_cases)
    case pointer
    with step show ?thesis by (auto simp: decode_pointer [OF pointer refl])
  next
    case label
    with step show ?thesis
      by (auto simp: decode_label [OF label(1) refl label(2,3) step(3,4) refl])
  qed (use step in \<open>simp_all add: decode_out decode_reserved decode_root decode_short_pointer\<close>)
qed

text \<open>What the loop decodes from \<open>c\<close> after \<open>d\<close> pointers, with \<open>out\<close> already stored.\<close>

definition decoded ::
  "bytes \<Rightarrow> nat \<Rightarrow> nat \<Rightarrow> nat \<Rightarrow> bytes \<Rightarrow> nat \<Rightarrow> bool \<Rightarrow> bytes \<Rightarrow> nat \<Rightarrow> bool" where
  "decoded msg osz c e out d j w nx \<longleftrightarrow>
     (\<exists>k ls next. name_at msg c k ls next \<and> d + k \<le> JG_DNS_POINTER_LIMIT \<and> policy_labels ls
        \<and> w = append_names out ls \<and> length w \<le> JG_DOMAIN_NAME_MAX \<and> length w < osz
        \<and> nx = (if j then e else next))"

lemma decoded_pointer:
  assumes "c + 2 \<le> length msg" and "192 \<le> unat (msg ! c)"
    and "t = (unat (msg ! c) mod 64) * 256 + unat (msg ! (c + 1))"
  shows "decoded msg osz c e out d j w nx \<longleftrightarrow>
    t < c \<and> decoded msg osz t (if j then e else c + 2) out (d + 1) True w nx"
proof -
  have "name_at msg c k ls next \<longleftrightarrow>
      t < c \<and> next = c + 2 \<and> (\<exists>k' nx'. k = Suc k' \<and> name_at msg t k' ls nx')" for k ls "next"
    using assms by (subst name_at_unfold) auto
  then show ?thesis unfolding decoded_def by fastforce
qed

lemma decoded_label:
  assumes "c < length msg" and "n = unat (msg ! c)" and "1 \<le> n" and "n \<le> 63"
    and "v = append_name out (map ascii_lower (slice (c + 1) n msg))"
  shows "decoded msg osz c e out d j w nx \<longleftrightarrow>
    c + 1 + n \<le> length msg \<and> list_all is_policy_label_byte (slice (c + 1) n msg)
    \<and> length v \<le> JG_DOMAIN_NAME_MAX \<and> length v < osz
    \<and> decoded msg osz (c + 1 + n) e v d j w nx"
proof -
  have name: "name_at msg c k ls next \<longleftrightarrow> c + 1 + n \<le> length msg
      \<and> (\<exists>ls'. ls = slice (c + 1) n msg # ls' \<and> name_at msg (c + 1 + n) k ls' next)" for k ls "next"
    using assms(1-4) by (subst name_at_unfold) auto
  show ?thesis
  proof
    assume "decoded msg osz c e out d j w nx"
    then obtain k ls "next" where *: "name_at msg c k ls next" "d + k \<le> JG_DNS_POINTER_LIMIT"
      "policy_labels ls" "w = append_names out ls" "length w \<le> JG_DOMAIN_NAME_MAX" "length w < osz"
      "nx = (if j then e else next)" unfolding decoded_def by blast
    from *(1) obtain ls' where "ls = slice (c + 1) n msg # ls'"
      "name_at msg (c + 1 + n) k ls' next" "c + 1 + n \<le> length msg" unfolding name by blast
    moreover from this have "w = append_names v ls'" using *(4) assms(5) by simp
    moreover from this have "length v \<le> length w" using length_append_names by blast
    ultimately show "c + 1 + n \<le> length msg \<and> list_all is_policy_label_byte (slice (c + 1) n msg)
      \<and> length v \<le> JG_DOMAIN_NAME_MAX \<and> length v < osz \<and> decoded msg osz (c + 1 + n) e v d j w nx"
      using * unfolding decoded_def by auto
  next
    assume "c + 1 + n \<le> length msg \<and> list_all is_policy_label_byte (slice (c + 1) n msg)
      \<and> length v \<le> JG_DOMAIN_NAME_MAX \<and> length v < osz \<and> decoded msg osz (c + 1 + n) e v d j w nx"
    moreover from this obtain k ls "next" where *: "name_at msg (c + 1 + n) k ls next"
      "d + k \<le> JG_DNS_POINTER_LIMIT" "policy_labels ls" "w = append_names v ls"
      "length w \<le> JG_DOMAIN_NAME_MAX" "length w < osz" "nx = (if j then e else next)"
      unfolding decoded_def by blast
    ultimately have "name_at msg c k (slice (c + 1) n msg # ls) next"
      "policy_labels (slice (c + 1) n msg # ls)" "w = append_names out (slice (c + 1) n msg # ls)"
      unfolding name using assms(5) by simp_all
    with * show "decoded msg osz c e out d j w nx" unfolding decoded_def by blast
  qed
qed

lemma decode_name_loop_Done_iff:
  "length out \<le> JG_DOMAIN_NAME_MAX \<Longrightarrow> length out < osz \<Longrightarrow> d \<le> JG_DNS_POINTER_LIMIT \<Longrightarrow>
   decode_name_loop msg osz c e out d j = Done (w, nx) \<longleftrightarrow> decoded msg osz c e out d j w nx"
proof (induction c out d arbitrary: e j rule: decode_induct [where msg = msg])
  case (step c out d)
  show ?case
  proof (cases msg c rule: decode_cases)
    case out
    then show ?thesis by (auto simp: decode_out decoded_def elim: name_at.cases)
  next
    case reserved
    then show ?thesis by (auto simp: decode_reserved decoded_def name_at_unfold [of msg c])
  next
    case root
    then show ?thesis using step(3-5)
      by (auto simp: decode_root decoded_def name_at_unfold [of msg c])
  next
    case short_pointer
    then show ?thesis by (auto simp: decode_short_pointer decoded_def name_at_unfold [of msg c])
  next
    case pointer
    let ?t = "(unat (msg ! c) mod 64) * 256 + unat (msg ! (c + 1))"
    have "\<not> decoded msg osz ?t e' out (d + 1) True w nx" if "JG_DNS_POINTER_LIMIT < d + 1" for e'
      using that by (auto simp: decoded_def)
    then show ?thesis
      using step(1) [of ?t "if j then e else c + 2" True] step(3,4)
      by (cases "d + 1 \<le> JG_DNS_POINTER_LIMIT")
        (simp_all only: decode_pointer [OF pointer refl] decoded_pointer [OF pointer refl], auto)
  next
    case label
    then show ?thesis
      using step(2) [of _ "unat (msg ! c)" e j] step(3-5)
      by (simp add: decode_label [OF label(1) refl label(2,3) step(3,4) refl]
          decoded_label [OF label(1) refl label(2,3) refl] not_le)
  qed
qed

lemma append_names_name_at:
  "name_at msg off k ls next \<Longrightarrow> append_names [] ls = join_dots (map (map ascii_lower) ls)"
  using name_at_labels [of msg off k ls "next"]
  by (intro append_names_join_Nil) (auto simp: list_all_iff)

lemma jg_dns_decode_name_no_fault: "jg_dns_decode_name msg off osz \<noteq> Fault"
  by (simp add: jg_dns_decode_name_def decode_name_loop_no_fault)

text \<open>The name at an offset as text, within the decoder's limits.\<close>

definition name_text :: "bytes \<Rightarrow> nat \<Rightarrow> bytes \<Rightarrow> nat \<Rightarrow> bool" where
  "name_text msg off name nx \<longleftrightarrow>
     (\<exists>k ls. name_at msg off k ls nx \<and> k \<le> JG_DNS_POINTER_LIMIT \<and> policy_labels ls
        \<and> name = join_dots (map (map ascii_lower) ls) \<and> length name \<le> JG_DOMAIN_NAME_MAX)"

lemma jg_dns_decode_name_Done_iff:
  "jg_dns_decode_name msg off osz = Done (name, nx) \<longleftrightarrow> name_text msg off name nx \<and> length name < osz"
proof -
  have "\<not> name_at msg off k ls nx" if "length msg \<le> off" for k ls
    using that by (auto elim: name_at.cases)
  moreover have "decode_name_loop msg osz off 0 [] 0 False = Done (name, nx)
      \<longleftrightarrow> decoded msg osz off 0 [] 0 False name nx" if "0 < osz"
    using that by (simp add: decode_name_loop_Done_iff)
  moreover have "decoded msg osz off 0 [] 0 False name nx
      \<longleftrightarrow> name_text msg off name nx \<and> length name < osz"
    unfolding decoded_def name_text_def using append_names_name_at by fastforce
  ultimately show ?thesis
    by (auto simp: jg_dns_decode_name_def name_text_def)
qed

lemma decode_name_text [simp]:
  "jg_dns_decode_name msg off (Suc JG_DOMAIN_NAME_MAX) = Done (name, nx) \<longleftrightarrow> name_text msg off name nx"
  by (auto simp: jg_dns_decode_name_Done_iff name_text_def)

lemma name_text_bounds: "name_text msg off name nx \<Longrightarrow>
  off < nx \<and> nx \<le> length msg \<and> length name \<le> JG_DOMAIN_NAME_MAX"
  using name_at_next by (auto simp: name_text_def)

text \<open>
  C26. The DNS name decoder is correct and complete for the wire format: it stores a name exactly
  when the message holds, at the offset, a sequence of labels of 1 to 63 printable bytes reached
  through at most 16 backward compression pointers, whose dotted lower-case text has at most 253
  bytes and fits the output with its terminator; it stores that text and the offset after the name
  in place. In every other case it returns an error, and it never reads outside the message or
  writes outside the output.
\<close>

theorem jg_dns_decode_name_correct:
  "jg_dns_decode_name msg off osz \<noteq> Fault \<and>
   (jg_dns_decode_name msg off osz = Done (name, nx) \<longleftrightarrow>
     (\<exists>k ls. name_at msg off k ls nx \<and> k \<le> JG_DNS_POINTER_LIMIT \<and> policy_labels ls
        \<and> name = join_dots (map (map ascii_lower) ls)
        \<and> length name \<le> JG_DOMAIN_NAME_MAX \<and> length name < osz))"
  by (auto simp: jg_dns_decode_name_no_fault jg_dns_decode_name_Done_iff name_text_def)

section \<open>Names that the encoder of the wire format writes\<close>

definition encode_name :: "bytes list \<Rightarrow> bytes" where
  "encode_name ls = concat (map (\<lambda>l. of_nat (length l) # l) ls) @ [0]"

lemma encode_name_simps [simp]:
  "encode_name [] = [0]" "encode_name (l # ls) = of_nat (length l) # l @ encode_name ls"
  by (simp_all add: encode_name_def)

lemma name_at_encode:
  "list_all (\<lambda>l. l \<noteq> [] \<and> length l \<le> 63) ls \<Longrightarrow>
   name_at (pre @ encode_name ls @ post) (length pre) 0 ls (length pre + length (encode_name ls))"
proof (induction ls arbitrary: pre)
  case Nil
  show ?case using name_root [of "length pre" "pre @ encode_name [] @ post"] by simp
next
  case (Cons l ls)
  let ?msg = "pre @ encode_name (l # ls) @ post"
  have n: "unat (of_nat (length l) :: u8) = length l"
    using Cons.prems by (simp add: unat_of_nat)
  have "name_at ?msg (length pre + 1 + length l) 0 ls (length pre + length (encode_name (l # ls)))"
    using Cons.IH [of "pre @ of_nat (length l) # l"] Cons.prems by (simp add: ac_simps)
  then have "name_at ?msg (length pre) 0 (slice (length pre + 1) (length l) ?msg # ls)
      (length pre + length (encode_name (l # ls)))"
    using Cons.prems n by (intro name_label) (auto simp: Suc_le_eq)
  then show ?case by (simp add: slice_def)
qed

lemma map_lower_join_dots: "map ascii_lower (join_dots ls) = join_dots (map (map ascii_lower) ls)"
  by (induction ls rule: join_dots.induct) (simp_all add: ascii_lower_def)

text \<open>
  C27. Round trip: the wire encoding of labels of 1 to 63 printable bytes, at any place of any
  message, decodes to their lower-case dotted text and to the offset behind the encoding.
\<close>

theorem jg_dns_decode_name_encode:
  assumes "list_all (\<lambda>l. l \<noteq> [] \<and> length l \<le> JG_DOMAIN_LABEL_MAX) ls" and "policy_labels ls"
    and "length (join_dots ls) \<le> JG_DOMAIN_NAME_MAX"
  shows "jg_dns_decode_name (pre @ encode_name ls @ post) (length pre) (JG_DOMAIN_NAME_MAX + 1) =
    Done (map ascii_lower (join_dots ls), length pre + length (encode_name ls))"
proof -
  have "name_text (pre @ encode_name ls @ post) (length pre) (map ascii_lower (join_dots ls))
      (length pre + length (encode_name ls))"
    using assms name_at_encode [of ls pre post]
    unfolding name_text_def by (intro exI [of _ 0] exI [of _ ls]) (auto simp: JG_DOMAIN_LABEL_MAX_def simp flip: map_lower_join_dots)
  then show ?thesis by simp
qed

theorem jg_dns_decode_name_encode_witness:
  "jg_dns_decode_name (str ''hdr'' @ encode_name [str ''WWW'', str ''Example'', str ''org''] @ [])
     (length (str ''hdr'')) (JG_DOMAIN_NAME_MAX + 1) =
   Done (str ''www.example.org'', 3 + length (encode_name [str ''WWW'', str ''Example'', str ''org'']))"
  using jg_dns_decode_name_encode [of "[str ''WWW'', str ''Example'', str ''org'']" "str ''hdr''" "[]"]
  by (simp add: JG_DOMAIN_LABEL_MAX_def JG_DOMAIN_NAME_MAX_def is_policy_label_byte_def
      ascii_lower_def)

section \<open>Queries\<close>

text \<open>
  The format of the sections of a message: questions, and resource records as the list of their
  types, from an offset to an offset.
\<close>

fun questions_at :: "bytes \<Rightarrow> nat \<Rightarrow> jg_dns_question list \<Rightarrow> nat \<Rightarrow> bool" where
  "questions_at msg c [] c' \<longleftrightarrow> c' = c"
| "questions_at msg c (q # qs) c' \<longleftrightarrow> (\<exists>nx. name_text msg c (qname q) nx \<and> qname q \<noteq> []
     \<and> wire_offset q = c \<and> u16_at msg nx (qtype q) \<and> u16_at msg (nx + 2) (qclass q)
     \<and> questions_at msg (nx + 4) qs c')"

fun records_at :: "bytes \<Rightarrow> nat \<Rightarrow> u16 list \<Rightarrow> nat \<Rightarrow> bool" where
  "records_at msg c [] c' \<longleftrightarrow> c' = c"
| "records_at msg c (ty # tys) c' \<longleftrightarrow> (\<exists>owner nx len. name_text msg c owner nx
     \<and> u16_at msg nx ty \<and> u16_at msg (nx + 8) len \<and> nx + 10 + unat len \<le> length msg
     \<and> records_at msg (nx + 10 + unat len) tys c')"

lemma skip_records_no_fault: "skip_records msg c n detect e \<noteq> Fault"
  by (induction n arbitrary: c e) (auto simp: jg_dns_decode_name_no_fault split: if_splits)

lemma parse_questions_no_fault: "parse_questions msg c n qs \<noteq> Fault"
  by (induction n arbitrary: c qs) (auto simp: jg_dns_decode_name_no_fault split: if_splits)

lemma parse_questions_Done_iff:
  "parse_questions msg c n qs = Done (c', qs') \<longleftrightarrow>
   (\<exists>rs. length rs = n \<and> qs' = qs @ rs \<and> questions_at msg c rs c')"
proof (induction n arbitrary: c qs)
  case 0
  then show ?case by auto
next
  case (Suc n)
  have "parse_questions msg c (Suc n) qs = Done (c', qs') \<longleftrightarrow>
    (\<exists>name nx ty cl. name_text msg c name nx \<and> name \<noteq> [] \<and> u16_at msg nx ty \<and> u16_at msg (nx + 2) cl
      \<and> parse_questions msg (nx + 4) n
          (qs @ [\<lparr>qname = name, wire_offset = c, qtype = ty, qclass = cl\<rparr>]) = Done (c', qs'))"
    by (auto simp: read_u16_at split: if_splits prod.splits)
  also have "\<dots> \<longleftrightarrow> (\<exists>r rs. length rs = n \<and> qs' = qs @ r # rs \<and> questions_at msg c (r # rs) c')"
    (is "?l \<longleftrightarrow> ?r")
  proof
    assume ?l
    then show ?r unfolding Suc.IH by fastforce
  next
    assume ?r
    then obtain r rs where "length rs = n" "qs' = qs @ r # rs" "questions_at msg c (r # rs) c'"
      by blast
    then show ?l unfolding Suc.IH by (cases r) auto
  qed
  also have "\<dots> \<longleftrightarrow> (\<exists>rs. length rs = Suc n \<and> qs' = qs @ rs \<and> questions_at msg c rs c')"
    by (metis Suc_length_conv)
  finally show ?case .
qed

text \<open>
  At most one OPT record, counting one seen before, passes \<open>skip_records\<close> when it detects them.
\<close>

definition opt_count :: "u16 list \<Rightarrow> nat" where
  "opt_count tys = length (filter (\<lambda>ty. ty = JG_DNS_TYPE_OPT) tys)"

lemma opt_count_simps [simp]:
  "opt_count [] = 0"
  "opt_count (ty # tys) = (if ty = JG_DNS_TYPE_OPT then Suc (opt_count tys) else opt_count tys)"
  by (simp_all add: opt_count_def)

lemma skip_records_Suc_iff:
  "skip_records msg c (Suc n) detect e = Done r \<longleftrightarrow>
   (\<exists>owner nx ty len. name_text msg c owner nx \<and> u16_at msg nx ty \<and> u16_at msg (nx + 8) len
      \<and> nx + 10 + unat len \<le> length msg
      \<and> \<not> (detect \<and> ty = JG_DNS_TYPE_OPT \<and> e)
      \<and> skip_records msg (nx + 10 + unat len) n detect (e \<or> detect \<and> ty = JG_DNS_TYPE_OPT) = Done r)"
proof -
  have merge: "(if opt then if e then Fail JG_DNS_MALFORMED else F True else F e)
      = (if opt \<and> e then Fail JG_DNS_MALFORMED else F (e \<or> opt))"
    for opt and F :: "bool \<Rightarrow> (jg_dns_result, nat \<times> bool) run" by simp
  have if_Done: "(if b then Fail x else m) = Done r \<longleftrightarrow> \<not> b \<and> m = Done r"
    for b x and m :: "(jg_dns_result, nat \<times> bool) run" by simp
  have bound: "u16_at msg (nx + 8) len \<Longrightarrow> nx + 10 \<le> length msg" for nx len
    using u16_at_bound [of msg "nx + 8" len] by simp
  show ?thesis
    unfolding skip_records.simps merge and_then_Done_iff or_fail_simps read_u16_at split_paired_Ex
      prod.case if_Done decode_name_text [simplified Suc_eq_plus1] jg_range_valid_iff not_not
    using bound by blast
qed

lemma skip_records_Done_iff:
  "skip_records msg c n detect e = Done (c', e') \<longleftrightarrow>
   (\<exists>tys. length tys = n \<and> records_at msg c tys c'
      \<and> (detect \<longrightarrow> opt_count tys + (if e then 1 else 0) \<le> 1)
      \<and> e' = (e \<or> detect \<and> opt_count tys = 1))"
proof (induction n arbitrary: c e)
  case 0
  then show ?case by auto
next
  case (Suc n)
  show ?case (is "?l \<longleftrightarrow> ?r")
  proof
    assume ?l
    then obtain owner nx ty len tys where *: "name_text msg c owner nx" "u16_at msg nx ty"
      "u16_at msg (nx + 8) len" "nx + 10 + unat len \<le> length msg"
      "\<not> (detect \<and> ty = JG_DNS_TYPE_OPT \<and> e)" "length tys = n"
      "records_at msg (nx + 10 + unat len) tys c'"
      "detect \<longrightarrow> opt_count tys + (if e \<or> detect \<and> ty = JG_DNS_TYPE_OPT then 1 else 0) \<le> 1"
      "e' = ((e \<or> detect \<and> ty = JG_DNS_TYPE_OPT) \<or> detect \<and> opt_count tys = 1)"
      unfolding skip_records_Suc_iff Suc.IH by blast
    then have "records_at msg c (ty # tys) c'" by auto
    with * show ?r by (intro exI [of _ "ty # tys"]) (auto split: if_splits)
  next
    assume ?r
    then obtain tys0 where tys0: "length tys0 = Suc n" "records_at msg c tys0 c'"
      "detect \<longrightarrow> opt_count tys0 + (if e then 1 else 0) \<le> 1" "e' = (e \<or> detect \<and> opt_count tys0 = 1)"
      by blast
    from tys0(1) obtain ty tys where "tys0 = ty # tys" by (cases tys0) auto
    with tys0 have *: "length tys = n" "records_at msg c (ty # tys) c'"
      "detect \<longrightarrow> opt_count (ty # tys) + (if e then 1 else 0) \<le> 1"
      "e' = (e \<or> detect \<and> opt_count (ty # tys) = 1)" by simp_all
    then obtain owner nx len where "name_text msg c owner nx" "u16_at msg nx ty"
      "u16_at msg (nx + 8) len" "nx + 10 + unat len \<le> length msg"
      "records_at msg (nx + 10 + unat len) tys c'" by auto
    moreover from * have "\<not> (detect \<and> ty = JG_DNS_TYPE_OPT \<and> e)"
      "detect \<longrightarrow> opt_count tys + (if e \<or> detect \<and> ty = JG_DNS_TYPE_OPT then 1 else 0) \<le> 1"
      "e' = ((e \<or> detect \<and> ty = JG_DNS_TYPE_OPT) \<or> detect \<and> opt_count tys = 1)"
      by (auto split: if_splits)
    ultimately show ?l unfolding skip_records_Suc_iff Suc.IH using *(1) by blast
  qed
qed

text \<open>The header, and a whole query with its three record sections.\<close>

definition query_header :: "bytes \<Rightarrow> jg_dns_message \<Rightarrow> bool" where
  "query_header msg m \<longleftrightarrow> take 12 msg =
     u16_be (dns_id m) @ u16_be (dns_flags m) @ u16_be (wire_question_count m)
     @ u16_be (answer_count m) @ u16_be (authority_count m) @ u16_be (additional_count m)"

definition query_message :: "bytes \<Rightarrow> jg_dns_message \<Rightarrow> bool" where
  "query_message msg m \<longleftrightarrow> query_header msg m
     \<and> dns_flags m AND 0x8000 = 0 \<and> dns_flags m AND 0x7800 = 0
     \<and> 1 \<le> question_count m \<and> question_count m \<le> JG_DNS_QUESTION_LIMIT
     \<and> unat (wire_question_count m) = question_count m
     \<and> (\<exists>answers authority additional c1 c2. questions_at msg 12 (questions m) (12 + question_wire_size m)
         \<and> length answers = unat (answer_count m) \<and> length authority = unat (authority_count m)
         \<and> length additional = unat (additional_count m)
         \<and> records_at msg (12 + question_wire_size m) answers c1
         \<and> records_at msg c1 authority c2 \<and> records_at msg c2 additional (length msg)
         \<and> opt_count additional \<le> 1 \<and> has_edns0 m = (opt_count additional = 1))"

lemma take_add_slice: "take (n + k) xs = take n xs @ slice n k xs"
  by (simp add: slice_def take_add)

lemma query_header_reads:
  "query_header msg m \<longleftrightarrow>
     u16_at msg 0 (dns_id m) \<and> u16_at msg 2 (dns_flags m) \<and> u16_at msg 4 (wire_question_count m)
     \<and> u16_at msg 6 (answer_count m) \<and> u16_at msg 8 (authority_count m)
     \<and> u16_at msg 10 (additional_count m)" (is "?l \<longleftrightarrow> ?r")
proof -
  have split: "take 12 msg = slice 0 2 msg @ slice 2 2 msg @ slice 4 2 msg @ slice 6 2 msg
      @ slice 8 2 msg @ slice 10 2 msg"
    using take_add_slice [of 10 2 msg] take_add_slice [of 8 2 msg] take_add_slice [of 6 2 msg]
      take_add_slice [of 4 2 msg] take_add_slice [of 2 2 msg] by simp
  have len: "length (slice i 2 msg) = length (u16_be v)" if "12 \<le> length msg" "i + 2 \<le> 12" for i v
    using that by simp
  show ?thesis
  proof (cases "12 \<le> length msg")
    case True
    then show ?thesis
      unfolding query_header_def u16_at_def split by (simp add: len)
  next
    case False
    then have "\<not> ?r" using u16_at_bound [of msg 10] by auto
    moreover have "\<not> ?l" using False by (auto simp: query_header_def dest: arg_cong [where f = length])
    ultimately show ?thesis by blast
  qed
qed

lemma parse_sections_no_fault: "parse_sections msg c m \<noteq> Fault"
  by (auto simp: parse_sections_def skip_records_no_fault split: if_splits)

lemma jg_dns_parse_query_no_fault: "jg_dns_parse_query msg \<noteq> Fault"
  by (auto simp: jg_dns_parse_query_def parse_questions_no_fault parse_sections_no_fault
      split: if_splits)

lemma parse_sections_Done_iff:
  "parse_sections msg c p = Done m \<longleftrightarrow>
   (\<exists>answers authority additional c1 c2.
      length answers = unat (answer_count p) \<and> length authority = unat (authority_count p)
      \<and> length additional = unat (additional_count p)
      \<and> records_at msg c answers c1 \<and> records_at msg c1 authority c2
      \<and> records_at msg c2 additional (length msg)
      \<and> opt_count additional + (if has_edns0 p then 1 else 0) \<le> 1
      \<and> m = p\<lparr>has_edns0 := has_edns0 p \<or> opt_count additional = 1\<rparr>)"
proof -
  have "parse_sections msg c p = Done m \<longleftrightarrow> (\<exists>c1 e1 c2 e2 e3.
      skip_records msg c (unat (answer_count p)) False (has_edns0 p) = Done (c1, e1)
      \<and> skip_records msg c1 (unat (authority_count p)) False e1 = Done (c2, e2)
      \<and> skip_records msg c2 (unat (additional_count p)) True e2 = Done (length msg, e3)
      \<and> m = p\<lparr>has_edns0 := e3\<rparr>)"
    unfolding parse_sections_def and_then_Done_iff split_paired_Ex prod.case by auto
  also have "\<dots> \<longleftrightarrow> (\<exists>answers authority additional c1 c2.
      length answers = unat (answer_count p) \<and> length authority = unat (authority_count p)
      \<and> length additional = unat (additional_count p)
      \<and> records_at msg c answers c1 \<and> records_at msg c1 authority c2
      \<and> records_at msg c2 additional (length msg)
      \<and> opt_count additional + (if has_edns0 p then 1 else 0) \<le> 1
      \<and> m = p\<lparr>has_edns0 := has_edns0 p \<or> opt_count additional = 1\<rparr>)" (is "?l \<longleftrightarrow> ?r")
  proof
    assume ?l
    then show ?r unfolding skip_records_Done_iff by (elim exE conjE) (intro exI conjI; simp)
  next
    assume ?r
    then show ?l unfolding skip_records_Done_iff by (elim exE conjE) (intro exI conjI; simp)
  qed
  finally show ?thesis .
qed

lemma query_header_bound: "query_header msg m \<Longrightarrow> 12 \<le> length msg"
  using u16_at_bound [of msg 10] by (auto simp: query_header_reads)

lemma questions_at_le: "questions_at msg c qs c' \<Longrightarrow> c \<le> c'"
proof (induction qs arbitrary: c)
  case (Cons q qs)
  then obtain nx where "name_text msg c (qname q) nx" "questions_at msg (nx + 4) qs c'" by auto
  then show ?case using Cons.IH [of "nx + 4"] name_text_bounds [of msg c "qname q" nx] by linarith
qed simp

lemma jg_dns_parse_query_Done_iff: "jg_dns_parse_query msg = Done m \<longleftrightarrow> query_message msg m"
proof -
  have if_Done: "(if b then Fail x else r) = Done m \<longleftrightarrow> \<not> b \<and> r = Done m"
    for b x and r :: "(jg_dns_result, jg_dns_message) run" by simp
  have "jg_dns_parse_query msg = Done m \<longleftrightarrow> 12 \<le> length msg \<and> (\<exists>i f qd an ns ar cursor qs.
      u16_at msg 0 i \<and> u16_at msg 2 f \<and> u16_at msg 4 qd \<and> u16_at msg 6 an \<and> u16_at msg 8 ns
      \<and> u16_at msg 10 ar \<and> f AND 0x8000 = 0 \<and> f AND 0x7800 = 0 \<and> qd \<noteq> 0
      \<and> unat qd \<le> JG_DNS_QUESTION_LIMIT \<and> length qs = unat qd \<and> questions_at msg 12 qs cursor
      \<and> parse_sections msg cursor \<lparr>dns_id = i, dns_flags = f, wire_question_count = qd,
          answer_count = an, authority_count = ns, additional_count = ar,
          question_wire_size = cursor - 12, has_edns0 = False, questions = qs\<rparr> = Done m)"
    unfolding jg_dns_parse_query_def and_then_Done_iff or_fail_simps read_u16_at split_paired_Ex
      prod.case if_Done JG_DNS_HEADER_SIZE_def parse_questions_Done_iff append_Nil not_not not_less
    by blast
  also have "\<dots> \<longleftrightarrow> query_message msg m" (is "?l \<longleftrightarrow> _")
  proof
    assume ?l
    then obtain i f qd an ns ar cursor qs answers authority additional c1 c2 where *:
      "u16_at msg 0 i" "u16_at msg 2 f" "u16_at msg 4 qd" "u16_at msg 6 an" "u16_at msg 8 ns"
      "u16_at msg 10 ar" "f AND 0x8000 = 0" "f AND 0x7800 = 0" "qd \<noteq> 0"
      "unat qd \<le> JG_DNS_QUESTION_LIMIT" "length qs = unat qd" "questions_at msg 12 qs cursor"
      "length answers = unat an" "length authority = unat ns" "length additional = unat ar"
      "records_at msg cursor answers c1" "records_at msg c1 authority c2"
      "records_at msg c2 additional (length msg)" "opt_count additional \<le> 1"
      and m: "m = \<lparr>dns_id = i, dns_flags = f, wire_question_count = qd,
          answer_count = an, authority_count = ns, additional_count = ar,
          question_wire_size = cursor - 12, has_edns0 = (opt_count additional = 1), questions = qs\<rparr>"
      unfolding parse_sections_Done_iff by auto
    have "12 + (cursor - 12) = cursor" "1 \<le> unat qd"
      using questions_at_le [OF *(12)] *(9) by (simp_all add: unat_gt_0 Suc_le_eq)
    with * show "query_message msg m"
      unfolding query_message_def query_header_reads m by simp blast
  next
    assume q: "query_message msg m"
    then have "12 \<le> length msg" "wire_question_count m \<noteq> 0"
      by (auto simp: query_message_def intro: query_header_bound)
    moreover from q obtain answers authority additional c1 c2 where
      "length answers = unat (answer_count m)" "length authority = unat (authority_count m)"
      "length additional = unat (additional_count m)"
      "records_at msg (12 + question_wire_size m) answers c1" "records_at msg c1 authority c2"
      "records_at msg c2 additional (length msg)" "opt_count additional \<le> 1"
      "has_edns0 m = (opt_count additional = 1)"
      unfolding query_message_def by blast
    then have "parse_sections msg (12 + question_wire_size m) \<lparr>dns_id = dns_id m,
        dns_flags = dns_flags m, wire_question_count = wire_question_count m,
        answer_count = answer_count m, authority_count = authority_count m,
        additional_count = additional_count m,
        question_wire_size = (12 + question_wire_size m) - 12, has_edns0 = False,
        questions = questions m\<rparr> = Done m"
      unfolding parse_sections_Done_iff
      by (intro exI [of _ answers] exI [of _ authority] exI [of _ additional] exI [of _ c1]
          exI [of _ c2]) simp
    ultimately show ?l
      using q unfolding query_message_def query_header_reads by metis
  qed
  finally show ?thesis .
qed

text \<open>
  C25. The DNS query parser accepts exactly the well-formed queries: a complete header with the QR
  bit and the opcode clear, 1 to 16 questions with non-empty names, and three sections of resource
  records that end exactly at the end of the message, with at most one OPT record in the additional
  section; \<open>has_edns0\<close> says whether there is one. On every input it returns, without a read
  outside the message.
\<close>

theorem jg_dns_parse_query_correct:
  "jg_dns_parse_query msg \<noteq> Fault \<and> (jg_dns_parse_query msg = Done m \<longleftrightarrow> query_message msg m)"
  by (simp add: jg_dns_parse_query_no_fault jg_dns_parse_query_Done_iff)

end
