(* ===== verification/Ordering.thy ===== *)
theory Ordering
  imports Prelude "HOL-Library.List_Lexorder" "HOL-Library.Product_Lexorder"
begin

text \<open>
  Three-way comparisons, \<open>qsort\<close>, and the loop that keeps the first of equal neighbours, as the policy
  builder uses them. \<open>memcmp\<close> on arrays of one size and \<open>strcmp\<close> on terminated strings are both the
  lexicographic comparison of unsigned bytes. \<open>qsort\<close> is modelled as a stable insertion sort: the C
  function may order elements that compare equal either way.

  The locale \<open>comparison\<close> is the contract of a comparison function: on the values it is used on, it
  compares a key from a linear order. Its lemmas say what sorting and deduplicating then give.
\<close>

section \<open>Operations\<close>

fun memcmp :: "bytes \<Rightarrow> bytes \<Rightarrow> int" where
  "memcmp [] [] = 0"
| "memcmp [] (y # ys) = -1"
| "memcmp (x # xs) [] = 1"
| "memcmp (x # xs) (y # ys) = (if x < y then -1 else if y < x then 1 else memcmp xs ys)"

abbreviation strcmp :: "bytes \<Rightarrow> bytes \<Rightarrow> int" where
  "strcmp \<equiv> memcmp"

fun insert_by :: "('a \<Rightarrow> 'a \<Rightarrow> int) \<Rightarrow> 'a \<Rightarrow> 'a list \<Rightarrow> 'a list" where
  "insert_by cmp x [] = [x]"
| "insert_by cmp x (y # ys) = (if cmp x y \<le> 0 then x # y # ys else y # insert_by cmp x ys)"

definition qsort :: "('a \<Rightarrow> 'a \<Rightarrow> int) \<Rightarrow> 'a list \<Rightarrow> 'a list" where
  "qsort cmp xs = foldr (insert_by cmp) xs []"

text \<open>
  The compaction loop: an element is kept when nothing is kept yet or it differs from the last one
  kept.
\<close>

definition retain_step :: "('a \<Rightarrow> 'a \<Rightarrow> bool) \<Rightarrow> 'a list \<Rightarrow> 'a \<Rightarrow> 'a list" where
  "retain_step same kept x =
     (if length kept = 0 \<or> \<not> same (kept ! (length kept - 1)) x then kept @ [x] else kept)"

definition retain :: "('a \<Rightarrow> 'a \<Rightarrow> bool) \<Rightarrow> 'a list \<Rightarrow> 'a list" where
  "retain same xs = foldl (retain_step same) [] xs"

section \<open>Lexicographic comparison\<close>

lemma memcmp_less_iff [simp]: "memcmp xs ys < 0 \<longleftrightarrow> xs < ys"
  by (induction xs ys rule: memcmp.induct) auto

lemma memcmp_eq_iff [simp]: "memcmp xs ys = 0 \<longleftrightarrow> xs = ys"
  by (induction xs ys rule: memcmp.induct) auto

lemma memcmp_le_iff [simp]: "memcmp xs ys \<le> 0 \<longleftrightarrow> xs \<le> ys"
  using memcmp_less_iff [of xs ys] memcmp_eq_iff [of xs ys] order_le_less by metis

text \<open>
  The comparison functions of the builder are chains of such tests, one component after the other.
  \<open>agrees c x y\<close>: the result \<open>c\<close> of a comparison stands for the order of \<open>x\<close> and \<open>y\<close>.
\<close>

definition agrees :: "int \<Rightarrow> 'a :: linorder \<Rightarrow> 'a \<Rightarrow> bool" where
  "agrees c x y \<longleftrightarrow> (c \<le> 0 \<longleftrightarrow> x \<le> y) \<and> (c = 0 \<longleftrightarrow> x = y)"

lemma agrees_memcmp: "agrees (memcmp x y) x y"
  by (simp add: agrees_def)

lemma agrees_chain:
  "agrees c x y \<Longrightarrow> agrees r p q \<Longrightarrow> agrees (let k = c in if k \<noteq> 0 then k else r) (x, p) (y, q)"
  by (auto simp: agrees_def Let_def)

lemma agrees_code:
  "(a = b \<longleftrightarrow> x = y) \<Longrightarrow> agrees r p q \<Longrightarrow>
   agrees (if a \<noteq> b then (if x < y then -1 else 1) else r) (x, p) (y, q)"
  by (auto simp: agrees_def)

lemma agrees_bool:
  "agrees r p q \<Longrightarrow> agrees (if x \<noteq> y then (if x then 1 else -1) else r) (x, p) (y, q)"
  by (auto simp: agrees_def)

lemma agrees_last: "agrees (if x < y then -1 else if x > y then 1 else 0) x y"
  by (auto simp: agrees_def)

lemmas agrees_intros = agrees_chain agrees_code agrees_bool agrees_memcmp agrees_last

section \<open>What is retained\<close>

lemma foldl_retain_step:
  "\<exists>rest. foldl (retain_step same) kept xs = kept @ rest \<and> set rest \<subseteq> set xs"
proof (induction xs arbitrary: kept)
  case (Cons x xs)
  obtain r0 where r0: "retain_step same kept x = kept @ r0" "set r0 \<subseteq> {x}"
    by (cases "length kept = 0 \<or> \<not> same (kept ! (length kept - 1)) x") (auto simp: retain_step_def)
  obtain r where "foldl (retain_step same) (kept @ r0) xs = (kept @ r0) @ r" "set r \<subseteq> set xs"
    using Cons.IH by blast
  with r0 show ?case by (auto intro!: exI [of _ "r0 @ r"])
qed simp

lemma retain_subset: "set (retain same xs) \<subseteq> set xs"
  using foldl_retain_step [of same "[]" xs] by (auto simp: retain_def)

lemma sorted_foldl_retain:
  "sorted (map f (kept @ xs)) \<Longrightarrow> sorted (map f (foldl (retain_step same) kept xs))"
proof (induction xs arbitrary: kept)
  case (Cons x xs)
  then show ?case by (auto simp: retain_step_def sorted_append)
qed simp

lemma sorted_retain: "sorted (map f xs) \<Longrightarrow> sorted (map f (retain same xs))"
  using sorted_foldl_retain [of f "[]" xs same] by (simp add: retain_def)

lemma retain_step_below:
  fixes f :: "'a \<Rightarrow> 'k :: linorder"
  assumes "same a a" and "\<And>k. k \<in> set kept \<Longrightarrow> f k \<le> f a"
  shows "\<exists>y \<in> set (retain_step same kept a). same y a \<and> f y \<le> f a"
proof (cases "length kept = 0 \<or> \<not> same (kept ! (length kept - 1)) a")
  case True
  then show ?thesis using assms(1) by (simp add: retain_step_def)
next
  case False
  then have "kept ! (length kept - 1) \<in> set kept" by simp
  with False assms(2) show ?thesis unfolding retain_step_def by auto
qed

lemma retain_covers_below_step:
  assumes "\<And>x. x \<in> set xs \<Longrightarrow> same x x" and "x \<in> set xs" and "sorted (map f (kept @ xs))"
  shows "\<exists>y \<in> set (foldl (retain_step same) kept xs). same y x \<and> f y \<le> f x"
  using assms
proof (induction xs arbitrary: kept)
  case (Cons a xs)
  obtain rest where rest: "foldl (retain_step same) (retain_step same kept a) xs
      = retain_step same kept a @ rest"
    using foldl_retain_step [of same "retain_step same kept a" xs] by blast
  show ?case
  proof (cases "x = a")
    case True
    have "\<exists>y \<in> set (retain_step same kept a). same y a \<and> f y \<le> f a"
      using Cons.prems(1) [of a] Cons.prems(3) by (intro retain_step_below) (auto simp: sorted_append simp del: set_append)
    with rest True show ?thesis by auto
  next
    case False
    moreover have "sorted (map f (retain_step same kept a @ xs))"
      using Cons.prems(3) by (auto simp: retain_step_def sorted_append)
    ultimately show ?thesis using Cons.prems Cons.IH [of "retain_step same kept a"] by auto
  qed
qed simp

lemma retain_covers_below:
  "(\<And>x. x \<in> set xs \<Longrightarrow> same x x) \<Longrightarrow> x \<in> set xs \<Longrightarrow> sorted (map f xs) \<Longrightarrow>
   \<exists>y \<in> set (retain same xs). same y x \<and> f y \<le> f x"
  unfolding retain_def using retain_covers_below_step [of xs same x f "[]"] by simp

lemma retain_Nil [simp]: "retain same [] = []"
  by (simp add: retain_def)

section \<open>The contract of a comparison\<close>

locale comparison =
  fixes cmp :: "'a \<Rightarrow> 'a \<Rightarrow> int" and key :: "'a \<Rightarrow> 'k :: linorder" and valid :: "'a \<Rightarrow> bool"
  assumes cmp_le: "valid a \<Longrightarrow> valid b \<Longrightarrow> cmp a b \<le> 0 \<longleftrightarrow> key a \<le> key b"
    and cmp_eq: "valid a \<Longrightarrow> valid b \<Longrightarrow> cmp a b = 0 \<longleftrightarrow> key a = key b"
begin

lemma insert_by_eq:
  "valid x \<Longrightarrow> (\<And>y. y \<in> set ys \<Longrightarrow> valid y) \<Longrightarrow> insert_by cmp x ys = insort_key key x ys"
  by (induction ys) (auto simp: cmp_le)

lemma qsort_eq: "(\<And>x. x \<in> set xs \<Longrightarrow> valid x) \<Longrightarrow> qsort cmp xs = sort_key key xs"
  by (induction xs) (auto simp: qsort_def intro!: insert_by_eq)

lemma sorted_qsort: "(\<And>x. x \<in> set xs \<Longrightarrow> valid x) \<Longrightarrow> sorted (map key (qsort cmp xs))"
  by (simp add: qsort_eq)

lemma set_qsort: "(\<And>x. x \<in> set xs \<Longrightarrow> valid x) \<Longrightarrow> set (qsort cmp xs) = set xs"
  by (simp add: qsort_eq)

lemma distinct_retain:
  assumes "\<And>x. x \<in> set xs \<Longrightarrow> valid x"
  shows "distinct (map key (retain (\<lambda>a b. cmp a b = 0) (qsort cmp xs)))"
proof -
  have "distinct (map key (foldl (retain_step (\<lambda>a b. cmp a b = 0)) kept ys))"
    if "sorted (map key (kept @ ys))" "distinct (map key kept)" "\<And>x. x \<in> set (kept @ ys) \<Longrightarrow> valid x"
    for kept ys
    using that
  proof (induction ys arbitrary: kept)
    case (Cons y ys)
    let ?k = "retain_step (\<lambda>a b. cmp a b = 0) kept y"
    have last: "key z \<le> key (last kept)" if "z \<in> set kept" for z
    proof (cases kept rule: rev_cases)
      case (snoc ks l)
      then show ?thesis using Cons.prems(1) that by (auto simp: sorted_append)
    qed (use that in simp)
    have "distinct (map key ?k)"
    proof (cases "kept = [] \<or> cmp (last kept) y \<noteq> 0")
      case True
      have "key y \<noteq> key (last kept)" if "kept \<noteq> []"
        using that True Cons.prems(3) cmp_eq [of "last kept" y] by auto
      moreover have "key (last kept) \<le> key y" if "kept \<noteq> []"
        using that Cons.prems(1) by (auto simp: sorted_append)
      ultimately have "key y \<notin> key ` set kept"
        using last by (metis antisym empty_iff empty_set image_iff)
      with True show ?thesis using Cons.prems(2) by (auto simp: retain_step_def last_conv_nth)
    next
      case False
      then have "retain_step (\<lambda>a b. cmp a b = 0) kept y = kept"
        by (cases kept rule: rev_cases) (auto simp: retain_step_def)
      then show ?thesis using Cons.prems(2) by simp
    qed
    moreover have "sorted (map key (?k @ ys))"
      using Cons.prems(1) by (auto simp: retain_step_def sorted_append)
    moreover have "\<And>x. x \<in> set (?k @ ys) \<Longrightarrow> valid x"
      using Cons.prems(3) by (auto simp: retain_step_def split: if_splits)
    ultimately show ?case using Cons.IH by simp
  qed simp
  from this [of "[]" "qsort cmp xs"] show ?thesis
    using assms by (simp add: retain_def sorted_qsort set_qsort)
qed

end

end
