(* ===== verification/PolicyScope.thy ===== *)
theory PolicyScope
  imports Ordering
begin

text \<open>
  The scopes of \<^verbatim>\<open>src/common/policy.c\<close>: to which clients a rule applies. A scope is a tagged
  union; \<open>SCOPE_OTHER\<close> is a value of the C enum outside its enumerators, which the operations reject.
  The address arrays have 16 bytes, the MAC arrays 6 (\<open>scope_typed\<close>, \<open>client_typed\<close>).

  The specification is bit-level: an address is in a network when their first \<open>prefix\<close> bits agree.
\<close>

section \<open>Data\<close>

datatype jg_policy_scope =
    JG_POLICY_SCOPE_GLOBAL
  | JG_POLICY_SCOPE_MAC bytes
  | JG_POLICY_SCOPE_IPV4 bytes u8
  | JG_POLICY_SCOPE_IPV6 bytes u8
  | JG_POLICY_SCOPE_VLAN u16
  | SCOPE_OTHER nat

datatype jg_policy_address_family =
  JG_POLICY_ADDRESS_NONE | JG_POLICY_ADDRESS_IPV4 | JG_POLICY_ADDRESS_IPV6 | ADDRESS_OTHER nat

record jg_policy_client =
  has_mac :: bool
  c_mac :: bytes
  c_family :: jg_policy_address_family
  c_address :: bytes
  has_vlan :: bool
  c_vlan_id :: u16

text \<open>The numeric value of \<open>scope->type\<close>.\<close>

fun scope_type :: "jg_policy_scope \<Rightarrow> nat" where
  "scope_type JG_POLICY_SCOPE_GLOBAL = 0"
| "scope_type (JG_POLICY_SCOPE_MAC m) = 1"
| "scope_type (JG_POLICY_SCOPE_IPV4 a p) = 2"
| "scope_type (JG_POLICY_SCOPE_IPV6 a p) = 3"
| "scope_type (JG_POLICY_SCOPE_VLAN v) = 4"
| "scope_type (SCOPE_OTHER n) = 5 + n"

fun scope_typed :: "jg_policy_scope \<Rightarrow> bool" where
  "scope_typed (JG_POLICY_SCOPE_MAC m) \<longleftrightarrow> length m = 6"
| "scope_typed (JG_POLICY_SCOPE_IPV4 a p) \<longleftrightarrow> length a = 16"
| "scope_typed (JG_POLICY_SCOPE_IPV6 a p) \<longleftrightarrow> length a = 16"
| "scope_typed _ \<longleftrightarrow> True"

definition client_typed :: "jg_policy_client \<Rightarrow> bool" where
  "client_typed c \<longleftrightarrow> length (c_mac c) = 6 \<and> length (c_address c) = 16"

section \<open>Operations\<close>

text \<open>
  The tail shared by \<open>jg_policy_scope_normalize\<close> and \<open>destination_address_normalize\<close>: copy
  \<open>address_size\<close> bytes into a cleared array of 16, clear the host bits of the first partial byte and
  every byte behind it.
\<close>

definition prefix_mask :: "nat \<Rightarrow> u8" where
  "prefix_mask remaining_bits = push_bit (8 - remaining_bits) 0xFF"

definition mask_address :: "nat \<Rightarrow> u8 \<Rightarrow> bytes \<Rightarrow> bytes" where
  "mask_address address_size prefix_length address =
     (let output = blit (replicate 16 0) 0 (take address_size address);
          complete_bytes = unat prefix_length div 8;
          remaining_bits = unat prefix_length mod 8;
          output = (if remaining_bits \<noteq> 0
                    then output[complete_bytes := output ! complete_bytes AND prefix_mask remaining_bits]
                    else output);
          first_clear_byte = (if remaining_bits \<noteq> 0 then complete_bytes + 1 else complete_bytes)
      in if first_clear_byte < address_size
         then blit output first_clear_byte (replicate (address_size - first_clear_byte) 0)
         else output)"

fun jg_policy_scope_normalize :: "jg_policy_scope \<Rightarrow> jg_policy_scope result" where
  "jg_policy_scope_normalize JG_POLICY_SCOPE_GLOBAL = Inr JG_POLICY_SCOPE_GLOBAL"
| "jg_policy_scope_normalize (JG_POLICY_SCOPE_MAC m) = Inr (JG_POLICY_SCOPE_MAC m)"
| "jg_policy_scope_normalize (JG_POLICY_SCOPE_IPV4 a p) =
     (if p > 32 then Inl EINVAL else Inr (JG_POLICY_SCOPE_IPV4 (mask_address 4 p a) p))"
| "jg_policy_scope_normalize (JG_POLICY_SCOPE_IPV6 a p) =
     (if p > 128 then Inl EINVAL else Inr (JG_POLICY_SCOPE_IPV6 (mask_address 16 p a) p))"
| "jg_policy_scope_normalize (JG_POLICY_SCOPE_VLAN v) =
     (if v > 4094 then Inl EINVAL else Inr (JG_POLICY_SCOPE_VLAN v))"
| "jg_policy_scope_normalize (SCOPE_OTHER n) = Inl EINVAL"

fun scope_compare :: "jg_policy_scope \<Rightarrow> jg_policy_scope \<Rightarrow> int" where
  "scope_compare left right =
     (if scope_type left \<noteq> scope_type right
      then (if scope_type left < scope_type right then -1 else 1)
      else case (left, right) of
        (JG_POLICY_SCOPE_MAC m, JG_POLICY_SCOPE_MAC n) \<Rightarrow> memcmp m n
      | (JG_POLICY_SCOPE_IPV4 a p, JG_POLICY_SCOPE_IPV4 b q) \<Rightarrow>
          (if p \<noteq> q then (if p < q then -1 else 1) else memcmp (take 4 a) (take 4 b))
      | (JG_POLICY_SCOPE_IPV6 a p, JG_POLICY_SCOPE_IPV6 b q) \<Rightarrow>
          (if p \<noteq> q then (if p < q then -1 else 1) else memcmp (take 16 a) (take 16 b))
      | (JG_POLICY_SCOPE_VLAN v, JG_POLICY_SCOPE_VLAN w) \<Rightarrow> (if v < w then -1 else if v > w then 1 else 0)
      | _ \<Rightarrow> 0)"

definition client_valid :: "jg_policy_client option \<Rightarrow> bool" where
  "client_valid client = (case client of
     None \<Rightarrow> True
   | Some c \<Rightarrow>
       if c_family c \<noteq> JG_POLICY_ADDRESS_NONE \<and> c_family c \<noteq> JG_POLICY_ADDRESS_IPV4
          \<and> c_family c \<noteq> JG_POLICY_ADDRESS_IPV6 then False
       else \<not> has_vlan c \<or> c_vlan_id c \<le> 4094)"

definition address_matches :: "bytes \<Rightarrow> bytes \<Rightarrow> u8 \<Rightarrow> bool" where
  "address_matches client network prefix_length =
     (let complete_bytes = unat prefix_length div 8; remaining_bits = unat prefix_length mod 8 in
      if memcmp (take complete_bytes client) (take complete_bytes network) \<noteq> 0 then False
      else if remaining_bits \<noteq> 0
      then client ! complete_bytes AND prefix_mask remaining_bits = network ! complete_bytes
      else True)"

fun scope_matches :: "jg_policy_scope \<Rightarrow> jg_policy_client option \<Rightarrow> bool" where
  "scope_matches JG_POLICY_SCOPE_GLOBAL client = True"
| "scope_matches (JG_POLICY_SCOPE_MAC m) client =
     (case client of None \<Rightarrow> False | Some c \<Rightarrow> has_mac c \<and> memcmp (c_mac c) m = 0)"
| "scope_matches (JG_POLICY_SCOPE_IPV4 a p) client =
     (case client of None \<Rightarrow> False
      | Some c \<Rightarrow> c_family c = JG_POLICY_ADDRESS_IPV4 \<and> address_matches (c_address c) a p)"
| "scope_matches (JG_POLICY_SCOPE_IPV6 a p) client =
     (case client of None \<Rightarrow> False
      | Some c \<Rightarrow> c_family c = JG_POLICY_ADDRESS_IPV6 \<and> address_matches (c_address c) a p)"
| "scope_matches (JG_POLICY_SCOPE_VLAN v) client =
     (case client of None \<Rightarrow> False | Some c \<Rightarrow> has_vlan c \<and> c_vlan_id c = v)"
| "scope_matches (SCOPE_OTHER n) client = False"

section \<open>Prefixes, bit by bit\<close>

definition address_bit :: "bytes \<Rightarrow> nat \<Rightarrow> bool" where
  "address_bit a i = bit (a ! (i div 8)) (7 - i mod 8)"

definition in_network :: "bytes \<Rightarrow> bytes \<Rightarrow> nat \<Rightarrow> bool" where
  "in_network address network n \<longleftrightarrow> (\<forall>i < n. address_bit address i = address_bit network i)"

lemma prefix_mask_mask: "prefix_mask r = push_bit (8 - r) (mask 8)"
  by (simp add: prefix_mask_def mask_eq_exp_minus_1)

lemma bit_prefix_mask: "r \<le> 8 \<Longrightarrow> j < 8 \<Longrightarrow> bit (prefix_mask r) j \<longleftrightarrow> 8 - r \<le> j"
  unfolding prefix_mask_mask by (auto simp: bit_simps)

text \<open>The masked array, byte by byte.\<close>

lemma length_mask_address [simp]:
  "n \<le> 16 \<Longrightarrow> length a = 16 \<Longrightarrow> length (mask_address n p a) = 16"
  by (auto simp: mask_address_def Let_def)

lemma partial_byte: "(m :: nat) \<le> 8 * n \<Longrightarrow> m mod 8 \<noteq> 0 \<Longrightarrow> m div 8 < n"
proof -
  assume "m \<le> 8 * n" "m mod 8 \<noteq> 0"
  moreover from this have "m \<noteq> n * 8" by auto
  ultimately show ?thesis by (simp add: div_less_iff_less_mult)
qed

lemma nth_mask_address:
  assumes "n \<le> 16" "length a = 16" "unat p \<le> 8 * n" "i < 16"
  shows "mask_address n p a ! i =
    (if i < unat p div 8 then a ! i
     else if i = unat p div 8 \<and> unat p mod 8 \<noteq> 0 then a ! i AND prefix_mask (unat p mod 8)
     else 0)"
proof -
  show ?thesis
    using assms partial_byte [OF assms(3)] diff_less_mono [of i 16 n]
    by (auto simp: mask_address_def Let_def nth_list_update blit_def nth_append)
qed

text \<open>A byte comparison under the mask compares the leading bits.\<close>

lemma and_prefix_mask_eq:
  "r \<le> 8 \<Longrightarrow> x AND prefix_mask r = y AND prefix_mask r \<longleftrightarrow> (\<forall>k < r. bit x (7 - k) = bit y (7 - k))"
proof
  assume r: "r \<le> 8" and eq: "x AND prefix_mask r = y AND prefix_mask r"
  show "\<forall>k < r. bit x (7 - k) = bit y (7 - k)"
  proof (intro allI impI)
    fix k assume "k < r"
    then have "bit (prefix_mask r) (7 - k)" using r by (simp add: bit_prefix_mask)
    then show "bit x (7 - k) = bit y (7 - k)"
      using arg_cong [OF eq, of "\<lambda>w. bit w (7 - k)"] by (simp add: bit_and_iff)
  qed
next
  assume r: "r \<le> 8" and eq: "\<forall>k < r. bit x (7 - k) = bit y (7 - k)"
  show "x AND prefix_mask r = y AND prefix_mask r"
  proof (rule bit_word_eqI)
    fix j assume "j < LENGTH(8)"
    then have j: "j < 8" by simp
    then have "bit x j = bit y j" if "8 - r \<le> j"
      using eq [rule_format, of "7 - j"] that r by auto
    with j show "bit (x AND prefix_mask r) j = bit (y AND prefix_mask r) j"
      using r by (auto simp: bit_and_iff bit_prefix_mask)
  qed
qed

lemma byte_eq_bits: "(x :: u8) = y \<longleftrightarrow> (\<forall>k < 8. bit x (7 - k) = bit y (7 - k))"
proof
  assume eq: "\<forall>k < 8. bit x (7 - k) = bit y (7 - k)"
  show "x = y"
  proof (rule bit_word_eqI)
    fix j assume "j < LENGTH(8)"
    then show "bit x j = bit y j" using eq [rule_format, of "7 - j"] by simp
  qed
qed simp

lemma in_network_split:
  "in_network a b n \<longleftrightarrow>
   (\<forall>i < n div 8. a ! i = b ! i) \<and> (\<forall>k < n mod 8. bit (a ! (n div 8)) (7 - k) = bit (b ! (n div 8)) (7 - k))"
proof
  assume *: "in_network a b n"
  have "a ! i = b ! i" if "i < n div 8" for i
  proof -
    have "8 * i + k < n" if "k < 8" for k
      using that \<open>i < n div 8\<close> mult_div_mod_eq [of 8 n] by linarith
    then show ?thesis
      using * unfolding byte_eq_bits in_network_def address_bit_def by fastforce
  qed
  moreover have "bit (a ! (n div 8)) (7 - k) = bit (b ! (n div 8)) (7 - k)" if "k < n mod 8" for k
  proof -
    have "8 * (n div 8) + k < n" "k < 8"
      using that mult_div_mod_eq [of 8 n] mod_less_divisor [of 8 n] by linarith+
    then show ?thesis
      using * [unfolded in_network_def address_bit_def, rule_format, of "8 * (n div 8) + k"] by simp
  qed
  ultimately show "(\<forall>i < n div 8. a ! i = b ! i) \<and>
      (\<forall>k < n mod 8. bit (a ! (n div 8)) (7 - k) = bit (b ! (n div 8)) (7 - k))" by blast
next
  assume *: "(\<forall>i < n div 8. a ! i = b ! i) \<and>
      (\<forall>k < n mod 8. bit (a ! (n div 8)) (7 - k) = bit (b ! (n div 8)) (7 - k))"
  show "in_network a b n"
    unfolding in_network_def address_bit_def
  proof (intro allI impI)
    fix i assume "i < n"
    then consider "i div 8 < n div 8" | "i div 8 = n div 8" "i mod 8 < n mod 8"
      using mult_div_mod_eq [of 8 n] mult_div_mod_eq [of 8 i] div_le_mono [of i n 8] by linarith
    then show "bit (a ! (i div 8)) (7 - i mod 8) = bit (b ! (i div 8)) (7 - i mod 8)"
      using * by cases auto
  qed
qed

lemma address_matches_mask:
  assumes "length c = 16" "length a = 16" "n \<le> 16" "unat p \<le> 8 * n"
  shows "address_matches c (mask_address n p a) p \<longleftrightarrow> in_network c a (unat p)"
proof -
  let ?q = "unat p div 8" and ?r = "unat p mod 8"
  have q: "?q \<le> 16" using assms(3,4) div_le_mono [of "unat p" "8 * n" 8] by simp
  have q': "?q < 16" if "?r \<noteq> 0"
    using that partial_byte [OF assms(4)] assms(3) by linarith
  have "take ?q c = take ?q (mask_address n p a) \<longleftrightarrow> (\<forall>i < ?q. c ! i = a ! i)"
    using assms q by (auto simp: list_eq_iff_nth_eq nth_mask_address)
  moreover have "c ! ?q AND prefix_mask ?r = mask_address n p a ! ?q \<longleftrightarrow>
      (\<forall>k < ?r. bit (c ! ?q) (7 - k) = bit (a ! ?q) (7 - k))" if "?r \<noteq> 0"
    using assms q' that and_prefix_mask_eq [of ?r "c ! ?q" "a ! ?q"] by (simp add: nth_mask_address)
  ultimately show ?thesis
    by (auto simp: address_matches_def Let_def in_network_split)
qed

text \<open>Which clients a scope covers, by the network prefixes in its input form.\<close>

fun scope_covers :: "jg_policy_scope \<Rightarrow> jg_policy_client option \<Rightarrow> bool" where
  "scope_covers JG_POLICY_SCOPE_GLOBAL client \<longleftrightarrow> True"
| "scope_covers s None \<longleftrightarrow> False"
| "scope_covers (JG_POLICY_SCOPE_MAC m) (Some c) \<longleftrightarrow> has_mac c \<and> c_mac c = m"
| "scope_covers (JG_POLICY_SCOPE_IPV4 a p) (Some c) \<longleftrightarrow>
     c_family c = JG_POLICY_ADDRESS_IPV4 \<and> in_network (c_address c) a (unat p)"
| "scope_covers (JG_POLICY_SCOPE_IPV6 a p) (Some c) \<longleftrightarrow>
     c_family c = JG_POLICY_ADDRESS_IPV6 \<and> in_network (c_address c) a (unat p)"
| "scope_covers (JG_POLICY_SCOPE_VLAN v) (Some c) \<longleftrightarrow> has_vlan c \<and> c_vlan_id c = v"
| "scope_covers (SCOPE_OTHER n) client \<longleftrightarrow> False"

lemma normalize_scope_matches:
  assumes "jg_policy_scope_normalize s = Inr s'" and "scope_typed s" and "\<forall>c. client = Some c \<longrightarrow> client_typed c"
  shows "scope_matches s' client \<longleftrightarrow> scope_covers s client"
  using assms
  by (cases s; cases client)
    (auto simp: client_typed_def address_matches_mask word_le_nat_alt not_less split: if_splits)

definition scope_canonical :: "jg_policy_scope \<Rightarrow> bool" where
  "scope_canonical s \<longleftrightarrow> scope_typed s \<and> jg_policy_scope_normalize s = Inr s"

lemma mask_address_idem:
  assumes "n \<le> 16" "length a = 16" "unat p \<le> 8 * n"
  shows "mask_address n p (mask_address n p a) = mask_address n p a"
  using assms
  by (intro nth_equalityI) (auto simp: nth_mask_address)

lemma normalize_scope_canonical:
  "jg_policy_scope_normalize s = Inr s' \<Longrightarrow> scope_typed s \<Longrightarrow> scope_canonical s'"
  by (cases s) (auto simp: scope_canonical_def mask_address_idem word_le_nat_alt not_less
      split: if_splits)

section \<open>The order of scopes\<close>

fun scope_key :: "jg_policy_scope \<Rightarrow> nat \<times> nat \<times> bytes" where
  "scope_key JG_POLICY_SCOPE_GLOBAL = (0, 0, [])"
| "scope_key (JG_POLICY_SCOPE_MAC m) = (1, 0, m)"
| "scope_key (JG_POLICY_SCOPE_IPV4 a p) = (2, unat p, take 4 a)"
| "scope_key (JG_POLICY_SCOPE_IPV6 a p) = (3, unat p, take 16 a)"
| "scope_key (JG_POLICY_SCOPE_VLAN v) = (4, unat v, [])"
| "scope_key (SCOPE_OTHER n) = (5 + n, 0, [])"

interpretation scope_order: comparison scope_compare scope_key "\<lambda>_. True"
proof
  fix a b :: jg_policy_scope
  show "scope_compare a b \<le> 0 \<longleftrightarrow> scope_key a \<le> scope_key b"
    by (cases a; cases b) (auto simp: word_less_nat_alt word_unat_eq_iff less_eq_prod_def)
  show "scope_compare a b = 0 \<longleftrightarrow> scope_key a = scope_key b"
    by (cases a; cases b) (auto simp: word_less_nat_alt word_unat_eq_iff)
qed

declare scope_compare.simps [simp del]

lemma scope_compare_canonical:
  assumes "scope_canonical a" and "scope_canonical b"
  shows "scope_compare a b = 0 \<longleftrightarrow> a = b"
proof -
  have v4: "x = y" if "take 4 x = take 4 y" "mask_address 4 p x = x" "mask_address 4 p y = y"
    "length x = 16" "length y = 16" "p \<le> 32" for x y p
  proof (rule nth_equalityI)
    fix i assume "i < length x"
    show "x ! i = y ! i"
    proof (cases "i < 4")
      case True
      then show ?thesis using that(1) by (metis nth_take)
    next
      case False
      have "unat p \<le> 32" using that(6) by (simp add: word_le_nat_alt)
      then have "mask_address 4 p z ! i = 0" if "length z = 16" for z
        using False that \<open>i < length x\<close> \<open>length x = 16\<close> partial_byte [of "unat p" 4]
          div_le_mono [of "unat p" 32 8]
        by (subst nth_mask_address) auto
      then show ?thesis using that by metis
    qed
  qed (use that in simp)
  show ?thesis
    using assms scope_order.cmp_eq [of a b]
    by (cases a; cases b) (auto simp: scope_canonical_def not_less
        dest!: word_unat_eq_iff [THEN iffD2] intro: v4 split: if_splits)
qed

text \<open>
  C24. Scope normalisation and scope matching are exact: a scope that normalises applies to a client
  exactly when the client's MAC address or VLAN is the scope's, or the client's address and the
  network of the input agree on every one of the leading prefix bits, whatever host bits the input
  carries; and normalising the result again changes nothing.
\<close>

theorem scope_matches_exact:
  assumes "jg_policy_scope_normalize s = Inr s'" and "scope_typed s"
    and "\<forall>c. client = Some c \<longrightarrow> client_typed c"
  shows "(scope_matches s' client \<longleftrightarrow> scope_covers s client) \<and> jg_policy_scope_normalize s' = Inr s'"
  using normalize_scope_matches [OF assms] normalize_scope_canonical [OF assms(1,2)]
  by (simp add: scope_canonical_def)

definition example_client :: jg_policy_client where
  "example_client = \<lparr>has_mac = True, c_mac = [0, 1, 2, 3, 4, 5], c_family = JG_POLICY_ADDRESS_IPV4,
     c_address = [192, 168, 7, 200] @ replicate 12 0, has_vlan = False, c_vlan_id = 0\<rparr>"

theorem scope_matches_exact_witness:
  "(scope_matches (JG_POLICY_SCOPE_IPV4 ([192, 168, 4] @ replicate 13 0) 22) (Some example_client) \<longleftrightarrow>
    scope_covers (JG_POLICY_SCOPE_IPV4 ([192, 168, 5, 9] @ replicate 12 0) 22) (Some example_client))
   \<and> jg_policy_scope_normalize (JG_POLICY_SCOPE_IPV4 ([192, 168, 4] @ replicate 13 0) 22)
     = Inr (JG_POLICY_SCOPE_IPV4 ([192, 168, 4] @ replicate 13 0) 22)"
proof (rule scope_matches_exact)
  show "jg_policy_scope_normalize (JG_POLICY_SCOPE_IPV4 ([192, 168, 5, 9] @ replicate 12 0) 22)
    = Inr (JG_POLICY_SCOPE_IPV4 ([192, 168, 4] @ replicate 13 0) 22)"
    by code_simp
qed (simp_all add: example_client_def client_typed_def)

end
