(* ===== verification/Policy.thy ===== *)
theory Policy
  imports PolicyScope Domain
begin

text \<open>
  The construction of a policy snapshot, \<^verbatim>\<open>src/common/policy.c\<close>: validation and normalisation of the
  rule inputs, sorting and deduplication, the packed string area with its 32-bit offsets, and the
  open-addressing table of domain groups.

  Not under the sources and therefore fields of \<open>policy_environment\<close>: libsodium's keyed short hash,
  SHA-256 and random bytes, the clock, the allocator and the IDNA library. Enum values outside the
  enumerators are the \<open>_OTHER\<close> constructors; the sizes are those of the LP64 data model.
\<close>

section \<open>Data\<close>

datatype jg_policy_effect = JG_POLICY_ALLOW | JG_POLICY_BLOCK | EFFECT_OTHER nat

datatype jg_policy_enforcement = JG_POLICY_ENFORCE | JG_POLICY_OBSERVE | ENFORCEMENT_OTHER nat

datatype jg_policy_source =
    JG_POLICY_SOURCE_DEFAULT | JG_POLICY_SOURCE_BLOCKLIST | JG_POLICY_SOURCE_EXPLICIT
  | JG_POLICY_SOURCE_EMERGENCY | SOURCE_OTHER nat

datatype jg_policy_domain_target =
  JG_POLICY_DOMAIN_DNS | JG_POLICY_DOMAIN_TLS_SNI | TARGET_OTHER nat

datatype jg_policy_transport =
  JG_POLICY_TRANSPORT_ANY | JG_POLICY_TRANSPORT_TCP | JG_POLICY_TRANSPORT_UDP | TRANSPORT_OTHER nat

text \<open>The numeric values of the enumerators, which comparisons and the checksum use.\<close>

fun effect_code :: "jg_policy_effect \<Rightarrow> nat" where
  "effect_code JG_POLICY_ALLOW = 1" | "effect_code JG_POLICY_BLOCK = 2"
| "effect_code (EFFECT_OTHER n) = n"

fun enforcement_code :: "jg_policy_enforcement \<Rightarrow> nat" where
  "enforcement_code JG_POLICY_ENFORCE = 0" | "enforcement_code JG_POLICY_OBSERVE = 1"
| "enforcement_code (ENFORCEMENT_OTHER n) = n"

fun source_code :: "jg_policy_source \<Rightarrow> nat" where
  "source_code JG_POLICY_SOURCE_DEFAULT = 0" | "source_code JG_POLICY_SOURCE_BLOCKLIST = 1"
| "source_code JG_POLICY_SOURCE_EXPLICIT = 2" | "source_code JG_POLICY_SOURCE_EMERGENCY = 3"
| "source_code (SOURCE_OTHER n) = n"

fun target_code :: "jg_policy_domain_target \<Rightarrow> nat" where
  "target_code JG_POLICY_DOMAIN_DNS = 0" | "target_code JG_POLICY_DOMAIN_TLS_SNI = 1"
| "target_code (TARGET_OTHER n) = n"

fun transport_code :: "jg_policy_transport \<Rightarrow> nat" where
  "transport_code JG_POLICY_TRANSPORT_ANY = 0" | "transport_code JG_POLICY_TRANSPORT_TCP = 6"
| "transport_code JG_POLICY_TRANSPORT_UDP = 17" | "transport_code (TRANSPORT_OTHER n) = n"

fun family_code :: "jg_policy_address_family \<Rightarrow> nat" where
  "family_code JG_POLICY_ADDRESS_NONE = 0" | "family_code JG_POLICY_ADDRESS_IPV4 = 4"
| "family_code JG_POLICY_ADDRESS_IPV6 = 6" | "family_code (ADDRESS_OTHER n) = n"

definition JG_POLICY_ATTRIBUTION_MAX :: nat where "JG_POLICY_ATTRIBUTION_MAX = 255"
definition JG_POLICY_OBSERVED_SCOPE_LIMIT :: nat where "JG_POLICY_OBSERVED_SCOPE_LIMIT = 65536"

record jg_policy_rule_input =
  in_id :: u64
  in_statistics_id :: bytes
  in_domain :: bytes
  in_include_subdomains :: bool
  in_effect :: jg_policy_effect
  in_enforcement :: jg_policy_enforcement
  in_source :: jg_policy_source
  in_target :: jg_policy_domain_target
  in_scope :: jg_policy_scope
  in_attribution :: bytes

record jg_policy_destination_rule_input =
  din_id :: u64
  din_statistics_id :: bytes
  din_effect :: jg_policy_effect
  din_enforcement :: jg_policy_enforcement
  din_source :: jg_policy_source
  din_transport :: jg_policy_transport
  din_has_address :: bool
  din_address_family :: jg_policy_address_family
  din_address :: bytes
  din_prefix_length :: u8
  din_has_port :: bool
  din_port :: u16
  din_scope :: jg_policy_scope
  din_attribution :: bytes

record build_rule =
  b_id :: u64
  b_statistics_id :: bytes
  b_domain :: bytes
  b_attribution :: bytes
  b_include_subdomains :: bool
  b_effect :: jg_policy_effect
  b_enforcement :: jg_policy_enforcement
  b_source :: jg_policy_source
  b_target :: jg_policy_domain_target
  b_scope :: jg_policy_scope

record build_destination_rule =
  bd_id :: u64
  bd_statistics_id :: bytes
  bd_attribution :: bytes
  bd_effect :: jg_policy_effect
  bd_enforcement :: jg_policy_enforcement
  bd_source :: jg_policy_source
  bd_transport :: jg_policy_transport
  bd_has_address :: bool
  bd_address_family :: jg_policy_address_family
  bd_address :: bytes
  bd_prefix_length :: u8
  bd_has_port :: bool
  bd_port :: u16
  bd_scope :: jg_policy_scope

record stored_rule =
  r_id :: u64
  r_statistics_id :: bytes
  r_domain_offset :: u32
  r_attribution_offset :: u32
  r_priority :: nat
  r_include_subdomains :: bool
  r_effect :: jg_policy_effect
  r_enforcement :: jg_policy_enforcement
  r_source :: jg_policy_source
  r_target :: jg_policy_domain_target
  r_scope :: jg_policy_scope

record stored_destination_rule =
  d_id :: u64
  d_statistics_id :: bytes
  d_attribution_offset :: u32
  d_priority :: nat
  d_effect :: jg_policy_effect
  d_enforcement :: jg_policy_enforcement
  d_source :: jg_policy_source
  d_transport :: jg_policy_transport
  d_has_address :: bool
  d_address_family :: jg_policy_address_family
  d_address :: bytes
  d_prefix_length :: u8
  d_has_port :: bool
  d_port :: u16
  d_scope :: jg_policy_scope

record policy_slot =
  s_hash :: u64
  s_first_rule :: u32
  s_rule_count :: u32
  s_occupied :: bool

record jg_policy_snapshot_info =
  generation :: u64
  built_at :: u64
  rule_count :: nat
  destination_rule_count :: nat
  global_enforcement :: jg_policy_enforcement
  observed_scope_count :: nat
  checksum :: bytes

record jg_policy_snapshot =
  info :: jg_policy_snapshot_info
  rules :: "stored_rule list"
  strings :: bytes
  destination_rules :: "stored_destination_rule list"
  destination_strings :: bytes
  observed_scopes :: "jg_policy_scope list"
  table :: "policy_slot list"
  table_capacity :: nat
  hash_key :: bytes

record jg_policy_enforcement_config =
  conf_global :: jg_policy_enforcement
  conf_observed_scopes :: "jg_policy_scope list"

record policy_environment = environment +
  crypto_shorthash :: "bytes \<Rightarrow> bytes \<Rightarrow> bytes"
  crypto_hash_sha256 :: "bytes \<Rightarrow> bytes"
  sodium_init :: bool
  randombytes :: "nat \<Rightarrow> bytes"
  clock :: "u64 option"

section \<open>Validation and normalisation of rules\<close>

fun attribution_loop :: "nat \<Rightarrow> bytes \<Rightarrow> nat result" where
  "attribution_loop index [] =
     (if index > JG_POLICY_ATTRIBUTION_MAX then Inl EINVAL
      else if index = 0 then Inl EINVAL else Inr index)"
| "attribution_loop index (c # rest) =
     (if index > JG_POLICY_ATTRIBUTION_MAX then Inl EINVAL
      else if c < 0x20 \<or> c = 0x7F then Inl EINVAL
      else attribution_loop (index + 1) rest)"

definition attribution_length :: "bytes \<Rightarrow> nat result" where
  "attribution_length v = attribution_loop 0 v"

definition effect_source_valid :: "jg_policy_effect \<Rightarrow> jg_policy_source \<Rightarrow> bool" where
  "effect_source_valid effect source =
     (if effect \<noteq> JG_POLICY_ALLOW \<and> effect \<noteq> JG_POLICY_BLOCK then False
      else case source of
        JG_POLICY_SOURCE_BLOCKLIST \<Rightarrow> effect = JG_POLICY_BLOCK
      | JG_POLICY_SOURCE_EXPLICIT \<Rightarrow> True
      | JG_POLICY_SOURCE_EMERGENCY \<Rightarrow> effect = JG_POLICY_ALLOW
      | _ \<Rightarrow> False)"

definition enforcement_valid :: "jg_policy_effect \<Rightarrow> jg_policy_enforcement \<Rightarrow> bool" where
  "enforcement_valid effect enforcement =
     (enforcement = JG_POLICY_ENFORCE
      \<or> (enforcement = JG_POLICY_OBSERVE \<and> effect = JG_POLICY_BLOCK))"

definition rule_class_valid :: "jg_policy_rule_input \<Rightarrow> bool" where
  "rule_class_valid rule =
     (if \<not> effect_source_valid (in_effect rule) (in_source rule)
         \<or> \<not> enforcement_valid (in_effect rule) (in_enforcement rule) then False
      else if in_target rule \<noteq> JG_POLICY_DOMAIN_DNS \<and> in_target rule \<noteq> JG_POLICY_DOMAIN_TLS_SNI
      then False
      else if in_target rule = JG_POLICY_DOMAIN_TLS_SNI \<and> in_source rule \<noteq> JG_POLICY_SOURCE_EXPLICIT
      then False
      else True)"

text \<open>The first pass of \<open>prepare_rules\<close>: every rule is valid, and the packed strings fit 32 bits.\<close>

fun validate_rules :: "'e environment_scheme \<Rightarrow> jg_policy_rule_input list \<Rightarrow> nat \<Rightarrow> (errno, nat) run" where
  "validate_rules env [] packed_size = Done packed_size"
| "validate_rules env (r # rest) packed_size =
     (if in_id r = 0 \<or> \<not> rule_class_valid r then Fail EINVAL else
      and_then (or_error EINVAL (jg_policy_scope_normalize (in_scope r))) (\<lambda>_.
      and_then (or_error EINVAL (jg_domain_normalize env (in_domain r)
                                   (JG_DOMAIN_NAME_MAX + 1))) (\<lambda>normalized.
      and_then (or_error EINVAL (attribution_length (in_attribution r))) (\<lambda>source_length.
      and_then (or_fail EOVERFLOW (jg_size_add packed_size (length normalized + 1))) (\<lambda>packed1.
      and_then (or_fail EOVERFLOW (jg_size_add packed1 (source_length + 1))) (\<lambda>packed2.
        if packed2 > UINT32_MAX then Fail EOVERFLOW else validate_rules env rest packed2))))))"

text \<open>
  The second pass. It ignores the results of the normalisations, which the first pass checked; on
  a failure here \<open>jg_domain_normalize\<close> leaves the empty string in \<open>normalized\<close>.
\<close>

definition fill_rule :: "'e environment_scheme \<Rightarrow> jg_policy_rule_input \<Rightarrow> build_rule" where
  "fill_rule env r =
     \<lparr>b_id = in_id r, b_statistics_id = in_statistics_id r,
      b_domain = (case jg_domain_normalize env (in_domain r)
                    (JG_DOMAIN_NAME_MAX + 1) of Inr d \<Rightarrow> d | Inl _ \<Rightarrow> []),
      b_attribution = in_attribution r, b_include_subdomains = in_include_subdomains r,
      b_effect = in_effect r, b_enforcement = in_enforcement r, b_source = in_source r,
      b_target = in_target r,
      b_scope = (case jg_policy_scope_normalize (in_scope r) of Inr s \<Rightarrow> s | Inl _ \<Rightarrow> in_scope r)\<rparr>"

text \<open>
  \<open>env\<close> is the environment of the validation pass, \<open>env'\<close> that of the second pass: the allocator may
  answer differently by then.
\<close>

definition prepare_rules ::
  "'e environment_scheme \<Rightarrow> 'e environment_scheme \<Rightarrow> jg_policy_rule_input list \<Rightarrow>
   (errno, build_rule list) run" where
  "prepare_rules env env' input =
     (if length input = 0 then Done []
      else if length input > UINT32_MAX then Fail EOVERFLOW
      else
      and_then (or_fail EOVERFLOW (jg_size_multiply (length input) 88)) (\<lambda>allocation_size.
      and_then (validate_rules env input 0) (\<lambda>packed_size.
        if \<not> malloc env allocation_size \<or> \<not> malloc env packed_size then Fail ENOMEM
        else Done (map (fill_rule env') input))))"

definition build_rule_compare :: "build_rule \<Rightarrow> build_rule \<Rightarrow> int" where
  "build_rule_compare left right =
     (let result = strcmp (b_domain left) (b_domain right) in
      if result \<noteq> 0 then result
      else if b_include_subdomains left \<noteq> b_include_subdomains right
      then (if b_include_subdomains left then 1 else -1)
      else if b_target left \<noteq> b_target right
      then (if target_code (b_target left) < target_code (b_target right) then -1 else 1)
      else if b_source left \<noteq> b_source right
      then (if source_code (b_source left) < source_code (b_source right) then -1 else 1)
      else if b_effect left \<noteq> b_effect right
      then (if effect_code (b_effect left) < effect_code (b_effect right) then -1 else 1)
      else if b_enforcement left \<noteq> b_enforcement right
      then (if enforcement_code (b_enforcement left) < enforcement_code (b_enforcement right) then -1 else 1)
      else let result = scope_compare (b_scope left) (b_scope right) in
      if result \<noteq> 0 then result
      else let result = strcmp (b_attribution left) (b_attribution right) in
      if result \<noteq> 0 then result
      else if b_id left < b_id right then -1
      else if b_id left > b_id right then 1
      else 0)"

definition build_rule_same_content :: "build_rule \<Rightarrow> build_rule \<Rightarrow> bool" where
  "build_rule_same_content left right \<longleftrightarrow>
     strcmp (b_domain left) (b_domain right) = 0
     \<and> b_include_subdomains left = b_include_subdomains right
     \<and> b_target left = b_target right \<and> b_source left = b_source right
     \<and> b_effect left = b_effect right \<and> b_enforcement left = b_enforcement right
     \<and> scope_compare (b_scope left) (b_scope right) = 0
     \<and> strcmp (b_attribution left) (b_attribution right) = 0"

section \<open>Destination rules\<close>

text \<open>The address fields that the function stores in its cleared output.\<close>

definition destination_address_normalize ::
  "jg_policy_destination_rule_input \<Rightarrow> (bool \<times> jg_policy_address_family \<times> bytes \<times> u8) result" where
  "destination_address_normalize input =
     (if \<not> din_has_address input then
        (if din_address_family input \<noteq> JG_POLICY_ADDRESS_NONE \<or> din_prefix_length input \<noteq> 0
         then Inl EINVAL
         else Inr (False, JG_POLICY_ADDRESS_NONE, replicate 16 0, 0))
      else if din_address_family input = JG_POLICY_ADDRESS_IPV4 then
        (if din_prefix_length input > 32 then Inl EINVAL
         else Inr (True, JG_POLICY_ADDRESS_IPV4,
                   mask_address 4 (din_prefix_length input) (din_address input), din_prefix_length input))
      else if din_address_family input = JG_POLICY_ADDRESS_IPV6 then
        (if din_prefix_length input > 128 then Inl EINVAL
         else Inr (True, JG_POLICY_ADDRESS_IPV6,
                   mask_address 16 (din_prefix_length input) (din_address input), din_prefix_length input))
      else Inl EINVAL)"

fun validate_destination_rules ::
  "jg_policy_destination_rule_input list \<Rightarrow> nat \<Rightarrow> (errno, nat) run" where
  "validate_destination_rules [] packed_size = Done packed_size"
| "validate_destination_rules (r # rest) packed_size =
     (if din_id r = 0 \<or> \<not> effect_source_valid (din_effect r) (din_source r)
         \<or> \<not> enforcement_valid (din_effect r) (din_enforcement r)
         \<or> (din_transport r \<noteq> JG_POLICY_TRANSPORT_ANY \<and> din_transport r \<noteq> JG_POLICY_TRANSPORT_TCP
             \<and> din_transport r \<noteq> JG_POLICY_TRANSPORT_UDP)
         \<or> (\<not> din_has_address r \<and> \<not> din_has_port r)
         \<or> (din_has_port r \<and> din_port r = 0) \<or> (\<not> din_has_port r \<and> din_port r \<noteq> 0)
      then Fail EINVAL else
      and_then (or_error EINVAL (destination_address_normalize r)) (\<lambda>_.
      and_then (or_error EINVAL (jg_policy_scope_normalize (din_scope r))) (\<lambda>_.
      and_then (or_error EINVAL (attribution_length (din_attribution r))) (\<lambda>attribution_size.
      and_then (or_fail EOVERFLOW (jg_size_add packed_size (attribution_size + 1))) (\<lambda>packed1.
        if packed1 > UINT32_MAX then Fail EOVERFLOW
        else validate_destination_rules rest packed1)))))"

definition fill_destination_rule :: "jg_policy_destination_rule_input \<Rightarrow> build_destination_rule" where
  "fill_destination_rule r =
     (case (case destination_address_normalize r of
              Inr a \<Rightarrow> a | Inl _ \<Rightarrow> (False, JG_POLICY_ADDRESS_NONE, replicate 16 0, 0)) of
        (has_address, family, address, prefix_length) \<Rightarrow>
     \<lparr>bd_id = din_id r, bd_statistics_id = din_statistics_id r, bd_attribution = din_attribution r,
      bd_effect = din_effect r, bd_enforcement = din_enforcement r, bd_source = din_source r,
      bd_transport = din_transport r, bd_has_address = has_address, bd_address_family = family,
      bd_address = address, bd_prefix_length = prefix_length,
      bd_has_port = din_has_port r, bd_port = din_port r,
      bd_scope = (case jg_policy_scope_normalize (din_scope r) of Inr s \<Rightarrow> s | Inl _ \<Rightarrow> din_scope r)\<rparr>)"

definition prepare_destination_rules ::
  "'e environment_scheme \<Rightarrow> jg_policy_destination_rule_input list \<Rightarrow>
   (errno, build_destination_rule list) run" where
  "prepare_destination_rules env input =
     (if length input = 0 then Done []
      else if length input > UINT32_MAX then Fail EOVERFLOW
      else
      and_then (or_fail EOVERFLOW (jg_size_multiply (length input) 104)) (\<lambda>allocation_size.
      and_then (validate_destination_rules input 0) (\<lambda>packed_size.
        if \<not> malloc env allocation_size \<or> \<not> malloc env packed_size then Fail ENOMEM
        else Done (map fill_destination_rule input))))"

definition destination_rule_compare :: "build_destination_rule \<Rightarrow> build_destination_rule \<Rightarrow> int" where
  "destination_rule_compare left right =
     (if bd_has_address left \<noteq> bd_has_address right then (if bd_has_address left then 1 else -1)
      else if bd_address_family left \<noteq> bd_address_family right
      then (if family_code (bd_address_family left) < family_code (bd_address_family right) then -1 else 1)
      else if bd_prefix_length left \<noteq> bd_prefix_length right
      then (if bd_prefix_length left < bd_prefix_length right then -1 else 1)
      else let result = memcmp (bd_address left) (bd_address right) in
      if result \<noteq> 0 then result
      else if bd_has_port left \<noteq> bd_has_port right then (if bd_has_port left then 1 else -1)
      else if bd_port left \<noteq> bd_port right then (if bd_port left < bd_port right then -1 else 1)
      else if bd_transport left \<noteq> bd_transport right
      then (if transport_code (bd_transport left) < transport_code (bd_transport right) then -1 else 1)
      else if bd_source left \<noteq> bd_source right
      then (if source_code (bd_source left) < source_code (bd_source right) then -1 else 1)
      else if bd_effect left \<noteq> bd_effect right
      then (if effect_code (bd_effect left) < effect_code (bd_effect right) then -1 else 1)
      else if bd_enforcement left \<noteq> bd_enforcement right
      then (if enforcement_code (bd_enforcement left) < enforcement_code (bd_enforcement right)
            then -1 else 1)
      else let result = scope_compare (bd_scope left) (bd_scope right) in
      if result \<noteq> 0 then result
      else let result = strcmp (bd_attribution left) (bd_attribution right) in
      if result \<noteq> 0 then result
      else if bd_id left < bd_id right then -1
      else if bd_id left > bd_id right then 1 else 0)"

definition destination_rule_same_content ::
  "build_destination_rule \<Rightarrow> build_destination_rule \<Rightarrow> bool" where
  "destination_rule_same_content left right \<longleftrightarrow>
     bd_has_address left = bd_has_address right
     \<and> bd_address_family left = bd_address_family right
     \<and> bd_prefix_length left = bd_prefix_length right
     \<and> memcmp (bd_address left) (bd_address right) = 0
     \<and> bd_has_port left = bd_has_port right \<and> bd_port left = bd_port right
     \<and> bd_transport left = bd_transport right \<and> bd_source left = bd_source right
     \<and> bd_effect left = bd_effect right \<and> bd_enforcement left = bd_enforcement right
     \<and> scope_compare (bd_scope left) (bd_scope right) = 0
     \<and> strcmp (bd_attribution left) (bd_attribution right) = 0"

section \<open>The immutable snapshot\<close>

definition policy_priority :: "jg_policy_effect \<Rightarrow> jg_policy_source \<Rightarrow> jg_policy_scope \<Rightarrow> nat" where
  "policy_priority effect source scope =
     (if source = JG_POLICY_SOURCE_EMERGENCY then 6
      else if source = JG_POLICY_SOURCE_EXPLICIT \<and> effect = JG_POLICY_ALLOW
      then (if scope_type scope = scope_type JG_POLICY_SCOPE_GLOBAL then 4 else 5)
      else if source = JG_POLICY_SOURCE_EXPLICIT \<and> effect = JG_POLICY_BLOCK
      then (if scope_type scope = scope_type JG_POLICY_SCOPE_GLOBAL then 2 else 3)
      else 1)"

text \<open>The C string at an offset of a packed area.\<close>

definition cstring :: "bytes \<Rightarrow> u32 \<Rightarrow> bytes" where
  "cstring area off = takeWhile (\<lambda>c. c \<noteq> 0) (drop (unat off) area)"

definition domain_hash :: "'e policy_environment_scheme \<Rightarrow> bytes \<Rightarrow> bytes \<Rightarrow> u64" where
  "domain_hash env key domain =
     foldl (\<lambda>v c. push_bit 8 v OR ucast c) 0 (crypto_shorthash env key domain)"

text \<open>The sizing loop: bytes of the strings, and the number of runs of equal domains.\<close>

fun measure_rules ::
  "bytes option \<Rightarrow> build_rule list \<Rightarrow> nat \<Rightarrow> nat \<Rightarrow> (errno, nat \<times> nat) run" where
  "measure_rules previous [] strings_size unique_domains = Done (strings_size, unique_domains)"
| "measure_rules previous (r # rest) strings_size unique_domains =
     and_then (or_fail EOVERFLOW (jg_size_add strings_size (length (b_domain r) + 1))) (\<lambda>s1.
     and_then (or_fail EOVERFLOW (jg_size_add s1 (length (b_attribution r) + 1))) (\<lambda>s2.
       if s2 > UINT32_MAX then Fail EOVERFLOW
       else measure_rules (Some (b_domain r)) rest s2
              (if previous = None \<or> strcmp (the previous) (b_domain r) \<noteq> 0
               then unique_domains + 1 else unique_domains)))"

text \<open>
  The packing loop. The area is allocated with the exact size and filled from its start, so \<open>cursor\<close>
  is the number of bytes stored so far.
\<close>

definition store_rule :: "nat \<Rightarrow> build_rule \<Rightarrow> stored_rule" where
  "store_rule cursor r =
     \<lparr>r_id = b_id r, r_statistics_id = b_statistics_id r,
      r_domain_offset = of_nat cursor,
      r_attribution_offset = of_nat (cursor + length (b_domain r) + 1),
      r_priority = policy_priority (b_effect r) (b_source r) (b_scope r),
      r_include_subdomains = b_include_subdomains r, r_effect = b_effect r,
      r_enforcement = b_enforcement r, r_source = b_source r, r_target = b_target r,
      r_scope = b_scope r\<rparr>"

fun store_rules :: "build_rule list \<Rightarrow> bytes \<Rightarrow> stored_rule list \<times> bytes" where
  "store_rules [] area = ([], area)"
| "store_rules (r # rest) area =
     (let (stored, area') =
            store_rules rest (area @ b_domain r @ [0] @ b_attribution r @ [0]) in
      (store_rule (length area) r # stored, area'))"

text \<open>The capacity doubles from 1 until it is large enough; after \<open>k\<close> rounds it is \<open>2 ^ k\<close>.\<close>

function capacity_loop :: "nat \<Rightarrow> nat \<Rightarrow> (errno, nat) run" where
  "capacity_loop required_slots k =
     (if 2 ^ k < required_slots then
        (if 2 ^ k > SIZE_MAX div 2 then Fail EOVERFLOW else capacity_loop required_slots (k + 1))
      else Done (2 ^ k))"
  by pat_completeness auto
termination
  by (relation "measure (\<lambda>(r, k). r - 2 ^ k)") (auto intro!: diff_less_mono2)

declare capacity_loop.simps [simp del]

text \<open>
  The two probing loops step through \<open>(slot_index + 1) & (capacity - 1)\<close>. \<open>probe\<close> is the first index
  at which \<open>stop\<close> holds within \<open>fuel\<close> steps. The insertion loop has no bound of its own: it does not
  end on a full table, which is \<open>None\<close> after \<open>capacity\<close> steps.
\<close>

fun probe :: "(nat \<Rightarrow> bool) \<Rightarrow> nat \<Rightarrow> nat \<Rightarrow> nat \<Rightarrow> nat option" where
  "probe stop capacity slot_index 0 = None"
| "probe stop capacity slot_index (Suc fuel) =
     (if stop slot_index then Some slot_index
      else probe stop capacity ((slot_index + 1) AND (capacity - 1)) fuel)"

function group_end :: "bytes \<Rightarrow> stored_rule list \<Rightarrow> bytes \<Rightarrow> nat \<Rightarrow> nat" where
  "group_end area stored domain index =
     (if index < length stored \<and> strcmp domain (cstring area (r_domain_offset (stored ! index))) = 0
      then group_end area stored domain (index + 1) else index)"
  by pat_completeness auto
termination by (relation "measure (\<lambda>(a, s, d, i). length s - i)") auto

declare group_end.simps [simp del]

lemma group_end_ge: "index \<le> group_end area stored domain index"
  by (induction area stored domain index rule: group_end.induct) (subst group_end.simps, auto)

function fill_table ::
  "'e policy_environment_scheme \<Rightarrow> bytes \<Rightarrow> bytes \<Rightarrow> stored_rule list \<Rightarrow> policy_slot list \<Rightarrow> nat \<Rightarrow>
   (errno, policy_slot list) run"
where
  "fill_table env key area stored tab index =
     (if index < length stored then
        let domain = cstring area (r_domain_offset (stored ! index));
            first_rule = index;
            index' = group_end area stored domain (index + 1);
            hash = domain_hash env key domain
        in and_then (raw (probe (\<lambda>i. \<not> s_occupied (tab ! i)) (length tab)
                            (unat hash AND (length tab - 1)) (length tab))) (\<lambda>slot_index.
             fill_table env key area stored
               (tab[slot_index := \<lparr>s_hash = hash, s_first_rule = of_nat first_rule,
                      s_rule_count = of_nat (index' - first_rule), s_occupied = True\<rparr>]) index')
      else Done tab)"
  by pat_completeness auto
termination
proof (relation "measure (\<lambda>(e, k, a, s, t, i). length s - i)", goal_cases)
  case (2 env key area stored tab index domain first_rule index' hash slot_index)
  then show ?case
    using group_end_ge [of "index + 1" area stored domain] by auto
qed simp

declare fill_table.simps [simp del]

definition empty_slot :: policy_slot where
  "empty_slot = \<lparr>s_hash = 0, s_first_rule = 0, s_rule_count = 0, s_occupied = False\<rparr>"

definition snapshot_populate ::
  "'e policy_environment_scheme \<Rightarrow> jg_policy_snapshot \<Rightarrow> build_rule list \<Rightarrow>
   (errno, jg_policy_snapshot) run" where
  "snapshot_populate env snapshot brules =
     and_then (measure_rules None brules 0 0) (\<lambda>(strings_size, unique_domains).
     and_then (or_fail EOVERFLOW (jg_size_multiply (length brules) 80)) (\<lambda>rules_size.
       if length brules \<noteq> 0 \<and> (\<not> malloc env rules_size \<or> \<not> malloc env strings_size) then Fail ENOMEM
       else let (stored, area) = store_rules brules [];
                snapshot = snapshot\<lparr>rules := stored, strings := area\<rparr> in
       if unique_domains = 0 then Done snapshot
       else
       and_then (or_fail EOVERFLOW (jg_size_multiply unique_domains 2)) (\<lambda>required_slots.
       and_then (capacity_loop required_slots 0) (\<lambda>capacity.
       and_then (or_fail EOVERFLOW (jg_size_multiply capacity 24)) (\<lambda>table_size.
         if \<not> malloc env table_size then Fail ENOMEM
         else
         and_then (fill_table env (hash_key snapshot) area stored (replicate capacity empty_slot) 0)
           (\<lambda>tab. Done (snapshot\<lparr>table := tab, table_capacity := capacity\<rparr>)))))))"

fun measure_destination_rules :: "build_destination_rule list \<Rightarrow> nat \<Rightarrow> (errno, nat) run" where
  "measure_destination_rules [] strings_size = Done strings_size"
| "measure_destination_rules (r # rest) strings_size =
     and_then (or_fail EOVERFLOW (jg_size_add strings_size (length (bd_attribution r) + 1))) (\<lambda>s1.
       if s1 > UINT32_MAX then Fail EOVERFLOW else measure_destination_rules rest s1)"

definition store_destination_rule :: "nat \<Rightarrow> build_destination_rule \<Rightarrow> stored_destination_rule" where
  "store_destination_rule cursor r =
     \<lparr>d_id = bd_id r, d_statistics_id = bd_statistics_id r, d_attribution_offset = of_nat cursor,
      d_priority = policy_priority (bd_effect r) (bd_source r) (bd_scope r),
      d_effect = bd_effect r, d_enforcement = bd_enforcement r, d_source = bd_source r,
      d_transport = bd_transport r, d_has_address = bd_has_address r,
      d_address_family = bd_address_family r, d_address = bd_address r,
      d_prefix_length = bd_prefix_length r, d_has_port = bd_has_port r, d_port = bd_port r,
      d_scope = bd_scope r\<rparr>"

fun store_destination_rules ::
  "build_destination_rule list \<Rightarrow> bytes \<Rightarrow> stored_destination_rule list \<times> bytes" where
  "store_destination_rules [] area = ([], area)"
| "store_destination_rules (r # rest) area =
     (let (stored, area') = store_destination_rules rest (area @ bd_attribution r @ [0]) in
      (store_destination_rule (length area) r # stored, area'))"

definition snapshot_populate_destinations ::
  "'e policy_environment_scheme \<Rightarrow> jg_policy_snapshot \<Rightarrow> build_destination_rule list \<Rightarrow>
   (errno, jg_policy_snapshot) run" where
  "snapshot_populate_destinations env snapshot drules =
     (if length drules = 0 then Done snapshot
      else
      and_then (or_fail EOVERFLOW (jg_size_multiply (length drules) 104)) (\<lambda>rules_size.
      and_then (measure_destination_rules drules 0) (\<lambda>strings_size.
        if \<not> malloc env rules_size \<or> \<not> malloc env strings_size then Fail ENOMEM
        else let (stored, area) = store_destination_rules drules [] in
          Done (snapshot\<lparr>destination_rules := stored, destination_strings := area,
            info := (info snapshot)\<lparr>destination_rule_count := length drules\<rparr>\<rparr>))))"

fun normalize_observed :: "jg_policy_scope list \<Rightarrow> (errno, jg_policy_scope list) run" where
  "normalize_observed [] = Done []"
| "normalize_observed (s # rest) =
     (if scope_type s = scope_type JG_POLICY_SCOPE_GLOBAL then Fail EINVAL else
      and_then (or_error EINVAL (jg_policy_scope_normalize s)) (\<lambda>n.
      and_then (normalize_observed rest) (\<lambda>ns. Done (n # ns))))"

text \<open>Sorting and deduplicating the observed scopes, in place.\<close>

definition retained_scopes :: "jg_policy_scope list \<Rightarrow> jg_policy_scope list" where
  "retained_scopes scopes =
     retain (\<lambda>a b. scope_compare a b = 0)
       (if length scopes > 1 then qsort scope_compare scopes else scopes)"

definition snapshot_populate_enforcement ::
  "'e policy_environment_scheme \<Rightarrow> jg_policy_snapshot \<Rightarrow> jg_policy_enforcement_config option \<Rightarrow>
   (errno, jg_policy_snapshot) run" where
  "snapshot_populate_enforcement env snapshot config =
     (let snapshot = snapshot\<lparr>info := (info snapshot)\<lparr>global_enforcement := JG_POLICY_ENFORCE\<rparr>\<rparr> in
      case config of None \<Rightarrow> Done snapshot
      | Some c \<Rightarrow>
        if (conf_global c \<noteq> JG_POLICY_ENFORCE \<and> conf_global c \<noteq> JG_POLICY_OBSERVE)
           \<or> length (conf_observed_scopes c) > JG_POLICY_OBSERVED_SCOPE_LIMIT
        then Fail EINVAL
        else let snapshot = snapshot\<lparr>info := (info snapshot)\<lparr>global_enforcement := conf_global c\<rparr>\<rparr> in
        if length (conf_observed_scopes c) = 0 then Done snapshot
        else if \<not> malloc env (length (conf_observed_scopes c) * 24) then Fail ENOMEM
        else and_then (normalize_observed (conf_observed_scopes c)) (\<lambda>scopes.
          let kept = retained_scopes scopes in
          Done (snapshot\<lparr>observed_scopes := kept,
                         info := (info snapshot)\<lparr>observed_scope_count := length kept\<rparr>\<rparr>)))"

section \<open>The checksum\<close>

text \<open>
  The digest is SHA-256 of the concatenation of what the code feeds to it. A byte cast of an enum is
  \<open>code_byte\<close>; \<open>checksum_u64\<close> is the big-endian encoding.
\<close>

definition code_byte :: "nat \<Rightarrow> bytes" where
  "code_byte n = [of_nat n]"

definition bool_byte :: "bool \<Rightarrow> bytes" where
  "bool_byte b = [if b then 1 else 0]"

fun checksum_u64_loop :: "nat \<Rightarrow> u64 \<Rightarrow> bytes \<Rightarrow> bytes" where
  "checksum_u64_loop 0 v acc = acc"
| "checksum_u64_loop (Suc n) v acc = checksum_u64_loop n (drop_bit 8 v) (ucast (v AND 0xFF) # acc)"

definition checksum_u64 :: "u64 \<Rightarrow> bytes" where
  "checksum_u64 v = checksum_u64_loop 8 v []"

definition checksum_string :: "bytes \<Rightarrow> bytes" where
  "checksum_string v = checksum_u64 (of_nat (length v)) @ v"

fun checksum_scope :: "jg_policy_scope \<Rightarrow> bytes" where
  "checksum_scope JG_POLICY_SCOPE_GLOBAL = code_byte 0"
| "checksum_scope (JG_POLICY_SCOPE_MAC m) = code_byte 1 @ take 6 m"
| "checksum_scope (JG_POLICY_SCOPE_IPV4 a p) = code_byte 2 @ [p] @ take 4 a"
| "checksum_scope (JG_POLICY_SCOPE_IPV6 a p) = code_byte 3 @ [p] @ take 16 a"
| "checksum_scope (JG_POLICY_SCOPE_VLAN v) = code_byte 4 @ checksum_u64 (ucast v)"
| "checksum_scope (SCOPE_OTHER n) = code_byte (5 + n)"

definition checksum_rule :: "bytes \<Rightarrow> stored_rule \<Rightarrow> bytes" where
  "checksum_rule area rule =
     checksum_u64 (r_id rule) @ checksum_string (cstring area (r_domain_offset rule))
     @ bool_byte (r_include_subdomains rule) @ code_byte (effect_code (r_effect rule))
     @ code_byte (enforcement_code (r_enforcement rule)) @ code_byte (source_code (r_source rule))
     @ code_byte (target_code (r_target rule)) @ checksum_scope (r_scope rule)
     @ checksum_string (cstring area (r_attribution_offset rule))"

definition checksum_destination_rule :: "bytes \<Rightarrow> stored_destination_rule \<Rightarrow> bytes" where
  "checksum_destination_rule area rule =
     checksum_u64 (d_id rule) @ code_byte (effect_code (d_effect rule))
     @ code_byte (enforcement_code (d_enforcement rule)) @ code_byte (source_code (d_source rule))
     @ code_byte (transport_code (d_transport rule)) @ bool_byte (d_has_address rule)
     @ (if d_has_address rule
        then code_byte (family_code (d_address_family rule)) @ [d_prefix_length rule]
             @ take (if d_address_family rule = JG_POLICY_ADDRESS_IPV4 then 4 else 16) (d_address rule)
        else [])
     @ bool_byte (d_has_port rule)
     @ (if d_has_port rule then checksum_u64 (ucast (d_port rule)) else [])
     @ checksum_scope (d_scope rule) @ checksum_string (cstring area (d_attribution_offset rule))"

definition snapshot_checksum :: "'e policy_environment_scheme \<Rightarrow> jg_policy_snapshot \<Rightarrow> jg_policy_snapshot" where
  "snapshot_checksum env snapshot =
     snapshot\<lparr>info := (info snapshot)\<lparr>checksum := crypto_hash_sha256 env
       (str ''JanusGate policy snapshot 5''
        @ code_byte (enforcement_code (global_enforcement (info snapshot)))
        @ checksum_u64 (of_nat (observed_scope_count (info snapshot)))
        @ concat (map checksum_scope (take (observed_scope_count (info snapshot)) (observed_scopes snapshot)))
        @ checksum_u64 (of_nat (rule_count (info snapshot)))
        @ checksum_u64 (of_nat (destination_rule_count (info snapshot)))
        @ concat (map (checksum_rule (strings snapshot)) (take (rule_count (info snapshot)) (rules snapshot)))
        @ concat (map (checksum_destination_rule (destination_strings snapshot))
            (take (destination_rule_count (info snapshot)) (destination_rules snapshot))))\<rparr>\<rparr>"

section \<open>Building a snapshot\<close>

definition cleared_snapshot :: jg_policy_snapshot where
  "cleared_snapshot =
     \<lparr>info = \<lparr>generation = 0, built_at = 0, rule_count = 0, destination_rule_count = 0,
              global_enforcement = JG_POLICY_ENFORCE, observed_scope_count = 0,
              checksum = replicate 32 0\<rparr>,
      rules = [], strings = [], destination_rules = [], destination_strings = [],
      observed_scopes = [], table = [], table_capacity = 0, hash_key = replicate 16 0\<rparr>"

text \<open>Sorting and deduplicating the prepared rules, in place.\<close>

definition retained_rules :: "build_rule list \<Rightarrow> build_rule list" where
  "retained_rules prepared =
     retain build_rule_same_content
       (if length prepared > 1 then qsort build_rule_compare prepared else prepared)"

definition retained_destination_rules :: "build_destination_rule list \<Rightarrow> build_destination_rule list" where
  "retained_destination_rules prepared =
     retain destination_rule_same_content
       (if length prepared > 1 then qsort destination_rule_compare prepared else prepared)"

definition jg_policy_snapshot_build_configured ::
  "'e policy_environment_scheme \<Rightarrow> 'e policy_environment_scheme \<Rightarrow> jg_policy_rule_input list \<Rightarrow>
   jg_policy_destination_rule_input list \<Rightarrow> jg_policy_enforcement_config option \<Rightarrow> u64 \<Rightarrow>
   (errno, jg_policy_snapshot) run" where
  "jg_policy_snapshot_build_configured env env' inputs destination_inputs enforcement gen =
     (if gen = 0 then Fail EINVAL
      else if \<not> sodium_init env then Fail EIO
      else
      and_then (prepare_rules env env' inputs) (\<lambda>prepared.
      and_then (prepare_destination_rules env destination_inputs) (\<lambda>prepared_destinations.
        let kept = retained_rules prepared;
            kept_destinations = retained_destination_rules prepared_destinations in
        if \<not> malloc env 152 then Fail ENOMEM
        else
        and_then (snapshot_populate_enforcement env
                    (cleared_snapshot\<lparr>hash_key := randombytes env 16\<rparr>) enforcement) (\<lambda>created.
        and_then (snapshot_populate env created kept) (\<lambda>created.
        and_then (snapshot_populate_destinations env created kept_destinations) (\<lambda>created.
        and_then (or_fail EIO (clock env)) (\<lambda>build_time.
          Done (snapshot_checksum env (created\<lparr>info := (info created)\<lparr>generation := gen,
            built_at := build_time, rule_count := length kept\<rparr>\<rparr>)))))))))"

definition jg_policy_snapshot_build_complete where
  "jg_policy_snapshot_build_complete env env' inputs destination_inputs gen =
     jg_policy_snapshot_build_configured env env' inputs destination_inputs None gen"

definition jg_policy_snapshot_build where
  "jg_policy_snapshot_build env env' inputs gen =
     jg_policy_snapshot_build_complete env env' inputs [] gen"

definition jg_policy_snapshot_get_info :: "jg_policy_snapshot option \<Rightarrow> jg_policy_snapshot_info result" where
  "jg_policy_snapshot_get_info snapshot =
     (case snapshot of None \<Rightarrow> Inl EINVAL | Some s \<Rightarrow> Inr (info s))"

end
