(* ===== verification/PolicyMatch.thy ===== *)
theory PolicyMatch
  imports Policy
begin

text \<open>
  Matching against a policy snapshot, \<^verbatim>\<open>src/common/policy.c\<close>: the table lookup, the selection of the
  theoretical and of the enforcing rule, destination matching, and the simulation of both.
  A null \<open>client\<close> or \<open>destination\<close> is \<open>None\<close>; a borrowed string of the snapshot is its value. Every
  read of the table, the rules, the observed scopes and the packed strings is checked: outside its
  array it is a fault.
\<close>

section \<open>Data\<close>

record jg_policy_destination =
  dst_transport :: jg_policy_transport
  dst_family :: jg_policy_address_family
  dst_address :: bytes
  dst_port :: u16

record jg_policy_match =
  m_effect :: jg_policy_effect
  m_configured_effect :: jg_policy_effect
  m_enforcement :: jg_policy_enforcement
  m_would_have_blocked :: bool
  m_matched :: bool
  m_rule_id :: u64
  m_statistics_id :: bytes
  m_source :: jg_policy_source
  m_domain :: "bytes option"
  m_attribution :: "bytes option"
  m_enforcing_matched :: bool
  m_enforcing_rule_id :: u64
  m_enforcing_statistics_id :: bytes
  m_enforcing_source :: jg_policy_source
  m_enforcing_domain :: "bytes option"
  m_enforcing_attribution :: "bytes option"

text \<open>
  \<open>struct jg_policy_destination_match\<close> has the fields of \<open>struct jg_policy_match\<close> without the two
  domains, which stay \<open>None\<close> here.
\<close>

type_synonym jg_policy_destination_match = jg_policy_match

definition default_match :: jg_policy_match where
  "default_match =
     \<lparr>m_effect = JG_POLICY_ALLOW, m_configured_effect = JG_POLICY_ALLOW,
      m_enforcement = JG_POLICY_ENFORCE, m_would_have_blocked = False, m_matched = False,
      m_rule_id = 0, m_statistics_id = replicate 16 0, m_source = JG_POLICY_SOURCE_DEFAULT,
      m_domain = None, m_attribution = None, m_enforcing_matched = False, m_enforcing_rule_id = 0,
      m_enforcing_statistics_id = replicate 16 0, m_enforcing_source = JG_POLICY_SOURCE_DEFAULT,
      m_enforcing_domain = None, m_enforcing_attribution = None\<rparr>"

datatype jg_policy_match_dimension =
  JG_POLICY_MATCH_DEFAULT | JG_POLICY_MATCH_DOMAIN | JG_POLICY_MATCH_DESTINATION

record jg_policy_simulation_match =
  sm_effect :: jg_policy_effect
  sm_configured_effect :: jg_policy_effect
  sm_enforcement :: jg_policy_enforcement
  sm_would_have_blocked :: bool
  sm_matched :: bool
  sm_rule_id :: u64
  sm_source :: jg_policy_source
  sm_domain :: bytes
  sm_attribution :: bytes
  sm_enforcing_matched :: bool
  sm_enforcing_rule_id :: u64
  sm_enforcing_source :: jg_policy_source
  sm_enforcing_domain :: bytes
  sm_enforcing_attribution :: bytes

record jg_policy_simulation =
  sim_generation :: u64
  sim_target :: jg_policy_domain_target
  sim_effect :: jg_policy_effect
  sim_configured_effect :: jg_policy_effect
  sim_would_have_blocked :: bool
  sim_selected :: jg_policy_match_dimension
  sim_effective_selected :: jg_policy_match_dimension
  sim_normalized_domain :: bytes
  sim_domain :: jg_policy_simulation_match
  sim_destination :: jg_policy_simulation_match
  sim_destination_evaluated :: bool

section \<open>Reads\<close>

text \<open>
  Reading an element of an array and the C string at an offset of a packed area. A read that is out
  of range, and a string without a terminator inside its area, is \<open>None\<close>, which becomes a fault.
\<close>

definition nth_at :: "'a list \<Rightarrow> nat \<Rightarrow> 'a option" where
  "nth_at xs i = (if i < length xs then Some (xs ! i) else None)"

definition readable :: "bytes \<Rightarrow> u32 \<Rightarrow> bool" where
  "readable area off \<longleftrightarrow> 0 \<in> set (drop (unat off) area)"

definition read_cstring :: "bytes \<Rightarrow> u32 \<Rightarrow> bytes option" where
  "read_cstring area off = (if readable area off then Some (cstring area off) else None)"

section \<open>Enforcement\<close>

fun observed_loop ::
  "jg_policy_scope list \<Rightarrow> jg_policy_client option \<Rightarrow> nat \<Rightarrow> nat \<Rightarrow> (errno, bool) run" where
  "observed_loop scopes client index 0 = Done False"
| "observed_loop scopes client index (Suc remaining) =
     and_then (raw (nth_at scopes index)) (\<lambda>scope.
       if scope_matches scope client then Done True
       else observed_loop scopes client (index + 1) remaining)"

definition client_is_observed ::
  "jg_policy_snapshot \<Rightarrow> jg_policy_client option \<Rightarrow> (errno, bool) run" where
  "client_is_observed snapshot client =
     (if global_enforcement (info snapshot) = JG_POLICY_OBSERVE then Done True
      else observed_loop (observed_scopes snapshot) client 0 (observed_scope_count (info snapshot)))"

definition effective_enforcement ::
  "jg_policy_snapshot \<Rightarrow> jg_policy_effect \<Rightarrow> jg_policy_enforcement \<Rightarrow> jg_policy_client option \<Rightarrow>
   (errno, jg_policy_enforcement) run" where
  "effective_enforcement snapshot effect rule_enforcement client =
     (if effect = JG_POLICY_BLOCK
      then if rule_enforcement = JG_POLICY_OBSERVE then Done JG_POLICY_OBSERVE
           else and_then (client_is_observed snapshot client) (\<lambda>observed.
                  Done (if observed then JG_POLICY_OBSERVE else JG_POLICY_ENFORCE))
      else Done JG_POLICY_ENFORCE)"

section \<open>Domain rules\<close>

fun find_slot_loop ::
  "jg_policy_snapshot \<Rightarrow> u64 \<Rightarrow> bytes \<Rightarrow> nat \<Rightarrow> nat \<Rightarrow> (errno, policy_slot option) run" where
  "find_slot_loop snapshot hash domain slot_index 0 = Done None"
| "find_slot_loop snapshot hash domain slot_index (Suc remaining) =
     and_then (raw (nth_at (table snapshot) slot_index)) (\<lambda>slot.
       if \<not> s_occupied slot then Done None
       else
       and_then (raw (nth_at (rules snapshot) (unat (s_first_rule slot)))) (\<lambda>rule.
       and_then (if s_hash slot = hash
                 then and_then (raw (read_cstring (strings snapshot) (r_domain_offset rule)))
                        (\<lambda>stored_domain. Done (strcmp stored_domain domain = 0))
                 else Done False) (\<lambda>found.
         if found then Done (Some slot)
         else find_slot_loop snapshot hash domain
                ((slot_index + 1) AND (table_capacity snapshot - 1)) remaining)))"

definition find_slot ::
  "'e policy_environment_scheme \<Rightarrow> jg_policy_snapshot \<Rightarrow> bytes \<Rightarrow> (errno, policy_slot option) run" where
  "find_slot env snapshot domain =
     (if table_capacity snapshot = 0 then Done None
      else let hash = domain_hash env (hash_key snapshot) domain in
        find_slot_loop snapshot hash domain (unat hash AND (table_capacity snapshot - 1))
          (table_capacity snapshot))"

definition domain_rule_precedes :: "stored_rule \<Rightarrow> stored_rule option \<Rightarrow> bool" where
  "domain_rule_precedes candidate current = (case current of
     None \<Rightarrow> True
   | Some c \<Rightarrow> r_priority candidate > r_priority c
       \<or> (r_priority candidate = r_priority c \<and> r_id candidate < r_id c))"

definition match_slot_step ::
  "jg_policy_snapshot \<Rightarrow> jg_policy_client option \<Rightarrow> bool \<Rightarrow> jg_policy_domain_target \<Rightarrow>
   stored_rule option \<times> stored_rule option \<Rightarrow> stored_rule \<Rightarrow>
   (errno, stored_rule option \<times> stored_rule option) run" where
  "match_slot_step snapshot client exact_domain target best rule =
     (if r_target rule \<noteq> target \<or> (\<not> exact_domain \<and> \<not> r_include_subdomains rule)
         \<or> \<not> scope_matches (r_scope rule) client then Done best
      else
      let selected = (if domain_rule_precedes rule (fst best) then Some rule else fst best) in
      and_then (effective_enforcement snapshot (r_effect rule) (r_enforcement rule) client) (\<lambda>enforcement.
        Done (selected,
          if enforcement = JG_POLICY_ENFORCE \<and> domain_rule_precedes rule (snd best)
          then Some rule else snd best)))"

fun match_slot_loop ::
  "jg_policy_snapshot \<Rightarrow> jg_policy_client option \<Rightarrow> bool \<Rightarrow> jg_policy_domain_target \<Rightarrow> nat \<Rightarrow> nat \<Rightarrow>
   stored_rule option \<times> stored_rule option \<Rightarrow> (errno, stored_rule option \<times> stored_rule option) run" where
  "match_slot_loop snapshot client exact_domain target index 0 best = Done best"
| "match_slot_loop snapshot client exact_domain target index (Suc remaining) best =
     and_then (raw (nth_at (rules snapshot) index)) (\<lambda>rule.
     and_then (match_slot_step snapshot client exact_domain target best rule) (\<lambda>best.
       match_slot_loop snapshot client exact_domain target (index + 1) remaining best))"

definition match_slot ::
  "jg_policy_snapshot \<Rightarrow> policy_slot option \<Rightarrow> jg_policy_client option \<Rightarrow> bool \<Rightarrow>
   jg_policy_domain_target \<Rightarrow> (errno, stored_rule option \<times> stored_rule option) run" where
  "match_slot snapshot slot client exact_domain target = (case slot of
     None \<Rightarrow> Done (None, None)
   | Some s \<Rightarrow> match_slot_loop snapshot client exact_domain target (unat (s_first_rule s))
       (unat (s_rule_count s)) (None, None))"

text \<open>A winner of an earlier, longer candidate is kept unless a shorter one has higher priority.\<close>

definition keep_better :: "stored_rule option \<Rightarrow> stored_rule option \<Rightarrow> stored_rule option" where
  "keep_better best current = (case current of
     None \<Rightarrow> best
   | Some c \<Rightarrow> (case best of None \<Rightarrow> Some c
       | Some b \<Rightarrow> if r_priority c > r_priority b then Some c else Some b))"

text \<open>The candidates are the name and its suffixes behind each dot; \<open>strchr\<close> finds the next dot.\<close>

definition strchr_dot :: "bytes \<Rightarrow> bytes option" where
  "strchr_dot s = (case dropWhile (\<lambda>c. c \<noteq> dot) s of [] \<Rightarrow> None | (_ # rest) \<Rightarrow> Some rest)"

lemma strchr_dot_length: "strchr_dot s = Some rest \<Longrightarrow> length rest < length s"
  using length_dropWhile_le [of "\<lambda>c. c \<noteq> dot" s]
  by (auto simp: strchr_dot_def split: list.splits)

function match_candidates ::
  "'e policy_environment_scheme \<Rightarrow> jg_policy_snapshot \<Rightarrow> jg_policy_client option \<Rightarrow>
   jg_policy_domain_target \<Rightarrow> bytes \<Rightarrow> bool \<Rightarrow> stored_rule option \<Rightarrow> stored_rule option \<Rightarrow>
   (errno, stored_rule option \<times> stored_rule option) run"
where
  "match_candidates env snapshot client target candidate exact_domain selected enforcing =
     and_then (find_slot env snapshot candidate) (\<lambda>slot.
     and_then (match_slot snapshot slot client exact_domain target) (\<lambda>(current_selected, current_enforcing).
       let selected' = keep_better selected current_selected;
           enforcing' = keep_better enforcing current_enforcing
       in case strchr_dot candidate of
            None \<Rightarrow> Done (selected', enforcing')
          | Some next_candidate \<Rightarrow>
              match_candidates env snapshot client target next_candidate False selected' enforcing'))"
  by pat_completeness auto
termination
  by (relation "measure (\<lambda>(e, s, c, t, d, x, f, g). length d)") (auto dest: strchr_dot_length)

declare match_candidates.simps [simp del]

definition match_selected ::
  "jg_policy_snapshot \<Rightarrow> jg_policy_client option \<Rightarrow> stored_rule option \<Rightarrow> (errno, jg_policy_match) run" where
  "match_selected snapshot client selected = (case selected of
     None \<Rightarrow> Done default_match
   | Some r \<Rightarrow>
     and_then (effective_enforcement snapshot (r_effect r) (r_enforcement r) client) (\<lambda>enforcement.
     and_then (raw (read_cstring (strings snapshot) (r_domain_offset r))) (\<lambda>domain.
     and_then (raw (read_cstring (strings snapshot) (r_attribution_offset r))) (\<lambda>attribution.
       Done (default_match\<lparr>m_configured_effect := r_effect r, m_enforcement := enforcement,
         m_would_have_blocked := (r_effect r = JG_POLICY_BLOCK \<and> enforcement = JG_POLICY_OBSERVE),
         m_matched := True, m_rule_id := r_id r, m_statistics_id := r_statistics_id r,
         m_source := r_source r, m_domain := Some domain, m_attribution := Some attribution\<rparr>)))))"

definition match_enforcing ::
  "jg_policy_snapshot \<Rightarrow> stored_rule option \<Rightarrow> jg_policy_match \<Rightarrow> (errno, jg_policy_match) run" where
  "match_enforcing snapshot enforcing m = (case enforcing of
     None \<Rightarrow> Done m
   | Some r \<Rightarrow>
     and_then (raw (read_cstring (strings snapshot) (r_domain_offset r))) (\<lambda>domain.
     and_then (raw (read_cstring (strings snapshot) (r_attribution_offset r))) (\<lambda>attribution.
       Done (m\<lparr>m_effect := r_effect r, m_enforcing_matched := True, m_enforcing_rule_id := r_id r,
         m_enforcing_statistics_id := r_statistics_id r, m_enforcing_source := r_source r,
         m_enforcing_domain := Some domain, m_enforcing_attribution := Some attribution\<rparr>))))"

definition match_domain_target ::
  "'e policy_environment_scheme \<Rightarrow> jg_policy_snapshot \<Rightarrow> bytes \<Rightarrow> jg_policy_client option \<Rightarrow>
   jg_policy_domain_target \<Rightarrow> (errno, jg_policy_match) run" where
  "match_domain_target env snapshot domain client target =
     (if \<not> jg_domain_is_normalized domain \<or> \<not> client_valid client then Fail EINVAL
      else
      and_then (match_candidates env snapshot client target domain True None None) (\<lambda>(selected, enforcing).
      and_then (match_selected snapshot client selected) (\<lambda>m. match_enforcing snapshot enforcing m)))"

definition jg_policy_match_domain where
  "jg_policy_match_domain env snapshot domain client =
     match_domain_target env snapshot domain client JG_POLICY_DOMAIN_DNS"

definition jg_policy_match_visible_sni where
  "jg_policy_match_visible_sni env snapshot server_name client =
     match_domain_target env snapshot server_name client JG_POLICY_DOMAIN_TLS_SNI"

section \<open>Destination rules\<close>

definition destination_valid :: "jg_policy_destination \<Rightarrow> bool" where
  "destination_valid d \<longleftrightarrow>
     (dst_transport d = JG_POLICY_TRANSPORT_ANY \<or> dst_transport d = JG_POLICY_TRANSPORT_TCP
      \<or> dst_transport d = JG_POLICY_TRANSPORT_UDP)
     \<and> (dst_family d = JG_POLICY_ADDRESS_IPV4 \<or> dst_family d = JG_POLICY_ADDRESS_IPV6)"

definition destination_rule_matches ::
  "stored_destination_rule \<Rightarrow> jg_policy_destination \<Rightarrow> jg_policy_client option \<Rightarrow> bool" where
  "destination_rule_matches rule destination client =
     (if d_transport rule \<noteq> JG_POLICY_TRANSPORT_ANY \<and> d_transport rule \<noteq> dst_transport destination
      then False
      else if d_has_port rule \<and> d_port rule \<noteq> dst_port destination then False
      else if d_has_address rule
         \<and> (d_address_family rule \<noteq> dst_family destination
            \<or> \<not> address_matches (dst_address destination) (d_address rule) (d_prefix_length rule))
      then False
      else scope_matches (d_scope rule) client)"

text \<open>The 16-bit sum: a prefix length is at most 255, so it does not wrap.\<close>

definition destination_rule_specificity :: "stored_destination_rule \<Rightarrow> u16" where
  "destination_rule_specificity rule =
     (let s0 = (if d_has_address rule then ucast (d_prefix_length rule) + 1 else 0 :: u16);
          s1 = (if d_has_port rule then s0 + 256 else s0)
      in if d_transport rule \<noteq> JG_POLICY_TRANSPORT_ANY then s1 + 512 else s1)"

definition destination_rule_precedes ::
  "stored_destination_rule \<Rightarrow> stored_destination_rule option \<Rightarrow> bool" where
  "destination_rule_precedes candidate current = (case current of
     None \<Rightarrow> True
   | Some c \<Rightarrow>
       d_priority candidate > d_priority c
       \<or> (d_priority candidate = d_priority c
           \<and> destination_rule_specificity candidate > destination_rule_specificity c)
       \<or> (d_priority candidate = d_priority c
           \<and> destination_rule_specificity candidate = destination_rule_specificity c
           \<and> d_id candidate < d_id c))"

definition match_destination_step ::
  "jg_policy_snapshot \<Rightarrow> jg_policy_destination \<Rightarrow> jg_policy_client option \<Rightarrow>
   stored_destination_rule option \<times> stored_destination_rule option \<Rightarrow> stored_destination_rule \<Rightarrow>
   (errno, stored_destination_rule option \<times> stored_destination_rule option) run" where
  "match_destination_step snapshot destination client best rule =
     (if \<not> destination_rule_matches rule destination client then Done best
      else
      let selected = (if destination_rule_precedes rule (fst best) then Some rule else fst best) in
      and_then (effective_enforcement snapshot (d_effect rule) (d_enforcement rule) client) (\<lambda>enforcement.
        Done (selected,
          if enforcement = JG_POLICY_ENFORCE \<and> destination_rule_precedes rule (snd best)
          then Some rule else snd best)))"

fun match_destination_loop ::
  "jg_policy_snapshot \<Rightarrow> jg_policy_destination \<Rightarrow> jg_policy_client option \<Rightarrow> nat \<Rightarrow> nat \<Rightarrow>
   stored_destination_rule option \<times> stored_destination_rule option \<Rightarrow>
   (errno, stored_destination_rule option \<times> stored_destination_rule option) run" where
  "match_destination_loop snapshot destination client index 0 best = Done best"
| "match_destination_loop snapshot destination client index (Suc remaining) best =
     and_then (raw (nth_at (destination_rules snapshot) index)) (\<lambda>current.
     and_then (match_destination_step snapshot destination client best current) (\<lambda>best.
       match_destination_loop snapshot destination client (index + 1) remaining best))"

definition destination_selected ::
  "jg_policy_snapshot \<Rightarrow> jg_policy_client option \<Rightarrow> stored_destination_rule option \<Rightarrow>
   (errno, jg_policy_destination_match) run" where
  "destination_selected snapshot client selected = (case selected of
     None \<Rightarrow> Done default_match
   | Some r \<Rightarrow>
     and_then (effective_enforcement snapshot (d_effect r) (d_enforcement r) client) (\<lambda>enforcement.
     and_then (raw (read_cstring (destination_strings snapshot) (d_attribution_offset r))) (\<lambda>attribution.
       Done (default_match\<lparr>m_configured_effect := d_effect r, m_enforcement := enforcement,
         m_would_have_blocked := (d_effect r = JG_POLICY_BLOCK \<and> enforcement = JG_POLICY_OBSERVE),
         m_matched := True, m_rule_id := d_id r, m_statistics_id := d_statistics_id r,
         m_source := d_source r, m_attribution := Some attribution\<rparr>))))"

definition destination_enforcing ::
  "jg_policy_snapshot \<Rightarrow> stored_destination_rule option \<Rightarrow> jg_policy_destination_match \<Rightarrow>
   (errno, jg_policy_destination_match) run" where
  "destination_enforcing snapshot enforcing m = (case enforcing of
     None \<Rightarrow> Done m
   | Some r \<Rightarrow>
     and_then (raw (read_cstring (destination_strings snapshot) (d_attribution_offset r))) (\<lambda>attribution.
       Done (m\<lparr>m_effect := d_effect r, m_enforcing_matched := True, m_enforcing_rule_id := d_id r,
         m_enforcing_statistics_id := d_statistics_id r, m_enforcing_source := d_source r,
         m_enforcing_attribution := Some attribution\<rparr>)))"

definition jg_policy_match_destination ::
  "jg_policy_snapshot \<Rightarrow> jg_policy_destination \<Rightarrow> jg_policy_client option \<Rightarrow>
   (errno, jg_policy_destination_match) run" where
  "jg_policy_match_destination snapshot destination client =
     (if \<not> destination_valid destination \<or> \<not> client_valid client then Fail EINVAL
      else
      and_then (match_destination_loop snapshot destination client 0
                  (destination_rule_count (info snapshot)) (None, None)) (\<lambda>(selected, enforcing).
      and_then (destination_selected snapshot client selected) (\<lambda>m.
        destination_enforcing snapshot enforcing m)))"

section \<open>Simulation\<close>

text \<open>\<open>copy_simulation_text\<close> into a cleared array: a text that does not fit leaves the empty string.\<close>

definition copy_simulation_text :: "nat \<Rightarrow> bytes option \<Rightarrow> bytes" where
  "copy_simulation_text output_size text = (case text of
     None \<Rightarrow> [] | Some t \<Rightarrow> if length t < output_size then t else [])"

definition cleared_simulation_match :: jg_policy_simulation_match where
  "cleared_simulation_match =
     \<lparr>sm_effect = JG_POLICY_ALLOW, sm_configured_effect = JG_POLICY_ALLOW,
      sm_enforcement = JG_POLICY_ENFORCE, sm_would_have_blocked = False, sm_matched = False,
      sm_rule_id = 0, sm_source = JG_POLICY_SOURCE_DEFAULT, sm_domain = [], sm_attribution = [],
      sm_enforcing_matched = False, sm_enforcing_rule_id = 0,
      sm_enforcing_source = JG_POLICY_SOURCE_DEFAULT, sm_enforcing_domain = [],
      sm_enforcing_attribution = []\<rparr>"

definition copy_domain_simulation :: "jg_policy_match \<Rightarrow> jg_policy_simulation_match" where
  "copy_domain_simulation m =
     \<lparr>sm_effect = m_effect m, sm_configured_effect = m_configured_effect m,
      sm_enforcement = m_enforcement m, sm_would_have_blocked = m_would_have_blocked m,
      sm_matched = m_matched m, sm_rule_id = m_rule_id m, sm_source = m_source m,
      sm_domain = copy_simulation_text (JG_DOMAIN_NAME_MAX + 1) (m_domain m),
      sm_attribution = copy_simulation_text (JG_POLICY_ATTRIBUTION_MAX + 1) (m_attribution m),
      sm_enforcing_matched = m_enforcing_matched m, sm_enforcing_rule_id = m_enforcing_rule_id m,
      sm_enforcing_source = m_enforcing_source m,
      sm_enforcing_domain = copy_simulation_text (JG_DOMAIN_NAME_MAX + 1) (m_enforcing_domain m),
      sm_enforcing_attribution =
        copy_simulation_text (JG_POLICY_ATTRIBUTION_MAX + 1) (m_enforcing_attribution m)\<rparr>"

definition copy_destination_simulation ::
  "jg_policy_destination_match \<Rightarrow> jg_policy_simulation_match" where
  "copy_destination_simulation m =
     \<lparr>sm_effect = m_effect m, sm_configured_effect = m_configured_effect m,
      sm_enforcement = m_enforcement m, sm_would_have_blocked = m_would_have_blocked m,
      sm_matched = m_matched m, sm_rule_id = m_rule_id m, sm_source = m_source m,
      sm_domain = [],
      sm_attribution = copy_simulation_text (JG_POLICY_ATTRIBUTION_MAX + 1) (m_attribution m),
      sm_enforcing_matched = m_enforcing_matched m, sm_enforcing_rule_id = m_enforcing_rule_id m,
      sm_enforcing_source = m_enforcing_source m, sm_enforcing_domain = [],
      sm_enforcing_attribution =
        copy_simulation_text (JG_POLICY_ATTRIBUTION_MAX + 1) (m_enforcing_attribution m)\<rparr>"

definition initial_simulation :: "jg_policy_domain_target \<Rightarrow> jg_policy_simulation" where
  "initial_simulation target =
     \<lparr>sim_generation = 0, sim_target = target, sim_effect = JG_POLICY_ALLOW,
      sim_configured_effect = JG_POLICY_ALLOW, sim_would_have_blocked = False,
      sim_selected = JG_POLICY_MATCH_DEFAULT, sim_effective_selected = JG_POLICY_MATCH_DEFAULT,
      sim_normalized_domain = [], sim_domain = cleared_simulation_match,
      sim_destination = cleared_simulation_match, sim_destination_evaluated = False\<rparr>"

text \<open>
  The part of \<open>jg_policy_simulate\<close> that evaluates the destination. It returns the simulation, whether
  the destination has selected the configured effect, and whether the function returns there.
\<close>

definition simulate_destination ::
  "jg_policy_simulation \<Rightarrow> jg_policy_destination_match \<Rightarrow> jg_policy_simulation \<times> bool \<times> bool" where
  "simulate_destination sim m =
     (let sim = sim\<lparr>sim_destination_evaluated := True, sim_destination := copy_destination_simulation m\<rparr>;
          theoretical = (m_matched m \<and> m_configured_effect m = JG_POLICY_BLOCK);
          sim = (if theoretical
                 then sim\<lparr>sim_configured_effect := JG_POLICY_BLOCK,
                          sim_would_have_blocked := m_would_have_blocked m,
                          sim_selected := JG_POLICY_MATCH_DESTINATION\<rparr> else sim)
      in if m_effect m = JG_POLICY_BLOCK
         then (let sim = sim\<lparr>sim_effect := JG_POLICY_BLOCK,
                             sim_effective_selected := JG_POLICY_MATCH_DESTINATION\<rparr>
               in (if \<not> theoretical
                   then sim\<lparr>sim_configured_effect := m_configured_effect m,
                            sim_selected := JG_POLICY_MATCH_DESTINATION\<rparr>
                   else sim, theoretical, True))
         else (sim, theoretical, False))"

definition simulate_domain ::
  "jg_policy_simulation \<Rightarrow> bool \<Rightarrow> jg_policy_match \<Rightarrow> jg_policy_simulation" where
  "simulate_domain sim theoretical m =
     (let sim = sim\<lparr>sim_domain := copy_domain_simulation m, sim_effect := m_effect m\<rparr>;
          sim = (if \<not> theoretical \<and> m_matched m
                 then sim\<lparr>sim_selected := JG_POLICY_MATCH_DOMAIN,
                          sim_configured_effect := m_configured_effect m,
                          sim_would_have_blocked := m_would_have_blocked m\<rparr>
                 else if \<not> theoretical \<and> sm_matched (sim_destination sim)
                 then sim\<lparr>sim_selected := JG_POLICY_MATCH_DESTINATION,
                          sim_configured_effect := sm_configured_effect (sim_destination sim),
                          sim_would_have_blocked := sm_would_have_blocked (sim_destination sim)\<rparr>
                 else sim)
      in if m_enforcing_matched m then sim\<lparr>sim_effective_selected := JG_POLICY_MATCH_DOMAIN\<rparr>
         else if sm_enforcing_matched (sim_destination sim)
         then sim\<lparr>sim_effect := sm_effect (sim_destination sim),
                  sim_effective_selected := JG_POLICY_MATCH_DESTINATION\<rparr>
         else sim)"

definition jg_policy_simulate ::
  "'e policy_environment_scheme \<Rightarrow> jg_policy_snapshot \<Rightarrow> jg_policy_domain_target \<Rightarrow> bytes \<Rightarrow>
   jg_policy_client option \<Rightarrow> jg_policy_destination option \<Rightarrow> (errno, jg_policy_simulation) run" where
  "jg_policy_simulate env snapshot target domain client destination =
     (if target \<noteq> JG_POLICY_DOMAIN_DNS \<and> target \<noteq> JG_POLICY_DOMAIN_TLS_SNI then Fail EINVAL
      else
      and_then (lift_result (jg_domain_normalize env domain (JG_DOMAIN_NAME_MAX + 1))) (\<lambda>normalized.
      and_then (lift_result (jg_policy_snapshot_get_info (Some snapshot))) (\<lambda>inf.
        let sim = (initial_simulation target)\<lparr>sim_normalized_domain := normalized,
                                               sim_generation := generation inf\<rparr> in
        and_then (case destination of None \<Rightarrow> Done (sim, False, False)
          | Some d \<Rightarrow> and_then (jg_policy_match_destination snapshot d client)
              (\<lambda>m. Done (simulate_destination sim m))) (\<lambda>(sim, theoretical, returned).
          if returned then Done sim
          else and_then
                 (if target = JG_POLICY_DOMAIN_DNS
                  then jg_policy_match_domain env snapshot normalized client
                  else jg_policy_match_visible_sni env snapshot normalized client)
            (\<lambda>m. Done (simulate_domain sim theoretical m))))))"

end
