(* ===== verification/PolicyLookup.thy ===== *)
theory PolicyLookup
  imports PolicyMatch
begin

text \<open>
  The reference semantics of the matchers. The functions of this theory read the arrays of a snapshot
  without bounds; they say what the matchers of \<^verbatim>\<open>src/common/policy.c\<close> compute when every
  read is in range. \<open>snapshot_in_bounds\<close> is the condition on the layout of a snapshot under which
  that is so: on such a snapshot the checked matchers of \<open>PolicyMatch\<close> do not fault and return what
  the reference returns.
\<close>

section \<open>The reference matchers\<close>

definition observes_client :: "jg_policy_snapshot \<Rightarrow> jg_policy_client option \<Rightarrow> bool" where
  "observes_client snapshot client =
     (if global_enforcement (info snapshot) = JG_POLICY_OBSERVE then True
      else list_ex (\<lambda>s. scope_matches s client)
             (take (observed_scope_count (info snapshot)) (observed_scopes snapshot)))"

definition enforcement_for ::
  "jg_policy_snapshot \<Rightarrow> jg_policy_effect \<Rightarrow> jg_policy_enforcement \<Rightarrow> jg_policy_client option \<Rightarrow>
   jg_policy_enforcement" where
  "enforcement_for snapshot effect rule_enforcement client =
     (if effect = JG_POLICY_BLOCK
         \<and> (rule_enforcement = JG_POLICY_OBSERVE \<or> observes_client snapshot client)
      then JG_POLICY_OBSERVE else JG_POLICY_ENFORCE)"

definition slot_for ::
  "'e policy_environment_scheme \<Rightarrow> jg_policy_snapshot \<Rightarrow> bytes \<Rightarrow> policy_slot option" where
  "slot_for env snapshot domain =
     (if table_capacity snapshot = 0 then None
      else let hash = domain_hash env (hash_key snapshot) domain in
        case probe (\<lambda>i. let slot = table snapshot ! i in
                 if \<not> s_occupied slot then True
                 else s_hash slot = hash
                   \<and> strcmp (cstring (strings snapshot)
                               (r_domain_offset (rules snapshot ! unat (s_first_rule slot)))) domain = 0)
               (table_capacity snapshot)
               (unat hash AND (table_capacity snapshot - 1)) (table_capacity snapshot) of
          None \<Rightarrow> None
        | Some i \<Rightarrow> if \<not> s_occupied (table snapshot ! i) then None else Some (table snapshot ! i))"

definition slot_step ::
  "jg_policy_snapshot \<Rightarrow> jg_policy_client option \<Rightarrow> bool \<Rightarrow> jg_policy_domain_target \<Rightarrow>
   stored_rule option \<times> stored_rule option \<Rightarrow> stored_rule \<Rightarrow> stored_rule option \<times> stored_rule option" where
  "slot_step snapshot client exact_domain target best rule =
     (if r_target rule \<noteq> target \<or> (\<not> exact_domain \<and> \<not> r_include_subdomains rule)
         \<or> \<not> scope_matches (r_scope rule) client then best
      else
        (if domain_rule_precedes rule (fst best) then Some rule else fst best,
         if enforcement_for snapshot (r_effect rule) (r_enforcement rule) client = JG_POLICY_ENFORCE
            \<and> domain_rule_precedes rule (snd best) then Some rule else snd best))"

definition slot_winners ::
  "jg_policy_snapshot \<Rightarrow> policy_slot option \<Rightarrow> jg_policy_client option \<Rightarrow> bool \<Rightarrow>
   jg_policy_domain_target \<Rightarrow> stored_rule option \<times> stored_rule option" where
  "slot_winners snapshot slot client exact_domain target = (case slot of
     None \<Rightarrow> (None, None)
   | Some s \<Rightarrow> foldl (slot_step snapshot client exact_domain target) (None, None)
       (slice (unat (s_first_rule s)) (unat (s_rule_count s)) (rules snapshot)))"

function candidate_winners ::
  "'e policy_environment_scheme \<Rightarrow> jg_policy_snapshot \<Rightarrow> jg_policy_client option \<Rightarrow>
   jg_policy_domain_target \<Rightarrow> bytes \<Rightarrow> bool \<Rightarrow> stored_rule option \<Rightarrow> stored_rule option \<Rightarrow>
   stored_rule option \<times> stored_rule option"
where
  "candidate_winners env snapshot client target candidate exact_domain selected enforcing =
     (let (current_selected, current_enforcing) =
            slot_winners snapshot (slot_for env snapshot candidate) client exact_domain target;
          selected' = keep_better selected current_selected;
          enforcing' = keep_better enforcing current_enforcing
      in case strchr_dot candidate of
           None \<Rightarrow> (selected', enforcing')
         | Some next_candidate \<Rightarrow>
             candidate_winners env snapshot client target next_candidate False selected' enforcing')"
  by pat_completeness auto
termination
  by (relation "measure (\<lambda>(e, s, c, t, d, x, f, g). length d)") (auto dest: strchr_dot_length)

declare candidate_winners.simps [simp del]

definition winners_match ::
  "jg_policy_snapshot \<Rightarrow> jg_policy_client option \<Rightarrow> stored_rule option \<Rightarrow> stored_rule option \<Rightarrow> jg_policy_match"
where
  "winners_match snapshot client selected enforcing =
     (let m = default_match;
          m = (case selected of None \<Rightarrow> m | Some r \<Rightarrow>
            let enforcement = enforcement_for snapshot (r_effect r) (r_enforcement r) client in
            m\<lparr>m_configured_effect := r_effect r, m_enforcement := enforcement,
              m_would_have_blocked := (r_effect r = JG_POLICY_BLOCK \<and> enforcement = JG_POLICY_OBSERVE),
              m_matched := True, m_rule_id := r_id r, m_statistics_id := r_statistics_id r,
              m_source := r_source r, m_domain := Some (cstring (strings snapshot) (r_domain_offset r)),
              m_attribution := Some (cstring (strings snapshot) (r_attribution_offset r))\<rparr>)
      in case enforcing of None \<Rightarrow> m | Some r \<Rightarrow>
            m\<lparr>m_effect := r_effect r, m_enforcing_matched := True, m_enforcing_rule_id := r_id r,
              m_enforcing_statistics_id := r_statistics_id r, m_enforcing_source := r_source r,
              m_enforcing_domain := Some (cstring (strings snapshot) (r_domain_offset r)),
              m_enforcing_attribution := Some (cstring (strings snapshot) (r_attribution_offset r))\<rparr>)"

definition domain_match ::
  "'e policy_environment_scheme \<Rightarrow> jg_policy_snapshot \<Rightarrow> bytes \<Rightarrow> jg_policy_client option \<Rightarrow>
   jg_policy_domain_target \<Rightarrow> jg_policy_match result" where
  "domain_match env snapshot domain client target =
     (if \<not> jg_domain_is_normalized domain \<or> \<not> client_valid client then Inl EINVAL
      else let (selected, enforcing) = candidate_winners env snapshot client target domain True None None
        in Inr (winners_match snapshot client selected enforcing))"

definition destination_step ::
  "jg_policy_snapshot \<Rightarrow> jg_policy_destination \<Rightarrow> jg_policy_client option \<Rightarrow>
   stored_destination_rule option \<times> stored_destination_rule option \<Rightarrow> stored_destination_rule \<Rightarrow>
   stored_destination_rule option \<times> stored_destination_rule option" where
  "destination_step snapshot destination client best rule =
     (if \<not> destination_rule_matches rule destination client then best
      else
        (if destination_rule_precedes rule (fst best) then Some rule else fst best,
         if enforcement_for snapshot (d_effect rule) (d_enforcement rule) client = JG_POLICY_ENFORCE
            \<and> destination_rule_precedes rule (snd best) then Some rule else snd best))"

definition destination_winners ::
  "jg_policy_snapshot \<Rightarrow> jg_policy_client option \<Rightarrow> stored_destination_rule option \<Rightarrow>
   stored_destination_rule option \<Rightarrow> jg_policy_destination_match"
where
  "destination_winners snapshot client selected enforcing =
     (let m = default_match;
          m = (case selected of None \<Rightarrow> m | Some r \<Rightarrow>
            let enforcement = enforcement_for snapshot (d_effect r) (d_enforcement r) client in
            m\<lparr>m_configured_effect := d_effect r, m_enforcement := enforcement,
              m_would_have_blocked := (d_effect r = JG_POLICY_BLOCK \<and> enforcement = JG_POLICY_OBSERVE),
              m_matched := True, m_rule_id := d_id r, m_statistics_id := d_statistics_id r,
              m_source := d_source r,
              m_attribution := Some (cstring (destination_strings snapshot) (d_attribution_offset r))\<rparr>)
      in case enforcing of None \<Rightarrow> m | Some r \<Rightarrow>
            m\<lparr>m_effect := d_effect r, m_enforcing_matched := True, m_enforcing_rule_id := d_id r,
              m_enforcing_statistics_id := d_statistics_id r, m_enforcing_source := d_source r,
              m_enforcing_attribution :=
                Some (cstring (destination_strings snapshot) (d_attribution_offset r))\<rparr>)"

definition destination_match ::
  "jg_policy_snapshot \<Rightarrow> jg_policy_destination \<Rightarrow> jg_policy_client option \<Rightarrow>
   jg_policy_destination_match result" where
  "destination_match snapshot destination client =
     (if \<not> destination_valid destination \<or> \<not> client_valid client then Inl EINVAL
      else let (selected, enforcing) =
             foldl (destination_step snapshot destination client) (None, None)
               (take (destination_rule_count (info snapshot)) (destination_rules snapshot))
        in Inr (destination_winners snapshot client selected enforcing))"

section \<open>Layout of a snapshot\<close>

definition slot_in_range :: "stored_rule list \<Rightarrow> policy_slot \<Rightarrow> bool" where
  "slot_in_range stored s \<longleftrightarrow> 0 < unat (s_rule_count s)
     \<and> unat (s_first_rule s) + unat (s_rule_count s) \<le> length stored"

text \<open>
  The table has its capacity, a power of two; the range of rules of an occupied slot, the offsets of
  the strings of every rule and the three counts stay inside the arrays they refer to.
\<close>

definition table_in_bounds :: "jg_policy_snapshot \<Rightarrow> bool" where
  "table_in_bounds s \<longleftrightarrow> table_capacity s = 0
     \<or> (\<exists>k. table_capacity s = 2 ^ k) \<and> length (table s) = table_capacity s
        \<and> (\<forall>slot \<in> set (table s). s_occupied slot \<longrightarrow> slot_in_range (rules s) slot)"

definition snapshot_in_bounds :: "jg_policy_snapshot \<Rightarrow> bool" where
  "snapshot_in_bounds s \<longleftrightarrow> table_in_bounds s
     \<and> (\<forall>r \<in> set (rules s). readable (strings s) (r_domain_offset r)
          \<and> readable (strings s) (r_attribution_offset r))
     \<and> (\<forall>r \<in> set (destination_rules s). readable (destination_strings s) (d_attribution_offset r))
     \<and> observed_scope_count (info s) \<le> length (observed_scopes s)
     \<and> destination_rule_count (info s) \<le> length (destination_rules s)"

lemma nth_at_simps [simp]:
  "i < length xs \<Longrightarrow> nth_at xs i = Some (xs ! i)"
  "\<not> i < length xs \<Longrightarrow> nth_at xs i = None"
  by (simp_all add: nth_at_def)

lemma read_cstring_readable [simp]: "readable area off \<Longrightarrow> read_cstring area off = Some (cstring area off)"
  by (simp add: read_cstring_def)

lemma slice_first: "i < length xs \<Longrightarrow> slice i (Suc n) xs = xs ! i # slice (i + 1) n xs"
  by (simp add: slice_def Cons_nth_drop_Suc [symmetric])

section \<open>The checked matchers compute the reference\<close>

lemma observed_loop_eq:
  "i + n \<le> length scopes \<Longrightarrow>
   observed_loop scopes client i n = Done (list_ex (\<lambda>s. scope_matches s client) (slice i n scopes))"
  by (induction n arbitrary: i) (simp_all add: slice_first, simp add: slice_def)

lemma effective_enforcement_eq:
  assumes "snapshot_in_bounds s"
  shows "effective_enforcement s effect enforcement client = Done (enforcement_for s effect enforcement client)"
  using assms observed_loop_eq [of 0 "observed_scope_count (info s)" "observed_scopes s" client]
  by (auto simp: effective_enforcement_def enforcement_for_def client_is_observed_def observes_client_def
      snapshot_in_bounds_def slice_def)

lemma and_capacity: "(x :: nat) AND (2 ^ k - 1) = x mod 2 ^ k"
  by (simp flip: take_bit_eq_mod add: take_bit_eq_mask mask_eq_exp_minus_1)

lemma probe_index: "cap = 2 ^ k \<Longrightarrow> ((i :: nat) AND (cap - 1)) < cap"
  by (simp only: and_capacity) simp

lemma find_slot_loop_eq:
  assumes "snapshot_in_bounds s" and "table_capacity s \<noteq> 0" and "i < table_capacity s"
  shows "find_slot_loop s h d i n = Done (case probe (\<lambda>i. let slot = table s ! i in
      if \<not> s_occupied slot then True
      else s_hash slot = h \<and> strcmp (cstring (strings s) (r_domain_offset (rules s ! unat (s_first_rule slot)))) d = 0)
    (table_capacity s) i n of None \<Rightarrow> None | Some i \<Rightarrow> if \<not> s_occupied (table s ! i) then None else Some (table s ! i))"
  using assms(3)
proof (induction n arbitrary: i)
  case (Suc n)
  from assms obtain k where t: "table_capacity s = 2 ^ k" "length (table s) = table_capacity s"
    "\<And>slot. slot \<in> set (table s) \<Longrightarrow> s_occupied slot \<Longrightarrow> slot_in_range (rules s) slot"
    by (auto simp: snapshot_in_bounds_def table_in_bounds_def)
  have i: "i < length (table s)" using Suc.prems t(2) by simp
  have r: "unat (s_first_rule (table s ! i)) < length (rules s)
      \<and> readable (strings s) (r_domain_offset (rules s ! unat (s_first_rule (table s ! i))))"
    if "s_occupied (table s ! i)"
    using t(3) [OF nth_mem [OF i] that] assms(1) by (auto simp: slot_in_range_def snapshot_in_bounds_def)
  show ?case
    using i r Suc.IH [OF probe_index [OF t(1), of "i + 1"]] by (auto simp: Let_def)
qed simp

lemma find_slot_eq:
  assumes "snapshot_in_bounds s"
  shows "find_slot env s d = Done (slot_for env s d)"
proof (cases "table_capacity s = 0")
  case False
  with assms obtain k where "table_capacity s = 2 ^ k" by (auto simp: snapshot_in_bounds_def table_in_bounds_def)
  from find_slot_loop_eq [OF assms False probe_index [OF this]] False show ?thesis
    by (simp add: find_slot_def slot_for_def Let_def)
qed (simp add: find_slot_def slot_for_def)

lemma probe_in_range:
  assumes "cap = 2 ^ k" and "i < cap"
  shows "probe stop cap i n = Some j \<Longrightarrow> j < cap"
  using assms(2)
proof (induction n arbitrary: i)
  case (Suc n)
  then show ?case using probe_index [OF assms(1), of "i + 1"] by (auto split: if_splits)
qed simp

lemma slot_for_range:
  assumes "snapshot_in_bounds s" and "slot_for env s d = Some slot"
  shows "slot_in_range (rules s) slot"
proof -
  have nz: "table_capacity s \<noteq> 0"
  proof
    assume "table_capacity s = 0"
    then have "slot_for env s d = None" by (simp add: slot_for_def)
    with assms(2) show False by simp
  qed
  with assms(1) obtain k where t: "table_capacity s = 2 ^ k" "length (table s) = table_capacity s"
    "\<And>slot. slot \<in> set (table s) \<Longrightarrow> s_occupied slot \<Longrightarrow> slot_in_range (rules s) slot"
    by (auto simp: snapshot_in_bounds_def table_in_bounds_def)
  from assms(2) nz obtain stop i j where "probe stop (table_capacity s) (j AND (table_capacity s - 1)) (table_capacity s) = Some i"
    "s_occupied (table s ! i)" "slot = table s ! i"
    by (auto simp: slot_for_def Let_def split: option.splits if_splits)
  then show ?thesis
    using probe_in_range [OF t(1) probe_index [OF t(1)]] t(2,3) nth_mem by metis
qed

lemma match_slot_step_eq:
  "snapshot_in_bounds s \<Longrightarrow>
   match_slot_step s client exact target best rule = Done (slot_step s client exact target best rule)"
  by (simp add: match_slot_step_def slot_step_def effective_enforcement_eq Let_def)

lemma match_slot_loop_eq:
  "snapshot_in_bounds s \<Longrightarrow> i + n \<le> length (rules s) \<Longrightarrow>
   match_slot_loop s client exact target i n best =
     Done (foldl (slot_step s client exact target) best (slice i n (rules s)))"
  by (induction n arbitrary: i best) (simp_all add: match_slot_step_eq slice_first, simp add: slice_def)

lemma match_slot_eq:
  "snapshot_in_bounds s \<Longrightarrow> match_slot s (slot_for env s d) client exact target =
     Done (slot_winners s (slot_for env s d) client exact target)"
  using slot_for_range [of s env d]
  by (auto simp: match_slot_def slot_winners_def slot_in_range_def match_slot_loop_eq split: option.splits)

lemma match_candidates_eq:
  assumes "snapshot_in_bounds s"
  shows "match_candidates env s client target d exact sel enf =
    Done (candidate_winners env s client target d exact sel enf)"
proof (induction d arbitrary: exact sel enf rule: length_induct)
  case (1 d)
  obtain a b where w: "slot_winners s (slot_for env s d) client exact target = (a, b)" by fastforce
  show ?case
    using 1 strchr_dot_length [of d]
    by (subst match_candidates.simps, subst candidate_winners.simps)
      (simp add: find_slot_eq [OF assms] match_slot_eq [OF assms] w Let_def split: option.splits)
qed

text \<open>The winners are rules of the snapshot, so their strings are readable.\<close>

lemma foldl_winners:
  assumes "\<And>best r. r \<in> A \<Longrightarrow> set_option (fst best) \<union> set_option (snd best) \<subseteq> A \<Longrightarrow>
      set_option (fst (f best r)) \<union> set_option (snd (f best r)) \<subseteq> A"
    and "set rs \<subseteq> A" and "set_option (fst b) \<union> set_option (snd b) \<subseteq> A"
  shows "set_option (fst (foldl f b rs)) \<union> set_option (snd (foldl f b rs)) \<subseteq> A"
  using assms(2,3)
proof (induction rs arbitrary: b)
  case (Cons r rs)
  then show ?case using assms(1) [of r b] by simp
qed simp

lemma set_slice: "set (slice i n xs) \<subseteq> set xs"
  by (auto simp: slice_def dest: in_set_takeD in_set_dropD)

lemma slot_winners_rules:
  assumes "slot_winners s slot client exact target = (a, b)"
  shows "set_option a \<union> set_option b \<subseteq> set (rules s)"
proof (cases slot)
  case (Some x)
  let ?rs = "slice (unat (s_first_rule x)) (unat (s_rule_count x)) (rules s)"
  have "set_option (fst (foldl (slot_step s client exact target) (None, None) ?rs))
      \<union> set_option (snd (foldl (slot_step s client exact target) (None, None) ?rs)) \<subseteq> set (rules s)"
    by (rule foldl_winners [OF _ set_slice]) (auto simp: slot_step_def)
  then show ?thesis using assms Some by (simp add: slot_winners_def)
qed (use assms in \<open>simp add: slot_winners_def\<close>)

lemma keep_better_set: "set_option (keep_better a b) \<subseteq> set_option a \<union> set_option b"
  by (auto simp: keep_better_def split: option.splits)

lemma candidate_winners_rules:
  "candidate_winners env s client target d exact sel enf = (a, b) \<Longrightarrow>
   set_option sel \<union> set_option enf \<subseteq> set (rules s) \<Longrightarrow> set_option a \<union> set_option b \<subseteq> set (rules s)"
proof (induction d arbitrary: exact sel enf rule: length_induct)
  case (1 d)
  obtain x y where w: "slot_winners s (slot_for env s d) client exact target = (x, y)" by fastforce
  have k: "set_option (keep_better sel x) \<union> set_option (keep_better enf y) \<subseteq> set (rules s)"
    using slot_winners_rules [OF w] 1(3) keep_better_set [of sel x] keep_better_set [of enf y] by blast
  show ?case
  proof (cases "strchr_dot d")
    case None
    then show ?thesis using 1(2) k w by (subst (asm) candidate_winners.simps) (simp add: Let_def)
  next
    case (Some rest)
    have "candidate_winners env s client target rest False (keep_better sel x) (keep_better enf y) = (a, b)"
      using 1(2) Some w by (subst (asm) candidate_winners.simps) (simp add: Let_def)
    then show ?thesis using 1(1) strchr_dot_length [OF Some] k by blast
  qed
qed

lemma match_domain_target_eq:
  assumes "snapshot_in_bounds s"
  shows "match_domain_target env s d client target = lift_result (domain_match env s d client target)"
proof -
  obtain a b where w: "candidate_winners env s client target d True None None = (a, b)" by fastforce
  have r: "readable (strings s) (r_domain_offset r) \<and> readable (strings s) (r_attribution_offset r)"
    if "r \<in> set_option a \<union> set_option b" for r
    using candidate_winners_rules [OF w] assms that by (auto simp: snapshot_in_bounds_def)
  show ?thesis
    using r by (auto simp: match_domain_target_def domain_match_def match_candidates_eq [OF assms] w
        lift_result_def match_selected_def match_enforcing_def winners_match_def
        effective_enforcement_eq [OF assms] Let_def split: option.splits)
qed

lemma match_destination_step_eq:
  "snapshot_in_bounds s \<Longrightarrow>
   match_destination_step s dst client best rule = Done (destination_step s dst client best rule)"
  by (simp add: match_destination_step_def destination_step_def effective_enforcement_eq Let_def)

lemma match_destination_loop_eq:
  "snapshot_in_bounds s \<Longrightarrow> i + n \<le> length (destination_rules s) \<Longrightarrow>
   match_destination_loop s dst client i n best =
     Done (foldl (destination_step s dst client) best (slice i n (destination_rules s)))"
  by (induction n arbitrary: i best) (simp_all add: match_destination_step_eq slice_first, simp add: slice_def)

lemma match_destination_eq:
  assumes "snapshot_in_bounds s"
  shows "jg_policy_match_destination s dst client = lift_result (destination_match s dst client)"
proof -
  let ?rs = "take (destination_rule_count (info s)) (destination_rules s)"
  obtain a b where w: "foldl (destination_step s dst client) (None, None) ?rs = (a, b)" by fastforce
  have "set_option (fst (foldl (destination_step s dst client) (None, None) ?rs))
      \<union> set_option (snd (foldl (destination_step s dst client) (None, None) ?rs)) \<subseteq> set (destination_rules s)"
    by (rule foldl_winners) (auto simp: destination_step_def dest: in_set_takeD)
  then have "set_option a \<union> set_option b \<subseteq> set (destination_rules s)" by (simp add: w)
  then have r: "readable (destination_strings s) (d_attribution_offset r)" if "r \<in> set_option a \<union> set_option b" for r
    using assms that by (auto simp: snapshot_in_bounds_def)
  have l: "match_destination_loop s dst client 0 (destination_rule_count (info s)) (None, None) = Done (a, b)"
    using match_destination_loop_eq [OF assms, of 0 "destination_rule_count (info s)"] assms w
    by (simp add: snapshot_in_bounds_def slice_def)
  show ?thesis
    using r by (auto simp: jg_policy_match_destination_def destination_match_def l w
        lift_result_def destination_selected_def destination_enforcing_def destination_winners_def
        effective_enforcement_eq [OF assms] Let_def split: option.splits)
qed

end
