(* ===== verification/PolicyTable.thy ===== *)
theory PolicyTable
  imports PolicyLookup
begin

text \<open>
  The packed strings and the open-addressing table of \<^verbatim>\<open>src/common/policy.c\<close> implement an index of the
  rules by domain. The locale \<open>domain_index\<close> is that contract; it is interpreted on \<open>slot_for\<close> and the
  rules of a snapshot whose table is well formed, and \<open>snapshot_populate\<close> builds such tables.
\<close>

section \<open>Probing\<close>

text \<open>The probe visits the slots cyclically and returns the first at which it may stop.\<close>

lemma probe_Some_iff:
  assumes "cap = 2 ^ k" and "s < cap"
  shows "probe stop cap s n = Some i \<longleftrightarrow>
    (\<exists>j < n. i = (s + j) mod cap \<and> stop i \<and> (\<forall>j' < j. \<not> stop ((s + j') mod cap)))"
  using assms(2)
proof (induction n arbitrary: s)
  case (Suc n)
  have step: "(s + 1) AND (cap - 1) = (s + 1) mod cap"
    unfolding assms(1) by (rule and_capacity)
  have lt: "(s + 1) mod cap < cap" using Suc.prems by simp
  have shift: "((s + 1) mod cap + j) mod cap = (s + Suc j) mod cap" for j
    by (simp add: mod_add_left_eq)
  show ?case
  proof (cases "stop s")
    case True
    then show ?thesis using Suc.prems by (auto intro!: exI [of _ 0]) (metis add.right_neutral gr0I mod_less)
  next
    case False
    have "(\<exists>j < Suc n. i = (s + j) mod cap \<and> stop i \<and> (\<forall>j' < j. \<not> stop ((s + j') mod cap))) \<longleftrightarrow>
        (\<exists>j < n. i = (s + Suc j) mod cap \<and> stop i \<and> (\<forall>j' < Suc j. \<not> stop ((s + j') mod cap)))"
      using False Suc.prems by (subst Ex_less_Suc2) auto
    also have "\<dots> \<longleftrightarrow> (\<exists>j < n. i = (s + Suc j) mod cap \<and> stop i \<and> (\<forall>j' < j. \<not> stop ((s + Suc j') mod cap)))"
      using False Suc.prems by (simp add: All_less_Suc2)
    finally show ?thesis
      using False Suc.IH [OF lt] by (simp add: step [simplified] shift [simplified])
  qed
qed simp

lemma probe_None_iff:
  assumes "cap = 2 ^ k" and "s < cap"
  shows "probe stop cap s n = None \<longleftrightarrow> (\<forall>j < n. \<not> stop ((s + j) mod cap))"
  using assms(2)
proof (induction n arbitrary: s)
  case (Suc n)
  have step: "(s + 1) AND (cap - 1) = (s + 1) mod cap"
    unfolding assms(1) by (rule and_capacity)
  have lt: "(s + 1) mod cap < cap" using Suc.prems by simp
  have shift: "((s + 1) mod cap + j) mod cap = (s + Suc j) mod cap" for j
    by (simp add: mod_add_left_eq)
  show ?case
    using Suc.prems Suc.IH [OF lt] by (simp add: step [simplified] shift [simplified] All_less_Suc2)
qed simp

text \<open>Every slot is on the cycle from every start.\<close>

lemma cycle_covers: "i < cap \<Longrightarrow> s < cap \<Longrightarrow> \<exists>j < cap. i = (s + j) mod (cap :: nat)"
proof (cases "s \<le> i")
  case True
  assume "i < cap" "s < cap"
  with True show ?thesis by (intro exI [of _ "i - s"]) auto
next
  case False
  assume "i < cap" "s < cap"
  with False have "(s + (cap - s + i)) mod cap = i" by simp
  with False \<open>i < cap\<close> \<open>s < cap\<close> show ?thesis by (intro exI [of _ "cap - s + i"]) auto
qed

section \<open>The packed strings\<close>

definition stored_as :: "bytes \<Rightarrow> stored_rule \<Rightarrow> build_rule \<Rightarrow> bool" where
  "stored_as area s r \<longleftrightarrow> (\<exists>c. s = store_rule c r)
     \<and> cstring area (r_domain_offset s) = b_domain r
     \<and> cstring area (r_attribution_offset s) = b_attribution r
     \<and> readable area (r_domain_offset s) \<and> readable area (r_attribution_offset s)"

lemma cstring_at:
  assumes "unat off = length pre" and "0 \<notin> set s"
  shows "cstring (pre @ s @ 0 # post) off = s"
  using assms by (auto simp: cstring_def takeWhile_append takeWhile_eq_all_conv)

lemma readable_at: "unat off = length pre \<Longrightarrow> readable (pre @ s @ 0 # post) off"
  by (simp add: readable_def)

lemma unat_offset: "n \<le> UINT32_MAX \<Longrightarrow> unat (of_nat n :: u32) = n"
  by (simp add: unat_of_nat UINT32_MAX_def)

lemma store_rules_area: "store_rules brs area = (stored, area') \<Longrightarrow> \<exists>more. area' = area @ more"
proof (induction brs arbitrary: area stored)
  case (Cons r brs)
  then show ?case by (force split: prod.splits)
qed simp

lemma store_rules_stored:
  assumes "store_rules brs area = (stored, area')" and "length area' \<le> UINT32_MAX"
    and "\<And>r. r \<in> set brs \<Longrightarrow> 0 \<notin> set (b_domain r) \<and> 0 \<notin> set (b_attribution r)"
  shows "list_all2 (stored_as area') stored brs"
  using assms
proof (induction brs arbitrary: area stored)
  case (Cons r brs)
  let ?a = "area @ b_domain r @ [0] @ b_attribution r @ [0]"
  obtain st where st: "store_rules brs ?a = (st, area')" "stored = store_rule (length area) r # st"
    using Cons.prems(1) by (auto split: prod.splits)
  obtain more where more: "area' = ?a @ more"
    using store_rules_area [OF st(1)] by blast
  have len: "length area + length (b_domain r) + 1 \<le> UINT32_MAX"
    using Cons.prems(2) more by simp
  have "cstring area' (of_nat (length area)) = b_domain r"
    unfolding more
    using cstring_at [OF unat_offset [of "length area"], of "b_domain r" "b_attribution r @ [0] @ more"]
      len Cons.prems(3) [of r] by simp
  moreover have "cstring area' (of_nat (length area + length (b_domain r) + 1)) = b_attribution r"
    unfolding more
    using cstring_at [of _ "area @ b_domain r @ [0]", OF trans [OF unat_offset [OF len]], of "b_attribution r" more]
      Cons.prems(3) [of r] by simp
  moreover have "readable area' (of_nat (length area))"
    "readable area' (of_nat (length area + length (b_domain r) + 1))"
    unfolding more
    using readable_at [OF unat_offset [of "length area"], of "b_domain r" "b_attribution r @ [0] @ more"]
      readable_at [of _ "area @ b_domain r @ [0]", OF trans [OF unat_offset [OF len]], of "b_attribution r" more]
      len by simp_all
  ultimately have "stored_as area' (store_rule (length area) r) r"
    by (auto simp: stored_as_def store_rule_def)
  then show ?case using Cons.IH [OF st(1)] Cons.prems st(2) by simp
qed simp

lemma store_rules_length:
  "store_rules brs area = (stored, area') \<Longrightarrow>
   length area' = length area + (\<Sum>r\<leftarrow>brs. length (b_domain r) + 1 + (length (b_attribution r) + 1))"
proof (induction brs arbitrary: area stored)
  case (Cons r brs)
  then show ?case by (force split: prod.splits)
qed simp

lemma measure_rules_Cons_Done:
  assumes "measure_rules prev (r # brs) s u = Done (s', u')" and "s \<le> SIZE_MAX"
  defines "s2 \<equiv> s + (length (b_domain r) + 1 + (length (b_attribution r) + 1))"
  shows "s2 \<le> UINT32_MAX \<and> measure_rules (Some (b_domain r)) brs s2
      (if prev = Some (b_domain r) then u else u + 1) = Done (s', u')"
proof -
  obtain s1 s3 where "jg_size_add s (length (b_domain r) + 1) = Some s1"
    "jg_size_add s1 (length (b_attribution r) + 1) = Some s3" "s3 \<le> UINT32_MAX"
    "measure_rules (Some (b_domain r)) brs s3
      (if prev = None \<or> strcmp (the prev) (b_domain r) \<noteq> 0 then u + 1 else u) = Done (s', u')"
    using assms(1) by (auto split: if_splits)
  moreover from this have "s1 = s + (length (b_domain r) + 1)" "s1 \<le> SIZE_MAX"
    using assms(2) by (simp_all add: jg_size_add_Some_iff)
  moreover from calculation have "s3 = s1 + (length (b_attribution r) + 1)"
    by (simp add: jg_size_add_Some_iff)
  ultimately show ?thesis by (cases prev) (auto simp: s2_def add.assoc)
qed

lemma measure_rules_Done:
  assumes "measure_rules prev brs s u = Done (s', u')" and "s \<le> UINT32_MAX"
  shows "s' = s + (\<Sum>r\<leftarrow>brs. length (b_domain r) + 1 + (length (b_attribution r) + 1)) \<and> s' \<le> UINT32_MAX
    \<and> u' + (if brs \<noteq> [] \<and> prev = Some (b_domain (hd brs)) then 1 else 0)
      = u + length (remdups_adj (map b_domain brs))"
  using assms
proof (induction brs arbitrary: prev s u)
  case (Cons r brs)
  let ?s = "s + (length (b_domain r) + 1 + (length (b_attribution r) + 1))"
  have "s \<le> SIZE_MAX" using Cons.prems(2) by (simp add: UINT32_MAX_def SIZE_MAX_def)
  from measure_rules_Cons_Done [OF Cons.prems(1) this]
  have "?s \<le> UINT32_MAX" "measure_rules (Some (b_domain r)) brs ?s
      (if prev = Some (b_domain r) then u else u + 1) = Done (s', u')" by auto
  from Cons.IH [OF this(2,1)] show ?case
    by (cases brs) (auto simp: remdups_adj_Cons split: list.splits)
qed simp

section \<open>Groups of equal domains\<close>

abbreviation rule_domain :: "bytes \<Rightarrow> stored_rule \<Rightarrow> bytes" where
  "rule_domain area r \<equiv> cstring area (r_domain_offset r)"

lemma group_end_eq:
  "group_end area stored d i =
   i + length (takeWhile (\<lambda>r. rule_domain area r = d) (drop i stored))"
proof (induction area stored d i rule: group_end.induct)
  case (1 area stored d i)
  show ?case
  proof (cases "i < length stored \<and> rule_domain area (stored ! i) = d")
    case True
    then have "drop i stored = stored ! i # drop (i + 1) stored"
      by (simp add: Cons_nth_drop_Suc)
    with True 1 show ?thesis by (subst group_end.simps) auto
  next
    case False
    then have "takeWhile (\<lambda>r. rule_domain area r = d) (drop i stored) = []"
      by (cases "drop i stored") (auto simp: nth_via_drop dest: nth_via_drop)
    with False show ?thesis by (subst group_end.simps) auto
  qed
qed

lemma sorted_filter_takeWhile:
  fixes f :: "'a \<Rightarrow> 'k :: linorder"
  assumes "sorted (map f (xs @ ys))" and "d \<notin> f ` set xs" and "ys \<noteq> []" and "f (hd ys) = d"
  shows "filter (\<lambda>x. f x = d) (xs @ ys) = takeWhile (\<lambda>x. f x = d) ys"
    and "d \<notin> f ` set (dropWhile (\<lambda>x. f x = d) ys)"
proof -
  have none: "d \<notin> f ` set zs" if "zs = dropWhile (\<lambda>x. f x = d) ys" for zs
  proof (cases zs)
    case (Cons z zs')
    have "f z \<noteq> d" using Cons that by (metis (mono_tags, lifting) dropWhile_eq_Cons_conv)
    have "takeWhile (\<lambda>x. f x = d) ys @ z # zs' = ys" using Cons that by (metis takeWhile_dropWhile_id)
    then have "sorted (map f (takeWhile (\<lambda>x. f x = d) ys @ z # zs'))"
      using assms(1) by (simp add: sorted_append)
    moreover have "hd ys \<in> set (takeWhile (\<lambda>x. f x = d) ys)"
      using assms(3,4) by (cases ys) auto
    ultimately have "d \<le> f z" "\<forall>y \<in> set zs'. f z \<le> f y"
      using assms(4) by (auto simp: sorted_append)
    with \<open>f z \<noteq> d\<close> Cons show ?thesis by force
  qed simp
  then show "d \<notin> f ` set (dropWhile (\<lambda>x. f x = d) ys)" by simp
  have "filter (\<lambda>x. f x = d) (takeWhile (\<lambda>x. f x = d) ys @ dropWhile (\<lambda>x. f x = d) ys)
      = takeWhile (\<lambda>x. f x = d) ys"
  proof -
    have "filter (\<lambda>x. f x = d) (takeWhile (\<lambda>x. f x = d) ys) = takeWhile (\<lambda>x. f x = d) ys"
      by (auto simp: filter_id_conv dest: set_takeWhileD)
    moreover have "filter (\<lambda>x. f x = d) (dropWhile (\<lambda>x. f x = d) ys) = []"
      using none [OF refl] by (auto simp: filter_empty_conv)
    ultimately show ?thesis unfolding filter_append by simp
  qed
  moreover have "filter (\<lambda>x. f x = d) xs = []"
    using assms(2) by (auto simp: filter_empty_conv)
  ultimately show "filter (\<lambda>x. f x = d) (xs @ ys) = takeWhile (\<lambda>x. f x = d) ys" by simp
qed

section \<open>Well-formed tables\<close>

definition home :: "'e policy_environment_scheme \<Rightarrow> bytes \<Rightarrow> nat \<Rightarrow> bytes \<Rightarrow> nat" where
  "home env key cap d = unat (domain_hash env key d) AND (cap - 1)"

definition slot_group :: "stored_rule list \<Rightarrow> policy_slot \<Rightarrow> stored_rule list" where
  "slot_group stored s = slice (unat (s_first_rule s)) (unat (s_rule_count s)) stored"

definition slot_domain :: "bytes \<Rightarrow> stored_rule list \<Rightarrow> policy_slot \<Rightarrow> bytes" where
  "slot_domain area stored s = rule_domain area (stored ! unat (s_first_rule s))"

text \<open>
  An occupied slot holds the hash of its domain and all rules of that domain, and every slot between
  the home of the domain and this one is occupied too.
\<close>

definition slot_ok where
  "slot_ok env key area stored tab j \<longleftrightarrow> (let s = tab ! j; d = slot_domain area stored s in
     s_hash s = domain_hash env key d \<and> slot_in_range stored s
     \<and> slot_group stored s = filter (\<lambda>r. rule_domain area r = d) stored
     \<and> (\<exists>k < length tab. j = (home env key (length tab) d + k) mod length tab
          \<and> (\<forall>k' < k. s_occupied (tab ! ((home env key (length tab) d + k') mod length tab)))))"

definition occupied_slots :: "policy_slot list \<Rightarrow> nat set" where
  "occupied_slots tab = {j. j < length tab \<and> s_occupied (tab ! j)}"

definition table_ok where
  "table_ok env key area stored tab domains \<longleftrightarrow>
     (\<forall>j \<in> occupied_slots tab. slot_ok env key area stored tab j)
     \<and> (slot_domain area stored \<circ> nth tab) ` occupied_slots tab = domains
     \<and> card (occupied_slots tab) = card domains"

lemma home_less: "cap = 2 ^ k \<Longrightarrow> home env key cap d < cap"
  unfolding home_def by (simp only: and_capacity) simp

lemma finite_occupied [simp]: "finite (occupied_slots tab)"
  by (simp add: occupied_slots_def)

lemma occupied_insert:
  "i < length tab \<Longrightarrow> s_occupied s \<Longrightarrow> occupied_slots (tab[i := s]) = insert i (occupied_slots tab)"
  by (auto simp: occupied_slots_def nth_list_update)

text \<open>Occupying a free slot keeps the other slots well formed.\<close>

lemma slot_ok_update:
  assumes "slot_ok env key area stored tab j" and "j \<noteq> i" and "s_occupied s"
  shows "slot_ok env key area stored (tab[i := s]) j"
proof -
  have "s_occupied (tab[i := s] ! x)" if "s_occupied (tab ! x)" for x
    using that assms(3) by (cases "x = i"; cases "i < length tab") (auto simp: list_update_beyond)
  then show ?thesis using assms(1,2) unfolding slot_ok_def Let_def by auto
qed

lemma table_ok_insert:
  assumes ok: "table_ok env key area stored tab domains" and cap: "length tab = 2 ^ k"
    and full: "card domains < length tab" and new: "d \<notin> domains"
    and s: "s_occupied s" "slot_domain area stored s = d" "s_hash s = domain_hash env key d"
      "slot_group stored s = filter (\<lambda>r. rule_domain area r = d) stored" "slot_in_range stored s"
  shows "\<exists>i. probe (\<lambda>i. \<not> s_occupied (tab ! i)) (length tab) (home env key (length tab) d) (length tab) = Some i
    \<and> table_ok env key area stored (tab[i := s]) (insert d domains)"
proof -
  let ?n = "length tab" and ?h = "home env key (length tab) d"
  let ?p = "probe (\<lambda>i. \<not> s_occupied (tab ! i)) ?n ?h ?n"
  have h: "?h < ?n" using home_less [OF cap] .
  have dom: "finite domains" "card (occupied_slots tab) = card domains"
    using ok by (auto simp: table_ok_def)
  then have "occupied_slots tab \<noteq> {..<?n}" using full by force
  then obtain f where "f < ?n" "\<not> s_occupied (tab ! f)" by (auto simp: occupied_slots_def)
  moreover from cycle_covers [OF \<open>f < ?n\<close> h] obtain j where "j < ?n" "f = (?h + j) mod ?n" by blast
  ultimately have "j < ?n" "\<not> s_occupied (tab ! ((?h + j) mod ?n))" by simp_all
  then have "?p \<noteq> None" unfolding probe_None_iff [OF cap h] by blast
  then obtain i where i: "?p = Some i" by blast
  obtain j where j: "j < ?n" "i = (?h + j) mod ?n" "\<not> s_occupied (tab ! i)"
    "\<forall>j' < j. s_occupied (tab ! ((?h + j') mod ?n))"
    using i unfolding probe_Some_iff [OF cap h] by blast
  have lt: "i < ?n" using j(2) h by (cases "?n = 0") simp_all
  have occ: "occupied_slots (tab[i := s]) = insert i (occupied_slots tab)"
    using occupied_insert [OF lt s(1)] .
  have new_i: "i \<notin> occupied_slots tab" using j(3) by (simp add: occupied_slots_def)
  have other: "s_occupied (tab[i := s] ! x)" if "s_occupied (tab ! x)" for x
    using that s(1) lt by (cases "x = i") auto
  have "slot_ok env key area stored (tab[i := s]) i"
    unfolding slot_ok_def Let_def using lt s j other by (auto intro!: exI [of _ j])
  moreover have "slot_ok env key area stored (tab[i := s]) x" if "x \<in> occupied_slots tab" for x
  proof -
    have "x \<noteq> i" using that new_i by blast
    then show ?thesis using that ok by (intro slot_ok_update [OF _ _ s(1)]) (simp_all add: table_ok_def)
  qed
  moreover have "(slot_domain area stored \<circ> nth (tab[i := s])) ` occupied_slots (tab[i := s])
      = insert d domains"
  proof -
    have "(slot_domain area stored \<circ> nth (tab[i := s])) ` occupied_slots tab
        = (slot_domain area stored \<circ> nth tab) ` occupied_slots tab"
      using new_i by (intro image_cong refl) (metis comp_apply nth_list_update_neq)
    then show ?thesis using ok s(2) lt unfolding occ table_ok_def by simp
  qed
  moreover have "card (occupied_slots (tab[i := s])) = card (insert d domains)"
    unfolding occ using new_i new dom by simp
  ultimately have "table_ok env key area stored (tab[i := s]) (insert d domains)"
    unfolding table_ok_def occ by blast
  with i show ?thesis by blast
qed

text \<open>The groups at the boundary \<open>i\<close> of sorted rules.\<close>

lemma group_at:
  fixes area stored i
  defines "d \<equiv> rule_domain area (stored ! i)"
  defines "e \<equiv> group_end area stored d (i + 1)"
  assumes sorted: "sorted (map (rule_domain area) stored)" and i: "i < length stored"
    and new: "d \<notin> rule_domain area ` set (take i stored)"
  shows "i < e" "e \<le> length stored" "slice i (e - i) stored = filter (\<lambda>r. rule_domain area r = d) stored"
    "rule_domain area ` set (take e stored) = insert d (rule_domain area ` set (take i stored))"
    "e < length stored \<Longrightarrow> rule_domain area (stored ! e) \<notin> rule_domain area ` set (take e stored)"
proof -
  let ?P = "\<lambda>r. rule_domain area r = d"
  have drop: "drop i stored = stored ! i # drop (i + 1) stored"
    using i by (simp add: Cons_nth_drop_Suc)
  have tw: "takeWhile ?P (drop i stored) = stored ! i # takeWhile ?P (drop (i + 1) stored)"
    unfolding drop by (simp add: d_def)
  then have e: "e = i + length (takeWhile ?P (drop i stored))"
    by (simp add: e_def group_end_eq)
  show "i < e" using tw e by simp
  show le: "e \<le> length stored"
    using length_takeWhile_le [of ?P "drop i stored"] i unfolding e by simp
  have group: "slice i (e - i) stored = takeWhile ?P (drop i stored)"
    unfolding e slice_def by (simp add: takeWhile_eq_take [symmetric])
  have split: "filter ?P (take i stored @ drop i stored) = takeWhile ?P (drop i stored)"
    "d \<notin> rule_domain area ` set (dropWhile ?P (drop i stored))"
    using sorted_filter_takeWhile [of "rule_domain area" "take i stored" "drop i stored" d] sorted new i
    by (simp_all add: hd_drop_conv_nth d_def)
  show "slice i (e - i) stored = filter ?P stored" using group split(1) by simp
  have take_e: "take e stored = take i stored @ takeWhile ?P (drop i stored)"
  proof -
    have "take (i + (e - i)) stored = take i stored @ slice i (e - i) stored"
      by (simp only: slice_def take_add)
    then show ?thesis using \<open>i < e\<close> group by simp
  qed
  have "rule_domain area ` set (takeWhile ?P (drop i stored)) = {d}"
    using tw by (auto simp: d_def dest: set_takeWhileD)
  then show dom: "rule_domain area ` set (take e stored) = insert d (rule_domain area ` set (take i stored))"
    unfolding take_e set_append image_Un by simp
  show "rule_domain area (stored ! e) \<notin> rule_domain area ` set (take e stored)" if lt: "e < length stored"
  proof
    have "dropWhile ?P (drop i stored) = drop e stored"
      unfolding e by (simp add: dropWhile_eq_drop add.commute)
    then have "stored ! e \<in> set (dropWhile ?P (drop i stored))"
      using lt by (simp add: Cons_nth_drop_Suc [symmetric])
    then have ne: "rule_domain area (stored ! e) \<noteq> d" using split(2) by auto
    assume "rule_domain area (stored ! e) \<in> rule_domain area ` set (take e stored)"
    with ne dom obtain r where r: "r \<in> set (take i stored)" "rule_domain area (stored ! e) = rule_domain area r"
      by auto
    have mono: "rule_domain area (stored ! a) \<le> rule_domain area (stored ! b)"
      if "a \<le> b" "b < length stored" for a b
      using sorted_nth_mono [OF sorted, of a b] that by simp
    from r(1) obtain a where a: "a < i" "r = stored ! a" using i by (auto simp: in_set_conv_nth)
    have "rule_domain area r \<le> d" unfolding a(2) d_def using mono [of a i] a(1) i by simp
    moreover have "d \<le> rule_domain area (stored ! e)" unfolding d_def using mono [of i e] lt \<open>i < e\<close> by simp
    ultimately show False using r(2) ne by simp
  qed
qed

lemma fill_table_ok:
  assumes "sorted (map (rule_domain area) stored)" and "length stored \<le> UINT32_MAX"
    and "length tab = 2 ^ k" and "card (rule_domain area ` set stored) \<le> length tab"
    and "i \<le> length stored"
    and "i < length stored \<Longrightarrow> rule_domain area (stored ! i) \<notin> rule_domain area ` set (take i stored)"
    and "table_ok env key area stored tab (rule_domain area ` set (take i stored))"
  shows "ensures (fill_table env key area stored tab i) (\<lambda>tab'. length tab' = length tab
    \<and> table_ok env key area stored tab' (rule_domain area ` set stored))"
  using assms
proof (induction env key area stored tab i rule: fill_table.induct)
  case (1 env key area stored tab i)
  show ?case
  proof (cases "i < length stored")
    case False
    then show ?thesis using 1 by (subst fill_table.simps) simp
  next
    case True
    define d where "d = rule_domain area (stored ! i)"
    define e where "e = group_end area stored d (i + 1)"
    define D where "D = rule_domain area ` set (take i stored)"
    define s where "s = \<lparr>s_hash = domain_hash env key d, s_first_rule = of_nat i,
      s_rule_count = of_nat (e - i), s_occupied = True\<rparr>"
    have new: "d \<notin> D" using 1(7) True by (simp add: d_def D_def)
    note g = group_at [OF 1(2) True, folded d_def e_def, folded D_def, OF new]
    have "insert d D \<subseteq> rule_domain area ` set stored"
      using True by (auto simp: d_def D_def dest: in_set_takeD)
    then have "card (insert d D) \<le> card (rule_domain area ` set stored)" by (intro card_mono) auto
    then have full: "card D < length tab" using new 1(5) by (simp add: D_def)
    have u: "unat (of_nat i :: u32) = i" "unat (of_nat (e - i) :: u32) = e - i"
      using 1(3) True g(1,2) by (intro unat_offset; linarith)+
    have sl: "s_occupied s" "slot_domain area stored s = d" "s_hash s = domain_hash env key d"
      "slot_group stored s = filter (\<lambda>r. rule_domain area r = d) stored" "slot_in_range stored s"
      using u g(1-3) by (simp_all add: s_def slot_domain_def slot_group_def slot_in_range_def d_def)
    have ok: "table_ok env key area stored tab D" using 1(8) by (simp add: D_def)
    from table_ok_insert [OF ok 1(4) full new sl] obtain x where
      x: "probe (\<lambda>i. \<not> s_occupied (tab ! i)) (length tab) (home env key (length tab) d) (length tab) = Some x"
      "table_ok env key area stored (tab[x := s]) (insert d D)" by blast
    have "ensures (fill_table env key area stored (tab[x := s]) e)
        (\<lambda>tab'. length tab' = length (tab[x := s]) \<and> table_ok env key area stored tab' (rule_domain area ` set stored))"
      unfolding s_def
    proof (rule "1.IH" [OF True d_def [symmetric, THEN sym] refl e_def refl])
      show "raw (probe (\<lambda>i. \<not> s_occupied (tab ! i)) (length tab)
          (unat (domain_hash env key d) AND (length tab - 1)) (length tab)) = Done x"
        using x(1) by (simp add: home_def)
    qed (use 1 g x(2) in \<open>simp_all add: s_def\<close>)
    then show ?thesis
      using True x(1) by (subst fill_table.simps)
        (simp add: Let_def d_def [symmetric] e_def s_def home_def)
  qed
qed

section \<open>The index of a snapshot\<close>

text \<open>
  The contract: the index returns the entries of a domain. What follows for a client is that walking
  a name and its suffixes behind the dots meets exactly the entries whose domain is the name or a
  parent of it.
\<close>

function candidates :: "bytes \<Rightarrow> bytes list" where
  "candidates d = d # (case strchr_dot d of None \<Rightarrow> [] | Some rest \<Rightarrow> candidates rest)"
  by pat_completeness auto
termination by (relation "measure length") (auto dest: strchr_dot_length)

declare candidates.simps [simp del]

lemma strchr_dot_append [simp]: "dot \<notin> set p \<Longrightarrow> strchr_dot (p @ dot # rest) = Some rest"
  unfolding strchr_dot_def by (subst dropWhile_append2) auto

lemma strchr_dot_none [simp]: "dot \<notin> set s \<Longrightarrow> strchr_dot s = None"
proof -
  assume "dot \<notin> set s"
  then have "dropWhile (\<lambda>c. c \<noteq> dot) s = []" by (auto simp: dropWhile_eq_Nil_conv)
  then show ?thesis unfolding strchr_dot_def by (simp only: list.case)
qed

lemma strchr_dot_Some_iff: "strchr_dot s = Some rest \<longleftrightarrow> (\<exists>p. dot \<notin> set p \<and> s = p @ dot # rest)"
proof (cases "dot \<in> set s")
  case True
  then obtain p q where "s = p @ dot # q" "dot \<notin> set p" using split_list_first by metis
  then show ?thesis by (metis option.inject strchr_dot_append)
qed auto

lemma strchr_dot_None_iff: "strchr_dot s = None \<longleftrightarrow> dot \<notin> set s"
proof (cases "dot \<in> set s")
  case True
  then obtain p q where "s = p @ dot # q" "dot \<notin> set p" using split_list_first by metis
  then show ?thesis by auto
qed simp

lemma suffix_behind_dot:
  assumes "strchr_dot d = Some rest"
  shows "(\<exists>p. d = p @ dot # x) \<longleftrightarrow> x = rest \<or> (\<exists>p. rest = p @ dot # x)"
proof -
  obtain q where q: "dot \<notin> set q" "d = q @ dot # rest"
    using assms strchr_dot_Some_iff by blast
  show ?thesis
  proof
    assume "\<exists>p. d = p @ dot # x"
    then obtain p where "q @ dot # rest = p @ dot # x" using q by auto
    then show "x = rest \<or> (\<exists>p. rest = p @ dot # x)"
      using q(1) by (auto simp: append_eq_append_conv2 Cons_eq_append_conv append_eq_Cons_conv)
  next
    assume "x = rest \<or> (\<exists>p. rest = p @ dot # x)"
    then show "\<exists>p. d = p @ dot # x" unfolding q(2)
      by (elim disjE exE) (auto intro: exI [of _ q] exI [of _ "q @ dot # _"])
  qed
qed

lemma set_candidates: "x \<in> set (candidates d) \<longleftrightarrow> x = d \<or> (\<exists>p. d = p @ dot # x)"
proof (induction d rule: candidates.induct)
  case (1 d)
  show ?case
  proof (cases "strchr_dot d")
    case None
    then have "dot \<notin> set d" by (simp add: strchr_dot_None_iff)
    with None show ?thesis by (subst candidates.simps) auto
  next
    case (Some rest)
    then show ?thesis
      using 1 [OF Some] suffix_behind_dot [OF Some] by (subst candidates.simps) auto
  qed
qed

locale domain_index =
  fixes wf :: "'s \<Rightarrow> bool" and lookup :: "'s \<Rightarrow> bytes \<Rightarrow> 'r list" and entries :: "'s \<Rightarrow> 'r list"
    and entry_domain :: "'s \<Rightarrow> 'r \<Rightarrow> bytes"
  assumes lookup_eq: "wf s \<Longrightarrow> lookup s d = filter (\<lambda>r. entry_domain s r = d) (entries s)"
begin

lemma lookup_domain: "wf s \<Longrightarrow> r \<in> set (lookup s d) \<Longrightarrow> entry_domain s r = d"
  by (simp add: lookup_eq)

lemma lookup_candidates:
  assumes "wf s"
  shows "(\<exists>c \<in> set (candidates d). r \<in> set (lookup s c)) \<longleftrightarrow>
    r \<in> set (entries s) \<and> (entry_domain s r = d \<or> (\<exists>p. d = p @ dot # entry_domain s r))"
  using assms by (auto simp: lookup_eq set_candidates)

end

definition lookup_group ::
  "'e policy_environment_scheme \<Rightarrow> jg_policy_snapshot \<Rightarrow> bytes \<Rightarrow> stored_rule list" where
  "lookup_group env snapshot d = (case slot_for env snapshot d of
     None \<Rightarrow> [] | Some s \<Rightarrow> slot_group (rules snapshot) s)"

definition index_ok :: "'e policy_environment_scheme \<Rightarrow> jg_policy_snapshot \<Rightarrow> bool" where
  "index_ok env snapshot \<longleftrightarrow>
     (table_capacity snapshot = 0 \<and> rules snapshot = [])
     \<or> ((\<exists>k. table_capacity snapshot = 2 ^ k) \<and> length (table snapshot) = table_capacity snapshot
        \<and> table_ok env (hash_key snapshot) (strings snapshot) (rules snapshot) (table snapshot)
            (rule_domain (strings snapshot) ` set (rules snapshot)))"

lemma index_ok_in_bounds: "index_ok env s \<Longrightarrow> table_in_bounds s"
  by (auto simp: index_ok_def table_in_bounds_def table_ok_def occupied_slots_def slot_ok_def Let_def
      in_set_conv_nth)

lemma lookup_group_eq:
  assumes "index_ok env snapshot"
  shows "lookup_group env snapshot d =
    filter (\<lambda>r. rule_domain (strings snapshot) r = d) (rules snapshot)"
proof (cases "table_capacity snapshot = 0")
  case True
  with assms have "rules snapshot = []" unfolding index_ok_def by auto
  with True show ?thesis by (simp add: lookup_group_def slot_for_def)
next
  case False
  let ?n = "table_capacity snapshot" and ?tab = "table snapshot" and ?area = "strings snapshot"
  let ?key = "hash_key snapshot" and ?D = "rule_domain (strings snapshot) ` set (rules snapshot)"
  from False assms obtain k where cap: "?n = 2 ^ k" and len: "length ?tab = ?n"
    and ok: "table_ok env ?key ?area (rules snapshot) ?tab ?D" unfolding index_ok_def by auto
  let ?h = "home env ?key ?n d"
  let ?stop = "\<lambda>i. let slot = ?tab ! i in if \<not> s_occupied slot then True
    else s_hash slot = domain_hash env ?key d \<and> strcmp (slot_domain ?area (rules snapshot) slot) d = 0"
  have find: "slot_for env snapshot d = (case probe ?stop ?n ?h ?n of None \<Rightarrow> None
      | Some i \<Rightarrow> if \<not> s_occupied (?tab ! i) then None else Some (?tab ! i))"
    using False unfolding slot_for_def home_def slot_domain_def by (simp add: Let_def)
  have h: "?h < ?n" by (rule home_less [OF cap])
  have probe_lt: "i < ?n" if "probe ?stop ?n ?h ?n = Some i" for i
    using that h unfolding probe_Some_iff [OF cap h] by auto
  have hit: "slot_group (rules snapshot) (?tab ! i) = filter (\<lambda>r. rule_domain ?area r = d) (rules snapshot)"
    if "probe ?stop ?n ?h ?n = Some i" "s_occupied (?tab ! i)" for i
  proof -
    have "?stop i" using that(1) unfolding probe_Some_iff [OF cap h] by blast
    then have "slot_domain ?area (rules snapshot) (?tab ! i) = d" using that(2) by (simp add: Let_def)
    moreover have "i \<in> occupied_slots ?tab" using that(2) probe_lt [OF that(1)] len by (simp add: occupied_slots_def)
    ultimately show ?thesis using ok by (auto simp: table_ok_def slot_ok_def Let_def)
  qed
  have found: "\<exists>i. probe ?stop ?n ?h ?n = Some i \<and> s_occupied (?tab ! i)" if "d \<in> ?D"
  proof -
    from that ok have "d \<in> (slot_domain ?area (rules snapshot) \<circ> nth ?tab) ` occupied_slots ?tab"
      by (simp add: table_ok_def)
    then obtain j where j: "j \<in> occupied_slots ?tab" "slot_domain ?area (rules snapshot) (?tab ! j) = d"
      by auto
    with ok have "slot_ok env ?key ?area (rules snapshot) ?tab j" by (simp add: table_ok_def)
    with j(2) obtain m where m: "m < ?n" "j = (?h + m) mod ?n" "s_hash (?tab ! j) = domain_hash env ?key d"
      "\<forall>m' < m. s_occupied (?tab ! ((?h + m') mod ?n))"
      by (auto simp: slot_ok_def Let_def len)
    have stop_j: "?stop ((?h + m) mod ?n)" using m(2,3) j by (simp add: Let_def occupied_slots_def)
    then have "probe ?stop ?n ?h ?n \<noteq> None" using m(1) unfolding probe_None_iff [OF cap h] by blast
    then obtain i where i: "probe ?stop ?n ?h ?n = Some i" by blast
    then obtain m' where m': "i = (?h + m') mod ?n" "\<forall>x < m'. \<not> ?stop ((?h + x) mod ?n)"
      unfolding probe_Some_iff [OF cap h] by blast
    have "m' \<le> m" using m'(2) stop_j not_less by blast
    then have "s_occupied (?tab ! i)"
      using m'(1) m(2,4) j(1) by (cases "m' = m") (auto simp: occupied_slots_def)
    with i show ?thesis by blast
  qed
  show ?thesis
  proof (cases "d \<in> ?D")
    case True
    then show ?thesis using found hit unfolding lookup_group_def find by fastforce
  next
    case False
    then have empty: "filter (\<lambda>r. rule_domain ?area r = d) (rules snapshot) = []"
      by (auto simp: filter_empty_conv)
    show ?thesis
      using hit empty unfolding lookup_group_def find by (auto split: option.splits)
  qed
qed

interpretation table_index: domain_index "index_ok env" "lookup_group env" rules
  "\<lambda>snapshot. rule_domain (strings snapshot)" for env
  by unfold_locales (rule lookup_group_eq)

section \<open>Populating a snapshot\<close>

lemma capacity_loop_ensures:
  "ensures (capacity_loop required k) (\<lambda>cap. (\<exists>k. cap = 2 ^ k) \<and> required \<le> cap)"
proof (induction required k rule: capacity_loop.induct)
  case (1 required k)
  then show ?case by (subst capacity_loop.simps) auto
qed

lemma table_ok_empty: "table_ok env key area stored (replicate n empty_slot) {}"
proof -
  have "occupied_slots (replicate n empty_slot) = {}"
    by (auto simp: occupied_slots_def empty_slot_def)
  then show ?thesis by (simp add: table_ok_def)
qed

lemma card_remdups_adj_sorted:
  fixes xs :: "'a :: linorder list"
  shows "sorted xs \<Longrightarrow> card (set xs) = length (remdups_adj xs)"
proof (induction xs rule: remdups_adj.induct)
  case (3 x y xs)
  show ?case
  proof (cases "x = y")
    case True
    then show ?thesis using 3 by simp
  next
    case False
    then have "x < y" using 3(3) by auto
    then have "x \<notin> set (y # xs)" using 3(3) by auto
    then show ?thesis using 3(2) [OF False] 3(3) False by simp
  qed
qed simp_all

lemma stored_as_domain: "list_all2 (stored_as area) stored brs \<Longrightarrow>
  map (rule_domain area) stored = map b_domain brs"
  by (induction rule: list_all2_induct) (simp_all add: stored_as_def)

lemma snapshot_populate_ensures:
  assumes sorted: "sorted (map b_domain brs)"
    and strings: "\<And>r. r \<in> set brs \<Longrightarrow> 0 \<notin> set (b_domain r) \<and> 0 \<notin> set (b_attribution r)"
    and empty: "rules snapshot = []" "table_capacity snapshot = 0"
  shows "ensures (snapshot_populate env snapshot brs) (\<lambda>s. index_ok env s
    \<and> list_all2 (stored_as (strings s)) (rules s) brs
    \<and> info s = info snapshot \<and> observed_scopes s = observed_scopes snapshot
    \<and> destination_rules s = destination_rules snapshot)"
proof -
  obtain stored area where st: "store_rules brs [] = (stored, area)" by fastforce
  have measured: "length area = ss \<and> ss \<le> UINT32_MAX \<and> u = length (remdups_adj (map b_domain brs))"
    if "measure_rules None brs 0 0 = Done (ss, u)" for ss u
    using measure_rules_Done [OF that] store_rules_length [OF st] by simp
  have stored: "list_all2 (stored_as area) stored brs"
    if "measure_rules None brs 0 0 = Done (ss, u)" for ss u
    using store_rules_stored [OF st] measured [OF that] strings by auto
  have len: "length stored \<le> UINT32_MAX" if "measure_rules None brs 0 0 = Done (ss, u)" for ss u
  proof -
    have "length brs \<le> (\<Sum>r\<leftarrow>brs. length (b_domain r) + 1 + (length (b_attribution r) + 1))"
      by (induction brs) auto
    then show ?thesis
      using measured [OF that] store_rules_length [OF st] list_all2_lengthD [OF stored [OF that]] by simp
  qed
  have nofault: "measure_rules prev bs a b \<noteq> Fault" for prev bs a b
    by (induction bs arbitrary: prev a b) auto
  have fill: "ensures (fill_table env key area stored (replicate cap empty_slot) 0)
      (\<lambda>tab. length tab = cap \<and> table_ok env key area stored tab (rule_domain area ` set stored))"
    if m: "measure_rules None brs 0 0 = Done (ss, u)" and cap: "cap = 2 ^ k" and req: "u * 2 \<le> cap"
    for ss u cap k key
  proof -
    have dom: "map (rule_domain area) stored = map b_domain brs"
      by (rule stored_as_domain [OF stored [OF m]])
    have "card (rule_domain area ` set stored) = u"
      using card_remdups_adj_sorted [OF sorted] measured [OF m] dom by (metis list.set_map)
    then show ?thesis
      using fill_table_ok [of area stored "replicate cap empty_slot" k 0 env key] sorted dom
        len [OF m] cap req by (simp add: table_ok_empty)
  qed
  have table: "ensures (and_then (capacity_loop required 0) (\<lambda>cap.
        and_then (or_fail EOVERFLOW (jg_size_multiply cap 24)) (\<lambda>size.
          if \<not> malloc env size then Fail ENOMEM
          else and_then (fill_table env (hash_key snapshot) area stored (replicate cap empty_slot) 0)
            (\<lambda>tab. Done (snapshot\<lparr>rules := stored, strings := area, table := tab, table_capacity := cap\<rparr>)))))
      (\<lambda>s. index_ok env s \<and> list_all2 (stored_as (strings s)) (rules s) brs
        \<and> info s = info snapshot \<and> observed_scopes s = observed_scopes snapshot
        \<and> destination_rules s = destination_rules snapshot)"
    if m: "measure_rules None brs 0 0 = Done (ss, u)" and "required = u * 2" for ss u required
    unfolding ensures_simps ensures_if
    by (rule ensures_mono [OF capacity_loop_ensures])
      (use that stored [OF m] in \<open>auto simp: index_ok_def intro!: ensures_mono [OF fill [OF m]]\<close>)
  show ?thesis
  proof (cases "measure_rules None brs 0 0")
    case (Done p)
    obtain ss u where p: "p = (ss, u)" by fastforce
    have nil: "stored = []" if "u = 0"
      using measured [of ss u] Done p that st by (cases brs) auto
    show ?thesis
      using Done p stored [of ss u] table [of ss u] nil
      by (auto simp: snapshot_populate_def st empty index_ok_def jg_size_multiply_Some_iff Let_def)
  qed (use nofault in \<open>auto simp: snapshot_populate_def\<close>)
qed

end
