(* ===== verification/PolicyDecision.thy ===== *)
theory PolicyDecision
  imports PolicyTable
begin

text \<open>
  What the matchers of \<^verbatim>\<open>src/common/policy.c\<close> decide. The locale \<open>selection\<close> is the contract of the two
  precedence tests of the code (for domain rules and for destination rules): a candidate replaces the
  current winner exactly when its rank is higher. Its lemmas say that the scanning loops return a rule
  of the highest rank among those that apply. On top of it come the walk over the suffixes of a name
  and the end-to-end statements about a snapshot built from rule inputs.
\<close>

section \<open>Selecting the highest rank\<close>

definition best_in :: "('r \<Rightarrow> 'k :: linorder) \<Rightarrow> 'r set \<Rightarrow> 'r option \<Rightarrow> bool" where
  "best_in rank R best \<longleftrightarrow> (case best of
     None \<Rightarrow> R = {} | Some b \<Rightarrow> b \<in> R \<and> (\<forall>r \<in> R. rank r \<le> rank b))"

lemma best_in_simps [simp]:
  "best_in rank R None \<longleftrightarrow> R = {}"
  "best_in rank R (Some b) \<longleftrightarrow> b \<in> R \<and> (\<forall>r \<in> R. rank r \<le> rank b)"
  by (simp_all add: best_in_def)

lemma best_in_None_iff: "best_in rank R best \<Longrightarrow> best = None \<longleftrightarrow> R = {}"
  by (cases best) auto

definition consider_rule :: "('r \<Rightarrow> 'r option \<Rightarrow> bool) \<Rightarrow> ('r \<Rightarrow> bool) \<Rightarrow> 'r option \<Rightarrow> 'r \<Rightarrow> 'r option" where
  "consider_rule precedes applies best r = (if applies r \<and> precedes r best then Some r else best)"

locale selection =
  fixes precedes :: "'r \<Rightarrow> 'r option \<Rightarrow> bool" and rank :: "'r \<Rightarrow> 'k :: linorder"
  assumes precedes_None: "precedes r None"
    and precedes_Some: "precedes r (Some c) \<longleftrightarrow> rank c < rank r"
begin

lemma consider_best:
  "best_in rank R best \<Longrightarrow>
   best_in rank (if applies r then insert r R else R) (consider_rule precedes applies best r)"
  by (cases best) (auto simp: consider_rule_def precedes_None precedes_Some not_less)

lemma scan_best_from:
  "best_in rank R best \<Longrightarrow>
   best_in rank (R \<union> {r \<in> set rs. applies r}) (foldl (consider_rule precedes applies) best rs)"
proof (induction rs arbitrary: R best)
  case (Cons r rs)
  have "R \<union> {x \<in> set (r # rs). applies x} = (if applies r then insert r R else R) \<union> {x \<in> set rs. applies x}"
    by auto
  then show ?case using Cons.IH [OF consider_best [OF Cons.prems, of applies r]] by simp
qed simp

lemma scan_best: "best_in rank {r \<in> set rs. applies r} (foldl (consider_rule precedes applies) None rs)"
  using scan_best_from [of "{}" None rs applies] by simp

end

definition rule_rank :: "stored_rule \<Rightarrow> nat \<times> int" where
  "rule_rank r = (r_priority r, - uint (r_id r))"

definition destination_rank :: "stored_destination_rule \<Rightarrow> nat \<times> int \<times> int" where
  "destination_rank r = (d_priority r, uint (destination_rule_specificity r), - uint (d_id r))"

interpretation domain_selection: selection domain_rule_precedes rule_rank
  by unfold_locales (auto simp: domain_rule_precedes_def rule_rank_def word_less_def)

interpretation destination_selection: selection destination_rule_precedes destination_rank
  by unfold_locales
    (auto simp: destination_rule_precedes_def destination_rank_def word_less_def
      word_uint_eq_iff)

text \<open>The loops scan twice at once: for the selected and for the enforcing rule.\<close>

definition slot_applies where
  "slot_applies client exact target r \<longleftrightarrow>
     r_target r = target \<and> (exact \<or> r_include_subdomains r) \<and> scope_matches (r_scope r) client"

definition rule_enforced where
  "rule_enforced snapshot client r \<longleftrightarrow>
     enforcement_for snapshot (r_effect r) (r_enforcement r) client = JG_POLICY_ENFORCE"

lemma slot_winners_scan:
  "foldl (slot_step snapshot client exact target) (a, b) rs =
     (foldl (consider_rule domain_rule_precedes (slot_applies client exact target)) a rs,
      foldl (consider_rule domain_rule_precedes
        (\<lambda>r. slot_applies client exact target r \<and> rule_enforced snapshot client r)) b rs)"
  by (induction rs arbitrary: a b)
    (auto simp: slot_step_def consider_rule_def slot_applies_def rule_enforced_def)

lemma slot_winners_best:
  assumes "slot_winners snapshot (slot_for env snapshot d) client exact target = (sel, enf)"
  shows "best_in rule_rank {r \<in> set (lookup_group env snapshot d). slot_applies client exact target r} sel"
    and "best_in rule_rank {r \<in> set (lookup_group env snapshot d). slot_applies client exact target r
      \<and> rule_enforced snapshot client r} enf"
proof -
  let ?rs = "lookup_group env snapshot d"
  have "slot_winners snapshot (slot_for env snapshot d) client exact target =
      foldl (slot_step snapshot client exact target) (None, None) ?rs"
    by (auto simp: slot_winners_def lookup_group_def slot_group_def split: option.splits)
  then have "sel = foldl (consider_rule domain_rule_precedes (slot_applies client exact target)) None ?rs"
    "enf = foldl (consider_rule domain_rule_precedes
      (\<lambda>r. slot_applies client exact target r \<and> rule_enforced snapshot client r)) None ?rs"
    using assms by (simp_all add: slot_winners_scan)
  then show "best_in rule_rank {r \<in> set ?rs. slot_applies client exact target r} sel"
    "best_in rule_rank {r \<in> set ?rs. slot_applies client exact target r \<and> rule_enforced snapshot client r} enf"
    by (simp_all only: domain_selection.scan_best)
qed

section \<open>The walk over the suffixes of a name\<close>

text \<open>Between candidates the longer domain wins at equal priority.\<close>

definition full_rank :: "jg_policy_snapshot \<Rightarrow> stored_rule \<Rightarrow> nat \<times> nat \<times> int" where
  "full_rank snapshot r = (r_priority r, length (rule_domain (strings snapshot) r), - uint (r_id r))"

lemma keep_better_best:
  assumes "best_in (full_rank snapshot) R1 b1" and "best_in rule_rank R2 b2"
    and "\<And>r. r \<in> R2 \<Longrightarrow> rule_domain (strings snapshot) r = d"
    and "\<And>r. r \<in> R1 \<Longrightarrow> length d < length (rule_domain (strings snapshot) r)"
  shows "best_in (full_rank snapshot) (R1 \<union> R2) (keep_better b1 b2)"
proof (cases b2)
  case None
  then show ?thesis using assms(1,2) by (simp add: keep_better_def)
next
  case (Some c)
  have c: "c \<in> R2" "\<forall>r \<in> R2. full_rank snapshot r \<le> full_rank snapshot c"
    using assms(2,3) Some by (auto simp: rule_rank_def full_rank_def)
  show ?thesis
  proof (cases b1)
    case None
    then show ?thesis using Some assms(1) c by (simp add: keep_better_def)
  next
    case (Some b)
    have b: "b \<in> R1" "\<forall>r \<in> R1. full_rank snapshot r \<le> full_rank snapshot b"
      using assms(1) Some by auto
    have "length (rule_domain (strings snapshot) c) < length (rule_domain (strings snapshot) b)"
      using assms(3) [OF c(1)] assms(4) [OF b(1)] by simp
    then have "full_rank snapshot b < full_rank snapshot c \<longleftrightarrow> r_priority b < r_priority c"
      by (auto simp: full_rank_def)
    then show ?thesis
      using b c Some \<open>b2 = Some c\<close> by (auto simp: keep_better_def not_less)
  qed
qed

definition candidate_applies where
  "candidate_applies snapshot client target exact d r \<longleftrightarrow>
     r_target r = target \<and> scope_matches (r_scope r) client
     \<and> (rule_domain (strings snapshot) r = d \<and> (exact \<or> r_include_subdomains r)
        \<or> r_include_subdomains r \<and> (\<exists>p. d = p @ dot # rule_domain (strings snapshot) r))"

lemma candidate_winners_best:
  assumes "index_ok env snapshot"
    and "candidate_winners env snapshot client target d exact sel enf = (sel', enf')"
    and "best_in (full_rank snapshot) R sel" and "best_in (full_rank snapshot) E enf"
    and "\<And>r. r \<in> R \<union> E \<Longrightarrow> length d < length (rule_domain (strings snapshot) r)"
  shows "best_in (full_rank snapshot)
      (R \<union> {r \<in> set (rules snapshot). candidate_applies snapshot client target exact d r}) sel'
    \<and> best_in (full_rank snapshot)
      (E \<union> {r \<in> set (rules snapshot). candidate_applies snapshot client target exact d r
         \<and> rule_enforced snapshot client r}) enf'"
  using assms
proof (induction env snapshot client target d exact sel enf arbitrary: R E
    rule: candidate_winners.induct)
  case (1 env snapshot client target d exact sel enf)
  let ?dom = "rule_domain (strings snapshot)"
  obtain s0 e0 where m: "slot_winners snapshot (slot_for env snapshot d) client exact target = (s0, e0)"
    by fastforce
  define G where "G = {r \<in> set (rules snapshot). ?dom r = d \<and> slot_applies client exact target r}"
  have G: "{r \<in> set (lookup_group env snapshot d). slot_applies client exact target r} = G"
    unfolding G_def table_index.lookup_eq [OF 1(2)] by auto
  define G' where "G' = {r \<in> G. rule_enforced snapshot client r}"
  have G': "{r \<in> set (lookup_group env snapshot d). slot_applies client exact target r
      \<and> rule_enforced snapshot client r} = G'"
    using G unfolding G'_def by auto
  have dom: "\<And>r. r \<in> G \<union> G' \<Longrightarrow> ?dom r = d" by (auto simp: G_def G'_def)
  have s1: "best_in (full_rank snapshot) (R \<union> G) (keep_better sel s0)"
    using keep_better_best [OF 1(4) slot_winners_best(1) [OF m, unfolded G]] dom 1(6) by blast
  have e1: "best_in (full_rank snapshot) (E \<union> G') (keep_better enf e0)"
    using keep_better_best [OF 1(5) slot_winners_best(2) [OF m, unfolded G']] dom 1(6) by blast
  show ?case
  proof (cases "strchr_dot d")
    case None
    then have "(sel', enf') = (keep_better sel s0, keep_better enf e0)"
      using 1(3) m by (subst (asm) candidate_winners.simps) simp
    moreover have "dot \<notin> set d" using None by (simp add: strchr_dot_None_iff)
    then have "{r \<in> set (rules snapshot). candidate_applies snapshot client target exact d r} = G"
      "{r \<in> set (rules snapshot). candidate_applies snapshot client target exact d r
         \<and> rule_enforced snapshot client r} = G'"
      by (auto simp: candidate_applies_def G_def G'_def slot_applies_def)
    ultimately show ?thesis using s1 e1 by simp
  next
    case (Some rest)
    have rec: "candidate_winners env snapshot client target rest False (keep_better sel s0) (keep_better enf e0)
        = (sel', enf')"
      using 1(3) m Some by (subst (asm) candidate_winners.simps) simp
    have longer: "length rest < length (?dom r)" if "r \<in> (R \<union> G) \<union> (E \<union> G')" for r
      using that dom 1(6) strchr_dot_length [OF Some] by fastforce
    have "{r \<in> set (rules snapshot). candidate_applies snapshot client target exact d r}
        = G \<union> {r \<in> set (rules snapshot). candidate_applies snapshot client target False rest r}"
      using suffix_behind_dot [OF Some] by (auto simp: candidate_applies_def G_def slot_applies_def)
    moreover from this
    have "{r \<in> set (rules snapshot). candidate_applies snapshot client target exact d r
         \<and> rule_enforced snapshot client r}
        = G' \<union> {r \<in> set (rules snapshot). candidate_applies snapshot client target False rest r
           \<and> rule_enforced snapshot client r}"
      unfolding G'_def by blast
    ultimately show ?thesis
      using "1.IH" [OF m [symmetric] refl refl refl Some 1(2) rec s1 e1 longer]
      by (simp add: Un_assoc)
  qed
qed

text \<open>Whether a rule of a snapshot applies to a name: to it exactly, or to a name below its domain.\<close>

definition rule_applies where
  "rule_applies snapshot client target d r \<longleftrightarrow>
     r_target r = target \<and> scope_matches (r_scope r) client
     \<and> (rule_domain (strings snapshot) r = d
        \<or> r_include_subdomains r \<and> (\<exists>p. d = p @ dot # rule_domain (strings snapshot) r))"

lemma domain_match_best:
  assumes "index_ok env snapshot" and "domain_match env snapshot d client target = Inr m"
  obtains sel enf where "m = winners_match snapshot client sel enf"
    "best_in (full_rank snapshot) {r \<in> set (rules snapshot). rule_applies snapshot client target d r} sel"
    "best_in (full_rank snapshot) {r \<in> set (rules snapshot). rule_applies snapshot client target d r
       \<and> rule_enforced snapshot client r} enf"
proof -
  obtain sel enf where c: "candidate_winners env snapshot client target d True None None = (sel, enf)"
    by fastforce
  have "candidate_applies snapshot client target True d = rule_applies snapshot client target d"
    by (auto simp: candidate_applies_def rule_applies_def fun_eq_iff)
  then have "best_in (full_rank snapshot) {r \<in> set (rules snapshot). rule_applies snapshot client target d r} sel"
    "best_in (full_rank snapshot) {r \<in> set (rules snapshot). rule_applies snapshot client target d r
       \<and> rule_enforced snapshot client r} enf"
    using candidate_winners_best [OF assms(1) c, of "{}" "{}"] by simp_all
  moreover have "m = winners_match snapshot client sel enf"
    using assms(2) c by (auto simp: domain_match_def split: if_splits)
  ultimately show ?thesis using that by blast
qed

end
