(* ===== verification/PolicyBuild.thy ===== *)
theory PolicyBuild
  imports PolicyDecision
begin

text \<open>
  From rule inputs to verdicts: what \<open>jg_policy_snapshot_build_configured\<close> keeps of its inputs, and the
  end-to-end statements about \<open>domain_match\<close> and \<open>destination_match\<close> on the snapshot
  it builds, in terms of the inputs alone.
\<close>

section \<open>The orders of the prepared rules\<close>

text \<open>The enumerators, on which the numeric codes are injective.\<close>

definition valid_targets where
  "valid_targets = {JG_POLICY_DOMAIN_DNS, JG_POLICY_DOMAIN_TLS_SNI}"

definition valid_sources where
  "valid_sources = {JG_POLICY_SOURCE_BLOCKLIST, JG_POLICY_SOURCE_EXPLICIT, JG_POLICY_SOURCE_EMERGENCY}"

definition valid_effects where
  "valid_effects = {JG_POLICY_ALLOW, JG_POLICY_BLOCK}"

definition valid_enforcements where
  "valid_enforcements = {JG_POLICY_ENFORCE, JG_POLICY_OBSERVE}"

definition valid_families where
  "valid_families = {JG_POLICY_ADDRESS_NONE, JG_POLICY_ADDRESS_IPV4, JG_POLICY_ADDRESS_IPV6}"

definition valid_transports where
  "valid_transports = {JG_POLICY_TRANSPORT_ANY, JG_POLICY_TRANSPORT_TCP, JG_POLICY_TRANSPORT_UDP}"

lemmas enumerators = valid_targets_def valid_sources_def valid_effects_def valid_enforcements_def
  valid_families_def valid_transports_def

lemma code_inject:
  "t \<in> valid_targets \<Longrightarrow> t' \<in> valid_targets \<Longrightarrow> t = t' \<longleftrightarrow> target_code t = target_code t'"
  "s \<in> valid_sources \<Longrightarrow> s' \<in> valid_sources \<Longrightarrow> s = s' \<longleftrightarrow> source_code s = source_code s'"
  "e \<in> valid_effects \<Longrightarrow> e' \<in> valid_effects \<Longrightarrow> e = e' \<longleftrightarrow> effect_code e = effect_code e'"
  "f \<in> valid_enforcements \<Longrightarrow> f' \<in> valid_enforcements \<Longrightarrow>
     f = f' \<longleftrightarrow> enforcement_code f = enforcement_code f'"
  "a \<in> valid_families \<Longrightarrow> a' \<in> valid_families \<Longrightarrow> a = a' \<longleftrightarrow> family_code a = family_code a'"
  "p \<in> valid_transports \<Longrightarrow> p' \<in> valid_transports \<Longrightarrow> p = p' \<longleftrightarrow> transport_code p = transport_code p'"
  by (auto simp: enumerators)

definition build_rule_valid :: "build_rule \<Rightarrow> bool" where
  "build_rule_valid r \<longleftrightarrow> b_target r \<in> valid_targets \<and> b_source r \<in> valid_sources
     \<and> b_effect r \<in> valid_effects \<and> b_enforcement r \<in> valid_enforcements"

definition build_rule_key where
  "build_rule_key r = (b_domain r, b_include_subdomains r, target_code (b_target r),
     source_code (b_source r), effect_code (b_effect r), enforcement_code (b_enforcement r),
     scope_key (b_scope r), b_attribution r, b_id r)"

lemma agrees_scope: "agrees (scope_compare a b) (scope_key a) (scope_key b)"
  using scope_order.cmp_le scope_order.cmp_eq unfolding agrees_def by blast

lemma build_rule_agrees:
  assumes "build_rule_valid a" "build_rule_valid b"
  shows "agrees (build_rule_compare a b) (build_rule_key a) (build_rule_key b)"
  unfolding build_rule_compare_def build_rule_key_def
  using assms by (intro agrees_intros agrees_scope code_inject) (simp_all add: build_rule_valid_def)

interpretation build_rule_order: comparison build_rule_compare build_rule_key build_rule_valid
  by unfold_locales (use build_rule_agrees in \<open>auto simp: agrees_def\<close>)

section \<open>What validation guarantees\<close>

definition scopes_typed :: "jg_policy_rule_input list \<Rightarrow> bool" where
  "scopes_typed inputs \<longleftrightarrow> (\<forall>i \<in> set inputs. scope_typed (in_scope i))"

definition input_valid :: "'e environment_scheme \<Rightarrow> jg_policy_rule_input \<Rightarrow> bool" where
  "input_valid env i \<longleftrightarrow> in_id i \<noteq> 0 \<and> rule_class_valid i
     \<and> (\<exists>s. jg_policy_scope_normalize (in_scope i) = Inr s)
     \<and> (\<exists>d. jg_domain_normalize env (in_domain i) (JG_DOMAIN_NAME_MAX + 1) = Inr d)
     \<and> (\<exists>n. attribution_length (in_attribution i) = Inr n)"

lemma validate_rules_Done:
  "validate_rules env inputs p = Done q \<Longrightarrow> i \<in> set inputs \<Longrightarrow> input_valid env i"
  by (induction inputs arbitrary: p) (auto simp: input_valid_def split: if_splits)

lemma validate_rules_no_fault: "validate_rules env inputs p \<noteq> Fault"
  by (induction inputs arbitrary: p) (auto split: if_splits)

lemma prepare_rules_ensures:
  "ensures (prepare_rules env env' inputs) (\<lambda>prepared.
     prepared = map (fill_rule env') inputs \<and> (\<forall>i \<in> set inputs. input_valid env i))"
  using validate_rules_Done [of env inputs 0] validate_rules_no_fault [of env inputs 0]
  by (auto simp: ensures_def prepare_rules_def split: if_splits)

text \<open>The normalised form of an input.\<close>

definition normal_domain :: "'e environment_scheme \<Rightarrow> jg_policy_rule_input \<Rightarrow> bytes" where
  "normal_domain env i = b_domain (fill_rule env i)"

lemma normal_domain_eq: "input_valid env i \<Longrightarrow>
  jg_domain_normalize env (in_domain i) (JG_DOMAIN_NAME_MAX + 1) = Inr (normal_domain env i)"
  by (auto simp: input_valid_def normal_domain_def fill_rule_def)

lemma normal_domain_policy: "input_valid env i \<Longrightarrow> policy_domain (normal_domain env i)"
  using normal_domain_eq jg_domain_normalize_Inr by blast

lemma attribution_loop_nonzero:
  "attribution_loop k a = Inr n \<Longrightarrow> 0 \<notin> set a"
  by (induction k a rule: attribution_loop.induct) (auto split: if_splits)

lemma policy_domain_nonzero: "policy_domain d \<Longrightarrow> 0 \<notin> set d"
  using policy_domain_bytes [of d 0] by (auto simp: ldh_byte_def)

lemma fill_rule_strings:
  assumes "input_valid env i"
  shows "0 \<notin> set (b_domain (fill_rule env i)) \<and> 0 \<notin> set (b_attribution (fill_rule env i))"
proof -
  have "0 \<notin> set (in_attribution i)"
    using assms by (auto simp: input_valid_def attribution_length_def dest: attribution_loop_nonzero)
  then show ?thesis
    using policy_domain_nonzero [OF normal_domain_policy [OF assms]]
    by (simp add: normal_domain_def) (simp add: fill_rule_def)
qed

lemma class_valid_enums:
  "rule_class_valid i \<Longrightarrow> in_target i \<in> valid_targets \<and> in_source i \<in> valid_sources
   \<and> in_effect i \<in> valid_effects \<and> in_enforcement i \<in> valid_enforcements"
  by (auto simp: enumerators rule_class_valid_def effect_source_valid_def enforcement_valid_def
      split: if_splits jg_policy_source.splits)

lemma fill_rule_valid: "input_valid env i \<Longrightarrow> build_rule_valid (fill_rule env i)"
  using class_valid_enums by (simp add: input_valid_def build_rule_valid_def fill_rule_def)

lemma fill_rule_canonical:
  "input_valid env i \<Longrightarrow> scope_typed (in_scope i) \<Longrightarrow> scope_canonical (b_scope (fill_rule env i))"
  using normalize_scope_canonical by (auto simp: input_valid_def fill_rule_def)

section \<open>What deduplication keeps\<close>

lemma same_content_key:
  assumes "build_rule_same_content a b" and "scope_canonical (b_scope a)" "scope_canonical (b_scope b)"
  shows "b = a\<lparr>b_id := b_id b, b_statistics_id := b_statistics_id b\<rparr>"
  using assms scope_compare_canonical [of "b_scope a" "b_scope b"]
  by (cases a; cases b) (auto simp: build_rule_same_content_def simp del: scope_compare.simps)

lemma retained_rules_props:
  assumes valid: "\<And>r. r \<in> set prepared \<Longrightarrow> build_rule_valid r \<and> scope_canonical (b_scope r)"
  shows "set (retained_rules prepared) \<subseteq> set prepared"
    and "sorted (map b_domain (retained_rules prepared))"
    and "r \<in> set prepared \<Longrightarrow> \<exists>k \<in> set (retained_rules prepared).
      r = k\<lparr>b_id := b_id r, b_statistics_id := b_statistics_id r\<rparr> \<and> b_id k \<le> b_id r"
proof -
  let ?sorted = "if length prepared > 1 then qsort build_rule_compare prepared else prepared"
  have sorted: "sorted (map build_rule_key ?sorted)"
  proof (cases "length prepared > 1")
    case True
    then show ?thesis using build_rule_order.sorted_qsort [of prepared] valid by simp
  next
    case False
    then show ?thesis by (cases prepared) auto
  qed
  have set: "set ?sorted = set prepared"
    using build_rule_order.set_qsort [of prepared] valid by simp
  show sub: "set (retained_rules prepared) \<subseteq> set prepared"
    using retain_subset [of build_rule_same_content ?sorted] set by (simp add: retained_rules_def)
  have keys: "sorted (map build_rule_key (retained_rules prepared))"
    unfolding retained_rules_def by (rule sorted_retain [OF sorted])
  have dom: "build_rule_key a \<le> build_rule_key b \<Longrightarrow> b_domain a \<le> b_domain b" for a b
    by (auto simp: build_rule_key_def)
  show "sorted (map b_domain (retained_rules prepared))"
    using keys unfolding sorted_map by (rule sorted_wrt_mono_rel [rotated]) (use dom in blast)
  show "\<exists>k \<in> set (retained_rules prepared).
      r = k\<lparr>b_id := b_id r, b_statistics_id := b_statistics_id r\<rparr> \<and> b_id k \<le> b_id r"
    if r: "r \<in> set prepared"
  proof -
    have "build_rule_same_content x x" for x
      using scope_order.cmp_eq [of "b_scope x" "b_scope x"] by (simp add: build_rule_same_content_def)
    then obtain k where k: "k \<in> set (retained_rules prepared)" "build_rule_same_content k r"
      "build_rule_key k \<le> build_rule_key r"
      using retain_covers_below [of ?sorted build_rule_same_content r build_rule_key] set sorted r
      by (auto simp: retained_rules_def)
    have eq: "r = k\<lparr>b_id := b_id r, b_statistics_id := b_statistics_id r\<rparr>"
      using same_content_key [OF k(2)] valid sub k(1) r by blast
    have "b_id k \<le> b_id r"
    proof -
      have "build_rule_key (k\<lparr>b_id := b_id r, b_statistics_id := b_statistics_id r\<rparr>) = build_rule_key r"
        using eq by simp
      then have "build_rule_key r = (b_domain k, b_include_subdomains k, target_code (b_target k),
         source_code (b_source k), effect_code (b_effect k), enforcement_code (b_enforcement k),
         scope_key (b_scope k), b_attribution k, b_id r)"
        by (simp add: build_rule_key_def)
      with k(3) show ?thesis by (simp add: build_rule_key_def)
    qed
    with eq k(1) show ?thesis by blast
  qed
qed

section \<open>Observe-only clients\<close>

definition config_typed :: "jg_policy_enforcement_config option \<Rightarrow> bool" where
  "config_typed config \<longleftrightarrow> (\<forall>c. config = Some c \<longrightarrow> (\<forall>s \<in> set (conf_observed_scopes c). scope_typed s))"

definition client_opt_typed :: "jg_policy_client option \<Rightarrow> bool" where
  "client_opt_typed client \<longleftrightarrow> (\<forall>c. client = Some c \<longrightarrow> client_typed c)"

text \<open>Which clients a configuration puts in observe-only mode.\<close>

definition config_observes :: "jg_policy_enforcement_config option \<Rightarrow> jg_policy_client option \<Rightarrow> bool" where
  "config_observes config client \<longleftrightarrow> (\<exists>c. config = Some c \<and>
     (conf_global c = JG_POLICY_OBSERVE \<or> (\<exists>s \<in> set (conf_observed_scopes c). scope_covers s client)))"

definition enforcement_ok ::
  "jg_policy_enforcement_config option \<Rightarrow> jg_policy_snapshot \<Rightarrow> bool" where
  "enforcement_ok config snapshot \<longleftrightarrow>
     observed_scope_count (info snapshot) = length (observed_scopes snapshot)
     \<and> (\<forall>client. client_opt_typed client \<longrightarrow>
          (observes_client snapshot client \<longleftrightarrow> config_observes config client))"

lemma normalize_observed_ensures:
  "ensures (normalize_observed scopes)
     (list_all2 (\<lambda>s n. jg_policy_scope_normalize s = Inr n) scopes)"
proof (induction scopes)
  case (Cons s scopes)
  then show ?case by (auto simp: intro: ensures_mono)
qed simp

lemma set_retained_scopes:
  assumes "\<And>s. s \<in> set scopes \<Longrightarrow> scope_canonical s"
  shows "set (retained_scopes scopes) = set scopes"
proof
  let ?sorted = "if length scopes > 1 then qsort scope_compare scopes else scopes"
  have set: "set ?sorted = set scopes" using scope_order.set_qsort [of scopes] by simp
  show sub: "set (retained_scopes scopes) \<subseteq> set scopes"
    using retain_subset [of "\<lambda>a b. scope_compare a b = 0" ?sorted] set by (simp add: retained_scopes_def)
  show "set scopes \<subseteq> set (retained_scopes scopes)"
  proof
    fix s assume s: "s \<in> set scopes"
    have "sorted (map (\<lambda>_. 0 :: nat) ?sorted)" by (simp add: map_replicate_const)
    moreover have "scope_compare x x = 0" for x using scope_order.cmp_eq by blast
    ultimately obtain k where k: "k \<in> set (retained_scopes scopes)" "scope_compare k s = 0"
      using retain_covers_below [of ?sorted "\<lambda>a b. scope_compare a b = 0" s "\<lambda>_. 0 :: nat"] set s
      unfolding retained_scopes_def by blast
    then show "s \<in> set (retained_scopes scopes)"
      using scope_compare_canonical [of k s] assms sub s by auto
  qed
qed

lemma snapshot_populate_enforcement_ensures:
  assumes "config_typed config" and "observed_scopes snapshot = []"
    and "observed_scope_count (info snapshot) = 0"
  shows "ensures (snapshot_populate_enforcement env snapshot config) (\<lambda>s. enforcement_ok config s
    \<and> rules s = rules snapshot \<and> table_capacity s = table_capacity snapshot
    \<and> destination_rules s = destination_rules snapshot
    \<and> destination_rule_count (info s) = destination_rule_count (info snapshot))"
proof (cases config)
  case None
  then show ?thesis
    using assms(2,3) by (simp add: snapshot_populate_enforcement_def enforcement_ok_def
        observes_client_def config_observes_def)
next
  case (Some c)
  have obs: "(\<exists>n \<in> set (retained_scopes ns). scope_matches n client)
      \<longleftrightarrow> (\<exists>s \<in> set (conf_observed_scopes c). scope_covers s client)"
    if ns: "list_all2 (\<lambda>s n. jg_policy_scope_normalize s = Inr n) (conf_observed_scopes c) ns"
      and client: "client_opt_typed client" for ns client
  proof -
    have "\<forall>n \<in> set ns. \<exists>s \<in> set (conf_observed_scopes c). jg_policy_scope_normalize s = Inr n"
      "\<forall>s \<in> set (conf_observed_scopes c). \<exists>n \<in> set ns. jg_policy_scope_normalize s = Inr n"
      using ns by (force simp: list_all2_conv_all_nth in_set_conv_nth)+
    note norm = this
    have typed: "\<forall>s \<in> set (conf_observed_scopes c). scope_typed s"
      using assms(1) Some by (simp add: config_typed_def)
    have "set (retained_scopes ns) = set ns"
      using norm(1) typed normalize_scope_canonical by (intro set_retained_scopes) blast
    then show ?thesis
      using norm typed normalize_scope_matches client unfolding client_opt_typed_def by metis
  qed
  show ?thesis
    using Some assms(2,3) obs
    by (auto simp: snapshot_populate_enforcement_def Let_def enforcement_ok_def observes_client_def
        config_observes_def list_ex_iff intro!: ensures_mono [OF normalize_observed_ensures])
qed

section \<open>Destination rules\<close>

definition stored_destination_as :: "bytes \<Rightarrow> stored_destination_rule \<Rightarrow> build_destination_rule \<Rightarrow> bool" where
  "stored_destination_as area s r \<longleftrightarrow> (\<exists>c. s = store_destination_rule c r)
     \<and> cstring area (d_attribution_offset s) = bd_attribution r \<and> readable area (d_attribution_offset s)"

lemma store_destination_rules_area:
  "store_destination_rules brs area = (stored, area') \<Longrightarrow> (\<exists>more. area' = area @ more)
   \<and> length area' = length area + (\<Sum>r\<leftarrow>brs. length (bd_attribution r) + 1)"
proof (induction brs arbitrary: area stored)
  case (Cons r brs)
  then show ?case by (force split: prod.splits)
qed simp

lemma store_destination_rules_stored:
  assumes "store_destination_rules brs area = (stored, area')" and "length area' \<le> UINT32_MAX"
    and "\<And>r. r \<in> set brs \<Longrightarrow> 0 \<notin> set (bd_attribution r)"
  shows "list_all2 (stored_destination_as area') stored brs"
  using assms
proof (induction brs arbitrary: area stored)
  case (Cons r brs)
  let ?a = "area @ bd_attribution r @ [0]"
  obtain st where st: "store_destination_rules brs ?a = (st, area')"
    "stored = store_destination_rule (length area) r # st"
    using Cons.prems(1) by (auto split: prod.splits)
  obtain more where more: "area' = ?a @ more"
    using store_destination_rules_area [OF st(1)] by blast
  have "cstring area' (of_nat (length area)) = bd_attribution r"
    unfolding more
    using cstring_at [OF unat_offset [of "length area"], of "bd_attribution r" more]
      Cons.prems(2,3) more by simp
  moreover have "readable area' (of_nat (length area))"
    unfolding more using readable_at [OF unat_offset [of "length area"], of "bd_attribution r" more]
      Cons.prems(2) more by simp
  ultimately have "stored_destination_as area' (store_destination_rule (length area) r) r"
    by (auto simp: stored_destination_as_def store_destination_rule_def)
  then show ?case using Cons.IH [OF st(1)] Cons.prems st(2) by simp
qed simp

lemma measure_destination_rules_Done:
  assumes "measure_destination_rules brs s = Done s'" and "s \<le> UINT32_MAX"
  shows "s' = s + (\<Sum>r\<leftarrow>brs. length (bd_attribution r) + 1) \<and> s' \<le> UINT32_MAX"
  using assms
proof (induction brs arbitrary: s)
  case (Cons r brs)
  have "s \<le> SIZE_MAX" using Cons.prems(2) by (simp add: UINT32_MAX_def SIZE_MAX_def)
  with Cons.prems(1) have "s + (length (bd_attribution r) + 1) \<le> UINT32_MAX"
    "measure_destination_rules brs (s + (length (bd_attribution r) + 1)) = Done s'"
    by (auto simp: jg_size_add_Some_iff split: if_splits)
  from Cons.IH [OF this(2,1)] show ?case by simp
qed simp

lemma measure_destination_no_fault: "measure_destination_rules brs s \<noteq> Fault"
  by (induction brs arbitrary: s) auto

lemma snapshot_populate_destinations_ensures:
  assumes "\<And>r. r \<in> set brs \<Longrightarrow> 0 \<notin> set (bd_attribution r)"
    and "destination_rules snapshot = []" "destination_rule_count (info snapshot) = 0"
  shows "ensures (snapshot_populate_destinations env snapshot brs) (\<lambda>s.
    list_all2 (stored_destination_as (destination_strings s)) (destination_rules s) brs
    \<and> destination_rule_count (info s) = length brs
    \<and> s = snapshot\<lparr>destination_rules := destination_rules s, destination_strings := destination_strings s,
        info := (info snapshot)\<lparr>destination_rule_count := length brs\<rparr>\<rparr>)"
proof -
  obtain stored area where st: "store_destination_rules brs [] = (stored, area)" by fastforce
  have "list_all2 (stored_destination_as area) stored brs"
    if "measure_destination_rules brs 0 = Done ss" for ss
    using store_destination_rules_stored [OF st] measure_destination_rules_Done [OF that]
      store_destination_rules_area [OF st] assms(1) by auto
  then show ?thesis
    using assms(2,3) measure_destination_no_fault [of brs 0]
    by (auto simp: snapshot_populate_destinations_def st ensures_def)
qed

definition destination_input_valid :: "jg_policy_destination_rule_input \<Rightarrow> bool" where
  "destination_input_valid i \<longleftrightarrow> din_id i \<noteq> 0
     \<and> effect_source_valid (din_effect i) (din_source i)
     \<and> enforcement_valid (din_effect i) (din_enforcement i)
     \<and> (din_has_address i \<or> din_has_port i) \<and> (din_has_port i \<longleftrightarrow> din_port i \<noteq> 0)
     \<and> (\<exists>a. destination_address_normalize i = Inr a)
     \<and> (\<exists>s. jg_policy_scope_normalize (din_scope i) = Inr s)
     \<and> (\<exists>n. attribution_length (din_attribution i) = Inr n)
     \<and> din_transport i \<in> valid_transports"

lemma validate_destination_rules_Done:
  "validate_destination_rules inputs p = Done q \<Longrightarrow> i \<in> set inputs \<Longrightarrow> destination_input_valid i"
  by (induction inputs arbitrary: p) (auto simp: destination_input_valid_def valid_transports_def split: if_splits)

lemma validate_destination_no_fault: "validate_destination_rules inputs p \<noteq> Fault"
  by (induction inputs arbitrary: p) (auto split: if_splits)

lemma prepare_destination_rules_ensures:
  "ensures (prepare_destination_rules env inputs) (\<lambda>prepared.
     prepared = map fill_destination_rule inputs \<and> (\<forall>i \<in> set inputs. destination_input_valid i))"
  using validate_destination_rules_Done [of inputs 0] validate_destination_no_fault [of inputs 0]
  by (auto simp: ensures_def prepare_destination_rules_def split: if_splits)

text \<open>The order of prepared destination rules, and what deduplication keeps of them.\<close>

definition destination_rule_valid :: "build_destination_rule \<Rightarrow> bool" where
  "destination_rule_valid r \<longleftrightarrow> bd_address_family r \<in> valid_families
     \<and> bd_transport r \<in> valid_transports \<and> bd_source r \<in> valid_sources
     \<and> bd_effect r \<in> valid_effects \<and> bd_enforcement r \<in> valid_enforcements"

definition destination_rule_key where
  "destination_rule_key r = (bd_has_address r, family_code (bd_address_family r), bd_prefix_length r,
     bd_address r, bd_has_port r, bd_port r, transport_code (bd_transport r), source_code (bd_source r),
     effect_code (bd_effect r), enforcement_code (bd_enforcement r), scope_key (bd_scope r),
     bd_attribution r, bd_id r)"

lemma destination_rule_agrees:
  assumes "destination_rule_valid a" "destination_rule_valid b"
  shows "agrees (destination_rule_compare a b) (destination_rule_key a) (destination_rule_key b)"
  unfolding destination_rule_compare_def destination_rule_key_def
  using assms
  by (intro agrees_intros agrees_scope code_inject refl) (simp_all add: destination_rule_valid_def)

interpretation destination_rule_order:
  comparison destination_rule_compare destination_rule_key destination_rule_valid
  by unfold_locales (use destination_rule_agrees in \<open>auto simp: agrees_def\<close>)

lemma destination_same_content_key:
  assumes "destination_rule_same_content a b" and "scope_canonical (bd_scope a)" "scope_canonical (bd_scope b)"
  shows "b = a\<lparr>bd_id := bd_id b, bd_statistics_id := bd_statistics_id b\<rparr>"
  using assms scope_compare_canonical [of "bd_scope a" "bd_scope b"]
  by (cases a; cases b) (auto simp: destination_rule_same_content_def)

lemma retained_destination_rules_props:
  assumes valid: "\<And>r. r \<in> set prepared \<Longrightarrow> destination_rule_valid r \<and> scope_canonical (bd_scope r)"
  shows "set (retained_destination_rules prepared) \<subseteq> set prepared"
    and "r \<in> set prepared \<Longrightarrow> \<exists>k \<in> set (retained_destination_rules prepared).
      r = k\<lparr>bd_id := bd_id r, bd_statistics_id := bd_statistics_id r\<rparr> \<and> bd_id k \<le> bd_id r"
proof -
  let ?sorted = "if length prepared > 1 then qsort destination_rule_compare prepared else prepared"
  have sorted: "sorted (map destination_rule_key ?sorted)"
  proof (cases "length prepared > 1")
    case True
    then show ?thesis using destination_rule_order.sorted_qsort [of prepared] valid by simp
  next
    case False
    then show ?thesis by (cases prepared) auto
  qed
  have set: "set ?sorted = set prepared"
    using destination_rule_order.set_qsort [of prepared] valid by simp
  show sub: "set (retained_destination_rules prepared) \<subseteq> set prepared"
    using retain_subset [of destination_rule_same_content ?sorted] set
    by (simp add: retained_destination_rules_def)
  show "\<exists>k \<in> set (retained_destination_rules prepared).
      r = k\<lparr>bd_id := bd_id r, bd_statistics_id := bd_statistics_id r\<rparr> \<and> bd_id k \<le> bd_id r"
    if r: "r \<in> set prepared"
  proof -
    have "destination_rule_same_content x x" for x
      using scope_order.cmp_eq [of "bd_scope x" "bd_scope x"]
      by (simp add: destination_rule_same_content_def)
    then obtain k where k: "k \<in> set (retained_destination_rules prepared)"
      "destination_rule_same_content k r" "destination_rule_key k \<le> destination_rule_key r"
      using retain_covers_below [of ?sorted destination_rule_same_content r destination_rule_key] set sorted r
      by (auto simp: retained_destination_rules_def)
    have eq: "r = k\<lparr>bd_id := bd_id r, bd_statistics_id := bd_statistics_id r\<rparr>"
      using destination_same_content_key [OF k(2)] valid sub k(1) r by blast
    then have "destination_rule_key r =
        destination_rule_key (k\<lparr>bd_id := bd_id r, bd_statistics_id := bd_statistics_id r\<rparr>)" by simp
    also have "\<dots> = destination_rule_key (k\<lparr>bd_id := bd_id r\<rparr>)"
      by (simp add: destination_rule_key_def)
    finally have "destination_rule_key k \<le> destination_rule_key (k\<lparr>bd_id := bd_id r\<rparr>)" using k(3) by simp
    then have "bd_id k \<le> bd_id r" by (simp add: destination_rule_key_def)
    with eq k(1) show ?thesis by blast
  qed
qed

lemma fill_destination_rule_props:
  assumes "destination_input_valid i"
  shows "destination_rule_valid (fill_destination_rule i)"
    and "0 \<notin> set (bd_attribution (fill_destination_rule i))"
    and "scope_typed (din_scope i) \<Longrightarrow> scope_canonical (bd_scope (fill_destination_rule i))"
proof -
  show "destination_rule_valid (fill_destination_rule i)"
    using assms
    by (auto simp: destination_input_valid_def destination_rule_valid_def fill_destination_rule_def
        destination_address_normalize_def effect_source_valid_def enforcement_valid_def
        valid_families_def valid_sources_def valid_effects_def valid_enforcements_def
        split: if_splits jg_policy_source.splits)
  show "0 \<notin> set (bd_attribution (fill_destination_rule i))"
    using assms by (auto simp: destination_input_valid_def attribution_length_def
        fill_destination_rule_def split: prod.splits dest: attribution_loop_nonzero)
  show "scope_canonical (bd_scope (fill_destination_rule i))" if "scope_typed (din_scope i)"
    using assms that normalize_scope_canonical
    by (auto simp: destination_input_valid_def fill_destination_rule_def split: prod.splits)
qed

section \<open>The built snapshot\<close>

definition snapshot_of where
  "snapshot_of env inputs destination_inputs config gen s \<longleftrightarrow>
     index_ok env s \<and> enforcement_ok config s \<and> generation (info s) = gen
     \<and> rule_count (info s) = length (rules s)
     \<and> (\<forall>i \<in> set inputs. input_valid env i)
     \<and> list_all2 (stored_as (strings s)) (rules s) (retained_rules (map (fill_rule env) inputs))
     \<and> (\<forall>i \<in> set destination_inputs. destination_input_valid i)
     \<and> destination_rule_count (info s) = length (destination_rules s)
     \<and> list_all2 (stored_destination_as (destination_strings s)) (destination_rules s)
         (retained_destination_rules (map fill_destination_rule destination_inputs))"

definition inputs_typed where
  "inputs_typed inputs destination_inputs config \<longleftrightarrow>
     (\<forall>i \<in> set inputs. scope_typed (in_scope i))
     \<and> (\<forall>i \<in> set destination_inputs. scope_typed (din_scope i)) \<and> config_typed config"

lemma index_ok_cong:
  "table s = table t \<Longrightarrow> table_capacity s = table_capacity t \<Longrightarrow> rules s = rules t \<Longrightarrow>
   strings s = strings t \<Longrightarrow> hash_key s = hash_key t \<Longrightarrow> index_ok env s = index_ok env t"
  by (simp add: index_ok_def)

lemma enforcement_ok_cong:
  "observed_scope_count (info s) = observed_scope_count (info t) \<Longrightarrow>
   global_enforcement (info s) = global_enforcement (info t) \<Longrightarrow>
   observed_scopes s = observed_scopes t \<Longrightarrow> enforcement_ok config s = enforcement_ok config t"
  by (simp add: enforcement_ok_def observes_client_def)

lemma build_configured_ensures:
  assumes typed: "inputs_typed inputs destination_inputs config"
  shows "ensures (jg_policy_snapshot_build_configured env env inputs destination_inputs config gen)
    (snapshot_of env inputs destination_inputs config gen)"
proof -
  let ?b = "map (fill_rule env) inputs" and ?d = "map fill_destination_rule destination_inputs"
  let ?s0 = "cleared_snapshot\<lparr>hash_key := randombytes env 16\<rparr>"
  have rest: "ensures (and_then (snapshot_populate_enforcement env ?s0 config) (\<lambda>created.
      and_then (snapshot_populate env created (retained_rules ?b)) (\<lambda>created.
      and_then (snapshot_populate_destinations env created (retained_destination_rules ?d)) (\<lambda>created.
      and_then (or_fail EIO (clock env)) (\<lambda>build_time.
        Done (snapshot_checksum env (created\<lparr>info := (info created)\<lparr>generation := gen,
          built_at := build_time, rule_count := length (retained_rules ?b)\<rparr>\<rparr>))))))
      ) (snapshot_of env inputs destination_inputs config gen)"
    if v: "\<forall>i \<in> set inputs. input_valid env i" and w: "\<forall>i \<in> set destination_inputs. destination_input_valid i"
  proof -
    have b: "build_rule_valid r \<and> scope_canonical (b_scope r) \<and> 0 \<notin> set (b_domain r) \<and> 0 \<notin> set (b_attribution r)"
      if "r \<in> set ?b" for r
      using that v typed fill_rule_valid fill_rule_canonical fill_rule_strings
      by (fastforce simp: inputs_typed_def)
    have d: "destination_rule_valid r \<and> scope_canonical (bd_scope r) \<and> 0 \<notin> set (bd_attribution r)"
      if "r \<in> set ?d" for r
      using that w typed fill_destination_rule_props by (fastforce simp: inputs_typed_def)
    have kb: "sorted (map b_domain (retained_rules ?b))"
      "\<And>r. r \<in> set (retained_rules ?b) \<Longrightarrow> 0 \<notin> set (b_domain r) \<and> 0 \<notin> set (b_attribution r)"
      using retained_rules_props(1,2) [of ?b] b by blast+
    have kd: "\<And>r. r \<in> set (retained_destination_rules ?d) \<Longrightarrow> 0 \<notin> set (bd_attribution r)"
      using retained_destination_rules_props(1) [of ?d] d by blast
    have e: "ensures (snapshot_populate_enforcement env ?s0 config) (\<lambda>s. enforcement_ok config s
        \<and> rules s = [] \<and> table_capacity s = 0 \<and> destination_rules s = [] \<and> destination_rule_count (info s) = 0)"
      using snapshot_populate_enforcement_ensures [of config ?s0 env] typed
      by (simp add: inputs_typed_def cleared_snapshot_def)
    have p: "ensures (snapshot_populate env s (retained_rules ?b)) (\<lambda>t. index_ok env t
        \<and> list_all2 (stored_as (strings t)) (rules t) (retained_rules ?b) \<and> enforcement_ok config t
        \<and> destination_rules t = [] \<and> destination_rule_count (info t) = 0)"
      if "enforcement_ok config s" "rules s = []" "table_capacity s = 0" "destination_rules s = []"
        "destination_rule_count (info s) = 0" for s
    proof (rule ensures_mono [OF snapshot_populate_ensures [OF kb that(2,3)]], assumption)
      fix t assume t: "index_ok env t \<and> list_all2 (stored_as (strings t)) (rules t) (retained_rules ?b)
        \<and> info t = info s \<and> observed_scopes t = observed_scopes s \<and> destination_rules t = destination_rules s"
      then have "enforcement_ok config t = enforcement_ok config s" by (intro enforcement_ok_cong) simp_all
      with t that show "index_ok env t
        \<and> list_all2 (stored_as (strings t)) (rules t) (retained_rules ?b) \<and> enforcement_ok config t
        \<and> destination_rules t = [] \<and> destination_rule_count (info t) = 0" by simp
    qed
    have q: "ensures (snapshot_populate_destinations env s (retained_destination_rules ?d)) (\<lambda>t. index_ok env t
        \<and> list_all2 (stored_as (strings t)) (rules t) (retained_rules ?b) \<and> enforcement_ok config t
        \<and> destination_rule_count (info t) = length (destination_rules t)
        \<and> list_all2 (stored_destination_as (destination_strings t)) (destination_rules t)
            (retained_destination_rules ?d))"
      if "index_ok env s" "list_all2 (stored_as (strings s)) (rules s) (retained_rules ?b)"
        "enforcement_ok config s" "destination_rules s = []" "destination_rule_count (info s) = 0" for s
    proof (rule ensures_mono [OF snapshot_populate_destinations_ensures [OF kd that(4,5)]])
      fix t assume t: "list_all2 (stored_destination_as (destination_strings t)) (destination_rules t)
          (retained_destination_rules ?d)
        \<and> destination_rule_count (info t) = length (retained_destination_rules ?d)
        \<and> t = s\<lparr>destination_rules := destination_rules t, destination_strings := destination_strings t,
            info := (info s)\<lparr>destination_rule_count := length (retained_destination_rules ?d)\<rparr>\<rparr>"
      obtain ds dstr where t': "t = s\<lparr>destination_rules := ds, destination_strings := dstr,
            info := (info s)\<lparr>destination_rule_count := length (retained_destination_rules ?d)\<rparr>\<rparr>"
        using t by blast
      have "index_ok env t = index_ok env s" "enforcement_ok config t = enforcement_ok config s"
        unfolding t' by (rule index_ok_cong enforcement_ok_cong; simp)+
      moreover have "strings t = strings s" "rules t = rules s" unfolding t' by simp_all
      ultimately show "index_ok env t
        \<and> list_all2 (stored_as (strings t)) (rules t) (retained_rules ?b) \<and> enforcement_ok config t
        \<and> destination_rule_count (info t) = length (destination_rules t)
        \<and> list_all2 (stored_destination_as (destination_strings t)) (destination_rules t)
            (retained_destination_rules ?d)"
        using t that list_all2_lengthD by metis
    qed
    have fin: "snapshot_of env inputs destination_inputs config gen
        (snapshot_checksum env (t\<lparr>info := (info t)\<lparr>generation := gen, built_at := bt,
           rule_count := length (retained_rules ?b)\<rparr>\<rparr>))"
      if "index_ok env t" "list_all2 (stored_as (strings t)) (rules t) (retained_rules ?b)"
        "enforcement_ok config t" "destination_rule_count (info t) = length (destination_rules t)"
        "list_all2 (stored_destination_as (destination_strings t)) (destination_rules t)
            (retained_destination_rules ?d)" for t bt
    proof -
      let ?u = "snapshot_checksum env (t\<lparr>info := (info t)\<lparr>generation := gen, built_at := bt,
           rule_count := length (retained_rules ?b)\<rparr>\<rparr>)"
      have "index_ok env ?u = index_ok env t" "enforcement_ok config ?u = enforcement_ok config t"
        by (rule index_ok_cong enforcement_ok_cong; simp add: snapshot_checksum_def)+
      then show ?thesis
        using that v w list_all2_lengthD [OF that(2)]
        by (simp add: snapshot_of_def) (simp add: snapshot_checksum_def)
    qed
    show ?thesis
      unfolding ensures_simps
      by (rule ensures_mono [OF e], elim conjE, rule ensures_mono [OF p], assumption+, elim conjE,
          rule ensures_mono [OF q], assumption+) (use fin in auto)
  qed
  show ?thesis
    using rest
    by (auto simp: jg_policy_snapshot_build_configured_def Let_def simp del: ensures_simps(6)
        simp: ensures_simps(6) [of "prepare_rules _ _ _"] ensures_simps(6) [of "prepare_destination_rules _ _"]
        intro!: ensures_mono [OF prepare_rules_ensures] ensures_mono [OF prepare_destination_rules_ensures])
qed

lemma snapshot_of_in_bounds:
  assumes "snapshot_of env inputs dinputs config gen s"
  shows "snapshot_in_bounds s"
proof -
  have "readable (strings s) (r_domain_offset r) \<and> readable (strings s) (r_attribution_offset r)"
    if "r \<in> set (rules s)" for r
    using that assms by (auto simp: snapshot_of_def stored_as_def in_set_conv_nth list_all2_conv_all_nth)
  moreover have "readable (destination_strings s) (d_attribution_offset r)"
    if "r \<in> set (destination_rules s)" for r
    using that assms by (auto simp: snapshot_of_def stored_destination_as_def in_set_conv_nth list_all2_conv_all_nth)
  ultimately show ?thesis
    using assms by (auto simp: snapshot_in_bounds_def snapshot_of_def enforcement_ok_def index_ok_in_bounds)
qed

section \<open>Verdicts in terms of the inputs\<close>

text \<open>A stored rule has the content of an input, up to its identifiers.\<close>

definition rule_for where
  "rule_for env s i r \<longleftrightarrow>
     r_priority r = policy_priority (in_effect i) (in_source i) (in_scope i)
     \<and> r_include_subdomains r = in_include_subdomains i \<and> r_effect r = in_effect i
     \<and> r_enforcement r = in_enforcement i \<and> r_source r = in_source i \<and> r_target r = in_target i
     \<and> jg_policy_scope_normalize (in_scope i) = Inr (r_scope r)
     \<and> rule_domain (strings s) r = normal_domain env i
     \<and> cstring (strings s) (r_attribution_offset r) = in_attribution i"

lemma normalize_scope_type: "jg_policy_scope_normalize s = Inr t \<Longrightarrow> scope_type t = scope_type s"
  by (cases s) (auto split: if_splits)

lemma fill_rule_for:
  assumes "input_valid env i" and "stored_as (strings s) r b"
    and "b = (fill_rule env i)\<lparr>b_id := x, b_statistics_id := y\<rparr>"
  shows "rule_for env s i r \<and> r_id r = x \<and> r_statistics_id r = y"
proof -
  obtain c where r: "r = store_rule c b" "rule_domain (strings s) r = b_domain b"
    "cstring (strings s) (r_attribution_offset r) = b_attribution b"
    using assms(2) by (auto simp: stored_as_def)
  obtain t where t: "jg_policy_scope_normalize (in_scope i) = Inr t"
    using assms(1) by (auto simp: input_valid_def)
  have "b_scope b = t" "b_domain b = normal_domain env i" "b_attribution b = in_attribution i"
    using t by (simp_all add: assms(3) fill_rule_def normal_domain_def)
  then show ?thesis
    using r t normalize_scope_type [OF t] unfolding rule_for_def
    by (simp add: store_rule_def policy_priority_def assms(3) fill_rule_def)
qed

lemma snapshot_rules_prepared:
  assumes "snapshot_of env inputs dinputs config gen s" and "inputs_typed inputs dinputs config"
    and "b \<in> set (map (fill_rule env) inputs)"
  shows "build_rule_valid b \<and> scope_canonical (b_scope b)"
  using assms fill_rule_valid fill_rule_canonical by (fastforce simp: inputs_typed_def snapshot_of_def)

lemma snapshot_rule_input:
  assumes s: "snapshot_of env inputs dinputs config gen s" and typed: "inputs_typed inputs dinputs config"
    and r: "r \<in> set (rules s)"
  shows "\<exists>i \<in> set inputs. rule_for env s i r \<and> r_id r = in_id i \<and> r_statistics_id r = in_statistics_id i"
proof -
  have l: "list_all2 (stored_as (strings s)) (rules s) (retained_rules (map (fill_rule env) inputs))"
    using s by (simp add: snapshot_of_def)
  obtain b where b: "b \<in> set (retained_rules (map (fill_rule env) inputs))" "stored_as (strings s) r b"
    using r l by (fastforce simp: list_all2_conv_all_nth in_set_conv_nth)
  then obtain i where i: "i \<in> set inputs" "b = fill_rule env i"
    using retained_rules_props(1) [of "map (fill_rule env) inputs"] snapshot_rules_prepared [OF s typed] by auto
  then have "input_valid env i" using s by (simp add: snapshot_of_def)
  then have "rule_for env s i r \<and> r_id r = in_id i \<and> r_statistics_id r = in_statistics_id i"
    using fill_rule_for [OF _ b(2), of env i, where x = "in_id i" and y = "in_statistics_id i"] i(2)
    by (simp add: fill_rule_def)
  then show ?thesis using i(1) by blast
qed

lemma snapshot_input_rule:
  assumes s: "snapshot_of env inputs dinputs config gen s" and typed: "inputs_typed inputs dinputs config"
    and i: "i \<in> set inputs"
  shows "\<exists>r \<in> set (rules s). rule_for env s i r \<and> r_id r \<le> in_id i"
proof -
  have l: "list_all2 (stored_as (strings s)) (rules s) (retained_rules (map (fill_rule env) inputs))"
    using s by (simp add: snapshot_of_def)
  obtain k where k: "k \<in> set (retained_rules (map (fill_rule env) inputs))"
    "fill_rule env i = k\<lparr>b_id := b_id (fill_rule env i), b_statistics_id := b_statistics_id (fill_rule env i)\<rparr>"
    "b_id k \<le> b_id (fill_rule env i)"
    using retained_rules_props(3) [of "map (fill_rule env) inputs" "fill_rule env i"]
      snapshot_rules_prepared [OF s typed] i by auto
  obtain r where r: "r \<in> set (rules s)" "stored_as (strings s) r k"
    using k(1) l by (fastforce simp: list_all2_conv_all_nth in_set_conv_nth)
  have "k = (fill_rule env i)\<lparr>b_id := b_id k, b_statistics_id := b_statistics_id k\<rparr>"
    by (subst k(2)) simp
  moreover have "input_valid env i" using s i by (simp add: snapshot_of_def)
  ultimately have "rule_for env s i r \<and> r_id r = b_id k" using fill_rule_for [OF _ r(2)] by blast
  moreover have "b_id (fill_rule env i) = in_id i" by (simp add: fill_rule_def)
  ultimately show ?thesis using r(1) k(3) by auto
qed

text \<open>Whether an input applies to a name, and whether it is enforced for a client.\<close>

definition input_applies where
  "input_applies env client target d i \<longleftrightarrow> in_target i = target \<and> scope_covers (in_scope i) client
     \<and> jg_domain_matches d (normal_domain env i) (in_include_subdomains i)"

definition input_enforced where
  "input_enforced config client i \<longleftrightarrow> in_effect i \<noteq> JG_POLICY_BLOCK
     \<or> in_enforcement i \<noteq> JG_POLICY_OBSERVE \<and> \<not> config_observes config client"

lemma rule_for_applies:
  assumes "rule_for env s i r" and "input_valid env i" and "scope_typed (in_scope i)"
    and "client_opt_typed client" and "policy_domain d"
  shows "rule_applies s client target d r \<longleftrightarrow> input_applies env client target d i"
proof -
  have "scope_matches (r_scope r) client \<longleftrightarrow> scope_covers (in_scope i) client"
    using assms(1,3,4) normalize_scope_matches by (simp add: rule_for_def client_opt_typed_def)
  moreover have "jg_domain_matches d (normal_domain env i) (in_include_subdomains i) \<longleftrightarrow>
      normal_domain env i = d \<or> in_include_subdomains i \<and> (\<exists>p. d = p @ dot # normal_domain env i)"
    unfolding jg_domain_matches_iff [OF assms(5) normal_domain_policy [OF assms(2)]]
      split_dots_suffix_iff by (simp only: eq_commute [of d "normal_domain env i"])
  ultimately show ?thesis
    using assms(1) by (auto simp: rule_applies_def input_applies_def rule_for_def)
qed

lemma rule_for_enforced:
  assumes "rule_for env s i r" and "enforcement_ok config s" and "client_opt_typed client"
  shows "rule_enforced s client r \<longleftrightarrow> input_enforced config client i"
  using assms by (auto simp: rule_for_def rule_enforced_def enforcement_for_def
      enforcement_ok_def input_enforced_def)

lemma priority_effect:
  assumes "rule_class_valid i"
  shows "in_effect i = JG_POLICY_ALLOW \<longleftrightarrow> 4 \<le> policy_priority (in_effect i) (in_source i) (in_scope i)"
    and "in_effect i = JG_POLICY_ALLOW \<or> in_effect i = JG_POLICY_BLOCK"
  using assms by (auto simp: rule_class_valid_def effect_source_valid_def policy_priority_def
      split: if_splits jg_policy_source.splits)

end
