(* ===== verification/PolicyVerdict.thy ===== *)
theory PolicyVerdict
  imports PolicyBuild
begin

text \<open>
  The end-to-end properties of the policy engine: build a snapshot, match against it, and the verdict
  is the one that the rule inputs and the enforcement configuration determine.
\<close>

section \<open>Domain verdicts\<close>

definition input_rank where
  "input_rank env i = (policy_priority (in_effect i) (in_source i) (in_scope i),
     length (normal_domain env i), - uint (in_id i))"

text \<open>
  The builder normalises every name twice, first to validate it and then, with the result of the
  call ignored, to store it. \<open>env\<close> is the environment of the first pass and of everything after
  it, \<open>env'\<close> that of the second pass, when the allocator may answer differently. The
  statements below say what the rule inputs decide, so they need the second pass to succeed as the
  first did; the IDN library is the same function in both.
\<close>

definition second_pass ::
  "'e environment_scheme \<Rightarrow> 'e environment_scheme \<Rightarrow> jg_policy_rule_input list \<Rightarrow> bool" where
  "second_pass env env' inputs \<longleftrightarrow> idn2_lookup_u8 env' = idn2_lookup_u8 env
     \<and> (\<forall>i \<in> set inputs. \<exists>d. jg_domain_normalize env' (in_domain i) (JG_DOMAIN_NAME_MAX + 1) = Inr d)"

lemma normalize_same:
  "idn2_lookup_u8 env' = idn2_lookup_u8 env \<Longrightarrow> jg_domain_normalize env x n = Inr d \<Longrightarrow>
   jg_domain_normalize env' x n = Inr d' \<Longrightarrow> d' = d"
  by (auto simp: jg_domain_normalize_def Let_def split: if_splits option.splits)

lemma second_pass_prepare:
  assumes "second_pass env env' inputs"
  shows "prepare_rules env env' inputs = prepare_rules env env inputs"
proof (cases "validate_rules env inputs 0")
  case (Done p)
  have "fill_rule env' i = fill_rule env i" if i: "i \<in> set inputs" for i
  proof -
    obtain d d' where "jg_domain_normalize env (in_domain i) (JG_DOMAIN_NAME_MAX + 1) = Inr d"
      "jg_domain_normalize env' (in_domain i) (JG_DOMAIN_NAME_MAX + 1) = Inr d'"
      using assms validate_rules_Done [OF Done i] i by (auto simp: second_pass_def input_valid_def)
    then show ?thesis
      using assms normalize_same [of env' env "in_domain i"] by (simp add: fill_rule_def second_pass_def)
  qed
  then have "map (fill_rule env') inputs = map (fill_rule env) inputs" by simp
  then show ?thesis using Done by (simp only: prepare_rules_def and_then.simps)
qed (simp_all add: prepare_rules_def)

lemma second_pass_build:
  "second_pass env env' inputs \<Longrightarrow>
   jg_policy_snapshot_build_configured env env' inputs dinputs config gen =
   jg_policy_snapshot_build_configured env env inputs dinputs config gen"
  for env env' :: "'e policy_environment_scheme"
  unfolding jg_policy_snapshot_build_configured_def by (simp only: second_pass_prepare)

text \<open>What the lemmas assume: a built snapshot, and arguments that the matcher accepts.\<close>

definition verdict_setting where
  "verdict_setting env inputs dinputs config gen s client \<longleftrightarrow>
     jg_policy_snapshot_build_configured env env inputs dinputs config gen = Done s
     \<and> inputs_typed inputs dinputs config \<and> client_opt_typed client \<and> client_valid client"

lemma verdict_settingI:
  "jg_policy_snapshot_build_configured env env' inputs dinputs config gen = Done s \<Longrightarrow>
   second_pass env env' inputs \<Longrightarrow> inputs_typed inputs dinputs config \<Longrightarrow>
   client_opt_typed client \<Longrightarrow> client_valid client \<Longrightarrow>
   verdict_setting env inputs dinputs config gen s client"
  using second_pass_build [of env env' inputs dinputs config gen] by (simp add: verdict_setting_def)

lemma verdict_settingD:
  assumes "verdict_setting env inputs dinputs config gen s client"
  shows "snapshot_of env inputs dinputs config gen s" "inputs_typed inputs dinputs config"
    "client_opt_typed client" "client_valid client" "index_ok env s" "enforcement_ok config s"
    "snapshot_in_bounds s"
  using assms build_configured_ensures [of inputs dinputs config env gen]
  by (auto simp: verdict_setting_def snapshot_of_in_bounds, auto simp: snapshot_of_def ensures_def)

lemma applies_inputs:
  assumes "verdict_setting env inputs dinputs config gen s client" and "policy_domain d"
  shows "r \<in> set (rules s) \<Longrightarrow> rule_applies s client target d r \<Longrightarrow>
      \<exists>i \<in> set inputs. rule_for env s i r \<and> r_id r = in_id i \<and> input_applies env client target d i
        \<and> (rule_enforced s client r \<longleftrightarrow> input_enforced config client i)"
    and "i \<in> set inputs \<Longrightarrow> input_applies env client target d i \<Longrightarrow>
      \<exists>r \<in> set (rules s). rule_for env s i r \<and> r_id r \<le> in_id i \<and> rule_applies s client target d r
        \<and> (rule_enforced s client r \<longleftrightarrow> input_enforced config client i)"
proof -
  note v = verdict_settingD [OF assms(1)]
  have typed: "input_valid env i" "scope_typed (in_scope i)" if "i \<in> set inputs" for i
    using that v(1,2) by (simp_all add: snapshot_of_def inputs_typed_def)
  show "\<exists>i \<in> set inputs. rule_for env s i r \<and> r_id r = in_id i \<and> input_applies env client target d i
        \<and> (rule_enforced s client r \<longleftrightarrow> input_enforced config client i)"
    if "r \<in> set (rules s)" "rule_applies s client target d r"
    using snapshot_rule_input [OF v(1,2) that(1)] rule_for_applies [OF _ typed v(3) assms(2)]
      rule_for_enforced [OF _ v(6,3)] that(2) by blast
  show "\<exists>r \<in> set (rules s). rule_for env s i r \<and> r_id r \<le> in_id i \<and> rule_applies s client target d r
        \<and> (rule_enforced s client r \<longleftrightarrow> input_enforced config client i)"
    if "i \<in> set inputs" "input_applies env client target d i"
    using snapshot_input_rule [OF v(1,2) that(1)] rule_for_applies [OF _ typed v(3) assms(2)]
      rule_for_enforced [OF _ v(6,3)] that by blast
qed

lemma domain_match_Inr:
  assumes "verdict_setting env inputs dinputs config gen s client" and "policy_domain d"
  obtains m where "domain_match env s d client target = Inr m" "match_domain_target env s d client target = Done m"
proof -
  obtain sel enf where "candidate_winners env s client target d True None None = (sel, enf)" by fastforce
  then obtain m where m: "domain_match env s d client target = Inr m"
    using assms verdict_settingD(4) [OF assms(1)] by (simp add: domain_match_def)
  then have "match_domain_target env s d client target = Done m"
    by (simp add: match_domain_target_eq [OF verdict_settingD(7) [OF assms(1)]] lift_result_def)
  with m that show ?thesis by blast
qed

lemma winners_match_effect:
  "m_effect (winners_match s client sel enf) = (case enf of None \<Rightarrow> JG_POLICY_ALLOW | Some r \<Rightarrow> r_effect r)"
  by (simp add: winners_match_def default_match_def Let_def split: option.splits)

lemma enforcing_input:
  assumes "verdict_setting env inputs dinputs config gen s client" and "policy_domain d"
    and best: "best_in (full_rank s)
      {r \<in> set (rules s). rule_applies s client target d r \<and> rule_enforced s client r} (Some r)"
  obtains i where "i \<in> set inputs" "input_applies env client target d i" "input_enforced config client i"
    "in_effect i = r_effect r"
    "\<And>j. in_effect i = JG_POLICY_BLOCK \<Longrightarrow> j \<in> set inputs \<Longrightarrow> input_applies env client target d j \<Longrightarrow>
       in_effect j \<noteq> JG_POLICY_ALLOW"
proof -
  have class_valid: "rule_class_valid i" if "i \<in> set inputs" for i
    using that verdict_settingD(1) [OF assms(1)] by (simp add: snapshot_of_def input_valid_def)
  from best have r: "r \<in> set (rules s)" "rule_applies s client target d r" "rule_enforced s client r"
    and prio: "\<And>x. x \<in> set (rules s) \<Longrightarrow> rule_applies s client target d x \<Longrightarrow> rule_enforced s client x \<Longrightarrow>
      r_priority x \<le> r_priority r"
    by (auto simp: full_rank_def)
  obtain i where i: "i \<in> set inputs" "rule_for env s i r" "input_applies env client target d i"
    "input_enforced config client i"
    using applies_inputs(1) [OF assms(1,2) r(1,2)] r(3) by blast
  have "in_effect j \<noteq> JG_POLICY_ALLOW"
    if blk: "in_effect i = JG_POLICY_BLOCK" and j: "j \<in> set inputs" "input_applies env client target d j" for j
  proof
    assume allow: "in_effect j = JG_POLICY_ALLOW"
    then obtain x where x: "x \<in> set (rules s)" "rule_for env s j x" "rule_applies s client target d x"
      "rule_enforced s client x"
      using applies_inputs(2) [OF assms(1,2) j] by (auto simp: input_enforced_def)
    then have "policy_priority (in_effect j) (in_source j) (in_scope j)
        \<le> policy_priority (in_effect i) (in_source i) (in_scope i)"
      using prio [of x] i(2) by (simp add: rule_for_def)
    then show False
      using priority_effect(1) [OF class_valid [OF j(1)]] priority_effect(1) [OF class_valid [OF i(1)]]
        allow blk by simp
  qed
  then show ?thesis using that i by (auto simp: rule_for_def)
qed

text \<open>The abstract verdict on a name: an applying enforced block and no applying allow.\<close>

definition domain_blocked where
  "domain_blocked env inputs config client target d \<longleftrightarrow>
     (\<exists>i \<in> set inputs. input_applies env client target d i \<and> in_effect i = JG_POLICY_BLOCK
        \<and> input_enforced config client i)
     \<and> \<not> (\<exists>i \<in> set inputs. input_applies env client target d i \<and> in_effect i = JG_POLICY_ALLOW)"

lemma domain_verdict:
  assumes "verdict_setting env inputs dinputs config gen s client" and "policy_domain d"
  shows "\<exists>m. match_domain_target env s d client target = Done m
    \<and> m_effect m = (if domain_blocked env inputs config client target d then JG_POLICY_BLOCK else JG_POLICY_ALLOW)
    \<and> (m_enforcing_matched m \<or> m_effect m = JG_POLICY_ALLOW)"
proof -
  obtain m where dm: "domain_match env s d client target = Inr m"
    and m: "match_domain_target env s d client target = Done m"
    by (rule domain_match_Inr [OF assms, where target = target])
  from dm obtain sel enf where enf: "m = winners_match s client sel enf"
    "best_in (full_rank s) {r \<in> set (rules s). rule_applies s client target d r \<and> rule_enforced s client r} enf"
    by (rule domain_match_best [OF verdict_settingD(5) [OF assms(1)]])
  have effects: "in_effect i = JG_POLICY_ALLOW \<or> in_effect i = JG_POLICY_BLOCK" if "i \<in> set inputs" for i
    using that verdict_settingD(1) [OF assms(1)] priority_effect(2)
    by (simp add: snapshot_of_def input_valid_def)
  show ?thesis
  proof (cases enf)
    case None
    have "\<not> input_enforced config client i" if "i \<in> set inputs" "input_applies env client target d i" for i
      using applies_inputs(2) [OF assms that] enf(2) None by auto
    then show ?thesis using m None enf(1) by (auto simp: winners_match_effect domain_blocked_def)
  next
    case (Some r)
    obtain i where i: "i \<in> set inputs" "input_applies env client target d i" "input_enforced config client i"
      "in_effect i = r_effect r" "\<And>j. in_effect i = JG_POLICY_BLOCK \<Longrightarrow> j \<in> set inputs \<Longrightarrow>
        input_applies env client target d j \<Longrightarrow> in_effect j \<noteq> JG_POLICY_ALLOW"
      using enforcing_input [OF assms enf(2) [unfolded Some]] by blast
    have "m_effect m = in_effect i" using i(4) enf(1) Some by (simp add: winners_match_effect)
    then show ?thesis using m effects [OF i(1)] i enf(1) Some
      by (auto simp: domain_blocked_def winners_match_def Let_def)
  qed
qed

text \<open>The rule reported for a name: an applying input that no other applying input outranks.\<close>

lemma domain_selected:
  assumes "verdict_setting env inputs dinputs config gen s client" and "policy_domain d"
  shows "\<exists>m. match_domain_target env s d client target = Done m
    \<and> (m_matched m \<longleftrightarrow> (\<exists>i \<in> set inputs. input_applies env client target d i))
    \<and> (m_matched m \<longrightarrow> (\<exists>i \<in> set inputs. input_applies env client target d i
         \<and> m_rule_id m = in_id i \<and> m_configured_effect m = in_effect i \<and> m_source m = in_source i
         \<and> m_domain m = Some (normal_domain env i) \<and> m_attribution m = Some (in_attribution i)
         \<and> m_enforcement m = (if input_enforced config client i then JG_POLICY_ENFORCE else JG_POLICY_OBSERVE)
         \<and> (m_would_have_blocked m \<longleftrightarrow> \<not> input_enforced config client i)
         \<and> (\<forall>j \<in> set inputs. input_applies env client target d j \<longrightarrow> input_rank env j \<le> input_rank env i)))"
proof -
  obtain m where dm: "domain_match env s d client target = Inr m"
    and m: "match_domain_target env s d client target = Done m"
    by (rule domain_match_Inr [OF assms, where target = target])
  from dm obtain sel enf where sel: "m = winners_match s client sel enf"
    "best_in (full_rank s) {r \<in> set (rules s). rule_applies s client target d r} sel"
    by (rule domain_match_best [OF verdict_settingD(5) [OF assms(1)]])
  show ?thesis
  proof (cases sel)
    case None
    have "\<not> input_applies env client target d i" if "i \<in> set inputs" for i
      using applies_inputs(2) [OF assms that] sel(2) None by auto
    moreover have "\<not> m_matched m"
      using sel(1) None by (simp add: winners_match_def default_match_def Let_def split: option.splits)
    ultimately show ?thesis using m by auto
  next
    case (Some r)
    from sel(2) Some have r: "r \<in> set (rules s)" "rule_applies s client target d r"
      and best: "\<And>x. x \<in> set (rules s) \<Longrightarrow> rule_applies s client target d x \<Longrightarrow> full_rank s x \<le> full_rank s r"
      by auto
    obtain i where i: "i \<in> set inputs" "rule_for env s i r" "r_id r = in_id i"
      "input_applies env client target d i" "rule_enforced s client r \<longleftrightarrow> input_enforced config client i"
      using applies_inputs(1) [OF assms r] by blast
    have rank: "input_rank env j \<le> input_rank env i"
      if j: "j \<in> set inputs" "input_applies env client target d j" for j
    proof -
      obtain x where x: "x \<in> set (rules s)" "rule_for env s j x" "r_id x \<le> in_id j"
        "rule_applies s client target d x"
        using applies_inputs(2) [OF assms j] by blast
      then have "input_rank env j \<le> full_rank s x"
        by (auto simp: input_rank_def full_rank_def rule_for_def word_le_def)
      also have "\<dots> \<le> full_rank s r" using best x by blast
      also have "\<dots> = input_rank env i" using i(2,3) by (simp add: input_rank_def full_rank_def rule_for_def)
      finally show ?thesis .
    qed
    have "m_enforcement m = (if rule_enforced s client r then JG_POLICY_ENFORCE else JG_POLICY_OBSERVE)"
      using sel(1) Some by (auto simp: winners_match_def default_match_def Let_def rule_enforced_def
          enforcement_for_def split: option.splits)
    moreover have "m_would_have_blocked m \<longleftrightarrow> r_effect r = JG_POLICY_BLOCK \<and> \<not> rule_enforced s client r"
      using sel(1) Some by (auto simp: winners_match_def default_match_def Let_def rule_enforced_def
          enforcement_for_def split: option.splits)
    moreover have "\<not> input_enforced config client i \<Longrightarrow> r_effect r = JG_POLICY_BLOCK"
      using i(2) by (auto simp: input_enforced_def rule_for_def)
    moreover have "m_matched m" "m_rule_id m = in_id i" "m_configured_effect m = in_effect i"
      "m_source m = in_source i" "m_domain m = Some (normal_domain env i)"
      "m_attribution m = Some (in_attribution i)"
      using sel(1) Some i(2,3)
      by (simp_all add: winners_match_def default_match_def Let_def rule_for_def split: option.splits)
    ultimately show ?thesis using m i rank by auto
  qed
qed

text \<open>
  C3. The verdict of the policy engine on a name is exact. On a snapshot built from any rule inputs
  and any enforcement configuration, provided that the second normalisation of the names, whose
  result the builder ignores, succeeds as the first did (\<open>second_pass\<close>), matching a normalised name
  for a client returns, with every read of the table, the rules and the strings in range, the effect
  BLOCK exactly when some block rule that applies is enforced for the client and no allow rule
  applies; otherwise it returns ALLOW. A rule applies when its protocol target is the one asked for,
  its scope covers the client, and its normalised domain matches the name as \<open>jg_domain_matches\<close>
  defines it, through whatever hash function and table layout.
\<close>

theorem policy_effect_exact:
  assumes "jg_policy_snapshot_build_configured env env' inputs dinputs config gen = Done s"
    and "second_pass env env' inputs" and "inputs_typed inputs dinputs config"
    and "client_opt_typed client" and "client_valid client" and "policy_domain d"
  shows "\<exists>m. match_domain_target env s d client target = Done m \<and> m_effect m =
    (if (\<exists>i \<in> set inputs. input_applies env client target d i \<and> in_effect i = JG_POLICY_BLOCK
           \<and> input_enforced config client i)
        \<and> \<not> (\<exists>i \<in> set inputs. input_applies env client target d i \<and> in_effect i = JG_POLICY_ALLOW)
     then JG_POLICY_BLOCK else JG_POLICY_ALLOW)"
  using domain_verdict [OF verdict_settingI [OF assms(1-5)] assms(6), of target]
  unfolding domain_blocked_def by blast

text \<open>
  C4. The explanation of the verdict is exact too, on a snapshot whose build had a second
  normalisation pass that succeeds as the first did. A rule is reported as matched exactly when some
  input applies, and the rule reported is an input that applies, with its own identifier, action,
  source, normalised domain and attribution, that no other applying input outranks: first by the
  precedence class (emergency, client allow, global allow, client block, global block, blocklist),
  then by the longer domain, then by the smaller identifier. The reported enforcement is ENFORCE when
  the input is enforced for the client and OBSERVE otherwise, and the match is reported as one that
  would have blocked exactly in the second case.
\<close>

theorem policy_selected_exact:
  assumes "jg_policy_snapshot_build_configured env env' inputs dinputs config gen = Done s"
    and "second_pass env env' inputs" and "inputs_typed inputs dinputs config"
    and "client_opt_typed client" and "client_valid client" and "policy_domain d"
  shows "\<exists>m. match_domain_target env s d client target = Done m
    \<and> (m_matched m \<longleftrightarrow> (\<exists>i \<in> set inputs. input_applies env client target d i))
    \<and> (m_matched m \<longrightarrow> (\<exists>i \<in> set inputs. input_applies env client target d i
         \<and> m_rule_id m = in_id i \<and> m_configured_effect m = in_effect i \<and> m_source m = in_source i
         \<and> m_domain m = Some (normal_domain env i) \<and> m_attribution m = Some (in_attribution i)
         \<and> m_enforcement m = (if input_enforced config client i then JG_POLICY_ENFORCE else JG_POLICY_OBSERVE)
         \<and> (m_would_have_blocked m \<longleftrightarrow> \<not> input_enforced config client i)
         \<and> (\<forall>j \<in> set inputs. input_applies env client target d j \<longrightarrow> input_rank env j \<le> input_rank env i)))"
  using domain_selected [OF verdict_settingI [OF assms(1-5)] assms(6)] .

text \<open>
  The second pass is not checked: whatever it returns, the preparation succeeds when the first pass
  did, and a rule whose second normalisation fails is kept with the empty domain.
\<close>

lemma second_pass_unchecked:
  assumes "prepare_rules env env inputs = Done prepared"
  shows "prepare_rules env env' inputs = Done (map (fill_rule env') inputs)
    \<and> (\<forall>i \<in> set inputs. (\<exists>e. jg_domain_normalize env' (in_domain i) (JG_DOMAIN_NAME_MAX + 1) = Inl e) \<longrightarrow>
         b_domain (fill_rule env' i) = [])"
  using assms
  by (auto simp: prepare_rules_def fill_rule_def and_then_Done_iff split: if_splits)

section \<open>Every valid policy builds\<close>

definition succeeds :: "('e, 'a) run \<Rightarrow> bool" where
  "succeeds m \<longleftrightarrow> (\<exists>x. m = Done x)"

lemma succeeds_simps [simp]:
  "succeeds (Done x)" "\<not> succeeds (Fail e)" "\<not> succeeds Fault"
  "succeeds (and_then m f) \<longleftrightarrow> (\<exists>x. m = Done x \<and> succeeds (f x))"
  by (auto simp: succeeds_def)

lemma attribution_loop_max: "attribution_loop k a = Inr n \<Longrightarrow> n = k + length a \<and> n \<le> 255"
  by (induction k a rule: attribution_loop.induct)
    (auto simp: JG_POLICY_ATTRIBUTION_MAX_def split: if_splits)

lemma input_string_sizes:
  assumes "input_valid env i"
  shows "length (normal_domain env i) \<le> 253" "length (in_attribution i) \<le> 255"
    "attribution_length (in_attribution i) = Inr (length (in_attribution i))"
proof -
  show "length (normal_domain env i) \<le> 253"
    using jg_domain_normalize_Inr [OF normal_domain_eq [OF assms]] by (simp add: JG_DOMAIN_NAME_MAX_def)
  show "length (in_attribution i) \<le> 255" "attribution_length (in_attribution i) = Inr (length (in_attribution i))"
    using assms attribution_loop_max [of 0 "in_attribution i"]
    by (auto simp: input_valid_def attribution_length_def)
qed

lemma size_add_small: "a + b \<le> UINT32_MAX \<Longrightarrow> jg_size_add a b = Some (a + b)"
  by (simp add: jg_size_add_def UINT32_MAX_def SIZE_MAX_def)

lemma validate_rules_succeeds:
  assumes "\<And>i. i \<in> set inputs \<Longrightarrow> input_valid env i" and "p + 510 * length inputs \<le> UINT32_MAX"
  shows "succeeds (validate_rules env inputs p)"
  using assms
proof (induction inputs arbitrary: p)
  case (Cons i inputs)
  have v: "input_valid env i" using Cons.prems(1) by simp
  let ?p1 = "p + (length (normal_domain env i) + 1)"
  let ?p2 = "?p1 + (length (in_attribution i) + 1)"
  have le: "?p2 + 510 * length inputs \<le> UINT32_MAX"
    using input_string_sizes [OF v] Cons.prems(2) by simp
  obtain sc where sc: "jg_policy_scope_normalize (in_scope i) = Inr sc" "in_id i \<noteq> 0" "rule_class_valid i"
    using v by (auto simp: input_valid_def)
  have "succeeds (validate_rules env inputs ?p2)" using Cons.IH [OF _ le] Cons.prems(1) by simp
  then show ?case
    using sc normal_domain_eq [OF v] input_string_sizes(3) [OF v] le
      size_add_small [of p "length (normal_domain env i) + 1"]
      size_add_small [of ?p1 "length (in_attribution i) + 1"]
    by (simp add: or_fail_def)
qed simp

lemma measure_rules_succeeds:
  assumes "\<And>r. r \<in> set brs \<Longrightarrow> length (b_domain r) \<le> 253 \<and> length (b_attribution r) \<le> 255"
    and "p + 510 * length brs \<le> UINT32_MAX"
  shows "succeeds (measure_rules prev brs p u)"
  using assms
proof (induction brs arbitrary: prev p u)
  case (Cons r brs)
  let ?p1 = "p + (length (b_domain r) + 1)"
  let ?p2 = "?p1 + (length (b_attribution r) + 1)"
  have le: "?p2 + 510 * length brs \<le> UINT32_MAX" using Cons.prems(1) [of r] Cons.prems(2) by simp
  have "succeeds (measure_rules prev' brs ?p2 u')" for prev' u'
    using Cons.IH [OF _ le] Cons.prems(1) by simp
  then show ?case
    using le size_add_small [of p "length (b_domain r) + 1"] size_add_small [of ?p1 "length (b_attribution r) + 1"]
    by (simp add: or_fail_def)
qed simp

lemma capacity_loop_succeeds:
  "required \<le> SIZE_MAX div 2 \<Longrightarrow> succeeds (capacity_loop required k)"
proof (induction required k rule: capacity_loop.induct)
  case (1 required k)
  then show ?case by (subst capacity_loop.simps) auto
qed

lemma capacity_loop_bound:
  "capacity_loop required k = Done cap \<Longrightarrow> cap \<le> max (2 ^ k) (2 * required)"
proof (induction required k rule: capacity_loop.induct)
  case (1 required k)
  then show ?case by (subst (asm) capacity_loop.simps) (force split: if_splits)
qed

lemma fill_table_not_fail: "fill_table env key area stored tab i \<noteq> Fail e"
proof (induction env key area stored tab i rule: fill_table.induct)
  case (1 env key area stored tab i)
  show ?case
  proof (cases "i < length stored")
    case True
    let ?d = "cstring area (r_domain_offset (stored ! i))"
    show ?thesis
      using 1 [OF True refl refl refl refl] True
      by (subst fill_table.simps)
        (cases "raw (probe (\<lambda>i. \<not> s_occupied (tab ! i)) (length tab)
          (unat (domain_hash env key ?d) AND (length tab - 1)) (length tab)) :: (errno, nat) run";
          simp add: Let_def)
  qed (subst fill_table.simps, simp)
qed

lemma and_then_Fail_iff:
  "and_then m f = Fail e \<longleftrightarrow> m = Fail e \<or> (\<exists>x. m = Done x \<and> f x = Fail e)"
  by (cases m) auto

lemma succeeds_iff: "succeeds m \<longleftrightarrow> m \<noteq> Fault \<and> (\<forall>e. m \<noteq> Fail e)"
  by (cases m) (auto simp: succeeds_def)

text \<open>The most rules for which all sizes are sure to fit: four million.\<close>

definition rule_limit :: nat where
  "rule_limit = 4194304"

lemma size_multiply_small: "a \<le> 16 * rule_limit \<Longrightarrow> b \<le> 1024 \<Longrightarrow> jg_size_multiply a b = Some (a * b)"
proof -
  assume "a \<le> 16 * rule_limit" "b \<le> 1024"
  then have "a * b \<le> (16 * rule_limit) * 1024" by (intro mult_mono) simp_all
  then show ?thesis by (simp add: jg_size_multiply_Some_iff SIZE_MAX_def rule_limit_def)
qed

lemma snapshot_populate_succeeds:
  assumes "sorted (map b_domain brs)"
    and strings: "\<And>r. r \<in> set brs \<Longrightarrow> 0 \<notin> set (b_domain r) \<and> 0 \<notin> set (b_attribution r)
      \<and> length (b_domain r) \<le> 253 \<and> length (b_attribution r) \<le> 255"
    and "rules snapshot = []" "table_capacity snapshot = 0"
    and "length brs \<le> rule_limit" and alloc: "\<And>n. malloc env n"
  shows "succeeds (snapshot_populate env snapshot brs)"
proof -
  obtain ss u where m: "measure_rules None brs 0 0 = Done (ss, u)"
    using measure_rules_succeeds [of brs 0 None 0] strings assms(5)
    by (auto simp: succeeds_def rule_limit_def UINT32_MAX_def)
  have u: "u \<le> rule_limit"
    using measure_rules_Done [OF m] remdups_adj_length [of "map b_domain brs"] assms(5) by simp
  obtain cap where cap: "capacity_loop (u * 2) 0 = Done cap"
    using capacity_loop_succeeds [of "u * 2" 0] u by (auto simp: succeeds_def rule_limit_def SIZE_MAX_def)
  have "cap \<le> 16 * rule_limit" using capacity_loop_bound [OF cap] u by (simp add: rule_limit_def)
  then have sizes: "jg_size_multiply (length brs) 80 = Some (length brs * 80)"
    "jg_size_multiply u 2 = Some (u * 2)" "jg_size_multiply cap 24 = Some (cap * 24)"
    using u assms(5) by (simp_all add: size_multiply_small)
  have "snapshot_populate env snapshot brs \<noteq> Fault"
    using snapshot_populate_ensures [OF assms(1) _ assms(3,4), of env] strings by (auto simp: ensures_def)
  moreover have "snapshot_populate env snapshot brs \<noteq> Fail e" for e
    using m cap sizes alloc
    by (auto simp: snapshot_populate_def and_then_Fail_iff fill_table_not_fail Let_def split: prod.splits)
  ultimately show ?thesis by (simp add: succeeds_iff)
qed

lemma validate_destination_rules_succeeds:
  assumes "\<And>i. i \<in> set inputs \<Longrightarrow> destination_input_valid i" and "p + 256 * length inputs \<le> UINT32_MAX"
  shows "succeeds (validate_destination_rules inputs p)"
  using assms
proof (induction inputs arbitrary: p)
  case (Cons i inputs)
  have v: "destination_input_valid i" using Cons.prems(1) by simp
  obtain a sc n where i: "destination_address_normalize i = Inr a"
    "jg_policy_scope_normalize (din_scope i) = Inr sc" "attribution_length (din_attribution i) = Inr n"
    using v unfolding destination_input_valid_def by blast
  have "n \<le> 255" using attribution_loop_max i(3) by (auto simp: attribution_length_def)
  then have le: "p + (n + 1) + 256 * length inputs \<le> UINT32_MAX" using Cons.prems(2) by simp
  have "succeeds (validate_destination_rules inputs (p + (n + 1)))"
    using Cons.IH [OF _ le] Cons.prems(1) by simp
  then show ?case
    using i v le size_add_small [of p "n + 1"]
    by (auto simp: destination_input_valid_def or_fail_def valid_transports_def)
qed simp

lemma measure_destination_rules_succeeds:
  assumes "\<And>r. r \<in> set brs \<Longrightarrow> length (bd_attribution r) \<le> 255" and "p + 256 * length brs \<le> UINT32_MAX"
  shows "succeeds (measure_destination_rules brs p)"
  using assms
proof (induction brs arbitrary: p)
  case (Cons r brs)
  have le: "p + (length (bd_attribution r) + 1) + 256 * length brs \<le> UINT32_MAX"
    using Cons.prems(1) [of r] Cons.prems(2) by simp
  have "succeeds (measure_destination_rules brs (p + (length (bd_attribution r) + 1)))"
    using Cons.IH [OF _ le] Cons.prems(1) by simp
  then show ?case
    using le size_add_small [of p "length (bd_attribution r) + 1"] by (simp add: or_fail_def)
qed simp

definition config_valid :: "jg_policy_enforcement_config option \<Rightarrow> bool" where
  "config_valid config \<longleftrightarrow> (\<forall>c. config = Some c \<longrightarrow>
     (conf_global c = JG_POLICY_ENFORCE \<or> conf_global c = JG_POLICY_OBSERVE)
     \<and> length (conf_observed_scopes c) \<le> JG_POLICY_OBSERVED_SCOPE_LIMIT
     \<and> (\<forall>s \<in> set (conf_observed_scopes c). s \<noteq> JG_POLICY_SCOPE_GLOBAL
          \<and> (\<exists>n. jg_policy_scope_normalize s = Inr n)))"

lemma normalize_observed_succeeds:
  "(\<And>s. s \<in> set scopes \<Longrightarrow> s \<noteq> JG_POLICY_SCOPE_GLOBAL \<and> (\<exists>n. jg_policy_scope_normalize s = Inr n)) \<Longrightarrow>
   succeeds (normalize_observed scopes)"
proof (induction scopes)
  case (Cons s scopes)
  obtain n where "jg_policy_scope_normalize s = Inr n" "s \<noteq> JG_POLICY_SCOPE_GLOBAL" using Cons.prems by auto
  moreover have "scope_type s \<noteq> 0" using calculation by (cases s) auto
  moreover obtain ns where "normalize_observed scopes = Done ns" using Cons by (auto simp: succeeds_def)
  ultimately show ?case by simp
qed simp

lemma snapshot_populate_enforcement_succeeds:
  assumes "config_valid config" and "\<And>n. malloc env n"
  shows "succeeds (snapshot_populate_enforcement env snapshot config)"
proof (cases config)
  case (Some c)
  then obtain ns where "normalize_observed (conf_observed_scopes c) = Done ns"
    using normalize_observed_succeeds [of "conf_observed_scopes c"] assms(1)
    by (auto simp: config_valid_def succeeds_def)
  then show ?thesis
    using Some assms by (auto simp: snapshot_populate_enforcement_def config_valid_def Let_def)
qed (simp add: snapshot_populate_enforcement_def)

lemma retain_length: "length (retain same xs) \<le> length xs"
proof -
  have "length (foldl (retain_step same) kept xs) \<le> length kept + length xs" for kept
  proof (induction xs arbitrary: kept)
    case (Cons x xs)
    show ?case using Cons.IH [of "retain_step same kept x"] by (auto simp: retain_step_def split: if_splits)
  qed simp
  from this [of "[]"] show ?thesis by (simp add: retain_def)
qed

lemma qsort_length: "length (qsort cmp xs) = length xs"
proof -
  have "length (insert_by cmp x ys) = Suc (length ys)" for x ys by (induction ys) auto
  then show ?thesis by (induction xs) (simp_all add: qsort_def)
qed

lemma fill_rule_sizes:
  "input_valid env i \<Longrightarrow> length (b_domain (fill_rule env i)) \<le> 253 \<and> length (b_attribution (fill_rule env i)) \<le> 255"
  using input_string_sizes [of env i] by (simp add: normal_domain_def) (simp add: fill_rule_def)

lemma fill_destination_rule_size:
  "destination_input_valid i \<Longrightarrow> length (bd_attribution (fill_destination_rule i)) \<le> 255"
  using attribution_loop_max [of 0 "din_attribution i"]
  by (auto simp: destination_input_valid_def attribution_length_def fill_destination_rule_def
      split: prod.splits)

definition buildable where
  "buildable env inputs dinputs config gen \<longleftrightarrow> gen \<noteq> (0 :: u64) \<and> sodium_init env \<and> (\<forall>n. malloc env n)
     \<and> (\<exists>t. clock env = Some t) \<and> inputs_typed inputs dinputs config
     \<and> length inputs \<le> rule_limit \<and> length dinputs \<le> rule_limit
     \<and> (\<forall>i \<in> set inputs. input_valid env i) \<and> (\<forall>i \<in> set dinputs. destination_input_valid i)
     \<and> config_valid config"

lemma prepare_succeeds:
  assumes "buildable env inputs dinputs config gen"
  shows "prepare_rules env env inputs = Done (map (fill_rule env) inputs)"
    and "prepare_destination_rules env dinputs = Done (map fill_destination_rule dinputs)"
proof -
  have "succeeds (validate_rules env inputs 0)" "succeeds (validate_destination_rules dinputs 0)"
    using assms by (auto simp: buildable_def rule_limit_def UINT32_MAX_def
        intro!: validate_rules_succeeds validate_destination_rules_succeeds)
  then show "prepare_rules env env inputs = Done (map (fill_rule env) inputs)"
    "prepare_destination_rules env dinputs = Done (map fill_destination_rule dinputs)"
    using assms size_multiply_small [of "length inputs" 88] size_multiply_small [of "length dinputs" 104]
    by (auto simp: prepare_rules_def prepare_destination_rules_def buildable_def succeeds_def
        rule_limit_def UINT32_MAX_def)
qed

lemma retained_facts:
  assumes "buildable env inputs dinputs config gen"
  defines "kept \<equiv> retained_rules (map (fill_rule env) inputs)"
    and "dkept \<equiv> retained_destination_rules (map fill_destination_rule dinputs)"
  shows "sorted (map b_domain kept)" "length kept \<le> rule_limit" "length dkept \<le> rule_limit"
    "\<And>r. r \<in> set kept \<Longrightarrow> 0 \<notin> set (b_domain r) \<and> 0 \<notin> set (b_attribution r)
      \<and> length (b_domain r) \<le> 253 \<and> length (b_attribution r) \<le> 255"
    "\<And>r. r \<in> set dkept \<Longrightarrow> 0 \<notin> set (bd_attribution r) \<and> length (bd_attribution r) \<le> 255"
proof -
  have typed: "inputs_typed inputs dinputs config" and v: "\<forall>i \<in> set inputs. input_valid env i"
    and w: "\<forall>i \<in> set dinputs. destination_input_valid i" using assms(1) by (simp_all add: buildable_def)
  have b: "build_rule_valid r \<and> scope_canonical (b_scope r)" if "r \<in> set (map (fill_rule env) inputs)" for r
    using that v typed fill_rule_valid fill_rule_canonical by (fastforce simp: inputs_typed_def)
  have d: "destination_rule_valid r \<and> scope_canonical (bd_scope r)"
    if "r \<in> set (map fill_destination_rule dinputs)" for r
    using that w typed fill_destination_rule_props by (fastforce simp: inputs_typed_def)
  show "sorted (map b_domain kept)"
    unfolding kept_def using retained_rules_props(2) [OF b] by blast
  show "length kept \<le> rule_limit"
    unfolding kept_def retained_rules_def
    by (rule le_trans [OF retain_length]) (use assms(1) in \<open>simp add: qsort_length buildable_def\<close>)
  show "length dkept \<le> rule_limit"
    unfolding dkept_def retained_destination_rules_def
    by (rule le_trans [OF retain_length]) (use assms(1) in \<open>simp add: qsort_length buildable_def\<close>)
  show "0 \<notin> set (b_domain r) \<and> 0 \<notin> set (b_attribution r)
      \<and> length (b_domain r) \<le> 253 \<and> length (b_attribution r) \<le> 255" if "r \<in> set kept" for r
  proof -
    have "r \<in> set (map (fill_rule env) inputs)"
      using that retained_rules_props(1) [OF b] unfolding kept_def by blast
    then obtain i where "i \<in> set inputs" "r = fill_rule env i" by auto
    then show ?thesis using v fill_rule_strings [of env i] fill_rule_sizes [of env i] by simp
  qed
  show "0 \<notin> set (bd_attribution r) \<and> length (bd_attribution r) \<le> 255" if "r \<in> set dkept" for r
  proof -
    have "r \<in> set (map fill_destination_rule dinputs)"
      using that retained_destination_rules_props(1) [OF d] unfolding dkept_def by blast
    then obtain i where "i \<in> set dinputs" "r = fill_destination_rule i" by auto
    then show ?thesis using w fill_destination_rule_props(2) [of i] fill_destination_rule_size [of i] by simp
  qed
qed

lemma snapshot_populate_destinations_succeeds:
  assumes "\<And>r. r \<in> set brs \<Longrightarrow> length (bd_attribution r) \<le> 255" and "length brs \<le> rule_limit"
    and "\<And>n. malloc env n"
  shows "succeeds (snapshot_populate_destinations env snapshot brs)"
proof -
  obtain ss where "measure_destination_rules brs 0 = Done ss"
    using measure_destination_rules_succeeds [of brs 0] assms(1,2)
    by (auto simp: succeeds_def rule_limit_def UINT32_MAX_def)
  then show ?thesis
    using assms(2,3) size_multiply_small [of "length brs" 104]
    by (auto simp: snapshot_populate_destinations_def split: prod.splits)
qed

lemma build_configured_succeeds:
  assumes "buildable env inputs dinputs config gen"
  shows "\<exists>s. jg_policy_snapshot_build_configured env env inputs dinputs config gen = Done s
    \<and> (\<forall>d. \<exists>slot. find_slot env s d = Done slot \<and>
         (case slot of None \<Rightarrow> [] | Some x \<Rightarrow> slice (unat (s_first_rule x)) (unat (s_rule_count x)) (rules s))
         = filter (\<lambda>r. cstring (strings s) (r_domain_offset r) = d) (rules s))"
proof -
  note k = retained_facts [OF assms]
  have alloc: "\<And>n. malloc env n" and conf: "config_valid config" "config_typed config"
    using assms by (auto simp: buildable_def inputs_typed_def)
  let ?s0 = "cleared_snapshot\<lparr>hash_key := randombytes env 16\<rparr>"
  obtain s1 where s1: "snapshot_populate_enforcement env ?s0 config = Done s1"
    using snapshot_populate_enforcement_succeeds [OF conf(1) alloc] by (auto simp: succeeds_def)
  have "rules s1 = []" "table_capacity s1 = 0"
    using ensuresD [OF snapshot_populate_enforcement_ensures [OF conf(2), of ?s0 env] s1]
    by (simp_all add: cleared_snapshot_def)
  then obtain s2 where s2: "snapshot_populate env s1 (retained_rules (map (fill_rule env) inputs)) = Done s2"
    using snapshot_populate_succeeds [OF k(1,4) _ _ k(2) alloc] by (fastforce simp: succeeds_def)
  obtain s3 where "snapshot_populate_destinations env s2
      (retained_destination_rules (map fill_destination_rule dinputs)) = Done s3"
    using snapshot_populate_destinations_succeeds [OF _ k(3) alloc, of s2] k(5) by (auto simp: succeeds_def)
  then obtain s where s: "jg_policy_snapshot_build_configured env env inputs dinputs config gen = Done s"
    using assms prepare_succeeds [OF assms] s1 s2 alloc
    by (auto simp: jg_policy_snapshot_build_configured_def buildable_def Let_def)
  have of: "snapshot_of env inputs dinputs config gen s"
    using ensuresD [OF build_configured_ensures s] assms by (auto simp: buildable_def)
  then have "lookup_group env s d = filter (\<lambda>r. cstring (strings s) (r_domain_offset r) = d) (rules s)" for d
    by (auto simp: snapshot_of_def intro!: lookup_group_eq)
  then show ?thesis
    using s unfolding lookup_group_def slot_group_def
    by (simp add: find_slot_eq [OF snapshot_of_in_bounds [OF of]])
qed

text \<open>
  C5. The builder accepts every valid policy and needs nothing else: when the rules and the
  enforcement configuration are valid, there are at most four million rules of each kind, memory, the
  clock and libsodium are available and the generation is not zero, it returns a snapshot. The
  string area and the table are large enough, and the loop that looks for a free slot ends. In
  that snapshot the table lookup reads in range and returns, for every name, a slot with exactly the
  stored rules of that domain, or none when there are none.
\<close>

theorem policy_build_succeeds:
  assumes "buildable env inputs dinputs config gen"
  shows "\<exists>s. jg_policy_snapshot_build_configured env env inputs dinputs config gen = Done s
    \<and> (\<forall>d. \<exists>slot. find_slot env s d = Done slot \<and>
         (case slot of None \<Rightarrow> [] | Some x \<Rightarrow> slice (unat (s_first_rule x)) (unat (s_rule_count x)) (rules s))
         = filter (\<lambda>r. cstring (strings s) (r_domain_offset r) = d) (rules s))"
  by (rule build_configured_succeeds [OF assms])

section \<open>A concrete policy\<close>

text \<open>
  A block rule for a domain and everything below it, an allow rule for one name below it, and a block
  rule for one VLAN; the hash is the length of the name, so that names collide.
\<close>

definition example_environment :: policy_environment where
  "example_environment = \<lparr>idn2_lookup_u8 = (\<lambda>_. None), malloc = (\<lambda>_. True),
     crypto_shorthash = (\<lambda>key m. replicate 7 0 @ [of_nat (length m)]),
     crypto_hash_sha256 = (\<lambda>_. replicate 32 0), sodium_init = True,
     randombytes = (\<lambda>n. replicate n 7), clock = Some 1000\<rparr>"

definition example_rule :: "u64 \<Rightarrow> bytes \<Rightarrow> bool \<Rightarrow> jg_policy_effect \<Rightarrow> jg_policy_scope \<Rightarrow> jg_policy_rule_input" where
  "example_rule i d sub eff sc = \<lparr>in_id = i, in_statistics_id = replicate 16 0, in_domain = d,
     in_include_subdomains = sub, in_effect = eff, in_enforcement = JG_POLICY_ENFORCE,
     in_source = JG_POLICY_SOURCE_EXPLICIT, in_target = JG_POLICY_DOMAIN_DNS, in_scope = sc,
     in_attribution = str ''admin''\<rparr>"

definition example_inputs :: "jg_policy_rule_input list" where
  "example_inputs =
     [example_rule 7 (str ''Bad.test'') True JG_POLICY_BLOCK JG_POLICY_SCOPE_GLOBAL,
      example_rule 8 (str ''ok.bad.test'') False JG_POLICY_ALLOW JG_POLICY_SCOPE_GLOBAL,
      example_rule 9 (str ''dad.test'') True JG_POLICY_BLOCK (JG_POLICY_SCOPE_VLAN 5)]"

lemmas domain_eval = jg_domain_normalize_def normalize_ascii_def ascii_lower_def ldh_byte_def
  JG_DOMAIN_NAME_MAX_def JG_DOMAIN_LABEL_MAX_def Let_def

lemma example_domains:
  "jg_domain_normalize example_environment (str ''Bad.test'') (JG_DOMAIN_NAME_MAX + 1) = Inr (str ''bad.test'')"
  "jg_domain_normalize example_environment (str ''ok.bad.test'') (JG_DOMAIN_NAME_MAX + 1) = Inr (str ''ok.bad.test'')"
  "jg_domain_normalize example_environment (str ''dad.test'') (JG_DOMAIN_NAME_MAX + 1) = Inr (str ''dad.test'')"
  by (simp_all add: domain_eval)

lemma example_valid: "\<forall>i \<in> set example_inputs. input_valid example_environment i"
proof -
  have "attribution_length (str ''admin'') = Inr 5"
    by (simp add: attribution_length_def JG_POLICY_ATTRIBUTION_MAX_def)
  then show ?thesis
    using example_domains
    by (simp add: example_inputs_def example_rule_def input_valid_def rule_class_valid_def
        effect_source_valid_def enforcement_valid_def)
qed

lemma example_buildable: "buildable example_environment example_inputs [] None 1"
  using example_valid
  by (simp add: buildable_def inputs_typed_def config_typed_def config_valid_def rule_limit_def)
    (simp add: example_environment_def example_inputs_def example_rule_def)

theorem policy_build_succeeds_witness:
  "buildable example_environment example_inputs [] None 1
   \<and> (\<exists>s. jg_policy_snapshot_build_configured example_environment example_environment example_inputs [] None 1 = Done s
        \<and> (\<forall>d. \<exists>slot. find_slot example_environment s d = Done slot \<and>
             (case slot of None \<Rightarrow> [] | Some x \<Rightarrow> slice (unat (s_first_rule x)) (unat (s_rule_count x)) (rules s))
             = filter (\<lambda>r. cstring (strings s) (r_domain_offset r) = d) (rules s)))"
  using example_buildable policy_build_succeeds [OF example_buildable] by blast

text \<open>
  An allocator that has run out of memory by the second pass: the names of the example are ASCII and
  need no allocation.
\<close>

definition exhausted_environment :: policy_environment where
  "exhausted_environment = example_environment\<lparr>malloc := (\<lambda>_. False)\<rparr>"

lemma example_second_pass: "second_pass example_environment exhausted_environment example_inputs"
proof -
  have "jg_domain_normalize exhausted_environment (in_domain i) (JG_DOMAIN_NAME_MAX + 1) =
      jg_domain_normalize example_environment (in_domain i) (JG_DOMAIN_NAME_MAX + 1)" if "i \<in> set example_inputs" for i
    using that by (auto simp: example_inputs_def example_rule_def domain_eval)
  then show ?thesis
    using example_valid by (simp add: second_pass_def exhausted_environment_def input_valid_def)
qed

lemma example_setting:
  obtains s where
    "jg_policy_snapshot_build_configured example_environment exhausted_environment example_inputs [] None 1 = Done s"
    "inputs_typed example_inputs ([] :: jg_policy_destination_rule_input list) None" "client_opt_typed None" "client_valid None"
  using build_configured_succeeds [OF example_buildable] example_buildable
    second_pass_build [OF example_second_pass, of "[]" None 1]
  by (auto simp: buildable_def client_opt_typed_def client_valid_def)

lemma example_normal:
  "normal_domain example_environment (example_rule i (str ''Bad.test'') sub eff sc) = str ''bad.test''"
  "normal_domain example_environment (example_rule i (str ''ok.bad.test'') sub eff sc) = str ''ok.bad.test''"
  "normal_domain example_environment (example_rule i (str ''dad.test'') sub eff sc) = str ''dad.test''"
  unfolding normal_domain_def fill_rule_def example_rule_def jg_policy_rule_input.simps build_rule.simps
    example_domains by simp_all

lemma example_names: "policy_domain (str ''x.bad.test'')" "policy_domain (str ''ok.bad.test'')"
  by (simp_all add: policy_domain_def ldh_label_def ldh_byte_def JG_DOMAIN_NAME_MAX_def JG_DOMAIN_LABEL_MAX_def)

lemma example_matches:
  "jg_domain_matches (str ''x.bad.test'') (str ''bad.test'') True"
  "\<not> jg_domain_matches (str ''x.bad.test'') (str ''ok.bad.test'') False"
  "\<not> jg_domain_matches (str ''x.bad.test'') (str ''dad.test'') True"
  by (simp_all add: jg_domain_matches_def policy_domain_def ldh_label_def ldh_byte_def JG_DOMAIN_NAME_MAX_def
      JG_DOMAIN_LABEL_MAX_def slice_def)

lemma example_applies:
  "i \<in> set example_inputs \<Longrightarrow>
   input_applies example_environment None JG_POLICY_DOMAIN_DNS (str ''x.bad.test'') i \<longleftrightarrow>
   i = example_rule 7 (str ''Bad.test'') True JG_POLICY_BLOCK JG_POLICY_SCOPE_GLOBAL"
  unfolding example_inputs_def list.set insert_iff empty_iff input_applies_def
  using example_matches
  by (elim disjE FalseE) (simp_all only: example_normal, simp_all add: example_rule_def)

lemma example_in: "example_rule 7 (str ''Bad.test'') True JG_POLICY_BLOCK JG_POLICY_SCOPE_GLOBAL \<in> set example_inputs"
  by (simp add: example_inputs_def)

theorem policy_effect_exact_witness:
  "\<exists>s m. match_domain_target example_environment s (str ''x.bad.test'') None JG_POLICY_DOMAIN_DNS = Done m
     \<and> jg_policy_snapshot_build_configured example_environment exhausted_environment example_inputs [] None 1 = Done s
     \<and> m_effect m = JG_POLICY_BLOCK"
proof -
  obtain s where s:
    "jg_policy_snapshot_build_configured example_environment exhausted_environment example_inputs [] None 1 = Done s"
    "inputs_typed example_inputs ([] :: jg_policy_destination_rule_input list) None" "client_opt_typed None" "client_valid None"
    by (rule example_setting)
  from policy_effect_exact [OF s(1) example_second_pass s(2-4) example_names(1), of JG_POLICY_DOMAIN_DNS] obtain m where
    m: "match_domain_target example_environment s (str ''x.bad.test'') None JG_POLICY_DOMAIN_DNS = Done m"
    "m_effect m = (if (\<exists>i \<in> set example_inputs. input_applies example_environment None JG_POLICY_DOMAIN_DNS
           (str ''x.bad.test'') i \<and> in_effect i = JG_POLICY_BLOCK \<and> input_enforced None None i)
        \<and> \<not> (\<exists>i \<in> set example_inputs. input_applies example_environment None JG_POLICY_DOMAIN_DNS
           (str ''x.bad.test'') i \<and> in_effect i = JG_POLICY_ALLOW)
     then JG_POLICY_BLOCK else JG_POLICY_ALLOW)" by blast
  have "in_effect i = JG_POLICY_BLOCK \<and> input_enforced None None i"
    if "i = example_rule 7 (str ''Bad.test'') True JG_POLICY_BLOCK JG_POLICY_SCOPE_GLOBAL" for i
    unfolding that by (simp add: example_rule_def input_enforced_def config_observes_def)
  then have "m_effect m = JG_POLICY_BLOCK"
    unfolding m(2) using example_applies example_in by (metis jg_policy_effect.distinct(1))
  with s(1) m(1) show ?thesis by blast
qed

theorem policy_selected_exact_witness:
  "\<exists>s m. match_domain_target example_environment s (str ''x.bad.test'') None JG_POLICY_DOMAIN_DNS = Done m
     \<and> jg_policy_snapshot_build_configured example_environment exhausted_environment example_inputs [] None 1 = Done s
    
     \<and> m_matched m \<and> m_rule_id m = 7 \<and> m_domain m = Some (str ''bad.test'')"
proof -
  obtain s where s:
    "jg_policy_snapshot_build_configured example_environment exhausted_environment example_inputs [] None 1 = Done s"
    "inputs_typed example_inputs ([] :: jg_policy_destination_rule_input list) None" "client_opt_typed None" "client_valid None"
    by (rule example_setting)
  from policy_selected_exact [OF s(1) example_second_pass s(2-4) example_names(1), of JG_POLICY_DOMAIN_DNS] obtain m where
    m: "match_domain_target example_environment s (str ''x.bad.test'') None JG_POLICY_DOMAIN_DNS = Done m"
    "m_matched m \<longleftrightarrow> (\<exists>i \<in> set example_inputs. input_applies example_environment None JG_POLICY_DOMAIN_DNS
       (str ''x.bad.test'') i)"
    "m_matched m \<longrightarrow> (\<exists>i \<in> set example_inputs. input_applies example_environment None JG_POLICY_DOMAIN_DNS
       (str ''x.bad.test'') i \<and> m_rule_id m = in_id i \<and> m_domain m = Some (normal_domain example_environment i))"
    by blast
  have matched: "m_matched m" using m(2) example_applies [OF example_in] example_in by blast
  then obtain i where "i = example_rule 7 (str ''Bad.test'') True JG_POLICY_BLOCK JG_POLICY_SCOPE_GLOBAL"
    "m_rule_id m = in_id i" "m_domain m = Some (normal_domain example_environment i)"
    using m(3) example_applies by blast
  then have "m_rule_id m = 7" "m_domain m = Some (str ''bad.test'')"
    by (simp_all only: example_normal) (simp_all add: example_rule_def)
  with s(1) m(1) matched show ?thesis by blast
qed

end
