(* ===== verification/PolicyDestination.thy ===== *)
theory PolicyDestination
  imports PolicyVerdict
begin

text \<open>
  The verdict on a destination, and the simulation of destination and domain policy together, in
  terms of the rule inputs that a snapshot of \<^verbatim>\<open>src/common/policy.c\<close> was built from.
\<close>

section \<open>Stored destination rules and their inputs\<close>

definition destination_for where
  "destination_for s i r \<longleftrightarrow>
     d_priority r = policy_priority (din_effect i) (din_source i) (din_scope i)
     \<and> d_effect r = din_effect i \<and> d_enforcement r = din_enforcement i \<and> d_source r = din_source i
     \<and> d_transport r = din_transport i \<and> d_has_port r = din_has_port i \<and> d_port r = din_port i
     \<and> destination_address_normalize i =
         Inr (d_has_address r, d_address_family r, d_address r, d_prefix_length r)
     \<and> jg_policy_scope_normalize (din_scope i) = Inr (d_scope r)
     \<and> cstring (destination_strings s) (d_attribution_offset r) = din_attribution i"

definition destinations_typed :: "jg_policy_destination_rule_input list \<Rightarrow> bool" where
  "destinations_typed dinputs \<longleftrightarrow> (\<forall>i \<in> set dinputs. length (din_address i) = 16)"

text \<open>Whether a destination rule input applies, and whether it is enforced for a client.\<close>

definition destination_applies where
  "destination_applies client dst i \<longleftrightarrow>
     (din_transport i = JG_POLICY_TRANSPORT_ANY \<or> din_transport i = dst_transport dst)
     \<and> (\<not> din_has_port i \<or> din_port i = dst_port dst)
     \<and> (\<not> din_has_address i \<or> din_address_family i = dst_family dst
         \<and> in_network (dst_address dst) (din_address i) (unat (din_prefix_length i)))
     \<and> scope_covers (din_scope i) client"

definition destination_enforced where
  "destination_enforced config client i \<longleftrightarrow> din_effect i \<noteq> JG_POLICY_BLOCK
     \<or> din_enforcement i \<noteq> JG_POLICY_OBSERVE \<and> \<not> config_observes config client"

lemma fill_destination_for:
  assumes "destination_input_valid i" and "stored_destination_as (destination_strings s) r b"
    and "b = (fill_destination_rule i)\<lparr>bd_id := x, bd_statistics_id := y\<rparr>"
  shows "destination_for s i r \<and> d_id r = x"
proof -
  obtain c where r: "r = store_destination_rule c b"
    "cstring (destination_strings s) (d_attribution_offset r) = bd_attribution b"
    using assms(2) by (auto simp: stored_destination_as_def)
  obtain t x where t: "jg_policy_scope_normalize (din_scope i) = Inr t"
    and x: "destination_address_normalize i = Inr x"
    using assms(1) unfolding destination_input_valid_def by blast
  obtain h f a p where n: "destination_address_normalize i = Inr (h, f, a, p)"
    using x by (cases x) auto
  show ?thesis
    using r t n normalize_scope_type [OF t] unfolding destination_for_def
    by (simp add: store_destination_rule_def policy_priority_def assms(3) fill_destination_rule_def)
qed

lemma snapshot_destinations_prepared:
  assumes "snapshot_of env inputs dinputs config gen s" and "inputs_typed inputs dinputs config"
    and "b \<in> set (map fill_destination_rule dinputs)"
  shows "destination_rule_valid b \<and> scope_canonical (bd_scope b)"
  using assms fill_destination_rule_props by (fastforce simp: inputs_typed_def snapshot_of_def)

lemma snapshot_destination_input:
  assumes s: "snapshot_of env inputs dinputs config gen s" and typed: "inputs_typed inputs dinputs config"
    and r: "r \<in> set (destination_rules s)"
  shows "\<exists>i \<in> set dinputs. destination_for s i r \<and> d_id r = din_id i"
proof -
  let ?b = "map fill_destination_rule dinputs"
  have l: "list_all2 (stored_destination_as (destination_strings s)) (destination_rules s)
      (retained_destination_rules ?b)"
    using s by (simp add: snapshot_of_def)
  obtain b where b: "b \<in> set (retained_destination_rules ?b)"
    "stored_destination_as (destination_strings s) r b"
    using r l by (fastforce simp: list_all2_conv_all_nth in_set_conv_nth)
  then obtain i where i: "i \<in> set dinputs" "b = fill_destination_rule i"
    using retained_destination_rules_props(1) [of ?b] snapshot_destinations_prepared [OF s typed] by auto
  then have "destination_input_valid i" using s by (simp add: snapshot_of_def)
  then have "destination_for s i r \<and> d_id r = din_id i"
    using fill_destination_for [OF _ b(2), of i, where x = "din_id i" and y = "din_statistics_id i"] i(2)
    by (simp add: fill_destination_rule_def split: prod.splits)
  then show ?thesis using i(1) by blast
qed

lemma snapshot_input_destination:
  assumes s: "snapshot_of env inputs dinputs config gen s" and typed: "inputs_typed inputs dinputs config"
    and i: "i \<in> set dinputs"
  shows "\<exists>r \<in> set (destination_rules s). destination_for s i r \<and> d_id r \<le> din_id i"
proof -
  let ?b = "map fill_destination_rule dinputs" and ?f = "fill_destination_rule i"
  have l: "list_all2 (stored_destination_as (destination_strings s)) (destination_rules s)
      (retained_destination_rules ?b)"
    using s by (simp add: snapshot_of_def)
  obtain k where k: "k \<in> set (retained_destination_rules ?b)"
    "?f = k\<lparr>bd_id := bd_id ?f, bd_statistics_id := bd_statistics_id ?f\<rparr>" "bd_id k \<le> bd_id ?f"
    using retained_destination_rules_props(2) [of ?b ?f] snapshot_destinations_prepared [OF s typed] i by auto
  obtain r where r: "r \<in> set (destination_rules s)" "stored_destination_as (destination_strings s) r k"
    using k(1) l by (fastforce simp: list_all2_conv_all_nth in_set_conv_nth)
  have "k = ?f\<lparr>bd_id := bd_id k, bd_statistics_id := bd_statistics_id k\<rparr>"
    by (subst k(2)) simp
  moreover have "destination_input_valid i" using s i by (simp add: snapshot_of_def)
  ultimately have "destination_for s i r \<and> d_id r = bd_id k" using fill_destination_for [OF _ r(2)] by blast
  moreover have "bd_id ?f = din_id i" by (simp add: fill_destination_rule_def split: prod.splits)
  ultimately show ?thesis using r(1) k(3) by auto
qed

section \<open>Matching\<close>

lemma destination_for_applies:
  assumes "destination_for s i r" and "scope_typed (din_scope i)" and "client_opt_typed client"
    and "length (din_address i) = 16" and "length (dst_address dst) = 16"
  shows "destination_rule_matches r dst client \<longleftrightarrow> destination_applies client dst i"
proof -
  have "scope_matches (d_scope r) client \<longleftrightarrow> scope_covers (din_scope i) client"
    using assms(1,2,3) normalize_scope_matches by (simp add: destination_for_def client_opt_typed_def)
  moreover have "d_has_address r = din_has_address i"
    and "din_has_address i \<Longrightarrow> d_address_family r = din_address_family i
      \<and> address_matches (dst_address dst) (d_address r) (d_prefix_length r) =
        in_network (dst_address dst) (din_address i) (unat (din_prefix_length i))"
    using assms(1,4,5) address_matches_mask [of "dst_address dst" "din_address i" 4 "din_prefix_length i"]
      address_matches_mask [of "dst_address dst" "din_address i" 16 "din_prefix_length i"]
    by (auto simp: destination_for_def destination_address_normalize_def word_le_nat_alt not_less
        split: if_splits)
  ultimately show ?thesis
    using assms(1) by (auto simp: destination_rule_matches_def destination_applies_def destination_for_def)
qed

lemma destination_scan:
  "foldl (destination_step s dst client) (a, b) rs =
     (foldl (consider_rule destination_rule_precedes (\<lambda>r. destination_rule_matches r dst client)) a rs,
      foldl (consider_rule destination_rule_precedes (\<lambda>r. destination_rule_matches r dst client
        \<and> enforcement_for s (d_effect r) (d_enforcement r) client = JG_POLICY_ENFORCE)) b rs)"
  by (induction rs arbitrary: a b) (auto simp: destination_step_def consider_rule_def)

lemma destination_priority_effect:
  assumes "destination_input_valid i"
  shows "din_effect i = JG_POLICY_ALLOW \<longleftrightarrow> 4 \<le> policy_priority (din_effect i) (din_source i) (din_scope i)"
    and "din_effect i = JG_POLICY_ALLOW \<or> din_effect i = JG_POLICY_BLOCK"
  using assms by (auto simp: destination_input_valid_def effect_source_valid_def policy_priority_def
      split: if_splits jg_policy_source.splits)

text \<open>The setting of the destination statements.\<close>

definition destination_setting where
  "destination_setting env inputs dinputs config gen s client dst \<longleftrightarrow>
     verdict_setting env inputs dinputs config gen s client \<and> destinations_typed dinputs
     \<and> destination_valid dst \<and> length (dst_address dst) = 16"

lemma match_destination_best:
  assumes "destination_setting env inputs dinputs config gen s client dst"
  obtains sel enf where "destination_match s dst client = Inr (destination_winners s client sel enf)"
    "best_in destination_rank {r \<in> set (destination_rules s). destination_rule_matches r dst client} sel"
    "best_in destination_rank {r \<in> set (destination_rules s). destination_rule_matches r dst client
      \<and> enforcement_for s (d_effect r) (d_enforcement r) client = JG_POLICY_ENFORCE} enf"
proof -
  have "destination_rule_count (info s) = length (destination_rules s)"
    using assms verdict_settingD(1) by (fastforce simp: destination_setting_def snapshot_of_def)
  then show ?thesis
    using assms verdict_settingD(4)
    by (intro that [OF _ destination_selection.scan_best destination_selection.scan_best])
      (auto simp: destination_setting_def destination_match_def destination_scan)
qed

lemma destination_applies_inputs:
  assumes "destination_setting env inputs dinputs config gen s client dst"
  shows "r \<in> set (destination_rules s) \<Longrightarrow> destination_rule_matches r dst client \<Longrightarrow>
      \<exists>i \<in> set dinputs. destination_for s i r \<and> d_id r = din_id i \<and> destination_applies client dst i
        \<and> (enforcement_for s (d_effect r) (d_enforcement r) client = JG_POLICY_ENFORCE
           \<longleftrightarrow> destination_enforced config client i)"
    and "i \<in> set dinputs \<Longrightarrow> destination_applies client dst i \<Longrightarrow>
      \<exists>r \<in> set (destination_rules s). destination_for s i r \<and> d_id r \<le> din_id i
        \<and> destination_rule_matches r dst client
        \<and> (enforcement_for s (d_effect r) (d_enforcement r) client = JG_POLICY_ENFORCE
           \<longleftrightarrow> destination_enforced config client i)"
proof -
  have vs: "verdict_setting env inputs dinputs config gen s client"
    using assms by (simp add: destination_setting_def)
  note v = verdict_settingD [OF vs]
  have ap: "destination_rule_matches r dst client \<longleftrightarrow> destination_applies client dst i"
    if "i \<in> set dinputs" "destination_for s i r" for i r
    using destination_for_applies [OF that(2) _ v(3)] that assms v(2)
    by (simp add: inputs_typed_def destination_setting_def destinations_typed_def)
  have en: "enforcement_for s (d_effect r) (d_enforcement r) client = JG_POLICY_ENFORCE
      \<longleftrightarrow> destination_enforced config client i" if "destination_for s i r" for i r
    using that v(3,6) by (auto simp: destination_for_def enforcement_for_def enforcement_ok_def
        destination_enforced_def)
  show "\<exists>i \<in> set dinputs. destination_for s i r \<and> d_id r = din_id i \<and> destination_applies client dst i
        \<and> (enforcement_for s (d_effect r) (d_enforcement r) client = JG_POLICY_ENFORCE
           \<longleftrightarrow> destination_enforced config client i)"
    if "r \<in> set (destination_rules s)" "destination_rule_matches r dst client"
    using snapshot_destination_input [OF v(1,2) that(1)] that(2) ap en by blast
  show "\<exists>r \<in> set (destination_rules s). destination_for s i r \<and> d_id r \<le> din_id i
        \<and> destination_rule_matches r dst client
        \<and> (enforcement_for s (d_effect r) (d_enforcement r) client = JG_POLICY_ENFORCE
           \<longleftrightarrow> destination_enforced config client i)"
    if "i \<in> set dinputs" "destination_applies client dst i"
    using snapshot_input_destination [OF v(1,2) that(1)] that ap en by blast
qed

lemma destination_winners_effect:
  "m_effect (destination_winners s client sel enf) = (case enf of None \<Rightarrow> JG_POLICY_ALLOW | Some r \<Rightarrow> d_effect r)"
  "m_matched (destination_winners s client sel enf) \<longleftrightarrow> sel \<noteq> None"
  by (simp_all add: destination_winners_def default_match_def Let_def split: option.splits)

text \<open>The abstract verdict: an applying enforced block and no applying allow.\<close>

definition destination_blocked where
  "destination_blocked dinputs config client dst \<longleftrightarrow>
     (\<exists>i \<in> set dinputs. destination_applies client dst i \<and> din_effect i = JG_POLICY_BLOCK
        \<and> destination_enforced config client i)
     \<and> \<not> (\<exists>i \<in> set dinputs. destination_applies client dst i \<and> din_effect i = JG_POLICY_ALLOW)"

lemma destination_verdict:
  assumes "destination_setting env inputs dinputs config gen s client dst"
  shows "\<exists>m. jg_policy_match_destination s dst client = Done m
    \<and> m_effect m = (if destination_blocked dinputs config client dst then JG_POLICY_BLOCK else JG_POLICY_ALLOW)
    \<and> (m_matched m \<longleftrightarrow> (\<exists>i \<in> set dinputs. destination_applies client dst i))"
proof -
  obtain sel enf where m: "destination_match s dst client = Inr (destination_winners s client sel enf)"
    and sel: "best_in destination_rank {r \<in> set (destination_rules s). destination_rule_matches r dst client} sel"
    and enf: "best_in destination_rank {r \<in> set (destination_rules s). destination_rule_matches r dst client
      \<and> enforcement_for s (d_effect r) (d_enforcement r) client = JG_POLICY_ENFORCE} enf"
    using match_destination_best [OF assms] by blast
  have valid: "destination_input_valid i" if "i \<in> set dinputs" for i
    using that assms verdict_settingD(1) by (fastforce simp: destination_setting_def snapshot_of_def)
  note to_input = destination_applies_inputs(1) [OF assms]
  note to_rule = destination_applies_inputs(2) [OF assms]
  have matched: "sel \<noteq> None \<longleftrightarrow> (\<exists>i \<in> set dinputs. destination_applies client dst i)"
    using best_in_None_iff [OF sel] to_input to_rule by blast
  have "m_effect (destination_winners s client sel enf) =
      (if destination_blocked dinputs config client dst then JG_POLICY_BLOCK else JG_POLICY_ALLOW)"
  proof (cases enf)
    case None
    have "\<not> destination_enforced config client i" if "i \<in> set dinputs" "destination_applies client dst i" for i
      using to_rule [OF that] enf None by auto
    then show ?thesis using None by (auto simp: destination_winners_effect destination_blocked_def)
  next
    case (Some r)
    from enf Some have r: "r \<in> set (destination_rules s)" "destination_rule_matches r dst client"
      "enforcement_for s (d_effect r) (d_enforcement r) client = JG_POLICY_ENFORCE"
      and prio: "\<And>x. x \<in> set (destination_rules s) \<Longrightarrow> destination_rule_matches x dst client \<Longrightarrow>
        enforcement_for s (d_effect x) (d_enforcement x) client = JG_POLICY_ENFORCE \<Longrightarrow>
        d_priority x \<le> d_priority r"
      by (auto simp: destination_rank_def)
    obtain i where i: "i \<in> set dinputs" "destination_for s i r" "destination_applies client dst i"
      "destination_enforced config client i"
      using to_input [OF r(1,2)] r(3) by blast
    have no_allow: "din_effect j \<noteq> JG_POLICY_ALLOW"
      if blk: "din_effect i = JG_POLICY_BLOCK" and j: "j \<in> set dinputs" "destination_applies client dst j" for j
    proof
      assume allow: "din_effect j = JG_POLICY_ALLOW"
      then obtain x where x: "x \<in> set (destination_rules s)" "destination_for s j x"
        "destination_rule_matches x dst client"
        "enforcement_for s (d_effect x) (d_enforcement x) client = JG_POLICY_ENFORCE"
        using to_rule [OF j] by (auto simp: destination_enforced_def)
      then have "policy_priority (din_effect j) (din_source j) (din_scope j)
          \<le> policy_priority (din_effect i) (din_source i) (din_scope i)"
        using prio [of x] i(2) by (simp add: destination_for_def)
      then show False
        using destination_priority_effect(1) [OF valid [OF j(1)]]
          destination_priority_effect(1) [OF valid [OF i(1)]] allow blk by simp
    qed
    have "d_effect r = din_effect i" using i(2) by (simp add: destination_for_def)
    then show ?thesis
      using Some i no_allow destination_priority_effect(2) [OF valid [OF i(1)]]
      by (auto simp: destination_winners_effect destination_blocked_def)
  qed
  moreover have "snapshot_in_bounds s" using assms verdict_settingD(7) by (auto simp: destination_setting_def)
  ultimately show ?thesis
    using m matched by (simp add: match_destination_eq lift_result_def destination_winners_effect(2))
qed

text \<open>
  C6. The verdict of the policy engine on a destination is exact. On a snapshot built from any
  destination rules and enforcement configuration, matching a destination returns the effect BLOCK
  exactly when some block rule that applies is enforced for the client and no allow rule applies;
  otherwise it returns ALLOW. A rule applies when its transport, its port and its network prefix,
  where it has them, agree with the destination, whatever host bits the configured address carries,
  and its scope covers the client. A rule is reported as matched exactly when one applies.
\<close>

theorem policy_destination_exact:
  assumes "destination_setting env inputs dinputs config gen s client dst"
  shows "\<exists>m. jg_policy_match_destination s dst client = Done m
    \<and> (m_effect m = JG_POLICY_BLOCK \<or> m_effect m = JG_POLICY_ALLOW)
    \<and> (m_effect m = JG_POLICY_BLOCK \<longleftrightarrow>
        (\<exists>i \<in> set dinputs. destination_applies client dst i \<and> din_effect i = JG_POLICY_BLOCK
           \<and> destination_enforced config client i)
        \<and> \<not> (\<exists>i \<in> set dinputs. destination_applies client dst i \<and> din_effect i = JG_POLICY_ALLOW))
    \<and> (m_matched m \<longleftrightarrow> (\<exists>i \<in> set dinputs. destination_applies client dst i))"
  using destination_verdict [OF assms] unfolding destination_blocked_def
  by (metis jg_policy_effect.distinct(1))

section \<open>Simulation\<close>

lemma simulate_domain_effect:
  assumes "m_enforcing_matched m \<or> m_effect m = JG_POLICY_ALLOW"
    and "sm_effect (sim_destination sim) = JG_POLICY_ALLOW"
  shows "sim_effect (simulate_domain sim th m) = m_effect m"
    and "sim_normalized_domain (simulate_domain sim th m) = sim_normalized_domain sim"
    and "sim_generation (simulate_domain sim th m) = sim_generation sim"
  using assms by (auto simp: simulate_domain_def Let_def)

lemma simulate_destination_effect:
  "simulate_destination sim m = (sim', th, returned) \<Longrightarrow>
   (returned \<longleftrightarrow> m_effect m = JG_POLICY_BLOCK) \<and> (returned \<longrightarrow> sim_effect sim' = JG_POLICY_BLOCK)
   \<and> sm_effect (sim_destination sim') = m_effect m
   \<and> sim_normalized_domain sim' = sim_normalized_domain sim \<and> sim_generation sim' = sim_generation sim"
  by (auto simp: simulate_destination_def copy_destination_simulation_def Let_def split: if_splits)

lemma simulate_verdict:
  assumes "verdict_setting env inputs dinputs config gen s client"
    and "target = JG_POLICY_DOMAIN_DNS \<or> target = JG_POLICY_DOMAIN_TLS_SNI"
    and norm: "jg_domain_normalize env domain (JG_DOMAIN_NAME_MAX + 1) = Inr d"
    and dst: "\<And>x. dst = Some x \<Longrightarrow> destination_setting env inputs dinputs config gen s client x"
  shows "\<exists>sim. jg_policy_simulate env s target domain client dst = Done sim
    \<and> sim_normalized_domain sim = d \<and> sim_generation sim = gen
    \<and> sim_effect sim =
      (if (\<exists>x. dst = Some x \<and> destination_blocked dinputs config client x)
          \<or> domain_blocked env inputs config client target d
       then JG_POLICY_BLOCK else JG_POLICY_ALLOW)"
proof -
  have pd: "policy_domain d" using jg_domain_normalize_Inr [OF norm] by blast
  have gen: "generation (info s) = gen"
    using verdict_settingD(1) [OF assms(1)] by (simp add: snapshot_of_def)
  obtain m where m: "match_domain_target env s d client target = Done m"
    "m_effect m = (if domain_blocked env inputs config client target d then JG_POLICY_BLOCK else JG_POLICY_ALLOW)"
    "m_enforcing_matched m \<or> m_effect m = JG_POLICY_ALLOW"
    using domain_verdict [OF assms(1) pd] by blast
  let ?sim = "(initial_simulation target)\<lparr>sim_normalized_domain := d, sim_generation := gen\<rparr>"
  show ?thesis
  proof (cases dst)
    case None
    have "sm_effect (sim_destination ?sim) = JG_POLICY_ALLOW"
      by (simp add: initial_simulation_def cleared_simulation_match_def)
    note e = simulate_domain_effect [OF m(3) this, of False]
    show ?thesis
      using assms(2) norm m(1,2) gen None e
      by (auto simp: jg_policy_simulate_def jg_policy_match_domain_def jg_policy_match_visible_sni_def
          jg_policy_snapshot_get_info_def)
  next
    case (Some x)
    obtain dm where dm: "jg_policy_match_destination s x client = Done dm"
      "m_effect dm = (if destination_blocked dinputs config client x then JG_POLICY_BLOCK else JG_POLICY_ALLOW)"
      using destination_verdict [OF dst [OF Some]] by blast
    obtain sim' th ret where sd: "simulate_destination ?sim dm = (sim', th, ret)"
      by (cases "simulate_destination ?sim dm") auto
    note e = simulate_destination_effect [OF sd]
    show ?thesis
    proof (cases "destination_blocked dinputs config client x")
      case True
      with e dm(2) have "ret" "sim_effect sim' = JG_POLICY_BLOCK" by auto
      then show ?thesis
        using assms(2) norm gen Some dm(1) sd e True
        by (auto simp: jg_policy_simulate_def jg_policy_snapshot_get_info_def)
    next
      case False
      with e dm(2) have r: "\<not> ret" "sm_effect (sim_destination sim') = JG_POLICY_ALLOW" by auto
      note f = simulate_domain_effect [OF m(3) r(2), of th]
      show ?thesis
        using assms(2) norm gen Some dm(1) sd e False r(1) m(1,2) f
        by (auto simp: jg_policy_simulate_def jg_policy_match_domain_def jg_policy_match_visible_sni_def
            jg_policy_snapshot_get_info_def)
    qed
  qed
qed

text \<open>
  C7. The simulation agrees with the policy. For a snapshot whose build had a second normalisation
  pass that succeeds as the first did, any name that normalises, a client and an optional
  destination, the simulation of a DNS or SNI lookup succeeds, reports the
  normalised name and the generation of the snapshot, and its effective verdict is BLOCK exactly
  when the destination is blocked by the destination rules or the name by the domain rules.
\<close>

theorem policy_simulate_exact:
  assumes "jg_policy_snapshot_build_configured env env' inputs dinputs config gen = Done s"
    and "second_pass env env' inputs" and "inputs_typed inputs dinputs config"
    and "client_opt_typed client" and "client_valid client"
    and "target = JG_POLICY_DOMAIN_DNS \<or> target = JG_POLICY_DOMAIN_TLS_SNI"
    and "jg_domain_normalize env domain (JG_DOMAIN_NAME_MAX + 1) = Inr d"
    and "\<And>x. dst = Some x \<Longrightarrow> destinations_typed dinputs \<and> destination_valid x \<and> length (dst_address x) = 16"
  shows "\<exists>sim. jg_policy_simulate env s target domain client dst = Done sim
    \<and> sim_normalized_domain sim = d \<and> sim_generation sim = gen
    \<and> sim_effect sim =
      (if (\<exists>x. dst = Some x \<and> destination_blocked dinputs config client x)
          \<or> domain_blocked env inputs config client target d
       then JG_POLICY_BLOCK else JG_POLICY_ALLOW)"
  using simulate_verdict [OF verdict_settingI [OF assms(1-5)] assms(6,7), of dst] assms(8)
    verdict_settingI [OF assms(1-5)] by (simp add: destination_setting_def)

section \<open>A concrete destination policy\<close>

text \<open>Block TCP to the network 10.1.0.0/16, written with host bits, for everyone.\<close>

definition example_destination_rule :: jg_policy_destination_rule_input where
  "example_destination_rule = \<lparr>din_id = 3, din_statistics_id = replicate 16 0, din_effect = JG_POLICY_BLOCK,
     din_enforcement = JG_POLICY_ENFORCE, din_source = JG_POLICY_SOURCE_EXPLICIT,
     din_transport = JG_POLICY_TRANSPORT_TCP, din_has_address = True,
     din_address_family = JG_POLICY_ADDRESS_IPV4, din_address = [10, 1, 2, 3] @ replicate 12 0,
     din_prefix_length = 16, din_has_port = False, din_port = 0, din_scope = JG_POLICY_SCOPE_GLOBAL,
     din_attribution = str ''admin''\<rparr>"

definition example_destination :: jg_policy_destination where
  "example_destination = \<lparr>dst_transport = JG_POLICY_TRANSPORT_TCP, dst_family = JG_POLICY_ADDRESS_IPV4,
     dst_address = [10, 1, 250, 9] @ replicate 12 0, dst_port = 443\<rparr>"

lemma example_destination_buildable:
  "buildable example_environment example_inputs [example_destination_rule] None 1"
proof -
  have "attribution_length (str ''admin'') = Inr 5"
    by (simp add: attribution_length_def JG_POLICY_ATTRIBUTION_MAX_def)
  then have "destination_input_valid example_destination_rule"
    by (auto simp: destination_input_valid_def example_destination_rule_def effect_source_valid_def
        enforcement_valid_def destination_address_normalize_def valid_transports_def)
  then show ?thesis
    using example_buildable
    by (simp add: buildable_def inputs_typed_def rule_limit_def) (simp add: example_destination_rule_def)
qed

lemma example_destination_setting:
  "\<exists>s. destination_setting example_environment example_inputs [example_destination_rule] None 1 s None
     example_destination"
  using build_configured_succeeds [OF example_destination_buildable] example_destination_buildable
  by (auto simp: destination_setting_def verdict_setting_def buildable_def client_opt_typed_def
      client_valid_def destinations_typed_def destination_valid_def example_destination_rule_def
      example_destination_def)

lemma example_destination_applies: "destination_applies None example_destination example_destination_rule"
proof -
  have "in_network ([10, 1, 250, 9] @ replicate 12 0) ([10, 1, 2, 3] @ replicate 12 0) 16"
    by (auto simp: in_network_split less_Suc_eq numeral_2_eq_2)
  then show ?thesis
    by (simp add: destination_applies_def example_destination_def example_destination_rule_def)
qed

lemma example_destination_blocked:
  "destination_blocked [example_destination_rule] None None example_destination"
  using example_destination_applies
  by (simp add: destination_blocked_def destination_enforced_def config_observes_def)
    (simp add: example_destination_rule_def)

theorem policy_destination_exact_witness:
  "\<exists>s m. jg_policy_match_destination s example_destination None = Done m \<and> m_effect m = JG_POLICY_BLOCK
     \<and> m_matched m
     \<and> destination_setting example_environment example_inputs [example_destination_rule] None 1 s None
         example_destination"
proof -
  obtain s where s: "destination_setting example_environment example_inputs [example_destination_rule]
      None 1 s None example_destination"
    using example_destination_setting by blast
  from policy_destination_exact [OF s] show ?thesis
    using s example_destination_blocked unfolding destination_blocked_def by auto
qed

theorem policy_simulate_exact_witness:
  "\<exists>s sim. jg_policy_simulate example_environment s JG_POLICY_DOMAIN_DNS (str ''Bad.test'') None
       (Some example_destination) = Done sim
     \<and> sim_normalized_domain sim = str ''bad.test'' \<and> sim_effect sim = JG_POLICY_BLOCK"
proof -
  obtain s where s: "destination_setting example_environment example_inputs [example_destination_rule]
      None 1 s None example_destination"
    using example_destination_setting by blast
  then have b: "jg_policy_snapshot_build_configured example_environment exhausted_environment example_inputs
      [example_destination_rule] None 1 = Done s"
    and v: "inputs_typed example_inputs [example_destination_rule] None" "client_opt_typed None" "client_valid None"
    by (simp_all add: destination_setting_def verdict_setting_def second_pass_build [OF example_second_pass])
  have d: "destinations_typed [example_destination_rule] \<and> destination_valid x \<and> length (dst_address x) = 16"
    if "Some example_destination = Some x" for x
    using that s by (simp add: destination_setting_def)
  from policy_simulate_exact [OF b example_second_pass v disjI1 [OF refl] example_domains(1), of "Some example_destination"] d
  show ?thesis using example_destination_blocked by fastforce
qed

end
