(* ===== verification/Dataplane.thy ===== *)
theory Dataplane
  imports Packet Dns PolicyDestination
begin

text \<open>
  \<^verbatim>\<open>src/daemon/dataplane.c\<close>: the stateless evaluation of one frame, which composes the packet
  parser, the DNS parser and the policy engine into a kernel verdict with its explanation.

  A function that fills \<open>result\<close> and returns zero is \<open>Done result\<close>; one that returns an error after
  it has written some fields is \<open>Fail (error, result)\<close>, since the caller reads them even then; an
  access outside an object is \<open>Fault\<close>. The snapshot, the frame and the result are not null.
\<close>

section \<open>Data\<close>

datatype jg_nfqueue_verdict = JG_NFQUEUE_ACCEPT | JG_NFQUEUE_DROP

datatype jg_dataplane_reason =
    JG_DATAPLANE_PASS | JG_DATAPLANE_POLICY_ALLOW | JG_DATAPLANE_POLICY_BLOCK
  | JG_DATAPLANE_MALFORMED | JG_DATAPLANE_FRAGMENT_PENDING | JG_DATAPLANE_STREAM_PENDING
  | JG_DATAPLANE_SNI_ENCRYPTED_OR_UNAVAILABLE

text \<open>\<open>JG_POLICY_STATS_NONE\<close> is the value zero, which is no enumerator.\<close>

datatype jg_policy_stats_path =
    JG_POLICY_STATS_NONE | JG_POLICY_STATS_DNS | JG_POLICY_STATS_TLS_SNI
  | JG_POLICY_STATS_NETWORK_DESTINATION

record jg_dataplane_result =
  policy_generation :: u64
  verdict :: jg_nfqueue_verdict
  reason :: jg_dataplane_reason
  packet_result :: jg_packet_result
  dns_result :: jg_dns_result
  packet :: jg_packet_view
  question_index :: nat
  policy_path :: jg_policy_stats_path
  client :: jg_policy_client
  inspected_domain :: bytes
  query_type :: u16
  policy :: jg_policy_match
  destination_policy :: jg_policy_destination_match

type_synonym evaluated = "(errno \<times> jg_dataplane_result, jg_dataplane_result) run"

text \<open>The objects after \<open>memset(_, 0, sizeof(_))\<close>.\<close>

definition cleared_match :: jg_policy_match where
  "cleared_match = default_match\<lparr>m_effect := EFFECT_OTHER 0, m_configured_effect := EFFECT_OTHER 0\<rparr>"

definition cleared_client :: jg_policy_client where
  "cleared_client = \<lparr>has_mac = False, c_mac = replicate 6 0, c_family = JG_POLICY_ADDRESS_NONE,
     c_address = replicate 16 0, has_vlan = False, c_vlan_id = 0\<rparr>"

section \<open>Operations\<close>

definition initialize_result :: "jg_policy_snapshot \<Rightarrow> jg_dataplane_result" where
  "initialize_result snapshot =
     \<lparr>policy_generation = (case jg_policy_snapshot_get_info (Some snapshot) of
                              Inr i \<Rightarrow> generation i | Inl _ \<Rightarrow> 0),
      verdict = JG_NFQUEUE_DROP, reason = JG_DATAPLANE_MALFORMED,
      packet_result = JG_PACKET_MALFORMED, dns_result = JG_DNS_MALFORMED, packet = cleared_view,
      question_index = SIZE_MAX, policy_path = JG_POLICY_STATS_NONE, client = cleared_client,
      inspected_domain = [], query_type = 0, policy = cleared_match,
      destination_policy = cleared_match\<rparr>"

definition build_client :: "jg_packet_view \<Rightarrow> (errno, jg_policy_client) run" where
  "build_client view =
     (if frame_size view < 6 + 6 \<or> address_size view = 0 \<or> address_size view > JG_PACKET_ADDRESS_SIZE
         \<or> vlan_count view > JG_PACKET_VLAN_LIMIT
      then Fail EINVAL else
      and_then (raw (bytes_at (frame view) 6 6)) (\<lambda>mac.
      and_then (raw (bytes_at (source_address view) 0 (address_size view))) (\<lambda>src.
      and_then (raw (store_at (replicate 16 0) 0 src)) (\<lambda>address.
      let c = \<lparr>has_mac = True, c_mac = mac,
               c_family = (case ip_version view of
                  JG_IP_V4 \<Rightarrow> JG_POLICY_ADDRESS_IPV4 | JG_IP_V6 \<Rightarrow> JG_POLICY_ADDRESS_IPV6
                | JG_IP_NONE \<Rightarrow> JG_POLICY_ADDRESS_NONE),
               c_address = address, has_vlan = False, c_vlan_id = 0\<rparr> in
      if vlan_count view \<noteq> 0 then
        and_then (raw (byte_at (vlan_tci view) (vlan_count view - 1))) (\<lambda>tci.
          let vlan_id = tci AND 0x0FFF in
          if vlan_id > 4094 then Fail EINVAL
          else Done (c\<lparr>has_vlan := True, c_vlan_id := vlan_id\<rparr>))
      else Done c))))"

definition packet_destination :: "jg_packet_view \<Rightarrow> bytes \<Rightarrow> jg_policy_destination" where
  "packet_destination view address =
     \<lparr>dst_transport = (case transport view of JG_TRANSPORT_TCP \<Rightarrow> JG_POLICY_TRANSPORT_TCP
        | JG_TRANSPORT_UDP \<Rightarrow> JG_POLICY_TRANSPORT_UDP | _ \<Rightarrow> JG_POLICY_TRANSPORT_ANY),
      dst_family = (if ip_version view = JG_IP_V4 then JG_POLICY_ADDRESS_IPV4
                    else JG_POLICY_ADDRESS_IPV6),
      dst_address = address, dst_port = destination_port view\<rparr>"

definition evaluate_destination ::
  "jg_packet_view \<Rightarrow> jg_policy_client \<Rightarrow> jg_policy_snapshot \<Rightarrow> jg_dataplane_result \<Rightarrow> evaluated" where
  "evaluate_destination view c snapshot result =
     and_then (raw (bytes_at (destination_address view) 0 (address_size view))) (\<lambda>src.
     and_then (raw (store_at (replicate 16 0) 0 src)) (\<lambda>address.
     case jg_policy_match_destination snapshot (packet_destination view address) (Some c) of
       Fault \<Rightarrow> Fault
     | Fail _ \<Rightarrow> Fail (EINVAL, result)
     | Done m \<Rightarrow>
       let result = result\<lparr>destination_policy := m,
             policy_path := JG_POLICY_STATS_NETWORK_DESTINATION, client := c\<rparr> in
       if m_effect m = JG_POLICY_BLOCK
       then Done (result\<lparr>verdict := JG_NFQUEUE_DROP, reason := JG_DATAPLANE_POLICY_BLOCK\<rparr>)
       else Done result))"

definition retain_dns_question :: "jg_dns_message \<Rightarrow> jg_dataplane_result \<Rightarrow> evaluated" where
  "retain_dns_question dns result =
     (if question_index result < question_count dns
      then let question = questions dns ! question_index result in
        and_then (raw (store_at (replicate (JG_DOMAIN_NAME_MAX + 1) 0) 0 (qname question @ [0]))) (\<lambda>_.
          Done (result\<lparr>inspected_domain := qname question, query_type := qtype question,
                       policy_path := JG_POLICY_STATS_DNS\<rparr>))
      else Done result)"

fun evaluate_dns_loop ::
  "'e policy_environment_scheme \<Rightarrow> jg_policy_client \<Rightarrow> jg_policy_snapshot \<Rightarrow> nat \<Rightarrow>
   jg_dns_question list \<Rightarrow> jg_dataplane_result \<Rightarrow> evaluated" where
  "evaluate_dns_loop env c snapshot index [] result =
     Done (result\<lparr>verdict := JG_NFQUEUE_ACCEPT, reason := JG_DATAPLANE_POLICY_ALLOW\<rparr>)"
| "evaluate_dns_loop env c snapshot index (q # qs) result =
     (case jg_policy_match_domain env snapshot (qname q) (Some c) of
        Fault \<Rightarrow> Fault
      | Fail e \<Rightarrow> Fail (e, result)
      | Done m \<Rightarrow>
        let result = (if index = 0 \<or> (m_matched m \<and> (\<not> m_matched (policy result)
                           \<or> source_code (m_source m) > source_code (m_source (policy result))))
                      then result\<lparr>question_index := index, policy := m\<rparr> else result) in
        if m_effect m = JG_POLICY_BLOCK
        then Done (result\<lparr>verdict := JG_NFQUEUE_DROP, reason := JG_DATAPLANE_POLICY_BLOCK,
                          question_index := index, policy := m\<rparr>)
        else evaluate_dns_loop env c snapshot (index + 1) qs result)"

definition evaluate_dns where
  "evaluate_dns env dns c snapshot result = evaluate_dns_loop env c snapshot 0 (questions dns) result"

text \<open>The end shared by the two callers of \<open>evaluate_dns\<close>.\<close>

definition evaluate_query ::
  "'e policy_environment_scheme \<Rightarrow> bytes \<Rightarrow> jg_policy_client \<Rightarrow> jg_policy_snapshot \<Rightarrow>
   jg_dataplane_result \<Rightarrow> evaluated" where
  "evaluate_query env message c snapshot result =
     (case jg_dns_parse_query message of
        Fault \<Rightarrow> Fault
      | Fail e \<Rightarrow> Done (result\<lparr>dns_result := e\<rparr>)
      | Done dns \<Rightarrow>
        case evaluate_dns env dns c snapshot (result\<lparr>dns_result := JG_DNS_OK\<rparr>) of
          Fault \<Rightarrow> Fault
        | Fail (_, r) \<Rightarrow> Fail (EINVAL, r)
        | Done r \<Rightarrow> retain_dns_question dns r)"

definition evaluate_dns_message ::
  "'e policy_environment_scheme \<Rightarrow> jg_packet_view \<Rightarrow> bytes \<Rightarrow> jg_policy_snapshot \<Rightarrow>
   jg_dataplane_result \<Rightarrow> evaluated" where
  "evaluate_dns_message env view message snapshot result =
     (case build_client view of
        Fault \<Rightarrow> Fault
      | Fail _ \<Rightarrow> Fail (EINVAL, result)
      | Done c \<Rightarrow>
        and_then (evaluate_destination view c snapshot result) (\<lambda>result.
          if reason result = JG_DATAPLANE_POLICY_BLOCK then Done result
          else evaluate_query env message c snapshot result))"

definition jg_dataplane_evaluate ::
  "'e policy_environment_scheme \<Rightarrow> bytes \<Rightarrow> jg_packet_limits option \<Rightarrow> jg_policy_snapshot \<Rightarrow> evaluated" where
  "jg_dataplane_evaluate env f limits snapshot =
     (let result = initialize_result snapshot in
      case jg_packet_parse f limits of
        Fault \<Rightarrow> Fault
      | Fail e \<Rightarrow> Done (result\<lparr>packet_result := e\<rparr>)
      | Done (pr, view) \<Rightarrow>
        let result = result\<lparr>packet_result := pr, packet := view\<rparr> in
        if pr = JG_PACKET_NON_IP
        then Done (result\<lparr>verdict := JG_NFQUEUE_ACCEPT, reason := JG_DATAPLANE_PASS\<rparr>)
        else if pr \<noteq> JG_PACKET_OK then Done result
        else case build_client view of
          Fault \<Rightarrow> Fault
        | Fail _ \<Rightarrow> Done result
        | Done c \<Rightarrow>
          and_then (evaluate_destination view c snapshot result) (\<lambda>result.
          if reason result = JG_DATAPLANE_POLICY_BLOCK then Done result
          else if fragmented view
          then Done (result\<lparr>verdict := JG_NFQUEUE_ACCEPT, reason := JG_DATAPLANE_FRAGMENT_PENDING\<rparr>)
          else if transport view = JG_TRANSPORT_TCP
             \<and> (destination_port view = 53 \<or> destination_port view = 443 \<or> destination_port view = 853)
          then Done (result\<lparr>verdict := JG_NFQUEUE_ACCEPT, reason := JG_DATAPLANE_STREAM_PENDING\<rparr>)
          else if transport view \<noteq> JG_TRANSPORT_UDP \<or> destination_port view \<noteq> 53
          then Done (result\<lparr>verdict := JG_NFQUEUE_ACCEPT, reason := JG_DATAPLANE_PASS\<rparr>)
          else if \<not> transport_complete view then Done result
          else and_then (raw (bytes_at f (payload_offset view) (payload_size view))) (\<lambda>message.
            evaluate_query env message c snapshot result)))"

definition jg_dataplane_evaluate_reassembled_udp ::
  "'e policy_environment_scheme \<Rightarrow> jg_packet_view \<Rightarrow> bytes \<Rightarrow> jg_policy_snapshot \<Rightarrow> evaluated" where
  "jg_dataplane_evaluate_reassembled_udp env view payload snapshot =
     (let result = initialize_result snapshot in
      if \<not> fragmented view \<or> ip_protocol view \<noteq> IPPROTO_UDP then Fail (EINVAL, result)
      else let result = result\<lparr>packet := view, packet_result := JG_PACKET_OK\<rparr> in
      if length payload < 8 then Done result
      else case (jg_read_u16_be payload 0, jg_read_u16_be payload 2, jg_read_u16_be payload 4) of
        (Some sport, Some dport, Some udp_size) \<Rightarrow>
          if unat udp_size \<noteq> length payload then Done result
          else let view' = view\<lparr>fragmented := False, more_fragments := False, fragment_offset := 0,
                      transport := JG_TRANSPORT_UDP, source_port := sport, destination_port := dport,
                      transport_complete := True\<rparr>;
                   result = result\<lparr>packet := view'\<rparr> in
          if dport \<noteq> 53
          then Done (result\<lparr>verdict := JG_NFQUEUE_ACCEPT, reason := JG_DATAPLANE_PASS\<rparr>)
          else evaluate_dns_message env view' (drop 8 payload) snapshot result
      | _ \<Rightarrow> Done result)"

definition jg_dataplane_evaluate_tcp_dns ::
  "'e policy_environment_scheme \<Rightarrow> jg_packet_view \<Rightarrow> bytes \<Rightarrow> jg_policy_snapshot \<Rightarrow> evaluated" where
  "jg_dataplane_evaluate_tcp_dns env view message snapshot =
     (let result = initialize_result snapshot in
      if fragmented view \<or> transport view \<noteq> JG_TRANSPORT_TCP \<or> ip_protocol view \<noteq> IPPROTO_TCP
         \<or> destination_port view \<noteq> 53
      then Fail (EINVAL, result)
      else evaluate_dns_message env view message snapshot
             (result\<lparr>packet := view, packet_result := JG_PACKET_OK\<rparr>))"

definition jg_dataplane_evaluate_visible_sni ::
  "'e policy_environment_scheme \<Rightarrow> jg_packet_view \<Rightarrow> bytes \<Rightarrow> jg_policy_snapshot \<Rightarrow> evaluated" where
  "jg_dataplane_evaluate_visible_sni env view server_name snapshot =
     (let result = initialize_result snapshot in
      if fragmented view \<or> transport view \<noteq> JG_TRANSPORT_TCP \<or> ip_protocol view \<noteq> IPPROTO_TCP
         \<or> (destination_port view \<noteq> 443 \<and> destination_port view \<noteq> 853)
      then Fail (EINVAL, result)
      else case build_client view of
        Fault \<Rightarrow> Fault
      | Fail _ \<Rightarrow> Fail (EINVAL, result)
      | Done c \<Rightarrow>
        and_then (evaluate_destination view c snapshot
                    (result\<lparr>packet := view, packet_result := JG_PACKET_OK\<rparr>)) (\<lambda>result.
        if reason result = JG_DATAPLANE_POLICY_BLOCK then Done result
        else case jg_policy_match_visible_sni env snapshot server_name (Some c) of
          Fault \<Rightarrow> Fault
        | Fail _ \<Rightarrow> Fail (EINVAL, result)
        | Done m \<Rightarrow>
          let result = result\<lparr>policy := m,
                verdict := (if m_effect m = JG_POLICY_BLOCK then JG_NFQUEUE_DROP else JG_NFQUEUE_ACCEPT),
                reason := (if m_effect m = JG_POLICY_BLOCK then JG_DATAPLANE_POLICY_BLOCK
                           else JG_DATAPLANE_POLICY_ALLOW),
                policy_path := JG_POLICY_STATS_TLS_SNI\<rparr> in
          and_then (raw (store_at (replicate (JG_DOMAIN_NAME_MAX + 1) 0) 0 (server_name @ [0]))) (\<lambda>_.
            Done (result\<lparr>inspected_domain := server_name\<rparr>))))"

section \<open>Addresses and clients of a parsed frame\<close>

lemma parsed_view:
  assumes "jg_packet_parse f limits = Done (JG_PACKET_OK, v)"
  shows "frame v = f" "ethernet_valid v" "transport_valid v" "vlan_count v \<le> frame_size v"
    "ip_version v = JG_IP_V4 \<and> address_size v = 4 \<or> ip_version v = JG_IP_V6 \<and> address_size v = 16"
    "length (source_address v) = 16" "length (destination_address v) = 16"
    "drop (address_size v) (source_address v) = replicate (16 - address_size v) 0"
    "drop (address_size v) (destination_address v) = replicate (16 - address_size v) 0"
proof -
  have s: "frame v = f" "ethernet_valid v" "transport_valid v"
    and ip: "ipv4_valid v \<or> (\<exists>l. ipv6_valid l v)"
    using ensuresD [OF packet_parse_ensures assms] by auto
  then show "frame v = f" "ethernet_valid v" "transport_valid v" by blast+
  show "vlan_count v \<le> frame_size v" using s(2) by (simp add: ethernet_valid_def)
  have t: "transport_offset v + transport_size v \<le> frame_size v"
    using s(3) by (simp add: transport_valid_def Let_def)
  show "ip_version v = JG_IP_V4 \<and> address_size v = 4 \<or> ip_version v = JG_IP_V6 \<and> address_size v = 16"
    "length (source_address v) = 16" "length (destination_address v) = 16"
    "drop (address_size v) (source_address v) = replicate (16 - address_size v) 0"
    "drop (address_size v) (destination_address v) = replicate (16 - address_size v) 0"
    using ip t by (auto simp: ipv4_valid_def ipv6_valid_def Let_def)
qed

lemma copy_padded:
  assumes "length a = 16" and "n \<le> 16" and "drop n a = replicate (16 - n) 0"
  shows "bytes_at a 0 n = Some (take n a)" and "store_at (replicate 16 0) 0 (take n a) = Some a"
proof -
  show "bytes_at a 0 n = Some (take n a)" using assms by (simp add: bytes_at_def)
  have "blit (replicate 16 0) 0 (take n a) = take n a @ drop n a"
    using assms by (simp add: blit_def)
  also have "\<dots> = a" by (rule append_take_drop_id)
  finally show "store_at (replicate 16 0) 0 (take n a) = Some a"
    using assms by (simp add: store_at_def)
qed

text \<open>The client that policy sees: the source addresses of the frame and its innermost VLAN.\<close>

lemma build_client_parsed:
  assumes "jg_packet_parse f limits = Done (JG_PACKET_OK, v)"
  shows "build_client v \<noteq> Fault"
    and "build_client v = Done c \<Longrightarrow> client_typed c \<and> client_valid (Some c)
      \<and> c_mac c = slice 6 6 f \<and> c_address c = source_address v
      \<and> (has_vlan c \<longleftrightarrow> vlan_tci v \<noteq> []) \<and> (vlan_tci v \<noteq> [] \<longrightarrow> c_vlan_id c = last (vlan_tci v) AND 0x0FFF)"
proof -
  note p = parsed_view [OF assms]
  have n: "address_size v \<le> 16" using p(5) by auto
  note cp = copy_padded [OF p(6) n p(8)]
  show "build_client v \<noteq> Fault"
    using p(1,5) cp by (auto simp: build_client_def Let_def bytes_at_def [of _ 6])
  show "client_typed c \<and> client_valid (Some c)
      \<and> c_mac c = slice 6 6 f \<and> c_address c = source_address v
      \<and> (has_vlan c \<longleftrightarrow> vlan_tci v \<noteq> []) \<and> (vlan_tci v \<noteq> [] \<longrightarrow> c_vlan_id c = last (vlan_tci v) AND 0x0FFF)"
    if "build_client v = Done c"
    using that p(1,5,6) cp
    by (auto simp: build_client_def Let_def bytes_at_def [of _ 6] client_typed_def client_valid_def not_less
        last_conv_nth split: if_splits)
qed

definition view_destination :: "jg_packet_view \<Rightarrow> jg_policy_destination" where
  "view_destination v = packet_destination v (destination_address v)"

lemma evaluate_destination_parsed:
  assumes "jg_packet_parse f limits = Done (JG_PACKET_OK, v)"
  shows "evaluate_destination v c s result =
    (case jg_policy_match_destination s (view_destination v) (Some c) of
       Fault \<Rightarrow> Fault
     | Fail _ \<Rightarrow> Fail (EINVAL, result)
     | Done m \<Rightarrow>
       let result = result\<lparr>destination_policy := m,
             policy_path := JG_POLICY_STATS_NETWORK_DESTINATION, client := c\<rparr> in
       if m_effect m = JG_POLICY_BLOCK
       then Done (result\<lparr>verdict := JG_NFQUEUE_DROP, reason := JG_DATAPLANE_POLICY_BLOCK\<rparr>)
       else Done result)"
proof -
  note p = parsed_view [OF assms]
  have n: "address_size v \<le> 16" using p(5) by auto
  note cp = copy_padded [OF p(7) n p(9)]
  show ?thesis by (simp add: evaluate_destination_def view_destination_def cp)
qed

lemma destination_valid_view: "destination_valid (view_destination v)"
  by (auto simp: destination_valid_def view_destination_def packet_destination_def
      split: jg_transport_protocol.splits)

section \<open>Evaluating queries\<close>

text \<open>
  A policy built from the rules of the administrator, with a second normalisation pass, in \<open>env'\<close>,
  that succeeds as the first did.
\<close>

definition built_policy where
  "built_policy env env' inputs dinputs config gen s \<longleftrightarrow>
     jg_policy_snapshot_build_configured env env' inputs dinputs config gen = Done s
     \<and> second_pass env env' inputs \<and> inputs_typed inputs dinputs config \<and> destinations_typed dinputs"

lemma built_settings:
  assumes "built_policy env env' inputs dinputs config gen s"
    and "jg_packet_parse f limits = Done (JG_PACKET_OK, v)" and "build_client v = Done c"
  shows "verdict_setting env inputs dinputs config gen s (Some c)"
    and "destination_setting env inputs dinputs config gen s (Some c) (view_destination v)"
proof -
  have c: "client_typed c" "client_valid (Some c)"
    using build_client_parsed(2) [OF assms(2,3)] by blast+
  then show "verdict_setting env inputs dinputs config gen s (Some c)"
    using assms(1) by (auto simp: built_policy_def client_opt_typed_def intro: verdict_settingI)
  then show "destination_setting env inputs dinputs config gen s (Some c) (view_destination v)"
    using assms(1) parsed_view(7) [OF assms(2)] destination_valid_view
    by (simp add: destination_setting_def built_policy_def) (simp add: view_destination_def packet_destination_def)
qed

text \<open>
  The first question that is blocked, or whose name is no policy domain and so cannot be matched,
  decides.
\<close>

definition decisive where
  "decisive env inputs config c q \<longleftrightarrow> \<not> policy_domain (qname q)
     \<or> domain_blocked env inputs config (Some c) JG_POLICY_DOMAIN_DNS (qname q)"

lemma evaluate_dns_loop_exact:
  assumes "verdict_setting env inputs dinputs config gen s (Some c)"
  shows "case find (decisive env inputs config c) qs of
      None \<Rightarrow> \<exists>r. evaluate_dns_loop env c s index qs result = Done r
        \<and> policy_generation r = policy_generation result
        \<and> verdict r = JG_NFQUEUE_ACCEPT \<and> reason r = JG_DATAPLANE_POLICY_ALLOW
    | Some q \<Rightarrow> if policy_domain (qname q)
        then \<exists>r j. evaluate_dns_loop env c s index qs result = Done r
          \<and> policy_generation r = policy_generation result
          \<and> verdict r = JG_NFQUEUE_DROP \<and> reason r = JG_DATAPLANE_POLICY_BLOCK
          \<and> question_index r = index + j \<and> j < length qs \<and> qs ! j = q
        else \<exists>r. evaluate_dns_loop env c s index qs result = Fail (EINVAL, r)
          \<and> verdict r = verdict result"
proof (induction qs arbitrary: index result)
  case (Cons q qs)
  consider (bad) "\<not> policy_domain (qname q)"
    | (blk) "policy_domain (qname q)" "domain_blocked env inputs config (Some c) JG_POLICY_DOMAIN_DNS (qname q)"
    | (pass) "policy_domain (qname q)" "\<not> domain_blocked env inputs config (Some c) JG_POLICY_DOMAIN_DNS (qname q)"
    by blast
  then show ?case
  proof cases
    case bad
    then have "jg_policy_match_domain env s (qname q) (Some c) = Fail EINVAL"
      by (simp add: jg_policy_match_domain_def match_domain_target_def)
    then show ?thesis using bad by (simp add: decisive_def)
  next
    case blk
    then obtain m where "jg_policy_match_domain env s (qname q) (Some c) = Done m" "m_effect m = JG_POLICY_BLOCK"
      using domain_verdict [OF assms, of "qname q" JG_POLICY_DOMAIN_DNS] by (auto simp: jg_policy_match_domain_def)
    then show ?thesis using blk by (simp add: decisive_def Let_def)
  next
    case pass
    then obtain m where m: "jg_policy_match_domain env s (qname q) (Some c) = Done m" "m_effect m = JG_POLICY_ALLOW"
      using domain_verdict [OF assms, of "qname q" JG_POLICY_DOMAIN_DNS] by (auto simp: jg_policy_match_domain_def)
    define r0 where "r0 = (if index = 0 \<or> (m_matched m \<and> (\<not> m_matched (policy result)
        \<or> source_code (m_source m) > source_code (m_source (policy result))))
      then result\<lparr>question_index := index, policy := m\<rparr> else result)"
    have keep: "policy_generation r0 = policy_generation result" "verdict r0 = verdict result"
      by (simp_all add: r0_def)
    have step: "evaluate_dns_loop env c s index (q # qs) result = evaluate_dns_loop env c s (index + 1) qs r0"
      using m by (simp add: Let_def r0_def)
    have found: "find (decisive env inputs config c) (q # qs) = find (decisive env inputs config c) qs"
      using pass by (simp add: decisive_def)
    show ?thesis
      using Cons.IH [of "index + 1" r0] unfolding step found keep
      by (fastforce split: option.splits if_splits)
  qed
qed simp

text \<open>The loop on names that may be no policy domains: matching such a name is an error.\<close>

lemma evaluate_dns_loop_cases:
  assumes "verdict_setting env inputs dinputs config gen s (Some c)"
  shows "case evaluate_dns_loop env c s index qs result of
      Fault \<Rightarrow> False
    | Fail (e, r) \<Rightarrow> verdict r = verdict result
    | Done r \<Rightarrow> policy_generation r = policy_generation result \<and> packet r = packet result
        \<and> packet_result r = packet_result result
        \<and> (if reason r = JG_DATAPLANE_POLICY_BLOCK
           then verdict r = JG_NFQUEUE_DROP
             \<and> (\<exists>q \<in> set qs. domain_blocked env inputs config (Some c) JG_POLICY_DOMAIN_DNS (qname q))
           else verdict r = JG_NFQUEUE_ACCEPT \<and> reason r = JG_DATAPLANE_POLICY_ALLOW
             \<and> list_all (\<lambda>q. policy_domain (qname q)
                 \<and> \<not> domain_blocked env inputs config (Some c) JG_POLICY_DOMAIN_DNS (qname q)) qs)"
proof (induction qs arbitrary: index result)
  case (Cons q qs)
  show ?case
  proof (cases "policy_domain (qname q)")
    case False
    then have "jg_policy_match_domain env s (qname q) (Some c) = Fail EINVAL"
      by (simp add: jg_policy_match_domain_def match_domain_target_def)
    then show ?thesis by simp
  next
    case True
    obtain m where m: "jg_policy_match_domain env s (qname q) (Some c) = Done m"
      "m_effect m = (if domain_blocked env inputs config (Some c) JG_POLICY_DOMAIN_DNS (qname q)
         then JG_POLICY_BLOCK else JG_POLICY_ALLOW)"
      using domain_verdict [OF assms True, of JG_POLICY_DOMAIN_DNS] by (auto simp: jg_policy_match_domain_def)
    show ?thesis
    proof (cases "domain_blocked env inputs config (Some c) JG_POLICY_DOMAIN_DNS (qname q)")
      case blk: True
      then show ?thesis using m by (simp add: Let_def)
    next
      case False
      define r0 where "r0 = (if index = 0 \<or> (m_matched m \<and> (\<not> m_matched (policy result)
          \<or> source_code (m_source m) > source_code (m_source (policy result))))
        then result\<lparr>question_index := index, policy := m\<rparr> else result)"
      have keep: "verdict r0 = verdict result" "policy_generation r0 = policy_generation result"
        "packet r0 = packet result" "packet_result r0 = packet_result result"
        by (simp_all add: r0_def)
      have step: "evaluate_dns_loop env c s index (q # qs) result = evaluate_dns_loop env c s (index + 1) qs r0"
        using m False by (simp add: Let_def r0_def)
      show ?thesis
        using Cons.IH [of r0 "index + 1"] False True
        unfolding step keep by (auto split: run.splits if_splits)
    qed
  qed
qed simp

lemma question_names:
  "jg_dns_parse_query msg = Done dns \<Longrightarrow> q \<in> set (questions dns) \<Longrightarrow> length (qname q) \<le> JG_DOMAIN_NAME_MAX"
proof -
  assume "jg_dns_parse_query msg = Done dns" "q \<in> set (questions dns)"
  moreover have "questions_at msg c qs c' \<Longrightarrow> q \<in> set qs \<Longrightarrow> length (qname q) \<le> JG_DOMAIN_NAME_MAX" for qs c c'
    by (induction qs arbitrary: c) (auto dest: name_text_bounds)
  ultimately show ?thesis
    by (auto simp: jg_dns_parse_query_Done_iff query_message_def)
qed

lemma retain_dns_question_parsed:
  assumes "jg_dns_parse_query msg = Done dns"
  shows "\<exists>r'. retain_dns_question dns r = Done r' \<and> verdict r' = verdict r \<and> reason r' = reason r
    \<and> packet r' = packet r \<and> packet_result r' = packet_result r
    \<and> policy_generation r' = policy_generation r \<and> question_index r' = question_index r
    \<and> dns_result r' = dns_result r
    \<and> (question_index r < question_count dns \<longrightarrow> inspected_domain r' = qname (questions dns ! question_index r))"
proof (cases "question_index r < question_count dns")
  case True
  then have "length (qname (questions dns ! question_index r)) \<le> JG_DOMAIN_NAME_MAX"
    using question_names [OF assms] by simp
  with True show ?thesis by (simp add: retain_dns_question_def store_at_def Let_def)
qed (simp add: retain_dns_question_def)

definition query_allowed where
  "query_allowed env inputs config c message \<longleftrightarrow> (\<exists>dns. jg_dns_parse_query message = Done dns
     \<and> list_all (\<lambda>q. policy_domain (qname q)
         \<and> \<not> domain_blocked env inputs config (Some c) JG_POLICY_DOMAIN_DNS (qname q)) (questions dns))"

definition query_blocked where
  "query_blocked env inputs config c message \<longleftrightarrow> (\<exists>dns. jg_dns_parse_query message = Done dns
     \<and> (\<exists>q \<in> set (questions dns). domain_blocked env inputs config (Some c) JG_POLICY_DOMAIN_DNS (qname q)))"

lemma evaluate_query_cases:
  assumes "verdict_setting env inputs dinputs config gen s (Some c)"
    and "verdict result = JG_NFQUEUE_DROP" and "reason result = JG_DATAPLANE_MALFORMED"
  shows "case evaluate_query env message c s result of
      Fault \<Rightarrow> False
    | Fail (e, r) \<Rightarrow> e = EINVAL \<and> verdict r = JG_NFQUEUE_DROP
    | Done r \<Rightarrow> policy_generation r = policy_generation result \<and> packet r = packet result
        \<and> packet_result r = packet_result result
        \<and> (reason r = JG_DATAPLANE_MALFORMED \<and> verdict r = JG_NFQUEUE_DROP
           \<or> reason r = JG_DATAPLANE_POLICY_BLOCK \<and> verdict r = JG_NFQUEUE_DROP
             \<and> query_blocked env inputs config c message
           \<or> reason r = JG_DATAPLANE_POLICY_ALLOW \<and> verdict r = JG_NFQUEUE_ACCEPT
             \<and> query_allowed env inputs config c message)"
proof (cases "jg_dns_parse_query message")
  case Fault
  then show ?thesis using jg_dns_parse_query_no_fault by blast
next
  case (Fail e)
  then show ?thesis using assms(2,3) by (simp add: evaluate_query_def)
next
  case (Done dns)
  let ?res = "result\<lparr>dns_result := JG_DNS_OK\<rparr>"
  note l = evaluate_dns_loop_cases [OF assms(1), where index = 0 and qs = "questions dns" and result = ?res]
  show ?thesis
  proof (cases "evaluate_dns_loop env c s 0 (questions dns) ?res")
    case Fault
    then show ?thesis using l by simp
  next
    case (Fail er)
    then show ?thesis using l Done assms(2) by (cases er) (simp add: evaluate_query_def evaluate_dns_def)
  next
    case (Done r)
    obtain r' where r': "retain_dns_question dns r = Done r'" "verdict r' = verdict r" "reason r' = reason r"
      "packet r' = packet r" "packet_result r' = packet_result r"
      "policy_generation r' = policy_generation r"
      using retain_dns_question_parsed [OF \<open>jg_dns_parse_query message = run.Done dns\<close>] by blast
    have "evaluate_query env message c s result = run.Done r'"
      using Done r'(1) \<open>jg_dns_parse_query message = run.Done dns\<close>
      by (simp add: evaluate_query_def evaluate_dns_def)
    then show ?thesis
      using l r' Done \<open>jg_dns_parse_query message = run.Done dns\<close>
      by (auto simp: query_allowed_def query_blocked_def split: if_splits)
  qed
qed

lemma evaluate_query_exact:
  assumes "verdict_setting env inputs dinputs config gen s (Some c)" and dns: "jg_dns_parse_query message = Done dns"
  shows "case find (\<lambda>q. decisive env inputs config c q) (questions dns) of
      None \<Rightarrow> \<exists>r. evaluate_query env message c s result = Done r
        \<and> policy_generation r = policy_generation result
        \<and> verdict r = JG_NFQUEUE_ACCEPT \<and> reason r = JG_DATAPLANE_POLICY_ALLOW
    | Some q \<Rightarrow> if policy_domain (qname q)
        then \<exists>r. evaluate_query env message c s result = Done r
          \<and> policy_generation r = policy_generation result
          \<and> verdict r = JG_NFQUEUE_DROP \<and> reason r = JG_DATAPLANE_POLICY_BLOCK
          \<and> question_index r < question_count dns \<and> questions dns ! question_index r = q
          \<and> inspected_domain r = qname q
        else \<exists>r. evaluate_query env message c s result = Fail (EINVAL, r) \<and> verdict r = verdict result"
proof -
  let ?res = "result\<lparr>dns_result := JG_DNS_OK\<rparr>"
  note l = evaluate_dns_loop_exact [OF assms(1), where index = 0 and qs = "questions dns" and result = ?res]
  have retain: "evaluate_query env message c s result = retain_dns_question dns r"
    if "evaluate_dns_loop env c s 0 (questions dns) ?res = Done r" for r
    using dns that by (simp add: evaluate_query_def evaluate_dns_def)
  show ?thesis
  proof (cases "find (\<lambda>q. decisive env inputs config c q) (questions dns)")
    case None
    with l obtain r where r: "evaluate_dns_loop env c s 0 (questions dns) ?res = Done r"
      "policy_generation r = policy_generation result" "verdict r = JG_NFQUEUE_ACCEPT"
      "reason r = JG_DATAPLANE_POLICY_ALLOW" by auto
    then show ?thesis using None retain [OF r(1)] retain_dns_question_parsed [OF dns, of r] by auto
  next
    case (Some q)
    show ?thesis
    proof (cases "policy_domain (qname q)")
      case True
      with l Some obtain r where r: "evaluate_dns_loop env c s 0 (questions dns) ?res = Done r"
        "policy_generation r = policy_generation result" "verdict r = JG_NFQUEUE_DROP"
        "reason r = JG_DATAPLANE_POLICY_BLOCK" "question_index r < question_count dns"
        "questions dns ! question_index r = q" by auto
      then show ?thesis using Some True retain [OF r(1)] retain_dns_question_parsed [OF dns, of r] by auto
    next
      case False
      with l Some obtain r where "evaluate_dns_loop env c s 0 (questions dns) ?res = Fail (EINVAL, r)"
        "verdict r = verdict result" by auto
      then show ?thesis using Some False dns by (simp add: evaluate_query_def evaluate_dns_def)
    qed
  qed
qed

section \<open>Verdicts on frames\<close>

abbreviation udp_query :: "jg_packet_view \<Rightarrow> bool" where
  "udp_query v \<equiv> \<not> fragmented v \<and> transport v = JG_TRANSPORT_UDP \<and> destination_port v = 53"

abbreviation payload :: "jg_packet_view \<Rightarrow> bytes" where
  "payload v \<equiv> slice (payload_offset v) (payload_size v) (frame v)"

lemma initialize_result_simps [simp]:
  "verdict (initialize_result s) = JG_NFQUEUE_DROP"
  "reason (initialize_result s) = JG_DATAPLANE_MALFORMED"
  "policy_generation (initialize_result s) = generation (info s)"
  by (simp_all add: initialize_result_def jg_policy_snapshot_get_info_def)

lemma built_generation: "built_policy env env' inputs dinputs config gen s \<Longrightarrow> generation (info s) = gen"
  using build_configured_ensures [of inputs dinputs config env gen]
  by (auto simp: built_policy_def ensures_def snapshot_of_def second_pass_build)

text \<open>The evaluation of a frame that parses, after the client is known.\<close>

definition after_destination ::
  "'e policy_environment_scheme \<Rightarrow> jg_packet_view \<Rightarrow> jg_policy_client \<Rightarrow> jg_policy_snapshot \<Rightarrow>
   jg_dataplane_result \<Rightarrow> evaluated" where
  "after_destination env v c s result =
     (if fragmented v
      then Done (result\<lparr>verdict := JG_NFQUEUE_ACCEPT, reason := JG_DATAPLANE_FRAGMENT_PENDING\<rparr>)
      else if transport v = JG_TRANSPORT_TCP
         \<and> (destination_port v = 53 \<or> destination_port v = 443 \<or> destination_port v = 853)
      then Done (result\<lparr>verdict := JG_NFQUEUE_ACCEPT, reason := JG_DATAPLANE_STREAM_PENDING\<rparr>)
      else if transport v \<noteq> JG_TRANSPORT_UDP \<or> destination_port v \<noteq> 53
      then Done (result\<lparr>verdict := JG_NFQUEUE_ACCEPT, reason := JG_DATAPLANE_PASS\<rparr>)
      else if \<not> transport_complete v then Done result
      else evaluate_query env (payload v) c s result)"

lemma evaluate_parsed:
  assumes parse: "jg_packet_parse f limits = Done (JG_PACKET_OK, v)" and c: "build_client v = Done c"
    and setting: "destination_setting env inputs dinputs config gen s (Some c) (view_destination v)"
  shows "\<exists>m. jg_policy_match_destination s (view_destination v) (Some c) = Done m \<and>
    jg_dataplane_evaluate env f limits s =
      (let result = (initialize_result s)\<lparr>packet_result := JG_PACKET_OK, packet := v,
         destination_policy := m, policy_path := JG_POLICY_STATS_NETWORK_DESTINATION, client := c\<rparr>
       in if destination_blocked dinputs config (Some c) (view_destination v)
          then Done (result\<lparr>verdict := JG_NFQUEUE_DROP, reason := JG_DATAPLANE_POLICY_BLOCK\<rparr>)
          else after_destination env v c s result)"
proof -
  obtain m where m: "jg_policy_match_destination s (view_destination v) (Some c) = Done m"
    "m_effect m = (if destination_blocked dinputs config (Some c) (view_destination v)
       then JG_POLICY_BLOCK else JG_POLICY_ALLOW)"
    using destination_verdict [OF setting] by blast
  have pl: "bytes_at f (payload_offset v) (payload_size v) = Some (payload v)"
    using parsed_view(1,3) [OF parse] by (simp add: transport_valid_def Let_def bytes_at_def)
  show ?thesis
    using m parse c
    by (auto simp: jg_dataplane_evaluate_def evaluate_destination_parsed [OF parse] Let_def
        after_destination_def pl parsed_view(1) [OF parse])
qed

lemma evaluate_client_outcome:
  assumes built: "built_policy env env' inputs dinputs config gen s"
    and parse: "jg_packet_parse f limits = Done (JG_PACKET_OK, v)" and c: "build_client v = Done c"
  shows "case jg_dataplane_evaluate env f limits s of
      Fault \<Rightarrow> False
    | Fail (e, r) \<Rightarrow> e = EINVAL \<and> verdict r = JG_NFQUEUE_DROP
    | Done r \<Rightarrow> policy_generation r = gen
        \<and> (verdict r = JG_NFQUEUE_DROP \<longleftrightarrow>
            reason r = JG_DATAPLANE_MALFORMED \<or> reason r = JG_DATAPLANE_POLICY_BLOCK)
        \<and> (verdict r = JG_NFQUEUE_ACCEPT \<longrightarrow> packet_result r = JG_PACKET_NON_IP
            \<or> packet_result r = JG_PACKET_OK \<and> (\<exists>c. build_client (packet r) = Done c
                \<and> \<not> destination_blocked dinputs config (Some c) (view_destination (packet r))
                \<and> (udp_query (packet r) \<longrightarrow> query_allowed env inputs config c (payload (packet r)))))
        \<and> (reason r = JG_DATAPLANE_POLICY_BLOCK \<longrightarrow> (\<exists>c. build_client (packet r) = Done c
            \<and> (destination_blocked dinputs config (Some c) (view_destination (packet r))
               \<or> query_blocked env inputs config c (payload (packet r)))))"
proof -
  have gen: "generation (info s) = gen" by (rule built_generation [OF built])
  note settings = built_settings [OF built parse c]
  obtain m where ev: "jg_dataplane_evaluate env f limits s =
    (let result = (initialize_result s)\<lparr>packet_result := JG_PACKET_OK, packet := v,
       destination_policy := m, policy_path := JG_POLICY_STATS_NETWORK_DESTINATION, client := c\<rparr>
     in if destination_blocked dinputs config (Some c) (view_destination v)
        then run.Done (result\<lparr>verdict := JG_NFQUEUE_DROP, reason := JG_DATAPLANE_POLICY_BLOCK\<rparr>)
        else after_destination env v c s result)"
    using evaluate_parsed [OF parse c settings(2)] by blast
  show ?thesis
  proof (cases "destination_blocked dinputs config (Some c) (view_destination v)
      \<or> fragmented v \<or> transport v \<noteq> JG_TRANSPORT_UDP \<or> destination_port v \<noteq> 53
      \<or> \<not> transport_complete v")
    case True
    then show ?thesis using c gen unfolding ev by (auto simp: Let_def after_destination_def)
  next
    case False
    let ?res = "(initialize_result s)\<lparr>packet_result := JG_PACKET_OK, packet := v,
       destination_policy := m, policy_path := JG_POLICY_STATS_NETWORK_DESTINATION, client := c\<rparr>"
    have "jg_dataplane_evaluate env f limits s = evaluate_query env (payload v) c s ?res"
      using False unfolding ev by (simp add: Let_def after_destination_def)
    with evaluate_query_cases [OF settings(1), of ?res "payload v"] c gen False show ?thesis
      by (auto split: run.splits)
  qed
qed

text \<open>
  C2. The packet path fails closed and leaks nothing. On every frame, all limits and every policy
  whose build had a second normalisation pass that succeeds as the first did, the evaluation returns
  without a fault: its reads of the frame and of the message, its writes to the fixed arrays of the
  result, and the reads of the hash table, the rules, the observed scopes and the packed strings of
  the snapshot by the lookups are all in range. An error leaves the verdict DROP. With an explicit result the verdict is DROP exactly when the reason is MALFORMED or
  POLICY_BLOCK. A frame is accepted only if it is no IP packet, or parses and is not blocked by the
  destination rules for the client in its headers; and an unfragmented UDP query to port 53 is
  accepted only if its payload parses as a DNS query in which every name is a policy domain that the
  domain rules do not block. A POLICY_BLOCK has a blocked destination or a blocked name behind it.
\<close>

theorem dataplane_fails_closed:
  assumes "built_policy env env' inputs dinputs config gen s"
  shows "case jg_dataplane_evaluate env f limits s of
      Fault \<Rightarrow> False
    | Fail (e, r) \<Rightarrow> e = EINVAL \<and> verdict r = JG_NFQUEUE_DROP
    | Done r \<Rightarrow> policy_generation r = gen
        \<and> (verdict r = JG_NFQUEUE_DROP \<longleftrightarrow>
            reason r = JG_DATAPLANE_MALFORMED \<or> reason r = JG_DATAPLANE_POLICY_BLOCK)
        \<and> (verdict r = JG_NFQUEUE_ACCEPT \<longrightarrow> packet_result r = JG_PACKET_NON_IP
            \<or> packet_result r = JG_PACKET_OK \<and> (\<exists>c. build_client (packet r) = Done c
                \<and> \<not> destination_blocked dinputs config (Some c) (view_destination (packet r))
                \<and> (udp_query (packet r) \<longrightarrow> query_allowed env inputs config c (payload (packet r)))))
        \<and> (reason r = JG_DATAPLANE_POLICY_BLOCK \<longrightarrow> (\<exists>c. build_client (packet r) = Done c
            \<and> (destination_blocked dinputs config (Some c) (view_destination (packet r))
               \<or> query_blocked env inputs config c (payload (packet r)))))"
proof -
  have gen: "generation (info s) = gen" by (rule built_generation [OF assms])
  show ?thesis
  proof (cases "jg_packet_parse f limits")
    case Fault
    then show ?thesis using packet_parse_ensures [of f limits] by simp
  next
    case (Fail e)
    then show ?thesis by (simp add: jg_dataplane_evaluate_def Let_def gen)
  next
    case (Done pv)
    obtain pr v where pv: "pv = (pr, v)" by fastforce
    have pr: "pr = JG_PACKET_OK \<or> pr = JG_PACKET_NON_IP"
      using ensuresD [OF packet_parse_ensures Done] pv by (auto split: jg_packet_result.splits)
    show ?thesis
    proof (cases "pr = JG_PACKET_OK")
      case False
      then show ?thesis using pr Done pv by (simp add: jg_dataplane_evaluate_def Let_def gen)
    next
      case True
      then have parse: "jg_packet_parse f limits = run.Done (JG_PACKET_OK, v)" using Done pv by simp
      show ?thesis
      proof (cases "build_client v")
        case Fault
        then show ?thesis using build_client_parsed(1) [OF parse] by blast
      next
        case (Fail e)
        then show ?thesis using parse by (simp add: jg_dataplane_evaluate_def Let_def gen)
      next
        case c: (Done c)
        show ?thesis by (rule evaluate_client_outcome [OF assms parse c])
      qed
    qed
  qed
qed

text \<open>
  C1. The verdict on a UDP query is exact, from the bytes of the frame to the rules of the
  administrator, on a policy whose build had a second normalisation pass that succeeds as the first
  did. Take an unfragmented frame to UDP port 53 that parses and whose payload is a DNS query. When
  the destination rules block its destination for the client in its headers, it is dropped as
  POLICY_BLOCK. Otherwise the first question decides that the domain rules block or whose name is no
  policy domain (a name with an underscore, say): in the first case the frame is dropped as
  POLICY_BLOCK and that question is the one reported; in the second the evaluation returns -EINVAL
  with the verdict DROP. When there is no such question the frame is accepted as POLICY_ALLOW.
\<close>

theorem dataplane_udp_query_exact:
  assumes "built_policy env env' inputs dinputs config gen s"
    and "jg_packet_parse f limits = Done (JG_PACKET_OK, v)" and "build_client v = Done c"
    and "udp_query v" and "jg_dns_parse_query (payload v) = Done dns"
  shows "if destination_blocked dinputs config (Some c) (view_destination v)
    then \<exists>r. jg_dataplane_evaluate env f limits s = Done r \<and> policy_generation r = gen
      \<and> verdict r = JG_NFQUEUE_DROP \<and> reason r = JG_DATAPLANE_POLICY_BLOCK
    else case find (\<lambda>q. \<not> policy_domain (qname q)
        \<or> domain_blocked env inputs config (Some c) JG_POLICY_DOMAIN_DNS (qname q)) (questions dns) of
      None \<Rightarrow> \<exists>r. jg_dataplane_evaluate env f limits s = Done r \<and> policy_generation r = gen
        \<and> verdict r = JG_NFQUEUE_ACCEPT \<and> reason r = JG_DATAPLANE_POLICY_ALLOW
    | Some q \<Rightarrow> if policy_domain (qname q)
        then \<exists>r. jg_dataplane_evaluate env f limits s = Done r \<and> policy_generation r = gen
          \<and> verdict r = JG_NFQUEUE_DROP \<and> reason r = JG_DATAPLANE_POLICY_BLOCK
          \<and> question_index r < question_count dns \<and> questions dns ! question_index r = q
          \<and> inspected_domain r = qname q
        else \<exists>r. jg_dataplane_evaluate env f limits s = Fail (EINVAL, r) \<and> verdict r = JG_NFQUEUE_DROP"
proof -
  note settings = built_settings [OF assms(1-3)]
  have gen: "generation (info s) = gen" by (rule built_generation [OF assms(1)])
  have complete: "transport_complete v"
    using parsed_view(3) [OF assms(2)] assms(4) by (auto simp: transport_valid_def Let_def split: if_splits)
  obtain m where ev: "jg_dataplane_evaluate env f limits s =
      (let result = (initialize_result s)\<lparr>packet_result := JG_PACKET_OK, packet := v,
         destination_policy := m, policy_path := JG_POLICY_STATS_NETWORK_DESTINATION, client := c\<rparr>
       in if destination_blocked dinputs config (Some c) (view_destination v)
          then Done (result\<lparr>verdict := JG_NFQUEUE_DROP, reason := JG_DATAPLANE_POLICY_BLOCK\<rparr>)
          else after_destination env v c s result)"
    using evaluate_parsed [OF assms(2,3) settings(2)] by blast
  show ?thesis
  proof (cases "destination_blocked dinputs config (Some c) (view_destination v)")
    case True
    then show ?thesis using gen unfolding ev by (simp add: Let_def)
  next
    case False
    define res where "res = (initialize_result s)\<lparr>packet_result := JG_PACKET_OK, packet := v,
        destination_policy := m, policy_path := JG_POLICY_STATS_NETWORK_DESTINATION, client := c\<rparr>"
    have eq: "jg_dataplane_evaluate env f limits s = evaluate_query env (payload v) c s res"
      using False assms(4) complete unfolding ev by (simp add: Let_def after_destination_def flip: res_def)
    have res: "policy_generation res = gen" "verdict res = JG_NFQUEUE_DROP" by (simp_all add: res_def gen)
    show ?thesis
      using evaluate_query_exact [OF settings(1) assms(5), of res]
      unfolding if_not_P [OF False] eq res decisive_def .
  qed
qed

lemma evaluate_sni_verdict:
  assumes "built_policy env env' inputs dinputs config gen s"
    and "jg_packet_parse f limits = Done (JG_PACKET_OK, v)" and "build_client v = Done c"
    and "\<not> fragmented v" "transport v = JG_TRANSPORT_TCP"
    and "destination_port v = 443 \<or> destination_port v = 853"
    and "policy_domain name"
  shows "\<exists>r. jg_dataplane_evaluate_visible_sni env v name s = Done r \<and> packet r = v
    \<and> (if destination_blocked dinputs config (Some c) (view_destination v)
          \<or> domain_blocked env inputs config (Some c) JG_POLICY_DOMAIN_TLS_SNI name
       then verdict r = JG_NFQUEUE_DROP \<and> reason r = JG_DATAPLANE_POLICY_BLOCK
       else verdict r = JG_NFQUEUE_ACCEPT \<and> reason r = JG_DATAPLANE_POLICY_ALLOW \<and> inspected_domain r = name)"
proof -
  note settings = built_settings [OF assms(1-3)]
  have proto: "ip_protocol v = IPPROTO_TCP"
    using parsed_view(3) [OF assms(2)] assms(5) by (auto simp: transport_valid_def Let_def)
  obtain m where m: "jg_policy_match_destination s (view_destination v) (Some c) = Done m"
    "m_effect m = (if destination_blocked dinputs config (Some c) (view_destination v)
       then JG_POLICY_BLOCK else JG_POLICY_ALLOW)"
    using destination_verdict [OF settings(2)] by blast
  obtain n where n: "jg_policy_match_visible_sni env s name (Some c) = Done n"
    "m_effect n = (if domain_blocked env inputs config (Some c) JG_POLICY_DOMAIN_TLS_SNI name
       then JG_POLICY_BLOCK else JG_POLICY_ALLOW)"
    using domain_verdict [OF settings(1) assms(7), of JG_POLICY_DOMAIN_TLS_SNI]
    by (auto simp: jg_policy_match_visible_sni_def)
  have "length name \<le> JG_DOMAIN_NAME_MAX" using assms(7) by (simp add: policy_domain_def)
  then show ?thesis
    using assms(3-6) m n proto
    by (auto simp: jg_dataplane_evaluate_visible_sni_def evaluate_destination_parsed [OF assms(2)]
        store_at_def Let_def)
qed

text \<open>
  C8. The verdict on a visible server name is exact, on a policy whose build had a second
  normalisation pass that succeeds as the first did. For a parsed, unfragmented TCP frame to port
  443 or 853 and a policy domain as its server name, the evaluation succeeds; it drops exactly when
  the destination rules block the destination or the SNI rules block the name, for the client in
  the headers of the frame, and accepts otherwise.
\<close>

theorem dataplane_sni_exact:
  assumes "built_policy env env' inputs dinputs config gen s"
    and "jg_packet_parse f limits = Done (JG_PACKET_OK, v)" and "build_client v = Done c"
    and "\<not> fragmented v" "transport v = JG_TRANSPORT_TCP"
    and "destination_port v = 443 \<or> destination_port v = 853"
    and "policy_domain name"
  shows "\<exists>r. jg_dataplane_evaluate_visible_sni env v name s = Done r
    \<and> (verdict r = JG_NFQUEUE_DROP \<longleftrightarrow>
        destination_blocked dinputs config (Some c) (view_destination v)
        \<or> domain_blocked env inputs config (Some c) JG_POLICY_DOMAIN_TLS_SNI name)
    \<and> (reason r = JG_DATAPLANE_POLICY_BLOCK \<longleftrightarrow> verdict r = JG_NFQUEUE_DROP)"
  using evaluate_sni_verdict [OF assms] by (auto split: if_splits)

section \<open>A concrete frame\<close>

text \<open>A query for x.bad.test from 192.168.7.200 to UDP port 53 of 9.9.9.9.\<close>

definition example_query :: bytes where
  "example_query = [0x12, 0x34, 1, 0, 0, 1, 0, 0, 0, 0, 0, 0, 1, 0x78, 3, 0x62, 0x61, 0x64,
     4, 0x74, 0x65, 0x73, 0x74, 0, 0, 1, 0, 1]"

definition example_frame :: "u8 \<Rightarrow> u16 \<Rightarrow> bytes \<Rightarrow> bytes" where
  "example_frame protocol port transport_bytes =
     [2, 0, 0, 0, 0, 1, 2, 0, 0, 0, 0, 2, 8, 0, 0x45, 0] @ u16_be (of_nat (24 + length transport_bytes))
     @ [0, 0, 0, 0, 64, protocol, 0, 0, 192, 168, 7, 200, 9, 9, 9, 9, 0x10, 0] @ u16_be port
     @ transport_bytes"

definition example_udp_frame :: bytes where
  "example_udp_frame = example_frame 17 53 ([0, 36, 0, 0] @ example_query)"

definition example_tcp_frame :: bytes where
  "example_tcp_frame = example_frame 6 443 [0, 0, 0, 1, 0, 0, 0, 2, 0x50, 0x10, 4, 0, 0, 0, 0, 0]"

definition parsed_of :: "bytes \<Rightarrow> jg_packet_view" where
  "parsed_of f = (case jg_packet_parse f None of Done (_, v) \<Rightarrow> v | _ \<Rightarrow> cleared_view)"

definition client_of :: "jg_packet_view \<Rightarrow> jg_policy_client" where
  "client_of v = (case build_client v of Done c \<Rightarrow> c | _ \<Rightarrow> cleared_client)"

lemma example_parse:
  "jg_packet_parse example_udp_frame None = Done (JG_PACKET_OK, parsed_of example_udp_frame)"
  "jg_packet_parse example_tcp_frame None = Done (JG_PACKET_OK, parsed_of example_tcp_frame)"
  by code_simp+

lemma example_client:
  "build_client (parsed_of example_udp_frame) = Done (client_of (parsed_of example_udp_frame))"
  "build_client (parsed_of example_tcp_frame) = Done (client_of (parsed_of example_tcp_frame))"
  by code_simp+

definition example_dns :: jg_dns_message where
  "example_dns = (case jg_dns_parse_query example_query of Done dns \<Rightarrow> dns
     | _ \<Rightarrow> \<lparr>dns_id = 0, dns_flags = 0, wire_question_count = 0, answer_count = 0, authority_count = 0,
            additional_count = 0, question_wire_size = 0, has_edns0 = False, questions = []\<rparr>)"

lemma example_dns:
  "udp_query (parsed_of example_udp_frame)"
  "payload (parsed_of example_udp_frame) = example_query"
  "jg_dns_parse_query example_query = Done example_dns"
  "map qname (questions example_dns) = [str ''x.bad.test'']"
  by code_simp+

lemma example_built: "\<exists>s. built_policy example_environment exhausted_environment example_inputs [] None 1 s"
  using build_configured_succeeds [OF example_buildable] example_buildable
    example_second_pass second_pass_build [OF example_second_pass, of "[]" None 1]
  by (auto simp: built_policy_def buildable_def destinations_typed_def)

lemma example_blocked: "domain_blocked example_environment example_inputs None cl JG_POLICY_DOMAIN_DNS (str ''x.bad.test'')"
proof -
  have a: "input_applies example_environment cl JG_POLICY_DOMAIN_DNS (str ''x.bad.test'') i \<longleftrightarrow>
      i = example_rule 7 (str ''Bad.test'') True JG_POLICY_BLOCK JG_POLICY_SCOPE_GLOBAL"
    if "i \<in> set example_inputs" for i
    using that unfolding example_inputs_def list.set insert_iff empty_iff input_applies_def
    using example_matches
    by (elim disjE FalseE) (simp_all only: example_normal, simp_all add: example_rule_def)
  have "in_effect (example_rule 7 (str ''Bad.test'') True JG_POLICY_BLOCK JG_POLICY_SCOPE_GLOBAL) = JG_POLICY_BLOCK"
    "input_enforced None cl (example_rule 7 (str ''Bad.test'') True JG_POLICY_BLOCK JG_POLICY_SCOPE_GLOBAL)"
    by (simp_all add: example_rule_def input_enforced_def config_observes_def)
  then show ?thesis
    unfolding domain_blocked_def using a example_in by (metis jg_policy_effect.distinct(1))
qed

theorem dataplane_udp_query_exact_witness:
  "\<exists>s r. jg_dataplane_evaluate example_environment example_udp_frame None s = Done r
     \<and> verdict r = JG_NFQUEUE_DROP \<and> reason r = JG_DATAPLANE_POLICY_BLOCK
     \<and> inspected_domain r = str ''x.bad.test''"
proof -
  obtain s where s: "built_policy example_environment exhausted_environment example_inputs [] None 1 s"
    using example_built by blast
  let ?c = "client_of (parsed_of example_udp_frame)"
  obtain q where q: "questions example_dns = [q]" "qname q = str ''x.bad.test''"
    using example_dns(4) by auto
  have b: "domain_blocked example_environment example_inputs None (Some ?c) JG_POLICY_DOMAIN_DNS (qname q)"
    unfolding q(2) by (rule example_blocked)
  have nd: "\<not> destination_blocked [] None (Some ?c) (view_destination (parsed_of example_udp_frame))"
    by (simp add: destination_blocked_def)
  have pd: "jg_dns_parse_query (payload (parsed_of example_udp_frame)) = Done example_dns"
    using example_dns(2,3) by (simp only:)
  have found: "find (\<lambda>q. \<not> policy_domain (qname q)
      \<or> domain_blocked example_environment example_inputs None (Some ?c) JG_POLICY_DOMAIN_DNS (qname q)) (questions example_dns) = Some q"
    unfolding q(1) using b by simp
  have "policy_domain (qname q)" unfolding q(2) by (rule example_names(1))
  with dataplane_udp_query_exact [OF s example_parse(1) example_client(1) example_dns(1) pd,
      unfolded if_not_P [OF nd] found option.case]
  obtain r where "jg_dataplane_evaluate example_environment example_udp_frame None s = Done r"
    "verdict r = JG_NFQUEUE_DROP" "reason r = JG_DATAPLANE_POLICY_BLOCK" "inspected_domain r = qname q" by auto
  then show ?thesis unfolding q(2) by blast
qed

theorem dataplane_fails_closed_witness:
  "\<exists>s. case jg_dataplane_evaluate example_environment example_udp_frame None s of
      Fault \<Rightarrow> False
    | Fail (e, r) \<Rightarrow> e = EINVAL \<and> verdict r = JG_NFQUEUE_DROP
    | Done r \<Rightarrow> policy_generation r = 1"
proof -
  obtain s where "built_policy example_environment exhausted_environment example_inputs [] None 1 s"
    using example_built by blast
  from dataplane_fails_closed [OF this, of example_udp_frame None] show ?thesis
    by (intro exI [of _ s]) (auto split: run.splits)
qed

theorem dataplane_sni_exact_witness:
  "\<exists>s r. jg_dataplane_evaluate_visible_sni example_environment (parsed_of example_tcp_frame)
       (str ''x.bad.test'') s = Done r \<and> verdict r = JG_NFQUEUE_ACCEPT"
proof -
  obtain s where s: "built_policy example_environment exhausted_environment example_inputs [] None 1 s"
    using example_built by blast
  have t: "\<not> fragmented (parsed_of example_tcp_frame)" "transport (parsed_of example_tcp_frame) = JG_TRANSPORT_TCP"
    "destination_port (parsed_of example_tcp_frame) = 443"
    by code_simp+
  have "\<not> domain_blocked example_environment example_inputs None cl JG_POLICY_DOMAIN_TLS_SNI (str ''x.bad.test'')"
    for cl
    by (auto simp: domain_blocked_def input_applies_def example_inputs_def example_rule_def)
  moreover have "\<not> destination_blocked [] None cl dst" for cl dst
    by (simp add: destination_blocked_def)
  ultimately obtain r where "jg_dataplane_evaluate_visible_sni example_environment (parsed_of example_tcp_frame)
      (str ''x.bad.test'') s = Done r" "verdict r \<noteq> JG_NFQUEUE_DROP"
    using dataplane_sni_exact [OF s example_parse(2) example_client(2) t(1,2) disjI1 [OF t(3)] example_names(1)]
    by blast
  then show ?thesis by (intro exI [of _ s] exI [of _ r]) (cases "verdict r"; simp)
qed

end
