(* ===== verification/Transitions.thy ===== *)
theory Transitions
  imports Prelude
begin

text \<open>
  The interface of the components that are state machines: a set of initial states and a partial
  function that performs one action. What holds initially and is kept by every action holds after
  every sequence of actions; the clients interpret the locale on their own actions.
\<close>

locale transition_system =
  fixes initial :: "'s \<Rightarrow> bool" and perform :: "'a \<Rightarrow> 's \<Rightarrow> 's option" and invariant :: "'s \<Rightarrow> bool"
  assumes initial_invariant: "initial s \<Longrightarrow> invariant s"
    and perform_invariant: "invariant s \<Longrightarrow> perform a s = Some s' \<Longrightarrow> invariant s'"
begin

inductive reachable :: "'s \<Rightarrow> bool" where
  start: "initial s \<Longrightarrow> reachable s"
| act: "reachable s \<Longrightarrow> perform a s = Some s' \<Longrightarrow> reachable s'"

fun run :: "'a list \<Rightarrow> 's \<Rightarrow> 's option" where
  "run [] s = Some s"
| "run (a # as) s = (case perform a s of None \<Rightarrow> None | Some s' \<Rightarrow> run as s')"

lemma reachable_invariant: "reachable s \<Longrightarrow> invariant s"
  by (induction rule: reachable.induct) (auto intro: initial_invariant perform_invariant)

lemma run_reachable: "reachable s \<Longrightarrow> run as s = Some s' \<Longrightarrow> reachable s'"
  by (induction "as" arbitrary: s) (auto split: option.splits intro: act)

lemma run_append: "run (as @ bs) s = (case run as s of None \<Rightarrow> None | Some s' \<Rightarrow> run bs s')"
  by (induction "as" arbitrary: s) (auto split: option.splits)

lemma run_invariant: "invariant s \<Longrightarrow> run as s = Some s' \<Longrightarrow> invariant s'"
  by (induction "as" arbitrary: s) (auto split: option.splits intro: perform_invariant)

end

end
