(* ===== verification/PolicyStore.thy ===== *)
theory PolicyStore
  imports Transitions
begin

text \<open>
  \<^verbatim>\<open>src/daemon/policy_store.c\<close>: publication and reclamation of policy snapshots through hazard
  pointers. The packet workers read without locks while one writer replaces the snapshot, so the
  functions are modelled at the grain of their atomic operations, which are all sequentially
  consistent: an action is one load, store or exchange of one thread, and any interleaving of
  actions is a behaviour. A snapshot is its address; \<open>live\<close> are the addresses that are allocated,
  and an address that was freed may be allocated again.

  The contract of \<^verbatim>\<open>policy_store.h\<close> is built into the guards: a reader slot belongs to one thread, which
  acquires and then releases, the writer is serialised, and nobody is active at destruction.
\<close>

section \<open>State\<close>

type_synonym snapshot_ref = nat

record jg_policy_store =
  current :: snapshot_ref
  reader_slots :: "snapshot_ref option list"
  reader_count :: nat

definition JG_POLICY_STORE_READER_MAX :: nat where
  "JG_POLICY_STORE_READER_MAX = 65"

text \<open>
  Where a reader stands in \<open>jg_policy_store_acquire\<close>: outside, after the load, after the store into
  its slot, at the start of a further round, or returned with a snapshot. Where the writer stands in \<open>jg_policy_store_replace\<close>: outside,
  after the comparison with the current snapshot, or in \<open>wait_for_readers\<close> on the previous snapshot,
  about to read the slot with the given index.
\<close>

datatype reader_state =
  Reader_idle | Reader_retry | Reader_loaded snapshot_ref | Reader_stored snapshot_ref | Reader_holds snapshot_ref

datatype writer_state = Writer_idle | Writer_checked snapshot_ref | Writer_scans snapshot_ref nat

record store_system =
  store :: "jg_policy_store option"
  live :: "snapshot_ref set"
  readers :: "reader_state list"
  writer :: writer_state

datatype store_action =
    Allocate snapshot_ref
  | Acquire_load nat | Acquire_store nat | Acquire_check nat | Release nat
  | Replace_check snapshot_ref | Replace_exchange | Replace_scan
  | Destroy_store

section \<open>Operations\<close>

definition jg_policy_store_create :: "(nat \<Rightarrow> bool) \<Rightarrow> snapshot_ref \<Rightarrow> nat \<Rightarrow> jg_policy_store result" where
  "jg_policy_store_create allocate first n =
     (if n = 0 \<or> n > JG_POLICY_STORE_READER_MAX then Inl EINVAL
      else if \<not> allocate (64 * (JG_POLICY_STORE_READER_MAX + 2)) then Inl ENOMEM
      else Inr \<lparr>current = first, reader_slots = replicate JG_POLICY_STORE_READER_MAX None, reader_count = n\<rparr>)"

text \<open>The whole scan on a store that does not change meanwhile.\<close>

definition snapshot_in_use :: "jg_policy_store \<Rightarrow> snapshot_ref \<Rightarrow> bool" where
  "snapshot_in_use st x = list_ex (\<lambda>slot. slot = Some x) (take (reader_count st) (reader_slots st))"

text \<open>The three atomic operations of one round of \<open>jg_policy_store_acquire\<close>.\<close>

definition acquire_load :: "nat \<Rightarrow> jg_policy_store \<Rightarrow> store_system \<Rightarrow> store_system option" where
  "acquire_load j st s =
     (if j < reader_count st \<and> (readers s ! j = Reader_idle \<or> readers s ! j = Reader_retry)
      then Some (s\<lparr>readers := (readers s)[j := Reader_loaded (current st)]\<rparr>) else None)"

definition acquire_store :: "nat \<Rightarrow> jg_policy_store \<Rightarrow> store_system \<Rightarrow> store_system option" where
  "acquire_store j st s =
     (if j < reader_count st then
        (case readers s ! j of
           Reader_loaded x \<Rightarrow> Some (s\<lparr>store := Some (st\<lparr>reader_slots := (reader_slots st)[j := Some x]\<rparr>),
                                      readers := (readers s)[j := Reader_stored x]\<rparr>)
         | _ \<Rightarrow> None)
      else None)"

definition acquire_check :: "nat \<Rightarrow> jg_policy_store \<Rightarrow> store_system \<Rightarrow> store_system option" where
  "acquire_check j st s =
     (if j < reader_count st then
        (case readers s ! j of
           Reader_stored x \<Rightarrow>
             Some (s\<lparr>readers := (readers s)[j := if x \<noteq> current st then Reader_retry else Reader_holds x]\<rparr>)
         | _ \<Rightarrow> None)
      else None)"

definition jg_policy_store_release :: "nat \<Rightarrow> jg_policy_store \<Rightarrow> store_system \<Rightarrow> store_system option" where
  "jg_policy_store_release j st s =
     (if j < reader_count st then
        (case readers s ! j of
           Reader_holds x \<Rightarrow> Some (s\<lparr>store := Some (st\<lparr>reader_slots := (reader_slots st)[j := None]\<rparr>),
                                     readers := (readers s)[j := Reader_idle]\<rparr>)
         | _ \<Rightarrow> None)
      else None)"

definition jg_policy_snapshot_destroy :: "snapshot_ref \<Rightarrow> store_system \<Rightarrow> store_system" where
  "jg_policy_snapshot_destroy x s = s\<lparr>live := live s - {x}\<rparr>"

text \<open>
  \<open>jg_policy_store_replace\<close>: the comparison, which ends the call with \<open>EALREADY\<close> when the
  replacement is current, the exchange, and one slot of the scan. A slot that holds the previous
  snapshot starts the scan over; a complete scan without one frees it.
\<close>

definition replace_check :: "snapshot_ref \<Rightarrow> jg_policy_store \<Rightarrow> store_system \<Rightarrow> store_system option" where
  "replace_check x st s =
     (if writer s = Writer_idle \<and> x \<in> live s
      then Some (if current st = x then s else s\<lparr>writer := Writer_checked x\<rparr>) else None)"

definition replace_exchange :: "jg_policy_store \<Rightarrow> store_system \<Rightarrow> store_system option" where
  "replace_exchange st s = (case writer s of
     Writer_checked x \<Rightarrow> Some (s\<lparr>store := Some (st\<lparr>current := x\<rparr>), writer := Writer_scans (current st) 0\<rparr>)
   | _ \<Rightarrow> None)"

definition replace_scan :: "jg_policy_store \<Rightarrow> store_system \<Rightarrow> store_system option" where
  "replace_scan st s = (case writer s of
     Writer_scans x i \<Rightarrow>
       Some (if i < reader_count st then
               (if reader_slots st ! i = Some x then s\<lparr>writer := Writer_scans x 0\<rparr>
                else s\<lparr>writer := Writer_scans x (i + 1)\<rparr>)
             else (jg_policy_snapshot_destroy x s)\<lparr>writer := Writer_idle\<rparr>)
   | _ \<Rightarrow> None)"

definition jg_policy_store_destroy :: "jg_policy_store \<Rightarrow> store_system \<Rightarrow> store_system option" where
  "jg_policy_store_destroy st s =
     (if writer s = Writer_idle \<and> list_all (\<lambda>r. r = Reader_idle) (readers s)
      then Some ((jg_policy_snapshot_destroy (current st) s)\<lparr>store := None\<rparr>) else None)"

fun store_perform :: "store_action \<Rightarrow> store_system \<Rightarrow> store_system option" where
  "store_perform (Allocate x) s = (if x \<notin> live s then Some (s\<lparr>live := insert x (live s)\<rparr>) else None)"
| "store_perform (Acquire_load j) s = (case store s of None \<Rightarrow> None | Some st \<Rightarrow> acquire_load j st s)"
| "store_perform (Acquire_store j) s = (case store s of None \<Rightarrow> None | Some st \<Rightarrow> acquire_store j st s)"
| "store_perform (Acquire_check j) s = (case store s of None \<Rightarrow> None | Some st \<Rightarrow> acquire_check j st s)"
| "store_perform (Release j) s = (case store s of None \<Rightarrow> None | Some st \<Rightarrow> jg_policy_store_release j st s)"
| "store_perform (Replace_check x) s = (case store s of None \<Rightarrow> None | Some st \<Rightarrow> replace_check x st s)"
| "store_perform Replace_exchange s = (case store s of None \<Rightarrow> None | Some st \<Rightarrow> replace_exchange st s)"
| "store_perform Replace_scan s = (case store s of None \<Rightarrow> None | Some st \<Rightarrow> replace_scan st s)"
| "store_perform Destroy_store s = (case store s of None \<Rightarrow> None | Some st \<Rightarrow> jg_policy_store_destroy st s)"

text \<open>
  \<open>jg_policy_store_reload_from_database\<close>, as its error or the sequence of the actions of the thread
  that calls it, between which the actions of the readers fall: the database builds the
  replacement or fails, and the replacement is published. The scan takes as many actions as the
  readers make it take, which is the last argument. The snapshot that the database returns was
  allocated while the current one was live, so that the comparison in \<open>jg_policy_store_replace\<close> does
  not find it current: \<open>EALREADY\<close> is not returned, the exchange takes the replacement, and the
  final \<open>jg_policy_snapshot_destroy\<close> gets a null pointer.
\<close>

definition jg_policy_store_reload_from_database ::
  "(u64 \<Rightarrow> snapshot_ref result) \<Rightarrow> u64 \<Rightarrow> nat \<Rightarrow> store_action list result" where
  "jg_policy_store_reload_from_database load gen scans =
     (if gen = 0 then Inl EINVAL
      else case load gen of
        Inl e \<Rightarrow> Inl e
      | Inr x \<Rightarrow> Inr ([Allocate x, Replace_check x, Replace_exchange] @ replicate scans Replace_scan))"

section \<open>The invariant\<close>

text \<open>
  A reader that stored a snapshot has it in its slot. A reader that holds one holds the current
  snapshot or the one the writer waits for, and in the second case the scan has not passed its slot.
\<close>

definition reader_ok :: "jg_policy_store \<Rightarrow> writer_state \<Rightarrow> nat \<Rightarrow> reader_state \<Rightarrow> bool" where
  "reader_ok st w j r = (case r of
     Reader_stored x \<Rightarrow> reader_slots st ! j = Some x
   | Reader_holds x \<Rightarrow> reader_slots st ! j = Some x
       \<and> (x = current st \<or> (\<exists>i. w = Writer_scans x i \<and> i \<le> j))
   | _ \<Rightarrow> True)"

definition writer_ok :: "jg_policy_store \<Rightarrow> snapshot_ref set \<Rightarrow> writer_state \<Rightarrow> bool" where
  "writer_ok st l w = (case w of
     Writer_idle \<Rightarrow> True
   | Writer_checked x \<Rightarrow> x \<in> l \<and> x \<noteq> current st
   | Writer_scans x i \<Rightarrow> x \<in> l \<and> x \<noteq> current st \<and> i \<le> reader_count st)"

definition store_ok :: "store_system \<Rightarrow> bool" where
  "store_ok s = (case store s of
     None \<Rightarrow> list_all (\<lambda>r. r = Reader_idle) (readers s)
   | Some st \<Rightarrow> current st \<in> live s \<and> 0 < reader_count st \<and> reader_count st \<le> length (reader_slots st)
       \<and> length (readers s) = reader_count st \<and> writer_ok st (live s) (writer s)
       \<and> (\<forall>j < reader_count st. reader_ok st (writer s) j (readers s ! j)))"

definition store_initial :: "store_system \<Rightarrow> bool" where
  "store_initial s \<longleftrightarrow> writer s = Writer_idle \<and> (\<exists>allocate x n st.
     jg_policy_store_create allocate x n = Inr st \<and> store s = Some st \<and> x \<in> live s
     \<and> readers s = replicate n Reader_idle)"

lemmas store_operation_defs = acquire_load_def acquire_store_def acquire_check_def
  jg_policy_store_release_def replace_check_def replace_exchange_def replace_scan_def
  jg_policy_store_destroy_def jg_policy_snapshot_destroy_def

text \<open>What each action keeps: the readers' part, for an update of one reader, then the whole.\<close>

lemma reader_ok_simps [simp]:
  "reader_ok st w j Reader_idle" "reader_ok st w j Reader_retry" "reader_ok st w j (Reader_loaded x)"
  "reader_ok st w j (Reader_stored x) \<longleftrightarrow> reader_slots st ! j = Some x"
  "reader_ok st w j (Reader_holds x) \<longleftrightarrow> reader_slots st ! j = Some x
     \<and> (x = current st \<or> (\<exists>i. w = Writer_scans x i \<and> i \<le> j))"
  by (simp_all add: reader_ok_def)

lemma writer_ok_simps [simp]:
  "writer_ok st l Writer_idle"
  "writer_ok st l (Writer_checked x) \<longleftrightarrow> x \<in> l \<and> x \<noteq> current st"
  "writer_ok st l (Writer_scans x i) \<longleftrightarrow> x \<in> l \<and> x \<noteq> current st \<and> i \<le> reader_count st"
  by (simp_all add: writer_ok_def)

lemma reader_ok_slot:
  "reader_slots st' ! j = reader_slots st ! j \<Longrightarrow> current st' = current st \<Longrightarrow> reader_ok st' w j r = reader_ok st w j r"
  by (simp add: reader_ok_def split: reader_state.splits)

lemma writer_ok_store:
  "current st' = current st \<Longrightarrow> reader_count st' = reader_count st \<Longrightarrow> writer_ok st' l w = writer_ok st l w"
  by (simp add: writer_ok_def split: writer_state.splits)

lemma writer_ok_mono: "writer_ok st l w \<Longrightarrow> l \<subseteq> l' \<Longrightarrow> writer_ok st l' w"
  by (auto simp: writer_ok_def split: writer_state.splits)

lemma store_ok_some:
  "store s = Some st \<Longrightarrow> store_ok s \<longleftrightarrow> current st \<in> live s \<and> 0 < reader_count st
     \<and> reader_count st \<le> length (reader_slots st)
     \<and> length (readers s) = reader_count st \<and> writer_ok st (live s) (writer s)
     \<and> (\<forall>j < reader_count st. reader_ok st (writer s) j (readers s ! j))"
  by (simp add: store_ok_def)

lemma allocate_ok: "store_ok s \<Longrightarrow> store_ok (s\<lparr>live := insert x (live s)\<rparr>)"
  by (auto simp: store_ok_def split: option.splits intro: writer_ok_mono)

lemma reader_update_ok:
  assumes ok: "store_ok s" and st: "store s = Some st" and j: "j < reader_count st"
    and r: "reader_ok st (writer s) j r"
  shows "store_ok (s\<lparr>readers := (readers s)[j := r]\<rparr>)"
proof -
  have "reader_ok st (writer s) k ((readers s)[j := r] ! k)" if "k < reader_count st" for k
    using ok r that j by (cases "k = j") (simp_all add: store_ok_some[OF st])
  then show ?thesis using ok by (simp add: store_ok_some[where st = st] st)
qed

lemma slot_update_ok:
  assumes ok: "store_ok s" and st: "store s = Some st" and j: "j < reader_count st"
    and r: "reader_ok (st\<lparr>reader_slots := (reader_slots st)[j := v]\<rparr>) (writer s) j r"
  shows "store_ok (s\<lparr>store := Some (st\<lparr>reader_slots := (reader_slots st)[j := v]\<rparr>),
                     readers := (readers s)[j := r]\<rparr>)"
proof -
  let ?st = "st\<lparr>reader_slots := (reader_slots st)[j := v]\<rparr>"
  have "reader_ok ?st (writer s) k ((readers s)[j := r] ! k)" if "k < reader_count st" for k
  proof (cases "k = j")
    case True
    then show ?thesis using ok r j by (simp add: store_ok_some[OF st])
  next
    case False
    then show ?thesis using ok that reader_ok_slot[of ?st k st] by (simp add: store_ok_some[OF st])
  qed
  then show ?thesis
    using ok by (simp add: store_ok_some[OF st] store_ok_some[where st = ?st] writer_ok_store[of ?st st])
qed

lemma acquire_load_ok: "store_ok s \<Longrightarrow> store s = Some st \<Longrightarrow> acquire_load j st s = Some s' \<Longrightarrow> store_ok s'"
  by (auto simp: acquire_load_def split: if_splits intro!: reader_update_ok)

lemma acquire_store_ok: "store_ok s \<Longrightarrow> store s = Some st \<Longrightarrow> acquire_store j st s = Some s' \<Longrightarrow> store_ok s'"
  by (auto simp: acquire_store_def store_ok_some split: if_splits reader_state.splits intro!: slot_update_ok)

lemma acquire_check_ok:
  assumes ok: "store_ok s" and st: "store s = Some st" and step: "acquire_check j st s = Some s'"
  shows "store_ok s'"
proof -
  obtain x where j: "j < reader_count st" and x: "readers s ! j = Reader_stored x"
    and s': "s' = s\<lparr>readers := (readers s)[j := if x \<noteq> current st then Reader_retry else Reader_holds x]\<rparr>"
    using step by (auto simp: acquire_check_def split: if_splits reader_state.splits)
  have "reader_slots st ! j = Some x"
    using ok j x by (auto simp: store_ok_some[OF st] dest: spec[where x = j])
  then show ?thesis using ok st j unfolding s' by (intro reader_update_ok) auto
qed

lemma release_ok: "store_ok s \<Longrightarrow> store s = Some st \<Longrightarrow> jg_policy_store_release j st s = Some s' \<Longrightarrow> store_ok s'"
  by (auto simp: jg_policy_store_release_def split: if_splits reader_state.splits intro!: slot_update_ok)

lemma reader_ok_not_scanning:
  "(\<And>i. w \<noteq> Writer_scans x i) \<Longrightarrow> reader_ok st w j (Reader_holds x) \<Longrightarrow> x = current st"
  by auto

lemma replace_check_ok:
  assumes ok: "store_ok s" and st: "store s = Some st" and step: "replace_check x st s = Some s'"
  shows "store_ok s'"
proof (cases "current st = x")
  case False
  then have s': "s' = s\<lparr>writer := Writer_checked x\<rparr>" and w: "writer s = Writer_idle" and x: "x \<in> live s"
    using step by (auto simp: replace_check_def split: if_splits)
  have "reader_ok st (Writer_checked x) k (readers s ! k)" if "k < reader_count st" for k
    using ok that w by (cases "readers s ! k") (auto simp: store_ok_some[OF st] dest: spec[where x = k])
  then show ?thesis using ok x False by (simp add: s' store_ok_some[where st = st] st)
qed (use ok step in \<open>auto simp: replace_check_def split: if_splits\<close>)

lemma replace_exchange_ok:
  assumes ok: "store_ok s" and st: "store s = Some st" and step: "replace_exchange st s = Some s'"
  shows "store_ok s'"
proof -
  obtain x where w: "writer s = Writer_checked x"
    and s': "s' = s\<lparr>store := Some (st\<lparr>current := x\<rparr>), writer := Writer_scans (current st) 0\<rparr>"
    using step by (auto simp: replace_exchange_def split: writer_state.splits)
  have "reader_ok (st\<lparr>current := x\<rparr>) (Writer_scans (current st) 0) k (readers s ! k)" if "k < reader_count st" for k
    using ok that w by (cases "readers s ! k") (auto simp: store_ok_some[OF st] dest: spec[where x = k])
  then show ?thesis
    using ok w by (simp add: s' store_ok_some[OF st] store_ok_some[where st = "st\<lparr>current := x\<rparr>"])
qed

lemma replace_scan_ok:
  assumes ok: "store_ok s" and st: "store s = Some st" and step: "replace_scan st s = Some s'"
  shows "store_ok s'"
proof -
  obtain x i where w: "writer s = Writer_scans x i" using step by (auto simp: replace_scan_def split: writer_state.splits)
  have x: "x \<in> live s" "x \<noteq> current st" "i \<le> reader_count st" using ok w by (auto simp: store_ok_some[OF st])
  have reader: "reader_ok st (Writer_scans x i) k (readers s ! k)" if "k < reader_count st" for k
    using ok that w by (simp add: store_ok_some[OF st])
  consider (busy) "i < reader_count st" "reader_slots st ! i = Some x" "s' = s\<lparr>writer := Writer_scans x 0\<rparr>"
    | (passed) "i < reader_count st" "reader_slots st ! i \<noteq> Some x" "s' = s\<lparr>writer := Writer_scans x (i + 1)\<rparr>"
    | (free) "i = reader_count st" "s' = (jg_policy_snapshot_destroy x s)\<lparr>writer := Writer_idle\<rparr>"
    using step w x by (auto simp: replace_scan_def split: if_splits)
  then show ?thesis
  proof cases
    case busy
    have "reader_ok st (Writer_scans x 0) k (readers s ! k)" if "k < reader_count st" for k
      using reader[OF that] by (cases "readers s ! k") auto
    then show ?thesis using ok x by (simp add: busy store_ok_some[where st = st] st)
  next
    case passed
    have "reader_ok st (Writer_scans x (i + 1)) k (readers s ! k)" if "k < reader_count st" for k
      using reader[OF that] passed by (cases "readers s ! k"; cases "k = i") auto
    then show ?thesis using ok x passed by (simp add: store_ok_some[where st = st] st)
  next
    case free
    have "reader_ok st Writer_idle k (readers s ! k)" if "k < reader_count st" for k
      using reader[OF that] that free by (cases "readers s ! k") auto
    then show ?thesis
      using ok x free by (simp add: store_ok_some[where st = st] st jg_policy_snapshot_destroy_def)
  qed
qed

lemma store_destroy_ok: "jg_policy_store_destroy st s = Some s' \<Longrightarrow> store_ok s'"
  by (auto simp: jg_policy_store_destroy_def jg_policy_snapshot_destroy_def store_ok_def split: if_splits)

lemmas store_operation_ok = allocate_ok acquire_load_ok acquire_store_ok acquire_check_ok release_ok
  replace_check_ok replace_exchange_ok replace_scan_ok store_destroy_ok

lemma store_perform_ok: "store_ok s \<Longrightarrow> store_perform a s = Some s' \<Longrightarrow> store_ok s'"
  by (cases a) (auto split: option.splits if_splits intro: store_operation_ok)

interpretation policy_store: transition_system store_initial store_perform store_ok
proof
  fix s :: store_system assume "store_initial s"
  then show "store_ok s"
    by (auto simp: store_initial_def store_ok_def jg_policy_store_create_def split: if_splits)
qed (rule store_perform_ok)

section \<open>Safety\<close>

lemma store_reader_live:
  assumes ok: "store_ok s" and j: "j < length (readers s)" and x: "readers s ! j = Reader_holds x"
  shows "x \<in> live s"
proof (cases "store s")
  case None
  then have "list_all (\<lambda>r. r = Reader_idle) (readers s)" using ok by (simp add: store_ok_def)
  then show ?thesis using j x by (simp add: list_all_length)
next
  case (Some st)
  then have "reader_ok st (writer s) j (Reader_holds x)" "current st \<in> live s" "writer_ok st (live s) (writer s)"
    using ok j x by (auto simp: store_ok_def dest!: spec[where x = j])
  then show ?thesis by auto
qed

lemma nth_update_other: "xs ! i \<noteq> xs ! j \<Longrightarrow> xs[i := v] ! j = xs ! j"
  by (metis nth_list_update_neq)

lemma store_action_keeps_reader:
  assumes "store_perform a s = Some s'" "readers s ! j = Reader_holds x" "j < length (readers s)" "a \<noteq> Release j"
  shows "readers s' ! j = Reader_holds x \<and> length (readers s') = length (readers s)"
  using assms by (cases a) (auto simp: store_operation_defs nth_update_other list_all_length
      split: option.splits if_splits reader_state.splits writer_state.splits)

lemma store_run_keeps_reader:
  "policy_store.run as s = Some s' \<Longrightarrow> readers s ! j = Reader_holds x \<Longrightarrow> j < length (readers s) \<Longrightarrow> Release j \<notin> set as
     \<Longrightarrow> readers s' ! j = Reader_holds x \<and> length (readers s') = length (readers s)"
proof (induction "as" arbitrary: s)
  case (Cons a "as")
  then obtain t where t: "store_perform a s = Some t" "policy_store.run as t = Some s'"
    by (auto split: option.splits)
  then show ?case using Cons store_action_keeps_reader[OF t(1)] by auto
qed simp

text \<open>The concrete store of the witnesses: two readers, and the snapshot at address 7.\<close>

definition example_store :: store_system where
  "example_store = \<lparr>store = Some \<lparr>current = 7, reader_slots = replicate JG_POLICY_STORE_READER_MAX None,
                                   reader_count = 2\<rparr>,
                    live = {7}, readers = [Reader_idle, Reader_idle], writer = Writer_idle\<rparr>"

lemma example_store_reachable: "policy_store.reachable example_store"
proof (rule policy_store.start)
  have "jg_policy_store_create (\<lambda>_. True) 7 2 = Inr (the (store example_store))"
    by (simp add: jg_policy_store_create_def example_store_def JG_POLICY_STORE_READER_MAX_def)
  moreover have "readers example_store = replicate 2 Reader_idle"
    by (simp add: example_store_def numeral_2_eq_2)
  ultimately show "store_initial example_store"
    unfolding store_initial_def by (auto simp: example_store_def)
qed

lemmas example_store_simps = example_store_def JG_POLICY_STORE_READER_MAX_def store_operation_defs

text \<open>Reader 0 acquires snapshot 7; the writer publishes 9 and scans, while reader 1 acquires 9.\<close>

definition example_acquire :: "store_action list" where
  "example_acquire = [Acquire_load 0, Acquire_store 0, Acquire_check 0]"

definition example_replace :: "store_action list" where
  "example_replace = [Allocate 9, Replace_check 9, Replace_exchange, Acquire_load 1, Replace_scan,
     Acquire_store 1, Acquire_check 1, Replace_scan, Replace_scan]"

text \<open>
  C9. No use after free: in every state that an interleaving of readers, writer and allocator can
  reach, the published snapshot is allocated, and so is every snapshot that a reader holds.
\<close>

theorem policy_store_no_use_after_free:
  assumes "policy_store.reachable s"
  shows "(\<forall>st. store s = Some st \<longrightarrow> current st \<in> live s)
    \<and> (\<forall>j x. j < length (readers s) \<longrightarrow> readers s ! j = Reader_holds x \<longrightarrow> x \<in> live s)"
  using policy_store.reachable_invariant[OF assms] store_reader_live[of s] by (auto simp: store_ok_some)

theorem policy_store_no_use_after_free_witness:
  "\<exists>s st. policy_store.run example_acquire example_store = Some s \<and> store s = Some st
    \<and> current st \<in> live s \<and> readers s ! 0 = Reader_holds 7 \<and> 7 \<in> live s"
proof -
  obtain s st where s: "policy_store.run example_acquire example_store = Some s" "store s = Some st"
      "length (readers s) = 2" "readers s ! 0 = Reader_holds 7"
    by (simp add: example_store_simps example_acquire_def)
  note safe = policy_store_no_use_after_free[OF policy_store.run_reachable[OF example_store_reachable s(1)]]
  have "7 \<in> live s" using conjunct2[OF safe, rule_format, of 0 7] s by simp
  moreover have "current st \<in> live s" using safe s by simp
  ultimately show ?thesis using s by blast
qed

text \<open>
  C10. A reader that acquired a snapshot keeps it until its own release: after any sequence of
  actions of the other threads that contains no release of this slot, the reader still holds the
  same snapshot and it has not been freed.
\<close>

theorem policy_store_protects:
  assumes "policy_store.reachable s" "j < length (readers s)" "readers s ! j = Reader_holds x"
    and "policy_store.run as s = Some s'" "Release j \<notin> set as"
  shows "readers s' ! j = Reader_holds x \<and> x \<in> live s'"
proof -
  have "readers s' ! j = Reader_holds x \<and> length (readers s') = length (readers s)"
    using store_run_keeps_reader assms by blast
  moreover have "store_ok s'"
    using policy_store.run_invariant[OF policy_store.reachable_invariant] assms by blast
  ultimately show ?thesis using store_reader_live assms(2) by auto
qed

theorem policy_store_protects_witness:
  "\<exists>s s'. policy_store.run example_acquire example_store = Some s \<and> policy_store.run example_replace s = Some s'
    \<and> 7 \<in> live s'"
proof -
  obtain s where s: "policy_store.run example_acquire example_store = Some s" "length (readers s) = 2"
      "readers s ! 0 = Reader_holds 7"
    and s': "\<exists>s'. policy_store.run example_replace s = Some s'"
    by (simp add: example_store_simps example_acquire_def example_replace_def)
  obtain s' where s': "policy_store.run example_replace s = Some s'" using s' by blast
  have "policy_store.reachable s" using policy_store.run_reachable[OF example_store_reachable s(1)] .
  then have "7 \<in> live s'" using policy_store_protects[of s 0 7 example_replace s'] s s' by (simp add: example_replace_def)
  then show ?thesis using s s' by blast
qed

section \<open>Progress\<close>

lemma not_in_use:
  "reader_count st \<le> length (reader_slots st) \<Longrightarrow>
     snapshot_in_use st x \<longleftrightarrow> (\<exists>k < reader_count st. reader_slots st ! k = Some x)"
  by (auto simp: snapshot_in_use_def list_ex_length)

text \<open>
  The writer waits for a snapshot that no slot protects and that no reader has loaded: no reader can
  protect it any more, because a load returns the current snapshot, which is another one.
\<close>

definition reclaiming :: "snapshot_ref \<Rightarrow> nat \<Rightarrow> nat \<Rightarrow> store_system \<Rightarrow> bool" where
  "reclaiming x n i s \<longleftrightarrow> (\<exists>st. store s = Some st \<and> reader_count st = n \<and> current st \<noteq> x
     \<and> length (reader_slots st) \<ge> n \<and> length (readers s) = n
     \<and> writer s = Writer_scans x i \<and> i \<le> n \<and> x \<in> live s
     \<and> (\<forall>k < n. reader_slots st ! k \<noteq> Some x \<and> readers s ! k \<noteq> Reader_loaded x))"

lemma reclaiming_other:
  assumes "reclaiming x n i s" and "store_perform a s = Some s'" and "a \<noteq> Replace_scan"
  shows "reclaiming x n i s'"
proof -
  obtain st where s: "store s = Some st" "reader_count st = n" "current st \<noteq> x" "n \<le> length (reader_slots st)"
    "length (readers s) = n" "writer s = Writer_scans x i" "i \<le> n" "x \<in> live s"
    "\<And>k. k < n \<Longrightarrow> reader_slots st ! k \<noteq> Some x \<and> readers s ! k \<noteq> Reader_loaded x"
    using assms(1) unfolding reclaiming_def by blast
  show ?thesis
    using assms(2,3) s unfolding reclaiming_def
    by (cases a) (auto simp: store_operation_defs nth_list_update split: if_splits reader_state.splits)
qed

lemma reclaiming_scan:
  "reclaiming x n i s \<Longrightarrow> store_perform Replace_scan s = Some s' \<Longrightarrow>
   (if i < n then reclaiming x n (i + 1) s' else writer s' = Writer_idle \<and> x \<notin> live s')"
  unfolding reclaiming_def by (auto simp: replace_scan_def jg_policy_snapshot_destroy_def)

lemma reclaiming_run:
  "reclaiming x n i s \<Longrightarrow> policy_store.run as s = Some s' \<Longrightarrow> i + count_list as Replace_scan \<le> n \<Longrightarrow>
   reclaiming x n (i + count_list as Replace_scan) s'"
proof (induction "as" arbitrary: s i)
  case (Cons a "as")
  then obtain t where t: "store_perform a s = Some t" "policy_store.run as t = Some s'"
    by (auto split: option.splits)
  show ?case
  proof (cases "a = Replace_scan")
    case True
    then have "reclaiming x n (i + 1) t" using reclaiming_scan [OF Cons.prems(1)] t(1) Cons.prems(3) by auto
    then show ?thesis using Cons.IH [OF _ t(2), of "i + 1"] Cons.prems(3) True by simp
  next
    case False
    then show ?thesis using Cons.IH [OF reclaiming_other [OF Cons.prems(1) t(1) False] t(2)] Cons.prems(3) by auto
  qed
qed simp

text \<open>
  C11. Reclamation ends, whatever the other threads do meanwhile. Suppose that the writer waits for
  the replaced snapshot, its scan has reached slot \<open>i\<close>, no reader slot protects that snapshot, and no
  reader stands between loading it and storing it in its slot. Then in every further interleaving
  of the threads the writer passes one slot per step of the scan and never starts over: the snapshot
  stays allocated and the writer waits during the next \<open>reader_count - i\<close> steps of the scan, and the
  one after them frees it and ends the wait.
\<close>

theorem policy_store_reclaims:
  assumes "policy_store.reachable s" "store s = Some st" "writer s = Writer_scans x i" "\<not> snapshot_in_use st x"
    and "\<forall>j < reader_count st. readers s ! j \<noteq> Reader_loaded x"
    and "policy_store.run as s = Some s'" "count_list as Replace_scan = reader_count st - i"
  shows "x \<in> live s' \<and> writer s' = Writer_scans x (reader_count st)
    \<and> (\<exists>s''. store_perform Replace_scan s' = Some s'' \<and> x \<notin> live s'' \<and> writer s'' = Writer_idle)"
proof -
  have "store_ok s" using policy_store.reachable_invariant assms(1) by blast
  then have r: "reclaiming x (reader_count st) i s" and le: "i \<le> reader_count st"
    using assms(2-5) by (auto simp: reclaiming_def store_ok_some not_in_use)
  have w: "reclaiming x (reader_count st) (reader_count st) s'"
    using reclaiming_run [OF r assms(6)] assms(7) le by simp
  then obtain s'' where "store_perform Replace_scan s' = Some s''"
    by (auto simp: reclaiming_def replace_scan_def)
  then show ?thesis using reclaiming_scan [OF w] w by (auto simp: reclaiming_def)
qed

theorem policy_store_reclaims_witness:
  "\<exists>s s' s''. policy_store.run [Allocate 9, Replace_check 9, Replace_exchange] example_store = Some s
    \<and> policy_store.run [Acquire_load 1, Replace_scan, Acquire_store 1, Acquire_check 1, Replace_scan] s = Some s'
    \<and> store_perform Replace_scan s' = Some s'' \<and> 7 \<in> live s' \<and> 7 \<notin> live s''"
proof -
  obtain s s' st where s: "policy_store.run [Allocate 9, Replace_check 9, Replace_exchange] example_store = Some s"
      "store s = Some st" "writer s = Writer_scans 7 0" "reader_count st = 2" "\<not> snapshot_in_use st 7"
      "readers s = [Reader_idle, Reader_idle]"
    and s': "policy_store.run [Acquire_load 1, Replace_scan, Acquire_store 1, Acquire_check 1, Replace_scan] s = Some s'"
    by (simp add: example_store_simps snapshot_in_use_def list_ex_iff)
  have "\<forall>j < reader_count st. readers s ! j \<noteq> Reader_loaded 7"
    unfolding s(4,6) by (simp add: numeral_2_eq_2 less_Suc_eq)
  from policy_store_reclaims [OF policy_store.run_reachable [OF example_store_reachable s(1)] s(2,3,5) this s'] s(1,4) s'
  show ?thesis by auto
qed

text \<open>The actions that are not those of a reader.\<close>

fun writer_action :: "store_action \<Rightarrow> bool" where
  "writer_action (Acquire_load j) = False"
| "writer_action (Acquire_store j) = False"
| "writer_action (Acquire_check j) = False"
| "writer_action (Release j) = False"
| "writer_action a = True"

lemma reader_action_keeps:
  assumes "store_perform a s = Some s'" and "\<not> writer_action a" and "store s = Some st"
  obtains st' where "store s' = Some st'" "current st' = current st" "writer s' = writer s" "live s' = live s"
  using assms by (cases a) (auto simp: store_operation_defs split: if_splits reader_state.splits)

text \<open>
  A reload between its actions, the remaining ones being \<open>ws\<close>: \<open>old\<close> was current and \<open>l\<close> was live
  at the start.
\<close>

definition reload_phase ::
  "snapshot_ref \<Rightarrow> snapshot_ref \<Rightarrow> snapshot_ref set \<Rightarrow> store_action list \<Rightarrow> snapshot_ref \<Rightarrow> writer_state \<Rightarrow>
   snapshot_ref set \<Rightarrow> bool" where
  "reload_phase x old l ws cur w lv \<longleftrightarrow> (\<exists>n.
     ws = [Allocate x, Replace_check x, Replace_exchange] @ replicate n Replace_scan
       \<and> cur = old \<and> w = Writer_idle \<and> lv = l
     \<or> ws = [Replace_check x, Replace_exchange] @ replicate n Replace_scan
       \<and> cur = old \<and> w = Writer_idle \<and> lv = insert x l
     \<or> ws = Replace_exchange # replicate n Replace_scan
       \<and> cur = old \<and> w = Writer_checked x \<and> lv = insert x l
     \<or> ws = replicate n Replace_scan \<and> cur = x \<and> (\<exists>i. w = Writer_scans old i) \<and> lv = insert x l
     \<or> ws = replicate n Replace_scan \<and> cur = x \<and> w = Writer_idle \<and> lv = insert x l - {old})"

lemma reload_phase_action:
  assumes "reload_phase x old l (a # ws) (current st) (writer s) (live s)" and "store s = Some st" and "x \<noteq> old"
    and "store_perform a s = Some s'"
  obtains st' where "store s' = Some st'" "reload_phase x old l ws (current st') (writer s') (live s')"
proof -
  have cons: "a # ws = replicate n Replace_scan \<longleftrightarrow> a = Replace_scan \<and> (\<exists>m. n = Suc m \<and> ws = replicate m Replace_scan)"
    for n by (cases n) auto
  consider (allocate) n where "a = Allocate x" "ws = [Replace_check x, Replace_exchange] @ replicate n Replace_scan"
      "current st = old" "writer s = Writer_idle" "live s = l"
    | (check) n where "a = Replace_check x" "ws = Replace_exchange # replicate n Replace_scan"
      "current st = old" "writer s = Writer_idle" "live s = insert x l"
    | (exchange) n where "a = Replace_exchange" "ws = replicate n Replace_scan"
      "current st = old" "writer s = Writer_checked x" "live s = insert x l"
    | (scan) n i where "a = Replace_scan" "ws = replicate n Replace_scan"
      "current st = x" "writer s = Writer_scans old i" "live s = insert x l"
    | (idle) "a = Replace_scan" "writer s = Writer_idle"
    using assms(1) unfolding reload_phase_def cons by auto
  then show ?thesis
  proof cases
    case allocate
    then show ?thesis using assms that by (auto simp: reload_phase_def split: if_splits)
  next
    case check
    then show ?thesis using assms that by (auto simp: reload_phase_def replace_check_def)
  next
    case exchange
    then show ?thesis using assms that by (auto simp: reload_phase_def replace_exchange_def)
  next
    case scan
    then show ?thesis using assms that
      by (auto simp: reload_phase_def replace_scan_def jg_policy_snapshot_destroy_def split: if_splits)
  next
    case idle
    then show ?thesis using assms(2,4) by (simp add: replace_scan_def)
  qed
qed

lemma reload_phase_run:
  assumes "x \<noteq> old"
  shows "policy_store.run as s = Some s' \<Longrightarrow> store s = Some st \<Longrightarrow> filter writer_action as = ws \<Longrightarrow>
    reload_phase x old l ws (current st) (writer s) (live s) \<Longrightarrow>
    \<exists>st'. store s' = Some st' \<and> reload_phase x old l [] (current st') (writer s') (live s')"
proof (induction "as" arbitrary: s st ws)
  case (Cons a "as")
  then obtain t where t: "store_perform a s = Some t" "policy_store.run as t = Some s'"
    by (auto split: option.splits)
  show ?case
  proof (cases "writer_action a")
    case True
    then have "reload_phase x old l (a # filter writer_action as) (current st) (writer s) (live s)"
      using Cons.prems(3,4) by simp
    then show ?thesis
      using reload_phase_action [OF _ Cons.prems(2) assms t(1)] Cons.IH [OF t(2)] by metis
  next
    case False
    then show ?thesis
      using reader_action_keeps [OF t(1) False Cons.prems(2)] Cons.IH [OF t(2)] Cons.prems(3,4) by (metis filter.simps(2))
  qed
qed auto

lemma readers_run:
  "policy_store.run as s = Some s' \<Longrightarrow> store s = Some st \<Longrightarrow> filter writer_action as = [] \<Longrightarrow>
   \<exists>st'. store s' = Some st' \<and> current st' = current st \<and> live s' = live s"
proof (induction "as" arbitrary: s st)
  case (Cons a "as")
  then obtain t where t: "store_perform a s = Some t" "policy_store.run as t = Some s'"
    by (auto split: option.splits)
  have "\<not> writer_action a" "filter writer_action as = []" using Cons.prems(3) by (auto split: if_splits)
  then show ?case
    using reader_action_keeps [OF t(1) _ Cons.prems(2)] Cons.IH [OF t(2)] by metis
qed simp

text \<open>
  C12. A reload publishes the snapshot that the database built, in every interleaving with the
  readers. Take any run of the threads, from an idle writer to an idle writer, in which the actions
  that are not those of readers are the actions of one reload, with whatever number of steps the
  readers made its scan take. When the database returned a snapshot, freshly allocated, that snapshot
  is current at the end, the one that was current before is freed, and no other allocation has
  changed. A reload fails only for the generation zero or with the error of the database; then the
  current snapshot and the allocations are as before.
\<close>

theorem policy_store_reload_publishes:
  assumes "policy_store.reachable s" "store s = Some st" "writer s = Writer_idle"
    and "policy_store.run as s = Some s'" "writer s' = Writer_idle"
    and "case jg_policy_store_reload_from_database load gen scans of
        Inl e \<Rightarrow> filter writer_action as = [] | Inr ws \<Rightarrow> filter writer_action as = ws"
    and "\<And>x. load gen = Inr x \<Longrightarrow> x \<notin> live s"
  shows "\<exists>st'. store s' = Some st' \<and> (case jg_policy_store_reload_from_database load gen scans of
      Inl e \<Rightarrow> (gen = 0 \<and> e = EINVAL \<or> gen \<noteq> 0 \<and> load gen = Inl e) \<and> current st' = current st \<and> live s' = live s
    | Inr ws \<Rightarrow> gen \<noteq> 0 \<and> load gen = Inr (current st') \<and> current st' \<noteq> current st
        \<and> live s' = insert (current st') (live s) - {current st})"
proof (cases "jg_policy_store_reload_from_database load gen scans")
  case (Inl e)
  then have e: "gen = 0 \<and> e = EINVAL \<or> gen \<noteq> 0 \<and> load gen = Inl e"
    by (auto simp: jg_policy_store_reload_from_database_def split: if_splits sum.splits)
  have "filter writer_action as = []" using Inl assms(6) by simp
  from readers_run [OF assms(4,2) this] e Inl show ?thesis by auto
next
  case (Inr ws)
  then obtain x where x: "gen \<noteq> 0" "load gen = Inr x"
    "ws = [Allocate x, Replace_check x, Replace_exchange] @ replicate scans Replace_scan"
    by (auto simp: jg_policy_store_reload_from_database_def split: if_splits sum.splits)
  have "store_ok s" using policy_store.reachable_invariant assms(1) by blast
  then have ne: "x \<noteq> current st" using assms(2,7) x(2) by (auto simp: store_ok_some)
  have ws: "filter writer_action as = ws" using Inr assms(6) by simp
  have "reload_phase x (current st) (live s) ws (current st) (writer s) (live s)"
    unfolding reload_phase_def x(3) using assms(3) by blast
  from reload_phase_run [OF ne assms(4,2) ws this] obtain st' where st': "store s' = Some st'"
    "reload_phase x (current st) (live s) [] (current st') (writer s') (live s')" by blast
  then have "current st' = x" "live s' = insert x (live s) - {current st}"
    using assms(5) by (auto simp: reload_phase_def)
  then show ?thesis using st'(1) x ne Inr by auto
qed

text \<open>Reader 0 holds the old snapshot while the reload scans, releases it, and the scan ends.\<close>

definition example_reload :: "store_action list" where
  "example_reload = [Acquire_load 0, Acquire_store 0, Allocate 9, Acquire_check 0, Replace_check 9,
     Replace_exchange, Replace_scan, Acquire_load 1, Release 0, Replace_scan, Acquire_store 1, Replace_scan, Replace_scan]"

theorem policy_store_reload_publishes_witness:
  "\<exists>s st. policy_store.run example_reload example_store = Some s \<and> store s = Some st
    \<and> jg_policy_store_reload_from_database (\<lambda>_. Inr 9) 4 4 = Inr (filter writer_action example_reload)
    \<and> current st = 9 \<and> live s = {9}"
proof -
  obtain s st where s: "store example_store = Some st" "current st = 7" "live example_store = {7}"
      "writer example_store = Writer_idle"
      "policy_store.run example_reload example_store = Some s" "writer s = Writer_idle"
    by (simp add: example_store_simps example_reload_def)
  have r: "jg_policy_store_reload_from_database (\<lambda>_. Inr 9) 4 4 = Inr (filter writer_action example_reload)"
  proof -
    have "replicate 4 Replace_scan = [Replace_scan, Replace_scan, Replace_scan, Replace_scan]"
      by (simp add: numeral_eq_Suc)
    then show ?thesis by (simp add: jg_policy_store_reload_from_database_def example_reload_def)
  qed
  have "\<And>x. (\<lambda>_. Inr 9) (4 :: u64) = Inr x \<Longrightarrow> x \<notin> live example_store" by (auto simp: s(3))
  from policy_store_reload_publishes [OF example_store_reachable s(1,4,5,6), of "\<lambda>_. Inr 9" 4 4, OF _ this] r s(2,3,5)
  show ?thesis by auto
qed

end
