(* ===== verification/Codec.thy ===== *)
theory Codec
  imports Checked
begin

text \<open>
  The interface of the fixed binary codecs (control frames, network configurations and states,
  response policies). An encoder gets the output buffer and returns the encoded size and the buffer
  after it; a decoder gets exactly the encoded bytes. The laws name the canonical representation of a
  message: the encoder writes it, the decoder accepts nothing else. \<open>typed\<close> holds for the values of the C
  type, where the record of the model is wider (a fixed array as a list).
\<close>

section \<open>Fixed layouts\<close>

lemma drop_eq_append:
  "drop off xs = a @ b \<longleftrightarrow> slice off (length a) xs = a \<and> drop (off + length a) xs = b"
  by (metis append_eq_conv_conj append_take_drop_id drop_drop slice_def add.commute)

lemma drop_eq_last: "length xs = off + length a \<Longrightarrow> drop off xs = a \<longleftrightarrow> slice off (length a) xs = a"
  by (simp add: slice_def)

lemma eq_append_iff: "xs = a @ b \<longleftrightarrow> slice 0 (length a) xs = a \<and> drop (length a) xs = b"
  using drop_eq_append[of 0 xs a b] by simp

lemma drop_blit [simp]: "off + length src \<le> n \<Longrightarrow> off + length src \<le> length dst \<Longrightarrow> drop n (blit dst off src) = drop n dst"
  by (simp add: blit_def)

lemma slice_blit_prefix:
  assumes "length src \<le> n" "off + n \<le> length dst"
  shows "slice off n (blit dst off src) = src @ slice (off + length src) (n - length src) dst"
  using assms by (simp add: slice_def blit_def take_drop)

lemma slice_blit_inside:
  assumes "off \<le> o2" "o2 + n \<le> off + length src" "off + length src \<le> length dst"
  shows "slice o2 n (blit dst off src) = slice (o2 - off) n src"
  using assms by (intro nth_equalityI) (auto simp: nth_blit)

lemma slice_all: "length xs \<le> n \<Longrightarrow> slice 0 n xs = xs"
  by simp

lemma slice_replicate [simp]: "off + n \<le> m \<Longrightarrow> slice off n (replicate m x) = replicate n x"
  by (simp add: slice_def)

lemma blit_then [buffer_simps]:
  "o2 = off + length a \<Longrightarrow> off + length a + length b \<le> length d \<Longrightarrow> blit (blit d off a) o2 b = blit d off (a @ b)"
  by (simp add: blit_blit_adjacent)

lemma blit_start: "blit d 0 a = a @ drop (length a) d"
  by (simp add: blit_def)

lemma find_Some_holds: "List.find P xs = Some x \<Longrightarrow> P x"
  by (auto simp: find_Some_iff)

lemma u16_be_zero: "u16_be 0 = replicate 2 0"
  by (simp add: u16_be_def numeral_2_eq_2)

text \<open>A flag word whose undefined bits are clear.\<close>

lemma low_three_bits: "(x :: u16) AND NOT 7 = 0 \<Longrightarrow> x \<in> {0, 1, 2, 3, 4, 5, 6, 7}"
proof -
  assume "x AND NOT 7 = 0"
  then have "unat x < 2 ^ 3" by (subst (asm) and_high_mask_eq_0[where n = 3]) (simp_all add: mask_eq_exp_minus_1)
  then have "unat x \<in> {0, 1, 2, 3, 4, 5, 6, 7}" by auto
  then have "of_nat (unat x) \<in> (of_nat ` {0, 1, 2, 3, 4, 5, 6, 7} :: u16 set)" by blast
  then show ?thesis by simp
qed

section \<open>The contract of a codec\<close>

locale wire_codec =
  fixes typed valid :: "'m \<Rightarrow> bool" and wire :: "'m \<Rightarrow> bytes"
    and encode :: "'m \<Rightarrow> bytes \<Rightarrow> (errno, nat \<times> bytes) run"
    and decode :: "bytes \<Rightarrow> (errno, 'm) run"
  assumes encode_iff: "typed m \<Longrightarrow> encode m out = Done (n, out') \<longleftrightarrow>
      valid m \<and> length (wire m) \<le> length out \<and> n = length (wire m) \<and> out' = wire m @ drop n out"
    and decode_iff: "decode data = Done m \<longleftrightarrow> typed m \<and> valid m \<and> data = wire m"
    and encode_no_fault: "typed m \<Longrightarrow> encode m out \<noteq> Fault"
    and decode_no_fault: "decode data \<noteq> Fault"
begin

lemma decode_encode: "typed m \<Longrightarrow> encode m out = Done (n, out') \<Longrightarrow> decode (take n out') = Done m"
  by (auto simp: encode_iff decode_iff)

lemma decode_inj: "decode d1 = Done m \<Longrightarrow> decode d2 = Done m \<Longrightarrow> d1 = d2"
  by (simp add: decode_iff)

text \<open>
  What the properties of the codecs state: encoder and decoder determine each other. The decoder
  accepts exactly what the encoder writes for the message it returns, the encoder writes exactly the
  bytes that decode to the message and nothing behind them, and neither leaves its buffers.
\<close>

lemma contract:
  assumes "typed m"
  shows "(decode data = Done m \<longleftrightarrow> encode m (replicate (length data) 0) = Done (length data, data))
   \<and> (encode m out = Done (n, out') \<longleftrightarrow>
        (\<exists>d. decode d = Done m \<and> n = length d \<and> n \<le> length out \<and> out' = d @ drop n out))
   \<and> decode data \<noteq> Fault \<and> encode m out \<noteq> Fault"
  using assms encode_no_fault decode_no_fault by (auto simp: encode_iff decode_iff)

end

end
