(* ===== verification/DnsPolicy.thy ===== *)
theory DnsPolicy
  imports Codec
begin

text \<open>
  \<^verbatim>\<open>src/common/dns_policy.c\<close>: the configuration of the answers to blocked queries and its persistent
  representation. The two address fields are the fixed C arrays of four and sixteen bytes, which the
  record holds as byte lists of that length.
\<close>

section \<open>Configuration\<close>

datatype jg_dns_block_action =
  JG_DNS_BLOCK_DROP | JG_DNS_BLOCK_REFUSED | JG_DNS_BLOCK_NXDOMAIN | JG_DNS_BLOCK_SINKHOLE | JG_DNS_BLOCK_OTHER

record jg_dns_response_config =
  action :: jg_dns_block_action
  has_ipv4_sinkhole :: bool
  has_ipv6_sinkhole :: bool
  checksum_ipv4_udp :: bool
  ipv4_sinkhole :: bytes
  ipv6_sinkhole :: bytes
  sinkhole_ttl :: u32

definition JG_DNS_RESPONSE_CONFIG_WIRE_SIZE :: nat where "JG_DNS_RESPONSE_CONFIG_WIRE_SIZE = 32"
definition RESPONSE_CONFIG_VERSION :: u16 where "RESPONSE_CONFIG_VERSION = 1"
definition RESPONSE_CONFIG_IPV4 :: u16 where "RESPONSE_CONFIG_IPV4 = 1"
definition RESPONSE_CONFIG_IPV6 :: u16 where "RESPONSE_CONFIG_IPV6 = 2"
definition RESPONSE_CONFIG_IPV4_CHECKSUM :: u16 where "RESPONSE_CONFIG_IPV4_CHECKSUM = 4"
definition RESPONSE_CONFIG_FLAG_ALL :: u16 where
  "RESPONSE_CONFIG_FLAG_ALL = RESPONSE_CONFIG_IPV4 OR RESPONSE_CONFIG_IPV6 OR RESPONSE_CONFIG_IPV4_CHECKSUM"

fun action_code :: "jg_dns_block_action \<Rightarrow> u16" where
  "action_code JG_DNS_BLOCK_DROP = 1"
| "action_code JG_DNS_BLOCK_REFUSED = 2"
| "action_code JG_DNS_BLOCK_NXDOMAIN = 3"
| "action_code JG_DNS_BLOCK_SINKHOLE = 4"
| "action_code JG_DNS_BLOCK_OTHER = 0xFFFF"

definition action_of :: "u16 \<Rightarrow> jg_dns_block_action" where
  "action_of v = (if v = 1 then JG_DNS_BLOCK_DROP else if v = 2 then JG_DNS_BLOCK_REFUSED
     else if v = 3 then JG_DNS_BLOCK_NXDOMAIN else if v = 4 then JG_DNS_BLOCK_SINKHOLE else JG_DNS_BLOCK_OTHER)"

section \<open>Operations\<close>

fun bytes_empty :: "bytes \<Rightarrow> bool" where
  "bytes_empty [] = True"
| "bytes_empty (b # bs) = (if b \<noteq> 0 then False else bytes_empty bs)"

definition jg_dns_response_config_default :: jg_dns_response_config where
  "jg_dns_response_config_default =
     \<lparr>action = JG_DNS_BLOCK_REFUSED, has_ipv4_sinkhole = False, has_ipv6_sinkhole = False, checksum_ipv4_udp = True,
      ipv4_sinkhole = replicate 4 0, ipv6_sinkhole = replicate 16 0, sinkhole_ttl = 60\<rparr>"

definition jg_dns_response_config_validate :: "jg_dns_response_config \<Rightarrow> unit result" where
  "jg_dns_response_config_validate c =
     (if (action c \<noteq> JG_DNS_BLOCK_DROP \<and> action c \<noteq> JG_DNS_BLOCK_REFUSED
          \<and> action c \<noteq> JG_DNS_BLOCK_NXDOMAIN \<and> action c \<noteq> JG_DNS_BLOCK_SINKHOLE)
         \<or> (\<not> has_ipv4_sinkhole c \<and> \<not> bytes_empty (ipv4_sinkhole c))
         \<or> (\<not> has_ipv6_sinkhole c \<and> \<not> bytes_empty (ipv6_sinkhole c))
         \<or> (action c = JG_DNS_BLOCK_SINKHOLE
             \<and> ((\<not> has_ipv4_sinkhole c \<and> \<not> has_ipv6_sinkhole c) \<or> sinkhole_ttl c = 0))
      then Inl EINVAL else Inr ())"

definition response_flags :: "jg_dns_response_config \<Rightarrow> u16" where
  "response_flags c = (if has_ipv4_sinkhole c then RESPONSE_CONFIG_IPV4 else 0)
     OR (if has_ipv6_sinkhole c then RESPONSE_CONFIG_IPV6 else 0)
     OR (if checksum_ipv4_udp c then RESPONSE_CONFIG_IPV4_CHECKSUM else 0)"

definition jg_dns_response_config_encode :: "jg_dns_response_config \<Rightarrow> bytes \<Rightarrow> (errno, nat \<times> bytes) run" where
  "jg_dns_response_config_encode c out0 = and_then (or_error EINVAL (jg_dns_response_config_validate c)) (\<lambda>_.
     if length out0 < JG_DNS_RESPONSE_CONFIG_WIRE_SIZE then Fail ENOSPC
     else and_then (raw (store_at out0 0 (replicate JG_DNS_RESPONSE_CONFIG_WIRE_SIZE 0))) (\<lambda>out1.
       let out2 = snd (jg_write_u16_be out1 0 RESPONSE_CONFIG_VERSION);
           out3 = snd (jg_write_u16_be out2 2 (action_code (action c)));
           out4 = snd (jg_write_u16_be out3 4 (response_flags c));
           out5 = snd (jg_write_u32_be out4 8 (sinkhole_ttl c))
       in and_then (raw (store_at out5 12 (ipv4_sinkhole c))) (\<lambda>out6.
          and_then (raw (store_at out6 16 (ipv6_sinkhole c))) (\<lambda>out7.
            Done (JG_DNS_RESPONSE_CONFIG_WIRE_SIZE, out7)))))"

definition jg_dns_response_config_decode :: "bytes \<Rightarrow> (errno, jg_dns_response_config) run" where
  "jg_dns_response_config_decode data =
     (if length data \<noteq> JG_DNS_RESPONSE_CONFIG_WIRE_SIZE then Fail EMSGSIZE
      else and_then (or_fail EPROTO (jg_read_u16_be data 0)) (\<lambda>version.
      and_then (or_fail EPROTO (jg_read_u16_be data 2)) (\<lambda>act.
      and_then (or_fail EPROTO (jg_read_u16_be data 4)) (\<lambda>flags.
      and_then (or_fail EPROTO (jg_read_u16_be data 6)) (\<lambda>reserved.
      and_then (or_fail EPROTO (jg_read_u32_be data 8)) (\<lambda>ttl.
      if version \<noteq> RESPONSE_CONFIG_VERSION then Fail EPROTONOSUPPORT
      else if flags AND NOT RESPONSE_CONFIG_FLAG_ALL \<noteq> 0 \<or> reserved \<noteq> 0 then Fail EPROTO
      else and_then (raw (bytes_at data 12 4)) (\<lambda>four.
           and_then (raw (bytes_at data 16 16)) (\<lambda>six.
             let decoded = \<lparr>action = action_of act, has_ipv4_sinkhole = (flags AND RESPONSE_CONFIG_IPV4 \<noteq> 0),
                            has_ipv6_sinkhole = (flags AND RESPONSE_CONFIG_IPV6 \<noteq> 0),
                            checksum_ipv4_udp = (flags AND RESPONSE_CONFIG_IPV4_CHECKSUM \<noteq> 0),
                            ipv4_sinkhole = four, ipv6_sinkhole = six, sinkhole_ttl = ttl\<rparr>
             in and_then (or_error EINVAL (jg_dns_response_config_validate decoded)) (\<lambda>_. Done decoded)))))))))"

section \<open>The wire format\<close>

definition response_config_wire :: "jg_dns_response_config \<Rightarrow> bytes" where
  "response_config_wire c = u16_be RESPONSE_CONFIG_VERSION @ u16_be (action_code (action c)) @ u16_be (response_flags c)
     @ u16_be 0 @ u32_be (sinkhole_ttl c) @ ipv4_sinkhole c @ ipv6_sinkhole c"

definition response_config_typed :: "jg_dns_response_config \<Rightarrow> bool" where
  "response_config_typed c \<longleftrightarrow> length (ipv4_sinkhole c) = 4 \<and> length (ipv6_sinkhole c) = 16"

definition response_config_valid :: "jg_dns_response_config \<Rightarrow> bool" where
  "response_config_valid c \<longleftrightarrow> jg_dns_response_config_validate c = Inr ()"

lemmas response_flag_defs = RESPONSE_CONFIG_FLAG_ALL_def RESPONSE_CONFIG_IPV4_def RESPONSE_CONFIG_IPV6_def
  RESPONSE_CONFIG_IPV4_CHECKSUM_def

lemma action_of_code [simp]: "a \<noteq> JG_DNS_BLOCK_OTHER \<Longrightarrow> action_of (action_code a) = a"
  by (cases a) (simp_all add: action_of_def)

lemma action_code_of: "action_of v \<noteq> JG_DNS_BLOCK_OTHER \<Longrightarrow> action_code (action_of v) = v"
  by (auto simp: action_of_def split: if_splits)

lemma response_valid_action: "jg_dns_response_config_validate c = Inr u \<Longrightarrow> action c \<noteq> JG_DNS_BLOCK_OTHER"
  by (auto simp: jg_dns_response_config_validate_def split: if_splits)

lemma response_flags_bits:
  "response_flags c AND NOT RESPONSE_CONFIG_FLAG_ALL = 0"
  "response_flags c AND RESPONSE_CONFIG_IPV4 \<noteq> 0 \<longleftrightarrow> has_ipv4_sinkhole c"
  "response_flags c AND RESPONSE_CONFIG_IPV6 \<noteq> 0 \<longleftrightarrow> has_ipv6_sinkhole c"
  "response_flags c AND RESPONSE_CONFIG_IPV4_CHECKSUM \<noteq> 0 \<longleftrightarrow> checksum_ipv4_udp c"
  by (simp_all add: response_flags_def response_flag_defs)

lemma response_flags_of_bits:
  assumes "(flags :: u16) AND NOT RESPONSE_CONFIG_FLAG_ALL = 0"
    and "has_ipv4_sinkhole c = (flags AND RESPONSE_CONFIG_IPV4 \<noteq> 0)" "has_ipv6_sinkhole c = (flags AND RESPONSE_CONFIG_IPV6 \<noteq> 0)"
      "checksum_ipv4_udp c = (flags AND RESPONSE_CONFIG_IPV4_CHECKSUM \<noteq> 0)"
  shows "response_flags c = flags"
proof -
  have "flags \<in> {0, 1, 2, 3, 4, 5, 6, 7}" using assms(1) by (intro low_three_bits) (simp add: response_flag_defs)
  then show ?thesis using assms(2-4) by (auto simp: response_flags_def response_flag_defs)
qed

lemma length_response_config_wire: "response_config_typed c \<Longrightarrow> length (response_config_wire c) = 32"
  by (simp add: response_config_wire_def response_config_typed_def)

lemma response_encode_writes:
  assumes "response_config_typed c" "response_config_valid c" "32 \<le> length out0"
  shows "jg_dns_response_config_encode c out0 = Done (32, response_config_wire c @ drop 32 out0)"
proof -
  obtain out' where enc: "jg_dns_response_config_encode c out0 = Done (32, out')"
    and out': "out' = blit (blit (blit (blit (blit (blit (blit out0 0 (replicate 32 0)) 0 (u16_be RESPONSE_CONFIG_VERSION))
      2 (u16_be (action_code (action c)))) 4 (u16_be (response_flags c))) 8 (u32_be (sinkhole_ttl c)))
      12 (ipv4_sinkhole c)) 16 (ipv6_sinkhole c)"
    using assms unfolding jg_dns_response_config_encode_def Let_def
    by (simp add: write_blit JG_DNS_RESPONSE_CONFIG_WIRE_SIZE_def response_config_valid_def response_config_typed_def)
  have "out' = response_config_wire c @ drop 32 out0"
    using assms unfolding out' response_config_wire_def append_assoc
    by (subst eq_append_iff)
      (simp add: drop_eq_append response_config_typed_def slice_blit_other slice_blit_inside u16_be_zero flip: slice_0)
  then show ?thesis using enc by simp
qed

lemma response_encode_iff:
  assumes "response_config_typed c"
  shows "jg_dns_response_config_encode c out0 = Done (n, out') \<longleftrightarrow> response_config_valid c
     \<and> length (response_config_wire c) \<le> length out0 \<and> n = length (response_config_wire c)
     \<and> out' = response_config_wire c @ drop n out0"
proof (cases "response_config_valid c \<and> 32 \<le> length out0")
  case False
  then have "jg_dns_response_config_encode c out0 \<noteq> Done r" for r
    by (auto simp: jg_dns_response_config_encode_def response_config_valid_def JG_DNS_RESPONSE_CONFIG_WIRE_SIZE_def)
  then show ?thesis using False assms by (auto simp: length_response_config_wire)
qed (auto simp: assms response_encode_writes length_response_config_wire)

lemma response_decode_wire:
  assumes c: "response_config_typed c" "response_config_valid c"
  shows "jg_dns_response_config_decode (response_config_wire c) = Done c"
proof -
  let ?d = "response_config_wire c"
  have fields: "take 2 ?d = u16_be RESPONSE_CONFIG_VERSION" "slice 2 2 ?d = u16_be (action_code (action c))"
      "slice 4 2 ?d = u16_be (response_flags c)" "slice 6 2 ?d = u16_be 0" "slice 8 4 ?d = u32_be (sinkhole_ttl c)"
      "slice 12 4 ?d = ipv4_sinkhole c" "slice 16 16 ?d = ipv6_sinkhole c"
    using c by (simp_all add: response_config_wire_def slice_def response_config_typed_def)
  have reads: "jg_read_u16_be ?d 0 = Some RESPONSE_CONFIG_VERSION" "jg_read_u16_be ?d 2 = Some (action_code (action c))"
      "jg_read_u16_be ?d 4 = Some (response_flags c)" "jg_read_u16_be ?d 6 = Some 0"
      "jg_read_u32_be ?d 8 = Some (sinkhole_ttl c)"
    by (simp_all add: read_slice fields length_response_config_wire c)
  have whole: "\<lparr>action = action c, has_ipv4_sinkhole = has_ipv4_sinkhole c, has_ipv6_sinkhole = has_ipv6_sinkhole c,
      checksum_ipv4_udp = checksum_ipv4_udp c, ipv4_sinkhole = ipv4_sinkhole c, ipv6_sinkhole = ipv6_sinkhole c,
      sinkhole_ttl = sinkhole_ttl c\<rparr> = c" by simp
  have "action c \<noteq> JG_DNS_BLOCK_OTHER" using c response_valid_action by (auto simp: response_config_valid_def)
  then show ?thesis
    using c(2) unfolding jg_dns_response_config_decode_def Let_def
    by (simp add: reads fields length_response_config_wire c(1) JG_DNS_RESPONSE_CONFIG_WIRE_SIZE_def
        response_flags_bits response_config_valid_def whole)
qed

lemma response_decode_accepts:
  assumes d: "jg_dns_response_config_decode data = Done c"
  shows "response_config_typed c \<and> response_config_valid c \<and> data = response_config_wire c"
proof -
  obtain act flags where size: "length data = 32"
    and reads: "take 2 data = u16_be RESPONSE_CONFIG_VERSION" "slice 2 2 data = u16_be act" "slice 4 2 data = u16_be flags"
      "slice 6 2 data = u16_be 0" "slice 8 4 data = u32_be (sinkhole_ttl c)"
    and flags: "flags AND NOT RESPONSE_CONFIG_FLAG_ALL = 0"
    and c: "c = \<lparr>action = action_of act, has_ipv4_sinkhole = (flags AND RESPONSE_CONFIG_IPV4 \<noteq> 0),
              has_ipv6_sinkhole = (flags AND RESPONSE_CONFIG_IPV6 \<noteq> 0),
              checksum_ipv4_udp = (flags AND RESPONSE_CONFIG_IPV4_CHECKSUM \<noteq> 0),
              ipv4_sinkhole = slice 12 4 data, ipv6_sinkhole = slice 16 16 data, sinkhole_ttl = sinkhole_ttl c\<rparr>"
    and valid: "response_config_valid c"
    using d unfolding jg_dns_response_config_decode_def Let_def
    by (auto simp: JG_DNS_RESPONSE_CONFIG_WIRE_SIZE_def read_slice response_config_valid_def split: if_splits)
  have fields: "action c = action_of act" "ipv4_sinkhole c = slice 12 4 data" "ipv6_sinkhole c = slice 16 16 data"
    "has_ipv4_sinkhole c = (flags AND RESPONSE_CONFIG_IPV4 \<noteq> 0)" "has_ipv6_sinkhole c = (flags AND RESPONSE_CONFIG_IPV6 \<noteq> 0)"
    "checksum_ipv4_udp c = (flags AND RESPONSE_CONFIG_IPV4_CHECKSUM \<noteq> 0)"
    by (subst c; simp)+
  have codes: "action_code (action c) = act" "response_flags c = flags"
    using valid response_valid_action[of c] action_code_of response_flags_of_bits[OF flags fields(4-6)]
    by (auto simp: response_config_valid_def fields)
  have "data = response_config_wire c"
    unfolding response_config_wire_def codes fields(2,3) using reads size
    by (subst eq_append_iff) (simp add: drop_eq_append slice_def)
  then show ?thesis using valid size by (simp add: response_config_typed_def fields)
qed

interpretation response_config: wire_codec response_config_typed response_config_valid response_config_wire
    jg_dns_response_config_encode jg_dns_response_config_decode
proof
  show "jg_dns_response_config_encode c out0 = Done (n, out') \<longleftrightarrow> response_config_valid c
     \<and> length (response_config_wire c) \<le> length out0 \<and> n = length (response_config_wire c)
     \<and> out' = response_config_wire c @ drop n out0" if "response_config_typed c" for c out0 n out'
    using that by (rule response_encode_iff)
  show "jg_dns_response_config_decode data = Done c \<longleftrightarrow>
      response_config_typed c \<and> response_config_valid c \<and> data = response_config_wire c" for data c
    using response_decode_wire response_decode_accepts by blast
  show "jg_dns_response_config_encode c out0 \<noteq> Fault" if "response_config_typed c" for c out0
    using that by (auto simp: jg_dns_response_config_encode_def Let_def JG_DNS_RESPONSE_CONFIG_WIRE_SIZE_def
        write_blit store_at_def response_config_typed_def split: if_splits)
  show "jg_dns_response_config_decode data \<noteq> Fault" for data
    by (auto simp: jg_dns_response_config_decode_def Let_def JG_DNS_RESPONSE_CONFIG_WIRE_SIZE_def split: if_splits)
qed

text \<open>
  C33. The persistent response policy round trips: a body decodes to a configuration exactly when
  encoding the configuration gives back this body, encoding writes exactly that body, and no access
  leaves the buffers. The hypothesis is the size of the two C arrays.
\<close>

theorem jg_dns_response_config_contract:
  assumes "length (ipv4_sinkhole c) = 4" "length (ipv6_sinkhole c) = 16"
  shows "(jg_dns_response_config_decode data = Done c \<longleftrightarrow>
       jg_dns_response_config_encode c (replicate (length data) 0) = Done (length data, data))
   \<and> (jg_dns_response_config_encode c out = Done (n, out') \<longleftrightarrow>
        (\<exists>d. jg_dns_response_config_decode d = Done c \<and> n = length d \<and> n \<le> length out \<and> out' = d @ drop n out))
   \<and> jg_dns_response_config_decode data \<noteq> Fault \<and> jg_dns_response_config_encode c out \<noteq> Fault"
  by (rule response_config.contract) (use assms in \<open>simp add: response_config_typed_def\<close>)

theorem jg_dns_response_config_contract_witness:
  "jg_dns_response_config_decode ([0, 1, 0, 2, 0, 4, 0, 0, 0, 0, 0, 60] @ replicate 20 0)
    = Done jg_dns_response_config_default"
proof -
  let ?d = "[0, 1, 0, 2, 0, 4, 0, 0, 0, 0, 0, 60] @ replicate 20 0 :: bytes"
  have "jg_dns_response_config_encode jg_dns_response_config_default (replicate (length ?d) 0) = Done (length ?d, ?d)"
    by code_simp
  then show ?thesis
    using jg_dns_response_config_contract[of jg_dns_response_config_default ?d]
    by (simp add: jg_dns_response_config_default_def)
qed

end
