(* ===== verification/Ipc.thy ===== *)
theory Ipc
  imports Codec
begin

text \<open>
  \<^verbatim>\<open>src/common/ipc.c\<close>: the frames of the local control protocol between the daemon, the network helper
  and the management tools. A body is the byte list of its pointer and size. Values outside an
  enumeration are the constructor \<open>_OTHER\<close> with the code \<open>0xFFFF\<close>, which the range checks refuse.
\<close>

section \<open>Messages\<close>

definition JG_IPC_VERSION :: u16 where "JG_IPC_VERSION = 1"
definition JG_IPC_HEADER_SIZE :: nat where "JG_IPC_HEADER_SIZE = 28"
definition JG_IPC_MAX_BODY_SIZE :: nat where "JG_IPC_MAX_BODY_SIZE = 65536"

datatype jg_ipc_kind = JG_IPC_REQUEST | JG_IPC_RESPONSE | JG_IPC_KIND_OTHER

datatype jg_ipc_operation =
    JG_IPC_PING | JG_IPC_NETWORK_VALIDATE | JG_IPC_NETWORK_APPLY | JG_IPC_NETWORK_CONFIRM
  | JG_IPC_NETWORK_ROLLBACK | JG_IPC_NETWORK_STATE | JG_IPC_NETWORK_REMOVE | JG_IPC_POLICY_RELOAD
  | JG_IPC_DAEMON_STATUS | JG_IPC_MANAGEMENT_REQUEST | JG_IPC_SYSTEM_REBOOT | JG_IPC_SYSTEM_POWEROFF
  | JG_IPC_LOCAL_MANAGEMENT_REQUEST | JG_IPC_OPERATION_OTHER

datatype jg_ipc_error =
    JG_IPC_ERROR_NONE | JG_IPC_ERROR_MALFORMED | JG_IPC_ERROR_VERSION | JG_IPC_ERROR_UNAUTHORIZED
  | JG_IPC_ERROR_UNSUPPORTED | JG_IPC_ERROR_INVALID | JG_IPC_ERROR_CONFLICT | JG_IPC_ERROR_TIMEOUT
  | JG_IPC_ERROR_SYSTEM | JG_IPC_ERROR_OTHER

record jg_ipc_message =
  ipc_kind :: jg_ipc_kind
  ipc_operation :: jg_ipc_operation
  ipc_request_id :: u64
  ipc_error :: jg_ipc_error
  ipc_body :: bytes

fun kind_code :: "jg_ipc_kind \<Rightarrow> u16" where
  "kind_code JG_IPC_REQUEST = 1"
| "kind_code JG_IPC_RESPONSE = 2"
| "kind_code JG_IPC_KIND_OTHER = 0xFFFF"

fun operation_code :: "jg_ipc_operation \<Rightarrow> u16" where
  "operation_code JG_IPC_PING = 1"
| "operation_code JG_IPC_NETWORK_VALIDATE = 2"
| "operation_code JG_IPC_NETWORK_APPLY = 3"
| "operation_code JG_IPC_NETWORK_CONFIRM = 4"
| "operation_code JG_IPC_NETWORK_ROLLBACK = 5"
| "operation_code JG_IPC_NETWORK_STATE = 6"
| "operation_code JG_IPC_NETWORK_REMOVE = 7"
| "operation_code JG_IPC_POLICY_RELOAD = 8"
| "operation_code JG_IPC_DAEMON_STATUS = 9"
| "operation_code JG_IPC_MANAGEMENT_REQUEST = 10"
| "operation_code JG_IPC_SYSTEM_REBOOT = 11"
| "operation_code JG_IPC_SYSTEM_POWEROFF = 12"
| "operation_code JG_IPC_LOCAL_MANAGEMENT_REQUEST = 13"
| "operation_code JG_IPC_OPERATION_OTHER = 0xFFFF"

fun error_code :: "jg_ipc_error \<Rightarrow> u16" where
  "error_code JG_IPC_ERROR_NONE = 0"
| "error_code JG_IPC_ERROR_MALFORMED = 1"
| "error_code JG_IPC_ERROR_VERSION = 2"
| "error_code JG_IPC_ERROR_UNAUTHORIZED = 3"
| "error_code JG_IPC_ERROR_UNSUPPORTED = 4"
| "error_code JG_IPC_ERROR_INVALID = 5"
| "error_code JG_IPC_ERROR_CONFLICT = 6"
| "error_code JG_IPC_ERROR_TIMEOUT = 7"
| "error_code JG_IPC_ERROR_SYSTEM = 8"
| "error_code JG_IPC_ERROR_OTHER = 0xFFFF"

text \<open>The casts from the wire values to the enumerations.\<close>

definition ipc_operations :: "jg_ipc_operation list" where
  "ipc_operations = [JG_IPC_PING, JG_IPC_NETWORK_VALIDATE, JG_IPC_NETWORK_APPLY, JG_IPC_NETWORK_CONFIRM,
     JG_IPC_NETWORK_ROLLBACK, JG_IPC_NETWORK_STATE, JG_IPC_NETWORK_REMOVE, JG_IPC_POLICY_RELOAD,
     JG_IPC_DAEMON_STATUS, JG_IPC_MANAGEMENT_REQUEST, JG_IPC_SYSTEM_REBOOT, JG_IPC_SYSTEM_POWEROFF,
     JG_IPC_LOCAL_MANAGEMENT_REQUEST]"

definition ipc_errors :: "jg_ipc_error list" where
  "ipc_errors = [JG_IPC_ERROR_NONE, JG_IPC_ERROR_MALFORMED, JG_IPC_ERROR_VERSION, JG_IPC_ERROR_UNAUTHORIZED,
     JG_IPC_ERROR_UNSUPPORTED, JG_IPC_ERROR_INVALID, JG_IPC_ERROR_CONFLICT, JG_IPC_ERROR_TIMEOUT, JG_IPC_ERROR_SYSTEM]"

definition kind_of :: "u16 \<Rightarrow> jg_ipc_kind" where
  "kind_of v = (if v = 1 then JG_IPC_REQUEST else if v = 2 then JG_IPC_RESPONSE else JG_IPC_KIND_OTHER)"

definition operation_of :: "u16 \<Rightarrow> jg_ipc_operation" where
  "operation_of v = (case List.find (\<lambda>x. operation_code x = v) ipc_operations of
     None \<Rightarrow> JG_IPC_OPERATION_OTHER | Some x \<Rightarrow> x)"

definition error_of :: "u16 \<Rightarrow> jg_ipc_error" where
  "error_of v = (case List.find (\<lambda>x. error_code x = v) ipc_errors of None \<Rightarrow> JG_IPC_ERROR_OTHER | Some x \<Rightarrow> x)"

section \<open>Operations\<close>

definition ipc_magic :: bytes where
  "ipc_magic = [0x4A, 0x47, 0x49, 0x50]"

definition kind_valid :: "jg_ipc_kind \<Rightarrow> bool" where
  "kind_valid k = (k = JG_IPC_REQUEST \<or> k = JG_IPC_RESPONSE)"

definition operation_valid :: "jg_ipc_operation \<Rightarrow> bool" where
  "operation_valid x = (operation_code x \<ge> operation_code JG_IPC_PING
     \<and> operation_code x \<le> operation_code JG_IPC_LOCAL_MANAGEMENT_REQUEST)"

definition error_valid :: "jg_ipc_error \<Rightarrow> bool" where
  "error_valid x = (error_code x \<ge> error_code JG_IPC_ERROR_NONE \<and> error_code x \<le> error_code JG_IPC_ERROR_SYSTEM)"

definition validate_message :: "jg_ipc_message \<Rightarrow> unit result" where
  "validate_message m =
     (if \<not> kind_valid (ipc_kind m) \<or> \<not> operation_valid (ipc_operation m) \<or> ipc_request_id m = 0
         \<or> \<not> error_valid (ipc_error m) \<or> (ipc_kind m = JG_IPC_REQUEST \<and> ipc_error m \<noteq> JG_IPC_ERROR_NONE)
      then Inl EINVAL
      else if length (ipc_body m) > JG_IPC_MAX_BODY_SIZE then Inl EMSGSIZE else Inr ())"

definition jg_ipc_encode :: "jg_ipc_message \<Rightarrow> bytes \<Rightarrow> (errno, nat \<times> bytes) run" where
  "jg_ipc_encode m out0 = and_then (lift_result (validate_message m)) (\<lambda>_.
     and_then (or_fail EMSGSIZE (jg_size_add JG_IPC_HEADER_SIZE (length (ipc_body m)))) (\<lambda>message_size.
     if length out0 < message_size then Fail ENOSPC
     else and_then (raw (store_at out0 0 ipc_magic)) (\<lambda>out1.
       let out2 = snd (jg_write_u16_be out1 4 JG_IPC_VERSION);
           out3 = snd (jg_write_u16_be out2 6 (kind_code (ipc_kind m)));
           out4 = snd (jg_write_u16_be out3 8 (operation_code (ipc_operation m)));
           out5 = snd (jg_write_u16_be out4 10 (error_code (ipc_error m)));
           out6 = snd (jg_write_u32_be out5 12 (of_nat (length (ipc_body m))));
           out7 = snd (jg_write_u64_be out6 16 (ipc_request_id m));
           out8 = snd (jg_write_u32_be out7 24 0)
       in if length (ipc_body m) \<noteq> 0
          then and_then (raw (store_at out8 JG_IPC_HEADER_SIZE (ipc_body m))) (\<lambda>out9. Done (message_size, out9))
          else Done (message_size, out8))))"

definition jg_ipc_decode :: "bytes \<Rightarrow> (errno, jg_ipc_message) run" where
  "jg_ipc_decode data =
     (if length data < JG_IPC_HEADER_SIZE then Fail EMSGSIZE
      else and_then (raw (bytes_at data 0 4)) (\<lambda>magic. and_then (require (magic = ipc_magic) EPROTO) (\<lambda>_.
      and_then (or_fail EPROTO (jg_read_u16_be data 4)) (\<lambda>version.
      and_then (or_fail EPROTO (jg_read_u16_be data 6)) (\<lambda>k.
      and_then (or_fail EPROTO (jg_read_u16_be data 8)) (\<lambda>oper.
      and_then (or_fail EPROTO (jg_read_u16_be data 10)) (\<lambda>err.
      and_then (or_fail EPROTO (jg_read_u32_be data 12)) (\<lambda>body_size.
      and_then (or_fail EPROTO (jg_read_u64_be data 16)) (\<lambda>request_id.
      and_then (or_fail EPROTO (jg_read_u32_be data 24)) (\<lambda>reserved.
      and_then (require (version = JG_IPC_VERSION) EPROTONOSUPPORT) (\<lambda>_.
      and_then (require (unat body_size \<le> JG_IPC_MAX_BODY_SIZE) EMSGSIZE) (\<lambda>_.
      and_then (or_fail EMSGSIZE (jg_size_add JG_IPC_HEADER_SIZE (unat body_size))) (\<lambda>expected_size.
      and_then (require (expected_size = length data) EMSGSIZE) (\<lambda>_.
      and_then (raw (bytes_at data JG_IPC_HEADER_SIZE (unat body_size))) (\<lambda>body.
        let decoded = \<lparr>ipc_kind = kind_of k, ipc_operation = operation_of oper, ipc_request_id = request_id,
                       ipc_error = error_of err, ipc_body = body\<rparr>
        in if reserved \<noteq> 0 then Fail EPROTO
           else and_then (or_error EPROTO (validate_message decoded)) (\<lambda>_. Done decoded))))))))))))))))"

section \<open>The wire format\<close>

text \<open>The canonical frame of a message.\<close>

definition ipc_wire :: "jg_ipc_message \<Rightarrow> bytes" where
  "ipc_wire m = ipc_magic @ u16_be JG_IPC_VERSION @ u16_be (kind_code (ipc_kind m))
     @ u16_be (operation_code (ipc_operation m)) @ u16_be (error_code (ipc_error m))
     @ u32_be (of_nat (length (ipc_body m))) @ u64_be (ipc_request_id m) @ u32_be 0 @ ipc_body m"

definition ipc_valid :: "jg_ipc_message \<Rightarrow> bool" where
  "ipc_valid m \<longleftrightarrow> validate_message m = Inr ()"

lemma kind_of_code [simp]: "k \<noteq> JG_IPC_KIND_OTHER \<Longrightarrow> kind_of (kind_code k) = k"
  by (cases k) (simp_all add: kind_of_def)

lemma kind_code_of: "kind_of v \<noteq> JG_IPC_KIND_OTHER \<Longrightarrow> kind_code (kind_of v) = v"
  by (auto simp: kind_of_def split: if_splits)

lemma operation_of_code [simp]: "x \<noteq> JG_IPC_OPERATION_OTHER \<Longrightarrow> operation_of (operation_code x) = x"
  by (cases x) (simp_all add: operation_of_def ipc_operations_def)

lemma operation_code_of: "operation_of v \<noteq> JG_IPC_OPERATION_OTHER \<Longrightarrow> operation_code (operation_of v) = v"
  by (auto simp: operation_of_def split: option.splits dest: find_Some_holds)

lemma error_of_code [simp]: "x \<noteq> JG_IPC_ERROR_OTHER \<Longrightarrow> error_of (error_code x) = x"
  by (cases x) (simp_all add: error_of_def ipc_errors_def)

lemma error_code_of: "error_of v \<noteq> JG_IPC_ERROR_OTHER \<Longrightarrow> error_code (error_of v) = v"
  by (auto simp: error_of_def split: option.splits dest: find_Some_holds)

lemma operation_valid_iff: "operation_valid x \<longleftrightarrow> x \<noteq> JG_IPC_OPERATION_OTHER"
  by (cases x) (simp_all add: operation_valid_def)

lemma error_valid_iff: "error_valid x \<longleftrightarrow> x \<noteq> JG_IPC_ERROR_OTHER"
  by (cases x) (simp_all add: error_valid_def)

lemma ipc_valid_iff: "ipc_valid m \<longleftrightarrow> ipc_kind m \<noteq> JG_IPC_KIND_OTHER \<and> ipc_operation m \<noteq> JG_IPC_OPERATION_OTHER
    \<and> ipc_request_id m \<noteq> 0 \<and> ipc_error m \<noteq> JG_IPC_ERROR_OTHER
    \<and> (ipc_kind m = JG_IPC_REQUEST \<longrightarrow> ipc_error m = JG_IPC_ERROR_NONE) \<and> length (ipc_body m) \<le> 65536"
  by (cases "ipc_kind m") (auto simp: ipc_valid_def validate_message_def kind_valid_def operation_valid_iff
      error_valid_iff JG_IPC_MAX_BODY_SIZE_def split: if_splits)

lemma length_ipc_magic [simp]: "length ipc_magic = 4"
  by (simp add: ipc_magic_def)

lemma length_ipc_wire: "length (ipc_wire m) = 28 + length (ipc_body m)"
  by (simp add: ipc_wire_def)

lemmas ipc_layout = ipc_wire_def JG_IPC_HEADER_SIZE_def JG_IPC_MAX_BODY_SIZE_def

lemma ipc_encode_writes:
  assumes "ipc_valid m" "length (ipc_wire m) \<le> length out0"
  shows "jg_ipc_encode m out0 = Done (length (ipc_wire m), ipc_wire m @ drop (length (ipc_wire m)) out0)"
proof -
  have size: "28 + length (ipc_body m) \<le> length out0" "length (ipc_body m) \<le> 65536"
    using assms by (simp_all add: length_ipc_wire ipc_valid_iff)
  have "jg_size_add 28 (length (ipc_body m)) = Some (28 + length (ipc_body m))"
    using size by (simp add: jg_size_add_def SIZE_MAX_def)
  then show ?thesis
    using assms(1) size unfolding ipc_valid_def jg_ipc_encode_def Let_def
    by (simp add: ipc_layout write_blit blit_then) (simp add: blit_start)
qed

lemma ipc_encode_iff:
  "jg_ipc_encode m out0 = Done (n, out') \<longleftrightarrow> ipc_valid m \<and> length (ipc_wire m) \<le> length out0
     \<and> n = length (ipc_wire m) \<and> out' = ipc_wire m @ drop n out0"
proof (cases "ipc_valid m \<and> length (ipc_wire m) \<le> length out0")
  case False
  have "jg_size_add 28 (length (ipc_body m)) = Some s \<Longrightarrow> s = length (ipc_wire m)" for s
    by (auto simp: jg_size_add_def length_ipc_wire split: if_splits)
  then have "jg_ipc_encode m out0 \<noteq> Done r" for r
    using False by (auto simp: jg_ipc_encode_def ipc_valid_def JG_IPC_HEADER_SIZE_def)
  then show ?thesis using False by auto
qed (auto simp: ipc_encode_writes)

lemma ipc_decode_wire:
  assumes m: "ipc_valid m" shows "jg_ipc_decode (ipc_wire m) = Done m"
proof -
  let ?d = "ipc_wire m" and ?n = "length (ipc_body m)"
  have n: "?n \<le> 65536" "unat (of_nat ?n :: u32) = ?n"
    using m by (simp_all add: ipc_valid_iff unat_of_nat)
  have fields: "take 4 ?d = ipc_magic" "slice 4 2 ?d = u16_be JG_IPC_VERSION"
      "slice 6 2 ?d = u16_be (kind_code (ipc_kind m))" "slice 8 2 ?d = u16_be (operation_code (ipc_operation m))"
      "slice 10 2 ?d = u16_be (error_code (ipc_error m))" "slice 12 4 ?d = u32_be (of_nat ?n)"
      "slice 16 8 ?d = u64_be (ipc_request_id m)" "slice 24 4 ?d = u32_be 0" "slice 28 ?n ?d = ipc_body m"
    by (simp_all add: ipc_wire_def slice_def)
  have reads: "jg_read_u16_be ?d 4 = Some JG_IPC_VERSION" "jg_read_u16_be ?d 6 = Some (kind_code (ipc_kind m))"
      "jg_read_u16_be ?d 8 = Some (operation_code (ipc_operation m))"
      "jg_read_u16_be ?d 10 = Some (error_code (ipc_error m))" "jg_read_u32_be ?d 12 = Some (of_nat ?n)"
      "jg_read_u64_be ?d 16 = Some (ipc_request_id m)" "jg_read_u32_be ?d 24 = Some 0"
    by (simp_all add: read_slice fields length_ipc_wire)
  have "jg_size_add 28 ?n = Some (28 + ?n)" using n by (simp add: jg_size_add_def SIZE_MAX_def)
  then show ?thesis
    using m n unfolding jg_ipc_decode_def Let_def
    by (simp add: reads fields length_ipc_wire ipc_layout(2,3) ipc_valid_iff flip: ipc_valid_def)
qed

lemma ipc_decode_accepts:
  assumes d: "jg_ipc_decode data = Done m" shows "ipc_valid m \<and> data = ipc_wire m"
proof -
  obtain k oper err n reserved where magic: "slice 0 4 data = ipc_magic"
    and reads: "slice 4 2 data = u16_be JG_IPC_VERSION" "slice 6 2 data = u16_be k" "slice 8 2 data = u16_be oper"
      "slice 10 2 data = u16_be err" "slice 12 4 data = u32_be n" "slice 16 8 data = u64_be (ipc_request_id m)"
      "slice 24 4 data = u32_be 0"
    and size: "unat n \<le> 65536" "length data = 28 + unat n"
    and m: "m = \<lparr>ipc_kind = kind_of k, ipc_operation = operation_of oper, ipc_request_id = ipc_request_id m,
               ipc_error = error_of err, ipc_body = slice 28 (unat n) data\<rparr>"
    and valid: "ipc_valid m"
    using d unfolding jg_ipc_decode_def Let_def
    by (auto simp: ipc_layout(2,3) ipc_valid_def read_slice jg_size_add_def split: if_splits)
  have codes: "kind_code (ipc_kind m) = k" "operation_code (ipc_operation m) = oper" "error_code (ipc_error m) = err"
    using valid m by (metis ipc_valid_iff jg_ipc_message.select_convs kind_code_of operation_code_of error_code_of)+
  have body: "ipc_body m = slice 28 (unat n) data" "of_nat (length (ipc_body m)) = n"
    using size by (subst m; simp)+
  have "data = ipc_wire m"
    unfolding ipc_wire_def codes body(2) using magic reads size body(1)
    by (subst eq_append_iff) (simp add: drop_eq_append slice_def)
  then show ?thesis using valid by simp
qed

interpretation ipc: wire_codec "\<lambda>_. True" ipc_valid ipc_wire jg_ipc_encode jg_ipc_decode
proof
  show "jg_ipc_encode m out0 = Done (n, out') \<longleftrightarrow> ipc_valid m \<and> length (ipc_wire m) \<le> length out0
     \<and> n = length (ipc_wire m) \<and> out' = ipc_wire m @ drop n out0" for m out0 n out' by (rule ipc_encode_iff)
  show "jg_ipc_decode data = Done m \<longleftrightarrow> True \<and> ipc_valid m \<and> data = ipc_wire m" for data m
    using ipc_decode_wire ipc_decode_accepts by blast
  show "jg_ipc_encode m out0 \<noteq> Fault" for m out0
    by (auto simp: jg_ipc_encode_def Let_def ipc_layout write_blit store_at_def jg_size_add_def split: if_splits)
  show "jg_ipc_decode data \<noteq> Fault" for data
    by (auto simp: jg_ipc_decode_def Let_def ipc_layout jg_size_add_def split: if_splits)
qed

text \<open>
  C29. The control protocol round trips: a frame decodes to a message exactly when encoding the message
  gives back this frame, byte for byte; encoding succeeds exactly when some frame that fits the
  output decodes to the message, writes that frame and leaves the rest of the output alone; no access
  leaves the buffers.
\<close>

theorem jg_ipc_contract:
  "(jg_ipc_decode data = Done m \<longleftrightarrow> jg_ipc_encode m (replicate (length data) 0) = Done (length data, data))
   \<and> (jg_ipc_encode m out = Done (n, out') \<longleftrightarrow>
        (\<exists>d. jg_ipc_decode d = Done m \<and> n = length d \<and> n \<le> length out \<and> out' = d @ drop n out))
   \<and> jg_ipc_decode data \<noteq> Fault \<and> jg_ipc_encode m out \<noteq> Fault"
  by (rule ipc.contract[OF TrueI])

end
