(* ===== verification/Network.thy ===== *)
theory Network
  imports Codec
begin

text \<open>
  \<^verbatim>\<open>src/common/network.c\<close>: the inline-network configuration, the state the network helper reports, and
  their fixed representations. An interface name is a C string, the bytes before its terminator; the
  slot of sixteen bytes that holds it on the wire is padded with zeros.
\<close>

section \<open>Configuration and state\<close>

definition JG_INTERFACE_NAME_MAX :: nat where "JG_INTERFACE_NAME_MAX = 15"
definition JG_NETWORK_CONFIG_WIRE_SIZE :: nat where "JG_NETWORK_CONFIG_WIRE_SIZE = 84"
definition JG_NETWORK_STATE_WIRE_SIZE :: nat where "JG_NETWORK_STATE_WIRE_SIZE = 176"
definition JG_NETWORK_QUEUE_LENGTH_MAX :: u32 where "JG_NETWORK_QUEUE_LENGTH_MAX = 1048576"
definition JG_NETWORK_QUEUE_COUNT_MAX :: u16 where "JG_NETWORK_QUEUE_COUNT_MAX = 64"
definition NETWORK_CONFIG_VERSION :: u16 where "NETWORK_CONFIG_VERSION = 1"
definition NETWORK_STATE_VERSION :: u16 where "NETWORK_STATE_VERSION = 1"

datatype jg_network_failure_mode = JG_NETWORK_FAIL_OPEN | JG_NETWORK_FAIL_CLOSED | JG_NETWORK_FAIL_OTHER

record jg_network_config =
  bridge :: bytes
  ingress :: bytes
  egress :: bytes
  management :: bytes
  bridge_mtu :: u32
  queue_first :: u16
  queue_count :: u16
  queue_length :: u32
  failure_mode :: jg_network_failure_mode
  stp :: bool
  multicast_snooping :: bool
  queue_cpu_fanout :: bool

record jg_network_state =
  confirmed :: jg_network_config
  pending_config :: jg_network_config
  confirmation_seconds_remaining :: u32
  has_confirmed :: bool
  pending :: bool

definition NETWORK_FLAG_STP :: u16 where "NETWORK_FLAG_STP = 1"
definition NETWORK_FLAG_MULTICAST_SNOOPING :: u16 where "NETWORK_FLAG_MULTICAST_SNOOPING = 2"
definition NETWORK_FLAG_CPU_FANOUT :: u16 where "NETWORK_FLAG_CPU_FANOUT = 4"
definition NETWORK_FLAG_ALL :: u16 where
  "NETWORK_FLAG_ALL = NETWORK_FLAG_STP OR NETWORK_FLAG_MULTICAST_SNOOPING OR NETWORK_FLAG_CPU_FANOUT"

definition NETWORK_STATE_HAS_CONFIRMED :: u16 where "NETWORK_STATE_HAS_CONFIRMED = 1"
definition NETWORK_STATE_HAS_PENDING :: u16 where "NETWORK_STATE_HAS_PENDING = 2"
definition NETWORK_STATE_FLAG_ALL :: u16 where
  "NETWORK_STATE_FLAG_ALL = NETWORK_STATE_HAS_CONFIRMED OR NETWORK_STATE_HAS_PENDING"

fun failure_mode_code :: "jg_network_failure_mode \<Rightarrow> u16" where
  "failure_mode_code JG_NETWORK_FAIL_OPEN = 1"
| "failure_mode_code JG_NETWORK_FAIL_CLOSED = 2"
| "failure_mode_code JG_NETWORK_FAIL_OTHER = 0xFFFF"

definition failure_mode_of :: "u16 \<Rightarrow> jg_network_failure_mode" where
  "failure_mode_of v =
     (if v = 1 then JG_NETWORK_FAIL_OPEN else if v = 2 then JG_NETWORK_FAIL_CLOSED else JG_NETWORK_FAIL_OTHER)"

section \<open>Validation\<close>

definition alphanumeric :: "u8 \<Rightarrow> bool" where
  "alphanumeric c = ((c \<ge> 0x61 \<and> c \<le> 0x7A) \<or> (c \<ge> 0x41 \<and> c \<le> 0x5A) \<or> (c \<ge> 0x30 \<and> c \<le> 0x39))"

definition interface_character_valid :: "u8 \<Rightarrow> bool" where
  "interface_character_valid c = (alphanumeric c \<or> c = 0x5F \<or> c = 0x2D \<or> c = 0x2E)"

text \<open>The loop of \<open>interface_name_valid\<close>; the terminator stands behind the last byte of the list.\<close>

function interface_name_loop :: "bytes \<Rightarrow> nat \<Rightarrow> bool" where
  "interface_name_loop name len =
     (if len \<le> JG_INTERFACE_NAME_MAX \<and> len < length name
      then (if \<not> interface_character_valid (name ! len) then False else interface_name_loop name (len + 1))
      else len > 0 \<and> len \<le> JG_INTERFACE_NAME_MAX)"
  by pat_completeness auto
termination by (relation "measure (\<lambda>(name, len). length name - len)") auto

definition interface_name_valid :: "bytes \<Rightarrow> bool" where
  "interface_name_valid name =
     (if \<not> (name \<noteq> [] \<and> alphanumeric (name ! 0)) then False else interface_name_loop name 0)"

definition jg_network_config_validate :: "jg_network_config \<Rightarrow> unit result" where
  "jg_network_config_validate c =
     (if \<not> interface_name_valid (bridge c) \<or> \<not> interface_name_valid (ingress c)
         \<or> \<not> interface_name_valid (egress c) \<or> \<not> interface_name_valid (management c)
         \<or> bridge c = ingress c \<or> bridge c = egress c \<or> bridge c = management c
         \<or> ingress c = egress c \<or> ingress c = management c \<or> egress c = management c
         \<or> (failure_mode c \<noteq> JG_NETWORK_FAIL_OPEN \<and> failure_mode c \<noteq> JG_NETWORK_FAIL_CLOSED)
      then Inl EINVAL
      else let queue_end = (ucast (queue_first c) + ucast (queue_count c) :: u32) in
        if (bridge_mtu c \<noteq> 0 \<and> (bridge_mtu c < 1280 \<or> bridge_mtu c > 65535))
           \<or> queue_count c = 0 \<or> queue_count c > JG_NETWORK_QUEUE_COUNT_MAX \<or> queue_end > 65536
           \<or> queue_length c = 0 \<or> queue_length c > JG_NETWORK_QUEUE_LENGTH_MAX
        then Inl ERANGE else Inr ())"

section \<open>The configuration codec\<close>

definition encode_name :: "bytes \<Rightarrow> nat \<Rightarrow> bytes \<Rightarrow> (errno, bytes) run" where
  "encode_name out0 off name = raw (store_at out0 off name)"

definition config_flags :: "jg_network_config \<Rightarrow> u16" where
  "config_flags c = (if stp c then NETWORK_FLAG_STP else 0)
     OR (if multicast_snooping c then NETWORK_FLAG_MULTICAST_SNOOPING else 0)
     OR (if queue_cpu_fanout c then NETWORK_FLAG_CPU_FANOUT else 0)"

definition jg_network_config_encode :: "jg_network_config \<Rightarrow> bytes \<Rightarrow> (errno, nat \<times> bytes) run" where
  "jg_network_config_encode c out0 = and_then (lift_result (jg_network_config_validate c)) (\<lambda>_.
     if length out0 < JG_NETWORK_CONFIG_WIRE_SIZE then Fail ENOSPC
     else and_then (raw (store_at out0 0 (replicate JG_NETWORK_CONFIG_WIRE_SIZE 0))) (\<lambda>out1.
       let out2 = snd (jg_write_u16_be out1 0 NETWORK_CONFIG_VERSION);
           out3 = snd (jg_write_u16_be out2 2 (config_flags c));
           out4 = snd (jg_write_u16_be out3 4 (failure_mode_code (failure_mode c)));
           out5 = snd (jg_write_u16_be out4 6 (queue_first c));
           out6 = snd (jg_write_u16_be out5 8 (queue_count c));
           out7 = snd (jg_write_u32_be out6 12 (bridge_mtu c));
           out8 = snd (jg_write_u32_be out7 16 (queue_length c))
       in and_then (encode_name out8 20 (bridge c)) (\<lambda>out9.
          and_then (encode_name out9 36 (ingress c)) (\<lambda>out10.
          and_then (encode_name out10 52 (egress c)) (\<lambda>out11.
          and_then (encode_name out11 68 (management c)) (\<lambda>out12.
            Done (JG_NETWORK_CONFIG_WIRE_SIZE, out12)))))))"

text \<open>The two loops of \<open>decode_name\<close>: the length of the name, and the padding behind its terminator.\<close>

function name_length :: "bytes \<Rightarrow> nat \<Rightarrow> nat \<Rightarrow> (errno, nat) run" where
  "name_length data off len =
     (if len \<le> JG_INTERFACE_NAME_MAX
      then and_then (raw (byte_at data (off + len))) (\<lambda>b.
        if b \<noteq> 0 then name_length data off (len + 1) else Done len)
      else Done len)"
  by pat_completeness auto
termination by (relation "measure (\<lambda>(data, off, len). 16 - len)") (auto simp: JG_INTERFACE_NAME_MAX_def)

function name_padded :: "bytes \<Rightarrow> nat \<Rightarrow> nat \<Rightarrow> (errno, bool) run" where
  "name_padded data off index =
     (if index \<le> JG_INTERFACE_NAME_MAX
      then and_then (raw (byte_at data (off + index))) (\<lambda>b.
        if b \<noteq> 0 then Done False else name_padded data off (index + 1))
      else Done True)"
  by pat_completeness auto
termination by (relation "measure (\<lambda>(data, off, index). 16 - index)") (auto simp: JG_INTERFACE_NAME_MAX_def)

definition decode_name :: "bytes \<Rightarrow> nat \<Rightarrow> (errno, bytes option) run" where
  "decode_name data off = and_then (name_length data off 0) (\<lambda>len.
     if len = 0 \<or> len > JG_INTERFACE_NAME_MAX then Done None
     else and_then (name_padded data off (len + 1)) (\<lambda>padded.
       if \<not> padded then Done None
       else and_then (raw (bytes_at data off (JG_INTERFACE_NAME_MAX + 1))) (\<lambda>slot.
         Done (if interface_name_valid (take len slot) then Some (take len slot) else None))))"

definition jg_network_config_decode :: "bytes \<Rightarrow> (errno, jg_network_config) run" where
  "jg_network_config_decode data =
     (if length data \<noteq> JG_NETWORK_CONFIG_WIRE_SIZE then Fail EMSGSIZE
      else and_then (or_fail EPROTO (jg_read_u16_be data 0)) (\<lambda>version.
      and_then (or_fail EPROTO (jg_read_u16_be data 2)) (\<lambda>flags.
      and_then (or_fail EPROTO (jg_read_u16_be data 4)) (\<lambda>fail_mode.
      and_then (or_fail EPROTO (jg_read_u16_be data 6)) (\<lambda>first.
      and_then (or_fail EPROTO (jg_read_u16_be data 8)) (\<lambda>count.
      and_then (or_fail EPROTO (jg_read_u16_be data 10)) (\<lambda>reserved.
      and_then (or_fail EPROTO (jg_read_u32_be data 12)) (\<lambda>mtu.
      and_then (or_fail EPROTO (jg_read_u32_be data 16)) (\<lambda>len.
      if version \<noteq> NETWORK_CONFIG_VERSION then Fail EPROTONOSUPPORT
      else if flags AND NOT NETWORK_FLAG_ALL \<noteq> 0 \<or> reserved \<noteq> 0 then Fail EPROTO
      else
        and_then (and_then (decode_name data 20) (or_fail EPROTO)) (\<lambda>name1.
        and_then (and_then (decode_name data 36) (or_fail EPROTO)) (\<lambda>name2.
        and_then (and_then (decode_name data 52) (or_fail EPROTO)) (\<lambda>name3.
        and_then (and_then (decode_name data 68) (or_fail EPROTO)) (\<lambda>name4.
          let decoded = \<lparr>bridge = name1, ingress = name2, egress = name3, management = name4, bridge_mtu = mtu,
                queue_first = first, queue_count = count, queue_length = len,
                failure_mode = failure_mode_of fail_mode, stp = (flags AND NETWORK_FLAG_STP \<noteq> 0),
                multicast_snooping = (flags AND NETWORK_FLAG_MULTICAST_SNOOPING \<noteq> 0),
                queue_cpu_fanout = (flags AND NETWORK_FLAG_CPU_FANOUT \<noteq> 0)\<rparr>
          in and_then (lift_result (jg_network_config_validate decoded)) (\<lambda>_. Done decoded))))))))))))))"

declare interface_name_loop.simps [simp del] name_length.simps [simp del] name_padded.simps [simp del]

section \<open>The configuration on the wire\<close>

definition name_slot :: "bytes \<Rightarrow> bytes" where
  "name_slot name = name @ replicate (16 - length name) 0"

definition network_config_wire :: "jg_network_config \<Rightarrow> bytes" where
  "network_config_wire c = u16_be NETWORK_CONFIG_VERSION @ u16_be (config_flags c)
     @ u16_be (failure_mode_code (failure_mode c)) @ u16_be (queue_first c) @ u16_be (queue_count c) @ u16_be 0
     @ u32_be (bridge_mtu c) @ u32_be (queue_length c)
     @ name_slot (bridge c) @ name_slot (ingress c) @ name_slot (egress c) @ name_slot (management c)"

definition network_config_valid :: "jg_network_config \<Rightarrow> bool" where
  "network_config_valid c \<longleftrightarrow> jg_network_config_validate c = Inr ()"

lemma interface_name_loop_iff:
  "len \<le> length name \<Longrightarrow> len \<le> 16 \<Longrightarrow> interface_name_loop name len \<longleftrightarrow>
     (\<forall>b \<in> set (drop len name). interface_character_valid b) \<and> name \<noteq> [] \<and> length name \<le> 15"
proof (induction name len rule: interface_name_loop.induct)
  case (1 name len)
  show ?case
  proof (cases "len \<le> JG_INTERFACE_NAME_MAX \<and> len < length name")
    case True
    then have "drop len name = name ! len # drop (len + 1) name" by (simp add: Cons_nth_drop_Suc)
    then show ?thesis using 1 True
      by (subst interface_name_loop.simps) (auto simp: JG_INTERFACE_NAME_MAX_def)
  next
    case False
    then show ?thesis using 1(2,3)
      by (subst interface_name_loop.simps) (auto simp: JG_INTERFACE_NAME_MAX_def)
  qed
qed

lemma interface_name_valid_iff:
  "interface_name_valid name \<longleftrightarrow> name \<noteq> [] \<and> alphanumeric (name ! 0) \<and> length name \<le> 15
     \<and> (\<forall>b \<in> set name. interface_character_valid b)"
  by (auto simp: interface_name_valid_def interface_name_loop_iff)

lemma interface_name_no_nul: "interface_name_valid name \<Longrightarrow> 0 \<notin> set name"
  by (auto simp: interface_name_valid_iff interface_character_valid_def alphanumeric_def)

lemma slice_step: "off < length xs \<Longrightarrow> 0 < n \<Longrightarrow> slice off n xs = xs ! off # slice (off + 1) (n - 1) xs"
  by (cases n) (simp_all add: slice_def Cons_nth_drop_Suc[symmetric])

lemma name_length_value:
  "off + 16 \<le> length data \<Longrightarrow> len \<le> 16 \<Longrightarrow>
     name_length data off len = Done (len + length (takeWhile (\<lambda>b. b \<noteq> 0) (slice (off + len) (16 - len) data)))"
proof (induction data off len rule: name_length.induct)
  case (1 data off len)
  show ?case
  proof (cases "len \<le> JG_INTERFACE_NAME_MAX")
    case True
    then have "slice (off + len) (16 - len) data = data ! (off + len) # slice (off + (len + 1)) (16 - (len + 1)) data"
      using 1(2) by (subst slice_step) (simp_all add: JG_INTERFACE_NAME_MAX_def add.assoc)
    then show ?thesis using 1 True by (subst name_length.simps) (simp add: JG_INTERFACE_NAME_MAX_def)
  next
    case False
    then have "len = 16" using 1(3) by (simp add: JG_INTERFACE_NAME_MAX_def)
    then show ?thesis by (subst name_length.simps) (simp add: JG_INTERFACE_NAME_MAX_def slice_def)
  qed
qed

lemma name_padded_value:
  "off + 16 \<le> length data \<Longrightarrow> index \<le> 16 \<Longrightarrow>
     name_padded data off index = Done (\<forall>b \<in> set (slice (off + index) (16 - index) data). b = 0)"
proof (induction data off index rule: name_padded.induct)
  case (1 data off index)
  show ?case
  proof (cases "index \<le> JG_INTERFACE_NAME_MAX")
    case True
    then have "slice (off + index) (16 - index) data = data ! (off + index) # slice (off + (index + 1)) (16 - (index + 1)) data"
      using 1(2) by (subst slice_step) (simp_all add: JG_INTERFACE_NAME_MAX_def add.assoc)
    then show ?thesis using 1 True by (subst name_padded.simps) (simp add: JG_INTERFACE_NAME_MAX_def)
  next
    case False
    then have "index = 16" using 1(3) by (simp add: JG_INTERFACE_NAME_MAX_def)
    then show ?thesis by (subst name_padded.simps) (simp add: JG_INTERFACE_NAME_MAX_def slice_def)
  qed
qed

lemma slice_slice: "a + m \<le> n \<Longrightarrow> slice a m (slice off n xs) = slice (off + a) m xs"
  by (simp add: slice_def drop_take min_def add.commute)

lemma all_equal_iff: "length xs = k \<Longrightarrow> xs = replicate k x \<longleftrightarrow> (\<forall>b \<in> set xs. b = x)"
  by (metis in_set_replicate replicate_eqI)

lemma decode_name_value:
  assumes "off + 16 \<le> length data"
  shows "decode_name data off = Done (let slot = slice off 16 data; name = takeWhile (\<lambda>b. b \<noteq> 0) slot in
     if slot = name_slot name \<and> interface_name_valid name then Some name else None)"
proof -
  let ?slot = "slice off 16 data" let ?name = "takeWhile (\<lambda>b. b \<noteq> 0) ?slot" let ?n = "length ?name"
  have slot: "length ?slot = 16" "take ?n ?slot = ?name" "?n \<le> 16"
    using assms length_takeWhile_le[of _ ?slot] by (simp_all add: takeWhile_eq_take[symmetric])
  have split: "?slot = ?name @ drop ?n ?slot" using slot(2) by (metis append_take_drop_id)
  show ?thesis
  proof (cases "?n = 0 \<or> ?n > 15")
    case True
    then have "\<not> interface_name_valid ?name" by (auto simp: interface_name_valid_iff)
    then show ?thesis using True assms
      by (simp add: decode_name_def name_length_value JG_INTERFACE_NAME_MAX_def Let_def)
  next
    case False
    then have n: "?n < length ?slot" using slot by simp
    then have zero: "?slot ! ?n = 0" using nth_length_takeWhile[OF n] by simp
    have rest: "drop ?n ?slot = ?slot ! ?n # drop (?n + 1) ?slot" using n by (simp add: Cons_nth_drop_Suc)
    have "slice (off + (?n + 1)) (16 - (?n + 1)) data = drop (?n + 1) ?slot"
      using slice_slice[of "?n + 1" "16 - (?n + 1)" 16 off data] n slot(1) by (simp add: slice_def)
    moreover have "(\<forall>b \<in> set (drop (?n + 1) ?slot). b = 0) \<longleftrightarrow> drop ?n ?slot = replicate (16 - ?n) 0"
      using zero slot(1) n by (subst all_equal_iff) (auto simp: rest)
    moreover have "drop ?n ?slot = replicate (16 - ?n) 0 \<longleftrightarrow> ?slot = name_slot ?name"
      unfolding name_slot_def using split by (metis same_append_eq)
    ultimately show ?thesis
      using False assms slot n unfolding decode_name_def Let_def
      by (simp add: name_length_value name_padded_value JG_INTERFACE_NAME_MAX_def)
  qed
qed

lemma takeWhile_name_slot: "0 \<notin> set name \<Longrightarrow> takeWhile (\<lambda>b. b \<noteq> 0) (name_slot name) = name"
  by (cases "16 - length name") (auto simp: name_slot_def takeWhile_append)

lemma decode_name_iff:
  assumes "off + 16 \<le> length data"
  shows "decode_name data off = Done (Some name) \<longleftrightarrow> interface_name_valid name \<and> slice off 16 data = name_slot name"
  using assms takeWhile_name_slot[OF interface_name_no_nul[of name]]
  by (auto simp: decode_name_value Let_def)

lemmas network_flag_defs = NETWORK_FLAG_ALL_def NETWORK_FLAG_STP_def NETWORK_FLAG_MULTICAST_SNOOPING_def
  NETWORK_FLAG_CPU_FANOUT_def

lemma failure_mode_of_code [simp]: "f \<noteq> JG_NETWORK_FAIL_OTHER \<Longrightarrow> failure_mode_of (failure_mode_code f) = f"
  by (cases f) (simp_all add: failure_mode_of_def)

lemma failure_mode_code_of: "failure_mode_of v \<noteq> JG_NETWORK_FAIL_OTHER \<Longrightarrow> failure_mode_code (failure_mode_of v) = v"
  by (auto simp: failure_mode_of_def split: if_splits)

lemma network_config_validD:
  assumes "network_config_valid c"
  shows "interface_name_valid (bridge c)" "interface_name_valid (ingress c)" "interface_name_valid (egress c)"
    "interface_name_valid (management c)" "failure_mode c \<noteq> JG_NETWORK_FAIL_OTHER"
  using assms by (auto simp: network_config_valid_def jg_network_config_validate_def split: if_splits)

lemma config_flags_bits:
  "config_flags c AND NOT NETWORK_FLAG_ALL = 0"
  "config_flags c AND NETWORK_FLAG_STP \<noteq> 0 \<longleftrightarrow> stp c"
  "config_flags c AND NETWORK_FLAG_MULTICAST_SNOOPING \<noteq> 0 \<longleftrightarrow> multicast_snooping c"
  "config_flags c AND NETWORK_FLAG_CPU_FANOUT \<noteq> 0 \<longleftrightarrow> queue_cpu_fanout c"
  by (simp_all add: config_flags_def network_flag_defs)

lemma config_flags_of_bits:
  assumes "(flags :: u16) AND NOT NETWORK_FLAG_ALL = 0"
    and "stp c = (flags AND NETWORK_FLAG_STP \<noteq> 0)" "multicast_snooping c = (flags AND NETWORK_FLAG_MULTICAST_SNOOPING \<noteq> 0)"
      "queue_cpu_fanout c = (flags AND NETWORK_FLAG_CPU_FANOUT \<noteq> 0)"
  shows "config_flags c = flags"
proof -
  have "flags \<in> {0, 1, 2, 3, 4, 5, 6, 7}" using assms(1) by (intro low_three_bits) (simp add: network_flag_defs)
  then show ?thesis using assms(2-4) by (auto simp: config_flags_def network_flag_defs)
qed

lemma length_name_slot: "interface_name_valid name \<Longrightarrow> length (name_slot name) = 16"
  by (simp add: name_slot_def interface_name_valid_iff)

lemma length_network_config_wire: "network_config_valid c \<Longrightarrow> length (network_config_wire c) = 84"
  by (simp add: network_config_wire_def length_name_slot network_config_validD)

lemma interface_name_length: "interface_name_valid name \<Longrightarrow> length name \<le> 15"
  by (simp add: interface_name_valid_iff)

lemma slice_blit_name:
  "interface_name_valid name \<Longrightarrow> off + 16 \<le> length dst \<Longrightarrow> slice off 16 dst = replicate 16 0 \<Longrightarrow>
     slice off 16 (blit dst off name) = name_slot name"
  using slice_slice[of "length name" "16 - length name" 16 off dst] interface_name_length[of name]
  by (simp add: slice_blit_prefix name_slot_def)

lemma network_encode_writes:
  assumes c: "network_config_valid c" and out0: "84 \<le> length out0"
  shows "jg_network_config_encode c out0 = Done (84, network_config_wire c @ drop 84 out0)"
proof -
  note names = network_config_validD[OF c]
  note short = names(1-4)[THEN interface_name_length]
  define body where "body = blit (blit (blit (blit (blit (blit (blit (blit out0 0 (replicate 84 0))
      0 (u16_be NETWORK_CONFIG_VERSION)) 2 (u16_be (config_flags c))) 4 (u16_be (failure_mode_code (failure_mode c))))
      6 (u16_be (queue_first c))) 8 (u16_be (queue_count c))) 12 (u32_be (bridge_mtu c))) 16 (u32_be (queue_length c))"
  define out' where "out' = blit (blit (blit (blit body 20 (bridge c)) 36 (ingress c)) 52 (egress c)) 68 (management c)"
  have len: "length body = length out0" using out0 by (simp add: body_def)
  have zeros: "slice off 16 body = replicate 16 0" if "off \<in> {20, 36, 52, 68}" for off
    using that out0 by (auto simp: body_def slice_blit_other slice_blit_inside)
  have "jg_network_config_encode c out0 = Done (84, out')"
    using c out0 short len unfolding jg_network_config_encode_def Let_def out'_def encode_name_def
    by (simp add: write_blit JG_NETWORK_CONFIG_WIRE_SIZE_def network_config_valid_def body_def[symmetric])
  moreover have "out' = network_config_wire c @ drop 84 out0"
    using out0 short len names zeros unfolding out'_def network_config_wire_def append_assoc
    by (subst eq_append_iff)
      (simp add: drop_eq_append slice_blit_name length_name_slot slice_blit_other flip: slice_0,
       simp add: body_def slice_blit_other slice_blit_inside u16_be_zero flip: slice_0)
  ultimately show ?thesis by simp
qed

lemma network_encode_iff:
  "jg_network_config_encode c out0 = Done (n, out') \<longleftrightarrow> network_config_valid c
     \<and> length (network_config_wire c) \<le> length out0 \<and> n = length (network_config_wire c)
     \<and> out' = network_config_wire c @ drop n out0"
proof (cases "network_config_valid c \<and> 84 \<le> length out0")
  case False
  then have "jg_network_config_encode c out0 \<noteq> Done r" for r
    by (auto simp: jg_network_config_encode_def network_config_valid_def JG_NETWORK_CONFIG_WIRE_SIZE_def)
  then show ?thesis using False by (auto simp: length_network_config_wire)
qed (auto simp: network_encode_writes length_network_config_wire)

lemma network_decode_wire:
  assumes c: "network_config_valid c"
  shows "jg_network_config_decode (network_config_wire c) = Done c"
proof -
  let ?d = "network_config_wire c"
  note names = network_config_validD[OF c]
  have fields: "take 2 ?d = u16_be NETWORK_CONFIG_VERSION" "slice 2 2 ?d = u16_be (config_flags c)"
      "slice 4 2 ?d = u16_be (failure_mode_code (failure_mode c))" "slice 6 2 ?d = u16_be (queue_first c)"
      "slice 8 2 ?d = u16_be (queue_count c)" "slice 10 2 ?d = u16_be 0" "slice 12 4 ?d = u32_be (bridge_mtu c)"
      "slice 16 4 ?d = u32_be (queue_length c)"
      "slice 20 16 ?d = name_slot (bridge c)" "slice 36 16 ?d = name_slot (ingress c)"
      "slice 52 16 ?d = name_slot (egress c)" "slice 68 16 ?d = name_slot (management c)"
    using names by (simp_all add: network_config_wire_def slice_def length_name_slot)
  have reads: "jg_read_u16_be ?d 0 = Some NETWORK_CONFIG_VERSION" "jg_read_u16_be ?d 2 = Some (config_flags c)"
      "jg_read_u16_be ?d 4 = Some (failure_mode_code (failure_mode c))" "jg_read_u16_be ?d 6 = Some (queue_first c)"
      "jg_read_u16_be ?d 8 = Some (queue_count c)" "jg_read_u16_be ?d 10 = Some 0"
      "jg_read_u32_be ?d 12 = Some (bridge_mtu c)" "jg_read_u32_be ?d 16 = Some (queue_length c)"
    by (simp_all add: read_slice fields length_network_config_wire c)
  have decoded: "decode_name ?d 20 = Done (Some (bridge c))" "decode_name ?d 36 = Done (Some (ingress c))"
      "decode_name ?d 52 = Done (Some (egress c))" "decode_name ?d 68 = Done (Some (management c))"
    using names by (simp_all add: decode_name_iff fields length_network_config_wire c)
  have whole: "\<lparr>bridge = bridge c, ingress = ingress c, egress = egress c, management = management c,
      bridge_mtu = bridge_mtu c, queue_first = queue_first c, queue_count = queue_count c, queue_length = queue_length c,
      failure_mode = failure_mode c, stp = stp c, multicast_snooping = multicast_snooping c,
      queue_cpu_fanout = queue_cpu_fanout c\<rparr> = c" by simp
  show ?thesis
    using c names(5) unfolding jg_network_config_decode_def Let_def
    by (simp add: reads decoded length_network_config_wire JG_NETWORK_CONFIG_WIRE_SIZE_def config_flags_bits
        network_config_valid_def whole)
qed

lemma network_decode_accepts:
  assumes d: "jg_network_config_decode data = Done c"
  shows "network_config_valid c \<and> data = network_config_wire c"
proof -
  have size: "length data = 84"
    using d by (auto simp: jg_network_config_decode_def JG_NETWORK_CONFIG_WIRE_SIZE_def split: if_splits)
  obtain flags fail_mode where
    reads: "take 2 data = u16_be NETWORK_CONFIG_VERSION" "slice 2 2 data = u16_be flags" "slice 4 2 data = u16_be fail_mode"
      "slice 6 2 data = u16_be (queue_first c)" "slice 8 2 data = u16_be (queue_count c)" "slice 10 2 data = u16_be 0"
      "slice 12 4 data = u32_be (bridge_mtu c)" "slice 16 4 data = u32_be (queue_length c)"
    and names: "decode_name data 20 = Done (Some (bridge c))" "decode_name data 36 = Done (Some (ingress c))"
      "decode_name data 52 = Done (Some (egress c))" "decode_name data 68 = Done (Some (management c))"
    and flags: "flags AND NOT NETWORK_FLAG_ALL = 0"
    and c: "failure_mode c = failure_mode_of fail_mode" "stp c = (flags AND NETWORK_FLAG_STP \<noteq> 0)"
      "multicast_snooping c = (flags AND NETWORK_FLAG_MULTICAST_SNOOPING \<noteq> 0)"
      "queue_cpu_fanout c = (flags AND NETWORK_FLAG_CPU_FANOUT \<noteq> 0)"
    and valid: "network_config_valid c"
    using d unfolding jg_network_config_decode_def Let_def
    by (auto simp: read_slice network_config_valid_def split: if_splits)
  have slots: "slice 20 16 data = name_slot (bridge c)" "slice 36 16 data = name_slot (ingress c)"
      "slice 52 16 data = name_slot (egress c)" "slice 68 16 data = name_slot (management c)"
    using names size by (simp_all add: decode_name_iff)
  have codes: "failure_mode_code (failure_mode c) = fail_mode" "config_flags c = flags"
    using network_config_validD(5)[OF valid] failure_mode_code_of config_flags_of_bits[OF flags c(2-4)] by (simp_all add: c(1))
  have "data = network_config_wire c"
    unfolding network_config_wire_def codes using reads slots size
    by (subst eq_append_iff) (simp add: drop_eq_append flip: slots, simp add: slice_def)
  then show ?thesis using valid by simp
qed

lemma decode_name_runs: "off + 16 \<le> length data \<Longrightarrow> \<exists>r. decode_name data off = Done r"
  by (simp add: decode_name_value)

interpretation network_config: wire_codec "\<lambda>_. True" network_config_valid network_config_wire
    jg_network_config_encode jg_network_config_decode
proof
  show "jg_network_config_encode c out0 = Done (n, out') \<longleftrightarrow> network_config_valid c
     \<and> length (network_config_wire c) \<le> length out0 \<and> n = length (network_config_wire c)
     \<and> out' = network_config_wire c @ drop n out0" for c out0 n out' by (rule network_encode_iff)
  show "jg_network_config_decode data = Done c \<longleftrightarrow> True \<and> network_config_valid c \<and> data = network_config_wire c" for data c
    using network_decode_wire network_decode_accepts by blast
  show "jg_network_config_encode c out0 \<noteq> Fault" for c out0
  proof (cases "network_config_valid c \<and> 84 \<le> length out0")
    case False
    then show ?thesis
      by (auto simp: jg_network_config_encode_def network_config_valid_def JG_NETWORK_CONFIG_WIRE_SIZE_def)
  qed (simp add: network_encode_writes)
  show "jg_network_config_decode data \<noteq> Fault" for data
    by (auto simp: jg_network_config_decode_def Let_def JG_NETWORK_CONFIG_WIRE_SIZE_def decode_name_value split: if_splits)
qed

section \<open>The state codec\<close>

fun bytes_are_zero :: "bytes \<Rightarrow> bool" where
  "bytes_are_zero [] = True"
| "bytes_are_zero (b # bs) = (if b \<noteq> 0 then False else bytes_are_zero bs)"

text \<open>A configuration cleared by \<^verbatim>\<open>memset\<close>: empty names, and the failure mode zero, which names no mode.\<close>

definition cleared_config :: jg_network_config where
  "cleared_config = \<lparr>bridge = [], ingress = [], egress = [], management = [], bridge_mtu = 0, queue_first = 0,
     queue_count = 0, queue_length = 0, failure_mode = JG_NETWORK_FAIL_OTHER, stp = False,
     multicast_snooping = False, queue_cpu_fanout = False\<rparr>"

text \<open>The embedded configuration is encoded into its part of the output.\<close>

definition encode_config_at :: "nat \<Rightarrow> jg_network_config \<Rightarrow> bytes \<Rightarrow> (errno, nat \<times> bytes) run" where
  "encode_config_at off c out0 = and_then (raw (bytes_at out0 off JG_NETWORK_CONFIG_WIRE_SIZE)) (\<lambda>part.
     and_then (jg_network_config_encode c part) (\<lambda>(n, part').
     and_then (raw (store_at out0 off part')) (\<lambda>out1. Done (n, out1))))"

definition state_flags :: "jg_network_state \<Rightarrow> u16" where
  "state_flags s = (if has_confirmed s then NETWORK_STATE_HAS_CONFIRMED else 0)
     OR (if pending s then NETWORK_STATE_HAS_PENDING else 0)"

definition jg_network_state_encode :: "jg_network_state \<Rightarrow> bytes \<Rightarrow> (errno, nat \<times> bytes) run" where
  "jg_network_state_encode s out0 =
     (if \<not> pending s \<and> confirmation_seconds_remaining s \<noteq> 0 then Fail EINVAL
      else if length out0 < JG_NETWORK_STATE_WIRE_SIZE then Fail ENOSPC
      else and_then (if has_confirmed s then lift_result (jg_network_config_validate (confirmed s)) else Done ()) (\<lambda>_.
      and_then (if pending s then lift_result (jg_network_config_validate (pending_config s)) else Done ()) (\<lambda>_.
      and_then (raw (store_at out0 0 (replicate JG_NETWORK_STATE_WIRE_SIZE 0))) (\<lambda>out1.
        let out2 = snd (jg_write_u16_be out1 0 NETWORK_STATE_VERSION);
            out3 = snd (jg_write_u16_be out2 2 (state_flags s));
            out4 = snd (jg_write_u32_be out3 4 (confirmation_seconds_remaining s))
        in and_then (if has_confirmed s then encode_config_at 8 (confirmed s) out4 else Done (0, out4)) (\<lambda>(size1, out5).
           and_then (if pending s then encode_config_at 92 (pending_config s) out5 else Done (size1, out5)) (\<lambda>(size2, out6).
           if size2 \<noteq> JG_NETWORK_CONFIG_WIRE_SIZE \<and> (has_confirmed s \<or> pending s) then Fail EIO
           else Done (JG_NETWORK_STATE_WIRE_SIZE, out6)))))))"

definition decode_config_at :: "bool \<Rightarrow> nat \<Rightarrow> bytes \<Rightarrow> (errno, jg_network_config) run" where
  "decode_config_at present off data = and_then (raw (bytes_at data off JG_NETWORK_CONFIG_WIRE_SIZE)) (\<lambda>part.
     if present then jg_network_config_decode part
     else if \<not> bytes_are_zero part then Fail EPROTO else Done cleared_config)"

definition jg_network_state_decode :: "bytes \<Rightarrow> (errno, jg_network_state) run" where
  "jg_network_state_decode data =
     (if length data \<noteq> JG_NETWORK_STATE_WIRE_SIZE then Fail EMSGSIZE
      else and_then (or_fail EPROTO (jg_read_u16_be data 0)) (\<lambda>version.
      and_then (or_fail EPROTO (jg_read_u16_be data 2)) (\<lambda>flags.
      and_then (or_fail EPROTO (jg_read_u32_be data 4)) (\<lambda>remaining.
      if version \<noteq> NETWORK_STATE_VERSION then Fail EPROTONOSUPPORT
      else if flags AND NOT NETWORK_STATE_FLAG_ALL \<noteq> 0 \<or> (flags AND NETWORK_STATE_HAS_PENDING = 0 \<and> remaining \<noteq> 0)
      then Fail EPROTO
      else and_then (decode_config_at (flags AND NETWORK_STATE_HAS_CONFIRMED \<noteq> 0) 8 data) (\<lambda>c1.
           and_then (decode_config_at (flags AND NETWORK_STATE_HAS_PENDING \<noteq> 0) 92 data) (\<lambda>c2.
           Done \<lparr>confirmed = c1, pending_config = c2, confirmation_seconds_remaining = remaining,
                 has_confirmed = (flags AND NETWORK_STATE_HAS_CONFIRMED \<noteq> 0),
                 pending = (flags AND NETWORK_STATE_HAS_PENDING \<noteq> 0)\<rparr>))))))"

section \<open>The state on the wire\<close>

text \<open>A state in canonical form: a configuration that is absent is cleared, as the decoder leaves it.\<close>

definition state_canonical :: "jg_network_state \<Rightarrow> bool" where
  "state_canonical s \<longleftrightarrow> (has_confirmed s \<or> confirmed s = cleared_config) \<and> (pending s \<or> pending_config s = cleared_config)"

definition network_state_valid :: "jg_network_state \<Rightarrow> bool" where
  "network_state_valid s \<longleftrightarrow> (has_confirmed s \<longrightarrow> network_config_valid (confirmed s))
     \<and> (pending s \<longrightarrow> network_config_valid (pending_config s)) \<and> (\<not> pending s \<longrightarrow> confirmation_seconds_remaining s = 0)"

definition config_slot :: "bool \<Rightarrow> jg_network_config \<Rightarrow> bytes" where
  "config_slot present c = (if present then network_config_wire c else replicate 84 0)"

definition network_state_wire :: "jg_network_state \<Rightarrow> bytes" where
  "network_state_wire s = u16_be NETWORK_STATE_VERSION @ u16_be (state_flags s) @ u32_be (confirmation_seconds_remaining s)
     @ config_slot (has_confirmed s) (confirmed s) @ config_slot (pending s) (pending_config s)"

lemmas state_flag_defs = NETWORK_STATE_FLAG_ALL_def NETWORK_STATE_HAS_CONFIRMED_def NETWORK_STATE_HAS_PENDING_def

lemma state_flags_bits:
  "state_flags s AND NOT NETWORK_STATE_FLAG_ALL = 0"
  "state_flags s AND NETWORK_STATE_HAS_CONFIRMED = 0 \<longleftrightarrow> \<not> has_confirmed s"
  "state_flags s AND NETWORK_STATE_HAS_PENDING = 0 \<longleftrightarrow> \<not> pending s"
  by (simp_all add: state_flags_def state_flag_defs)

lemma state_flags_of_bits:
  assumes flags: "(flags :: u16) AND NOT NETWORK_STATE_FLAG_ALL = 0"
    and "has_confirmed s = (flags AND NETWORK_STATE_HAS_CONFIRMED \<noteq> 0)" "pending s = (flags AND NETWORK_STATE_HAS_PENDING \<noteq> 0)"
  shows "state_flags s = flags"
proof -
  have "flags AND NOT 7 = 0"
    using arg_cong[OF flags, of "\<lambda>x. x AND NOT 7"] by (simp add: state_flag_defs and.assoc)
  then have "flags \<in> {0, 1, 2, 3, 4, 5, 6, 7}" by (rule low_three_bits)
  then show ?thesis using assms by (auto simp: state_flags_def state_flag_defs)
qed

lemma bytes_are_zero_iff: "bytes_are_zero bs \<longleftrightarrow> bs = replicate (length bs) 0"
  by (induction bs) auto

lemma length_config_slot: "(present \<Longrightarrow> network_config_valid c) \<Longrightarrow> length (config_slot present c) = 84"
  by (simp add: config_slot_def length_network_config_wire)

lemma length_network_state_wire: "network_state_valid s \<Longrightarrow> length (network_state_wire s) = 176"
  by (simp add: network_state_wire_def length_config_slot network_state_valid_def)

lemma encode_config_at_value:
  "network_config_valid c \<Longrightarrow> off + 84 \<le> length out0 \<Longrightarrow> encode_config_at off c out0 = Done (84, blit out0 off (network_config_wire c))"
  by (simp add: encode_config_at_def JG_NETWORK_CONFIG_WIRE_SIZE_def network_encode_writes length_network_config_wire)

lemma decode_config_at_iff:
  assumes "off + 84 \<le> length data"
  shows "decode_config_at present off data = Done c \<longleftrightarrow>
    slice off 84 data = config_slot present c \<and> (if present then network_config_valid c else c = cleared_config)"
  using assms network_config.decode_iff[of "slice off 84 data" c]
  by (auto simp: decode_config_at_def JG_NETWORK_CONFIG_WIRE_SIZE_def config_slot_def bytes_are_zero_iff)

lemma decode_config_at_no_fault: "off + 84 \<le> length data \<Longrightarrow> decode_config_at present off data \<noteq> Fault"
  by (simp add: decode_config_at_def JG_NETWORK_CONFIG_WIRE_SIZE_def network_config.decode_no_fault)

lemma state_encode_writes:
  assumes s: "network_state_valid s" and out0: "176 \<le> length out0"
  shows "jg_network_state_encode s out0 = Done (176, network_state_wire s @ drop 176 out0)"
proof -
  have cfg: "has_confirmed s \<Longrightarrow> network_config_valid (confirmed s)" "pending s \<Longrightarrow> network_config_valid (pending_config s)"
    using s by (auto simp: network_state_valid_def)
  define body where "body = blit (blit (blit (blit out0 0 (replicate 176 0)) 0 (u16_be NETWORK_STATE_VERSION))
      2 (u16_be (state_flags s))) 4 (u32_be (confirmation_seconds_remaining s))"
  define mid where "mid = (if has_confirmed s then blit body 8 (network_config_wire (confirmed s)) else body)"
  define out' where "out' = (if pending s then blit mid 92 (network_config_wire (pending_config s)) else mid)"
  have len: "length body = length out0" "length mid = length out0"
    using out0 cfg by (simp_all add: body_def mid_def length_network_config_wire)
  have "jg_network_state_encode s out0 = Done (176, out')"
    using s out0 cfg len unfolding jg_network_state_encode_def Let_def network_state_valid_def out'_def mid_def body_def
    by (auto simp: JG_NETWORK_STATE_WIRE_SIZE_def JG_NETWORK_CONFIG_WIRE_SIZE_def write_blit encode_config_at_value
        simp flip: network_config_valid_def)
  moreover have "out' = network_state_wire s @ drop 176 out0"
    using out0 cfg len unfolding out'_def network_state_wire_def append_assoc
    by (subst eq_append_iff)
      (auto simp: drop_eq_append length_config_slot length_network_config_wire slice_blit_other config_slot_def mid_def body_def
        slice_blit_inside slice_all simp flip: slice_0)
  ultimately show ?thesis by simp
qed

lemma state_encode_iff:
  "jg_network_state_encode s out0 = Done (n, out') \<longleftrightarrow> network_state_valid s
     \<and> length (network_state_wire s) \<le> length out0 \<and> n = length (network_state_wire s)
     \<and> out' = network_state_wire s @ drop n out0"
proof (cases "network_state_valid s \<and> 176 \<le> length out0")
  case False
  then have "jg_network_state_encode s out0 \<noteq> Done r" for r
    by (auto simp: jg_network_state_encode_def network_state_valid_def network_config_valid_def
        JG_NETWORK_STATE_WIRE_SIZE_def split: if_splits)
  then show ?thesis using False by (auto simp: length_network_state_wire)
qed (auto simp: state_encode_writes length_network_state_wire)

lemma state_decode_wire:
  assumes s: "network_state_valid s" "state_canonical s"
  shows "jg_network_state_decode (network_state_wire s) = Done s"
proof -
  let ?d = "network_state_wire s"
  have fields: "take 2 ?d = u16_be NETWORK_STATE_VERSION" "slice 2 2 ?d = u16_be (state_flags s)"
      "slice 4 4 ?d = u32_be (confirmation_seconds_remaining s)"
      "slice 8 84 ?d = config_slot (has_confirmed s) (confirmed s)" "slice 92 84 ?d = config_slot (pending s) (pending_config s)"
    using s by (simp_all add: network_state_wire_def slice_def length_config_slot network_state_valid_def)
  have reads: "jg_read_u16_be ?d 0 = Some NETWORK_STATE_VERSION" "jg_read_u16_be ?d 2 = Some (state_flags s)"
      "jg_read_u32_be ?d 4 = Some (confirmation_seconds_remaining s)"
    by (simp_all add: read_slice fields length_network_state_wire s)
  have configs: "decode_config_at (has_confirmed s) 8 ?d = Done (confirmed s)"
      "decode_config_at (pending s) 92 ?d = Done (pending_config s)"
    using s by (auto simp: decode_config_at_iff length_network_state_wire fields network_state_valid_def state_canonical_def)
  show ?thesis
    using s unfolding jg_network_state_decode_def
    by (auto simp: reads configs length_network_state_wire JG_NETWORK_STATE_WIRE_SIZE_def state_flags_bits
        network_state_valid_def)
qed

lemma state_decode_accepts:
  assumes d: "jg_network_state_decode data = Done s"
  shows "state_canonical s \<and> network_state_valid s \<and> data = network_state_wire s"
proof -
  have size: "length data = 176"
    using d by (auto simp: jg_network_state_decode_def JG_NETWORK_STATE_WIRE_SIZE_def split: if_splits)
  obtain flags where
    reads: "take 2 data = u16_be NETWORK_STATE_VERSION" "slice 2 2 data = u16_be flags"
      "slice 4 4 data = u32_be (confirmation_seconds_remaining s)"
    and flags: "flags AND NOT NETWORK_STATE_FLAG_ALL = 0" "has_confirmed s = (flags AND NETWORK_STATE_HAS_CONFIRMED \<noteq> 0)"
      "pending s = (flags AND NETWORK_STATE_HAS_PENDING \<noteq> 0)"
    and remaining: "\<not> pending s \<longrightarrow> confirmation_seconds_remaining s = 0"
    and configs: "decode_config_at (has_confirmed s) 8 data = Done (confirmed s)"
      "decode_config_at (pending s) 92 data = Done (pending_config s)"
    using d unfolding jg_network_state_decode_def by (auto simp: read_slice split: if_splits)
  have slots: "slice 8 84 data = config_slot (has_confirmed s) (confirmed s)"
      "slice 92 84 data = config_slot (pending s) (pending_config s)"
    and valid: "if has_confirmed s then network_config_valid (confirmed s) else confirmed s = cleared_config"
      "if pending s then network_config_valid (pending_config s) else pending_config s = cleared_config"
    using configs size by (simp_all add: decode_config_at_iff)
  have "data = network_state_wire s"
    unfolding network_state_wire_def state_flags_of_bits[OF flags] using reads slots size
    by (subst eq_append_iff) (simp add: drop_eq_append flip: slots, simp add: slice_def)
  then show ?thesis using valid remaining by (auto simp: network_state_valid_def state_canonical_def split: if_splits)
qed

interpretation network_state: wire_codec state_canonical network_state_valid network_state_wire
    jg_network_state_encode jg_network_state_decode
proof
  show "jg_network_state_encode s out0 = Done (n, out') \<longleftrightarrow> network_state_valid s
     \<and> length (network_state_wire s) \<le> length out0 \<and> n = length (network_state_wire s)
     \<and> out' = network_state_wire s @ drop n out0" for s out0 n out' by (rule state_encode_iff)
  show "jg_network_state_decode data = Done s \<longleftrightarrow> state_canonical s \<and> network_state_valid s \<and> data = network_state_wire s"
    for data s using state_decode_wire state_decode_accepts by blast
  show "jg_network_state_encode s out0 \<noteq> Fault" for s out0
  proof (cases "network_state_valid s \<and> 176 \<le> length out0")
    case False
    then show ?thesis by (auto simp: jg_network_state_encode_def network_state_valid_def network_config_valid_def
        JG_NETWORK_STATE_WIRE_SIZE_def split: if_splits)
  qed (simp add: state_encode_writes)
  show "jg_network_state_decode data \<noteq> Fault" for data
    by (auto simp: jg_network_state_decode_def JG_NETWORK_STATE_WIRE_SIZE_def decode_config_at_no_fault split: if_splits)
qed

section \<open>Properties\<close>

text \<open>
  C32. A configuration is accepted exactly when its four interface names are well-formed and pairwise
  different, the failure mode is defined, the MTU is unset or between 1280 and 65535, the queue length
  is in range, and the queue numbers are a range of at most 64 that fits into sixteen bits. The sum of
  the two 16-bit fields does not wrap.
\<close>

theorem jg_network_config_validate_exact:
  "jg_network_config_validate c = Inr () \<longleftrightarrow>
     (\<forall>name \<in> {bridge c, ingress c, egress c, management c}. name \<noteq> [] \<and> alphanumeric (name ! 0)
        \<and> length name \<le> 15 \<and> (\<forall>b \<in> set name. interface_character_valid b))
     \<and> distinct [bridge c, ingress c, egress c, management c]
     \<and> failure_mode c \<noteq> JG_NETWORK_FAIL_OTHER
     \<and> (bridge_mtu c = 0 \<or> unat (bridge_mtu c) \<in> {1280 .. 65535})
     \<and> unat (queue_count c) \<in> {1 .. 64} \<and> unat (queue_first c) + unat (queue_count c) \<le> 65536
     \<and> unat (queue_length c) \<in> {1 .. 1048576}"
proof -
  have add: "unat (ucast (queue_first c) + ucast (queue_count c) :: u32) = unat (queue_first c) + unat (queue_count c)"
  proof -
    have "unat (queue_first c) + unat (queue_count c) < 65536 + 65536" by (intro add_strict_mono) simp_all
    then show ?thesis by (simp add: unat_word_ariths unat_ucast_widen)
  qed
  have mode: "f \<noteq> JG_NETWORK_FAIL_OTHER \<longleftrightarrow> f = JG_NETWORK_FAIL_OPEN \<or> f = JG_NETWORK_FAIL_CLOSED" for f
    by (cases f) simp_all
  have zero: "(x = 0) = (unat x = 0)" for x :: "'a :: len word" by (simp add: unat_eq_0)
  show ?thesis
    unfolding jg_network_config_validate_def Let_def interface_name_valid_iff[symmetric] mode
    by (auto simp: word_less_nat_alt word_le_nat_alt add zero JG_NETWORK_QUEUE_COUNT_MAX_def JG_NETWORK_QUEUE_LENGTH_MAX_def
        interface_name_valid_iff)
qed

text \<open>
  C30. The network configuration round trips through its wire format: a body decodes to a
  configuration exactly when encoding the configuration gives back this body, encoding writes exactly
  that body, and no access leaves the buffers.
\<close>

theorem jg_network_config_contract:
  "(jg_network_config_decode data = Done c \<longleftrightarrow>
       jg_network_config_encode c (replicate (length data) 0) = Done (length data, data))
   \<and> (jg_network_config_encode c out = Done (n, out') \<longleftrightarrow>
        (\<exists>d. jg_network_config_decode d = Done c \<and> n = length d \<and> n \<le> length out \<and> out' = d @ drop n out))
   \<and> jg_network_config_decode data \<noteq> Fault \<and> jg_network_config_encode c out \<noteq> Fault"
  by (rule network_config.contract[OF TrueI])

text \<open>
  C31. The state of the network helper round trips through its wire format, with both, one or none
  of the two configurations present; the hypothesis is that an absent configuration is cleared.
\<close>

theorem jg_network_state_contract:
  assumes "state_canonical s"
  shows "(jg_network_state_decode data = Done s \<longleftrightarrow>
       jg_network_state_encode s (replicate (length data) 0) = Done (length data, data))
   \<and> (jg_network_state_encode s out = Done (n, out') \<longleftrightarrow>
        (\<exists>d. jg_network_state_decode d = Done s \<and> n = length d \<and> n \<le> length out \<and> out' = d @ drop n out))
   \<and> jg_network_state_decode data \<noteq> Fault \<and> jg_network_state_encode s out \<noteq> Fault"
  using assms by (rule network_state.contract)

definition example_config :: jg_network_config where
  "example_config = \<lparr>bridge = [0x62, 0x72, 0x30], ingress = [0x65, 0x30], egress = [0x65, 0x31], management = [0x6D, 0x30],
     bridge_mtu = 1500, queue_first = 0, queue_count = 4, queue_length = 4096, failure_mode = JG_NETWORK_FAIL_CLOSED,
     stp = False, multicast_snooping = True, queue_cpu_fanout = True\<rparr>"

definition example_state :: jg_network_state where
  "example_state = \<lparr>confirmed = cleared_config, pending_config = example_config, confirmation_seconds_remaining = 30,
     has_confirmed = False, pending = True\<rparr>"

theorem jg_network_config_validate_exact_witness:
  "distinct [bridge example_config, ingress example_config, egress example_config, management example_config]
    \<and> unat (queue_first example_config) + unat (queue_count example_config) \<le> 65536"
proof -
  have "jg_network_config_validate example_config = Inr ()" by code_simp
  then show ?thesis using jg_network_config_validate_exact[of example_config] by blast
qed

theorem jg_network_state_contract_witness:
  "\<exists>d. jg_network_state_decode d = Done example_state \<and> length d = 176"
proof -
  have canonical: "state_canonical example_state" by (simp add: state_canonical_def example_state_def)
  have "network_state_valid example_state"
    by (simp add: network_state_valid_def example_state_def network_config_valid_def, code_simp)
  then have "length (network_state_wire example_state) = 176"
      "jg_network_state_encode example_state (replicate 176 0) = Done (176, network_state_wire example_state)"
    by (simp_all add: state_encode_writes length_network_state_wire)
  then show ?thesis
    using jg_network_state_contract[OF canonical, of "network_state_wire example_state", THEN conjunct1] by auto
qed

end
