(* ===== verification/Netd.thy ===== *)
theory Netd
  imports Ipc Network Transitions
begin

text \<open>
  \<^verbatim>\<open>src/netd/transaction.c\<close> and the request dispatch of \<^verbatim>\<open>src/netd/server.c\<close>: the privileged network
  helper applies a bridge and packet-filter configuration as a transaction that must be confirmed
  within 120 seconds or is rolled back. The state is the static \<open>transaction\<close> object and the network
  state of the kernel, of type \<open>'k\<close>. What changes the kernel (\<^verbatim>\<open>bridge.c\<close>, \<^verbatim>\<open>nftables.c\<close>, over netlink and
  libnftables) and the monotonic clock are parameters.
\<close>

section \<open>State\<close>

definition JG_NETD_CONFIRM_TIMEOUT_SECONDS :: u64 where "JG_NETD_CONFIRM_TIMEOUT_SECONDS = 120"

text \<open>
  A checkpoint that \<open>jg_netd_apply_bridge\<close> returned is valid until \<open>jg_netd_restore_bridge\<close> consumes it
  or the transaction is cleared; \<open>None\<close> is a checkpoint that is not valid.
\<close>

record 'c transaction =
  checkpoint :: "'c option"
  current :: jg_network_config
  pending_network :: jg_network_config
  expires_at :: u64
  current_valid :: bool
  pending_valid :: bool

record ('k, 'c) kernel_ops =
  apply_bridge :: "jg_network_config \<Rightarrow> 'k \<Rightarrow> 'c result \<times> 'k"
  restore_bridge :: "'c \<Rightarrow> 'k \<Rightarrow> unit result \<times> 'k"
  apply_nft_rules :: "jg_network_config \<Rightarrow> 'k \<Rightarrow> unit result \<times> 'k"
  remove_nft_rules :: "'k \<Rightarrow> unit result \<times> 'k"
  validate_live_config :: "jg_network_config \<Rightarrow> 'k \<Rightarrow> unit result"

section \<open>Transactions\<close>

text \<open>The argument is what \<^verbatim>\<open>clock_gettime\<close> returns: its error or the seconds.\<close>

definition monotonic_seconds :: "int result \<Rightarrow> u64 result" where
  "monotonic_seconds clock = (case clock of Inl e \<Rightarrow> Inl e | Inr s \<Rightarrow> if s < 0 then Inl EIO else Inr (of_int s))"

definition clear_pending_transaction :: "'c transaction \<Rightarrow> 'c transaction" where
  "clear_pending_transaction t =
     t\<lparr>checkpoint := None, pending_network := cleared_config, expires_at := 0, pending_valid := False\<rparr>"

definition jg_netd_apply_network ::
  "('k, 'c) kernel_ops \<Rightarrow> int result \<Rightarrow> jg_network_config \<Rightarrow> 'c transaction \<times> 'k \<Rightarrow> unit result \<times> 'c transaction \<times> 'k" where
  "jg_netd_apply_network ops clock config = (\<lambda>(t, k).
     if pending_valid t then (Inl EBUSY, t, k)
     else case monotonic_seconds clock of
       Inl e \<Rightarrow> (Inl e, t, k)
     | Inr now \<Rightarrow>
         if now > - 1 - JG_NETD_CONFIRM_TIMEOUT_SECONDS then (Inl EOVERFLOW, t, k)
         else (case apply_bridge ops config k of
           (Inl e, k1) \<Rightarrow> (Inl e, t, k1)
         | (Inr c, k1) \<Rightarrow>
             (case apply_nft_rules ops config k1 of
               (Inl e, k2) \<Rightarrow>
                 (case restore_bridge ops c k2 of
                   (Inl _, k3) \<Rightarrow> (Inl EIO, t, k3)
                 | (Inr _, k3) \<Rightarrow> (Inl e, t, k3))
             | (Inr _, k2) \<Rightarrow>
                 (Inr (), t\<lparr>checkpoint := Some c, pending_network := config,
                           expires_at := now + JG_NETD_CONFIRM_TIMEOUT_SECONDS, pending_valid := True\<rparr>, k2))))"

definition jg_netd_confirm_network :: "'c transaction \<times> 'k \<Rightarrow> unit result \<times> 'c transaction \<times> 'k" where
  "jg_netd_confirm_network = (\<lambda>(t, k).
     if \<not> pending_valid t then (Inl EBUSY, t, k)
     else (Inr (), clear_pending_transaction (t\<lparr>current := pending_network t, current_valid := True\<rparr>), k))"

definition restore_checkpoint :: "('k, 'c) kernel_ops \<Rightarrow> 'c option \<Rightarrow> 'k \<Rightarrow> unit result \<times> 'k" where
  "restore_checkpoint ops c k = (case c of None \<Rightarrow> (Inl EINVAL, k) | Some c \<Rightarrow> restore_bridge ops c k)"

definition jg_netd_rollback_network ::
  "('k, 'c) kernel_ops \<Rightarrow> 'c transaction \<times> 'k \<Rightarrow> unit result \<times> 'c transaction \<times> 'k" where
  "jg_netd_rollback_network ops = (\<lambda>(t, k).
     if \<not> pending_valid t then (Inl EBUSY, t, k)
     else
       let (rules_result, k1) = (if current_valid t then apply_nft_rules ops (current t) k else remove_nft_rules ops k);
           (bridge_result, k2) = restore_checkpoint ops (checkpoint t) k1
       in if rules_result = Inr () \<and> bridge_result = Inr () then (Inr (), clear_pending_transaction t, k2)
          else if bridge_result = Inr () then (Inl EIO, clear_pending_transaction (t\<lparr>current_valid := False\<rparr>), k2)
          else (Inl EIO, t, k2))"

definition jg_netd_expire_network ::
  "('k, 'c) kernel_ops \<Rightarrow> int result \<Rightarrow> 'c transaction \<times> 'k \<Rightarrow> unit result \<times> 'c transaction \<times> 'k" where
  "jg_netd_expire_network ops clock = (\<lambda>(t, k).
     if \<not> pending_valid t then (Inr (), t, k)
     else case monotonic_seconds clock of
       Inl e \<Rightarrow> (Inl e, t, k)
     | Inr now \<Rightarrow> if now \<ge> expires_at t then jg_netd_rollback_network ops (t, k) else (Inr (), t, k))"

definition jg_netd_get_network_state :: "int result \<Rightarrow> 'c transaction \<Rightarrow> jg_network_state result" where
  "jg_netd_get_network_state clock t =
     (let base = \<lparr>confirmed = (if current_valid t then current t else cleared_config), pending_config = cleared_config,
                  confirmation_seconds_remaining = 0, has_confirmed = current_valid t, pending = False\<rparr>
      in if pending_valid t then
           (case monotonic_seconds clock of
             Inl e \<Rightarrow> Inl e
           | Inr now \<Rightarrow>
               let remaining = (if expires_at t > now then expires_at t - now else 0)
               in Inr (base\<lparr>pending_config := pending_network t,
                            confirmation_seconds_remaining := ucast remaining, pending := True\<rparr>))
         else Inr base)"

section \<open>Requests\<close>

definition body_error :: "errno \<Rightarrow> jg_ipc_error" where
  "body_error e =
     (if e = EPROTONOSUPPORT then JG_IPC_ERROR_VERSION
      else if e = EPROTO \<or> e = EMSGSIZE then JG_IPC_ERROR_MALFORMED
      else if e = EBUSY \<or> e = ENOENT then JG_IPC_ERROR_CONFLICT
      else if e \<in> {EINVAL, ERANGE, ENODEV, EEXIST, EACCES, EADDRINUSE} then JG_IPC_ERROR_INVALID
      else JG_IPC_ERROR_SYSTEM)"

definition result_error :: "unit result \<Rightarrow> jg_ipc_error" where
  "result_error r = (case r of Inl e \<Rightarrow> body_error e | Inr _ \<Rightarrow> JG_IPC_ERROR_NONE)"

text \<open>
  The dispatch, with the response body buffer as an argument. A fault of the codecs, which their
  contract excludes, stays a fault.
\<close>

definition network_request ::
  "('k, 'c) kernel_ops \<Rightarrow> int result \<Rightarrow> jg_ipc_message \<Rightarrow> 'c transaction \<times> 'k \<Rightarrow>
     (errno, jg_ipc_error \<times> 'c transaction \<times> 'k) run" where
  "network_request ops clock request s = (case jg_network_config_decode (ipc_body request) of
     Fault \<Rightarrow> Fault
   | Fail e \<Rightarrow> Done (body_error e, s)
   | Done config \<Rightarrow>
       if ipc_operation request = JG_IPC_NETWORK_VALIDATE
       then Done (result_error (validate_live_config ops config (snd s)), s)
       else let (r, s') = jg_netd_apply_network ops clock config s in Done (result_error r, s'))"

definition state_request ::
  "int result \<Rightarrow> bytes \<Rightarrow> 'c transaction \<Rightarrow> (errno, jg_ipc_error \<times> bytes) run" where
  "state_request clock body_buffer t = (case jg_netd_get_network_state clock t of
     Inl e \<Rightarrow> Done (body_error e, [])
   | Inr st \<Rightarrow> (case jg_network_state_encode st body_buffer of
       Fault \<Rightarrow> Fault
     | Fail e \<Rightarrow> Done (body_error e, [])
     | Done (encoded_size, out) \<Rightarrow> Done (JG_IPC_ERROR_NONE, take encoded_size out)))"

definition jg_netd_process_request ::
  "('k, 'c) kernel_ops \<Rightarrow> int result \<Rightarrow> jg_ipc_message \<Rightarrow> bytes \<Rightarrow> 'c transaction \<times> 'k \<Rightarrow>
     (errno, jg_ipc_message \<times> 'c transaction \<times> 'k) run" where
  "jg_netd_process_request ops clock request body_buffer s =
     (if ipc_request_id request = 0 \<or> operation_code (ipc_operation request) < operation_code JG_IPC_PING
         \<or> operation_code (ipc_operation request) > operation_code JG_IPC_SYSTEM_POWEROFF
         \<or> length (ipc_body request) > JG_IPC_MAX_BODY_SIZE
      then Fail EINVAL
      else
        let response = (\<lambda>err body. \<lparr>ipc_kind = JG_IPC_RESPONSE, ipc_operation = ipc_operation request,
              ipc_request_id = ipc_request_id request, ipc_error = err, ipc_body = body\<rparr>);
            oper = ipc_operation request
        in if ipc_kind request \<noteq> JG_IPC_REQUEST \<or> ipc_error request \<noteq> JG_IPC_ERROR_NONE
           then Done (response JG_IPC_ERROR_MALFORMED [], s)
           else if oper = JG_IPC_PING
           then Done (response (if ipc_body request \<noteq> [] then JG_IPC_ERROR_MALFORMED else JG_IPC_ERROR_NONE) [], s)
           else if oper = JG_IPC_NETWORK_VALIDATE \<or> oper = JG_IPC_NETWORK_APPLY
           then and_then (network_request ops clock request s) (\<lambda>(err, s'). Done (response err [], s'))
           else if oper = JG_IPC_NETWORK_CONFIRM \<or> oper = JG_IPC_NETWORK_ROLLBACK
           then (if ipc_body request \<noteq> [] then Done (response JG_IPC_ERROR_MALFORMED [], s)
                 else let (r, s') = (if oper = JG_IPC_NETWORK_CONFIRM then jg_netd_confirm_network s
                                     else jg_netd_rollback_network ops s)
                      in Done (response (result_error r) [], s'))
           else if oper = JG_IPC_NETWORK_STATE
           then (if ipc_body request \<noteq> [] then Done (response JG_IPC_ERROR_MALFORMED [], s)
                 else and_then (state_request clock body_buffer (fst s)) (\<lambda>(err, body). Done (response err body, s)))
           else if oper = JG_IPC_SYSTEM_REBOOT \<or> oper = JG_IPC_SYSTEM_POWEROFF
           then Done (response (if ipc_body request \<noteq> [] then JG_IPC_ERROR_MALFORMED else JG_IPC_ERROR_NONE) [], s)
           else Done (response JG_IPC_ERROR_UNSUPPORTED [], s))"

text \<open>
  The exchange of \<open>jg_netd_handle_connection\<close> between the received packet and the packet to send, for
  a peer with the given user identifier. The buffers are those of \<^verbatim>\<open>struct netd_connection_buffers\<close>.
\<close>

definition handle_packet ::
  "('k, 'c) kernel_ops \<Rightarrow> int result \<Rightarrow> nat \<Rightarrow> nat \<Rightarrow> bytes \<Rightarrow> 'c transaction \<times> 'k \<Rightarrow>
     (errno, bytes \<times> 'c transaction \<times> 'k) run" where
  "handle_packet ops clock allowed_uid peer_uid packet s =
     (if \<not> (peer_uid = 0 \<or> peer_uid = allowed_uid) then Fail EACCES
      else and_then (jg_ipc_decode packet) (\<lambda>request.
      and_then (jg_netd_process_request ops clock request (replicate JG_NETWORK_STATE_WIRE_SIZE 0) s) (\<lambda>(response, s').
      and_then (jg_ipc_encode response (replicate (JG_IPC_HEADER_SIZE + JG_IPC_MAX_BODY_SIZE) 0)) (\<lambda>(n, out).
      Done (take n out, s')))))"

section \<open>The invariant\<close>

definition transaction_ok :: "'c transaction \<Rightarrow> bool" where
  "transaction_ok t \<longleftrightarrow> (current_valid t \<longrightarrow> network_config_valid (current t))
     \<and> (if pending_valid t then checkpoint t \<noteq> None \<and> network_config_valid (pending_network t)
        else checkpoint t = None \<and> pending_network t = cleared_config \<and> expires_at t = 0)"

text \<open>The static object before the first request.\<close>

definition initial_transaction :: "'c transaction" where
  "initial_transaction = \<lparr>checkpoint = None, current = cleared_config, pending_network = cleared_config, expires_at = 0,
     current_valid = False, pending_valid = False\<rparr>"

datatype netd_action = Request jg_ipc_message "int result" bytes | Expire "int result"

fun netd_perform :: "('k, 'c) kernel_ops \<Rightarrow> netd_action \<Rightarrow> 'c transaction \<times> 'k \<Rightarrow> ('c transaction \<times> 'k) option" where
  "netd_perform ops (Request m clock buffer) s = (case jg_netd_process_request ops clock m buffer s of
     Fault \<Rightarrow> None | Fail e \<Rightarrow> Some s | Done (_, s') \<Rightarrow> Some s')"
| "netd_perform ops (Expire clock) s = Some (snd (jg_netd_expire_network ops clock s))"

lemma clear_pending_ok: "(current_valid t \<longrightarrow> network_config_valid (current t)) \<Longrightarrow> transaction_ok (clear_pending_transaction t)"
  by (simp add: transaction_ok_def clear_pending_transaction_def)

lemma apply_network_ok:
  assumes "transaction_ok t" "network_config_valid c" "jg_netd_apply_network ops clock c (t, k) = (r, t', k')"
  shows "transaction_ok t'"
  using assms by (auto simp: jg_netd_apply_network_def transaction_ok_def split: if_splits sum.splits prod.splits)

lemma confirm_network_ok:
  "transaction_ok t \<Longrightarrow> jg_netd_confirm_network (t, k) = (r, t', k') \<Longrightarrow> transaction_ok t'"
  by (auto simp: jg_netd_confirm_network_def transaction_ok_def clear_pending_transaction_def split: if_splits)

lemma rollback_network_ok:
  "transaction_ok t \<Longrightarrow> jg_netd_rollback_network ops (t, k) = (r, t', k') \<Longrightarrow> transaction_ok t'"
  by (auto simp: jg_netd_rollback_network_def Let_def split: if_splits prod.splits
      intro!: clear_pending_ok) (simp_all add: transaction_ok_def)

lemma expire_network_ok:
  "transaction_ok t \<Longrightarrow> jg_netd_expire_network ops clock (t, k) = (r, t', k') \<Longrightarrow> transaction_ok t'"
  by (auto simp: jg_netd_expire_network_def split: if_splits sum.splits intro: rollback_network_ok)

lemma network_request_ok:
  "transaction_ok t \<Longrightarrow> network_request ops clock m (t, k) = Done (e, t', k') \<Longrightarrow> transaction_ok t'"
  by (auto simp: network_request_def network_config.decode_iff split: run.splits if_splits prod.splits
      intro: apply_network_ok)

lemma process_request_ok:
  assumes "transaction_ok t" "jg_netd_process_request ops clock m buffer (t, k) = Done (r, t', k')"
  shows "transaction_ok t'"
  using assms unfolding jg_netd_process_request_def Let_def
  by (auto split: if_splits prod.splits intro: network_request_ok confirm_network_ok rollback_network_ok)

interpretation netd: transition_system "\<lambda>s. fst s = initial_transaction" "netd_perform ops" "\<lambda>s. transaction_ok (fst s)"
  for ops :: "('k, 'c) kernel_ops"
proof
  fix s :: "'c transaction \<times> 'k" assume "fst s = initial_transaction"
  then show "transaction_ok (fst s)" by (simp add: transaction_ok_def initial_transaction_def)
next
  fix s s' :: "'c transaction \<times> 'k" and a assume "transaction_ok (fst s)" "netd_perform ops a s = Some s'"
  then show "transaction_ok (fst s')"
    by (cases s; cases s'; cases a)
      (auto split: run.splits intro: process_request_ok, metis expire_network_ok prod.collapse)
qed

section \<open>Reporting\<close>

lemma monotonic_seconds_Inr: "0 \<le> s \<Longrightarrow> monotonic_seconds (Inr s) = Inr (of_int s)"
  by (simp add: monotonic_seconds_def)

lemma state_report:
  assumes ok: "transaction_ok t" and clock: "0 \<le> now"
  obtains st where "jg_netd_get_network_state (Inr now) t = Inr st" "network_state_valid st" "state_canonical st"
    "has_confirmed st = current_valid t" "current_valid t \<Longrightarrow> confirmed st = current t"
    "pending st = pending_valid t" "pending_valid t \<Longrightarrow> pending_config st = pending_network t"
    "pending_valid t \<Longrightarrow> confirmation_seconds_remaining st
       = ucast (if expires_at t > of_int now then expires_at t - of_int now else 0)"
proof -
  let ?r = "jg_netd_get_network_state (Inr now) t"
  have "?r \<noteq> Inl e" for e using clock by (simp add: jg_netd_get_network_state_def Let_def monotonic_seconds_Inr)
  then obtain st where st: "?r = Inr st" by (cases ?r) auto
  show ?thesis
    by (rule that[OF st])
      (use ok clock st in \<open>auto simp: jg_netd_get_network_state_def Let_def monotonic_seconds_Inr transaction_ok_def
        network_state_valid_def state_canonical_def split: if_splits\<close>)
qed

lemma state_request_answers:
  assumes "transaction_ok t" "0 \<le> now" "length buffer = 176"
  obtains st where "jg_netd_get_network_state (Inr now) t = Inr st" "state_canonical st" "network_state_valid st"
    "state_request (Inr now) buffer t = Done (JG_IPC_ERROR_NONE, network_state_wire st)"
proof -
  obtain st where st: "jg_netd_get_network_state (Inr now) t = Inr st" "network_state_valid st" "state_canonical st"
    using state_report[OF assms(1,2)] by blast
  then have "state_request (Inr now) buffer t = Done (JG_IPC_ERROR_NONE, network_state_wire st)"
    using assms(3) by (simp add: state_request_def state_encode_writes length_network_state_wire)
  then show ?thesis using that st by blast
qed

definition state_query :: "u64 \<Rightarrow> jg_ipc_message" where
  "state_query n = \<lparr>ipc_kind = JG_IPC_REQUEST, ipc_operation = JG_IPC_NETWORK_STATE, ipc_request_id = n,
     ipc_error = JG_IPC_ERROR_NONE, ipc_body = []\<rparr>"

text \<open>
  C15. The helper answers every state query, whatever requests it has served before: an authorised
  packet with a state query gets a packet back that decodes to an error-free response with the same
  identifier, whose body decodes to the confirmed configuration, the pending one and the seconds that
  remain, and the query changes nothing.
\<close>

theorem netd_state_query_answered:
  assumes "netd.reachable ops (t, k)" "n \<noteq> 0" "0 \<le> now" "jg_ipc_decode packet = Done (state_query n)"
    and "peer = 0 \<or> peer = allowed"
  shows "\<exists>reply resp st. handle_packet ops (Inr now) allowed peer packet (t, k) = Done (reply, t, k)
    \<and> jg_ipc_decode reply = Done resp \<and> ipc_request_id resp = n \<and> ipc_error resp = JG_IPC_ERROR_NONE
    \<and> jg_network_state_decode (ipc_body resp) = Done st \<and> jg_netd_get_network_state (Inr now) t = Inr st
    \<and> has_confirmed st = current_valid t \<and> pending st = pending_valid t"
proof -
  have ok: "transaction_ok t" using netd.reachable_invariant[OF assms(1)] by simp
  have len: "length (replicate JG_NETWORK_STATE_WIRE_SIZE 0 :: bytes) = 176"
    by (simp add: JG_NETWORK_STATE_WIRE_SIZE_def)
  obtain st where st: "jg_netd_get_network_state (Inr now) t = Inr st" "state_canonical st" "network_state_valid st"
      "state_request (Inr now) (replicate JG_NETWORK_STATE_WIRE_SIZE 0) t = Done (JG_IPC_ERROR_NONE, network_state_wire st)"
    using state_request_answers[OF ok assms(3) len] by blast
  define resp where "resp = \<lparr>ipc_kind = JG_IPC_RESPONSE, ipc_operation = JG_IPC_NETWORK_STATE, ipc_request_id = n,
      ipc_error = JG_IPC_ERROR_NONE, ipc_body = network_state_wire st\<rparr>"
  have process: "jg_netd_process_request ops (Inr now) (state_query n) (replicate JG_NETWORK_STATE_WIRE_SIZE 0) (t, k)
      = Done (resp, t, k)"
    using assms(2) st(4) by (simp add: jg_netd_process_request_def state_query_def resp_def JG_IPC_MAX_BODY_SIZE_def)
  have valid: "ipc_valid resp"
    using assms(2) st(3) by (simp add: ipc_valid_iff resp_def length_network_state_wire)
  have "length (ipc_wire resp) \<le> 65564"
    using st(3) by (simp add: length_ipc_wire resp_def length_network_state_wire)
  then have "handle_packet ops (Inr now) allowed peer packet (t, k) = Done (ipc_wire resp, t, k)"
    using assms(4,5) process valid
    by (auto simp: handle_packet_def ipc_encode_writes JG_IPC_HEADER_SIZE_def JG_IPC_MAX_BODY_SIZE_def)
  moreover have "jg_network_state_decode (ipc_body resp) = Done st"
    using st by (simp add: resp_def state_decode_wire)
  ultimately show ?thesis
    using st ok assms(3) ipc_decode_wire[OF valid] by (auto simp: resp_def elim: state_report)
qed

section \<open>The deadline\<close>

lemma apply_network_done:
  assumes "jg_netd_apply_network ops clock c (t, k) = (Inr u, t', k')"
  obtains ck k1 now where "\<not> pending_valid t" "monotonic_seconds clock = Inr now" "now \<le> - 1 - JG_NETD_CONFIRM_TIMEOUT_SECONDS"
    "apply_bridge ops c k = (Inr ck, k1)" "apply_nft_rules ops c k1 = (Inr (), k')"
    "t' = t\<lparr>checkpoint := Some ck, pending_network := c, expires_at := now + JG_NETD_CONFIRM_TIMEOUT_SECONDS, pending_valid := True\<rparr>"
  using assms by (auto simp: jg_netd_apply_network_def split: if_splits sum.splits prod.splits)

text \<open>
  C14. The deadline: an apply that succeeds at a given second is pending until 120 seconds later, with
  no wrap-around of the deadline; polled before that the helper changes nothing, polled then or later
  it rolls back, and it reports between zero and 120 seconds that remain.
\<close>

theorem netd_deadline:
  assumes step: "jg_netd_apply_network ops (Inr start) c (t, k) = (Inr (), t', k')"
    and time: "0 \<le> start" "start \<le> now" "now < 2 ^ 63"
  shows "unat (expires_at t') = nat start + 120
    \<and> jg_netd_expire_network ops (Inr now) (t', k')
        = (if now < start + 120 then (Inr (), t', k') else jg_netd_rollback_network ops (t', k'))
    \<and> (\<exists>st. jg_netd_get_network_state (Inr now) t' = Inr st \<and> pending st \<and> pending_config st = c
         \<and> unat (confirmation_seconds_remaining st) = nat (start + 120 - now))"
proof -
  let ?now = "of_int now :: u64" let ?start = "of_int start :: u64"
  have start: "unat ?start = nat start" and now: "unat ?now = nat now"
    using time by (simp_all add: unat_eq_nat_uint uint_word_of_int take_bit_int_eq_self)
  obtain ck where t': "t' = t\<lparr>checkpoint := Some ck, pending_network := c,
      expires_at := ?start + JG_NETD_CONFIRM_TIMEOUT_SECONDS, pending_valid := True\<rparr>"
    using step time by (auto elim!: apply_network_done simp: monotonic_seconds_Inr)
  have "nat start < 2 ^ 63" using time by simp
  then have deadline: "unat (?start + 120) = nat start + 120"
    by (simp add: unat_word_ariths start)
  have due: "?now \<ge> ?start + 120 \<longleftrightarrow> \<not> now < start + 120"
    using time by (simp add: word_le_nat_alt deadline now) linarith
  have remaining: "unat (ucast (if ?start + 120 > ?now then ?start + 120 - ?now else 0) :: u32) = nat (start + 120 - now)"
  proof (cases "now < start + 120")
    case True
    then have "?start + 120 > ?now" using due by (simp add: not_le)
    moreover from this have "unat (?start + 120 - ?now) = nat (start + 120 - now)"
      using time True by (simp add: unat_sub deadline now nat_diff_distrib order_less_imp_le nat_add_distrib)
    moreover have "nat (start + 120 - now) < 2 ^ 32" using time by simp
    ultimately show ?thesis by (simp add: unsigned_ucast_eq take_bit_nat_eq_self)
  next
    case False
    then have "\<not> ?start + 120 > ?now" using due by (simp add: not_less)
    then show ?thesis using False by simp
  qed
  show ?thesis
    using time due remaining
    by (auto simp: t' deadline jg_netd_expire_network_def jg_netd_get_network_state_def Let_def monotonic_seconds_Inr
        JG_NETD_CONFIRM_TIMEOUT_SECONDS_def)
qed

section \<open>A concrete kernel\<close>

text \<open>The links are the configuration applied last, a checkpoint is the one before, and every call succeeds.\<close>

type_synonym example_kernel = "jg_network_config option \<times> jg_network_config option"

definition example_ops :: "(example_kernel, jg_network_config option) kernel_ops" where
  "example_ops = \<lparr>apply_bridge = (\<lambda>c (l, r). (Inr l, (Some c, r))), restore_bridge = (\<lambda>l (_, r). (Inr (), (l, r))),
     apply_nft_rules = (\<lambda>c (l, r). (Inr (), (l, Some c))), remove_nft_rules = (\<lambda>(l, r). (Inr (), (l, None))),
     validate_live_config = (\<lambda>_ _. Inr ())\<rparr>"

abbreviation "example_start \<equiv> (initial_transaction, (None, None) :: example_kernel)"

lemma example_start_reachable: "netd.reachable example_ops example_start"
  by (rule netd.start) simp

definition example_pending :: "jg_network_config option transaction" where
  "example_pending = initial_transaction\<lparr>checkpoint := Some None, pending_network := example_config, expires_at := 1120,
     pending_valid := True\<rparr>"

lemma example_apply: "jg_netd_apply_network example_ops (Inr 1000) example_config example_start
    = (Inr (), example_pending, (Some example_config, Some example_config))"
  by (simp add: jg_netd_apply_network_def example_ops_def monotonic_seconds_def initial_transaction_def example_pending_def
      JG_NETD_CONFIRM_TIMEOUT_SECONDS_def)

theorem netd_state_query_answered_witness:
  "\<exists>reply. handle_packet example_ops (Inr 5) 100 100 (ipc_wire (state_query 7)) example_start
    = Done (reply, example_start)"
proof -
  have "jg_ipc_decode (ipc_wire (state_query 7)) = Done (state_query 7)"
    by (intro ipc_decode_wire) (simp add: ipc_valid_iff state_query_def)
  then show ?thesis
    using netd_state_query_answered[OF example_start_reachable, of 7 5 "ipc_wire (state_query 7)" 100 100] by auto
qed

theorem netd_deadline_witness:
  "jg_netd_expire_network example_ops (Inr 1119) (example_pending, (Some example_config, Some example_config))
     = (Inr (), example_pending, (Some example_config, Some example_config))
   \<and> jg_netd_expire_network example_ops (Inr 1120) (example_pending, (Some example_config, Some example_config))
     = jg_netd_rollback_network example_ops (example_pending, (Some example_config, Some example_config))"
  using netd_deadline[OF example_apply, of 1119] netd_deadline[OF example_apply, of 1120] by simp

end
