(* ===== verification/Access.thy ===== *)
theory Access
  imports Checked
begin

text \<open>
  \<^verbatim>\<open>src/common/access.c\<close>: role permissions and the scope lists of API tokens. A scope list is a C string,
  the bytes before its terminator.
\<close>

section \<open>Vocabulary\<close>

definition JG_ACCESS_SCOPE_TEXT_MAX :: nat where "JG_ACCESS_SCOPE_TEXT_MAX = 192"
definition JG_ACCESS_PERMISSION_ALL :: u32 where "JG_ACCESS_PERMISSION_ALL = 0xFFF"

datatype jg_access_role =
  JG_ACCESS_ROLE_NONE | JG_ACCESS_ROLE_ADMINISTRATOR | JG_ACCESS_ROLE_OPERATOR | JG_ACCESS_ROLE_AUDITOR
| JG_ACCESS_ROLE_OTHER

text \<open>The enumerators of \<open>jg_access_permission\<close>, one bit each.\<close>

abbreviation JG_ACCESS_STATUS_READ :: u32 where "JG_ACCESS_STATUS_READ \<equiv> 0x001"
abbreviation JG_ACCESS_POLICY_READ :: u32 where "JG_ACCESS_POLICY_READ \<equiv> 0x002"
abbreviation JG_ACCESS_POLICY_WRITE :: u32 where "JG_ACCESS_POLICY_WRITE \<equiv> 0x004"
abbreviation JG_ACCESS_EVENTS_READ :: u32 where "JG_ACCESS_EVENTS_READ \<equiv> 0x008"
abbreviation JG_ACCESS_AUDIT_READ :: u32 where "JG_ACCESS_AUDIT_READ \<equiv> 0x010"
abbreviation JG_ACCESS_OPERATE :: u32 where "JG_ACCESS_OPERATE \<equiv> 0x020"
abbreviation JG_ACCESS_NETWORK_WRITE :: u32 where "JG_ACCESS_NETWORK_WRITE \<equiv> 0x040"
abbreviation JG_ACCESS_ACCESS_WRITE :: u32 where "JG_ACCESS_ACCESS_WRITE \<equiv> 0x080"
abbreviation JG_ACCESS_SECURITY_WRITE :: u32 where "JG_ACCESS_SECURITY_WRITE \<equiv> 0x100"
abbreviation JG_ACCESS_BACKUPS_WRITE :: u32 where "JG_ACCESS_BACKUPS_WRITE \<equiv> 0x200"
abbreviation JG_ACCESS_SYSTEM_WRITE :: u32 where "JG_ACCESS_SYSTEM_WRITE \<equiv> 0x400"
abbreviation JG_ACCESS_METRICS_READ :: u32 where "JG_ACCESS_METRICS_READ \<equiv> 0x800"

definition scope_definitions :: "(bytes \<times> u32) list" where
  "scope_definitions = [
     (str ''status:read'', JG_ACCESS_STATUS_READ),
     (str ''policy:read'', JG_ACCESS_POLICY_READ),
     (str ''policy:write'', JG_ACCESS_POLICY_WRITE),
     (str ''events:read'', JG_ACCESS_EVENTS_READ),
     (str ''audit:read'', JG_ACCESS_AUDIT_READ),
     (str ''operate'', JG_ACCESS_OPERATE),
     (str ''network:write'', JG_ACCESS_NETWORK_WRITE),
     (str ''access:write'', JG_ACCESS_ACCESS_WRITE),
     (str ''security:write'', JG_ACCESS_SECURITY_WRITE),
     (str ''backups:write'', JG_ACCESS_BACKUPS_WRITE),
     (str ''system:write'', JG_ACCESS_SYSTEM_WRITE),
     (str ''metrics:read'', JG_ACCESS_METRICS_READ)]"

section \<open>Operations\<close>

fun jg_access_role_permissions :: "jg_access_role \<Rightarrow> u32" where
  "jg_access_role_permissions JG_ACCESS_ROLE_ADMINISTRATOR = JG_ACCESS_PERMISSION_ALL"
| "jg_access_role_permissions JG_ACCESS_ROLE_OPERATOR =
     JG_ACCESS_STATUS_READ OR JG_ACCESS_POLICY_READ OR JG_ACCESS_POLICY_WRITE OR JG_ACCESS_EVENTS_READ
     OR JG_ACCESS_OPERATE OR JG_ACCESS_METRICS_READ"
| "jg_access_role_permissions JG_ACCESS_ROLE_AUDITOR =
     JG_ACCESS_STATUS_READ OR JG_ACCESS_POLICY_READ OR JG_ACCESS_EVENTS_READ OR JG_ACCESS_AUDIT_READ
     OR JG_ACCESS_METRICS_READ"
| "jg_access_role_permissions JG_ACCESS_ROLE_NONE = 0"
| "jg_access_role_permissions JG_ACCESS_ROLE_OTHER = 0"

fun find_scope_in :: "(bytes \<times> u32) list \<Rightarrow> bytes \<Rightarrow> u32" where
  "find_scope_in [] name = 0"
| "find_scope_in ((n, permission) # rest) name = (if length n = length name \<and> n = name then permission else find_scope_in rest name)"

definition find_scope :: "bytes \<Rightarrow> u32" where
  "find_scope name = find_scope_in scope_definitions name"

function scope_size :: "bytes \<Rightarrow> nat \<Rightarrow> nat \<Rightarrow> nat" where
  "scope_size chars off n = (if off + n < length chars \<and> chars ! (off + n) \<noteq> 0x2C then scope_size chars off (n + 1) else n)"
  by pat_completeness auto
termination by (relation "measure (\<lambda>(chars, off, n). length chars - (off + n))") auto

function scope_loop :: "bytes \<Rightarrow> nat \<Rightarrow> u32 \<Rightarrow> u32 result" where
  "scope_loop chars off parsed =
     (if off < length chars then
        let size = scope_size chars off 0; permission = find_scope (slice off size chars) in
        if permission = 0 \<or> parsed AND permission \<noteq> 0 then Inl EINVAL
        else if off + size < length chars then
          (if off + size + 1 = length chars then Inl EINVAL
           else scope_loop chars (off + size + 1) (parsed OR permission))
        else scope_loop chars (off + size) (parsed OR permission)
      else Inr parsed)"
  by pat_completeness auto
termination by (relation "measure (\<lambda>(chars, off, parsed). length chars - off)") auto

definition jg_access_scope_parse :: "bytes \<Rightarrow> u32 result" where
  "jg_access_scope_parse chars =
     (if length chars = 0 \<or> length chars > JG_ACCESS_SCOPE_TEXT_MAX then Inl EINVAL else scope_loop chars 0 0)"

definition append_text :: "bytes \<Rightarrow> nat \<Rightarrow> bytes \<Rightarrow> (errno, (nat \<times> bytes) result) run" where
  "append_text out0 off chars =
     (if length chars \<ge> length out0 \<or> off > length out0 - length chars - 1 then Done (Inl ENOSPC)
      else and_then (raw (store_at out0 off chars)) (\<lambda>out1.
           and_then (raw (store_at out1 (off + length chars) [0])) (\<lambda>out2.
           Done (Inr (off + length chars, out2)))))"

text \<open>
  The loop of \<open>jg_access_scope_format\<close>: the result is an error or the output after it. A failed append
  leaves the output as it was.
\<close>

fun format_loop :: "(bytes \<times> u32) list \<Rightarrow> u32 \<Rightarrow> nat \<Rightarrow> bytes \<Rightarrow> (errno, unit result \<times> bytes) run" where
  "format_loop [] permissions off out0 = Done (Inr (), out0)"
| "format_loop ((name, permission) # rest) permissions off out0 =
     (if permissions AND permission = 0 then format_loop rest permissions off out0
      else and_then (if off \<noteq> 0 then append_text out0 off [0x2C] else Done (Inr (off, out0))) (\<lambda>r.
        case r of Inl e \<Rightarrow> Done (Inl e, out0)
        | Inr (off1, out1) \<Rightarrow> and_then (append_text out1 off1 name) (\<lambda>r'.
            case r' of Inl e \<Rightarrow> Done (Inl e, out1)
            | Inr (off2, out2) \<Rightarrow> format_loop rest permissions off2 out2)))"

definition jg_access_scope_format :: "u32 \<Rightarrow> bytes \<Rightarrow> (errno, unit result \<times> bytes) run" where
  "jg_access_scope_format permissions out0 =
     (if length out0 = 0 \<or> permissions = 0 \<or> permissions AND NOT JG_ACCESS_PERMISSION_ALL \<noteq> 0 then Done (Inl EINVAL, out0)
      else and_then (raw (store_at out0 0 [0])) (\<lambda>out1.
           and_then (format_loop scope_definitions permissions 0 out1) (\<lambda>(r, out2).
           case r of Inr _ \<Rightarrow> Done (r, out2) | Inl e \<Rightarrow> and_then (raw (store_at out2 0 [0])) (\<lambda>out3. Done (r, out3)))))"

definition jg_access_grants :: "u32 \<Rightarrow> u32 \<Rightarrow> bool" where
  "jg_access_grants granted required \<longleftrightarrow> required \<noteq> 0
     \<and> (granted OR required) AND NOT JG_ACCESS_PERMISSION_ALL = 0 \<and> granted AND required = required"

declare scope_size.simps [simp del] scope_loop.simps [simp del]

section \<open>Scope lists\<close>

text \<open>The reference: names joined by commas, and the union of their permissions.\<close>

fun join :: "bytes list \<Rightarrow> bytes" where
  "join [] = []"
| "join [x] = x"
| "join (x # y # xs) = x @ [0x2C] @ join (y # xs)"

definition scope_names :: "bytes set" where
  "scope_names = set (map fst scope_definitions)"

definition permissions_of :: "bytes list \<Rightarrow> u32" where
  "permissions_of names = foldr (\<lambda>n p. find_scope n OR p) names 0"

lemma scope_size_value: "off + n \<le> length chars \<Longrightarrow>
    scope_size chars off n = n + length (takeWhile (\<lambda>b. b \<noteq> 0x2C) (drop (off + n) chars))"
proof (induction chars off n rule: scope_size.induct)
  case (1 chars off n)
  show ?case
  proof (cases "off + n < length chars")
    case True
    then have "drop (off + n) chars = chars ! (off + n) # drop (off + (n + 1)) chars"
      by (metis Cons_nth_drop_Suc add.assoc Suc_eq_plus1)
    then show ?thesis using 1 True by (subst scope_size.simps) simp
  next
    case False
    then show ?thesis using 1(2) by (subst scope_size.simps) simp
  qed
qed

lemma scope_facts:
  "(\<forall>(n, p) \<in> set scope_definitions. n \<noteq> [] \<and> 0x2C \<notin> set n \<and> 0 \<notin> set n \<and> p \<noteq> 0)"
  "distinct (map fst scope_definitions)" "distinct (map snd scope_definitions)"
  by code_simp+

section \<open>Parsing\<close>

text \<open>The list split at its commas, and the permissions collected field by field.\<close>

function fields :: "bytes \<Rightarrow> bytes list" where
  "fields s = (case dropWhile (\<lambda>b. b \<noteq> 0x2C) s of [] \<Rightarrow> [s] | _ # rest \<Rightarrow> takeWhile (\<lambda>b. b \<noteq> 0x2C) s # fields rest)"
  by pat_completeness auto
termination
proof (relation "measure length")
  fix s rest :: bytes and b assume "dropWhile (\<lambda>b. b \<noteq> 0x2C) s = b # rest"
  then show "(rest, s) \<in> measure length"
    using length_dropWhile_le[of "\<lambda>b. b \<noteq> 0x2C" s] by simp
qed simp

declare fields.simps [simp del]

fun accumulate :: "bytes list \<Rightarrow> u32 \<Rightarrow> u32 result" where
  "accumulate [] parsed = Inr parsed"
| "accumulate (n # ns) parsed =
     (if find_scope n = 0 \<or> parsed AND find_scope n \<noteq> 0 then Inl EINVAL else accumulate ns (parsed OR find_scope n))"

lemma find_scope_nil: "find_scope [] = 0"
  by code_simp

lemma scope_loop_fields: "off < length chars \<Longrightarrow> scope_loop chars off parsed = accumulate (fields (drop off chars)) parsed"
proof (induction chars off parsed rule: scope_loop.induct)
  case (1 chars off parsed)
  let ?s = "drop off chars" let ?n = "length (takeWhile (\<lambda>b. b \<noteq> 0x2C) ?s)"
  have size: "scope_size chars off 0 = ?n" using 1(3) by (subst scope_size_value) simp_all
  have name: "slice off ?n chars = takeWhile (\<lambda>b. b \<noteq> 0x2C) ?s" by (simp add: slice_def takeWhile_eq_take[symmetric])
  have rest: "dropWhile (\<lambda>b. b \<noteq> 0x2C) ?s = drop (off + ?n) chars" by (simp add: dropWhile_eq_drop add.commute)
  have le: "off + ?n \<le> length chars" using 1(3) length_takeWhile_le[of "\<lambda>b. b \<noteq> 0x2C" ?s] by simp
  show ?case
  proof (cases "off + ?n < length chars")
    case True
    then have drop: "drop (off + ?n) chars = chars ! (off + ?n) # drop (off + ?n + 1) chars" by (simp add: Cons_nth_drop_Suc)
    have split: "fields ?s = takeWhile (\<lambda>b. b \<noteq> 0x2C) ?s # fields (drop (off + ?n + 1) chars)"
      by (subst fields.simps) (simp add: rest drop del: drop_drop)
    have final: "fields [] = [[]]" by (simp add: fields.simps)
    show ?thesis
      using 1(1)[OF 1(3) size[symmetric] refl] 1(3) True unfolding split
      by (subst scope_loop.simps) (auto simp: Let_def size name find_scope_nil final)
  next
    case False
    then have stop: "off + ?n = length chars" using le by simp
    have whole: "takeWhile (\<lambda>b. b \<noteq> 0x2C) ?s = ?s"
      using rest stop by (simp add: dropWhile_eq_Nil_conv takeWhile_eq_all_conv)
    have single: "fields ?s = [?s]" by (subst fields.simps) (simp add: rest stop)
    have finish: "scope_loop chars (length chars) q = Inr q" for q by (subst scope_loop.simps) simp
    have "slice off (length chars - off) chars = ?s" by (simp add: slice_def)
    then show ?thesis
      using 1(3) by (subst scope_loop.simps) (simp add: Let_def size single finish whole)
  qed
qed

lemma no_comma_takeWhile: "0x2C \<notin> set x \<Longrightarrow> takeWhile (\<lambda>b. b \<noteq> 0x2C) (x @ 0x2C # rest) = x"
    "0x2C \<notin> set x \<Longrightarrow> dropWhile (\<lambda>b. b \<noteq> 0x2C) (x @ 0x2C # rest) = 0x2C # rest"
  by (auto simp: takeWhile_append dropWhile_append)

lemma fields_join: "names \<noteq> [] \<Longrightarrow> \<forall>x \<in> set names. (0x2C :: u8) \<notin> set x \<Longrightarrow> fields (join names) = names"
proof (induction names rule: join.induct)
  case (2 x)
  then have none: "dropWhile (\<lambda>b. b \<noteq> 0x2C) x = []" by auto
  show ?case by (subst fields.simps) (simp add: none)
next
  case (3 x y xs)
  then show ?case by (subst fields.simps) (simp add: no_comma_takeWhile)
qed simp

lemma join_fields: "join (fields s) = s"
proof (induction s rule: fields.induct)
  case (1 s)
  show ?case
  proof (cases "dropWhile (\<lambda>b. b \<noteq> 0x2C) s")
    case Nil
    show ?thesis by (subst fields.simps) (simp add: Nil)
  next
    case (Cons b rest)
    then have b: "b = 0x2C" using hd_dropWhile[of "\<lambda>b. b \<noteq> 0x2C" s] by auto
    have "fields rest \<noteq> []" by (subst fields.simps) (simp split: list.splits)
    then have "join (x # fields rest) = x @ 0x2C # join (fields rest)" for x
      by (cases "fields rest") simp_all
    then show ?thesis
      using 1[OF Cons] Cons b takeWhile_dropWhile_id[of "\<lambda>b. b \<noteq> 0x2C" s] by (subst fields.simps) simp
  qed
qed

lemma find_scope_in_iff: "find_scope_in defs n \<noteq> 0 \<Longrightarrow> (n, find_scope_in defs n) \<in> set defs"
  by (induction defs n rule: find_scope_in.induct) (auto split: if_splits)

lemma find_scope_in_hit: "distinct (map fst defs) \<Longrightarrow> (n, p) \<in> set defs \<Longrightarrow> find_scope_in defs n = p"
  by (induction defs n rule: find_scope_in.induct) (auto intro: rev_image_eqI)

lemma find_scope_iff: "find_scope n \<noteq> 0 \<longleftrightarrow> n \<in> scope_names"
proof
  assume "find_scope n \<noteq> 0"
  then show "n \<in> scope_names"
    using find_scope_in_iff[of scope_definitions n] by (force simp: find_scope_def scope_names_def)
next
  assume "n \<in> scope_names"
  then obtain p where p: "(n, p) \<in> set scope_definitions" by (auto simp: scope_names_def)
  then have "p \<noteq> 0" using scope_facts(1) by blast
  then show "find_scope n \<noteq> 0" using find_scope_in_hit[OF scope_facts(2) p] by (simp add: find_scope_def)
qed

lemma scope_bits: "\<forall>x \<in> set scope_definitions. \<forall>y \<in> set scope_definitions. snd x AND snd y \<noteq> 0 \<longrightarrow> fst x = fst y"
  by code_simp

lemma find_scope_disjoint:
  assumes "m \<in> scope_names" "n \<in> scope_names"
  shows "find_scope m AND find_scope n \<noteq> 0 \<longleftrightarrow> m = n"
proof -
  have "(m, find_scope m) \<in> set scope_definitions" "(n, find_scope n) \<in> set scope_definitions"
    using assms find_scope_iff find_scope_in_iff[of scope_definitions] by (auto simp: find_scope_def)
  then show ?thesis using scope_bits find_scope_iff assms by fastforce
qed

lemma or_and_zero: "((a :: u32) OR b) AND c = 0 \<longleftrightarrow> a AND c = 0 \<and> b AND c = 0"
  by (auto simp: bit_eq_iff bit_simps)

lemma accumulate_iff:
  "accumulate names parsed = Inr p \<longleftrightarrow> set names \<subseteq> scope_names \<and> distinct names
     \<and> (\<forall>n \<in> set names. parsed AND find_scope n = 0) \<and> p = parsed OR permissions_of names"
proof (induction names parsed rule: accumulate.induct)
  case (2 n ns parsed)
  show ?case
  proof (cases "n \<in> scope_names \<and> parsed AND find_scope n = 0")
    case True
    have "(\<forall>m \<in> set ns. (parsed OR find_scope n) AND find_scope m = 0)
        \<longleftrightarrow> (\<forall>m \<in> set ns. parsed AND find_scope m = 0) \<and> n \<notin> set ns" if "set ns \<subseteq> scope_names"
      using that True find_scope_disjoint[of n] by (auto simp: or_and_zero)
    then show ?thesis using 2 True find_scope_iff
      by (auto simp: permissions_of_def or.assoc)
  next
    case False
    then show ?thesis using find_scope_iff[of n] by auto
  qed
qed (auto simp: permissions_of_def)

lemma scope_names_plain: "n \<in> scope_names \<Longrightarrow> n \<noteq> [] \<and> 0x2C \<notin> set n \<and> 0 \<notin> set n"
proof -
  assume "n \<in> scope_names"
  then obtain p where "(n, p) \<in> set scope_definitions" by (auto simp: scope_names_def)
  then show ?thesis using scope_facts(1) by blast
qed

text \<open>
  C34. The scope parser accepts exactly the lists, at most 192 bytes long, of one or more names of the
  vocabulary, all different, in any order, separated by single commas, and returns the union of their
  permissions; everything else is refused with \<open>EINVAL\<close>.
\<close>

theorem jg_access_scope_parse_exact:
  "jg_access_scope_parse chars =
     (if \<exists>names. names \<noteq> [] \<and> distinct names \<and> set names \<subseteq> scope_names \<and> chars = join names \<and> length chars \<le> 192
      then Inr (permissions_of (fields chars)) else Inl EINVAL)"
proof -
  have error: "accumulate names q = Inl e \<Longrightarrow> e = EINVAL" for names q e
    by (induction names q rule: accumulate.induct) (auto split: if_splits)
  have nil: "join names \<noteq> []" if "names \<noteq> []" "set names \<subseteq> scope_names" for names
    using that scope_names_plain by (cases names rule: join.cases) auto
  have split: "(\<exists>names. names \<noteq> [] \<and> distinct names \<and> set names \<subseteq> scope_names \<and> chars = join names \<and> length chars \<le> 192)
      \<longleftrightarrow> chars \<noteq> [] \<and> length chars \<le> 192 \<and> distinct (fields chars) \<and> set (fields chars) \<subseteq> scope_names"
    using nil fields_join scope_names_plain join_fields[of chars]
    by (metis (no_types, lifting) fields.elims join.simps(1) subsetD)
  show ?thesis
    unfolding split using error[of "fields chars" 0] accumulate_iff[of "fields chars" 0]
    by (cases "accumulate (fields chars) 0") (auto simp: jg_access_scope_parse_def JG_ACCESS_SCOPE_TEXT_MAX_def scope_loop_fields)
qed

section \<open>Formatting\<close>

text \<open>The names of a mask in the order of the vocabulary.\<close>

definition names_in :: "(bytes \<times> u32) list \<Rightarrow> u32 \<Rightarrow> bytes list" where
  "names_in defs permissions = map fst (filter (\<lambda>(n, p). permissions AND p \<noteq> 0) defs)"

definition with_commas :: "bytes list \<Rightarrow> bytes" where
  "with_commas names = concat (map (\<lambda>n. 0x2C # n) names)"

lemma join_Cons: "join (n # ns) = n @ with_commas ns"
  by (induction ns arbitrary: n) (simp_all add: with_commas_def)

lemma names_in_Cons [simp]:
  "names_in ((n, p) # defs) permissions = (if permissions AND p \<noteq> 0 then [n] else []) @ names_in defs permissions"
  by (simp add: names_in_def)

text \<open>The output holds a string: its bytes, then the terminator.\<close>

definition holds :: "bytes \<Rightarrow> bytes \<Rightarrow> bool" where
  "holds out0 s \<longleftrightarrow> length s < length out0 \<and> take (length s) out0 = s \<and> out0 ! length s = 0"

lemma append_text_value:
  assumes "holds out0 s"
  shows "if length s + length chars < length out0
    then \<exists>out1. append_text out0 (length s) chars = Done (Inr (length (s @ chars), out1)) \<and> holds out1 (s @ chars)
      \<and> length out1 = length out0
    else append_text out0 (length s) chars = Done (Inl ENOSPC)"
proof (cases "length s + length chars < length out0")
  case True
  let ?out = "blit (blit out0 (length s) chars) (length s + length chars) [0]"
  have "append_text out0 (length s) chars = Done (Inr (length s + length chars, ?out))"
    using True by (simp add: append_text_def)
  moreover have "?out = s @ chars @ [0] @ drop (length s + length chars + 1) out0"
    using True assms by (simp add: holds_def blit_def)
  ultimately show ?thesis using True by (auto simp: holds_def nth_append)
next
  case False
  then show ?thesis using assms by (auto simp: append_text_def holds_def)
qed

definition formatted :: "nat \<Rightarrow> bytes \<Rightarrow> (errno, unit result \<times> bytes) run \<Rightarrow> bool" where
  "formatted k s m \<longleftrightarrow> (\<exists>r out1. m = Done (r, out1) \<and> length out1 = k
     \<and> (if length s < k then r = Inr () \<and> holds out1 s else r = Inl ENOSPC))"

lemma formatted_no_space: "length out1 = k \<Longrightarrow> k \<le> length s \<Longrightarrow> formatted k s (Done (Inl ENOSPC, out1))"
  by (auto simp: formatted_def)

lemma format_tail:
  assumes "holds out0 s" "s \<noteq> []"
  shows "formatted (length out0) (s @ with_commas (names_in defs permissions)) (format_loop defs permissions (length s) out0)"
  using assms
proof (induction defs arbitrary: out0 s)
  case Nil
  then show ?case by (auto simp: names_in_def with_commas_def formatted_def holds_def)
next
  case (Cons d defs)
  obtain n p where d: "d = (n, p)" by (cases d)
  show ?case
  proof (cases "permissions AND p = 0")
    case True
    then show ?thesis using Cons by (simp add: d)
  next
    case False
    let ?ns = "names_in defs permissions"
    have tail: "with_commas (n # ?ns) = 0x2C # n @ with_commas ?ns" by (simp add: with_commas_def)
    show ?thesis
    proof (cases "length s + 1 < length out0")
      case comma: True
      then obtain out1 where out1: "append_text out0 (length s) [0x2C] = Done (Inr (length (s @ [0x2C]), out1))"
          "holds out1 (s @ [0x2C])" "length out1 = length out0"
        using append_text_value[OF Cons.prems(1), of "[0x2C]"] by auto
      show ?thesis
      proof (cases "length s + 1 + length n < length out0")
        case True
        then obtain out2 where out2: "append_text out1 (length (s @ [0x2C])) n = Done (Inr (length ((s @ [0x2C]) @ n), out2))"
            "holds out2 ((s @ [0x2C]) @ n)" "length out2 = length out0"
          using append_text_value[OF out1(2), of n] out1(3) by auto
        then show ?thesis using Cons.IH[OF out2(2)] False Cons.prems out1 by (simp add: d tail)
      next
        case no_name: False
        then show ?thesis
          using append_text_value[OF out1(2), of n] False Cons.prems out1 by (simp add: d tail formatted_no_space)
      qed
    next
      case no_comma: False
      then show ?thesis
        using append_text_value[OF Cons.prems(1), of "[0x2C]"] False Cons.prems by (simp add: d tail formatted_no_space)
    qed
  qed
qed

lemma format_first:
  assumes "holds out0 []" "\<forall>(n, p) \<in> set defs. n \<noteq> []"
  shows "formatted (length out0) (join (names_in defs permissions)) (format_loop defs permissions 0 out0)"
  using assms
proof (induction defs)
  case Nil
  then show ?case by (auto simp: names_in_def formatted_def holds_def)
next
  case (Cons d defs)
  obtain n p where d: "d = (n, p)" by (cases d)
  show ?case
  proof (cases "permissions AND p = 0")
    case True
    then show ?thesis using Cons by (simp add: d)
  next
    case False
    show ?thesis
    proof (cases "length n < length out0")
      case True
      then obtain out1 where out1: "append_text out0 0 n = Done (Inr (length n, out1))" "holds out1 n" "length out1 = length out0"
        using append_text_value[OF Cons.prems(1), of n] by auto
      then show ?thesis using format_tail[OF out1(2), of defs permissions] False Cons.prems(2) by (simp add: d join_Cons)
    next
      case no_space: False
      then show ?thesis
        using append_text_value[OF Cons.prems(1), of n] False by (simp add: d join_Cons formatted_no_space)
    qed
  qed
qed

text \<open>Every permission is one bit, and the bits of the vocabulary are exactly the defined ones.\<close>

lemma scope_permissions: "map snd scope_definitions = map (\<lambda>i. 2 ^ i) [0..<12]"
  by code_simp

lemma and_single_bit: "(if (x :: u32) AND 2 ^ i \<noteq> 0 then 2 ^ i else 0) = x AND 2 ^ i"
  by (cases "bit x i") (auto intro!: bit_word_eqI simp: bit_simps and_exp_eq_0_iff_not_bit)

lemma permissions_of_names:
  assumes "set defs \<subseteq> set scope_definitions"
  shows "permissions_of (names_in defs x) = x AND foldr (OR) (map snd defs) 0"
  using assms
proof (induction defs)
  case (Cons d defs)
  obtain n p where d: "d = (n, p)" by (cases d)
  then have p: "find_scope n = p" "p \<in> set (map snd scope_definitions)"
    using Cons.prems find_scope_in_hit[OF scope_facts(2)] by (force simp: find_scope_def)+
  then obtain i where "p = 2 ^ i" unfolding scope_permissions by auto
  then have bit: "(if x AND p \<noteq> 0 then p else 0) = x AND p" by (simp only: and_single_bit)
  have "permissions_of (names_in (d # defs) x) = (if x AND p \<noteq> 0 then p else 0) OR permissions_of (names_in defs x)"
    by (simp add: d p permissions_of_def)
  then show ?case using Cons bit by (simp add: d bit.conj_disj_distrib)
qed (simp add: names_in_def permissions_of_def)

lemma permissions_of_canonical:
  "x AND NOT JG_ACCESS_PERMISSION_ALL = 0 \<Longrightarrow> permissions_of (names_in scope_definitions x) = x"
proof -
  assume x: "x AND NOT JG_ACCESS_PERMISSION_ALL = 0"
  have "foldr (OR) (map snd scope_definitions) 0 = JG_ACCESS_PERMISSION_ALL" by code_simp
  moreover have "x AND JG_ACCESS_PERMISSION_ALL = x"
  proof -
    have "x = x AND (JG_ACCESS_PERMISSION_ALL OR NOT JG_ACCESS_PERMISSION_ALL)" by simp
    also have "\<dots> = x AND JG_ACCESS_PERMISSION_ALL" using x by (simp only: bit.conj_disj_distrib or.right_neutral)
    finally show ?thesis by simp
  qed
  ultimately show ?thesis by (simp add: permissions_of_names)
qed

lemma length_with_commas: "length (with_commas names) = (\<Sum>n \<leftarrow> names. length n + 1)"
  by (induction names) (simp_all add: with_commas_def)

lemma length_join_le: "length (join names) \<le> (\<Sum>n \<leftarrow> names. length n + 1)"
  by (cases names) (simp_all add: join_Cons length_with_commas)

lemma length_canonical: "length (join (names_in scope_definitions x)) \<le> 150"
proof -
  have "(\<Sum>n \<leftarrow> names_in defs x. length n + 1) \<le> (\<Sum>d \<leftarrow> defs. length (fst d) + 1)" for defs
    by (induction defs) (auto simp: names_in_def)
  also have "(\<Sum>d \<leftarrow> scope_definitions. length (fst d) + 1) = 150" by code_simp
  finally show ?thesis using length_join_le order_trans by blast
qed

lemma names_in_canonical:
  "distinct (names_in scope_definitions x)" "set (names_in scope_definitions x) \<subseteq> scope_names"
  using scope_facts(2) by (auto simp: names_in_def scope_names_def distinct_map_filter)

lemma canonical_not_empty: "x \<noteq> 0 \<Longrightarrow> x AND NOT JG_ACCESS_PERMISSION_ALL = 0 \<Longrightarrow> names_in scope_definitions x \<noteq> []"
  using permissions_of_canonical[of x] by (auto simp: permissions_of_def)

lemma parse_join:
  assumes "names \<noteq> []" "distinct names" "set names \<subseteq> scope_names" "length (join names) \<le> 192"
  shows "jg_access_scope_parse (join names) = Inr (permissions_of names)"
proof -
  have "join names \<noteq> []" using assms scope_names_plain by (cases names) (auto simp: join_Cons)
  moreover have "fields (join names) = names" using assms scope_names_plain by (intro fields_join) auto
  moreover have "accumulate names 0 = Inr (permissions_of names)" using assms by (simp add: accumulate_iff)
  ultimately show ?thesis
    using assms by (simp add: jg_access_scope_parse_def JG_ACCESS_SCOPE_TEXT_MAX_def scope_loop_fields)
qed

lemma holds_no_nul: "holds out0 s \<Longrightarrow> 0 \<notin> set s \<Longrightarrow> takeWhile (\<lambda>b. b \<noteq> 0) out0 = s"
proof -
  assume "holds out0 s" "0 \<notin> set s"
  then have "out0 = s @ 0 # drop (length s + 1) out0"
    unfolding holds_def by (metis id_take_nth_drop Suc_eq_plus1)
  then show ?thesis using \<open>0 \<notin> set s\<close> by (metis (mono_tags, lifting) append_Nil2 takeWhile.simps(2) takeWhile_append2)
qed

lemma join_no_nul: "set names \<subseteq> scope_names \<Longrightarrow> 0 \<notin> set (join names)"
  using scope_names_plain by (induction names rule: join.induct) auto

text \<open>
  C35. Formatting and parsing scopes are inverse: a non-empty mask of defined permissions has a
  canonical text that parses back to the mask; formatting into any output stores exactly that text as
  a C string when it fits, and otherwise reports \<open>ENOSPC\<close> and leaves the empty string, without an access
  outside the output.
\<close>

theorem jg_access_scope_round_trip:
  assumes "permissions \<noteq> 0" "permissions AND NOT JG_ACCESS_PERMISSION_ALL = 0" "out0 \<noteq> []"
  shows "\<exists>canonical out1. jg_access_scope_parse canonical = Inr permissions
    \<and> jg_access_scope_format permissions out0 =
        Done (if length canonical < length out0 then Inr () else Inl ENOSPC, out1)
    \<and> length out1 = length out0
    \<and> takeWhile (\<lambda>b. b \<noteq> 0) out1 = (if length canonical < length out0 then canonical else [])"
proof -
  let ?names = "names_in scope_definitions permissions" let ?s = "join ?names" let ?out = "blit out0 0 [0]"
  have parse: "jg_access_scope_parse ?s = Inr permissions"
    using parse_join[OF canonical_not_empty[OF assms(1,2)] names_in_canonical] length_canonical[of permissions]
    by (simp add: permissions_of_canonical assms(2))
  have nul: "0 \<notin> set ?s" by (rule join_no_nul[OF names_in_canonical(2)])
  have start: "holds ?out []" "length ?out = length out0" using assms(3) by (auto simp: holds_def blit_def Suc_le_eq)
  have names: "\<forall>(n, p) \<in> set scope_definitions. n \<noteq> []" using scope_facts(1) by blast
  obtain r out1 where loop: "format_loop scope_definitions permissions 0 ?out = Done (r, out1)" "length out1 = length out0"
      "if length ?s < length out0 then r = Inr () \<and> holds out1 ?s else r = Inl ENOSPC"
    using format_first[OF start(1) names, of permissions] start(2) unfolding formatted_def by auto
  show ?thesis
  proof (cases "length ?s < length out0")
    case True
    then have "jg_access_scope_format permissions out0 = Done (Inr (), out1)" "takeWhile (\<lambda>b. b \<noteq> 0) out1 = ?s"
      using loop assms nul holds_no_nul by (auto simp: jg_access_scope_format_def Suc_le_eq)
    then show ?thesis using parse loop(2) True by auto
  next
    case False
    then have "jg_access_scope_format permissions out0 = Done (Inl ENOSPC, blit out1 0 [0])"
      using loop assms by (simp add: jg_access_scope_format_def Suc_le_eq)
    moreover have "takeWhile (\<lambda>b. b \<noteq> 0) (blit out1 0 [0]) = []" by (simp add: blit_def)
    moreover have "length (blit out1 0 [0]) = length out0" using loop(2) assms(3) by (simp add: Suc_le_eq)
    ultimately show ?thesis using parse False by auto
  qed
qed

theorem jg_access_scope_round_trip_witness:
  "\<exists>out1. jg_access_scope_format 0x006 (replicate 32 0) = Done (Inr (), out1)
    \<and> takeWhile (\<lambda>b. b \<noteq> 0) out1 = str ''policy:read,policy:write''"
proof -
  have fmt: "(case jg_access_scope_format 0x006 (replicate 32 0) of Done (r, out1) \<Rightarrow>
      r = Inr () \<and> takeWhile (\<lambda>b. b \<noteq> 0) out1 = str ''policy:read,policy:write'' | _ \<Rightarrow> False)"
    by code_simp
  have mask: "(0x006 :: u32) AND NOT JG_ACCESS_PERMISSION_ALL = 0" by (simp add: JG_ACCESS_PERMISSION_ALL_def)
  show ?thesis
    using jg_access_scope_round_trip[OF _ mask, of "replicate 32 0"] fmt by (auto split: run.splits if_splits)
qed

text \<open>
  C36. Authorisation: a request is granted exactly when it needs at least one permission, every bit it
  needs is granted, and both masks consist of defined permissions. An operator and an auditor have
  permissions of the administrator only, neither can write access, network, security, backup or system
  state, an auditor cannot write anything, and no other role has any permission.
\<close>

theorem jg_access_grants_exact:
  "(jg_access_grants granted required \<longleftrightarrow> required \<noteq> 0 \<and> {i. bit required i} \<subseteq> {i. bit granted i}
      \<and> {i. bit granted i} \<subseteq> {..< 12})
   \<and> jg_access_grants (jg_access_role_permissions JG_ACCESS_ROLE_ADMINISTRATOR) (jg_access_role_permissions JG_ACCESS_ROLE_OPERATOR)
   \<and> jg_access_grants (jg_access_role_permissions JG_ACCESS_ROLE_ADMINISTRATOR) (jg_access_role_permissions JG_ACCESS_ROLE_AUDITOR)
   \<and> list_all (\<lambda>p. \<not> jg_access_grants (jg_access_role_permissions JG_ACCESS_ROLE_OPERATOR) p)
       [JG_ACCESS_NETWORK_WRITE, JG_ACCESS_ACCESS_WRITE, JG_ACCESS_SECURITY_WRITE, JG_ACCESS_BACKUPS_WRITE, JG_ACCESS_SYSTEM_WRITE]
   \<and> list_all (\<lambda>p. \<not> jg_access_grants (jg_access_role_permissions JG_ACCESS_ROLE_AUDITOR) p)
       [JG_ACCESS_POLICY_WRITE, JG_ACCESS_OPERATE, JG_ACCESS_NETWORK_WRITE, JG_ACCESS_ACCESS_WRITE,
        JG_ACCESS_SECURITY_WRITE, JG_ACCESS_BACKUPS_WRITE, JG_ACCESS_SYSTEM_WRITE]
   \<and> \<not> jg_access_grants (jg_access_role_permissions JG_ACCESS_ROLE_NONE) required
   \<and> \<not> jg_access_grants (jg_access_role_permissions JG_ACCESS_ROLE_OTHER) required"
proof -
  have all: "JG_ACCESS_PERMISSION_ALL = mask 12" by (simp add: JG_ACCESS_PERMISSION_ALL_def mask_eq_exp_minus_1)
  have "(granted OR required) AND NOT (mask 12) = 0 \<longleftrightarrow> (\<forall>i. bit granted i \<or> bit required i \<longrightarrow> i < 12)"
    using bit_imp_le_length[of granted] bit_imp_le_length[of required] by (auto simp: bit_eq_iff bit_simps)
  moreover have "granted AND required = required \<longleftrightarrow> (\<forall>i. bit required i \<longrightarrow> bit granted i)"
    using bit_imp_le_length[of required] by (auto simp: bit_eq_iff bit_simps)
  ultimately show ?thesis
    by (auto simp: jg_access_grants_def all) (simp_all add: mask_eq_exp_minus_1)
qed

end
