(* ===== verification/Tls.thy ===== *)
theory Tls
  imports Domain
begin

text \<open>
  \<^verbatim>\<open>src/common/tls_client_hello.c\<close>: the incremental parser for the first TLS handshake message of a flow.
  The three buffers of the parser are the bytes collected in them, so that their size fields are the
  lengths of the lists; what lies behind those bytes in the C arrays is never read. A function that
  returns a boolean and fills the \<open>hello\<close> is a run that fails with the \<open>hello\<close> it leaves behind.
\<close>

section \<open>State\<close>

definition TLS_CONTENT_HANDSHAKE :: u8 where "TLS_CONTENT_HANDSHAKE = 22"
definition TLS_HANDSHAKE_CLIENT_HELLO :: u8 where "TLS_HANDSHAKE_CLIENT_HELLO = 1"
definition TLS_EXTENSION_SERVER_NAME :: u16 where "TLS_EXTENSION_SERVER_NAME = 0"
definition TLS_EXTENSION_ENCRYPTED_CLIENT_HELLO :: u16 where "TLS_EXTENSION_ENCRYPTED_CLIENT_HELLO = 0xFE0D"
definition CLIENT_HELLO_PREFIX_SIZE :: nat where "CLIENT_HELLO_PREFIX_SIZE = 34"
definition JG_TLS_CLIENT_HELLO_MAX :: nat where "JG_TLS_CLIENT_HELLO_MAX = 16384"
definition JG_TLS_RECORD_PAYLOAD_MAX :: nat where "JG_TLS_RECORD_PAYLOAD_MAX = 18432"
definition JG_TLS_RECORD_COUNT_MAX :: nat where "JG_TLS_RECORD_COUNT_MAX = 64"

datatype jg_tls_client_hello_result =
    JG_TLS_CLIENT_HELLO_MORE | JG_TLS_CLIENT_HELLO_COMPLETE | JG_TLS_CLIENT_HELLO_NOT_CLIENT_HELLO
  | JG_TLS_CLIENT_HELLO_MALFORMED | JG_TLS_CLIENT_HELLO_TOO_LARGE | CLIENT_HELLO_OTHER nat

record jg_tls_client_hello =
  has_server_name :: bool
  encrypted_client_hello :: bool
  server_name :: bytes

definition cleared_hello :: jg_tls_client_hello where
  "cleared_hello = \<lparr>has_server_name = False, encrypted_client_hello = False, server_name = []\<rparr>"

record jg_tls_client_hello_parser =
  record_header :: bytes
  handshake_header :: bytes
  hello_body :: bytes
  record_remaining :: nat
  record_count :: nat
  hello_body_size :: nat
  terminal :: jg_tls_client_hello_result
  hello :: jg_tls_client_hello

section \<open>The ClientHello body\<close>

definition read_byte :: "bytes \<Rightarrow> nat \<Rightarrow> u8 option" where
  "read_byte data off = (if off \<ge> length data then None else Some (data ! off))"

text \<open>The loop of \<open>normalize_server_name\<close>, with the bytes stored so far.\<close>

fun lower_name :: "bytes \<Rightarrow> bytes \<Rightarrow> (bytes, bytes) run" where
  "lower_name [] stored = Done stored"
| "lower_name (b # bs) stored =
     (let v = (if b \<ge> 0x41 \<and> b \<le> 0x5A then b + (0x61 - 0x41) else b) in
      if v > 0x7F \<or> v = 0 then Fail stored else lower_name bs (stored @ [v]))"

definition normalize_server_name :: "bytes \<Rightarrow> (bytes, bytes) run" where
  "normalize_server_name name =
     (if length name = 0 \<or> length name > JG_DOMAIN_NAME_MAX then Fail []
      else and_then (lower_name name []) (\<lambda>out.
        if \<not> jg_domain_is_normalized out then Fail [] else Done out))"

function server_name_loop :: "bytes \<Rightarrow> nat \<Rightarrow> jg_tls_client_hello \<Rightarrow> (jg_tls_client_hello, jg_tls_client_hello) run" where
  "server_name_loop data off h =
     (if off < length data then
        (case (read_byte data off, jg_read_u16_be data (off + 1)) of
          (Some name_type, Some name_size) \<Rightarrow>
            if name_size = 0 \<or> unat name_size > length data - off - 3 then Fail h
            else if name_type = 0 then
              (if has_server_name h then Fail h
               else and_then (raw (bytes_at data (off + 3) (unat name_size))) (\<lambda>name.
                 case normalize_server_name name of
                   Fault \<Rightarrow> Fault
                 | Fail stored \<Rightarrow> Fail (h\<lparr>server_name := stored\<rparr>)
                 | Done out \<Rightarrow>
                     server_name_loop data (off + (3 + unat name_size)) (h\<lparr>server_name := out, has_server_name := True\<rparr>)))
            else server_name_loop data (off + (3 + unat name_size)) h
        | _ \<Rightarrow> Fail h)
      else if off = length data then Done h else Fail h)"
  by pat_completeness auto
termination by (relation "measure (\<lambda>(data, off, h). length data - off)") auto

definition parse_server_name_extension :: "bytes \<Rightarrow> jg_tls_client_hello \<Rightarrow> (jg_tls_client_hello, jg_tls_client_hello) run" where
  "parse_server_name_extension data h =
     (if length data < 2 then Fail h
      else case jg_read_u16_be data 0 of
        None \<Rightarrow> Fail h
      | Some list_size \<Rightarrow>
          if unat list_size \<noteq> length data - 2 \<or> list_size = 0 then Fail h else server_name_loop data 2 h)"

function extensions_loop :: "bytes \<Rightarrow> nat \<Rightarrow> bool \<Rightarrow> jg_tls_client_hello \<Rightarrow> (jg_tls_client_hello, jg_tls_client_hello) run" where
  "extensions_loop data off saw h =
     (if off < length data then
        (case (jg_read_u16_be data off, jg_read_u16_be data (off + 2)) of
          (Some extension_type, Some extension_size) \<Rightarrow>
            if unat extension_size > length data - off - 4 then Fail h
            else if extension_type = TLS_EXTENSION_SERVER_NAME then
              (if saw then Fail h
               else and_then (raw (bytes_at data (off + 4) (unat extension_size))) (\<lambda>ext.
                 and_then (parse_server_name_extension ext h) (\<lambda>h'.
                 extensions_loop data (off + (4 + unat extension_size)) True h')))
            else extensions_loop data (off + (4 + unat extension_size)) saw
                   (if extension_type = TLS_EXTENSION_ENCRYPTED_CLIENT_HELLO then h\<lparr>encrypted_client_hello := True\<rparr> else h)
        | _ \<Rightarrow> Fail h)
      else if off = length data then Done h else Fail h)"
  by pat_completeness auto
termination by (relation "measure (\<lambda>(data, off, saw, h). length data - off)") auto

definition parse_extensions :: "bytes \<Rightarrow> jg_tls_client_hello \<Rightarrow> (jg_tls_client_hello, jg_tls_client_hello) run" where
  "parse_extensions data h = extensions_loop data 0 False h"

definition parse_client_hello :: "bytes \<Rightarrow> (jg_tls_client_hello, jg_tls_client_hello) run" where
  "parse_client_hello body = (let h = cleared_hello; off = CLIENT_HELLO_PREFIX_SIZE in
     if length body < CLIENT_HELLO_PREFIX_SIZE + 1 then Fail h
     else and_then (raw (byte_at body 0)) (\<lambda>b0. and_then (raw (byte_at body 1)) (\<lambda>b1.
     if b0 \<noteq> 0x03 \<or> b1 \<noteq> 0x03 then Fail h
     else and_then (or_fail h (read_byte body off)) (\<lambda>session_size.
     if session_size > 32 \<or> unat session_size > length body - off - 1 then Fail h
     else let off = off + (1 + unat session_size) in
       and_then (or_fail h (jg_read_u16_be body off)) (\<lambda>cipher_suites_size.
       if cipher_suites_size < 2 \<or> cipher_suites_size AND 1 \<noteq> 0 \<or> unat cipher_suites_size > length body - off - 2 then Fail h
       else let off = off + (2 + unat cipher_suites_size) in
         and_then (or_fail h (read_byte body off)) (\<lambda>compression_size.
         if compression_size = 0 \<or> unat compression_size > length body - off - 1 then Fail h
         else let off = off + (1 + unat compression_size) in
           if off = length body then Done h
           else and_then (or_fail h (jg_read_u16_be body off)) (\<lambda>extensions_size.
             if unat extensions_size \<noteq> length body - off - 2 then Fail h
             else and_then (raw (bytes_at body (off + 2) (unat extensions_size))) (\<lambda>extensions.
               parse_extensions extensions h))))))))"

declare server_name_loop.simps [simp del] extensions_loop.simps [simp del]

section \<open>Records and handshake headers\<close>

definition terminal_result :: "jg_tls_client_hello_parser \<Rightarrow> jg_tls_client_hello_result \<Rightarrow> jg_tls_client_hello_parser" where
  "terminal_result p r = p\<lparr>terminal := r\<rparr>"

definition activate_record :: "jg_tls_client_hello_parser \<Rightarrow> jg_tls_client_hello_parser" where
  "activate_record p =
     (if record_count p \<ge> JG_TLS_RECORD_COUNT_MAX then terminal_result p JG_TLS_CLIENT_HELLO_TOO_LARGE
      else case jg_read_u16_be (record_header p) 3 of
        None \<Rightarrow> terminal_result p JG_TLS_CLIENT_HELLO_MALFORMED
      | Some record_size \<Rightarrow>
          if record_header p ! 0 \<noteq> TLS_CONTENT_HANDSHAKE \<or> record_header p ! 1 \<noteq> 0x03
             \<or> record_header p ! 2 < 0x01 \<or> record_header p ! 2 > 0x03
             \<or> record_size = 0 \<or> unat record_size > JG_TLS_RECORD_PAYLOAD_MAX
          then terminal_result p JG_TLS_CLIENT_HELLO_MALFORMED
          else p\<lparr>record_header := [], record_remaining := unat record_size, record_count := record_count p + 1\<rparr>)"

definition activate_handshake :: "jg_tls_client_hello_parser \<Rightarrow> jg_tls_client_hello_parser" where
  "activate_handshake p =
     (let size = (push_bit 16 (ucast (handshake_header p ! 1)) OR push_bit 8 (ucast (handshake_header p ! 2))
                  OR ucast (handshake_header p ! 3) :: u32) in
      if handshake_header p ! 0 \<noteq> TLS_HANDSHAKE_CLIENT_HELLO then terminal_result p JG_TLS_CLIENT_HELLO_NOT_CLIENT_HELLO
      else if size = 0 then terminal_result p JG_TLS_CLIENT_HELLO_MALFORMED
      else if unat size > JG_TLS_CLIENT_HELLO_MAX then terminal_result p JG_TLS_CLIENT_HELLO_TOO_LARGE
      else p\<lparr>hello_body_size := unat size\<rparr>)"

text \<open>
  \<open>copy_available\<close> into a buffer of the given capacity: the bytes that are copied. The subtraction and the
  copy are faults when they leave the buffer.
\<close>

definition copy_available :: "nat \<Rightarrow> nat \<Rightarrow> nat \<Rightarrow> bytes \<Rightarrow> nat \<Rightarrow> nat \<Rightarrow> (unit, bytes) run" where
  "copy_available capacity received required data off available =
     (if received > required then Fault
      else let copied = (if available < required - received then available else required - received) in
        if received + copied > capacity then Fault else raw (bytes_at data off copied))"

section \<open>Feeding\<close>

definition jg_tls_client_hello_parser_init :: jg_tls_client_hello_parser where
  "jg_tls_client_hello_parser_init = \<lparr>record_header = [], handshake_header = [], hello_body = [], record_remaining = 0,
     record_count = 0, hello_body_size = 0, terminal = JG_TLS_CLIENT_HELLO_MORE, hello = cleared_hello\<rparr>"

text \<open>
  One iteration of the loop in three parts, each on the state and the offset; the flag of the second
  says whether the iteration goes on to the body.
\<close>

type_synonym feed_state = "jg_tls_client_hello_parser \<times> nat"

definition feed_record :: "bytes \<Rightarrow> feed_state \<Rightarrow> (unit, feed_state) run" where
  "feed_record data = (\<lambda>(p, off).
     and_then (copy_available 5 (length (record_header p)) 5 data off (length data - off)) (\<lambda>copied.
       let p' = p\<lparr>record_header := record_header p @ copied\<rparr>
       in Done (if length (record_header p') < 5 then p' else activate_record p', off + length copied)))"

definition feed_handshake :: "bytes \<Rightarrow> feed_state \<Rightarrow> (unit, feed_state) run" where
  "feed_handshake data = (\<lambda>(p, off).
     let available = (if length data - off > record_remaining p then record_remaining p else length data - off) in
     and_then (copy_available 4 (length (handshake_header p)) 4 data off available) (\<lambda>copied.
       let p' = p\<lparr>handshake_header := handshake_header p @ copied, record_remaining := record_remaining p - length copied\<rparr>
       in Done (if length (handshake_header p') < 4 then p' else activate_handshake p', off + length copied)))"

definition feed_body :: "bytes \<Rightarrow> feed_state \<Rightarrow> (unit, feed_state) run" where
  "feed_body data = (\<lambda>(p, off).
     let available = (if length data - off > record_remaining p then record_remaining p else length data - off) in
     and_then
       (if length (hello_body p) < hello_body_size p
        then and_then (copy_available JG_TLS_CLIENT_HELLO_MAX (length (hello_body p)) (hello_body_size p) data off available)
          (\<lambda>copied. Done (p\<lparr>hello_body := hello_body p @ copied, record_remaining := record_remaining p - length copied\<rparr>,
                          off + length copied))
        else Done (p, off)) (\<lambda>(p, off).
       if length (hello_body p) = hello_body_size p
       then (case parse_client_hello (hello_body p) of
               Fault \<Rightarrow> Fault
             | Fail h \<Rightarrow> Done (p\<lparr>hello := h, terminal := JG_TLS_CLIENT_HELLO_MALFORMED\<rparr>, off)
             | Done h \<Rightarrow> Done (p\<lparr>hello := h, terminal := JG_TLS_CLIENT_HELLO_COMPLETE\<rparr>, off))
       else Done (p, off)))"

text \<open>
  The iteration. A part that is not complete, and a part that ends the parsing, end the iteration: the
  loop condition then decides in the same way as \<^verbatim>\<open>break\<close> and \<^verbatim>\<open>continue\<close> do, because an incomplete part
  has used all the data or, for the handshake header, all of the record.
\<close>

definition feed_iteration :: "bytes \<Rightarrow> feed_state \<Rightarrow> (unit, feed_state) run" where
  "feed_iteration data s =
     and_then (if record_remaining (fst s) = 0 then feed_record data s else Done s) (\<lambda>s1.
     if record_remaining (fst s) = 0 \<and> (record_header (fst s1) \<noteq> [] \<or> terminal (fst s1) \<noteq> JG_TLS_CLIENT_HELLO_MORE)
     then Done s1
     else and_then (if length (handshake_header (fst s1)) < 4 then feed_handshake data s1 else Done s1) (\<lambda>s2.
     if length (handshake_header (fst s2)) < 4 \<or> terminal (fst s2) \<noteq> JG_TLS_CLIENT_HELLO_MORE then Done s2
     else feed_body data s2))"

text \<open>
  The loop, with one round of fuel for every byte and one to leave; the invariant below shows that a
  round uses at least one byte, so the fuel does not run out.
\<close>

fun feed_loop :: "nat \<Rightarrow> bytes \<Rightarrow> feed_state \<Rightarrow> (unit, feed_state) run" where
  "feed_loop 0 data s = Fault"
| "feed_loop (Suc n) data s =
     (if snd s < length data \<and> terminal (fst s) = JG_TLS_CLIENT_HELLO_MORE
      then and_then (feed_iteration data s) (feed_loop n data) else Done s)"

definition jg_tls_client_hello_parser_feed ::
  "jg_tls_client_hello_parser \<Rightarrow> bytes \<Rightarrow> (unit, jg_tls_client_hello_parser \<times> jg_tls_client_hello_result \<times> jg_tls_client_hello) run" where
  "jg_tls_client_hello_parser_feed p data =
     (if terminal p \<noteq> JG_TLS_CLIENT_HELLO_MORE then Done (p, terminal p, hello p)
      else and_then (feed_loop (length data + 1) data (p, 0)) (\<lambda>(p', _). Done (p', terminal p', hello p')))"

section \<open>The body parser is memory safe\<close>

lemma read_byte_Some: "read_byte data off = Some v \<longleftrightarrow> off < length data \<and> v = data ! off"
  by (auto simp: read_byte_def)

lemma lower_name_no_fault: "lower_name name stored \<noteq> Fault"
  by (induction name stored rule: lower_name.induct) (auto simp: Let_def)

lemma normalize_server_name_safe: "ensures (normalize_server_name name) policy_domain"
  using lower_name_no_fault by (auto simp: normalize_server_name_def ensures_def)

text \<open>A server name is present exactly when the flag is set, and then it is a policy domain.\<close>

definition hello_ok :: "jg_tls_client_hello \<Rightarrow> bool" where
  "hello_ok h \<longleftrightarrow> (if has_server_name h then policy_domain (server_name h) else server_name h = [])"

lemma server_name_loop_safe: "hello_ok h \<Longrightarrow> ensures (server_name_loop data off h) hello_ok"
proof (induction data off h rule: server_name_loop.induct)
  case (1 data off h)
  show ?case
  proof (cases "\<exists>ty n. off < length data \<and> read_byte data off = Some ty \<and> jg_read_u16_be data (off + 1) = Some n
      \<and> n \<noteq> 0 \<and> unat n \<le> length data - off - 3")
    case False
    then show ?thesis using 1(3)
      by (subst server_name_loop.simps) (auto split: option.splits simp: ensures_def not_le)
  next
    case True
    then obtain ty n where step: "off < length data" "read_byte data off = Some ty" "jg_read_u16_be data (off + 1) = Some n"
        "n \<noteq> 0" "unat n \<le> length data - off - 3" by blast
    have fits: "off + 3 + unat n \<le> length data" using step(3,5) by (auto dest: jg_read_u16_be_bound)
    show ?thesis
    proof (cases "ty = 0 \<and> \<not> has_server_name h")
      case True
      have safe: "ensures (normalize_server_name (slice (off + 3) (unat n) data)) policy_domain"
        by (rule normalize_server_name_safe)
      show ?thesis
        using 1(1)[OF step(1) refl step(2,3)] step fits True safe
        by (subst server_name_loop.simps) (auto simp: hello_ok_def ensures_def split: run.splits)
    next
      case False
      then show ?thesis using 1(2)[OF step(1) refl step(2,3)] step 1(3)
        by (subst server_name_loop.simps) auto
    qed
  qed
qed

lemma parse_server_name_extension_safe: "hello_ok h \<Longrightarrow> ensures (parse_server_name_extension data h) hello_ok"
  by (auto simp: parse_server_name_extension_def intro: server_name_loop_safe split: option.splits)

lemma extensions_loop_safe: "hello_ok h \<Longrightarrow> ensures (extensions_loop data off saw h) hello_ok"
proof (induction data off saw h rule: extensions_loop.induct)
  case (1 data off saw h)
  show ?case
  proof (cases "\<exists>ty n. off < length data \<and> jg_read_u16_be data off = Some ty \<and> jg_read_u16_be data (off + 2) = Some n
      \<and> unat n \<le> length data - off - 4")
    case False
    then have "extensions_loop data off saw h = Fail h \<or> extensions_loop data off saw h = Done h"
      by (cases "jg_read_u16_be data off"; cases "jg_read_u16_be data (off + 2)"; subst (1 2) extensions_loop.simps)
        (simp_all add: not_le del: jg_read_u16_be_None_iff)
    then show ?thesis using 1(3) by auto
  next
    case True
    then obtain ty n where step: "off < length data" "jg_read_u16_be data off = Some ty" "jg_read_u16_be data (off + 2) = Some n"
        "unat n \<le> length data - off - 4" by blast
    have fits: "off + 4 + unat n \<le> length data" using step(3,4) by (auto dest: jg_read_u16_be_bound)
    have ech: "hello_ok (h\<lparr>encrypted_client_hello := True\<rparr>)" using 1(3) by (simp add: hello_ok_def)
    have size: "\<not> length data - off - 4 < unat n" using step(4) by simp
    show ?thesis
    proof (cases "ty = TLS_EXTENSION_SERVER_NAME")
      case True
      let ?ext = "slice (off + 4) (unat n) data"
      have ext: "raw (bytes_at data (off + 4) (unat n)) = Done ?ext" using fits by simp
      have safe: "ensures (parse_server_name_extension ?ext h) hello_ok"
        using 1(3) by (rule parse_server_name_extension_safe)
      have "extensions_loop data off saw h = (if saw then Fail h else and_then (parse_server_name_extension ?ext h)
          (\<lambda>h'. extensions_loop data (off + (4 + unat n)) True h'))"
        using True by (subst extensions_loop.simps) (simp only: step size ext if_True if_False option.case prod.case simp_thms and_then.simps)
      then show ?thesis
        using 1(1)[OF step(1) refl step(2,3) size True _ ext] safe by (auto simp: ensures_def)
    next
      case False
      have "extensions_loop data off saw h = extensions_loop data (off + (4 + unat n)) saw
          (if ty = TLS_EXTENSION_ENCRYPTED_CLIENT_HELLO then h\<lparr>encrypted_client_hello := True\<rparr> else h)"
        using False by (subst extensions_loop.simps) (simp only: step size if_True if_False option.case prod.case simp_thms)
      then show ?thesis using 1(2)[OF step(1) refl step(2,3) size False] 1(3) ech by simp
    qed
  qed
qed

lemma hello_extensions_safe:
  assumes "jg_read_u16_be body off = Some n" "unat n = length body - off - 2"
  shows "ensures (and_then (raw (bytes_at body (off + 2) (unat n))) (\<lambda>e. parse_extensions e cleared_hello)) hello_ok"
proof -
  have "off + 2 + unat n \<le> length body" using assms by (auto dest: jg_read_u16_be_bound)
  moreover have "hello_ok cleared_hello" by (simp add: hello_ok_def cleared_hello_def)
  ultimately show ?thesis by (simp add: parse_extensions_def extensions_loop_safe)
qed

lemma parse_client_hello_safe: "ensures (parse_client_hello body) hello_ok"
proof (cases "length body < CLIENT_HELLO_PREFIX_SIZE + 1")
  case True
  then show ?thesis by (simp add: parse_client_hello_def)
next
  case False
  have start: "hello_ok cleared_hello" by (simp add: hello_ok_def cleared_hello_def)
  have first: "byte_at body 0 = Some (body ! 0)" "byte_at body 1 = Some (body ! 1)"
    using False by (auto simp: CLIENT_HELLO_PREFIX_SIZE_def intro!: byte_at_in)
  show ?thesis
    unfolding parse_client_hello_def Let_def first raw_simps(1) and_then.simps
    by (intro ensures_if[THEN iffD2] ensures_simps(2)[THEN iffD2, OF TrueI] ensures_simps(3,6)[THEN iffD2] conjI impI
        ensures_simps(4)[THEN iffD2] allI hello_extensions_safe start) (simp_all only: not_not)
qed

section \<open>The parser as an automaton over bytes\<close>

definition finish_body :: "jg_tls_client_hello_parser \<Rightarrow> jg_tls_client_hello_parser" where
  "finish_body p =
     (if length (hello_body p) = hello_body_size p
      then (case parse_client_hello (hello_body p) of
              Fault \<Rightarrow> p
            | Fail h \<Rightarrow> p\<lparr>hello := h, terminal := JG_TLS_CLIENT_HELLO_MALFORMED\<rparr>
            | Done h \<Rightarrow> p\<lparr>hello := h, terminal := JG_TLS_CLIENT_HELLO_COMPLETE\<rparr>)
      else p)"

definition finish_header :: "jg_tls_client_hello_parser \<Rightarrow> jg_tls_client_hello_parser" where
  "finish_header p = (if length (record_header p) < 5 then p else activate_record p)"

definition finish_handshake :: "jg_tls_client_hello_parser \<Rightarrow> jg_tls_client_hello_parser" where
  "finish_handshake p = (if length (handshake_header p) < 4 then p else activate_handshake p)"

definition add_header where "add_header xs p = p\<lparr>record_header := record_header p @ xs\<rparr>"
definition add_handshake where
  "add_handshake xs p = p\<lparr>handshake_header := handshake_header p @ xs, record_remaining := record_remaining p - length xs\<rparr>"
definition add_body where
  "add_body xs p = p\<lparr>hello_body := hello_body p @ xs, record_remaining := record_remaining p - length xs\<rparr>"

definition tls_step :: "jg_tls_client_hello_parser \<Rightarrow> u8 \<Rightarrow> jg_tls_client_hello_parser" where
  "tls_step p b =
     (if terminal p \<noteq> JG_TLS_CLIENT_HELLO_MORE then p
      else if record_remaining p = 0 then finish_header (add_header [b] p)
      else if length (handshake_header p) < 4 then finish_handshake (add_handshake [b] p)
      else finish_body (add_body [b] p))"

definition parser_ok :: "jg_tls_client_hello_parser \<Rightarrow> bool" where
  "parser_ok p \<longleftrightarrow> (terminal p = JG_TLS_CLIENT_HELLO_COMPLETE \<longrightarrow> hello_ok (hello p))
     \<and> (terminal p = JG_TLS_CLIENT_HELLO_MORE \<longrightarrow> length (record_header p) < 5 \<and> record_count p \<le> 64
       \<and> record_remaining p \<le> 18432 \<and> (record_remaining p \<noteq> 0 \<longrightarrow> record_header p = [])
       \<and> hello p = cleared_hello
       \<and> (if length (handshake_header p) < 4 then hello_body p = [] \<and> hello_body_size p = 0
          else length (handshake_header p) = 4 \<and> length (hello_body p) < hello_body_size p \<and> hello_body_size p \<le> 16384))"

lemma finish_body_ok:
  assumes "length (hello_body p) \<le> hello_body_size p" "length (record_header p) < 5" "record_count p \<le> 64"
    "record_remaining p \<le> 18432" "record_remaining p \<noteq> 0 \<longrightarrow> record_header p = []" "hello p = cleared_hello"
    "length (handshake_header p) = 4" "hello_body_size p \<le> 16384" "terminal p = JG_TLS_CLIENT_HELLO_MORE"
  shows "parser_ok (finish_body p)"
  using assms parse_client_hello_safe[of "hello_body p"]
  by (auto simp: finish_body_def parser_ok_def ensures_def split: run.splits)

lemma activate_record_ok:
  assumes "terminal p = JG_TLS_CLIENT_HELLO_MORE" "hello p = cleared_hello" "record_count p \<le> 64" "record_remaining p = 0"
    "if length (handshake_header p) < 4 then hello_body p = [] \<and> hello_body_size p = 0
     else length (handshake_header p) = 4 \<and> length (hello_body p) < hello_body_size p \<and> hello_body_size p \<le> 16384"
  shows "parser_ok (activate_record p)"
  using assms unfolding activate_record_def terminal_result_def parser_ok_def JG_TLS_RECORD_COUNT_MAX_def JG_TLS_RECORD_PAYLOAD_MAX_def
  by (auto split: option.splits)

lemma activate_handshake_ok:
  assumes "terminal p = JG_TLS_CLIENT_HELLO_MORE" "hello p = cleared_hello" "record_count p \<le> 64" "record_remaining p \<le> 18432"
    "length (record_header p) < 5" "record_remaining p \<noteq> 0 \<longrightarrow> record_header p = []"
    "length (handshake_header p) = 4" "hello_body p = []"
  shows "parser_ok (activate_handshake p)"
  using assms unfolding activate_handshake_def terminal_result_def parser_ok_def JG_TLS_CLIENT_HELLO_MAX_def Let_def
  by (auto simp: unat_gt_0)

lemma tls_step_ok: "parser_ok p \<Longrightarrow> parser_ok (tls_step p b)"
proof -
  assume ok: "parser_ok p"
  consider "terminal p \<noteq> JG_TLS_CLIENT_HELLO_MORE" | (header) "terminal p = JG_TLS_CLIENT_HELLO_MORE" "record_remaining p = 0"
    | (handshake) "terminal p = JG_TLS_CLIENT_HELLO_MORE" "record_remaining p \<noteq> 0" "length (handshake_header p) < 4"
    | (body) "terminal p = JG_TLS_CLIENT_HELLO_MORE" "record_remaining p \<noteq> 0" "\<not> length (handshake_header p) < 4" by blast
  then show ?thesis
  proof cases
    case header
    then show ?thesis
      using ok activate_record_ok[of "add_header [b] p"]
      by (cases "length (record_header p) < 4") (auto simp: tls_step_def finish_header_def add_header_def parser_ok_def[of p]
          parser_ok_def[of "p\<lparr>record_header := record_header p @ [b]\<rparr>"])
  next
    case handshake
    then show ?thesis
      using ok activate_handshake_ok[of "add_handshake [b] p"]
      by (cases "length (handshake_header p) < 3") (auto simp: tls_step_def finish_handshake_def add_handshake_def parser_ok_def[of p]
          parser_ok_def[of "p\<lparr>handshake_header := handshake_header p @ [b], record_remaining := record_remaining p - Suc 0\<rparr>"])
  next
    case body
    then show ?thesis using ok finish_body_ok[of "add_body [b] p"] by (auto simp: tls_step_def add_body_def parser_ok_def[of p])
  qed (use ok in \<open>simp add: tls_step_def\<close>)
qed

text \<open>A run of bytes within one part of the input.\<close>

lemmas add_defs = add_header_def add_handshake_def add_body_def

lemma fold_header:
  assumes "terminal p = JG_TLS_CLIENT_HELLO_MORE" "record_remaining p = 0" "length (record_header p) < 5"
    "length (record_header p) + length xs \<le> 5"
  shows "foldl tls_step p xs = finish_header (add_header xs p)"
  using assms
proof (induction xs rule: rev_induct)
  case (snoc x xs)
  then have "foldl tls_step p (xs @ [x]) = tls_step (add_header xs p) x" by (simp add: finish_header_def add_header_def)
  also have "\<dots> = finish_header (add_header (xs @ [x]) p)" using snoc.prems by (simp add: tls_step_def add_header_def)
  finally show ?case .
qed (simp add: finish_header_def add_header_def)

lemma fold_handshake:
  assumes "terminal p = JG_TLS_CLIENT_HELLO_MORE" "length (handshake_header p) < 4" "length xs \<le> record_remaining p"
    "length (handshake_header p) + length xs \<le> 4"
  shows "foldl tls_step p xs = finish_handshake (add_handshake xs p)"
  using assms
proof (induction xs rule: rev_induct)
  case (snoc x xs)
  then have "foldl tls_step p (xs @ [x]) = tls_step (add_handshake xs p) x" by (simp add: finish_handshake_def add_handshake_def)
  also have "\<dots> = finish_handshake (add_handshake (xs @ [x]) p)" using snoc.prems by (simp add: tls_step_def add_handshake_def)
  finally show ?case .
qed (simp add: finish_handshake_def add_handshake_def)

lemma fold_body:
  assumes "terminal p = JG_TLS_CLIENT_HELLO_MORE" "\<not> length (handshake_header p) < 4" "length xs \<le> record_remaining p"
    "length (hello_body p) < hello_body_size p" "length (hello_body p) + length xs \<le> hello_body_size p"
  shows "foldl tls_step p xs = finish_body (add_body xs p)"
  using assms
proof (induction xs rule: rev_induct)
  case (snoc x xs)
  then have "foldl tls_step p (xs @ [x]) = tls_step (add_body xs p) x" by (simp add: finish_body_def add_body_def)
  also have "\<dots> = finish_body (add_body (xs @ [x]) p)" using snoc.prems by (simp add: tls_step_def add_body_def)
  finally show ?case .
qed (simp add: finish_body_def add_body_def)

lemma copy_available_value:
  assumes "received \<le> required" "required \<le> capacity" "off + available \<le> length data"
  shows "copy_available capacity received required data off available
    = Done (slice off (min available (required - received)) data)"
  using assms by (auto simp: copy_available_def Let_def min_def)

text \<open>What a part of an iteration does is what the automaton does on the bytes that the part consumes.\<close>

definition consumes :: "bytes \<Rightarrow> feed_state \<Rightarrow> nat \<Rightarrow> (unit, feed_state) run \<Rightarrow> bool" where
  "consumes data s n m \<longleftrightarrow> (\<exists>k p'. n \<le> k \<and> snd s + k \<le> length data \<and> m = Done (p', snd s + k)
     \<and> p' = foldl tls_step (fst s) (slice (snd s) k data))"

lemma feed_record_consumes:
  assumes "parser_ok p" "terminal p = JG_TLS_CLIENT_HELLO_MORE" "record_remaining p = 0" "off < length data"
  shows "consumes data (p, off) 1 (feed_record data (p, off))"
proof -
  let ?k = "min (length data - off) (5 - length (record_header p))"
  have h: "length (record_header p) < 5" using assms by (simp add: parser_ok_def)
  have "feed_record data (p, off) = Done (finish_header (add_header (slice off ?k data) p), off + ?k)"
    using h assms(4) by (simp add: feed_record_def copy_available_value finish_header_def add_header_def Let_def)
  moreover have "foldl tls_step p (slice off ?k data) = finish_header (add_header (slice off ?k data) p)"
    using assms h by (intro fold_header) auto
  ultimately show ?thesis using h assms(4) by (auto simp: consumes_def intro!: exI[where x = ?k])
qed

lemma feed_handshake_consumes:
  assumes "parser_ok p" "terminal p = JG_TLS_CLIENT_HELLO_MORE" "length (handshake_header p) < 4" "off \<le> length data"
  shows "consumes data (p, off) (if record_remaining p \<noteq> 0 \<and> off < length data then 1 else 0) (feed_handshake data (p, off))"
proof -
  let ?a = "min (length data - off) (record_remaining p)"
  let ?k = "min ?a (4 - length (handshake_header p))"
  have a: "(if length data - off > record_remaining p then record_remaining p else length data - off) = ?a" by (simp add: min_def)
  have "feed_handshake data (p, off) = Done (finish_handshake (add_handshake (slice off ?k data) p), off + ?k)"
    using assms(3,4) unfolding feed_handshake_def prod.case a Let_def
    by (simp add: copy_available_value finish_handshake_def add_handshake_def)
  moreover have "foldl tls_step p (slice off ?k data) = finish_handshake (add_handshake (slice off ?k data) p)"
    using assms by (intro fold_handshake) auto
  ultimately show ?thesis using assms(3,4) by (auto simp: consumes_def intro!: exI[where x = ?k])
qed

lemma feed_body_consumes:
  assumes "parser_ok p" "terminal p = JG_TLS_CLIENT_HELLO_MORE" "\<not> length (handshake_header p) < 4" "off \<le> length data"
  shows "consumes data (p, off) (if record_remaining p \<noteq> 0 \<and> off < length data then 1 else 0) (feed_body data (p, off))"
proof -
  let ?a = "min (length data - off) (record_remaining p)"
  let ?k = "min ?a (hello_body_size p - length (hello_body p))"
  let ?p = "add_body (slice off ?k data) p"
  have a: "(if length data - off > record_remaining p then record_remaining p else length data - off) = ?a" by (simp add: min_def)
  have b: "length (hello_body p) < hello_body_size p" "hello_body_size p \<le> 16384" using assms by (auto simp: parser_ok_def)
  have "parse_client_hello x \<noteq> Fault" for x using parse_client_hello_safe ensures_no_fault by blast
  then have "feed_body data (p, off) = Done (finish_body ?p, off + ?k)"
    using b assms(4) unfolding feed_body_def prod.case a Let_def
    by (simp add: copy_available_value JG_TLS_CLIENT_HELLO_MAX_def finish_body_def add_body_def split: run.splits)
  moreover have "foldl tls_step p (slice off ?k data) = finish_body ?p"
    using assms b by (intro fold_body) auto
  ultimately show ?thesis using b assms(4) by (auto simp: consumes_def intro!: exI[where x = ?k])
qed

lemma foldl_step_ok: "parser_ok p \<Longrightarrow> parser_ok (foldl tls_step p xs)"
  by (induction xs arbitrary: p) (auto intro: tls_step_ok)

lemma slice_append: "slice off (k + j) xs = slice off k xs @ slice (off + k) j xs"
  using take_add[of k j "drop off xs"] by (simp add: slice_def add.commute)

lemma consumes_then:
  assumes "consumes data s n m" "\<And>k p'. n \<le> k \<Longrightarrow> snd s + k \<le> length data \<Longrightarrow> p' = foldl tls_step (fst s) (slice (snd s) k data) \<Longrightarrow>
      m = Done (p', snd s + k) \<Longrightarrow> consumes data (p', snd s + k) (j - k) (f (p', snd s + k))"
  shows "consumes data s (max n j) (and_then m f)"
proof -
  obtain k p' where m: "n \<le> k" "snd s + k \<le> length data" "m = Done (p', snd s + k)"
      "p' = foldl tls_step (fst s) (slice (snd s) k data)"
    using assms(1) by (auto simp: consumes_def)
  obtain l p'' where f: "j - k \<le> l" "snd s + k + l \<le> length data" "f (p', snd s + k) = Done (p'', snd s + k + l)"
      "p'' = foldl tls_step p' (slice (snd s + k) l data)"
    using assms(2)[OF m(1,2,4,3)] by (auto simp: consumes_def)
  show ?thesis
    unfolding consumes_def using m f
    by (intro exI[where x = "k + l"] exI[where x = p'']) (simp add: slice_append add.assoc)
qed

lemma consumes_nothing: "snd s \<le> length data \<Longrightarrow> consumes data s 0 (Done s)"
  unfolding consumes_def by (intro exI[where x = 0] exI[where x = "fst s"]) (simp add: slice_def)

lemma consumes_mono: "consumes data s n m \<Longrightarrow> j \<le> n \<Longrightarrow> consumes data s j m"
  unfolding consumes_def by (metis le_trans)

definition feed_rest :: "bytes \<Rightarrow> feed_state \<Rightarrow> (unit, feed_state) run" where
  "feed_rest data s =
     and_then (if length (handshake_header (fst s)) < 4 then feed_handshake data s else Done s) (\<lambda>s2.
     if length (handshake_header (fst s2)) < 4 \<or> terminal (fst s2) \<noteq> JG_TLS_CLIENT_HELLO_MORE then Done s2
     else feed_body data s2)"

lemma feed_rest_consumes:
  assumes "parser_ok p" "terminal p = JG_TLS_CLIENT_HELLO_MORE" "off \<le> length data"
  shows "consumes data (p, off) (if record_remaining p \<noteq> 0 \<and> off < length data then 1 else 0) (feed_rest data (p, off))"
    (is "consumes _ _ ?n _")
proof (cases "length (handshake_header p) < 4")
  case True
  have tail: "consumes data (p', off') 0 (if length (handshake_header p') < 4 \<or> terminal p' \<noteq> JG_TLS_CLIENT_HELLO_MORE
      then Done (p', off') else feed_body data (p', off'))" if "parser_ok p'" "off' \<le> length data" for p' off'
    using that consumes_nothing[of "(p', off')" data] consumes_mono[OF feed_body_consumes[OF that(1) _ _ that(2)]] by auto
  have "consumes data (p, off) (max ?n 0) (feed_rest data (p, off))"
    unfolding feed_rest_def fst_conv if_P[OF True]
    by (rule consumes_then[OF feed_handshake_consumes[OF assms(1,2) True assms(3)]])
      (use tail assms(1) foldl_step_ok in \<open>simp only: fst_conv snd_conv diff_0_eq_0\<close>)
  then show ?thesis by simp
next
  case False
  then show ?thesis using feed_body_consumes[OF assms(1,2) False assms(3)] assms(2) by (simp add: feed_rest_def)
qed

lemma feed_iteration_consumes:
  assumes "parser_ok p" "terminal p = JG_TLS_CLIENT_HELLO_MORE" "off < length data"
  shows "consumes data (p, off) 1 (feed_iteration data (p, off))"
proof (cases "record_remaining p = 0")
  case True
  have tail: "consumes data (p', off') 0 (if record_header p' \<noteq> [] \<or> terminal p' \<noteq> JG_TLS_CLIENT_HELLO_MORE
      then Done (p', off') else feed_rest data (p', off'))" if "parser_ok p'" "off' \<le> length data" for p' off'
    using that consumes_nothing[of "(p', off')" data] consumes_mono[OF feed_rest_consumes[OF that(1) _ that(2)]] by auto
  have "consumes data (p, off) (max 1 0) (feed_iteration data (p, off))"
    unfolding feed_iteration_def feed_rest_def[symmetric] fst_conv if_P[OF True] using True
    by (intro consumes_then[OF feed_record_consumes[OF assms(1,2) True assms(3)]])
      (use tail assms(1) foldl_step_ok in \<open>simp only: fst_conv snd_conv diff_0_eq_0 simp_thms\<close>)
  then show ?thesis by simp
next
  case False
  then show ?thesis
    using feed_rest_consumes[OF assms(1,2), of off data] assms(3)
    by (simp add: feed_iteration_def flip: feed_rest_def)
qed

lemma foldl_terminal: "terminal p \<noteq> JG_TLS_CLIENT_HELLO_MORE \<Longrightarrow> foldl tls_step p xs = p"
  by (induction xs) (simp_all add: tls_step_def)

lemma feed_loop_fold:
  "parser_ok p \<Longrightarrow> off \<le> length data \<Longrightarrow> length data - off < n \<Longrightarrow>
     \<exists>off'. feed_loop n data (p, off) = Done (foldl tls_step p (drop off data), off')"
proof (induction n arbitrary: p off)
  case (Suc n)
  show ?case
  proof (cases "off < length data \<and> terminal p = JG_TLS_CLIENT_HELLO_MORE")
    case False
    then show ?thesis using Suc.prems by (auto simp: foldl_terminal)
  next
    case True
    then obtain k where k: "1 \<le> k" "off + k \<le> length data"
        "feed_iteration data (p, off) = Done (foldl tls_step p (slice off k data), off + k)"
      using feed_iteration_consumes[OF Suc.prems(1), of off data] by (auto simp: consumes_def)
    have "drop off data = slice off k data @ drop (off + k) data"
      by (metis append_take_drop_id drop_drop slice_def add.commute)
    moreover have "\<exists>off'. feed_loop n data (foldl tls_step p (slice off k data), off + k)
        = Done (foldl tls_step (foldl tls_step p (slice off k data)) (drop (off + k) data), off')"
      using Suc.prems k(1,2) by (intro Suc.IH foldl_step_ok) auto
    ultimately show ?thesis using True k by simp
  qed
qed simp

lemma feed_fold:
  assumes "parser_ok p"
  shows "jg_tls_client_hello_parser_feed p data
    = (let q = foldl tls_step p data in Done (q, terminal q, hello q))"
  using feed_loop_fold[OF assms, of 0 data "length data + 1"]
  by (auto simp: jg_tls_client_hello_parser_feed_def foldl_terminal Let_def)

lemma parser_init_ok: "parser_ok jg_tls_client_hello_parser_init"
  by (simp add: parser_ok_def jg_tls_client_hello_parser_init_def)

text \<open>Feeding a flow segment by segment.\<close>

fun feed_segments :: "jg_tls_client_hello_parser \<Rightarrow> bytes list \<Rightarrow> (unit, jg_tls_client_hello_parser) run" where
  "feed_segments p [] = Done p"
| "feed_segments p (s # ss) = and_then (jg_tls_client_hello_parser_feed p s) (\<lambda>(p', _). feed_segments p' ss)"

lemma feed_segments_fold: "parser_ok p \<Longrightarrow> feed_segments p ss = Done (foldl tls_step p (concat ss))"
  by (induction ss arbitrary: p) (simp_all add: feed_fold Let_def foldl_step_ok)

section \<open>Framing\<close>

text \<open>
  A ClientHello on the wire: the handshake message, cut into chunks of any size, each in a record of
  its own.
\<close>

definition client_hello_message :: "bytes \<Rightarrow> bytes" where
  "client_hello_message body = TLS_HANDSHAKE_CLIENT_HELLO # tl (u32_be (of_nat (length body))) @ body"

definition tls_record :: "u8 \<Rightarrow> bytes \<Rightarrow> bytes" where
  "tls_record minor chunk = [TLS_CONTENT_HANDSHAKE, 3, minor] @ u16_be (of_nat (length chunk)) @ chunk"

text \<open>The parser inside a record with \<open>r\<close> bytes left, after \<open>n\<close> records and the message bytes \<open>w\<close>.\<close>

definition within :: "nat \<Rightarrow> bytes \<Rightarrow> nat \<Rightarrow> nat \<Rightarrow> jg_tls_client_hello_parser" where
  "within len w n r = \<lparr>record_header = [], handshake_header = take 4 w, hello_body = drop 4 w, record_remaining = r,
     record_count = n, hello_body_size = (if length w < 4 then 0 else len), terminal = JG_TLS_CLIENT_HELLO_MORE,
     hello = cleared_hello\<rparr>"

lemma handshake_size:
  assumes "length body \<le> 16384"
  shows "(push_bit 16 (ucast (client_hello_message body ! 1)) OR push_bit 8 (ucast (client_hello_message body ! 2))
    OR ucast (client_hello_message body ! 3) :: u32) = of_nat (length body)"
proof -
  let ?v = "of_nat (length body) :: u32"
  have v: "unat ?v = length body" using assms by (simp add: unat_of_nat)
  have "drop_bit 24 ?v = 0" using assms v by (intro word_unat_eq_iff[THEN iffD2]) (simp add: unat_drop_bit)
  moreover have "?v = join32 (u32_be ?v ! 0) (u32_be ?v ! 1) (u32_be ?v ! 2) (u32_be ?v ! 3)"
    using join32_u32_be[of ?v] by (simp add: u32_be_def)
  ultimately have "?v = join32 0 (u32_be ?v ! 1) (u32_be ?v ! 2) (u32_be ?v ! 3)" by (simp add: u32_be_def)
  then show ?thesis
    by (simp add: client_hello_message_def u32_be_def join32_def numeral_2_eq_2 numeral_3_eq_3)
qed

lemma length_client_hello_message: "length (client_hello_message body) = length body + 4"
  by (simp add: client_hello_message_def)

lemma finish_within: "4 \<le> length v \<Longrightarrow> length v < len + 4 \<Longrightarrow> finish_body (within len v n r) = within len v n r"
  unfolding finish_body_def within_def by (subst if_not_P) auto

lemma within_step:
  assumes w: "w @ [b] = take (length w + 1) (client_hello_message body)" and r: "r \<noteq> 0"
    and size: "1 \<le> length body" "length body \<le> 16384" and len: "length w + 1 \<le> length body + 4"
  shows "tls_step (within (length body) w n r) b = finish_body (within (length body) (w @ [b]) n (r - 1))
    \<or> length w + 1 < 4 \<and> tls_step (within (length body) w n r) b = within (length body) (w @ [b]) n (r - 1)"
proof -
  consider (short) "length w + 1 < 4" | (header) "length w = 3" | (body) "4 \<le> length w" by linarith
  then show ?thesis
  proof cases
    case short
    then show ?thesis using r by (simp add: tls_step_def within_def finish_handshake_def add_handshake_def)
  next
    case header
    have bytes: "(w @ [b]) ! i = client_hello_message body ! i" if "i < 4" for i
      using that header len by (subst w) (simp add: length_client_hello_message)
    have "activate_handshake (within (length body) (w @ [b]) n (r - 1)\<lparr>hello_body_size := 0\<rparr>)
        = within (length body) (w @ [b]) n (r - 1)"
    proof -
      have "(w @ [b]) ! 0 = TLS_HANDSHAKE_CLIENT_HELLO" using bytes[of 0] by (simp add: client_hello_message_def)
      moreover have "(push_bit 16 (ucast ((w @ [b]) ! 1)) OR push_bit 8 (ucast ((w @ [b]) ! 2))
          OR ucast ((w @ [b]) ! 3) :: u32) = of_nat (length body)"
        using handshake_size[OF size(2)] bytes[of 1] bytes[of 2] bytes[of 3] by simp
      moreover have "unat (of_nat (length body) :: u32) = length body" using size(2) by (simp add: unat_of_nat)
      ultimately show ?thesis
        using header size unfolding activate_handshake_def Let_def within_def JG_TLS_CLIENT_HELLO_MAX_def
        by (auto simp: unat_eq_0[symmetric])
    qed
    moreover have "tls_step (within (length body) w n r) b
        = activate_handshake (within (length body) (w @ [b]) n (r - 1)\<lparr>hello_body_size := 0\<rparr>)"
      using r header by (simp add: tls_step_def within_def finish_handshake_def add_handshake_def)
    moreover have "finish_body (within (length body) (w @ [b]) n (r - 1)) = within (length body) (w @ [b]) n (r - 1)"
      using header size by (intro finish_within) auto
    ultimately show ?thesis by simp
  next
    case body
    then show ?thesis using r by (simp add: tls_step_def within_def add_body_def)
  qed
qed

lemma within_next:
  assumes "w @ [b] = take (length w + 1) (client_hello_message body)" "r \<noteq> 0" "1 \<le> length body" "length body \<le> 16384"
    "length w + 1 \<le> length body + 4"
  shows "tls_step (within (length body) w n r) b =
    (if length w + 1 < length body + 4 then within (length body) (w @ [b]) n (r - 1)
     else finish_body (within (length body) (w @ [b]) n (r - 1)))"
proof (cases "length w + 1 < length body + 4")
  case True
  then have "4 \<le> length w + 1 \<Longrightarrow> finish_body (within (length body) (w @ [b]) n (r - 1)) = within (length body) (w @ [b]) n (r - 1)"
    by (intro finish_within) auto
  then show ?thesis using within_step[OF assms, of n] True assms(2) by (cases "length w + 1 < 4") (auto simp: tls_step_def within_def
        finish_handshake_def add_handshake_def)
next
  case False
  then show ?thesis using within_step[OF assms, of n] assms(3) by auto
qed

lemma within_fold:
  assumes "w @ xs = take (length w + length xs) (client_hello_message body)" "length xs \<le> r" "1 \<le> length body"
    "length body \<le> 16384" "length w + length xs \<le> length body + 4" "length w < length body + 4"
  shows "foldl tls_step (within (length body) w n r) xs =
    (if length w + length xs < length body + 4 then within (length body) (w @ xs) n (r - length xs)
     else finish_body (within (length body) (w @ xs) n (r - length xs)))"
  using assms
proof (induction xs rule: rev_induct)
  case (snoc x xs)
  have prefix: "w @ xs = take (length w + length xs) (client_hello_message body)"
    using arg_cong[OF snoc.prems(1), of "take (length w + length xs)"] by simp
  have "foldl tls_step (within (length body) w n r) xs = within (length body) (w @ xs) n (r - length xs)"
    using snoc.IH[OF prefix] snoc.prems by simp
  then show ?case
    using within_next[of "w @ xs" x body "r - length xs" n] snoc.prems by simp
qed simp

lemma record_fold:
  assumes "w @ chunk = take (length w + length chunk) (client_hello_message body)" "chunk \<noteq> []" "length chunk \<le> 18432"
    "1 \<le> length body" "length body \<le> 16384" "length w + length chunk \<le> length body + 4" "n < 64" "minor \<in> {1, 2, 3}"
  shows "foldl tls_step (within (length body) w n 0) (tls_record minor chunk) =
    (if length w + length chunk < length body + 4 then within (length body) (w @ chunk) (n + 1) 0
     else finish_body (within (length body) (w @ chunk) (n + 1) 0))"
proof -
  let ?h = "[TLS_CONTENT_HANDSHAKE, 3, minor] @ u16_be (of_nat (length chunk))"
  have size: "unat (of_nat (length chunk) :: u16) = length chunk" using assms(3) by (simp add: unat_of_nat)
  have "slice 3 2 ?h = u16_be (of_nat (length chunk))" by (simp add: slice_def)
  then have read: "jg_read_u16_be ?h 3 = Some (of_nat (length chunk))" by (simp add: jg_read_u16_be_Some_iff)
  have nonzero: "(of_nat (length chunk) :: u16) \<noteq> 0" using size assms(2) by auto
  have minor: "\<not> minor < 1" "\<not> minor > 3" using assms(8) by auto
  have "foldl tls_step (within (length body) w n 0) ?h = finish_header (add_header ?h (within (length body) w n 0))"
    by (rule fold_header) (simp_all add: within_def)
  also have "\<dots> = within (length body) w (n + 1) (length chunk)"
    using read size nonzero minor assms(3,7)
    by (simp add: finish_header_def add_header_def within_def activate_record_def JG_TLS_RECORD_COUNT_MAX_def
        JG_TLS_RECORD_PAYLOAD_MAX_def)
  finally have header: "foldl tls_step (within (length body) w n 0) ?h = within (length body) w (n + 1) (length chunk)" .
  have "length w < length body + 4" using assms(2,6) by (cases chunk) auto
  then show ?thesis
    using within_fold[OF assms(1) _ assms(4,5,6), of "length chunk" "n + 1"] header
    by (simp add: tls_record_def)
qed

lemma records_fold:
  assumes "w @ concat chunks = client_hello_message body" "\<forall>c \<in> set chunks. c \<noteq> [] \<and> length c \<le> 18432"
    "1 \<le> length body" "length body \<le> 16384" "length w < length body + 4" "n + length chunks \<le> 64" "minor \<in> {1, 2, 3}"
  shows "foldl tls_step (within (length body) w n 0) (concat (map (tls_record minor) chunks))
    = finish_body (within (length body) (client_hello_message body) (n + length chunks) 0)"
  using assms
proof (induction chunks arbitrary: w n)
  case Nil
  then show ?case by (metis append_Nil2 concat.simps(1) length_client_hello_message nat_less_le)
next
  case (Cons c cs)
  have len: "length w + length c + length (concat cs) = length body + 4"
    using arg_cong[OF Cons.prems(1), of length] by (simp add: length_client_hello_message)
  have "w @ c = take (length w + length c) (client_hello_message body)"
    unfolding Cons.prems(1)[symmetric] by simp
  then have first: "foldl tls_step (within (length body) w n 0) (tls_record minor c) =
      (if length w + length c < length body + 4 then within (length body) (w @ c) (n + 1) 0
       else finish_body (within (length body) (w @ c) (n + 1) 0))"
    using Cons.prems len by (intro record_fold) auto
  show ?case
  proof (cases "cs = []")
    case True
    then have "w @ c = client_hello_message body" using Cons.prems(1) by simp
    then show ?thesis using True first len by simp
  next
    case False
    then have "length (concat cs) \<noteq> 0" using Cons.prems(2) by (cases cs) auto
    then have "length w + length c < length body + 4" using len by linarith
    then show ?thesis using Cons.IH[of "w @ c" "n + 1"] Cons.prems first by simp
  qed
qed

lemma client_hello_body: "drop 4 (client_hello_message body) = body" "length (take 4 (client_hello_message body)) = 4"
  by (simp_all add: client_hello_message_def)

lemma finish_message:
  "finish_body (within (length body) (client_hello_message body) n r) = (case parse_client_hello body of
     Fault \<Rightarrow> within (length body) (client_hello_message body) n r
   | Fail h \<Rightarrow> within (length body) (client_hello_message body) n r\<lparr>hello := h, terminal := JG_TLS_CLIENT_HELLO_MALFORMED\<rparr>
   | Done h \<Rightarrow> within (length body) (client_hello_message body) n r\<lparr>hello := h, terminal := JG_TLS_CLIENT_HELLO_COMPLETE\<rparr>)"
  by (simp add: finish_body_def within_def client_hello_body length_client_hello_message split: run.splits)

section \<open>Properties\<close>

text \<open>
  C17. The ClientHello parser does not depend on how TCP cuts the flow: feeding the segments one after
  the other is feeding their concatenation at once. It never leaves its buffers, and a server name that
  it reports with a complete ClientHello is a policy domain in normal form.
\<close>

theorem tls_segmentation_independent:
  "\<exists>p. feed_segments jg_tls_client_hello_parser_init segments = Done p
    \<and> jg_tls_client_hello_parser_feed jg_tls_client_hello_parser_init (concat segments) = Done (p, terminal p, hello p)
    \<and> (terminal p = JG_TLS_CLIENT_HELLO_COMPLETE \<longrightarrow>
        (if has_server_name (hello p) then jg_domain_is_normalized (server_name (hello p)) else server_name (hello p) = []))"
proof -
  have "parser_ok (foldl tls_step jg_tls_client_hello_parser_init (concat segments))"
    by (rule foldl_step_ok[OF parser_init_ok])
  then show ?thesis
    by (auto simp: feed_segments_fold[OF parser_init_ok] feed_fold[OF parser_init_ok] Let_def parser_ok_def hello_ok_def)
qed

text \<open>
  C16. Every ClientHello within the bounds is found: a body of at most 16384 bytes, framed as a handshake
  message, cut into at most 64 handshake records at arbitrary places and delivered in arbitrary
  segments with anything behind it, ends in the result of parsing exactly this body.
\<close>

theorem tls_client_hello_found:
  assumes "1 \<le> length body" "length body \<le> 16384" "concat chunks = client_hello_message body"
    and "\<forall>c \<in> set chunks. c \<noteq> [] \<and> length c \<le> 18432" "length chunks \<le> 64" "minor \<in> {1, 2, 3}"
    and "concat segments = concat (map (tls_record minor) chunks) @ rest"
  shows "\<exists>p. feed_segments jg_tls_client_hello_parser_init segments = Done p
    \<and> (case parse_client_hello body of
         Fault \<Rightarrow> False
       | Fail h \<Rightarrow> terminal p = JG_TLS_CLIENT_HELLO_MALFORMED
       | Done h \<Rightarrow> terminal p = JG_TLS_CLIENT_HELLO_COMPLETE \<and> hello p = h)"
proof -
  have init: "jg_tls_client_hello_parser_init = within (length body) [] 0 0"
    by (simp add: jg_tls_client_hello_parser_init_def within_def)
  let ?q = "finish_body (within (length body) (client_hello_message body) (length chunks) 0)"
  have fold: "foldl tls_step jg_tls_client_hello_parser_init (concat (map (tls_record minor) chunks)) = ?q"
    using records_fold[of "[]" chunks body 0 minor] assms unfolding init by simp
  have "parse_client_hello body \<noteq> Fault" using parse_client_hello_safe ensures_no_fault by blast
  then have q: "terminal ?q \<noteq> JG_TLS_CLIENT_HELLO_MORE" "case parse_client_hello body of Fault \<Rightarrow> False
      | Fail h \<Rightarrow> terminal ?q = JG_TLS_CLIENT_HELLO_MALFORMED
      | Done h \<Rightarrow> terminal ?q = JG_TLS_CLIENT_HELLO_COMPLETE \<and> hello ?q = h"
    by (auto simp: finish_message split: run.splits)
  have "feed_segments jg_tls_client_hello_parser_init segments = Done ?q"
    using q(1) by (simp add: feed_segments_fold[OF parser_init_ok] assms(7) fold foldl_terminal)
  then show ?thesis using q(2) by blast
qed

definition example_hello :: bytes where
  "example_hello = [3, 3] @ replicate 32 7 @ [0] @ [0, 2, 0x13, 0x01] @ [1, 0]
     @ [0, 18] @ [0, 0, 0, 14] @ [0, 12] @ [0, 0, 9] @ str ''A.example''"

lemma example_hello_parsed: "parse_client_hello example_hello =
    Done \<lparr>has_server_name = True, encrypted_client_hello = False, server_name = str ''a.example''\<rparr>"
  by code_simp

definition example_chunks :: "bytes list" where
  "example_chunks = [take 2 (client_hello_message example_hello), drop 2 (client_hello_message example_hello)]"

definition example_segments :: "bytes list" where
  "example_segments = (let w = concat (map (tls_record 1) example_chunks) in [take 6 w, drop 6 w])"

theorem tls_client_hello_found_witness:
  "\<exists>p. feed_segments jg_tls_client_hello_parser_init example_segments = Done p \<and> terminal p = JG_TLS_CLIENT_HELLO_COMPLETE
    \<and> server_name (hello p) = str ''a.example''"
proof -
  have "length example_hello = 61" by (simp add: example_hello_def)
  moreover have "concat example_chunks = client_hello_message example_hello" by (simp add: example_chunks_def)
  moreover have "\<forall>c \<in> set example_chunks. c \<noteq> [] \<and> length c \<le> 18432"
    using calculation(1) by (auto simp: example_chunks_def length_client_hello_message client_hello_message_def)
  moreover have "length example_chunks \<le> 64" by (simp add: example_chunks_def)
  moreover have "concat example_segments = concat (map (tls_record 1) example_chunks) @ []"
    by (simp add: example_segments_def Let_def)
  ultimately show ?thesis
    using tls_client_hello_found[of example_hello example_chunks 1 example_segments "[]"]
    by (auto simp: example_hello_parsed)
qed

theorem tls_segmentation_independent_witness:
  "\<exists>p. feed_segments jg_tls_client_hello_parser_init [[22, 3], [3, 0, 5, 1]] = Done p
    \<and> jg_tls_client_hello_parser_feed jg_tls_client_hello_parser_init [22, 3, 3, 0, 5, 1] = Done (p, terminal p, hello p)"
  using tls_segmentation_independent[of "[[22, 3], [3, 0, 5, 1]]"] by auto

text \<open>
  \<^verbatim>\<open>tls_client_hello.h\<close> says that the fields are cleared unless the result is COMPLETE. A server name that
  precedes a malformed extension stays: here the extension vector has one byte too many.
\<close>

lemma malformed_hello_keeps_server_name:
  "parse_client_hello (take 42 example_hello @ [19] @ drop 43 example_hello @ [0]) =
    Fail \<lparr>has_server_name = True, encrypted_client_hello = False, server_name = str ''a.example''\<rparr>"
  by code_simp

end
