(* ===== verification/Checksum.thy ===== *)
theory Checksum
  imports Packet Codec
begin

text \<open>
  The Internet checksum of \<^verbatim>\<open>src/daemon/dns_response.c\<close> and \<^verbatim>\<open>src/daemon/tcp_reset.c\<close> (both hold the
  same two static functions), and the packet headers that the frame builders of the two files write.
  The accumulator is the 32-bit word of the source; the specification adds in the natural numbers, and
  \<open>checksum_add_exact\<close> is where the absence of wrap-around is proved.
\<close>

section \<open>Operations\<close>

text \<open>The loop over pairs of bytes; the caller has read \<open>data_size\<close> bytes from \<open>data\<close>.\<close>

fun checksum_add :: "bytes \<Rightarrow> u32 \<Rightarrow> u32" where
  "checksum_add (a # b # data) acc = checksum_add data (acc + (push_bit 8 (ucast a) OR ucast b))"
| "checksum_add [a] acc = acc + push_bit 8 (ucast a)"
| "checksum_add [] acc = acc"

lemma high_half_zero: "drop_bit 16 (acc :: u32) = 0 \<longleftrightarrow> unat acc < 65536"
  by (simp add: word_unat_eq_iff unat_drop_bit div_eq_0_iff)

lemma fold_decreases: "drop_bit 16 (acc :: u32) \<noteq> 0 \<Longrightarrow>
  unat ((acc AND 0xFFFF) + drop_bit 16 acc) = unat acc mod 65536 + unat acc div 65536
  \<and> unat acc mod 65536 + unat acc div 65536 < unat acc"
proof -
  assume "drop_bit 16 acc \<noteq> 0"
  then have high: "1 \<le> unat acc div 65536" by (simp add: high_half_zero Suc_le_eq div_greater_zero_iff)
  have low: "unat (acc AND 0xFFFF) = unat acc mod 65536"
    by (subst and_low_mask[where n = 16]) (simp_all add: mask_eq_exp_minus_1)
  have split: "unat acc = 65536 * (unat acc div 65536) + unat acc mod 65536" by simp
  have "unat acc mod 65536 < 65536" "unat acc div 65536 \<le> 65535"
    using unat_u32_less[of acc] by (simp, simp add: less_Suc_eq_le[symmetric] less_mult_imp_div_less)
  then have "unat ((acc AND 0xFFFF) + drop_bit 16 acc) = unat acc mod 65536 + unat acc div 65536"
    by (subst unat_add_lem[THEN iffD1]) (simp_all add: low unat_drop_bit)
  then show ?thesis using high split by linarith
qed

function checksum_fold :: "u32 \<Rightarrow> u32" where
  "checksum_fold acc =
     (if drop_bit 16 acc \<noteq> 0 then checksum_fold ((acc AND 0xFFFF) + drop_bit 16 acc) else acc)"
  by pat_completeness auto
termination
  by (relation "measure unat") (simp_all add: fold_decreases)

declare checksum_fold.simps [simp del]

definition checksum_finish :: "u32 \<Rightarrow> u16" where
  "checksum_finish acc = ucast (NOT (checksum_fold acc))"

section \<open>The one's complement sum\<close>

fun word_sum :: "bytes \<Rightarrow> nat" where
  "word_sum (a # b # data) = unat a * 256 + unat b + word_sum data"
| "word_sum [a] = unat a * 256"
| "word_sum [] = 0"

text \<open>A checksummed block is intact when its one's complement sum is negative zero.\<close>

definition checksum_valid :: "bytes \<Rightarrow> bool" where
  "checksum_valid data \<longleftrightarrow> 0 < word_sum data \<and> word_sum data mod 65535 = 0"

definition folded :: "nat \<Rightarrow> nat" where
  "folded n = (if n = 0 then 0 else (n - 1) mod 65535 + 1)"

lemma word_sum_append [simp]: "even (length a) \<Longrightarrow> word_sum (a @ b) = word_sum a + word_sum b"
  by (induction a rule: word_sum.induct) auto

lemma word_sum_replicate [simp]: "word_sum (replicate n 0) = 0"
proof (induction n rule: nat_induct2)
  case (step n)
  then show ?case by (simp add: replicate_add[of n 2] numeral_2_eq_2)
qed simp_all

lemma word_sum_u16_be [simp]: "word_sum (u16_be v) = unat v"
proof -
  have "unat v = unat (join16 (ucast (drop_bit 8 v)) (ucast (v AND 0xFF)))" by simp
  then show ?thesis unfolding unat_join16 u16_be_def by simp
qed

lemma word_sum_bound: "word_sum data \<le> 65535 * ((length data + 1) div 2)"
proof (induction data rule: word_sum.induct)
  case (1 a b data)
  have "unat a * 256 + unat b \<le> 65535" using unat_u8_le[of a] unat_u8_le[of b] by linarith
  then show ?case using 1 by simp
next
  case (2 a)
  have "unat a * 256 \<le> 65535" using unat_u8_le[of a] by linarith
  then show ?case by simp
qed simp

lemma unat_pair: "unat (push_bit 8 (ucast (a :: u8)) OR ucast (b :: u8) :: u32) = unat a * 256 + unat b"
proof -
  have "push_bit 8 (ucast a) OR ucast b = (push_bit 8 (ucast a) + ucast b :: u32)"
    by (rule disjunctive_add[symmetric]) (auto simp: bit_simps not_bit_beyond)
  moreover have "unat a * 256 + unat b < 4294967296"
    using unat_u8_less[of a] unat_u8_less[of b] by linarith
  ultimately show ?thesis by (simp add: unat_word_ariths push_bit_eq_mult unat_ucast_widen)
qed

lemma checksum_add_exact:
  "unat acc + word_sum data < 4294967296 \<Longrightarrow> unat (checksum_add data acc) = unat acc + word_sum data"
proof (induction data acc rule: checksum_add.induct)
  case (1 a b data acc)
  then have "unat (acc + (push_bit 8 (ucast a) OR ucast b)) = unat acc + (unat a * 256 + unat b)"
    by (subst unat_add_lem[THEN iffD1]) (simp_all add: unat_pair)
  with 1 show ?case by simp
next
  case (2 a acc)
  then show ?case
    using unat_pair[of a 0] by (subst checksum_add.simps, subst unat_add_lem[THEN iffD1]) simp_all
qed simp

lemma folded_step: "65536 \<le> n \<Longrightarrow> folded (n mod 65536 + n div 65536) = folded n"
proof -
  assume n: "65536 \<le> n"
  define q r where "q = n div 65536" and "r = n mod 65536"
  have split: "n = 65536 * q + r" and "1 \<le> q"
    using n by (simp_all add: q_def r_def Suc_le_eq div_greater_zero_iff)
  then have "n - 1 = (r + q - 1) + q * 65535" by simp
  then have "(n - 1) mod 65535 = (r + q - 1) mod 65535" by (metis mod_mult_self1)
  then show ?thesis
    using n \<open>1 \<le> q\<close> unfolding q_def[symmetric] r_def[symmetric] by (auto simp: folded_def)
qed

lemma unat_checksum_fold: "unat (checksum_fold acc) = folded (unat acc)"
proof (induction acc rule: checksum_fold.induct)
  case (1 acc)
  show ?case
  proof (cases "drop_bit 16 acc = 0")
    case True
    then have "unat acc < 65536" by (simp add: high_half_zero)
    with True show ?thesis by (simp add: checksum_fold.simps[of acc] folded_def)
  next
    case False
    then have "65536 \<le> unat acc" by (simp add: high_half_zero)
    with 1[OF False] fold_decreases[OF False] folded_step False show ?thesis
      by (simp add: checksum_fold.simps[of acc])
  qed
qed

lemma folded_bound: "folded n \<le> 65535"
proof -
  have "(n - 1) mod 65535 < 65535" by (rule mod_less_divisor) simp
  then have "(n - 1) mod 65535 + 1 \<le> 65535" by linarith
  then show ?thesis unfolding folded_def by (simp split: if_split)
qed

lemma folded_div: "0 < n \<Longrightarrow> n = 65535 * ((n - 1) div 65535) + folded n"
  using mult_div_mod_eq[of 65535 "n - 1"] by (simp add: folded_def)

lemma all_ones: "unat (- 1 :: u16) = 65535"
  by (simp add: unsigned_minus_1_eq_mask mask_eq_exp_minus_1)

lemma unat_checksum_finish: "unat (checksum_finish acc) = 65535 - folded (unat acc)"
proof -
  let ?f = "checksum_fold acc"
  have low: "unat ?f \<le> 65535" by (simp add: unat_checksum_fold folded_bound)
  then have "ucast (NOT ?f) = NOT (ucast ?f :: u16)" by (intro bit_word_eqI) (auto simp: bit_simps)
  moreover have "unat (ucast ?f :: u16) = unat ?f"
    using low by (simp add: unsigned_ucast_eq take_bit_nat_eq_self)
  moreover have "unat (NOT (x :: u16)) = 65535 - unat x" for x
  proof -
    have "NOT x = (- 1) - x" by (simp add: not_eq_complement)
    then show ?thesis by (simp add: unat_sub[of x "- 1"] word_less_eq_iff_unsigned all_ones)
  qed
  ultimately show ?thesis by (simp add: checksum_finish_def unat_checksum_fold)
qed

text \<open>
  The block with its complemented sum added is intact. The second form is the UDP variant, where a
  checksum of zero is sent as its other representation.
\<close>

lemma finish_completes:
  assumes "unat acc = n" "m = n + unat (checksum_finish acc)"
  shows "0 < m \<and> m mod 65535 = 0"
proof -
  have f: "m + folded n = n + 65535" using assms folded_bound[of n] by (simp add: unat_checksum_finish)
  show ?thesis
  proof (cases "n = 0")
    case False
    then have "m = 65535 * ((n - 1) div 65535 + 1)" using f folded_div[of n] by simp
    then show ?thesis by simp
  qed (use f in \<open>simp add: folded_def\<close>)
qed

lemma finish_completes_udp:
  assumes "unat acc = n" "c = (if checksum_finish acc = 0 then - 1 else checksum_finish acc)" "m = n + unat (c :: u16)"
  shows "0 < m \<and> m mod 65535 = 0 \<and> c \<noteq> 0"
proof (cases "checksum_finish acc = 0")
  case True
  then have "m = n + unat (checksum_finish acc) + 65535" using assms by (simp add: all_ones)
  then show ?thesis using finish_completes[OF assms(1) refl] True assms(2) by simp
next
  case False
  then show ?thesis using finish_completes[OF assms(1)] assms by simp
qed

end
