(* ===== verification/Frames.thy ===== *)
theory Frames
  imports Checksum
begin

text \<open>
  The frames that JanusGate sends itself: the link envelope of a packet it has parsed, a minimal IPv4
  or IPv6 header and a transport segment. \<open>parse_answer\<close> is what the packet parser makes of such a frame;
  the builders of resets and responses are verified against it.
\<close>

section \<open>Headers and their checksums\<close>

abbreviation IPV4_HEADER_SIZE :: nat where "IPV4_HEADER_SIZE \<equiv> 20"
abbreviation IPV6_HEADER_SIZE :: nat where "IPV6_HEADER_SIZE \<equiv> 40"

definition ipv4_header :: "nat \<Rightarrow> u16 \<Rightarrow> u8 \<Rightarrow> bytes \<Rightarrow> bytes \<Rightarrow> u16 \<Rightarrow> bytes" where
  "ipv4_header n ident protocol src dst check =
     [0x45, 0] @ u16_be (of_nat (20 + n)) @ u16_be ident @ [0, 0, 64, protocol] @ u16_be check @ src @ dst"

definition ipv6_header :: "nat \<Rightarrow> u8 \<Rightarrow> bytes \<Rightarrow> bytes \<Rightarrow> bytes" where
  "ipv6_header n protocol src dst = [0x60, 0, 0, 0] @ u16_be (of_nat n) @ [protocol, 64] @ src @ dst"

definition network_header :: "jg_ip_version \<Rightarrow> nat \<Rightarrow> u16 \<Rightarrow> u8 \<Rightarrow> bytes \<Rightarrow> bytes \<Rightarrow> bytes" where
  "network_header version n ident protocol src dst =
     (if version = JG_IP_V4
      then ipv4_header n ident protocol src dst (checksum_finish (checksum_add (ipv4_header n ident protocol src dst 0) 0))
      else ipv6_header n protocol src dst)"

definition header_size :: "jg_ip_version \<Rightarrow> nat" where
  "header_size version = (if version = JG_IP_V4 then 20 else 40)"

definition address_width :: "jg_ip_version \<Rightarrow> nat" where
  "address_width version = (if version = JG_IP_V4 then 4 else 16)"

text \<open>The pseudo-headers that transport checksums cover.\<close>

definition pseudo_header :: "jg_ip_version \<Rightarrow> bytes \<Rightarrow> bytes \<Rightarrow> u8 \<Rightarrow> nat \<Rightarrow> bytes" where
  "pseudo_header version src dst protocol n =
     (if version = JG_IP_V4 then src @ dst @ [0, protocol] @ u16_be (of_nat n)
      else src @ dst @ u32_be (of_nat n) @ [0, 0, 0, protocol])"

text \<open>What a receiver checks of a parsed frame.\<close>

definition ip_header_intact :: "jg_packet_view \<Rightarrow> bool" where
  "ip_header_intact v \<longleftrightarrow> ip_version v \<noteq> JG_IP_V4
     \<or> checksum_valid (slice (network_offset v) (transport_offset v - network_offset v) (frame v))"

definition segment_intact :: "jg_packet_view \<Rightarrow> bool" where
  "segment_intact v \<longleftrightarrow> checksum_valid
     (pseudo_header (ip_version v) (take (address_size v) (source_address v))
        (take (address_size v) (destination_address v)) (ip_protocol v) (transport_size v)
      @ slice (transport_offset v) (transport_size v) (frame v))"

lemma length_ipv4_header [simp]: "length (ipv4_header n i p s d c) = 12 + length s + length d"
  by (simp add: ipv4_header_def)

lemma length_ipv6_header [simp]: "length (ipv6_header n p s d) = 8 + length s + length d"
  by (simp add: ipv6_header_def)

lemma length_network_header:
  "length s = address_width v \<Longrightarrow> length d = address_width v \<Longrightarrow> length (network_header v n i p s d) = header_size v"
  by (simp add: network_header_def address_width_def header_size_def)

lemma word_sum_ipv4_header:
  assumes "even (length s)"
  shows "word_sum (ipv4_header n i p s d c) = word_sum (ipv4_header n i p s d 0) + unat c"
  using assms by (simp add: ipv4_header_def)

lemma ipv4_header_checksum:
  assumes "length s = 4" "length d = 4"
    and "c = checksum_finish (checksum_add (ipv4_header n i p s d 0) 0)"
  shows "checksum_valid (ipv4_header n i p s d c)"
proof -
  have "word_sum (ipv4_header n i p s d 0) \<le> 655350"
    using word_sum_bound[of "ipv4_header n i p s d 0"] assms by simp
  then have "unat (checksum_add (ipv4_header n i p s d 0) 0) = word_sum (ipv4_header n i p s d 0)"
    by (subst checksum_add_exact) simp_all
  from finish_completes[OF this refl] show ?thesis
    using assms(1) unfolding assms(3)[symmetric] checksum_valid_def by (subst (1 2) word_sum_ipv4_header) simp_all
qed

lemma word_sum_u32_be [simp]: "n \<le> 65535 \<Longrightarrow> word_sum (u32_be (of_nat n)) = n"
proof -
  assume n: "n \<le> 65535"
  have "u32_be v = u16_be (ucast (drop_bit 16 v)) @ u16_be (ucast v)" for v :: u32
    unfolding u32_be_def u16_be_def ff_mask by (auto intro!: bit_word_eqI simp: bit_simps)
  moreover have "unat (ucast (drop_bit 16 (of_nat n :: u32)) :: u16) = 0" "unat (ucast (of_nat n :: u32) :: u16) = n"
  proof -
    have v: "unat (of_nat n :: u32) = n" using n by (simp add: unat_of_nat)
    then have "drop_bit 16 (of_nat n :: u32) = 0" using n high_half_zero[of "of_nat n"] by simp
    then show "unat (ucast (drop_bit 16 (of_nat n :: u32)) :: u16) = 0" by simp
    show "unat (ucast (of_nat n :: u32) :: u16) = n"
      using n v by (simp add: unsigned_ucast_eq take_bit_nat_eq_self)
  qed
  ultimately show ?thesis by simp
qed

lemma word_sum_pseudo_header:
  assumes "even (length s)" "even (length d)" "n \<le> 65535"
  shows "word_sum (pseudo_header version s d protocol n) = word_sum (s @ d) + unat protocol + n"
  using assms by (simp add: pseudo_header_def unat_of_nat)

lemma even_pseudo_header: "even (length s) \<Longrightarrow> even (length d) \<Longrightarrow> even (length (pseudo_header version s d protocol n))"
  by (simp add: pseudo_header_def)

section \<open>The link envelope\<close>

text \<open>The VLAN loop reads the tags in front of the network header only.\<close>

lemma vlan_loop_local:
  assumes "vlan_loop limits v e c = Done (v', e', c')"
    and "\<forall>i. c \<le> i \<longrightarrow> i < c' \<longrightarrow> g ! i = frame v ! i" "c' \<le> length g"
  shows "vlan_loop limits (v\<lparr>frame := g\<rparr>) e c = Done (v'\<lparr>frame := g\<rparr>, e', c') \<and> c \<le> c'"
  using assms
proof (induction limits v e c rule: vlan_loop.induct)
  case (1 limits v e c)
  show ?case
  proof (cases "is_vlan_ether_type e")
    case False
    with 1(2) have "v' = v" "e' = e" "c' = c" by (simp_all add: vlan_loop.simps[of limits v e])
    with False show ?thesis by (simp add: vlan_loop.simps[of limits "v\<lparr>frame := g\<rparr>" e])
  next
    case True
    then have room: "vlan_count v < max_vlan_tags limits" "vlan_count v < JG_PACKET_VLAN_LIMIT"
      using 1(2) by (auto simp: vlan_loop.simps[of limits _ e] split: if_splits)
    obtain tag e1 where reads: "jg_read_u16_be (frame v) c = Some tag" "jg_read_u16_be (frame v) (c + 2) = Some e1"
      using 1(2) True room by (cases "jg_read_u16_be (frame v) c"; cases "jg_read_u16_be (frame v) (c + 2)")
        (auto simp: vlan_loop.simps[of limits _ e] split: if_splits simp del: jg_read_u16_be_None_iff)
    let ?v = "v\<lparr>vlan_tci := vlan_tci v @ [tag], ether_type_offset := c + 2\<rparr>"
    have rest: "vlan_loop limits ?v e1 (c + 4) = Done (v', e', c')"
      using 1(2) True room reads by (simp add: vlan_loop.simps[of limits _ e])
    have *: "vlan_loop limits (?v\<lparr>frame := g\<rparr>) e1 (c + 4) = Done (v'\<lparr>frame := g\<rparr>, e', c') \<and> c + 4 \<le> c'"
      using 1(3,4) room reads True by (intro "1.IH") (simp_all add: rest)
    have "jg_read_u16_be g c = Some tag" "jg_read_u16_be g (c + 2) = Some e1"
      using reads * 1(3,4) by (auto simp: read_be be16_def)
    moreover have swap: "?v\<lparr>frame := g\<rparr> = v\<lparr>frame := g, vlan_tci := vlan_tci v @ [tag], ether_type_offset := c + 2\<rparr>"
      by simp
    ultimately show ?thesis using *[unfolded swap] True room by (simp add: vlan_loop.simps[of limits _ e])
  qed
qed

text \<open>What the parser has established when it reaches the network header of a packet.\<close>

abbreviation active_limits :: "jg_packet_limits option \<Rightarrow> jg_packet_limits" where
  "active_limits limits \<equiv> (case limits of None \<Rightarrow> jg_packet_limits_default | Some l \<Rightarrow> l)"

definition envelope :: "jg_packet_view \<Rightarrow> bytes \<Rightarrow> jg_packet_view" where
  "envelope v g = cleared_view\<lparr>frame := g, ether_type_offset := ether_type_offset v, ether_type := ether_type v,
     vlan_tci := vlan_tci v, network_offset := network_offset v\<rparr>"

definition limits_usable :: "jg_packet_limits \<Rightarrow> bool" where
  "limits_usable l \<longleftrightarrow> max_vlan_tags l \<le> JG_PACKET_VLAN_LIMIT \<and> max_ipv6_extensions l \<noteq> 0 \<and> max_ipv6_extension_bytes l \<noteq> 0"

lemma vlan_loop_keeps:
  "vlan_loop limits v e c = Done (v', e', c') \<Longrightarrow>
   v' = v\<lparr>vlan_tci := vlan_tci v', ether_type_offset := ether_type_offset v'\<rparr>"
proof (induction limits v e c rule: vlan_loop.induct)
  case (1 limits v e c)
  show ?case
  proof (cases "is_vlan_ether_type e")
    case False
    with 1(2) show ?thesis by (simp add: vlan_loop.simps[of limits v e])
  next
    case True
    then have room: "vlan_count v < max_vlan_tags limits" "vlan_count v < JG_PACKET_VLAN_LIMIT"
      using 1(2) by (auto simp: vlan_loop.simps[of limits _ e] split: if_splits)
    obtain tag e1 where reads: "jg_read_u16_be (frame v) c = Some tag" "jg_read_u16_be (frame v) (c + 2) = Some e1"
      using 1(2) True room by (cases "jg_read_u16_be (frame v) c"; cases "jg_read_u16_be (frame v) (c + 2)")
        (auto simp: vlan_loop.simps[of limits _ e] split: if_splits simp del: jg_read_u16_be_None_iff)
    let ?v = "v\<lparr>vlan_tci := vlan_tci v @ [tag], ether_type_offset := c + 2\<rparr>"
    have rest: "vlan_loop limits ?v e1 (c + 4) = Done (v', e', c')"
      using 1(2) True room reads by (simp add: vlan_loop.simps[of limits _ e])
    have "v' = ?v\<lparr>vlan_tci := vlan_tci v', ether_type_offset := ether_type_offset v'\<rparr>"
      by (rule "1.IH") (use room reads True rest in simp_all)
    then show ?thesis by simp
  qed
qed

lemma parse_envelope:
  assumes "jg_packet_parse f limits = Done (JG_PACKET_OK, v)"
  shows "limits_usable (active_limits limits) \<and> 14 \<le> length f \<and> (\<exists>w e c.
    vlan_loop (active_limits limits) (cleared_view\<lparr>frame := f, ether_type_offset := 12\<rparr>) (be16 f 12) 14 = Done (w, e, c)
    \<and> w\<lparr>ether_type := e, network_offset := c\<rparr> = envelope v f \<and> e = ether_type v \<and> c = network_offset v
    \<and> ((ether_type v = JG_ETHERTYPE_IPV4 \<and> parse_ipv4 (envelope v f) = Done v)
       \<or> (ether_type v = JG_ETHERTYPE_IPV6 \<and> parse_ipv6 (envelope v f) (active_limits limits) = Done v)))"
proof -
  let ?l = "active_limits limits" and ?v = "cleared_view\<lparr>frame := f, ether_type_offset := 12\<rparr>"
  have usable: "limits_usable ?l" "14 \<le> length f"
    using assms by (auto simp: jg_packet_parse_def Let_def limits_usable_def split: if_splits)
  then have start: "jg_read_u16_be f 12 = Some (be16 f 12)" by (simp add: read_be)
  from usable start assms obtain w e c where loop: "vlan_loop ?l ?v (be16 f 12) 14 = Done (w, e, c)"
    by (auto simp: jg_packet_parse_def Let_def limits_usable_def)
  let ?w = "w\<lparr>ether_type := e, network_offset := c\<rparr>"
  have w: "w = ?v\<lparr>vlan_tci := vlan_tci w, ether_type_offset := ether_type_offset w\<rparr>"
    by (rule vlan_loop_keeps[OF loop])
  have net: "(e = JG_ETHERTYPE_IPV4 \<and> parse_ipv4 ?w = Done v) \<or> (e = JG_ETHERTYPE_IPV6 \<and> parse_ipv6 ?w ?l = Done v)"
    using assms usable start loop by (auto simp: jg_packet_parse_def Let_def limits_usable_def split: if_splits)
  have fields: "source_address w = replicate 16 0" "destination_address w = replicate 16 0"
    by (subst w, simp add: cleared_view_def)+
  have "ethernet_part v = ethernet_part ?w"
    using net ensuresD[OF parse_ipv4_ensures, of ?w v] ensuresD[OF parse_ipv6_ensures, of ?w ?l v] fields by auto
  then have v: "ether_type v = e" "network_offset v = c" "vlan_tci v = vlan_tci w" "ether_type_offset v = ether_type_offset w"
    by (simp_all add: ethernet_part_def)
  have "?w = envelope v f"
    unfolding envelope_def v by (subst w) simp
  with usable loop net v show ?thesis by auto
qed

section \<open>What the parser makes of a built frame\<close>

lemma slice_append_right: "length a \<le> k \<Longrightarrow> slice k j (a @ b) = slice (k - length a) j b"
  by (simp add: slice_def)

lemma slice_append_left: "k + j \<le> length a \<Longrightarrow> slice k j (a @ b) = slice k j a"
  by (simp add: slice_def)

lemma slice_Cons: "0 < k \<Longrightarrow> slice k j (x # xs) = slice (k - 1) j xs"
  by (simp add: slice_def drop_Cons')

lemma u16_be_nil: "u16_be 0 = [0, 0]"
  by (simp add: u16_be_def)

lemmas slice_append = slice_append_right slice_append_left slice_Cons u16_be_nil

definition answer_view :: "jg_packet_view \<Rightarrow> bytes \<Rightarrow> u16 \<Rightarrow> u8 \<Rightarrow> bytes \<Rightarrow> bytes \<Rightarrow> nat \<Rightarrow> jg_packet_view" where
  "answer_view v g ident protocol src dst m = (envelope v g)\<lparr>ip_version := ip_version v,
     fragment_id := (if ip_version v = JG_IP_V4 then ucast ident else 0),
     address_size := address_width (ip_version v), source_address := src @ replicate (16 - length src) 0,
     destination_address := dst @ replicate (16 - length dst) 0, ip_protocol := protocol,
     transport_offset := network_offset v + header_size (ip_version v), transport_size := m\<rparr>"

lemma envelope_simps [simp]:
  "frame (envelope v g) = g" "ether_type (envelope v g) = ether_type v" "network_offset (envelope v g) = network_offset v"
  "source_address (envelope v g) = replicate 16 0" "destination_address (envelope v g) = replicate 16 0"
  by (simp_all add: envelope_def cleared_view_def)

lemma parse_ipv4_answer:
  assumes g: "g = link @ ipv4_header m ident protocol src dst check @ segment" "length link = network_offset v"
    and "length src = 4" "length dst = 4" "length segment = m" "20 + m \<le> 65535" "ip_version v = JG_IP_V4"
  shows "parse_ipv4 (envelope v g) = parse_transport (answer_view v g ident protocol src dst m)"
proof -
  let ?n = "network_offset v"
  have size: "length g = ?n + 20 + m" using assms by simp
  have bytes: "g ! ?n = 0x45" "g ! (?n + 9) = protocol"
    using assms(2) by (simp_all add: g(1) nth_append ipv4_header_def u16_be_def)
  have words: "jg_read_u16_be g (?n + 2) = Some (of_nat (20 + m))" "jg_read_u16_be g (?n + 4) = Some ident"
    "jg_read_u16_be g (?n + 6) = Some 0"
    using assms(2) size
    by (simp_all add: jg_read_u16_be_Some_iff slice_append g(1) ipv4_header_def)
  have addresses: "slice (?n + 12) 4 g = src" "slice (?n + 16) 4 g = dst"
    using assms(2-4) by (simp_all add: g(1) slice_append ipv4_header_def)
  have "unat (of_nat (20 + m) :: u16) = 20 + m" using assms(6) by (subst unat_of_nat) simp
  then show ?thesis
    using size bytes words addresses assms(3-7)
    by (simp add: parse_ipv4_def Let_def copy_address_in answer_view_def header_size_def address_width_def envelope_def cleared_view_def)
qed

lemma parse_ipv6_answer:
  assumes g: "g = link @ ipv6_header m protocol src dst @ segment" "length link = network_offset v"
    and "length src = 16" "length dst = 16" "length segment = m" "m \<le> 65535" "ip_version v = JG_IP_V6"
    and "protocol = IPPROTO_UDP \<or> protocol = IPPROTO_TCP"
  shows "parse_ipv6 (envelope v g) limits = parse_transport (answer_view v g ident protocol src dst m)"
proof -
  let ?n = "network_offset v"
  have size: "length g = ?n + 40 + m" using assms by simp
  have bytes: "g ! ?n = 0x60" "g ! (?n + 6) = protocol"
    using assms(2) by (simp_all add: g(1) nth_append ipv6_header_def u16_be_def)
  have words: "jg_read_u16_be g (?n + 4) = Some (of_nat m)"
    using assms(2) size by (simp add: jg_read_u16_be_Some_iff slice_append g(1) ipv6_header_def)
  have addresses: "slice (?n + 8) 16 g = src" "slice (?n + 24) 16 g = dst"
    using assms(2-4) by (simp_all add: g(1) slice_append ipv6_header_def)
  have m: "unat (of_nat m :: u16) = m" using assms(6) by (simp add: unat_of_nat)
  have no_extension: "extension_loop limits w protocol c r 0 0 = Done (w, protocol, c, r)" for w c r
    using assms(8) by (subst extension_loop.simps) (auto simp: is_ipv6_common_extension_def)
  let ?w = "(envelope v g)\<lparr>ip_version := JG_IP_V6, address_size := 16, source_address := src,
    destination_address := dst, transport_offset := ?n + 40, transport_size := m\<rparr>"
  let ?u = "(envelope v g)\<lparr>ip_version := JG_IP_V6, address_size := 16, source_address := src,
    destination_address := dst, ip_protocol := protocol, transport_offset := ?n + 40, transport_size := m\<rparr>"
  have "parse_ipv6 (envelope v g) limits = parse_ipv6_extensions ?w limits protocol"
    using size bytes words addresses m by (simp add: parse_ipv6_def Let_def copy_address_in JG_PACKET_ADDRESS_SIZE_def)
  moreover have "protocol \<noteq> JG_IPPROTO_ESP" using assms(8) by auto
  then have "parse_ipv6_extensions ?w limits protocol = parse_transport ?u"
    by (simp add: parse_ipv6_extensions_def no_extension)
  moreover have "?u = answer_view v g ident protocol src dst m"
    using assms(3,4,7) by (simp add: answer_view_def header_size_def address_width_def envelope_def cleared_view_def)
  ultimately show ?thesis by simp
qed

lemma parse_answer:
  assumes parsed: "jg_packet_parse f limits = Done (JG_PACKET_OK, v)"
    and g: "g = link @ network_header (ip_version v) m ident protocol src dst @ segment" "length link = network_offset v"
    and link: "\<forall>i. 12 \<le> i \<longrightarrow> i < network_offset v \<longrightarrow> link ! i = f ! i"
    and addresses: "length src = address_width (ip_version v)" "length dst = address_width (ip_version v)"
    and segment: "length segment = m" "m \<le> 65535" "ip_version v = JG_IP_V4 \<longrightarrow> 20 + m \<le> 65535"
    and "protocol = IPPROTO_UDP \<or> protocol = IPPROTO_TCP"
  shows "jg_packet_parse g limits
    = and_then (parse_transport (answer_view v g ident protocol src dst m)) (\<lambda>w. Done (JG_PACKET_OK, w))"
proof -
  let ?l = "active_limits limits" and ?v = "cleared_view\<lparr>frame := f, ether_type_offset := 12\<rparr>"
  from parse_envelope[OF parsed] obtain w e c where usable: "limits_usable ?l" "14 \<le> length f"
    and loop: "vlan_loop ?l ?v (be16 f 12) 14 = Done (w, e, c)" "e = ether_type v" "c = network_offset v"
    and w: "w\<lparr>ether_type := e, network_offset := c\<rparr> = envelope v f"
    and net: "(ether_type v = JG_ETHERTYPE_IPV4 \<and> parse_ipv4 (envelope v f) = Done v)
       \<or> (ether_type v = JG_ETHERTYPE_IPV6 \<and> parse_ipv6 (envelope v f) ?l = Done v)" by auto
  have version: "ether_type v = JG_ETHERTYPE_IPV4 \<and> ip_version v = JG_IP_V4
      \<or> ether_type v = JG_ETHERTYPE_IPV6 \<and> ip_version v = JG_IP_V6"
    using net ensuresD[OF parse_ipv4_ensures, of "envelope v f" v] ensuresD[OF parse_ipv6_ensures, of "envelope v f" ?l v]
    by (auto simp: ipv4_valid_def ipv6_valid_def Let_def)
  have n: "14 \<le> network_offset v"
    using ensuresD[OF packet_parse_ensures parsed] by (simp add: ethernet_valid_def)
  have same: "g ! i = f ! i" if "12 \<le> i" "i < network_offset v" for i
    using that link g by (simp add: nth_append)
  have "vlan_loop ?l (?v\<lparr>frame := g\<rparr>) (be16 f 12) 14 = Done (w\<lparr>frame := g\<rparr>, e, c) \<and> 14 \<le> c"
    by (rule vlan_loop_local[OF loop(1)]) (use same loop(3) g in simp_all)
  moreover have "?v\<lparr>frame := g\<rparr> = cleared_view\<lparr>frame := g, ether_type_offset := 12\<rparr>" by simp
  moreover have "jg_read_u16_be g 12 = Some (be16 f 12)"
    using n same g by (auto simp: read_be be16_def)
  moreover have "w\<lparr>frame := g, ether_type := e, network_offset := c\<rparr> = envelope v g"
  proof -
    have "w\<lparr>frame := g, ether_type := e, network_offset := c\<rparr> = w\<lparr>ether_type := e, network_offset := c\<rparr>\<lparr>frame := g\<rparr>" by simp
    also have "\<dots> = envelope v g" by (simp only: w) (simp add: envelope_def)
    finally show ?thesis .
  qed
  moreover have "14 \<le> length g" using n g by simp
  ultimately have "jg_packet_parse g limits = and_then (if ether_type v = JG_ETHERTYPE_IPV4
      then parse_ipv4 (envelope v g) else parse_ipv6 (envelope v g) ?l) (\<lambda>w. Done (JG_PACKET_OK, w))"
    using usable version loop(2,3) by (auto simp only: jg_packet_parse_def Let_def limits_usable_def) simp_all
  then show ?thesis
    using version g addresses segment assms(10)
    by (auto simp: network_header_def header_size_def address_width_def parse_ipv4_answer parse_ipv6_answer[where ident = ident])
qed

section \<open>Writing through pointers into a frame\<close>

text \<open>
  \<open>poke\<close> is \<open>p[i] = b\<close>, \<open>clear_at\<close> is \<open>memset(p + off, 0, n)\<close>, \<open>copy_at\<close> is \<open>memcpy(p + off, src, n)\<close> and
  \<open>window\<close> runs a bounded write on the \<open>n\<close> bytes behind \<open>p + off\<close> and ignores its result, as the callers do.
\<close>

definition poke :: "bytes \<Rightarrow> nat \<Rightarrow> u8 \<Rightarrow> (errno, bytes) run" where
  "poke buf i b = raw (store_at buf i [b])"

definition clear_at :: "bytes \<Rightarrow> nat \<Rightarrow> nat \<Rightarrow> (errno, bytes) run" where
  "clear_at buf off n = raw (store_at buf off (replicate n 0))"

definition copy_at :: "bytes \<Rightarrow> nat \<Rightarrow> bytes \<Rightarrow> nat \<Rightarrow> (errno, bytes) run" where
  "copy_at buf off src n = and_then (raw (bytes_at src 0 n)) (\<lambda>part. raw (store_at buf off part))"

definition window :: "bytes \<Rightarrow> nat \<Rightarrow> nat \<Rightarrow> (bytes \<Rightarrow> bool \<times> bytes) \<Rightarrow> (errno, bytes) run" where
  "window buf off n write = and_then (raw (bytes_at buf off n)) (\<lambda>part. raw (store_at buf off (snd (write part))))"

lemma blit_into:
  assumes "k + length src \<le> length block" "off + length block \<le> length f"
  shows "blit (blit f off block) (off + k) src = blit f off (blit block k src)"
  using assms by (intro nth_equalityI) (auto simp: nth_blit)

lemma blit_slice: "off + n \<le> length f \<Longrightarrow> blit f off (slice off n f) = f"
  by (intro nth_equalityI) (auto simp: nth_blit)

text \<open>
  The operations on a block of a frame: everything that happens behind \<open>p + off\<close> happens in the block.
\<close>

lemma block_ops:
  assumes "off + length block \<le> length f"
  shows "k + 1 \<le> length block \<Longrightarrow> poke (blit f off block) (off + k) b = Done (blit f off (blit block k [b]))"
    and "k + n \<le> length block \<Longrightarrow> n \<le> length src \<Longrightarrow>
      copy_at (blit f off block) (off + k) src n = Done (blit f off (blit block k (take n src)))"
    and "n = length block \<Longrightarrow> k + 2 \<le> n \<Longrightarrow>
      window (blit f off block) off n (\<lambda>p. jg_write_u16_be p k v) = Done (blit f off (blit block k (u16_be v)))"
    and "n = length block \<Longrightarrow> k + 4 \<le> n \<Longrightarrow>
      window (blit f off block) off n (\<lambda>p. jg_write_u32_be p k w) = Done (blit f off (blit block k (u32_be w)))"
proof -
  note into = blit_into[OF _ assms]
  show "k + 1 \<le> length block \<Longrightarrow> poke (blit f off block) (off + k) b = Done (blit f off (blit block k [b]))"
    using assms into[of k "[b]"] by (simp add: poke_def)
  show "k + n \<le> length block \<Longrightarrow> n \<le> length src \<Longrightarrow>
      copy_at (blit f off block) (off + k) src n = Done (blit f off (blit block k (take n src)))"
    using assms into[of k "take n src"] by (simp add: copy_at_def)
  show "n = length block \<Longrightarrow> k + 2 \<le> n \<Longrightarrow>
      window (blit f off block) off n (\<lambda>p. jg_write_u16_be p k v) = Done (blit f off (blit block k (u16_be v)))"
    using assms into[of 0 "blit block k (u16_be v)"] by (simp add: window_def write_u16_blit)
  show "n = length block \<Longrightarrow> k + 4 \<le> n \<Longrightarrow>
      window (blit f off block) off n (\<lambda>p. jg_write_u32_be p k w) = Done (blit f off (blit block k (u32_be w)))"
    using assms into[of 0 "blit block k (u32_be w)"] by (simp add: window_def write_u32_blit)
qed

lemma clear_at_in: "off + n \<le> length f \<Longrightarrow> clear_at f off n = Done (blit f off (replicate n 0))"
  by (simp add: clear_at_def)

text \<open>A frame is written block by block.\<close>

lemma blit_next: "length block \<le> length c \<Longrightarrow> blit (a @ c) (length a) block = a @ block @ drop (length block) c"
  by (simp add: blit_def)

text \<open>The header blocks as the builders fill them.\<close>

lemma zeros_20: "replicate 20 (0 :: u8) = [0, 0, 0, 0, 0, 0, 0, 0, 0, 0, 0, 0, 0, 0, 0, 0, 0, 0, 0, 0]"
  by (simp add: eval_nat_numeral)

lemma zeros_40: "replicate 40 (0 :: u8) = [0, 0, 0, 0, 0, 0, 0, 0] @ replicate 16 0 @ replicate 16 0"
  by (simp add: eval_nat_numeral)

lemma ipv4_block:
  assumes "length s = 4" "length d = 4"
  shows "blit (blit (blit (blit (blit (blit (replicate 20 0) 0 [0x45]) 2 (u16_be l)) 8 [64]) 9 [proto]) 12 s) 16 d
    = [0x45, 0] @ u16_be l @ [0, 0, 0, 0, 64, proto, 0, 0] @ s @ d"
  using assms by (simp add: zeros_20 blit_def u16_be_def)

lemma ipv6_block:
  assumes "length s = 16" "length d = 16"
  shows "blit (blit (blit (blit (blit (blit (replicate 40 0) 0 [0x60]) 4 (u16_be l)) 6 [proto]) 7 [64]) 8 s) 24 d
    = [0x60, 0, 0, 0] @ u16_be l @ [proto, 64] @ s @ d"
  using assms by (simp add: zeros_40 blit_def u16_be_def)

lemma slice_of_network_header:
  assumes "length s = address_width version" "length d = address_width version"
  shows "slice (if version = JG_IP_V4 then 12 else 8) (2 * address_width version) (network_header version l i proto s d) = s @ d"
  using assms by (simp add: network_header_def ipv4_header_def ipv6_header_def slice_append address_width_def slice_def)

text \<open>The link envelope and the addresses of an answer, in the reverse direction or not.\<close>

definition link_reply :: "bool \<Rightarrow> bytes \<Rightarrow> bytes" where
  "link_reply reverse link = (if reverse then slice 6 6 link @ take 6 link @ drop 12 link else link)"

lemma length_link_reply [simp]: "12 \<le> length link \<Longrightarrow> length (link_reply reverse link) = length link"
  by (simp add: link_reply_def)

lemma link_reply_tail: "12 \<le> i \<Longrightarrow> i < length link \<Longrightarrow> link_reply reverse link ! i = link ! i"
  by (auto simp: link_reply_def nth_append)

lemma link_reply_head: "12 \<le> length link \<Longrightarrow> take 12 (link_reply reverse link @ r) =
  (if reverse then slice 6 6 link @ take 6 link else take 12 link)"
  by (simp add: link_reply_def)

abbreviation reply_source :: "bool \<Rightarrow> jg_packet_view \<Rightarrow> bytes" where
  "reply_source reverse p \<equiv> take (address_width (ip_version p)) (if reverse then destination_address p else source_address p)"

abbreviation reply_destination :: "bool \<Rightarrow> jg_packet_view \<Rightarrow> bytes" where
  "reply_destination reverse p \<equiv> take (address_width (ip_version p)) (if reverse then source_address p else destination_address p)"

text \<open>What the builders use of the network header of a parsed packet.\<close>

definition network_view :: "jg_packet_view \<Rightarrow> bool" where
  "network_view p \<longleftrightarrow> 14 \<le> network_offset p \<and> network_offset p \<le> 46 \<and> network_offset p \<le> frame_size p
     \<and> length (source_address p) = 16 \<and> length (destination_address p) = 16
     \<and> take (address_width (ip_version p)) (source_address p) @ replicate (16 - address_width (ip_version p)) 0 = source_address p
     \<and> take (address_width (ip_version p)) (destination_address p) @ replicate (16 - address_width (ip_version p)) 0 = destination_address p
     \<and> (ip_version p = JG_IP_V4 \<or> ip_version p = JG_IP_V6) \<and> address_size p = address_width (ip_version p)
     \<and> transport_size p \<le> 65535"

lemma parsed_network:
  assumes "jg_packet_parse f limits = Done (JG_PACKET_OK, p)"
  shows "network_view p"
proof -
  have eth: "ethernet_valid p" "vlan_count p \<le> max_vlan_tags (active_limits limits)" "max_vlan_tags (active_limits limits) \<le> 8"
    and net: "ipv4_valid p \<or> ipv6_valid (active_limits limits) p" and tr: "transport_valid p"
    using ensuresD[OF packet_parse_ensures assms] parse_envelope[OF assms]
    by (simp_all add: limits_usable_def JG_PACKET_VLAN_LIMIT_def)
  have v4: "ipv4_valid p \<Longrightarrow> network_offset p + 20 \<le> transport_offset p
      \<and> transport_offset p + transport_size p = network_offset p + unat (be16 (frame p) (network_offset p + 2))"
    by (simp add: ipv4_valid_def Let_def)
  have v6: "ipv6_valid (active_limits limits) p \<Longrightarrow> network_offset p + 40 \<le> transport_offset p
      \<and> transport_offset p + transport_size p = network_offset p + 40 + unat (be16 (frame p) (network_offset p + 4))"
    by (simp add: ipv6_valid_def Let_def)
  have "transport_size p \<le> 65535"
    using net v4 v6 unat_u16_le[of "be16 (frame p) (network_offset p + 2)"] unat_u16_le[of "be16 (frame p) (network_offset p + 4)"]
    by linarith
  moreover have room: "transport_offset p + transport_size p \<le> frame_size p" using tr by (simp add: transport_valid_def Let_def)
  have "length (source_address p) = 16 \<and> length (destination_address p) = 16
     \<and> take (address_width (ip_version p)) (source_address p) @ replicate (16 - address_width (ip_version p)) 0 = source_address p
     \<and> take (address_width (ip_version p)) (destination_address p) @ replicate (16 - address_width (ip_version p)) 0 = destination_address p
     \<and> (ip_version p = JG_IP_V4 \<or> ip_version p = JG_IP_V6) \<and> address_size p = address_width (ip_version p)"
    using net
  proof
    assume v: "ipv4_valid p"
    then have "network_offset p + 20 \<le> frame_size p" using v4 room by linarith
    then show ?thesis using v by (simp add: ipv4_valid_def Let_def address_width_def)
  next
    assume v: "ipv6_valid (active_limits limits) p"
    then have "network_offset p + 40 \<le> frame_size p" using v6 room by linarith
    then show ?thesis using v by (simp add: ipv6_valid_def Let_def address_width_def)
  qed
  moreover have "14 \<le> network_offset p" "network_offset p \<le> 46" "network_offset p \<le> frame_size p"
    using eth(2,3) eth(1)[unfolded ethernet_valid_def] by simp_all
  ultimately show ?thesis unfolding network_view_def by blast
qed

end
