(* ===== verification/TcpReset.thy ===== *)
theory TcpReset
  imports Frames
begin

text \<open>
  \<^verbatim>\<open>src/daemon/tcp_reset.c\<close>: the pair of reset frames for a blocked TCP flow. The two frame buffers have
  128 bytes; a builder takes the buffer and returns it written.
\<close>

section \<open>Operations\<close>

definition JG_TCP_RESET_FRAME_MAX :: nat where "JG_TCP_RESET_FRAME_MAX = 128"

definition JG_TCP_FLAG_FIN :: u8 where "JG_TCP_FLAG_FIN = 0x01"
definition JG_TCP_FLAG_SYN :: u8 where "JG_TCP_FLAG_SYN = 0x02"
definition JG_TCP_FLAG_RST :: u8 where "JG_TCP_FLAG_RST = 0x04"
definition TCP_FLAG_ACK :: u8 where "TCP_FLAG_ACK = 0x10"

abbreviation TCP_HEADER_SIZE :: nat where "TCP_HEADER_SIZE \<equiv> 20"

record jg_tcp_reset_pair =
  to_client :: bytes
  to_client_size :: nat
  to_server :: bytes
  to_server_size :: nat

definition cleared_resets :: jg_tcp_reset_pair where
  "cleared_resets = \<lparr>to_client = replicate JG_TCP_RESET_FRAME_MAX 0, to_client_size = 0,
     to_server = replicate JG_TCP_RESET_FRAME_MAX 0, to_server_size = 0\<rparr>"

definition write_ipv4_checksum :: "bytes \<Rightarrow> nat \<Rightarrow> (errno, bytes) run" where
  "write_ipv4_checksum fr n =
     and_then (raw (bytes_at fr n IPV4_HEADER_SIZE)) (\<lambda>header.
       Done (snd (jg_write_u16_be fr (n + 10) (checksum_finish (checksum_add header 0)))))"

definition tcp_checksum :: "bytes \<Rightarrow> nat \<Rightarrow> jg_ip_version \<Rightarrow> (errno, u16) run" where
  "tcp_checksum fr n version =
     (let tcp_offset = n + (if version = JG_IP_V4 then IPV4_HEADER_SIZE else IPV6_HEADER_SIZE) in
      and_then (if version = JG_IP_V4 then raw (bytes_at fr (n + 12) 8) else raw (bytes_at fr (n + 8) 32)) (\<lambda>addresses.
      and_then (raw (bytes_at fr tcp_offset TCP_HEADER_SIZE)) (\<lambda>tcp.
        Done (checksum_finish (checksum_add tcp (checksum_add addresses 0 + 6 + 20))))))"

definition build_link_header :: "jg_packet_view \<Rightarrow> bool \<Rightarrow> bytes \<Rightarrow> (errno, bytes) run" where
  "build_link_header packet reverse fr =
     and_then (copy_at fr 0 (frame packet) (network_offset packet)) (\<lambda>fr.
       if reverse then
         and_then (raw (bytes_at fr 0 6)) (\<lambda>destination.
         and_then (raw (bytes_at fr 6 6)) (\<lambda>source.
         and_then (raw (store_at fr 0 source)) (\<lambda>fr. raw (store_at fr 6 destination))))
       else Done fr)"

definition build_network_header :: "jg_packet_view \<Rightarrow> bool \<Rightarrow> bytes \<Rightarrow> (errno, bytes) run" where
  "build_network_header packet reverse fr =
     (let n = network_offset packet;
          source = (if reverse then destination_address packet else source_address packet);
          destination = (if reverse then source_address packet else destination_address packet) in
      if ip_version packet = JG_IP_V4 then
        and_then (clear_at fr n IPV4_HEADER_SIZE) (\<lambda>fr.
        and_then (poke fr n 0x45) (\<lambda>fr.
        and_then (window fr n IPV4_HEADER_SIZE (\<lambda>p. jg_write_u16_be p 2 (of_nat (IPV4_HEADER_SIZE + TCP_HEADER_SIZE)))) (\<lambda>fr.
        and_then (poke fr (n + 8) 64) (\<lambda>fr.
        and_then (poke fr (n + 9) IPPROTO_TCP) (\<lambda>fr.
        and_then (copy_at fr (n + 12) source 4) (\<lambda>fr.
        and_then (copy_at fr (n + 16) destination 4) (\<lambda>fr.
          write_ipv4_checksum fr n)))))))
      else
        and_then (clear_at fr n IPV6_HEADER_SIZE) (\<lambda>fr.
        and_then (poke fr n 0x60) (\<lambda>fr.
        and_then (window fr n IPV6_HEADER_SIZE (\<lambda>p. jg_write_u16_be p 4 (of_nat TCP_HEADER_SIZE))) (\<lambda>fr.
        and_then (poke fr (n + 6) IPPROTO_TCP) (\<lambda>fr.
        and_then (poke fr (n + 7) 64) (\<lambda>fr.
        and_then (copy_at fr (n + 8) source JG_PACKET_ADDRESS_SIZE) (\<lambda>fr.
          copy_at fr (n + 24) destination JG_PACKET_ADDRESS_SIZE)))))))"

definition build_tcp_header :: "jg_packet_view \<Rightarrow> bool \<Rightarrow> u32 \<Rightarrow> u32 \<Rightarrow> u8 \<Rightarrow> bytes \<Rightarrow> (errno, bytes) run" where
  "build_tcp_header packet reverse sq acknowledgement flags fr =
     (let network_size = (if ip_version packet = JG_IP_V4 then IPV4_HEADER_SIZE else IPV6_HEADER_SIZE);
          t = network_offset packet + network_size;
          sp = (if reverse then destination_port packet else source_port packet);
          dp = (if reverse then source_port packet else destination_port packet) in
      and_then (clear_at fr t TCP_HEADER_SIZE) (\<lambda>fr.
      and_then (window fr t TCP_HEADER_SIZE (\<lambda>p. jg_write_u16_be p 0 sp)) (\<lambda>fr.
      and_then (window fr t TCP_HEADER_SIZE (\<lambda>p. jg_write_u16_be p 2 dp)) (\<lambda>fr.
      and_then (window fr t TCP_HEADER_SIZE (\<lambda>p. jg_write_u32_be p 4 sq)) (\<lambda>fr.
      and_then (window fr t TCP_HEADER_SIZE (\<lambda>p. jg_write_u32_be p 8 acknowledgement)) (\<lambda>fr.
      and_then (poke fr (t + 12) 0x50) (\<lambda>fr.
      and_then (poke fr (t + 13) flags) (\<lambda>fr.
      and_then (tcp_checksum fr (network_offset packet) (ip_version packet)) (\<lambda>checksum.
        window fr t TCP_HEADER_SIZE (\<lambda>p. jg_write_u16_be p 16 checksum))))))))))"

definition build_reset :: "jg_packet_view \<Rightarrow> bool \<Rightarrow> u32 \<Rightarrow> u32 \<Rightarrow> u8 \<Rightarrow> bytes \<Rightarrow> (errno, bytes \<times> nat) run" where
  "build_reset packet reverse sq acknowledgement flags fr =
     (let network_size = (if ip_version packet = JG_IP_V4 then IPV4_HEADER_SIZE else IPV6_HEADER_SIZE) in
      case jg_size_add (network_offset packet) (network_size + TCP_HEADER_SIZE) of
        None \<Rightarrow> Fail ENOSPC
      | Some complete_size \<Rightarrow>
          if complete_size > JG_TCP_RESET_FRAME_MAX then Fail ENOSPC
          else and_then (clear_at fr 0 JG_TCP_RESET_FRAME_MAX) (\<lambda>fr.
            and_then (build_link_header packet reverse fr) (\<lambda>fr.
            and_then (build_network_header packet reverse fr) (\<lambda>fr.
            and_then (build_tcp_header packet reverse sq acknowledgement flags fr) (\<lambda>fr.
              Done (fr, complete_size))))))"

definition packet_valid :: "jg_packet_view \<Rightarrow> bool" where
  "packet_valid packet \<longleftrightarrow>
     network_offset packet \<ge> 14 \<and> network_offset packet \<le> JG_TCP_RESET_FRAME_MAX
     \<and> transport packet = JG_TRANSPORT_TCP \<and> ip_protocol packet = IPPROTO_TCP \<and> \<not> fragmented packet
     \<and> ((ip_version packet = JG_IP_V4 \<and> address_size packet = 4)
        \<or> (ip_version packet = JG_IP_V6 \<and> address_size packet = JG_PACKET_ADDRESS_SIZE))
     \<and> jg_range_valid 0 (network_offset packet) (frame_size packet)
     \<and> jg_range_valid (payload_offset packet) (payload_size packet) (frame_size packet)
     \<and> payload_size packet \<le> UINT32_MAX - 2"

text \<open>\<open>jg_tcp_reset_build\<close>; on an error the pair is cleared.\<close>

definition jg_tcp_reset_build :: "jg_packet_view \<Rightarrow> (errno, jg_tcp_reset_pair) run" where
  "jg_tcp_reset_build packet =
     (if \<not> packet_valid packet then Fail EINVAL
      else let
        segment_size = (of_nat (payload_size packet) :: u32);
        segment_size = (if tcp_flags packet AND JG_TCP_FLAG_SYN \<noteq> 0 then segment_size + 1 else segment_size);
        segment_size = (if tcp_flags packet AND JG_TCP_FLAG_FIN \<noteq> 0 then segment_size + 1 else segment_size);
        (client_sequence, client_acknowledgement, client_flags) =
          (if tcp_flags packet AND TCP_FLAG_ACK \<noteq> 0 then (tcp_acknowledgement packet, 0, JG_TCP_FLAG_RST)
           else (0, tcp_sequence packet + segment_size, JG_TCP_FLAG_RST OR TCP_FLAG_ACK))
      in and_then (build_reset packet True client_sequence client_acknowledgement client_flags (to_client cleared_resets))
           (\<lambda>(client, client_size).
         and_then (build_reset packet False (tcp_sequence packet) 0 JG_TCP_FLAG_RST (to_server cleared_resets))
           (\<lambda>(server, server_size).
         Done \<lparr>to_client = client, to_client_size = client_size, to_server = server, to_server_size = server_size\<rparr>)))"

section \<open>The frames\<close>

definition tcp_header :: "u16 \<Rightarrow> u16 \<Rightarrow> u32 \<Rightarrow> u32 \<Rightarrow> u8 \<Rightarrow> u16 \<Rightarrow> bytes" where
  "tcp_header sp dp sq ack flags check =
     u16_be sp @ u16_be dp @ u32_be sq @ u32_be ack @ [0x50, flags, 0, 0] @ u16_be check @ [0, 0]"

lemma length_tcp_header [simp]: "length (tcp_header sp dp sq ack flags c) = 20"
  by (simp add: tcp_header_def)

lemma build_link_header_eq:
  assumes "12 \<le> network_offset p" "network_offset p \<le> frame_size p" "network_offset p \<le> length fr"
  shows "build_link_header p reverse fr
    = Done (link_reply reverse (take (network_offset p) (frame p)) @ drop (network_offset p) fr)"
proof -
  define link where "link = take (network_offset p) (frame p)"
  have l: "length link = network_offset p" using assms by (simp add: link_def)
  have copy: "copy_at fr 0 (frame p) (network_offset p) = Done (link @ drop (network_offset p) fr)"
    using assms by (simp add: copy_at_def blit_start link_def)
  have "take 12 link = take 6 link @ slice 6 6 link"
    using take_add[of 6 6 link] by (simp add: slice_def)
  then show ?thesis
    unfolding build_link_header_def copy link_def[symmetric] and_then.simps
    using assms l by (simp add: link_reply_def slice_append_left blit_def slice_def)
qed

lemma tcp_block:
  "blit (blit (blit (blit (blit (blit (replicate 20 0) 0 (u16_be sp)) 2 (u16_be dp)) 4 (u32_be sq)) 8 (u32_be ack))
     12 [0x50]) 13 [flags] = tcp_header sp dp sq ack flags 0"
  by (simp add: zeros_20 blit_def u16_be_def u32_be_def tcp_header_def)

lemma write_ipv4_checksum_eq:
  assumes "length s = 4" "length d = 4" "n + 20 \<le> length fr"
  shows "write_ipv4_checksum (blit fr n (ipv4_header l 0 proto s d 0)) n
    = Done (blit fr n (ipv4_header l 0 proto s d (checksum_finish (checksum_add (ipv4_header l 0 proto s d 0) 0))))"
proof -
  have "blit (ipv4_header l 0 proto s d 0) 10 (u16_be c) = ipv4_header l 0 proto s d c" for c
    using assms by (simp add: ipv4_header_def blit_def u16_be_def)
  then show ?thesis
    using assms blit_into[of 10 _ "ipv4_header l 0 proto s d 0" n fr]
    by (simp add: write_ipv4_checksum_def write_u16_blit)
qed

lemma build_network_header_eq:
  assumes "length (source_address p) = 16" "length (destination_address p) = 16"
    and "ip_version p = JG_IP_V4 \<or> ip_version p = JG_IP_V6"
    and "network_offset p + header_size (ip_version p) \<le> length fr"
  shows "build_network_header p reverse fr
    = Done (blit fr (network_offset p) (network_header (ip_version p) 20 0 IPPROTO_TCP (reply_source reverse p) (reply_destination reverse p)))"
proof -
  let ?s = "reply_source reverse p" and ?d = "reply_destination reverse p" and ?n = "network_offset p"
  have l: "length ?s = address_width (ip_version p)" "length ?d = address_width (ip_version p)"
    using assms(1,2) by (simp_all add: address_width_def)
  show ?thesis
  proof (cases "ip_version p = JG_IP_V4")
    case True
    with assms(4) have room: "?n + 20 \<le> length fr" by (simp add: header_size_def)
    note ops = block_ops(1)[of ?n _ fr 0, simplified] block_ops[of ?n _ fr]
    have "build_network_header p reverse fr = write_ipv4_checksum (blit fr ?n (ipv4_header 20 0 IPPROTO_TCP ?s ?d 0)) ?n"
      unfolding build_network_header_def Let_def
      using True room assms(1,2) l
      by (simp add: clear_at_in ops ipv4_block ipv4_header_def address_width_def u16_be_nil)
    then show ?thesis using True room l write_ipv4_checksum_eq[of ?s ?d ?n fr 20 IPPROTO_TCP]
      by (simp add: network_header_def address_width_def)
  next
    case False
    with assms(3,4) have v6: "ip_version p = JG_IP_V6" and room: "?n + 40 \<le> length fr" by (auto simp: header_size_def)
    note ops = block_ops(1)[of ?n _ fr 0, simplified] block_ops[of ?n _ fr]
    show ?thesis
      unfolding build_network_header_def Let_def
      using v6 room assms(1,2) l
      by (simp add: clear_at_in ops ipv6_block ipv6_header_def network_header_def address_width_def JG_PACKET_ADDRESS_SIZE_def)
  qed
qed

text \<open>The checksum field is the complement of the sum over pseudo-header and segment.\<close>

definition tcp_check :: "jg_ip_version \<Rightarrow> bytes \<Rightarrow> bytes \<Rightarrow> bytes \<Rightarrow> u16" where
  "tcp_check version src dst segment =
     checksum_finish (checksum_add segment (checksum_add (src @ dst) 0 + 6 + 20))"

lemma tcp_checksum_eq:
  assumes fr: "fr = link @ network_header version l 0 proto s d @ tcp @ rest" "length link = n" "length tcp = 20"
    and a: "length s = address_width version" "length d = address_width version"
  shows "tcp_checksum fr n version = Done (tcp_check version s d tcp)"
proof -
  let ?h = "network_header version l 0 proto s d"
  have h: "length ?h = header_size version" using a by (rule length_network_header)
  have "slice (n + k) j fr = slice k j ?h" if "k + j \<le> header_size version" for k j
    using that fr h by (simp add: slice_append)
  from this[of "if version = JG_IP_V4 then 12 else 8" "2 * address_width version"]
  have "slice (n + (if version = JG_IP_V4 then 12 else 8)) (2 * address_width version) fr = s @ d"
    using slice_of_network_header[OF a, of l 0 proto] by (simp add: header_size_def address_width_def)
  moreover have "slice (n + header_size version) 20 fr = tcp" using fr h by (simp add: slice_append)
  moreover have "n + header_size version + 20 \<le> length fr" using fr h by simp
  ultimately show ?thesis
    by (simp add: tcp_checksum_def tcp_check_def header_size_def address_width_def split: if_splits)
qed

lemma build_tcp_header_eq:
  assumes fr: "fr = link @ network_header (ip_version p) l 0 proto s d @ rest" "length link = network_offset p" "20 \<le> length rest"
    and a: "length s = address_width (ip_version p)" "length d = address_width (ip_version p)"
    and ports: "sp = (if reverse then destination_port p else source_port p)" "dp = (if reverse then source_port p else destination_port p)"
  shows "build_tcp_header p reverse sq ack flags fr
    = Done (link @ network_header (ip_version p) l 0 proto s d
        @ tcp_header sp dp sq ack flags (tcp_check (ip_version p) s d (tcp_header sp dp sq ack flags 0)) @ drop 20 rest)"
proof -
  let ?h = "network_header (ip_version p) l 0 proto s d" and ?t = "network_offset p + header_size (ip_version p)"
  let ?seg = "tcp_header sp dp sq ack flags" and ?c = "tcp_check (ip_version p) s d (tcp_header sp dp sq ack flags 0)"
  have h: "length ?h = header_size (ip_version p)" using a by (rule length_network_header)
  then have t: "length (link @ ?h) = ?t" using fr(2) by simp
  have put: "blit fr ?t x = link @ ?h @ x @ drop 20 rest" if "length x = 20" for x
    using that fr(3) blit_next[of x rest "link @ ?h"] unfolding t by (simp add: fr(1))
  have room: "?t + 20 \<le> length fr" using fr h by simp
  have check: "tcp_checksum (blit fr ?t (?seg 0)) (network_offset p) (ip_version p) = Done ?c"
    by (rule tcp_checksum_eq[of _ link _ l proto s d "?seg 0" "drop 20 rest"]) (use put fr(2) a in simp_all)
  have fill: "blit (?seg 0) 16 (u16_be c) = ?seg c" for c
    by (simp add: tcp_header_def blit_def u16_be_def u32_be_def)
  have size: "(if ip_version p = JG_IP_V4 then IPV4_HEADER_SIZE else IPV6_HEADER_SIZE) = header_size (ip_version p)"
    by (simp add: header_size_def)
  have "build_tcp_header p reverse sq ack flags fr = Done (blit fr ?t (?seg ?c))"
    unfolding build_tcp_header_def Let_def size ports[symmetric]
    using room by (simp add: clear_at_in block_ops tcp_block check fill)
  then show ?thesis by (simp add: put)
qed

definition reset_frame :: "jg_packet_view \<Rightarrow> bool \<Rightarrow> u32 \<Rightarrow> u32 \<Rightarrow> u8 \<Rightarrow> bytes" where
  "reset_frame p reverse sq ack flags =
     (let s = reply_source reverse p; d = reply_destination reverse p;
          sp = (if reverse then destination_port p else source_port p);
          dp = (if reverse then source_port p else destination_port p) in
      link_reply reverse (take (network_offset p) (frame p))
      @ network_header (ip_version p) 20 0 IPPROTO_TCP s d
      @ tcp_header sp dp sq ack flags (tcp_check (ip_version p) s d (tcp_header sp dp sq ack flags 0)))"

text \<open>The views that the packet parser returns for complete TCP packets.\<close>

definition tcp_view :: "jg_packet_view \<Rightarrow> bool" where
  "tcp_view p \<longleftrightarrow> 14 \<le> network_offset p \<and> network_offset p \<le> 46 \<and> network_offset p \<le> frame_size p
     \<and> length (source_address p) = 16 \<and> length (destination_address p) = 16
     \<and> (ip_version p = JG_IP_V4 \<or> ip_version p = JG_IP_V6) \<and> address_size p = address_width (ip_version p)
     \<and> transport p = JG_TRANSPORT_TCP \<and> ip_protocol p = IPPROTO_TCP \<and> \<not> fragmented p
     \<and> payload_offset p + payload_size p \<le> frame_size p \<and> payload_size p \<le> 65535"

lemma build_reset_eq:
  assumes "tcp_view p"
  shows "build_reset p reverse sq ack flags (replicate 128 0)
    = Done (reset_frame p reverse sq ack flags
        @ replicate (128 - (network_offset p + header_size (ip_version p) + 20)) 0,
      network_offset p + header_size (ip_version p) + 20)"
proof -
  let ?n = "network_offset p" and ?hs = "header_size (ip_version p)"
  let ?s = "reply_source reverse p" and ?d = "reply_destination reverse p"
  let ?link = "link_reply reverse (take ?n (frame p))" and ?h = "network_header (ip_version p) 20 0 IPPROTO_TCP ?s ?d"
  have l: "length ?s = address_width (ip_version p)" "length ?d = address_width (ip_version p)" "length ?link = ?n"
    using assms by (simp_all add: tcp_view_def address_width_def)
  have h: "length ?h = ?hs" using l(1,2) by (rule length_network_header)
  have size: "?hs \<le> 40" "(if ip_version p = JG_IP_V4 then IPV4_HEADER_SIZE else IPV6_HEADER_SIZE) = ?hs"
    by (simp_all add: header_size_def)
  have "?n \<le> 46" using assms by (simp add: tcp_view_def)
  then have add: "jg_size_add ?n (?hs + 20) = Some (?n + ?hs + 20)"
    using size(1) by (subst jg_size_add_Some_iff) (simp_all add: SIZE_MAX_def)
  have start: "clear_at (replicate 128 0) 0 128 = Done (replicate 128 0)"
    by (simp add: clear_at_in)
  have link: "build_link_header p reverse (replicate 128 0) = Done (?link @ replicate (128 - ?n) 0)"
    using assms by (subst build_link_header_eq) (simp_all add: tcp_view_def)
  have net: "build_network_header p reverse (?link @ replicate (128 - ?n) 0) = Done (?link @ ?h @ replicate (128 - ?n - ?hs) 0)"
    using assms size(1) l h blit_next[of ?h "replicate (128 - ?n) 0" ?link]
    by (subst build_network_header_eq) (auto simp: tcp_view_def simp del: take_append)
  have room: "20 \<le> length (replicate (128 - ?n - ?hs) (0 :: u8))" using \<open>?n \<le> 46\<close> size(1) by simp
  have tcp: "build_tcp_header p reverse sq ack flags (?link @ ?h @ replicate (128 - ?n - ?hs) 0)
      = Done (reset_frame p reverse sq ack flags @ drop 20 (replicate (128 - ?n - ?hs) 0))"
    by (subst build_tcp_header_eq[OF refl l(3) room l(1,2) refl refl]) (simp add: reset_frame_def Let_def)
  show ?thesis
    using \<open>?n \<le> 46\<close> size(1)
    by (simp only: build_reset_def Let_def size(2) add option.case JG_TCP_RESET_FRAME_MAX_def start link net tcp and_then.simps)
      simp
qed

lemma length_reset_frame:
  "tcp_view p \<Longrightarrow> length (reset_frame p reverse sq ack flags) = network_offset p + header_size (ip_version p) + 20"
  by (simp add: reset_frame_def Let_def tcp_view_def address_width_def length_network_header)

lemma parsed_tcp_view:
  assumes "jg_packet_parse f limits = Done (JG_PACKET_OK, p)" "transport p = JG_TRANSPORT_TCP" "\<not> fragmented p"
  shows "tcp_view p"
proof -
  have "transport_valid p" using ensuresD[OF packet_parse_ensures assms(1)] by simp
  then show ?thesis
    using parsed_network[OF assms(1)] assms(2,3) by (auto simp: tcp_view_def network_view_def transport_valid_def Let_def)
qed

lemma tcp_check_completes:
  assumes "length s = address_width version" "length d = address_width version"
  shows "checksum_valid (pseudo_header version s d IPPROTO_TCP 20
    @ tcp_header sp dp sq ack flags (tcp_check version s d (tcp_header sp dp sq ack flags 0)))"
proof -
  let ?seg = "tcp_header sp dp sq ack flags" and ?acc = "checksum_add (s @ d) 0 + 6 + 20"
  have e: "even (length s)" "even (length d)" "length (s @ d) \<le> 32" using assms by (simp_all add: address_width_def)
  have sums: "word_sum (s @ d) \<le> 1048560" "word_sum (?seg 0) \<le> 655350"
    using e(3) order_trans[OF word_sum_bound[of "s @ d"], of 1048560] word_sum_bound[of "?seg 0"] by (simp_all add: div_le_mono)
  then have a: "unat (checksum_add (s @ d) 0) = word_sum (s @ d)" by (subst checksum_add_exact) simp_all
  have b: "unat ?acc = word_sum (s @ d) + 26"
    using a sums(1) by (simp add: unat_word_ariths add.assoc)
  have "unat (checksum_add (?seg 0) ?acc) = word_sum (s @ d) + 26 + word_sum (?seg 0)"
    using b sums by (subst checksum_add_exact) simp_all
  from finish_completes[OF this refl]
  show ?thesis
    using e by (simp add: checksum_valid_def even_pseudo_header word_sum_pseudo_header tcp_check_def tcp_header_def ac_simps)
qed

lemma parse_tcp_answer:
  assumes "frame v = pre @ tcp_header sp dp sq ack flags c" "transport_offset v = length pre" "transport_size v = 20"
    and "\<not> fragmented v"
  shows "parse_tcp v = Done (v\<lparr>source_port := sp, destination_port := dp, tcp_sequence := sq, tcp_acknowledgement := ack,
     tcp_flags := flags, payload_offset := transport_offset v + 20, payload_size := 0, transport_complete := True,
     transport := JG_TRANSPORT_TCP\<rparr>)"
proof -
  let ?t = "transport_offset v"
  have "jg_read_u16_be (frame v) ?t = Some sp" "jg_read_u16_be (frame v) (?t + 2) = Some dp"
    "jg_read_u32_be (frame v) (?t + 4) = Some sq" "jg_read_u32_be (frame v) (?t + 8) = Some ack"
    using assms by (simp_all add: read_slice slice_append tcp_header_def)
  moreover have "frame v ! (?t + 12) = 0x50" "frame v ! (?t + 13) = flags"
    using assms by (simp_all add: nth_append tcp_header_def)
  ultimately show ?thesis
    using assms(1-4) by (simp add: parse_tcp_def Let_def)
qed

section \<open>Both endpoints are reset\<close>

text \<open>
  \<open>reset_for p reverse sq ack flags w\<close>: the view \<open>w\<close> of a sent frame is an empty TCP segment on the flow of
  \<open>p\<close>, in the reverse direction or not, in the same VLANs, with the given sequence numbers and flags,
  and every checksum that the receiver verifies is right.
\<close>

definition reset_for :: "jg_packet_view \<Rightarrow> bool \<Rightarrow> u32 \<Rightarrow> u32 \<Rightarrow> u8 \<Rightarrow> jg_packet_view \<Rightarrow> bool" where
  "reset_for p reverse sq ack flags w \<longleftrightarrow>
     transport w = JG_TRANSPORT_TCP \<and> transport_complete w \<and> \<not> fragmented w \<and> payload_size w = 0
     \<and> ether_type w = ether_type p \<and> vlan_tci w = vlan_tci p \<and> ip_version w = ip_version p
     \<and> take 12 (frame w) = (if reverse then slice 6 6 (frame p) @ take 6 (frame p) else take 12 (frame p))
     \<and> source_address w = (if reverse then destination_address p else source_address p)
     \<and> destination_address w = (if reverse then source_address p else destination_address p)
     \<and> source_port w = (if reverse then destination_port p else source_port p)
     \<and> destination_port w = (if reverse then source_port p else destination_port p)
     \<and> tcp_sequence w = sq \<and> tcp_acknowledgement w = ack \<and> tcp_flags w = flags
     \<and> ip_header_intact w \<and> segment_intact w"

lemma reset_frame_parses:
  assumes parsed: "jg_packet_parse f limits = Done (JG_PACKET_OK, p)" and view: "tcp_view p"
  shows "\<exists>w. jg_packet_parse (reset_frame p reverse sq ack flags) limits = Done (JG_PACKET_OK, w)
    \<and> reset_for p reverse sq ack flags w"
proof -
  define s d where "s = reply_source reverse p" and "d = reply_destination reverse p"
  define sp dp where "sp = (if reverse then destination_port p else source_port p)"
    and "dp = (if reverse then source_port p else destination_port p)"
  define link where "link = link_reply reverse (take (network_offset p) (frame p))"
  define c where "c = tcp_check (ip_version p) s d (tcp_header sp dp sq ack flags 0)"
  define h where "h = network_header (ip_version p) 20 0 IPPROTO_TCP s d"
  define g where "g = link @ h @ tcp_header sp dp sq ack flags c"
  have g: "reset_frame p reverse sq ack flags = g"
    by (simp add: reset_frame_def g_def h_def link_def c_def s_def d_def sp_def dp_def Let_def)
  have l: "length s = address_width (ip_version p)" "length d = address_width (ip_version p)" "length link = network_offset p"
    using view by (simp_all add: tcp_view_def address_width_def s_def d_def link_def)
  then have h: "length h = header_size (ip_version p)" unfolding h_def by (intro length_network_header)
  have f: "frame p = f" using ensuresD[OF packet_parse_ensures parsed] by simp
  have same: "\<forall>i. 12 \<le> i \<longrightarrow> i < network_offset p \<longrightarrow> link ! i = f ! i"
    using view f by (simp add: link_def link_reply_tail tcp_view_def)
  let ?v = "answer_view p g 0 IPPROTO_TCP s d 20"
  let ?w = "?v\<lparr>source_port := sp, destination_port := dp, tcp_sequence := sq, tcp_acknowledgement := ack,
     tcp_flags := flags, payload_offset := transport_offset ?v + 20, payload_size := 0, transport_complete := True,
     transport := JG_TRANSPORT_TCP\<rparr>"
  have v: "frame ?v = g" "transport_offset ?v = network_offset p + header_size (ip_version p)" "transport_size ?v = 20"
    "\<not> fragmented ?v" "ip_protocol ?v = IPPROTO_TCP" "network_offset ?v = network_offset p"
    by (simp_all add: answer_view_def envelope_def cleared_view_def)
  have "parse_tcp ?v = Done ?w"
    by (rule parse_tcp_answer[of _ "link @ h" _ _ _ _ _ c]) (use v l h in \<open>simp_all add: g_def\<close>)
  then have transport: "parse_transport ?v = Done ?w" using v by (simp add: parse_transport_def)
  have "header_size (ip_version p) + 20 \<le> 65535" by (simp add: header_size_def)
  then have "jg_packet_parse g limits = Done (JG_PACKET_OK, ?w)"
    using parse_answer[OF parsed g_def[unfolded h_def] l(3) same l(1,2)] transport by simp
  moreover have "ip_header_intact ?w"
    using l h ipv4_header_checksum[OF _ _ refl, of s d 20 0 IPPROTO_TCP]
    by (auto simp: ip_header_intact_def answer_view_def g_def h_def network_header_def slice_append header_size_def address_width_def)
  moreover have "segment_intact ?w"
    using tcp_check_completes[OF l(1,2), of sp dp sq ack flags] l h
    by (simp add: segment_intact_def answer_view_def g_def c_def slice_append)
  moreover have "take 12 g = (if reverse then slice 6 6 (frame p) @ take 6 (frame p) else take 12 (frame p))"
    using link_reply_head[of "take (network_offset p) (frame p)" reverse] view
    by (auto simp: g_def link_def tcp_view_def slice_def min_def take_drop)
  ultimately have "reset_for p reverse sq ack flags ?w"
    using parsed_network[OF parsed] l
    by (simp add: network_view_def reset_for_def answer_view_def envelope_def cleared_view_def s_def d_def sp_def dp_def)
  with \<open>jg_packet_parse g limits = Done (JG_PACKET_OK, ?w)\<close> g show ?thesis by auto
qed

text \<open>
  C18. Blocking a TCP flow resets both endpoints. For every complete unfragmented TCP packet that the
  parser returns, the reset pair is built, without an access outside the frames, and both frames parse as
  TCP segments of the same flow and VLANs with intact checksums: towards the client with the endpoints
  reversed, acknowledging the segment when it did not carry an acknowledgement itself, and towards the
  server with the sequence number of the dropped segment. Every other packet is refused with EINVAL.
\<close>

theorem jg_tcp_reset_build_correct:
  assumes "jg_packet_parse f limits = Done (JG_PACKET_OK, p)"
  shows "if transport p = JG_TRANSPORT_TCP \<and> \<not> fragmented p
    then \<exists>resets c s. jg_tcp_reset_build p = Done resets
      \<and> jg_packet_parse (take (to_client_size resets) (to_client resets)) limits = Done (JG_PACKET_OK, c)
      \<and> jg_packet_parse (take (to_server_size resets) (to_server resets)) limits = Done (JG_PACKET_OK, s)
      \<and> (if bit (tcp_flags p) 4 then reset_for p True (tcp_acknowledgement p) 0 0x04 c
         else reset_for p True 0 (tcp_sequence p + of_nat (payload_size p) + of_bool (bit (tcp_flags p) 1)
                + of_bool (bit (tcp_flags p) 0)) 0x14 c)
      \<and> reset_for p False (tcp_sequence p) 0 0x04 s
    else jg_tcp_reset_build p = Fail EINVAL"
proof (cases "transport p = JG_TRANSPORT_TCP \<and> \<not> fragmented p")
  case True
  then have view: "tcp_view p" using parsed_tcp_view[OF assms] by blast
  have "header_size (ip_version p) \<le> 40" by (simp add: header_size_def)
  then have valid: "packet_valid p"
    using view by (auto simp: packet_valid_def tcp_view_def address_width_def JG_TCP_RESET_FRAME_MAX_def
        JG_PACKET_ADDRESS_SIZE_def UINT32_MAX_def)
  have flags: "(x AND TCP_FLAG_ACK \<noteq> 0) = bit x 4" "(x AND JG_TCP_FLAG_SYN \<noteq> 0) = bit x 1"
    "(x AND JG_TCP_FLAG_FIN \<noteq> 0) = bit x 0" for x
    using and_exp_eq_0_iff_not_bit[of x 4] and_exp_eq_0_iff_not_bit[of x 1] and_exp_eq_0_iff_not_bit[of x 0]
    by (simp_all add: TCP_FLAG_ACK_def JG_TCP_FLAG_SYN_def JG_TCP_FLAG_FIN_def)
  have rst: "0x04 OR TCP_FLAG_ACK = 0x14" "JG_TCP_FLAG_RST = 0x04"
    by (simp_all add: JG_TCP_FLAG_RST_def TCP_FLAG_ACK_def)
  note builds = build_reset_eq[OF view]
  define sq ack fl where "sq = (if bit (tcp_flags p) 4 then tcp_acknowledgement p else 0)"
    and "ack = (if bit (tcp_flags p) 4 then 0 else tcp_sequence p + of_nat (payload_size p)
        + of_bool (bit (tcp_flags p) 1) + of_bool (bit (tcp_flags p) 0))"
    and "fl = (if bit (tcp_flags p) 4 then 0x04 else 0x14 :: u8)"
  let ?size = "network_offset p + header_size (ip_version p) + 20"
  have "jg_tcp_reset_build p = Done \<lparr>
      to_client = reset_frame p True sq ack fl @ replicate (128 - ?size) 0, to_client_size = ?size,
      to_server = reset_frame p False (tcp_sequence p) 0 4 @ replicate (128 - ?size) 0, to_server_size = ?size\<rparr>"
    using valid by (simp add: jg_tcp_reset_build_def Let_def flags cleared_resets_def JG_TCP_RESET_FRAME_MAX_def builds
        sq_def ack_def fl_def rst add.assoc)
  moreover obtain c where "jg_packet_parse (reset_frame p True sq ack fl) limits = Done (JG_PACKET_OK, c)"
    "reset_for p True sq ack fl c" using reset_frame_parses[OF assms view] by blast
  moreover obtain s where "jg_packet_parse (reset_frame p False (tcp_sequence p) 0 4) limits = Done (JG_PACKET_OK, s)"
    "reset_for p False (tcp_sequence p) 0 4 s" using reset_frame_parses[OF assms view] by blast
  ultimately show ?thesis
    using True by (auto simp: length_reset_frame[OF view] sq_def ack_def fl_def split: if_splits)
next
  case False
  then show ?thesis by (auto simp: jg_tcp_reset_build_def packet_valid_def)
qed

text \<open>A TCP packet with a SYN, of five bytes, from 10.0.0.1:4096 to 10.0.0.2:443.\<close>

definition example_frame :: bytes where
  "example_frame = [2, 0, 0, 0, 0, 2, 2, 0, 0, 0, 0, 1, 8, 0]
     @ [0x45, 0, 0, 45, 0, 0, 0, 0, 64, 6, 0, 0, 10, 0, 0, 1, 10, 0, 0, 2]
     @ [16, 0, 1, 187, 0, 0, 0, 7, 0, 0, 0, 0, 0x50, 2, 0, 0, 0, 0, 0, 0] @ [1, 2, 3, 4, 5]"

definition example_view :: jg_packet_view where
  "example_view = (case jg_packet_parse example_frame None of Done (_, v) \<Rightarrow> v | _ \<Rightarrow> cleared_view)"

theorem jg_tcp_reset_build_correct_witness:
  "\<exists>resets c s. jg_tcp_reset_build example_view = Done resets
    \<and> jg_packet_parse (take (to_client_size resets) (to_client resets)) None = Done (JG_PACKET_OK, c)
    \<and> reset_for example_view True 0 13 0x14 c \<and> reset_for example_view False 7 0 0x04 s"
proof -
  have parsed: "jg_packet_parse example_frame None = Done (JG_PACKET_OK, example_view)" by code_simp
  have "transport example_view = JG_TRANSPORT_TCP" "\<not> fragmented example_view" "tcp_flags example_view = 2"
    "tcp_sequence example_view = 7" "payload_size example_view = 5" by code_simp+
  with jg_tcp_reset_build_correct[OF parsed] show ?thesis by auto
qed

end
