(* ===== verification/DnsResponse.thy ===== *)
theory DnsResponse
  imports Frames Dns DnsPolicy
begin

text \<open>
  \<^verbatim>\<open>src/daemon/dns_response.c\<close>: the frame that answers a blocked DNS query. The output buffer is a byte
  list; a pointer into it is an offset, and the DNS body is built in the part of the buffer behind the
  headers.
\<close>

section \<open>Operations\<close>

abbreviation DNS_HEADER_SIZE :: nat where "DNS_HEADER_SIZE \<equiv> 12"
abbreviation UDP_HEADER_SIZE :: nat where "UDP_HEADER_SIZE \<equiv> 8"

definition DNS_FLAG_RESPONSE :: u16 where "DNS_FLAG_RESPONSE = 0x8000"
definition DNS_FLAG_RECURSION_DESIRED :: u16 where "DNS_FLAG_RECURSION_DESIRED = 0x0100"
definition DNS_FLAG_RECURSION_AVAILABLE :: u16 where "DNS_FLAG_RECURSION_AVAILABLE = 0x0080"
definition DNS_FLAG_CHECKING_DISABLED :: u16 where "DNS_FLAG_CHECKING_DISABLED = 0x0010"
definition DNS_RCODE_NXDOMAIN :: u16 where "DNS_RCODE_NXDOMAIN = 3"
definition DNS_RCODE_REFUSED :: u16 where "DNS_RCODE_REFUSED = 5"
definition DNS_TYPE_A :: u16 where "DNS_TYPE_A = 1"
definition DNS_TYPE_AAAA :: u16 where "DNS_TYPE_AAAA = 28"
definition DNS_CLASS_IN :: u16 where "DNS_CLASS_IN = 1"

text \<open>The loop of \<open>encode_name\<close> from \<open>label\<close> on; it returns the output and the cursor.\<close>

function encode_name_loop :: "bytes \<Rightarrow> bytes \<Rightarrow> nat \<Rightarrow> (errno, bytes \<times> nat) run" where
  "encode_name_loop label output cursor =
     (if label = [] then Done (output, cursor)
      else let n = length (takeWhile (\<lambda>b. b \<noteq> dot) label) in
        if n = 0 \<or> n > JG_DOMAIN_LABEL_MAX \<or> cursor + 1 + n \<ge> length output then Fail ENOSPC
        else and_then (poke output cursor (of_nat n)) (\<lambda>output.
          and_then (copy_at output (cursor + 1) label n) (\<lambda>output.
            if dot \<notin> set label then Done (output, cursor + 1 + n)
            else encode_name_loop (drop (n + 1) label) output (cursor + 1 + n))))"
  by pat_completeness auto
termination
  by (relation "measure (\<lambda>(label, _, _). length label)") auto

declare encode_name_loop.simps [simp del]

definition encode_name :: "bytes \<Rightarrow> bytes \<Rightarrow> (errno, bytes \<times> nat) run" where
  "encode_name name output =
     and_then (encode_name_loop name output 0) (\<lambda>(output, cursor).
       if cursor \<ge> length output then Fail ENOSPC
       else and_then (poke output cursor 0) (\<lambda>output. Done (output, cursor + 1)))"

definition sinkhole_address :: "jg_dns_question \<Rightarrow> jg_dns_response_config \<Rightarrow> bytes option" where
  "sinkhole_address question config =
     (if qclass question = DNS_CLASS_IN \<and> qtype question = DNS_TYPE_A \<and> has_ipv4_sinkhole config
      then Some (ipv4_sinkhole config)
      else if qclass question = DNS_CLASS_IN \<and> qtype question = DNS_TYPE_AAAA \<and> has_ipv6_sinkhole config
      then Some (ipv6_sinkhole config)
      else None)"

text \<open>The flags of the response and the address of its answer.\<close>

definition response_choice :: "jg_dns_message \<Rightarrow> jg_dns_question \<Rightarrow> jg_dns_response_config \<Rightarrow> u16 \<times> bytes option" where
  "response_choice parsed question config =
     (let flags = DNS_FLAG_RESPONSE OR DNS_FLAG_RECURSION_AVAILABLE
            OR (dns_flags parsed AND (DNS_FLAG_RECURSION_DESIRED OR DNS_FLAG_CHECKING_DISABLED)) in
      if action config = JG_DNS_BLOCK_REFUSED then (flags OR DNS_RCODE_REFUSED, None)
      else if action config = JG_DNS_BLOCK_NXDOMAIN then (flags OR DNS_RCODE_NXDOMAIN, None)
      else (flags, sinkhole_address question config))"

text \<open>The answer record behind the question section.\<close>

definition append_answer ::
  "jg_dns_question \<Rightarrow> jg_dns_response_config \<Rightarrow> bytes \<Rightarrow> bytes \<Rightarrow> nat \<Rightarrow> (errno, bytes \<times> nat) run" where
  "append_answer question config address output cursor =
     and_then (encode_name (qname question) (drop cursor output)) (\<lambda>(behind, answer_name_size).
       let output = take cursor output @ behind; cursor = cursor + answer_name_size in
       if \<not> jg_range_valid cursor (10 + length address) (length output) then Fail ENOSPC
       else let
         output = snd (jg_write_u16_be output cursor (qtype question));
         output = snd (jg_write_u16_be output (cursor + 2) (qclass question));
         output = snd (jg_write_u32_be output (cursor + 4) (sinkhole_ttl config));
         output = snd (jg_write_u16_be output (cursor + 8) (of_nat (length address)))
       in and_then (raw (store_at output (cursor + 10) address)) (\<lambda>output.
            Done (output, cursor + (10 + length address))))"

definition build_dns_message ::
  "bytes \<Rightarrow> jg_dns_message \<Rightarrow> nat \<Rightarrow> jg_dns_response_config \<Rightarrow> bytes \<Rightarrow> (errno, bytes \<times> nat) run" where
  "build_dns_message query parsed question_index config output =
     and_then (raw (byte_at (questions parsed) question_index)) (\<lambda>question.
       let cursor = DNS_HEADER_SIZE + question_wire_size parsed;
           (flags, address) = response_choice parsed question config;
           answers = (case address of None \<Rightarrow> 0 | Some _ \<Rightarrow> 1)
       in if \<not> jg_range_valid 0 cursor (length output) then Fail ENOSPC
       else and_then (clear_at output 0 cursor) (\<lambda>output.
         let output = snd (jg_write_u16_be output 0 (dns_id parsed));
             output = snd (jg_write_u16_be output 2 flags);
             output = snd (jg_write_u16_be output 4 (wire_question_count parsed));
             output = snd (jg_write_u16_be output 6 answers)
         in and_then (raw (bytes_at query DNS_HEADER_SIZE (question_wire_size parsed))) (\<lambda>section.
            and_then (raw (store_at output DNS_HEADER_SIZE section)) (\<lambda>output.
              case address of
                None \<Rightarrow> Done (output, cursor)
              | Some addr \<Rightarrow> append_answer question config addr output cursor))))"

definition build_link_header :: "jg_packet_view \<Rightarrow> bytes \<Rightarrow> (errno, bytes) run" where
  "build_link_header packet output =
     and_then (copy_at output 0 (frame packet) (network_offset packet)) (\<lambda>output.
     and_then (raw (bytes_at output 6 6)) (\<lambda>client.
     and_then (raw (bytes_at output 0 6)) (\<lambda>server.
     and_then (raw (store_at output 6 server)) (\<lambda>output.
       raw (store_at output 0 client)))))"

definition build_network_header :: "jg_packet_view \<Rightarrow> nat \<Rightarrow> bytes \<Rightarrow> nat \<Rightarrow> (errno, bytes) run" where
  "build_network_header packet udp_size output n =
     (if ip_version packet = JG_IP_V4 then
        and_then (clear_at output n IPV4_HEADER_SIZE) (\<lambda>output.
        and_then (poke output n 0x45) (\<lambda>output.
        and_then (window output n IPV4_HEADER_SIZE (\<lambda>p. jg_write_u16_be p 2 (of_nat (IPV4_HEADER_SIZE + udp_size)))) (\<lambda>output.
        and_then (poke output (n + 8) 64) (\<lambda>output.
        and_then (poke output (n + 9) IPPROTO_UDP) (\<lambda>output.
        and_then (copy_at output (n + 12) (destination_address packet) 4) (\<lambda>output.
        and_then (copy_at output (n + 16) (source_address packet) 4) (\<lambda>output.
        and_then (raw (bytes_at output n IPV4_HEADER_SIZE)) (\<lambda>header.
          window output n IPV4_HEADER_SIZE (\<lambda>p. jg_write_u16_be p 10 (checksum_finish (checksum_add header 0)))))))))))
      else
        and_then (clear_at output n IPV6_HEADER_SIZE) (\<lambda>output.
        and_then (poke output n 0x60) (\<lambda>output.
        and_then (window output n IPV6_HEADER_SIZE (\<lambda>p. jg_write_u16_be p 4 (of_nat udp_size))) (\<lambda>output.
        and_then (poke output (n + 6) IPPROTO_UDP) (\<lambda>output.
        and_then (poke output (n + 7) 64) (\<lambda>output.
        and_then (copy_at output (n + 8) (destination_address packet) 16) (\<lambda>output.
          copy_at output (n + 24) (source_address packet) 16)))))))"

definition udp_checksum :: "bytes \<Rightarrow> nat \<Rightarrow> jg_ip_version \<Rightarrow> nat \<Rightarrow> (errno, u16) run" where
  "udp_checksum output n version udp_size =
     (let network_size = (if version = JG_IP_V4 then IPV4_HEADER_SIZE else IPV6_HEADER_SIZE) in
      and_then (if version = JG_IP_V4
                then and_then (raw (bytes_at output (n + 12) 8)) (\<lambda>addresses. Done (checksum_add addresses 0))
                else and_then (raw (bytes_at output (n + 8) 32)) (\<lambda>addresses.
                       Done (checksum_add addresses 0 + of_nat (udp_size div 2 ^ 16)))) (\<lambda>acc.
      and_then (raw (bytes_at output (n + network_size) udp_size)) (\<lambda>segment.
        let checksum = checksum_finish (checksum_add segment (acc + of_nat udp_size + 17)) in
        Done (if checksum = 0 then - 1 else checksum))))"

definition packet_valid :: "jg_packet_view \<Rightarrow> bool" where
  "packet_valid packet \<longleftrightarrow>
     network_offset packet \<ge> 14 \<and> transport packet = JG_TRANSPORT_UDP \<and> ip_protocol packet = IPPROTO_UDP
     \<and> destination_port packet = 53 \<and> source_port packet \<noteq> 0 \<and> \<not> fragmented packet \<and> transport_complete packet
     \<and> ((ip_version packet = JG_IP_V4 \<and> address_size packet = 4)
        \<or> (ip_version packet = JG_IP_V6 \<and> address_size packet = JG_PACKET_ADDRESS_SIZE))
     \<and> jg_range_valid 0 (network_offset packet) (frame_size packet)"

text \<open>The headers in front of the DNS body, once its size is known.\<close>

definition build_headers ::
  "jg_packet_view \<Rightarrow> jg_dns_response_config \<Rightarrow> nat \<Rightarrow> nat \<Rightarrow> bytes \<Rightarrow> (errno, bytes) run" where
  "build_headers packet config network_size udp_size output =
     (let n = network_offset packet; udp = n + network_size in
      and_then (build_link_header packet output) (\<lambda>output.
      and_then (build_network_header packet udp_size output n) (\<lambda>output.
      and_then (clear_at output udp UDP_HEADER_SIZE) (\<lambda>output.
      and_then (window output udp UDP_HEADER_SIZE (\<lambda>p. jg_write_u16_be p 0 (destination_port packet))) (\<lambda>output.
      and_then (window output udp UDP_HEADER_SIZE (\<lambda>p. jg_write_u16_be p 2 (source_port packet))) (\<lambda>output.
      and_then (window output udp UDP_HEADER_SIZE (\<lambda>p. jg_write_u16_be p 4 (of_nat udp_size))) (\<lambda>output.
        if ip_version packet = JG_IP_V6 \<or> checksum_ipv4_udp config then
          and_then (udp_checksum output n (ip_version packet) udp_size) (\<lambda>checksum.
            window output udp UDP_HEADER_SIZE (\<lambda>p. jg_write_u16_be p 6 checksum))
        else Done output)))))))"

text \<open>\<open>jg_dns_response_build\<close>: the output buffer and the size of the response in it.\<close>

definition jg_dns_response_build ::
  "jg_packet_view \<Rightarrow> bytes \<Rightarrow> nat \<Rightarrow> jg_dns_response_config \<Rightarrow> bytes \<Rightarrow> (errno, bytes \<times> nat) run" where
  "jg_dns_response_build packet query question_index config output =
     (if \<not> packet_valid packet \<or> jg_dns_response_config_validate config \<noteq> Inr () then Fail EINVAL
      else case jg_dns_parse_query query of
        Fault \<Rightarrow> Fault
      | Fail _ \<Rightarrow> Fail EINVAL
      | Done parsed \<Rightarrow>
          if question_index \<ge> question_count parsed then Fail EINVAL
          else if action config = JG_DNS_BLOCK_DROP then Done (output, 0)
          else let network_size = (if ip_version packet = JG_IP_V4 then IPV4_HEADER_SIZE else IPV6_HEADER_SIZE) in
            (case jg_size_add (network_offset packet) (network_size + UDP_HEADER_SIZE) of
               None \<Rightarrow> Fail ENOSPC
             | Some complete_size \<Rightarrow>
                 if complete_size > length output then Fail ENOSPC
                 else and_then (build_dns_message query parsed question_index config (drop complete_size output))
                   (\<lambda>(dns, dns_size).
                     let output = take complete_size output @ dns in
                     case jg_size_add UDP_HEADER_SIZE dns_size of
                       None \<Rightarrow> Fail EMSGSIZE
                     | Some udp_size \<Rightarrow>
                         if udp_size > UINT16_MAX
                            \<or> (ip_version packet = JG_IP_V4 \<and> IPV4_HEADER_SIZE + udp_size > UINT16_MAX)
                         then Fail EMSGSIZE
                         else (case jg_size_add complete_size dns_size of
                           None \<Rightarrow> Fail EMSGSIZE
                         | Some complete_size \<Rightarrow>
                             if complete_size > length output then Fail EMSGSIZE
                             else and_then (build_headers packet config network_size udp_size output) (\<lambda>output.
                               Done (output, complete_size))))))"

section \<open>The DNS body\<close>

text \<open>The answer that the configuration asks for, and the message that carries it.\<close>

definition answer_address :: "jg_dns_response_config \<Rightarrow> jg_dns_question \<Rightarrow> bytes option" where
  "answer_address config q =
     (if action config \<noteq> JG_DNS_BLOCK_SINKHOLE \<or> qclass q \<noteq> 1 then None
      else if qtype q = 1 \<and> has_ipv4_sinkhole config then Some (ipv4_sinkhole config)
      else if qtype q = 28 \<and> has_ipv6_sinkhole config then Some (ipv6_sinkhole config)
      else None)"

lemma answer_address_sinkhole:
  "answer_address config q = (if action config = JG_DNS_BLOCK_SINKHOLE then sinkhole_address q config else None)"
  by (auto simp: answer_address_def sinkhole_address_def DNS_CLASS_IN_def DNS_TYPE_A_def DNS_TYPE_AAAA_def)

definition answer_record :: "jg_dns_response_config \<Rightarrow> jg_dns_question \<Rightarrow> bytes" where
  "answer_record config q = (case answer_address config q of
     None \<Rightarrow> []
   | Some a \<Rightarrow> Dns.encode_name (split_dots (qname q)) @ u16_be (qtype q) @ u16_be (qclass q)
        @ u32_be (sinkhole_ttl config) @ u16_be (of_nat (length a)) @ a)"

definition rcode :: "jg_dns_response_config \<Rightarrow> u16" where
  "rcode config = (if action config = JG_DNS_BLOCK_REFUSED then 5 else if action config = JG_DNS_BLOCK_NXDOMAIN then 3 else 0)"

definition response_message :: "bytes \<Rightarrow> jg_dns_message \<Rightarrow> jg_dns_response_config \<Rightarrow> jg_dns_question \<Rightarrow> bytes" where
  "response_message query m config q =
     u16_be (dns_id m) @ u16_be (0x8080 OR (dns_flags m AND 0x0110) OR rcode config) @ u16_be (wire_question_count m)
     @ u16_be (of_bool (answer_address config q \<noteq> None)) @ u16_be 0 @ u16_be 0
     @ slice 12 (question_wire_size m) query @ answer_record config q"

text \<open>The labels of a decoded name encode, exactly when they fit.\<close>

lemma take_label: "dot \<notin> set l \<Longrightarrow> takeWhile (\<lambda>b. b \<noteq> dot) (l @ dot # r) = l"
  by (subst takeWhile_append2) auto

lemma encode_name_loop_labels:
  assumes "ls \<noteq> []" "\<forall>l \<in> set ls. dot \<notin> set l \<and> l \<noteq> [] \<and> length l \<le> 63"
  shows "encode_name_loop (join_dots ls) buf cursor =
    (if cursor + length (Dns.encode_name ls) \<le> length buf
     then Done (blit buf cursor (butlast (Dns.encode_name ls)), cursor + length (Dns.encode_name ls) - 1)
     else Fail ENOSPC)"
  using assms
proof (induction ls arbitrary: buf cursor rule: join_dots.induct)
  case (2 l)
  have tw: "takeWhile (\<lambda>b. b \<noteq> dot) l = l" using 2 by (auto simp: takeWhile_eq_all_conv)
  show ?case
    using 2 by (subst encode_name_loop.simps)
      (auto simp: tw Let_def JG_DOMAIN_LABEL_MAX_def poke_def copy_at_def blit_then butlast_append)
next
  case (3 l m ls)
  let ?rest = "Dns.encode_name (m # ls)" and ?c = "cursor + 1 + length l"
  have l: "dot \<notin> set l" "l \<noteq> []" "length l \<le> 63" using 3(3) by auto
  have pos: "0 < length ?rest" by (simp add: Dns.encode_name_def)
  have IH: "encode_name_loop (join_dots (m # ls)) out ?c =
    (if ?c + length ?rest \<le> length out
     then Done (blit out ?c (butlast ?rest), ?c + length ?rest - 1) else Fail ENOSPC)" for out
    using 3 by simp
  have head: "encode_name_loop (join_dots (l # m # ls)) buf cursor =
    (if ?c \<ge> length buf then Fail ENOSPC
     else encode_name_loop (join_dots (m # ls)) (blit buf cursor (of_nat (length l) # l)) ?c)"
    using l by (subst encode_name_loop.simps)
      (auto simp: take_label Let_def JG_DOMAIN_LABEL_MAX_def poke_def copy_at_def blit_then)
  have "blit (blit buf cursor (of_nat (length l) # l)) ?c (butlast ?rest)
      = blit buf cursor (butlast (Dns.encode_name (l # m # ls)))" if "?c + length ?rest \<le> length buf"
    using that pos by (subst blit_then) (auto simp: butlast_append)
  then show ?case unfolding head IH using pos by auto
qed simp

lemma encode_name_labels:
  assumes "ls \<noteq> []" "\<forall>l \<in> set ls. dot \<notin> set l \<and> l \<noteq> [] \<and> length l \<le> 63"
  shows "encode_name (join_dots ls) buf =
    (if length (Dns.encode_name ls) \<le> length buf
     then Done (blit buf 0 (Dns.encode_name ls), length (Dns.encode_name ls)) else Fail ENOSPC)"
proof -
  let ?w = "Dns.encode_name ls"
  obtain v where w: "?w = v @ [0]" by (simp add: Dns.encode_name_def)
  then show ?thesis
    using encode_name_loop_labels[OF assms, of buf 0] by (auto simp: encode_name_def poke_def blit_then)
qed

lemma records_at_le: "records_at msg c tys c' \<Longrightarrow> c \<le> c'"
proof (induction tys arbitrary: c)
  case (Cons ty tys)
  then obtain owner nx len where "name_text msg c owner nx" "records_at msg (nx + 10 + unat (len :: u16)) tys c'" by auto
  with Cons.IH[of "nx + 10 + unat len"] name_text_bounds[of msg c owner nx] show ?case by simp
qed simp

lemma lower_label_byte: "is_policy_label_byte b \<Longrightarrow> is_policy_label_byte (ascii_lower b) \<and> ascii_lower b \<noteq> dot"
proof (cases "b \<ge> 0x41 \<and> b \<le> 0x5A")
  case True
  have "unat (b + 0x20) = unat b + 32"
    using True by (subst unat_add_lem[THEN iffD1]) (auto simp: word_le_nat_alt)
  then show ?thesis using True by (auto simp: is_policy_label_byte_def ascii_lower_def word_le_nat_alt word_unat_eq_iff)
next
  case False
  assume "is_policy_label_byte b"
  with False show ?thesis by (auto simp: is_policy_label_byte_def ascii_lower_def)
qed

definition decoded_label :: "bytes \<Rightarrow> bool" where
  "decoded_label l \<longleftrightarrow> dot \<notin> set l \<and> l \<noteq> [] \<and> length l \<le> 63 \<and> list_all is_policy_label_byte l \<and> map ascii_lower l = l"

lemma name_text_labels:
  assumes "name_text msg off name nx" "name \<noteq> []"
  shows "list_all decoded_label
    (split_dots name) \<and> length name \<le> JG_DOMAIN_NAME_MAX"
proof -
  obtain k ls where ls: "name_at msg off k ls nx" "policy_labels ls" "name = join_dots (map (map ascii_lower) ls)"
    "length name \<le> JG_DOMAIN_NAME_MAX" using assms(1) by (auto simp: name_text_def)
  have lower: "list_all is_policy_label_byte (map ascii_lower l) \<and> dot \<notin> set (map ascii_lower l)"
    if "list_all is_policy_label_byte l" for l
    using that lower_label_byte by (induction l) auto
  have all: "dot \<notin> set (map ascii_lower l) \<and> map ascii_lower l \<noteq> [] \<and> length (map ascii_lower l) \<le> 63
      \<and> list_all is_policy_label_byte (map ascii_lower l) \<and> map ascii_lower (map ascii_lower l) = map ascii_lower l"
    if "l \<in> set ls" for l
    using that name_at_labels[OF ls(1)] ls(2) lower[of l] by (auto simp: policy_labels_def list_all_iff ascii_lower_idem)
  moreover have "ls \<noteq> []" using assms(2) ls(3) by auto
  ultimately have "split_dots name = map (map ascii_lower) ls" unfolding ls(3) by (intro split_join) auto
  then show ?thesis using all ls(4) by (auto simp: list_all_iff decoded_label_def)
qed

lemma query_names:
  assumes "questions_at msg c qs c'" "q \<in> set qs"
  shows "qname q \<noteq> [] \<and> length (qname q) \<le> JG_DOMAIN_NAME_MAX
    \<and> list_all decoded_label
        (split_dots (qname q))"
  using assms
proof (induction qs arbitrary: c)
  case (Cons p qs)
  then obtain nx where p: "name_text msg c (qname p) nx" "qname p \<noteq> []" "questions_at msg (nx + 4) qs c'" by auto
  show ?case
  proof (cases "q = p")
    case True
    then show ?thesis using name_text_labels[OF p(1,2)] p(2) by simp
  next
    case False
    with Cons.prems(2) have "q \<in> set qs" by simp
    then show ?thesis by (rule Cons.IH[OF p(3)])
  qed
qed simp

text \<open>The parsed question section lies inside the query.\<close>

lemma parsed_query:
  assumes "jg_dns_parse_query query = Done m"
  shows "12 + question_wire_size m \<le> length query"
    and "i < question_count m \<Longrightarrow> \<exists>c c'. questions_at query c (questions m) c'"
proof -
  have "query_message query m" using assms by (simp add: jg_dns_parse_query_Done_iff)
  then obtain answers authority additional c1 c2 where q: "questions_at query 12 (questions m) (12 + question_wire_size m)"
    and r: "records_at query (12 + question_wire_size m) answers c1" "records_at query c1 authority c2"
      "records_at query c2 additional (length query)" by (auto simp: query_message_def)
  show "12 + question_wire_size m \<le> length query"
    using records_at_le[OF r(1)] records_at_le[OF r(2)] records_at_le[OF r(3)] by simp
  show "i < question_count m \<Longrightarrow> \<exists>c c'. questions_at query c (questions m) c'" using q by blast
qed

lemma message_block:
  "blit (blit (blit (blit (blit (replicate (12 + length s) 0) 0 (u16_be a)) 2 (u16_be b)) 4 (u16_be c)) 6 (u16_be d)) 12 s
    = u16_be a @ u16_be b @ u16_be c @ u16_be d @ u16_be 0 @ u16_be 0 @ s"
proof -
  have "replicate (12 + length s) (0 :: u8) = [0, 0, 0, 0, 0, 0, 0, 0, 0, 0, 0, 0] @ replicate (length s) 0"
    by (simp add: replicate_add eval_nat_numeral)
  then show ?thesis by (simp add: blit_def u16_be_def)
qed

lemma block_write:
  "k + 2 \<le> length block \<Longrightarrow> length block \<le> length buf \<Longrightarrow>
    snd (jg_write_u16_be (blit buf 0 block) k v) = blit buf 0 (blit block k (u16_be v))"
  using blit_into[of k "u16_be v" block 0 buf] by (simp add: write_u16_blit)

lemma append_write:
  "n = length block \<Longrightarrow> n + 2 \<le> length buf \<Longrightarrow> snd (jg_write_u16_be (blit buf 0 block) n v) = blit buf 0 (block @ u16_be v)"
  "n = length block \<Longrightarrow> n + 4 \<le> length buf \<Longrightarrow> snd (jg_write_u32_be (blit buf 0 block) n w) = blit buf 0 (block @ u32_be w)"
  by (simp_all add: write_u16_blit write_u32_blit blit_then)

lemma append_answer_eq:
  assumes name: "\<forall>l \<in> set (split_dots (qname q)). dot \<notin> set l \<and> l \<noteq> [] \<and> length l \<le> 63"
    and "length head \<le> length buf"
    and r: "r = Dns.encode_name (split_dots (qname q)) @ u16_be (qtype q) @ u16_be (qclass q)
      @ u32_be (sinkhole_ttl config) @ u16_be (of_nat (length a)) @ a"
  shows "append_answer q config a (blit buf 0 head) (length head) =
    (if length head + length r \<le> length buf then Done (blit buf 0 (head @ r), length head + length r) else Fail ENOSPC)"
proof -
  let ?w = "Dns.encode_name (split_dots (qname q))"
  have "encode_name (qname q) (drop (length head) (blit buf 0 head)) =
      (if length ?w \<le> length buf - length head
       then Done (blit (drop (length head) buf) 0 ?w, length ?w) else Fail ENOSPC)"
    using encode_name_labels[OF split_dots_nonempty name] assms(2) by simp
  moreover have "take (length head) (blit buf 0 head) @ blit (drop (length head) buf) 0 ?w = blit buf 0 (head @ ?w)"
    by (simp add: blit_def add.commute)
  ultimately show ?thesis
    using assms(2) unfolding append_answer_def Let_def r
    by (auto simp: append_write blit_then)
qed

lemma build_dns_message_eq:
  assumes parsed: "jg_dns_parse_query query = Done m" and i: "i < question_count m" "q = questions m ! i"
    and config: "jg_dns_response_config_validate config = Inr ()" "action config \<noteq> JG_DNS_BLOCK_DROP"
    and msg: "msg = response_message query m config q"
  shows "build_dns_message query m i config buf =
    (if length msg \<le> length buf then Done (blit buf 0 msg, length msg) else Fail ENOSPC)"
proof -
  define s a f where "s = slice 12 (question_wire_size m) query" and "a = answer_address config q"
    and "f = 0x8080 OR (dns_flags m AND 0x0110) OR rcode config"
  have s: "length s = question_wire_size m" "bytes_at query 12 (question_wire_size m) = Some s"
    using parsed_query(1)[OF parsed] by (simp_all add: s_def)
  define head where "head = u16_be (dns_id m) @ u16_be f @ u16_be (wire_question_count m)
    @ u16_be (of_bool (a \<noteq> None)) @ u16_be 0 @ u16_be 0 @ s"
  have lh: "length head = 12 + question_wire_size m" by (simp add: head_def s)
  have m: "msg = head @ answer_record config q" by (simp add: msg response_message_def head_def s_def a_def f_def)
  have choice: "response_choice m q config = (f, a)"
    using config
    by (auto simp: response_choice_def f_def a_def answer_address_sinkhole rcode_def DNS_RCODE_REFUSED_def DNS_RCODE_NXDOMAIN_def
        DNS_FLAG_RESPONSE_def DNS_FLAG_RECURSION_AVAILABLE_def DNS_FLAG_RECURSION_DESIRED_def DNS_FLAG_CHECKING_DISABLED_def
        jg_dns_response_config_validate_def Let_def split: if_splits simp flip: or.assoc)
  show ?thesis
  proof (cases "12 + question_wire_size m \<le> length buf")
    case False
    then show ?thesis unfolding build_dns_message_def Let_def using i lh m by (simp add: choice)
  next
    case room: True
    have "build_dns_message query m i config buf = (case a of None \<Rightarrow> Done (blit buf 0 head, length head)
        | Some addr \<Rightarrow> append_answer q config addr (blit buf 0 head) (length head))"
      unfolding build_dns_message_def Let_def using room i s blit_into[of 12 s _ 0 buf]
      by (cases a) (simp_all add: clear_at_in choice[unfolded i(2)] block_write message_block[of s, unfolded s] head_def)
    moreover have "\<forall>l \<in> set (split_dots (qname q)). dot \<notin> set l \<and> l \<noteq> [] \<and> length l \<le> 63"
      using parsed_query(2)[OF parsed i(1)] query_names[of query _ "questions m" _ q] i
      by (auto simp: list_all_iff decoded_label_def)
    ultimately show ?thesis
      using room lh m append_answer_eq[of q head buf _ config] by (cases a) (auto simp: answer_record_def a_def)
  qed
qed

section \<open>The headers\<close>

definition udp_header :: "u16 \<Rightarrow> u16 \<Rightarrow> nat \<Rightarrow> u16 \<Rightarrow> bytes" where
  "udp_header sp dp n check = u16_be sp @ u16_be dp @ u16_be (of_nat n) @ u16_be check"

lemma length_udp_header [simp]: "length (udp_header sp dp n c) = 8"
  by (simp add: udp_header_def)

lemma response_link_header_eq:
  assumes "12 \<le> network_offset p" "network_offset p \<le> frame_size p" "network_offset p \<le> length buf"
  shows "build_link_header p buf
    = Done (link_reply True (take (network_offset p) (frame p)) @ drop (network_offset p) buf)"
proof -
  define link where "link = take (network_offset p) (frame p)"
  have l: "length link = network_offset p" using assms by (simp add: link_def)
  have copy: "copy_at buf 0 (frame p) (network_offset p) = Done (link @ drop (network_offset p) buf)"
    using assms by (simp add: copy_at_def blit_start link_def)
  have "take 12 link = take 6 link @ slice 6 6 link"
    using take_add[of 6 6 link] by (simp add: slice_def)
  then show ?thesis
    unfolding build_link_header_def copy link_def[symmetric] and_then.simps
    using assms l by (auto simp: link_reply_def slice_append_left blit_def slice_def min_def)
qed

lemma response_network_header_eq:
  assumes "length (source_address p) = 16" "length (destination_address p) = 16"
    and "ip_version p = JG_IP_V4 \<or> ip_version p = JG_IP_V6"
    and "network_offset p + header_size (ip_version p) \<le> length buf"
  shows "build_network_header p m buf (network_offset p)
    = Done (blit buf (network_offset p) (network_header (ip_version p) m 0 IPPROTO_UDP (reply_source True p) (reply_destination True p)))"
proof -
  let ?s = "reply_source True p" and ?d = "reply_destination True p" and ?n = "network_offset p"
  have l: "length ?s = address_width (ip_version p)" "length ?d = address_width (ip_version p)"
    using assms(1,2) by (simp_all add: address_width_def)
  note ops = block_ops(1)[of ?n _ buf 0, simplified] block_ops[of ?n _ buf]
  show ?thesis
  proof (cases "ip_version p = JG_IP_V4")
    case True
    with assms(4) have room: "?n + 20 \<le> length buf" by (simp add: header_size_def)
    have fill: "blit (ipv4_header m 0 IPPROTO_UDP ?s ?d 0) 10 (u16_be c) = ipv4_header m 0 IPPROTO_UDP ?s ?d c" for c
      using l True by (simp add: ipv4_header_def blit_def u16_be_def address_width_def)
    have block: "blit (blit (blit (blit (blit (blit (replicate 20 0) 0 [0x45]) 2 (u16_be (of_nat (20 + m)))) 8 [64]) 9 [IPPROTO_UDP]) 12 ?s) 16 ?d
        = ipv4_header m 0 IPPROTO_UDP ?s ?d 0"
      using l True ipv4_block[of ?s ?d] by (simp add: ipv4_header_def u16_be_nil address_width_def)
    show ?thesis
      unfolding build_network_header_def
      using True room assms(1,2) l block fill
      by (simp add: clear_at_in ops network_header_def address_width_def)
  next
    case False
    with assms(3,4) have v6: "ip_version p = JG_IP_V6" and room: "?n + 40 \<le> length buf" by (auto simp: header_size_def)
    show ?thesis
      unfolding build_network_header_def
      using v6 room assms(1,2) l
      by (simp add: clear_at_in ops ipv6_block ipv6_header_def network_header_def address_width_def)
  qed
qed

text \<open>The checksum field over pseudo-header and segment.\<close>

definition udp_check :: "bytes \<Rightarrow> bytes \<Rightarrow> bytes \<Rightarrow> u16" where
  "udp_check src dst segment =
     (let c = checksum_finish (checksum_add segment (checksum_add (src @ dst) 0 + of_nat (length segment) + 17)) in
      if c = 0 then - 1 else c)"

lemma udp_checksum_eq:
  assumes buf: "buf = link @ network_header version l 0 proto s d @ segment @ rest" "length link = n" "length segment \<le> 65535"
    and a: "length s = address_width version" "length d = address_width version"
  shows "udp_checksum buf n version (length segment) = Done (udp_check s d segment)"
proof -
  let ?h = "network_header version l 0 proto s d"
  have h: "length ?h = header_size version" using a by (rule length_network_header)
  have "slice (n + k) j buf = slice k j ?h" if "k + j \<le> header_size version" for k j
    using that buf h by (simp add: slice_append)
  from this[of "if version = JG_IP_V4 then 12 else 8" "2 * address_width version"]
  have "slice (n + (if version = JG_IP_V4 then 12 else 8)) (2 * address_width version) buf = s @ d"
    using slice_of_network_header[OF a, of l 0 proto] by (simp add: header_size_def address_width_def)
  moreover have "slice (n + header_size version) (length segment) buf = segment" using buf h by (simp add: slice_append)
  moreover have "n + header_size version + length segment \<le> length buf" using buf h by simp
  moreover have "length segment div 65536 = 0" using buf(3) by simp
  ultimately show ?thesis
    by (simp add: udp_checksum_def udp_check_def header_size_def address_width_def Let_def split: if_splits del: and_then_Done_iff)
qed

lemma udp_check_completes:
  assumes "length s = address_width version" "length d = address_width version" "length body + 8 \<le> 65535"
    and "c = udp_check s d (udp_header sp dp (length body + 8) 0 @ body)"
  shows "checksum_valid (pseudo_header version s d IPPROTO_UDP (length body + 8) @ udp_header sp dp (length body + 8) c @ body) \<and> c \<noteq> 0"
proof -
  let ?seg = "\<lambda>c. udp_header sp dp (length body + 8) c @ body"
  let ?acc = "checksum_add (s @ d) 0 + of_nat (length (?seg 0)) + 17"
  have e: "even (length s)" "even (length d)" "length (s @ d) \<le> 32" using assms by (simp_all add: address_width_def)
  have "word_sum (?seg 0) \<le> 65535 * ((length (?seg 0) + 1) div 2)" by (rule word_sum_bound)
  also have "\<dots> \<le> 65535 * 32768" using assms(3) by (intro mult_le_mono2) simp
  finally have sums: "word_sum (?seg 0) \<le> 2147450880" "word_sum (s @ d) \<le> 1048560"
    using e(3) order_trans[OF word_sum_bound[of "s @ d"], of 1048560] by (simp_all add: div_le_mono)
  then have a: "unat (checksum_add (s @ d) 0) = word_sum (s @ d)" by (subst checksum_add_exact) simp_all
  have b: "unat ?acc = word_sum (s @ d) + (length body + 8) + 17"
  proof -
    have n: "unat (of_nat (length (?seg 0)) :: u32) = length body + 8" using assms(3) by (subst unat_of_nat) simp
    have "unat (checksum_add (s @ d) 0 + of_nat (length (?seg 0)) :: u32) = word_sum (s @ d) + (length body + 8)"
      using a n sums assms(3) by (subst unat_add_lem[THEN iffD1]) simp_all
    then show ?thesis using sums assms(3) by (subst unat_add_lem[THEN iffD1]) simp_all
  qed
  have total: "unat (checksum_add (?seg 0) ?acc) = word_sum (s @ d) + (length body + 8) + 17 + word_sum (?seg 0)"
    using b sums assms(3) by (subst checksum_add_exact) simp_all
  have "c = (if checksum_finish (checksum_add (?seg 0) ?acc) = 0 then - 1 else checksum_finish (checksum_add (?seg 0) ?acc))"
    using assms(4) by (simp add: udp_check_def Let_def)
  from finish_completes_udp[OF total this refl]
  show ?thesis
    using e assms(3) by (simp add: checksum_valid_def even_pseudo_header word_sum_pseudo_header udp_header_def ac_simps)
qed

lemma udp_block:
  "blit (blit (blit (replicate 8 0) 0 (u16_be sp)) 2 (u16_be dp)) 4 (u16_be (of_nat n)) = udp_header sp dp n 0"
  by (simp add: blit_def u16_be_def udp_header_def eval_nat_numeral)

text \<open>The views that the packet parser returns for complete DNS queries over UDP.\<close>

definition query_view :: "jg_packet_view \<Rightarrow> bool" where
  "query_view p \<longleftrightarrow> 14 \<le> network_offset p \<and> network_offset p \<le> 46 \<and> network_offset p \<le> frame_size p
     \<and> length (source_address p) = 16 \<and> length (destination_address p) = 16
     \<and> (ip_version p = JG_IP_V4 \<or> ip_version p = JG_IP_V6) \<and> address_size p = address_width (ip_version p)
     \<and> transport p = JG_TRANSPORT_UDP \<and> ip_protocol p = IPPROTO_UDP \<and> \<not> fragmented p \<and> transport_complete p
     \<and> destination_port p = 53 \<and> source_port p \<noteq> 0"

definition response_check :: "jg_packet_view \<Rightarrow> jg_dns_response_config \<Rightarrow> bytes \<Rightarrow> u16" where
  "response_check p config body =
     (if ip_version p = JG_IP_V6 \<or> checksum_ipv4_udp config
      then udp_check (reply_source True p) (reply_destination True p)
             (udp_header (destination_port p) (source_port p) (length body + 8) 0 @ body)
      else 0)"

definition response_frame :: "jg_packet_view \<Rightarrow> jg_dns_response_config \<Rightarrow> bytes \<Rightarrow> bytes" where
  "response_frame p config body =
     link_reply True (take (network_offset p) (frame p))
     @ network_header (ip_version p) (length body + 8) 0 IPPROTO_UDP (reply_source True p) (reply_destination True p)
     @ udp_header (destination_port p) (source_port p) (length body + 8) (response_check p config body) @ body"

lemma build_headers_eq:
  assumes view: "query_view p" and body: "length body + 8 \<le> 65535"
    and buf: "buf = start @ body @ rest" "length start = network_offset p + header_size (ip_version p) + 8"
  shows "build_headers p config (header_size (ip_version p)) (length body + 8) buf = Done (response_frame p config body @ rest)"
proof -
  let ?n = "network_offset p" and ?hs = "header_size (ip_version p)" and ?m = "length body + 8"
  let ?s = "reply_source True p" and ?d = "reply_destination True p"
  define link h where "link = link_reply True (take ?n (frame p))" and "h = network_header (ip_version p) ?m 0 IPPROTO_UDP ?s ?d"
  have l: "length ?s = address_width (ip_version p)" "length ?d = address_width (ip_version p)" "length link = ?n"
    using view by (simp_all add: query_view_def address_width_def link_def)
  then have h: "length h = ?hs" unfolding h_def by (intro length_network_header)
  let ?udp = "udp_header (destination_port p) (source_port p) ?m"
  have 1: "build_link_header p buf = Done (link @ drop ?n buf)"
    using view buf by (subst response_link_header_eq) (auto simp: query_view_def link_def)
  have "blit (link @ drop ?n buf) ?n h = link @ h @ drop ?hs (drop ?n buf)"
    using blit_next[of h "drop ?n buf" link] l(3) h buf by simp
  then have 2: "build_network_header p ?m (link @ drop ?n buf) ?n = Done (link @ h @ drop (?n + ?hs) buf)"
    using view l(3) buf by (subst response_network_header_eq) (auto simp: query_view_def h_def add.commute)
  define b where "b = link @ h @ drop (?n + ?hs) buf"
  have put: "blit b (?n + ?hs) x = link @ h @ x @ body @ rest" if "length x = 8" for x
    using that blit_next[of x "drop (?n + ?hs) buf" "link @ h"] l(3) h buf by (simp add: b_def)
  have room: "?n + ?hs + 8 \<le> length b" using l(3) h buf by (simp add: b_def)
  have fill: "blit (?udp 0) 6 (u16_be c) = ?udp c" for c by (simp add: udp_header_def blit_def u16_be_def)
  have check: "udp_checksum (blit b (?n + ?hs) (?udp 0)) ?n (ip_version p) ?m = Done (udp_check ?s ?d (?udp 0 @ body))"
    using udp_checksum_eq[of "blit b (?n + ?hs) (?udp 0)" link "ip_version p" ?m IPPROTO_UDP ?s ?d "?udp 0 @ body" rest ?n]
      put[of "?udp 0"] l body by (simp add: h_def add.commute)
  obtain m where m: "m = ?m" by simp
  have "build_headers p config ?hs ?m buf = Done (blit b (?n + ?hs) (?udp (response_check p config body)))"
  proof (cases "ip_version p = JG_IP_V6 \<or> checksum_ipv4_udp config")
    case True
    then show ?thesis
      unfolding build_headers_def Let_def 1 2 and_then.simps b_def[symmetric]
      using room check fill unfolding m[symmetric]
      by (simp add: clear_at_in block_ops udp_block response_check_def m del: and_then_Done_iff of_nat_add)
  next
    case False
    then show ?thesis
      unfolding build_headers_def Let_def 1 2 and_then.simps b_def[symmetric]
      using room by (simp add: clear_at_in block_ops udp_block response_check_def del: of_nat_add)
  qed
  then show ?thesis by (simp add: put response_frame_def link_def h_def)
qed

section \<open>The client gets the answer of the policy\<close>

lemma parse_udp_answer:
  assumes "frame v = pre @ udp_header sp dp (length body + 8) c @ body" "transport_offset v = length pre"
    and "transport_size v = length body + 8" "length body + 8 \<le> 65535"
  shows "parse_udp v = Done (v\<lparr>source_port := sp, destination_port := dp, payload_offset := transport_offset v + 8,
     payload_size := length body, transport_complete := True, transport := JG_TRANSPORT_UDP\<rparr>)"
proof -
  let ?t = "transport_offset v"
  have n: "unat (of_nat (length body + 8) :: u16) = length body + 8" using assms(4) by (subst unat_of_nat) simp
  have "jg_read_u16_be (frame v) ?t = Some sp" "jg_read_u16_be (frame v) (?t + 2) = Some dp"
    "jg_read_u16_be (frame v) (?t + 4) = Some (of_nat (length body + 8))"
    using assms by (simp_all add: read_slice slice_append udp_header_def del: of_nat_add)
  moreover have "\<not> of_nat (length body + 8) < (8 :: u16)" using n by (simp add: word_less_nat_alt del: of_nat_add)
  ultimately show ?thesis
    using assms(3) n by (simp add: parse_udp_def Let_def del: of_nat_add)
qed

text \<open>
  \<open>answer_for p config body w\<close>: the view \<open>w\<close> of a sent frame is the UDP datagram \<open>body\<close> from the server of the
  query \<open>p\<close> to its client, in the same VLANs, with intact checksums unless the UDP checksum over IPv4 is
  switched off.
\<close>

definition answer_for :: "jg_packet_view \<Rightarrow> jg_dns_response_config \<Rightarrow> bytes \<Rightarrow> jg_packet_view \<Rightarrow> bool" where
  "answer_for p config body w \<longleftrightarrow>
     transport w = JG_TRANSPORT_UDP \<and> transport_complete w \<and> \<not> fragmented w
     \<and> ether_type w = ether_type p \<and> vlan_tci w = vlan_tci p \<and> ip_version w = ip_version p
     \<and> take 12 (frame w) = slice 6 6 (frame p) @ take 6 (frame p)
     \<and> source_address w = destination_address p \<and> destination_address w = source_address p
     \<and> source_port w = destination_port p \<and> destination_port w = source_port p
     \<and> slice (payload_offset w) (payload_size w) (frame w) = body \<and> ip_header_intact w
     \<and> (if ip_version p = JG_IP_V6 \<or> checksum_ipv4_udp config then segment_intact w
        else slice (transport_offset w + 6) 2 (frame w) = [0, 0])"

lemma response_frame_parses:
  assumes parsed: "jg_packet_parse f limits = Done (JG_PACKET_OK, p)" and view: "query_view p"
    and body: "length body + 8 \<le> 65535" "ip_version p = JG_IP_V4 \<longrightarrow> 20 + (length body + 8) \<le> 65535"
  shows "\<exists>w. jg_packet_parse (response_frame p config body) limits = Done (JG_PACKET_OK, w) \<and> answer_for p config body w"
proof -
  define s d c where "s = reply_source True p" and "d = reply_destination True p" and "c = response_check p config body"
  define link h where "link = link_reply True (take (network_offset p) (frame p))"
    and "h = network_header (ip_version p) (length body + 8) 0 IPPROTO_UDP s d"
  let ?udp = "udp_header (destination_port p) (source_port p) (length body + 8)"
  define g where "g = link @ h @ ?udp c @ body"
  have g: "response_frame p config body = g"
    by (simp add: response_frame_def g_def h_def link_def c_def s_def d_def)
  have l: "length s = address_width (ip_version p)" "length d = address_width (ip_version p)" "length link = network_offset p"
    using view by (simp_all add: query_view_def address_width_def s_def d_def link_def)
  then have h: "length h = header_size (ip_version p)" unfolding h_def by (intro length_network_header)
  have f: "frame p = f" using ensuresD[OF packet_parse_ensures parsed] by simp
  have same: "\<forall>i. 12 \<le> i \<longrightarrow> i < network_offset p \<longrightarrow> link ! i = f ! i"
    using view f by (simp add: link_def link_reply_tail query_view_def)
  let ?v = "answer_view p g 0 IPPROTO_UDP s d (length body + 8)"
  let ?w = "?v\<lparr>source_port := destination_port p, destination_port := source_port p, payload_offset := transport_offset ?v + 8,
     payload_size := length body, transport_complete := True, transport := JG_TRANSPORT_UDP\<rparr>"
  have v: "frame ?v = g" "transport_offset ?v = network_offset p + header_size (ip_version p)" "transport_size ?v = length body + 8"
    "\<not> fragmented ?v" "ip_protocol ?v = IPPROTO_UDP" "network_offset ?v = network_offset p"
    by (simp_all add: answer_view_def envelope_def cleared_view_def)
  have "parse_udp ?v = Done ?w"
    by (rule parse_udp_answer[of _ "link @ h" _ _ _ c]) (use v l h body in \<open>simp_all add: g_def\<close>)
  then have transport: "parse_transport ?v = Done ?w" using v by (simp add: parse_transport_def)
  then have "jg_packet_parse g limits = Done (JG_PACKET_OK, ?w)"
    using parse_answer[OF parsed g_def[unfolded h_def] l(3) same l(1,2)] body by simp
  moreover have "ip_header_intact ?w"
    using l h ipv4_header_checksum[OF _ _ refl, of s d "length body + 8" 0 IPPROTO_UDP]
    by (auto simp: ip_header_intact_def answer_view_def g_def h_def network_header_def slice_append header_size_def address_width_def)
  moreover have "segment_intact ?w" if "ip_version p = JG_IP_V6 \<or> checksum_ipv4_udp config"
  proof -
    have "c = udp_check s d (?udp 0 @ body)" using that by (auto simp: c_def response_check_def s_def d_def)
    from udp_check_completes[OF l(1,2) body(1) this] show ?thesis
      using l h by (simp add: segment_intact_def answer_view_def g_def slice_append)
  qed
  moreover have "slice (transport_offset ?w + 6) 2 g = [0, 0]" if "\<not> (ip_version p = JG_IP_V6 \<or> checksum_ipv4_udp config)"
    using that l h by (simp add: answer_view_def g_def c_def response_check_def slice_append udp_header_def)
  moreover have "take 12 g = slice 6 6 (frame p) @ take 6 (frame p)"
    using link_reply_head[of "take (network_offset p) (frame p)" True] view
    by (auto simp: g_def link_def query_view_def slice_def min_def take_drop)
  moreover have "slice (payload_offset ?w) (payload_size ?w) g = body"
    using l h by (simp add: answer_view_def g_def slice_append)
  ultimately have "answer_for p config body ?w"
    using parsed_network[OF parsed] l
    by (simp add: network_view_def answer_for_def answer_view_def envelope_def cleared_view_def s_def d_def)
  with \<open>jg_packet_parse g limits = Done (JG_PACKET_OK, ?w)\<close> g show ?thesis by auto
qed

lemma parsed_query_view:
  assumes "jg_packet_parse f limits = Done (JG_PACKET_OK, p)" "transport p = JG_TRANSPORT_UDP" "\<not> fragmented p"
    and "transport_complete p" "destination_port p = 53" "source_port p \<noteq> 0"
  shows "query_view p"
proof -
  have "transport_valid p" using ensuresD[OF packet_parse_ensures assms(1)] by simp
  then show ?thesis
    using parsed_network[OF assms(1)] assms(2-) by (auto simp: query_view_def network_view_def transport_valid_def Let_def)
qed

lemma length_response_frame:
  "query_view p \<Longrightarrow> length (response_frame p config body) = network_offset p + header_size (ip_version p) + 8 + length body"
  by (simp add: response_frame_def query_view_def address_width_def length_network_header)

lemma response_build_eq:
  assumes view: "query_view p"
    and query: "jg_dns_parse_query query = Done m" "i < question_count m" "q = questions m ! i"
    and config: "jg_dns_response_config_validate config = Inr ()" "action config \<noteq> JG_DNS_BLOCK_DROP"
    and body: "body = response_message query m config q"
  shows "jg_dns_response_build p query i config buf =
    (let n = network_offset p + header_size (ip_version p) + 8 + length body in
     if n > length buf then Fail ENOSPC
     else if (if ip_version p = JG_IP_V4 then 28 else 8) + length body > 65535 then Fail EMSGSIZE
     else Done (response_frame p config body @ drop n buf, n))"
proof -
  let ?n = "network_offset p" and ?hs = "header_size (ip_version p)"
  have valid: "packet_valid p"
    using view by (auto simp: packet_valid_def query_view_def address_width_def JG_PACKET_ADDRESS_SIZE_def)
  have hs: "(if ip_version p = JG_IP_V4 then IPV4_HEADER_SIZE else IPV6_HEADER_SIZE) = ?hs" "?hs \<le> 40" "?n \<le> 46"
    using view by (simp_all add: header_size_def query_view_def)
  have add: "jg_size_add ?n (?hs + 8) = Some (?n + ?hs + 8)"
    using hs by (subst jg_size_add_Some_iff) (simp_all add: SIZE_MAX_def)
  note dns = build_dns_message_eq[OF query config body, of "drop (?n + ?hs + 8) buf"]
  define start rest where "start = take (?n + ?hs + 8) buf" and "rest = drop (?n + ?hs + 8 + length body) buf"
  have unfold: "jg_dns_response_build p query i config buf =
      (if ?n + ?hs + 8 > length buf then Fail ENOSPC
       else if length body > length buf - (?n + ?hs + 8) then Fail ENOSPC
       else case jg_size_add 8 (length body) of None \<Rightarrow> Fail EMSGSIZE
         | Some udp_size \<Rightarrow>
             if udp_size > UINT16_MAX \<or> (ip_version p = JG_IP_V4 \<and> 20 + udp_size > UINT16_MAX) then Fail EMSGSIZE
             else (case jg_size_add (?n + ?hs + 8) (length body) of None \<Rightarrow> Fail EMSGSIZE
               | Some n \<Rightarrow> if n > length buf then Fail EMSGSIZE
                   else and_then (build_headers p config ?hs udp_size (start @ body @ rest)) (\<lambda>out. Done (out, n))))"
    unfolding jg_dns_response_build_def Let_def hs(1) add
    using valid query config
    by (simp add: dns start_def rest_def blit_start add.commute[of "length body"] split: option.split)
  consider (small) "?n + ?hs + 8 + length body > length buf"
    | (large) "?n + ?hs + 8 + length body \<le> length buf" "(if ip_version p = JG_IP_V4 then 28 else 8) + length body > 65535"
    | (fits) "?n + ?hs + 8 + length body \<le> length buf" "length body + 8 \<le> 65535" "ip_version p = JG_IP_V4 \<longrightarrow> 20 + (length body + 8) \<le> 65535"
    by (cases "ip_version p = JG_IP_V4"; cases "?n + ?hs + 8 + length body > length buf";
        cases "length body + 8 \<le> 65535"; cases "20 + (length body + 8) \<le> 65535") (simp_all add: not_less not_le)
  then show ?thesis
  proof cases
    case small
    then have "jg_dns_response_build p query i config buf = Fail ENOSPC" unfolding unfold by (auto simp: not_le)
    with small show ?thesis by (simp only: if_True Let_def)
  next
    case large
    then have "jg_dns_response_build p query i config buf = Fail EMSGSIZE"
      unfolding unfold jg_size_add_def UINT16_MAX_def by (auto split: if_splits)
    with large show ?thesis by (simp only: if_True if_False not_less[symmetric] Let_def)
  next
    case fits
    have size: "jg_size_add 8 (length body) = Some (length body + 8)" "jg_size_add (?n + ?hs + 8) (length body) = Some (?n + ?hs + 8 + length body)"
      using fits hs by (subst jg_size_add_Some_iff; simp add: SIZE_MAX_def)+
    have "build_headers p config ?hs (length body + 8) (start @ body @ rest) = Done (response_frame p config body @ rest)"
      by (rule build_headers_eq[OF view fits(2) refl]) (use fits in \<open>simp add: start_def\<close>)
    then show ?thesis
      unfolding unfold size Let_def using fits by (auto simp: UINT16_MAX_def rest_def not_less)
  qed
qed

text \<open>The answer record is for the name of the question.\<close>

lemma answer_name_decodes:
  assumes parsed: "jg_dns_parse_query query = Done m" and i: "i < question_count m" "q = questions m ! i"
    and a: "answer_address config q = Some a"
  shows "jg_dns_decode_name (response_message query m config q) (12 + question_wire_size m) (JG_DOMAIN_NAME_MAX + 1)
    = Done (qname q, 12 + question_wire_size m + length (Dns.encode_name (split_dots (qname q))))"
proof -
  obtain c c' where qs: "questions_at query c (questions m) c'" using parsed_query(2)[OF parsed i(1)] by blast
  have q: "q \<in> set (questions m)" using i by simp
  let ?ls = "split_dots (qname q)"
  define pre where "pre = take (12 + question_wire_size m) (response_message query m config q)"
  obtain post where whole: "response_message query m config q = pre @ Dns.encode_name ?ls @ post"
    and pre: "length pre = 12 + question_wire_size m"
    using parsed_query(1)[OF parsed] a by (simp add: pre_def response_message_def answer_record_def)
  have labels: "list_all decoded_label ?ls" "length (qname q) \<le> JG_DOMAIN_NAME_MAX" using query_names[OF qs q] by simp_all
  then have "name_at (pre @ Dns.encode_name ?ls @ post) (length pre) 0 ?ls (length pre + length (Dns.encode_name ?ls))"
    by (intro name_at_encode) (auto simp: list_all_iff decoded_label_def)
  moreover have "map (map ascii_lower) ?ls = ?ls" using labels(1) by (auto simp: list_all_iff decoded_label_def intro: map_idI)
  moreover have "policy_labels ?ls" using labels(1) by (auto simp: list_all_iff decoded_label_def policy_labels_def)
  ultimately have "name_text (pre @ Dns.encode_name ?ls @ post) (length pre) (qname q) (length pre + length (Dns.encode_name ?ls))"
    unfolding name_text_def using labels(2) by (intro exI[of _ 0] exI[of _ ?ls]) simp
  then show ?thesis unfolding whole pre[symmetric] by simp
qed

text \<open>
  C19. A blocked DNS query is answered as the policy says. For every complete UDP query to port 53 that the
  parsers return and every validated configuration other than DROP, the response is built exactly when it
  fits the buffer and the IP and UDP length fields, with ENOSPC and EMSGSIZE otherwise. It then parses as a
  datagram from the server to the client with intact checksums, whose body has the identifier and the
  questions of the query and the response code of the action; in sinkhole mode an address of the right
  family is the answer, and its owner name decodes to the name of the question.
\<close>

theorem jg_dns_response_build_correct:
  assumes parsed: "jg_packet_parse f limits = Done (JG_PACKET_OK, p)"
    and packet: "transport p = JG_TRANSPORT_UDP" "\<not> fragmented p" "transport_complete p" "destination_port p = 53" "source_port p \<noteq> 0"
    and query: "jg_dns_parse_query query = Done m" "i < question_count m" "q = questions m ! i"
    and config: "jg_dns_response_config_validate config = Inr ()" "action config \<noteq> JG_DNS_BLOCK_DROP"
    and body: "body = response_message query m config q"
  shows "if network_offset p + header_size (ip_version p) + 8 + length body > length buf
    then jg_dns_response_build p query i config buf = Fail ENOSPC
    else if (if ip_version p = JG_IP_V4 then 28 else 8) + length body > 65535
    then jg_dns_response_build p query i config buf = Fail EMSGSIZE
    else \<exists>fr w. jg_dns_response_build p query i config buf = Done (fr @ drop (length fr) buf, length fr)
      \<and> jg_packet_parse fr limits = Done (JG_PACKET_OK, w) \<and> answer_for p config body w
      \<and> (answer_address config q \<noteq> None \<longrightarrow>
          jg_dns_decode_name body (12 + question_wire_size m) (JG_DOMAIN_NAME_MAX + 1)
          = Done (qname q, 12 + question_wire_size m + length (Dns.encode_name (split_dots (qname q)))))"
proof -
  let ?size = "network_offset p + header_size (ip_version p) + 8 + length body"
  have view: "query_view p" by (rule parsed_query_view[OF parsed packet])
  note built = response_build_eq[OF view query config body, of buf]
  show ?thesis
  proof (cases "?size \<le> length buf \<and> (if ip_version p = JG_IP_V4 then 28 else 8) + length body \<le> 65535")
    case False
    then show ?thesis unfolding built by (auto simp: not_le)
  next
    case True
    then have fits: "length body + 8 \<le> 65535" "ip_version p = JG_IP_V4 \<longrightarrow> 20 + (length body + 8) \<le> 65535"
      by (auto split: if_splits)
    obtain w where "jg_packet_parse (response_frame p config body) limits = Done (JG_PACKET_OK, w)" "answer_for p config body w"
      using response_frame_parses[OF parsed view fits] by blast
    moreover have "jg_dns_response_build p query i config buf
        = Done (response_frame p config body @ drop (length (response_frame p config body)) buf, length (response_frame p config body))"
      using True built length_response_frame[OF view] by (simp add: Let_def)
    ultimately show ?thesis
      using True answer_name_decodes[OF query] unfolding body by (auto simp: not_less)
  qed
qed

text \<open>A query for \<open>a.example\<close>, type A, from 10.0.0.1:4096, answered with the sinkhole 192.0.2.1.\<close>

definition example_query :: bytes where
  "example_query = [0, 7, 1, 0, 0, 1, 0, 0, 0, 0, 0, 0] @ Dns.encode_name [str ''a'', str ''example''] @ [0, 1, 0, 1]"

definition example_frame :: bytes where
  "example_frame = [2, 0, 0, 0, 0, 2, 2, 0, 0, 0, 0, 1, 8, 0]
     @ [0x45, 0, 0, 55, 0, 0, 0, 0, 64, 17, 0, 0, 10, 0, 0, 1, 10, 0, 0, 2] @ [16, 0, 0, 53, 0, 35, 0, 0] @ example_query"

definition example_config :: jg_dns_response_config where
  "example_config = jg_dns_response_config_default\<lparr>action := JG_DNS_BLOCK_SINKHOLE, has_ipv4_sinkhole := True,
     ipv4_sinkhole := [192, 0, 2, 1]\<rparr>"

definition example_view :: jg_packet_view where
  "example_view = (case jg_packet_parse example_frame None of Done (_, v) \<Rightarrow> v | _ \<Rightarrow> cleared_view)"

definition example_message :: jg_dns_message where
  "example_message = \<lparr>dns_id = 7, dns_flags = 0x0100, wire_question_count = 1, answer_count = 0, authority_count = 0,
     additional_count = 0, question_wire_size = 15, has_edns0 = False,
     questions = [\<lparr>qname = str ''a.example'', wire_offset = 12, qtype = 1, qclass = 1\<rparr>]\<rparr>"

theorem jg_dns_response_build_correct_witness:
  "\<exists>fr w. jg_dns_response_build example_view example_query 0 example_config (replicate 512 0) = Done (fr @ drop (length fr) (replicate 512 0), length fr)
    \<and> jg_packet_parse fr None = Done (JG_PACKET_OK, w)
    \<and> answer_for example_view example_config ([0, 7, 0x81, 0x80, 0, 1, 0, 1, 0, 0, 0, 0]
        @ Dns.encode_name [str ''a'', str ''example''] @ [0, 1, 0, 1]
        @ Dns.encode_name [str ''a'', str ''example''] @ [0, 1, 0, 1, 0, 0, 0, 60, 0, 4, 192, 0, 2, 1]) w"
proof -
  have parsed: "jg_packet_parse example_frame None = Done (JG_PACKET_OK, example_view)" by code_simp
  have packet: "transport example_view = JG_TRANSPORT_UDP" "\<not> fragmented example_view" "transport_complete example_view"
    "destination_port example_view = 53" "source_port example_view \<noteq> 0" by code_simp+
  have query: "jg_dns_parse_query example_query = Done example_message" by code_simp
  have config: "jg_dns_response_config_validate example_config = Inr ()" "action example_config \<noteq> JG_DNS_BLOCK_DROP"
    "0 < question_count example_message" by code_simp+
  have body: "response_message example_query example_message example_config (questions example_message ! 0)
      = [0, 7, 0x81, 0x80, 0, 1, 0, 1, 0, 0, 0, 0] @ Dns.encode_name [str ''a'', str ''example''] @ [0, 1, 0, 1]
        @ Dns.encode_name [str ''a'', str ''example''] @ [0, 1, 0, 1, 0, 0, 0, 60, 0, 4, 192, 0, 2, 1]" by code_simp
  have view: "network_offset example_view = 14" "ip_version example_view = JG_IP_V4" by code_simp+
  show ?thesis
    using jg_dns_response_build_correct[OF parsed packet query config(3) refl config(1,2) body[symmetric], of "replicate 512 0"]
    by (auto simp: view header_size_def)
qed

end
