(* ===== verification/Fragment.thy ===== *)
theory Fragment
  imports Frames
begin

text \<open>
  \<^verbatim>\<open>src/daemon/fragment.c\<close>: the bounded tracker of IPv4 and IPv6 fragments. The three arenas of the C
  code are flat lists: \<open>entries\<close>, \<open>intervals\<close> (\<open>max_fragments_per_datagram\<close> for each entry) and
  \<open>payloads\<close> (\<open>max_bytes_per_datagram\<close> for each entry); a pointer into an arena is an index into the
  list, and an access outside the arena is a fault. \<open>SIZE_MAX\<close> as the index of no entry is \<open>None\<close>.
  Allocation is a parameter, and so is what the uninitialised payload arena holds.
\<close>

section \<open>Data\<close>

record jg_fragment_limits =
  max_datagrams :: nat
  max_fragments_per_datagram :: nat
  max_bytes_per_datagram :: nat
  max_datagrams_per_source :: nat
  timeout_ms :: u64

datatype jg_fragment_result =
    JG_FRAGMENT_STORED | JG_FRAGMENT_DUPLICATE | JG_FRAGMENT_COMPLETE
  | JG_FRAGMENT_MALFORMED | JG_FRAGMENT_OVERLAP | JG_FRAGMENT_EXHAUSTED

record fragment_key =
  key_source :: bytes
  key_destination :: bytes
  key_vlan_tci :: "u16 list"
  key_fragment_id :: u32
  key_address_size :: nat
  key_vlan_count :: nat
  key_ip_version :: jg_ip_version
  key_protocol :: u8

record fragment_interval =
  interval_offset :: nat
  interval_size :: nat
  interval_more :: bool

record fragment_entry =
  entry_key :: fragment_key
  expires_at :: u64
  fragment_count :: nat
  expected_size :: nat
  has_last :: bool
  rejected :: bool
  active :: bool

record jg_fragment_stats =
  stored :: u64
  duplicates :: u64
  completed :: u64
  malformed :: u64
  overlaps :: u64
  exhausted :: u64
  timeouts :: u64

record jg_fragment_tracker =
  tracker_limits :: jg_fragment_limits
  entries :: "fragment_entry list"
  intervals :: "fragment_interval list"
  payloads :: bytes
  stats :: jg_fragment_stats

definition JG_FRAGMENT_DATAGRAM_LIMIT :: nat where "JG_FRAGMENT_DATAGRAM_LIMIT = 1024"
definition JG_FRAGMENT_PER_DATAGRAM_LIMIT :: nat where "JG_FRAGMENT_PER_DATAGRAM_LIMIT = 64"
definition JG_FRAGMENT_BYTES_LIMIT :: nat where "JG_FRAGMENT_BYTES_LIMIT = 65535"
definition JG_FRAGMENT_TIMEOUT_MAX :: u64 where "JG_FRAGMENT_TIMEOUT_MAX = 120000"

text \<open>Zeroed structures.\<close>

definition cleared_key :: fragment_key where
  "cleared_key = \<lparr>key_source = replicate 16 0, key_destination = replicate 16 0, key_vlan_tci = replicate 8 0,
     key_fragment_id = 0, key_address_size = 0, key_vlan_count = 0, key_ip_version = JG_IP_NONE, key_protocol = 0\<rparr>"

definition cleared_interval :: fragment_interval where
  "cleared_interval = \<lparr>interval_offset = 0, interval_size = 0, interval_more = False\<rparr>"

definition cleared_entry :: fragment_entry where
  "cleared_entry = \<lparr>entry_key = cleared_key, expires_at = 0, fragment_count = 0, expected_size = 0,
     has_last = False, rejected = False, active = False\<rparr>"

definition initialize_stats :: jg_fragment_stats where
  "initialize_stats = \<lparr>stored = 0, duplicates = 0, completed = 0, malformed = 0, overlaps = 0, exhausted = 0, timeouts = 0\<rparr>"

section \<open>Entries\<close>

type_synonym tracked = "(errno, jg_fragment_tracker) run"

abbreviation interval_base :: "jg_fragment_tracker \<Rightarrow> nat \<Rightarrow> nat" where
  "interval_base t i \<equiv> i * max_fragments_per_datagram (tracker_limits t)"

abbreviation payload_base :: "jg_fragment_tracker \<Rightarrow> nat \<Rightarrow> nat" where
  "payload_base t i \<equiv> i * max_bytes_per_datagram (tracker_limits t)"

definition clear_entry :: "jg_fragment_tracker \<Rightarrow> nat \<Rightarrow> tracked" where
  "clear_entry t i =
     and_then (raw (store_at (intervals t) (interval_base t i)
                 (replicate (max_fragments_per_datagram (tracker_limits t)) cleared_interval))) (\<lambda>is.
     and_then (raw (store_at (entries t) i [cleared_entry])) (\<lambda>es.
       Done (t\<lparr>intervals := is, entries := es\<rparr>)))"

definition build_key :: "jg_packet_view \<Rightarrow> (errno, fragment_key) run" where
  "build_key packet =
     and_then (raw (bytes_at (source_address packet) 0 (address_size packet))) (\<lambda>s.
     and_then (raw (store_at (key_source cleared_key) 0 s)) (\<lambda>source.
     and_then (raw (bytes_at (destination_address packet) 0 (address_size packet))) (\<lambda>d.
     and_then (raw (store_at (key_destination cleared_key) 0 d)) (\<lambda>destination.
     and_then (raw (store_at (key_vlan_tci cleared_key) 0 (map (\<lambda>tci. tci AND 0x0FFF) (vlan_tci packet)))) (\<lambda>vlans.
       Done \<lparr>key_source = source, key_destination = destination, key_vlan_tci = vlans,
             key_fragment_id = fragment_id packet, key_address_size = address_size packet,
             key_vlan_count = vlan_count packet, key_ip_version = ip_version packet,
             key_protocol = ip_protocol packet\<rparr>)))))"

definition keys_equal :: "fragment_key \<Rightarrow> fragment_key \<Rightarrow> bool" where
  "keys_equal left right \<longleftrightarrow>
     key_fragment_id left = key_fragment_id right \<and> key_address_size left = key_address_size right
     \<and> key_vlan_count left = key_vlan_count right \<and> key_ip_version left = key_ip_version right
     \<and> key_protocol left = key_protocol right
     \<and> take (key_address_size left) (key_source left) = take (key_address_size left) (key_source right)
     \<and> take (key_address_size left) (key_destination left) = take (key_address_size left) (key_destination right)
     \<and> take (key_vlan_count left) (key_vlan_tci left) = take (key_vlan_count left) (key_vlan_tci right)"

definition sources_equal :: "fragment_key \<Rightarrow> fragment_key \<Rightarrow> bool" where
  "sources_equal left right \<longleftrightarrow>
     key_ip_version left = key_ip_version right \<and> key_address_size left = key_address_size right
     \<and> take (key_address_size left) (key_source left) = take (key_address_size left) (key_source right)"

fun expire_loop :: "u64 \<Rightarrow> nat list \<Rightarrow> jg_fragment_tracker \<Rightarrow> tracked" where
  "expire_loop now_ms [] t = Done t"
| "expire_loop now_ms (i # is) t =
     and_then (raw (byte_at (entries t) i)) (\<lambda>e.
       if active e \<and> expires_at e \<le> now_ms then
         and_then (clear_entry t i) (\<lambda>t.
           expire_loop now_ms is
             (if \<not> rejected e then t\<lparr>stats := (stats t)\<lparr>timeouts := timeouts (stats t) + 1\<rparr>\<rparr> else t))
       else expire_loop now_ms is t)"

definition expire_entries :: "jg_fragment_tracker \<Rightarrow> u64 \<Rightarrow> tracked" where
  "expire_entries t now_ms = expire_loop now_ms [0..<max_datagrams (tracker_limits t)] t"

text \<open>The index of the key, if any, and of the first free slot seen before.\<close>

fun find_loop :: "jg_fragment_tracker \<Rightarrow> fragment_key \<Rightarrow> nat list \<Rightarrow> nat option \<Rightarrow> (errno, nat option \<times> nat option) run" where
  "find_loop t key [] free_index = Done (None, free_index)"
| "find_loop t key (i # is) free_index =
     and_then (raw (byte_at (entries t) i)) (\<lambda>e.
       if \<not> active e then find_loop t key is (if free_index = None then Some i else free_index)
       else if keys_equal (entry_key e) key then Done (Some i, free_index)
       else find_loop t key is free_index)"

definition find_entry :: "jg_fragment_tracker \<Rightarrow> fragment_key \<Rightarrow> (errno, nat option \<times> nat option) run" where
  "find_entry t key = find_loop t key [0..<max_datagrams (tracker_limits t)] None"

fun count_loop :: "jg_fragment_tracker \<Rightarrow> fragment_key \<Rightarrow> nat list \<Rightarrow> nat \<Rightarrow> (errno, nat) run" where
  "count_loop t key [] count = Done count"
| "count_loop t key (i # is) count =
     and_then (raw (byte_at (entries t) i)) (\<lambda>e.
       count_loop t key is (if active e \<and> sources_equal (entry_key e) key then count + 1 else count))"

definition source_entry_count :: "jg_fragment_tracker \<Rightarrow> fragment_key \<Rightarrow> (errno, nat) run" where
  "source_entry_count t key = count_loop t key [0..<max_datagrams (tracker_limits t)] 0"

definition expiration_deadline :: "jg_fragment_tracker \<Rightarrow> u64 \<Rightarrow> u64" where
  "expiration_deadline t now_ms =
     (if now_ms > - 1 - timeout_ms (tracker_limits t) then - 1 else now_ms + timeout_ms (tracker_limits t))"

definition initialize_entry :: "jg_fragment_tracker \<Rightarrow> nat \<Rightarrow> fragment_key \<Rightarrow> u64 \<Rightarrow> tracked" where
  "initialize_entry t i key now_ms =
     and_then (raw (byte_at (entries t) i)) (\<lambda>e.
       Done (t\<lparr>entries := (entries t)[i := e\<lparr>entry_key := key, expires_at := expiration_deadline t now_ms, active := True\<rparr>]\<rparr>))"

definition reject_entry :: "jg_fragment_tracker \<Rightarrow> nat \<Rightarrow> u64 \<Rightarrow> tracked" where
  "reject_entry t i now_ms =
     and_then (raw (byte_at (entries t) i)) (\<lambda>old.
     and_then (clear_entry t i) (\<lambda>t.
     and_then (initialize_entry t i (entry_key old) now_ms) (\<lambda>t.
     and_then (raw (byte_at (entries t) i)) (\<lambda>e.
       Done (t\<lparr>entries := (entries t)[i := e\<lparr>rejected := True\<rparr>]\<rparr>)))))"

section \<open>Intervals\<close>

fun inspect_loop ::
  "jg_fragment_tracker \<Rightarrow> nat \<Rightarrow> nat \<Rightarrow> bool \<Rightarrow> bytes \<Rightarrow> nat list \<Rightarrow> (errno, jg_fragment_result) run" where
  "inspect_loop t i off behind fragment [] = Done JG_FRAGMENT_STORED"
| "inspect_loop t i off behind fragment (k # ks) =
     and_then (raw (byte_at (intervals t) (interval_base t i + k))) (\<lambda>v.
     and_then (if off = interval_offset v \<and> length fragment = interval_size v \<and> behind = interval_more v
               then and_then (raw (bytes_at (payloads t) (payload_base t i + interval_offset v) (length fragment)))
                      (\<lambda>old. Done (fragment = old))
               else Done False) (\<lambda>same.
       if same then Done JG_FRAGMENT_DUPLICATE
       else if off < interval_offset v + interval_size v \<and> interval_offset v < off + length fragment
       then Done JG_FRAGMENT_OVERLAP
       else inspect_loop t i off behind fragment ks))"

definition inspect_intervals ::
  "jg_fragment_tracker \<Rightarrow> nat \<Rightarrow> nat \<Rightarrow> bool \<Rightarrow> bytes \<Rightarrow> (errno, jg_fragment_result) run" where
  "inspect_intervals t i off behind fragment =
     and_then (raw (byte_at (entries t) i)) (\<lambda>e.
       inspect_loop t i off behind fragment [0..<fragment_count e])"

text \<open>The loop of \<open>insert_interval\<close> that shifts the intervals behind the insertion point.\<close>

fun shift_loop :: "fragment_interval list \<Rightarrow> nat \<Rightarrow> nat \<Rightarrow> nat \<Rightarrow> (errno, fragment_interval list \<times> nat) run" where
  "shift_loop ints base off 0 = Done (ints, 0)"
| "shift_loop ints base off (Suc n) =
     and_then (raw (byte_at ints (base + n))) (\<lambda>previous.
       if interval_offset previous > off
       then and_then (raw (store_at ints (base + Suc n) [previous])) (\<lambda>ints. shift_loop ints base off n)
       else Done (ints, Suc n))"

definition insert_interval :: "jg_fragment_tracker \<Rightarrow> nat \<Rightarrow> nat \<Rightarrow> nat \<Rightarrow> bool \<Rightarrow> tracked" where
  "insert_interval t i off n behind =
     and_then (raw (byte_at (entries t) i)) (\<lambda>e.
     and_then (shift_loop (intervals t) (interval_base t i) off (fragment_count e)) (\<lambda>(ints, insertion).
     and_then (raw (store_at ints (interval_base t i + insertion)
                 [\<lparr>interval_offset = off, interval_size = n, interval_more = behind\<rparr>])) (\<lambda>ints.
       Done (t\<lparr>intervals := ints, entries := (entries t)[i := e\<lparr>fragment_count := fragment_count e + 1\<rparr>]\<rparr>))))"

fun complete_loop :: "jg_fragment_tracker \<Rightarrow> nat \<Rightarrow> nat list \<Rightarrow> nat \<Rightarrow> (errno, nat option) run" where
  "complete_loop t i [] cursor = Done (Some cursor)"
| "complete_loop t i (k # ks) cursor =
     and_then (raw (byte_at (intervals t) (interval_base t i + k))) (\<lambda>v.
       if interval_offset v \<noteq> cursor then Done None else complete_loop t i ks (cursor + interval_size v))"

definition entry_complete :: "jg_fragment_tracker \<Rightarrow> nat \<Rightarrow> (errno, bool) run" where
  "entry_complete t i =
     and_then (raw (byte_at (entries t) i)) (\<lambda>e.
       if \<not> has_last e then Done False
       else and_then (complete_loop t i [0..<fragment_count e] 0) (\<lambda>c. Done (c = Some (expected_size e))))"

section \<open>Trackers\<close>

definition jg_fragment_limits_default :: jg_fragment_limits where
  "jg_fragment_limits_default = \<lparr>max_datagrams = 128, max_fragments_per_datagram = 32, max_bytes_per_datagram = 4096,
     max_datagrams_per_source = 16, timeout_ms = 30000\<rparr>"

definition jg_fragment_limits_validate :: "jg_fragment_limits \<Rightarrow> unit result" where
  "jg_fragment_limits_validate l =
     (if max_datagrams l = 0 \<or> max_fragments_per_datagram l = 0 \<or> max_bytes_per_datagram l = 0
         \<or> max_datagrams_per_source l = 0 \<or> timeout_ms l = 0 then Inl EINVAL
      else if max_datagrams l > JG_FRAGMENT_DATAGRAM_LIMIT
         \<or> max_fragments_per_datagram l > JG_FRAGMENT_PER_DATAGRAM_LIMIT
         \<or> max_bytes_per_datagram l > JG_FRAGMENT_BYTES_LIMIT
         \<or> max_datagrams_per_source l > max_datagrams l
         \<or> timeout_ms l > JG_FRAGMENT_TIMEOUT_MAX then Inl ERANGE
      else Inr ())"

text \<open>
  \<open>calloc n s\<close> says whether the allocation of \<open>n\<close> zeroed elements of \<open>s\<close> bytes succeeds; \<open>malloc n\<close> is the
  block of \<open>n\<close> bytes with its content, if any. The element sizes are those of the LP64 layout.
\<close>

definition jg_fragment_tracker_create ::
  "(nat \<Rightarrow> nat \<Rightarrow> bool) \<Rightarrow> (nat \<Rightarrow> bytes option) \<Rightarrow> jg_fragment_limits option \<Rightarrow> jg_fragment_tracker result" where
  "jg_fragment_tracker_create calloc malloc limits =
     (let l = (case limits of None \<Rightarrow> jg_fragment_limits_default | Some l \<Rightarrow> l) in
      case jg_fragment_limits_validate l of
        Inl e \<Rightarrow> Inl e
      | Inr _ \<Rightarrow>
          (case (jg_size_multiply (max_datagrams l) (max_fragments_per_datagram l),
                 jg_size_multiply (max_datagrams l) (max_bytes_per_datagram l)) of
             (Some interval_count, Some payload_bytes) \<Rightarrow>
               (if \<not> calloc 1 120 \<or> \<not> calloc (max_datagrams l) 112 \<or> \<not> calloc interval_count 24 then Inl ENOMEM
                else (case malloc payload_bytes of
                  None \<Rightarrow> Inl ENOMEM
                | Some block \<Rightarrow> Inr \<lparr>tracker_limits = l, entries = replicate (max_datagrams l) cleared_entry,
                    intervals = replicate interval_count cleared_interval, payloads = block,
                    stats = initialize_stats\<rparr>))
           | _ \<Rightarrow> Inl EOVERFLOW))"

text \<open>
  \<open>jg_fragment_tracker_add\<close>: the tracker afterwards and either the error of a payload that does not fit
  the output or the result with the bytes copied to the output.
\<close>

type_synonym added = "(errno, jg_fragment_tracker \<times> (errno + jg_fragment_result \<times> bytes)) run"

definition count_malformed :: "jg_fragment_tracker \<Rightarrow> jg_fragment_tracker" where
  "count_malformed t = t\<lparr>stats := (stats t)\<lparr>malformed := malformed (stats t) + 1\<rparr>\<rparr>"

definition count_overlap :: "jg_fragment_tracker \<Rightarrow> jg_fragment_tracker" where
  "count_overlap t = t\<lparr>stats := (stats t)\<lparr>overlaps := overlaps (stats t) + 1\<rparr>\<rparr>"

definition count_exhausted :: "jg_fragment_tracker \<Rightarrow> jg_fragment_tracker" where
  "count_exhausted t = t\<lparr>stats := (stats t)\<lparr>exhausted := exhausted (stats t) + 1\<rparr>\<rparr>"

definition count_duplicate :: "jg_fragment_tracker \<Rightarrow> jg_fragment_tracker" where
  "count_duplicate t = t\<lparr>stats := (stats t)\<lparr>duplicates := duplicates (stats t) + 1\<rparr>\<rparr>"

definition count_stored :: "jg_fragment_tracker \<Rightarrow> jg_fragment_tracker" where
  "count_stored t = t\<lparr>stats := (stats t)\<lparr>stored := stored (stats t) + 1\<rparr>\<rparr>"

definition count_completed :: "jg_fragment_tracker \<Rightarrow> jg_fragment_tracker" where
  "count_completed t = t\<lparr>stats := (stats t)\<lparr>completed := completed (stats t) + 1\<rparr>\<rparr>"

abbreviation reject_with ::
  "jg_fragment_tracker \<Rightarrow> nat \<Rightarrow> u64 \<Rightarrow> (jg_fragment_tracker \<Rightarrow> jg_fragment_tracker) \<Rightarrow> jg_fragment_result \<Rightarrow> added" where
  "reject_with t i now_ms count r \<equiv>
     and_then (reject_entry t i now_ms) (\<lambda>t. Done (count t, Inr (r, [])))"

text \<open>The end of the function: the fragment is retained, and a complete datagram is delivered.\<close>

definition retain_fragment :: "jg_fragment_tracker \<Rightarrow> nat \<Rightarrow> jg_packet_view \<Rightarrow> bytes \<Rightarrow> u64 \<Rightarrow> nat \<Rightarrow> added" where
  "retain_fragment t i packet fragment now_ms output_size =
     and_then (raw (store_at (payloads t) (payload_base t i + fragment_offset packet) fragment)) (\<lambda>ps.
     and_then (insert_interval (t\<lparr>payloads := ps\<rparr>) i (fragment_offset packet) (length fragment) (more_fragments packet)) (\<lambda>t.
     and_then (raw (byte_at (entries t) i)) (\<lambda>e.
       let e = (if \<not> more_fragments packet
                then e\<lparr>has_last := True, expected_size := fragment_offset packet + length fragment\<rparr> else e);
           e = e\<lparr>expires_at := expiration_deadline t now_ms\<rparr>;
           t = t\<lparr>entries := (entries t)[i := e]\<rparr>
       in and_then (entry_complete t i) (\<lambda>complete.
            if \<not> complete then Done (count_stored t, Inr (JG_FRAGMENT_STORED, []))
            else if output_size < expected_size e
            then and_then (reject_entry t i now_ms) (\<lambda>t. Done (t, Inl ENOSPC))
            else and_then (raw (bytes_at (payloads t) (payload_base t i) (expected_size e))) (\<lambda>reassembled.
                 and_then (clear_entry t i) (\<lambda>t.
                   Done (count_completed t, Inr (JG_FRAGMENT_COMPLETE, reassembled))))))))"

text \<open>The checks on the entry of the datagram.\<close>

definition check_fragment :: "jg_fragment_tracker \<Rightarrow> nat \<Rightarrow> jg_packet_view \<Rightarrow> nat \<Rightarrow> u64 \<Rightarrow> nat \<Rightarrow> added" where
  "check_fragment t i packet fragment_end now_ms output_size =
     and_then (raw (byte_at (entries t) i)) (\<lambda>e.
     and_then (raw (bytes_at (frame packet) (transport_offset packet) (transport_size packet))) (\<lambda>fragment.
       if has_last e \<and> fragment_end > expected_size e
       then reject_with t i now_ms count_overlap JG_FRAGMENT_OVERLAP
       else if \<not> more_fragments packet \<and> has_last e \<and> expected_size e \<noteq> fragment_end
       then reject_with t i now_ms count_overlap JG_FRAGMENT_OVERLAP
       else and_then (inspect_intervals t i (fragment_offset packet) (more_fragments packet) fragment) (\<lambda>interval_result.
         if interval_result = JG_FRAGMENT_DUPLICATE
         then Done (count_duplicate t, Inr (JG_FRAGMENT_DUPLICATE, []))
         else if interval_result = JG_FRAGMENT_OVERLAP
         then reject_with t i now_ms count_overlap JG_FRAGMENT_OVERLAP
         else if fragment_count e \<ge> max_fragments_per_datagram (tracker_limits t)
         then reject_with t i now_ms count_exhausted JG_FRAGMENT_EXHAUSTED
         else retain_fragment t i packet fragment now_ms output_size)))"

definition jg_fragment_tracker_add :: "jg_fragment_tracker \<Rightarrow> jg_packet_view \<Rightarrow> u64 \<Rightarrow> nat \<Rightarrow> added" where
  "jg_fragment_tracker_add t packet now_ms output_size =
     (if \<not> fragmented packet \<or> (ip_version packet \<noteq> JG_IP_V4 \<and> ip_version packet \<noteq> JG_IP_V6)
         \<or> address_size packet = 0 \<or> address_size packet > JG_PACKET_ADDRESS_SIZE
         \<or> vlan_count packet > JG_PACKET_VLAN_LIMIT
         \<or> \<not> jg_range_valid (transport_offset packet) (transport_size packet) (frame_size packet)
      then Fail EINVAL
      else and_then (build_key packet) (\<lambda>key.
        and_then (expire_entries t now_ms) (\<lambda>t.
        and_then (find_entry t key) (\<lambda>(entry_index, free_index).
        and_then (case entry_index of None \<Rightarrow> Done False
                  | Some i \<Rightarrow> and_then (raw (byte_at (entries t) i)) (\<lambda>e. Done (rejected e))) (\<lambda>is_rejected.
          if is_rejected then Done (count_overlap t, Inr (JG_FRAGMENT_OVERLAP, []))
          else if transport_size packet = 0 \<or> (more_fragments packet \<and> transport_size packet mod 8 \<noteq> 0)
                  \<or> jg_size_add (fragment_offset packet) (transport_size packet) = None
          then (case entry_index of
                  Some i \<Rightarrow> reject_with t i now_ms count_malformed JG_FRAGMENT_MALFORMED
                | None \<Rightarrow> Done (count_malformed t, Inr (JG_FRAGMENT_MALFORMED, [])))
          else let fragment_end = fragment_offset packet + transport_size packet in
            if fragment_end > max_bytes_per_datagram (tracker_limits t)
            then (case entry_index of
                    Some i \<Rightarrow> reject_with t i now_ms count_exhausted JG_FRAGMENT_EXHAUSTED
                  | None \<Rightarrow> Done (count_exhausted t, Inr (JG_FRAGMENT_EXHAUSTED, [])))
            else (case entry_index of
                    Some i \<Rightarrow> check_fragment t i packet fragment_end now_ms output_size
                  | None \<Rightarrow>
                      (case free_index of
                         None \<Rightarrow> Done (count_exhausted t, Inr (JG_FRAGMENT_EXHAUSTED, []))
                       | Some i \<Rightarrow>
                           and_then (source_entry_count t key) (\<lambda>n.
                             if n \<ge> max_datagrams_per_source (tracker_limits t)
                             then Done (count_exhausted t, Inr (JG_FRAGMENT_EXHAUSTED, []))
                             else and_then (initialize_entry t i key now_ms) (\<lambda>t.
                               check_fragment t i packet fragment_end now_ms output_size)))))))))"

definition jg_fragment_tracker_get_stats :: "jg_fragment_tracker \<Rightarrow> jg_fragment_stats" where
  "jg_fragment_tracker_get_stats t = stats t"

section \<open>The reconstructed frame\<close>

definition jg_fragment_build_frame :: "jg_packet_view \<Rightarrow> bytes \<Rightarrow> bytes \<Rightarrow> (errno, bytes \<times> nat) run" where
  "jg_fragment_build_frame packet payload output =
     (if \<not> fragmented packet \<or> network_offset packet < 14
         \<or> \<not> jg_range_valid 0 (network_offset packet) (frame_size packet)
         \<or> ((ip_version packet = JG_IP_V4 \<and> address_size packet \<noteq> 4)
            \<or> (ip_version packet = JG_IP_V6 \<and> address_size packet \<noteq> JG_PACKET_ADDRESS_SIZE)
            \<or> (ip_version packet \<noteq> JG_IP_V4 \<and> ip_version packet \<noteq> JG_IP_V6))
      then Fail EINVAL
      else let network_size = (if ip_version packet = JG_IP_V4 then IPV4_HEADER_SIZE else IPV6_HEADER_SIZE);
               n = network_offset packet in
      if (ip_version packet = JG_IP_V4 \<and> length payload > UINT16_MAX - IPV4_HEADER_SIZE)
         \<or> (ip_version packet = JG_IP_V6 \<and> length payload > UINT16_MAX)
      then Fail EMSGSIZE
      else case Option.bind (jg_size_add n network_size) (\<lambda>s. jg_size_add s (length payload)) of
        None \<Rightarrow> Fail ENOSPC
      | Some complete_size \<Rightarrow>
          if complete_size > length output then Fail ENOSPC
          else
          and_then (copy_at output 0 (frame packet) n) (\<lambda>output.
          and_then (clear_at output n network_size) (\<lambda>output.
          and_then (if ip_version packet = JG_IP_V4 then
              and_then (poke output n 0x45) (\<lambda>output.
              and_then (window output n network_size (\<lambda>p. jg_write_u16_be p 2 (of_nat (IPV4_HEADER_SIZE + length payload)))) (\<lambda>output.
              and_then (window output n network_size (\<lambda>p. jg_write_u16_be p 4 (ucast (fragment_id packet)))) (\<lambda>output.
              and_then (poke output (n + 8) 64) (\<lambda>output.
              and_then (poke output (n + 9) (ip_protocol packet)) (\<lambda>output.
              and_then (copy_at output (n + 12) (source_address packet) 4) (\<lambda>output.
              and_then (copy_at output (n + 16) (destination_address packet) 4) (\<lambda>output.
              and_then (raw (bytes_at output n network_size)) (\<lambda>header.
                window output n network_size (\<lambda>p. jg_write_u16_be p 10 (checksum_finish (checksum_add header 0)))))))))))
            else
              and_then (poke output n 0x60) (\<lambda>output.
              and_then (window output n network_size (\<lambda>p. jg_write_u16_be p 4 (of_nat (length payload)))) (\<lambda>output.
              and_then (poke output (n + 6) (ip_protocol packet)) (\<lambda>output.
              and_then (poke output (n + 7) 64) (\<lambda>output.
              and_then (copy_at output (n + 8) (source_address packet) 16) (\<lambda>output.
                copy_at output (n + 24) (destination_address packet) 16)))))) (\<lambda>output.
          and_then (raw (store_at output (n + network_size) payload)) (\<lambda>output.
            Done (output, complete_size))))))"

end
