(* ===== verification/Slots.thy ===== *)
theory Slots
  imports Prelude
begin

text \<open>
  Tables of preallocated slots: the first slot with a property, and arenas in which every slot has a
  block of the same size. The fragment tracker and the TCP stream tracker are verified over these facts.
\<close>

section \<open>The first slot\<close>

definition first_index :: "('a \<Rightarrow> bool) \<Rightarrow> 'a list \<Rightarrow> nat option" where
  "first_index P xs = List.find (\<lambda>i. P (xs ! i)) [0..<length xs]"

lemma first_index_Some: "first_index P xs = Some i \<Longrightarrow> i < length xs \<and> P (xs ! i)"
  by (auto simp: first_index_def find_Some_iff)

lemma first_index_Some_iff: "first_index P xs = Some i \<longleftrightarrow> i < length xs \<and> P (xs ! i) \<and> (\<forall>j < i. \<not> P (xs ! j))"
  by (auto simp: first_index_def find_Some_iff)

lemma first_index_None_iff: "first_index P xs = None \<longleftrightarrow> (\<forall>x \<in> set xs. \<not> P x)"
  by (auto simp: first_index_def find_None_iff all_set_conv_all_nth)

section \<open>Blocks\<close>

lemma block_fits: "i < n \<Longrightarrow> i * m + m \<le> n * (m :: nat)"
  by (metis Suc_leI add.commute mult_Suc mult_le_mono1)

lemma blit_single: "i < length xs \<Longrightarrow> blit xs i [x] = xs[i := x]"
  by (simp add: blit_def upd_conv_take_nth_drop)

lemma blit_Cons: "off < length w \<Longrightarrow> blit w off (y # ys) = blit (w[off := y]) (off + 1) ys"
  by (simp add: blit_def upd_conv_take_nth_drop min_def add.commute)

lemma concat_blocks:
  assumes "\<forall>xs \<in> set xss. length xs = m"
  shows "length (concat xss) = length xss * m" "i < length xss \<Longrightarrow> take (i * m) (concat xss) = concat (take i xss)"
    and "i < length xss \<Longrightarrow> drop (i * m) (concat xss) = concat (drop i xss)"
proof -
  have len: "length (concat yss) = length yss * m" if "set yss \<subseteq> set xss" for yss
    using that assms by (induction yss) auto
  show "length (concat xss) = length xss * m" by (rule len) simp
  assume "i < length xss"
  have "length (concat (take i xss)) = i * m" using len[of "take i xss"] \<open>i < length xss\<close> by (auto dest: in_set_takeD)
  then show "take (i * m) (concat xss) = concat (take i xss)" "drop (i * m) (concat xss) = concat (drop i xss)"
    by (metis append_eq_conv_conj append_take_drop_id concat_append)+
qed

lemma block_access:
  assumes "\<forall>xs \<in> set xss. length xs = m" "i < length xss"
  shows "bytes_at (concat xss) (i * m) m = Some (xss ! i)"
    and "length ys = m \<Longrightarrow> store_at (concat xss) (i * m) ys = Some (concat (xss[i := ys]))"
proof -
  note blocks = concat_blocks[OF assms(1)] and rest = Cons_nth_drop_Suc[OF assms(2)]
  have m: "length (xss ! i) = m" using assms by simp
  have fits: "i * m + m \<le> length (concat xss)" using block_fits[OF assms(2), of m] by (simp add: blocks(1))
  have front: "drop (i * m) (concat xss) = xss ! i @ concat (drop (Suc i) xss)"
    using blocks(3)[OF assms(2)] rest by (metis concat.simps(2))
  then show "bytes_at (concat xss) (i * m) m = Some (xss ! i)" using fits m by (simp add: slice_def)
  assume ys: "length ys = m"
  have "drop (i * m + m) (concat xss) = concat (drop (Suc i) xss)"
    using front m by (metis add.commute append_eq_conv_conj drop_drop)
  then show "store_at (concat xss) (i * m) ys = Some (concat (xss[i := ys]))"
    using fits ys by (simp add: blit_def blocks(2)[OF assms(2)] upd_conv_take_nth_drop[OF assms(2)])
qed

end
