(* ===== verification/FragmentSpec.thy ===== *)
theory FragmentSpec
  imports Fragment Slots
begin

text \<open>
  What the fragment tracker promises, and that \<open>jg_fragment_tracker_add\<close> implements it. The specification
  knows no arenas: a slot is free, holds a rejected datagram until its deadline, or collects pieces
  \<open>(offset, data, more)\<close> in ascending order. \<open>slots\<close> abstracts a tracker to its slots, and \<open>tracker_ok\<close> is
  the invariant under which every operation on the tracker refines the operation on the slots.
\<close>

section \<open>Specification\<close>

type_synonym piece = "nat \<times> bytes \<times> bool"

datatype slot = Free | Rejected fragment_key u64 | Collecting fragment_key u64 "piece list"

fun piece_end :: "piece \<Rightarrow> nat" where
  "piece_end (off, data, _) = off + length data"

text \<open>The end of the datagram, once a piece without more fragments is there.\<close>

definition last_end :: "piece list \<Rightarrow> nat option" where
  "last_end ps = (case filter (\<lambda>(_, _, m). \<not> m) ps of [] \<Rightarrow> None | p # _ \<Rightarrow> Some (piece_end p))"

fun contiguous :: "nat \<Rightarrow> piece list \<Rightarrow> bool" where
  "contiguous c [] = True"
| "contiguous c ((off, data, m) # ps) = (off = c \<and> contiguous (c + length data) ps)"

definition content :: "piece list \<Rightarrow> bytes" where
  "content ps = concat (map (\<lambda>(_, data, _). data) ps)"

definition reassembled :: "piece list \<Rightarrow> bytes option" where
  "reassembled ps = (if contiguous 0 ps \<and> last_end ps = Some (length (content ps)) then Some (content ps) else None)"

fun conflicts :: "piece list \<Rightarrow> piece \<Rightarrow> bool" where
  "conflicts ps (off, data, m) = (case last_end ps of None \<Rightarrow> False
     | Some n \<Rightarrow> off + length data > n \<or> \<not> m \<and> off + length data \<noteq> n)"

definition overlap :: "piece \<Rightarrow> piece \<Rightarrow> bool" where
  "overlap p q \<longleftrightarrow> fst p < piece_end q \<and> fst q < piece_end p"

fun slot_key :: "slot \<Rightarrow> fragment_key option" where
  "slot_key Free = None"
| "slot_key (Rejected k e) = Some k"
| "slot_key (Collecting k e ps) = Some k"

fun slot_expired :: "u64 \<Rightarrow> slot \<Rightarrow> bool" where
  "slot_expired now Free = False"
| "slot_expired now (Rejected k e) = (e \<le> now)"
| "slot_expired now (Collecting k e ps) = (e \<le> now)"

fun is_collecting :: "slot \<Rightarrow> bool" where
  "is_collecting (Collecting k e ps) = True"
| "is_collecting _ = False"

definition packet_piece :: "jg_packet_view \<Rightarrow> piece" where
  "packet_piece p = (fragment_offset p, slice (transport_offset p) (transport_size p) (frame p), more_fragments p)"

definition packet_key :: "jg_packet_view \<Rightarrow> fragment_key" where
  "packet_key p = \<lparr>key_source = take (address_size p) (source_address p) @ replicate (16 - address_size p) 0,
     key_destination = take (address_size p) (destination_address p) @ replicate (16 - address_size p) 0,
     key_vlan_tci = map (\<lambda>tci. tci AND 0x0FFF) (vlan_tci p) @ replicate (8 - vlan_count p) 0,
     key_fragment_id = fragment_id p, key_address_size = address_size p, key_vlan_count = vlan_count p,
     key_ip_version = ip_version p, key_protocol = ip_protocol p\<rparr>"

text \<open>A piece for the datagram that slot \<open>i\<close> collects.\<close>

definition spec_piece ::
  "nat \<Rightarrow> u64 \<Rightarrow> nat \<Rightarrow> slot list \<Rightarrow> nat \<Rightarrow> fragment_key \<Rightarrow> piece list \<Rightarrow> piece \<Rightarrow> slot list \<times> (errno + jg_fragment_result \<times> bytes)" where
  "spec_piece max_pieces deadline output_size ss i k ps p =
     (if conflicts ps p then (ss[i := Rejected k deadline], Inr (JG_FRAGMENT_OVERLAP, []))
      else if p \<in> set ps then (ss, Inr (JG_FRAGMENT_DUPLICATE, []))
      else if \<exists>q \<in> set ps. overlap p q then (ss[i := Rejected k deadline], Inr (JG_FRAGMENT_OVERLAP, []))
      else if length ps \<ge> max_pieces then (ss[i := Rejected k deadline], Inr (JG_FRAGMENT_EXHAUSTED, []))
      else let ps' = insort_key fst p ps in
        case reassembled ps' of
          None \<Rightarrow> (ss[i := Collecting k deadline ps'], Inr (JG_FRAGMENT_STORED, []))
        | Some payload \<Rightarrow>
            if output_size < length payload then (ss[i := Rejected k deadline], Inl ENOSPC)
            else (ss[i := Free], Inr (JG_FRAGMENT_COMPLETE, payload)))"

definition spec_add ::
  "jg_fragment_limits \<Rightarrow> (u64 \<Rightarrow> u64) \<Rightarrow> slot list \<Rightarrow> jg_packet_view \<Rightarrow> u64 \<Rightarrow> nat \<Rightarrow> slot list \<times> (errno + jg_fragment_result \<times> bytes)" where
  "spec_add l deadline ss0 packet now output_size =
     (let ss = map (\<lambda>s. if slot_expired now s then Free else s) ss0;
          k = packet_key packet; p = packet_piece packet; n = length (fst (snd p));
          entry = first_index (\<lambda>s. slot_key s = Some k) ss;
          refuse = (\<lambda>r. (case entry of None \<Rightarrow> ss | Some i \<Rightarrow> ss[i := Rejected k (deadline now)], Inr (r, [])))
      in if (case entry of Some i \<Rightarrow> \<not> is_collecting (ss ! i) | None \<Rightarrow> False)
         then (ss, Inr (JG_FRAGMENT_OVERLAP, []))
         else if n = 0 \<or> (more_fragments packet \<and> n mod 8 \<noteq> 0) \<or> fragment_offset packet + n > SIZE_MAX
         then refuse JG_FRAGMENT_MALFORMED
         else if piece_end p > max_bytes_per_datagram l then refuse JG_FRAGMENT_EXHAUSTED
         else case entry of
           Some i \<Rightarrow> (case ss ! i of Collecting _ _ ps \<Rightarrow>
               spec_piece (max_fragments_per_datagram l) (deadline now) output_size ss i k ps p
             | _ \<Rightarrow> (ss, Inr (JG_FRAGMENT_OVERLAP, [])))
         | None \<Rightarrow> (case first_index (\<lambda>s. s = Free) ss of
               None \<Rightarrow> (ss, Inr (JG_FRAGMENT_EXHAUSTED, []))
             | Some i \<Rightarrow>
                 if length (filter (\<lambda>s. case slot_key s of None \<Rightarrow> False | Some k' \<Rightarrow> sources_equal k' k) ss)
                    \<ge> max_datagrams_per_source l
                 then (ss, Inr (JG_FRAGMENT_EXHAUSTED, []))
                 else spec_piece (max_fragments_per_datagram l) (deadline now) output_size ss i k [] p))"

section \<open>The tracker as slots\<close>

type_synonym region = "fragment_entry \<times> fragment_interval list \<times> bytes"

definition region :: "jg_fragment_tracker \<Rightarrow> nat \<Rightarrow> region" where
  "region t i = (entries t ! i,
     slice (interval_base t i) (max_fragments_per_datagram (tracker_limits t)) (intervals t),
     slice (payload_base t i) (max_bytes_per_datagram (tracker_limits t)) (payloads t))"

definition piece_of :: "bytes \<Rightarrow> fragment_interval \<Rightarrow> piece" where
  "piece_of payload v = (interval_offset v, slice (interval_offset v) (interval_size v) payload, interval_more v)"

fun slot_view :: "region \<Rightarrow> slot" where
  "slot_view (e, vs, payload) =
     (if \<not> active e then Free
      else if rejected e then Rejected (entry_key e) (expires_at e)
      else Collecting (entry_key e) (expires_at e) (map (piece_of payload) (take (fragment_count e) vs)))"

definition slots :: "jg_fragment_tracker \<Rightarrow> slot list" where
  "slots t = map (\<lambda>i. slot_view (region t i)) [0..<max_datagrams (tracker_limits t)]"

definition canonical_key :: "fragment_key \<Rightarrow> bool" where
  "canonical_key k \<longleftrightarrow> (\<exists>s d vs. key_source k = s @ replicate (16 - key_address_size k) 0
     \<and> key_destination k = d @ replicate (16 - key_address_size k) 0
     \<and> key_vlan_tci k = vs @ replicate (8 - key_vlan_count k) 0
     \<and> length s = key_address_size k \<and> length d = key_address_size k \<and> length vs = key_vlan_count k)"

fun region_ok :: "jg_fragment_limits \<Rightarrow> region \<Rightarrow> bool" where
  "region_ok l (e, vs, payload) \<longleftrightarrow> (let ws = take (fragment_count e) vs in
     fragment_count e \<le> max_fragments_per_datagram l
     \<and> (if active e then canonical_key (entry_key e) else e = cleared_entry)
     \<and> (\<forall>w \<in> set ws. 0 < interval_size w \<and> interval_offset w + interval_size w \<le> max_bytes_per_datagram l)
     \<and> sorted_wrt (\<lambda>v w. interval_offset v + interval_size v \<le> interval_offset w) ws
     \<and> has_last e = (\<exists>w \<in> set ws. \<not> interval_more w)
     \<and> (\<forall>w \<in> set ws. \<not> interval_more w \<longrightarrow> expected_size e = interval_offset w + interval_size w))"

definition tracker_typed :: "jg_fragment_tracker \<Rightarrow> bool" where
  "tracker_typed t \<longleftrightarrow> jg_fragment_limits_validate (tracker_limits t) = Inr ()
     \<and> length (entries t) = max_datagrams (tracker_limits t)
     \<and> length (intervals t) = max_datagrams (tracker_limits t) * max_fragments_per_datagram (tracker_limits t)
     \<and> length (payloads t) = max_datagrams (tracker_limits t) * max_bytes_per_datagram (tracker_limits t)"

definition tracker_ok :: "jg_fragment_tracker \<Rightarrow> bool" where
  "tracker_ok t \<longleftrightarrow> tracker_typed t \<and> (\<forall>i < max_datagrams (tracker_limits t). region_ok (tracker_limits t) (region t i))"

subsection \<open>One region changes\<close>

definition changes :: "jg_fragment_tracker \<Rightarrow> nat \<Rightarrow> region \<Rightarrow> jg_fragment_tracker \<Rightarrow> bool" where
  "changes t i r t' \<longleftrightarrow> tracker_typed t' \<and> tracker_limits t' = tracker_limits t \<and> stats t' = stats t \<and> region t' i = r
     \<and> (\<forall>j < max_datagrams (tracker_limits t). j \<noteq> i \<longrightarrow> region t' j = region t j)"

lemma slots_nth: "i < max_datagrams (tracker_limits t) \<Longrightarrow> slots t ! i = slot_view (region t i)"
  by (simp add: slots_def)

lemma length_slots [simp]: "length (slots t) = max_datagrams (tracker_limits t)"
  by (simp add: slots_def)

lemma changes_slots:
  assumes "changes t i r t'" "i < max_datagrams (tracker_limits t)"
  shows "slots t' = (slots t)[i := slot_view r]"
  using assms by (intro nth_equalityI) (auto simp: changes_def slots_nth nth_list_update)

lemma changes_ok:
  assumes "changes t i r t'" "tracker_ok t" "region_ok (tracker_limits t) r"
  shows "tracker_ok t'"
proof -
  have "region_ok (tracker_limits t) (region t' j)" if "j < max_datagrams (tracker_limits t)" for j
    using assms that by (cases "j = i") (auto simp: changes_def tracker_ok_def)
  with assms(1) show ?thesis by (simp add: changes_def tracker_ok_def)
qed

lemma slice_blit_block:
  assumes "i < n" "length xs = n * m" "off + length src \<le> m"
  shows "slice (i * m) m (blit xs (i * m + off) src) = blit (slice (i * m) m xs) off src"
    and "j < n \<Longrightarrow> j \<noteq> i \<Longrightarrow> slice (j * m) m (blit xs (i * m + off) src) = slice (j * m) m xs"
    and "i * m + off + length src \<le> length xs"
proof -
  show fits: "i * m + off + length src \<le> length xs" using assms block_fits[OF assms(1), of m] by linarith
  show "slice (i * m) m (blit xs (i * m + off) src) = blit (slice (i * m) m xs) off src"
    using assms fits block_fits[OF assms(1), of m] by (intro nth_equalityI) (auto simp: nth_blit)
  assume j: "j < n" "j \<noteq> i"
  then have "j * m + m \<le> i * m \<or> i * m + m \<le> j * m"
    by (metis Suc_leI add.commute linorder_neqE_nat mult_Suc mult_le_mono1)
  then show "slice (j * m) m (blit xs (i * m + off) src) = slice (j * m) m xs"
    using assms fits block_fits[OF j(1), of m] by (intro slice_blit_other) auto
qed

lemma changes_trans: "changes t i r t1 \<Longrightarrow> changes t1 i r' t2 \<Longrightarrow> changes t i r' t2"
  by (auto simp: changes_def)

lemma changes_same:
  "tracker_typed t \<Longrightarrow> changes t i (region t i) t"
  by (simp add: changes_def)

lemma update_entry:
  assumes "tracker_typed t" "i < max_datagrams (tracker_limits t)"
  shows "byte_at (entries t) i = Some (fst (region t i))"
    and "changes t i (e, snd (region t i)) (t\<lparr>entries := (entries t)[i := e]\<rparr>)"
  using assms by (auto simp: changes_def region_def tracker_typed_def)

lemma clear_entry_changes:
  assumes "tracker_typed t" "i < max_datagrams (tracker_limits t)"
  shows "\<exists>t'. clear_entry t i = Done t' \<and> changes t i (cleared_entry,
    replicate (max_fragments_per_datagram (tracker_limits t)) cleared_interval, snd (snd (region t i))) t'"
proof -
  let ?m = "max_fragments_per_datagram (tracker_limits t)" and ?z = "replicate (max_fragments_per_datagram (tracker_limits t)) cleared_interval"
  have len: "length (intervals t) = max_datagrams (tracker_limits t) * ?m" "i < length (entries t)"
    using assms by (simp_all add: tracker_typed_def)
  note block = slice_blit_block[OF assms(2) len(1), of 0 ?z, simplified]
  have "blit (entries t) i [cleared_entry] = (entries t)[i := cleared_entry]"
    using len(2) by (simp add: blit_def upd_conv_take_nth_drop)
  then have "clear_entry t i = Done (t\<lparr>intervals := blit (intervals t) (interval_base t i) ?z, entries := (entries t)[i := cleared_entry]\<rparr>)"
    using len block by (simp add: clear_entry_def)
  then show ?thesis
    using assms block by (auto simp: changes_def region_def tracker_typed_def)
qed

lemma initialize_entry_changes:
  assumes "tracker_typed t" "i < max_datagrams (tracker_limits t)" "region t i = (e, vs, payload)"
  shows "\<exists>t'. initialize_entry t i k now = Done t'
    \<and> changes t i (e\<lparr>entry_key := k, expires_at := expiration_deadline t now, active := True\<rparr>, vs, payload) t'"
  using update_entry[OF assms(1,2)] assms(3) by (simp add: initialize_entry_def)

definition rejected_entry :: "fragment_key \<Rightarrow> u64 \<Rightarrow> fragment_entry" where
  "rejected_entry k deadline = cleared_entry\<lparr>entry_key := k, expires_at := deadline, active := True, rejected := True\<rparr>"

lemma deadline_limits: "tracker_limits t' = tracker_limits t \<Longrightarrow> expiration_deadline t' now = expiration_deadline t now"
  by (simp add: expiration_deadline_def)

lemma reject_entry_changes:
  assumes "tracker_typed t" "i < max_datagrams (tracker_limits t)" "region t i = (e, vs, payload)"
  shows "\<exists>t' vs'. reject_entry t i now = Done t'
    \<and> changes t i (rejected_entry (entry_key e) (expiration_deadline t now), vs', payload) t'"
proof -
  obtain t1 where t1: "clear_entry t i = Done t1" and c1: "changes t i (cleared_entry,
      replicate (max_fragments_per_datagram (tracker_limits t)) cleared_interval, payload) t1"
    using clear_entry_changes[OF assms(1,2)] assms(3) by auto
  then have typed1: "tracker_typed t1" "i < max_datagrams (tracker_limits t1)"
    and r1: "region t1 i = (cleared_entry, replicate (max_fragments_per_datagram (tracker_limits t)) cleared_interval, payload)"
    using assms(2) by (simp_all add: changes_def)
  obtain t2 where t2: "initialize_entry t1 i (entry_key e) now = Done t2" and c2: "changes t1 i (cleared_entry\<lparr>entry_key := entry_key e,
      expires_at := expiration_deadline t1 now, active := True\<rparr>,
      replicate (max_fragments_per_datagram (tracker_limits t)) cleared_interval, payload) t2"
    using initialize_entry_changes[OF typed1 r1] by blast
  then have typed2: "tracker_typed t2" "i < max_datagrams (tracker_limits t2)"
    and r2: "region t2 i = (cleared_entry\<lparr>entry_key := entry_key e, expires_at := expiration_deadline t1 now, active := True\<rparr>,
      replicate (max_fragments_per_datagram (tracker_limits t)) cleared_interval, payload)"
    using typed1(2) by (simp_all add: changes_def)
  have "expiration_deadline t1 now = expiration_deadline t now" using c1 by (intro deadline_limits) (simp add: changes_def)
  then show ?thesis
    using update_entry[OF typed2] update_entry(1)[OF assms(1,2)] assms(3) r2 t1 t2
      changes_trans[OF c1 changes_trans[OF c2 update_entry(2)[OF typed2]]]
    by (auto simp: reject_entry_def rejected_entry_def)
qed

lemma rejected_region:
  "slot_view (rejected_entry k d, vs, payload) = Rejected k d"
  "canonical_key k \<Longrightarrow> region_ok l (rejected_entry k d, vs, payload)"
  by (simp_all add: rejected_entry_def cleared_entry_def)

lemma cleared_region:
  "slot_view (cleared_entry, vs, payload) = Free"
  "region_ok l (cleared_entry, vs, payload)"
  by (simp_all add: cleared_entry_def)

subsection \<open>Scanning the entries\<close>

abbreviation datagrams :: "jg_fragment_tracker \<Rightarrow> nat" where
  "datagrams t \<equiv> max_datagrams (tracker_limits t)"

lemma tracker_ok_typed: "tracker_ok t \<Longrightarrow> tracker_typed t"
  by (simp add: tracker_ok_def)

lemma region_cases:
  obtains e vs payload where "region t i = (e, vs, payload)"
  by (cases "region t i") auto

lemma slot_expired_view: "slot_expired now (slot_view (e, vs, payload)) \<longleftrightarrow> active e \<and> expires_at e \<le> now"
  by simp

definition lapsed :: "u64 \<Rightarrow> slot \<Rightarrow> bool" where
  "lapsed now s \<longleftrightarrow> is_collecting s \<and> slot_expired now s"

lemma expire_loop_slots:
  assumes "tracker_ok t" "set is \<subseteq> {..<datagrams t}" "distinct is"
  shows "\<exists>t'. expire_loop now is t = Done t' \<and> tracker_ok t' \<and> tracker_limits t' = tracker_limits t
    \<and> (\<forall>j < datagrams t. slots t' ! j = (if j \<in> set is \<and> slot_expired now (slots t ! j) then Free else slots t ! j))
    \<and> stats t' = (stats t)\<lparr>timeouts := timeouts (stats t) + of_nat (length (filter (\<lambda>j. lapsed now (slots t ! j)) is))\<rparr>"
  using assms
proof (induction "is" arbitrary: t)
  case Nil
  then show ?case by simp
next
  case (Cons i "is")
  have i: "i < datagrams t" and typed: "tracker_typed t" using Cons.prems by (auto simp: tracker_ok_typed)
  obtain e vs payload where r: "region t i = (e, vs, payload)" by (rule region_cases)
  have e: "byte_at (entries t) i = Some e" using update_entry(1)[OF typed i] r by simp
  have si: "slots t ! i = slot_view (e, vs, payload)" using i r by (simp add: slots_nth)
  show ?case
  proof (cases "active e \<and> expires_at e \<le> now")
    case True
    obtain t1 where t1: "clear_entry t i = Done t1" and c: "changes t i (cleared_entry,
        replicate (max_fragments_per_datagram (tracker_limits t)) cleared_interval, payload) t1"
      using clear_entry_changes[OF typed i] r by auto
    define t2 where "t2 = (if \<not> rejected e then t1\<lparr>stats := (stats t1)\<lparr>timeouts := timeouts (stats t1) + 1\<rparr>\<rparr> else t1)"
    have s1: "slots t1 = (slots t)[i := Free]" using changes_slots[OF c i] by (simp only: cleared_region)
    have same: "slots t2 = slots t1" "tracker_limits t2 = tracker_limits t" "tracker_ok t2"
      using c changes_ok[OF c Cons.prems(1) cleared_region(2)]
      by (auto simp: t2_def slots_def region_def changes_def tracker_ok_def tracker_typed_def)
    have st: "stats t2 = (stats t)\<lparr>timeouts := timeouts (stats t) + of_bool (lapsed now (slots t ! i))\<rparr>"
      using c True by (auto simp: t2_def changes_def si lapsed_def)
    have other: "filter (\<lambda>j. lapsed now (slots t2 ! j)) is = filter (\<lambda>j. lapsed now (slots t ! j)) is"
    proof (intro filter_cong refl)
      fix j assume "j \<in> set is"
      with Cons.prems(3) have "i \<noteq> j" by auto
      then show "lapsed now (slots t2 ! j) = lapsed now (slots t ! j)" by (simp add: same s1)
    qed
    obtain t' where t': "expire_loop now is t2 = Done t'" "tracker_ok t'" "tracker_limits t' = tracker_limits t2"
      "\<forall>j < datagrams t2. slots t' ! j = (if j \<in> set is \<and> slot_expired now (slots t2 ! j) then Free else slots t2 ! j)"
      "stats t' = (stats t2)\<lparr>timeouts := timeouts (stats t2) + of_nat (length (filter (\<lambda>j. lapsed now (slots t2 ! j)) is))\<rparr>"
      using Cons.IH[OF same(3)] Cons.prems same(2) by auto
    have expired: "slot_expired now (slots t ! i)" using True si slot_expired_view by metis
    have "expire_loop now (i # is) t = Done t'" using e True t1 t'(1) by (simp add: t2_def)
    moreover have "\<forall>j < datagrams t. slots t' ! j = (if j \<in> set (i # is) \<and> slot_expired now (slots t ! j) then Free else slots t ! j)"
      using t'(4) same s1 i expired Cons.prems(3) by (auto simp: nth_list_update)
    moreover have "stats t' = (stats t)\<lparr>timeouts := timeouts (stats t) + of_nat (length (filter (\<lambda>j. lapsed now (slots t ! j)) (i # is)))\<rparr>"
      using t'(5) st other by (simp add: ac_simps)
    ultimately show ?thesis using t'(2,3) same(2) by auto
  next
    case False
    then have "\<not> slot_expired now (slots t ! i)" using si slot_expired_view by metis
    moreover have "expire_loop now (i # is) t = expire_loop now is t" using e False by auto
    ultimately show ?thesis
      using Cons.IH[OF Cons.prems(1)] Cons.prems(2,3) by (auto simp: lapsed_def)
  qed
qed

lemma expire_entries_slots:
  assumes "tracker_ok t"
  shows "\<exists>t'. expire_entries t now = Done t' \<and> tracker_ok t' \<and> tracker_limits t' = tracker_limits t
    \<and> slots t' = map (\<lambda>s. if slot_expired now s then Free else s) (slots t)
    \<and> stats t' = (stats t)\<lparr>timeouts := timeouts (stats t) + of_nat (length (filter (lapsed now) (slots t)))\<rparr>"
proof -
  have "filter (lapsed now) (slots t) = map (\<lambda>j. slots t ! j) (filter (\<lambda>j. lapsed now (slots t ! j)) [0..<datagrams t])"
    by (subst map_nth[of "slots t", symmetric]) (simp only: filter_map o_def length_slots)
  then have n: "length (filter (\<lambda>j. lapsed now (slots t ! j)) [0..<datagrams t]) = length (filter (lapsed now) (slots t))"
    by simp
  obtain t' where t': "expire_loop now [0..<datagrams t] t = Done t'" "tracker_ok t'" "tracker_limits t' = tracker_limits t"
    "\<forall>j < datagrams t. slots t' ! j = (if slot_expired now (slots t ! j) then Free else slots t ! j)"
    "stats t' = (stats t)\<lparr>timeouts := timeouts (stats t) + of_nat (length (filter (lapsed now) (slots t)))\<rparr>"
    using expire_loop_slots[OF assms, of "[0..<datagrams t]" now] n by (auto simp: subset_iff)
  then have "slots t' = map (\<lambda>s. if slot_expired now s then Free else s) (slots t)"
    by (intro nth_equalityI) simp_all
  with t' show ?thesis unfolding expire_entries_def by blast
qed

lemma keys_equal_iff: "canonical_key k1 \<Longrightarrow> canonical_key k2 \<Longrightarrow> keys_equal k1 k2 \<longleftrightarrow> k1 = k2"
proof
  assume c: "canonical_key k1" "canonical_key k2" and eq: "keys_equal k1 k2"
  then have "key_source k1 = key_source k2" "key_destination k1 = key_destination k2" "key_vlan_tci k1 = key_vlan_tci k2"
    unfolding canonical_key_def keys_equal_def by force+
  with eq show "k1 = k2" by (simp add: keys_equal_def)
qed (simp add: keys_equal_def)

lemma slot_key_view: "slot_key (slot_view (e, vs, payload)) = (if active e then Some (entry_key e) else None)"
  by simp

lemma free_view: "slot_view (e, vs, payload) = Free \<longleftrightarrow> \<not> active e"
  by simp

lemma find_loop_slots:
  assumes "tracker_ok t" "canonical_key k" "set is \<subseteq> {..<datagrams t}"
  shows "\<exists>free. find_loop t k is f = Done (List.find (\<lambda>i. slot_key (slots t ! i) = Some k) is, free)
    \<and> (List.find (\<lambda>i. slot_key (slots t ! i) = Some k) is = None \<longrightarrow>
        free = (if f = None then List.find (\<lambda>i. slots t ! i = Free) is else f))"
  using assms(3)
proof (induction "is" arbitrary: f)
  case (Cons i "is")
  have i: "i < datagrams t" and "is": "set is \<subseteq> {..<datagrams t}" and typed: "tracker_typed t"
    using Cons.prems assms(1) by (auto simp: tracker_ok_typed)
  obtain e vs payload where r: "region t i = (e, vs, payload)" by (rule region_cases)
  have e: "byte_at (entries t) i = Some e" using update_entry(1)[OF typed i] r by simp
  have key: "active e \<Longrightarrow> canonical_key (entry_key e)"
    using assms(1) i r unfolding tracker_ok_def by (auto simp: Let_def split: if_splits)
  have k: "slot_key (slots t ! i) = Some k \<longleftrightarrow> active e \<and> keys_equal (entry_key e) k"
    using key keys_equal_iff[OF _ assms(2)] i r slot_key_view[of e vs payload] by (auto simp: slots_nth simp del: slot_view.simps)
  have free: "slots t ! i = Free \<longleftrightarrow> \<not> active e" using i r free_view by (simp add: slots_nth del: slot_view.simps)
  show ?case
    using Cons.IH[OF "is", of "if f = None then Some i else f"] Cons.IH[OF "is", of f] e k free
    by (auto simp del: byte_at_Some_iff)
qed simp

lemma find_entry_slots:
  assumes "tracker_ok t" "canonical_key k"
  shows "\<exists>free. find_entry t k = Done (first_index (\<lambda>s. slot_key s = Some k) (slots t), free)
    \<and> (first_index (\<lambda>s. slot_key s = Some k) (slots t) = None \<longrightarrow> free = first_index (\<lambda>s. s = Free) (slots t))"
  using find_loop_slots[OF assms, of "[0..<datagrams t]" None]
  by (auto simp: find_entry_def first_index_def subset_iff)

lemma count_loop_slots:
  assumes "tracker_typed t" "set is \<subseteq> {..<datagrams t}"
  shows "count_loop t k is n = Done (n + length (filter (\<lambda>i. case slot_key (slots t ! i) of None \<Rightarrow> False | Some k' \<Rightarrow> sources_equal k' k) is))"
  using assms(2)
proof (induction "is" arbitrary: n)
  case (Cons i "is")
  have i: "i < datagrams t" using Cons.prems by auto
  obtain e vs payload where r: "region t i = (e, vs, payload)" by (rule region_cases)
  have e: "byte_at (entries t) i = Some e" using update_entry(1)[OF assms(1) i] r by simp
  have "slot_key (slots t ! i) = (if active e then Some (entry_key e) else None)"
    using i r slot_key_view by (simp add: slots_nth del: slot_view.simps)
  then show ?case using Cons e by (auto simp del: byte_at_Some_iff)
qed simp

lemma source_entry_count_slots:
  assumes "tracker_typed t"
  shows "source_entry_count t k = Done (length (filter (\<lambda>s. case slot_key s of None \<Rightarrow> False | Some k' \<Rightarrow> sources_equal k' k) (slots t)))"
proof -
  let ?P = "\<lambda>s. case slot_key s of None \<Rightarrow> False | Some k' \<Rightarrow> sources_equal k' k"
  have "filter ?P (slots t) = map (\<lambda>j. slots t ! j) (filter (\<lambda>j. ?P (slots t ! j)) [0..<datagrams t])"
    by (subst map_nth[of "slots t", symmetric]) (simp only: filter_map o_def length_slots)
  then show ?thesis
    using count_loop_slots[OF assms, of "[0..<datagrams t]" k 0] by (auto simp: source_entry_count_def subset_iff)
qed

subsection \<open>Pieces of one datagram\<close>

definition pieces_ok :: "piece list \<Rightarrow> bool" where
  "pieces_ok ps \<longleftrightarrow> sorted_wrt (\<lambda>p q. piece_end p \<le> fst q) ps \<and> (\<forall>p \<in> set ps. fst (snd p) \<noteq> [])"

fun inspect_pieces :: "piece \<Rightarrow> piece list \<Rightarrow> jg_fragment_result" where
  "inspect_pieces p [] = JG_FRAGMENT_STORED"
| "inspect_pieces p (q # qs) =
     (if p = q then JG_FRAGMENT_DUPLICATE else if overlap p q then JG_FRAGMENT_OVERLAP else inspect_pieces p qs)"

lemma inspect_pieces_none: "\<forall>q \<in> set ps. \<not> overlap p q \<Longrightarrow> p \<notin> set ps \<Longrightarrow> inspect_pieces p ps = JG_FRAGMENT_STORED"
  by (induction ps) auto

lemma inspect_pieces_member: "pieces_ok ps \<Longrightarrow> p \<in> set ps \<Longrightarrow> inspect_pieces p ps = JG_FRAGMENT_DUPLICATE"
proof (induction ps)
  case (Cons q qs)
  show ?case
  proof (cases "p = q")
    case False
    then have "p \<in> set qs" using Cons.prems by simp
    then have "piece_end q \<le> fst p" using Cons.prems(1) by (auto simp: pieces_ok_def)
    then have "\<not> overlap p q" by (simp add: overlap_def)
    then show ?thesis using Cons False \<open>p \<in> set qs\<close> by (auto simp: pieces_ok_def)
  qed simp
qed simp

lemma inspect_pieces_overlap: "p \<notin> set ps \<Longrightarrow> q \<in> set ps \<Longrightarrow> overlap p q \<Longrightarrow> inspect_pieces p ps = JG_FRAGMENT_OVERLAP"
  by (induction ps) auto

lemma inspect_pieces_eq:
  "pieces_ok ps \<Longrightarrow> inspect_pieces p ps = (if p \<in> set ps then JG_FRAGMENT_DUPLICATE
     else if \<exists>q \<in> set ps. overlap p q then JG_FRAGMENT_OVERLAP else JG_FRAGMENT_STORED)"
  using inspect_pieces_none inspect_pieces_member inspect_pieces_overlap by (metis (full_types))

lemma length_slice_in: "off + n \<le> length xs \<Longrightarrow> length (slice off n xs) = n"
  by simp

lemma slice_plus: "slice c (n + m) xs = slice c n xs @ slice (c + n) m xs"
  unfolding slice_def take_add drop_drop by (simp only: add.commute)

lemma contiguous_content:
  "contiguous c (map (piece_of payload) ws) \<Longrightarrow> \<forall>w \<in> set ws. interval_offset w + interval_size w \<le> length payload \<Longrightarrow>
   content (map (piece_of payload) ws) = slice c (length (content (map (piece_of payload) ws))) payload"
proof (induction ws arbitrary: c)
  case Nil
  then show ?case by (simp add: content_def slice_def)
next
  case (Cons w ws)
  let ?n = "interval_size w" and ?rest = "content (map (piece_of payload) ws)"
  have w: "interval_offset w = c" "c + ?n \<le> length payload" using Cons.prems by (simp_all add: piece_of_def)
  then have "piece_of payload w = (c, slice c ?n payload, interval_more w)" "length (slice c ?n payload) = ?n"
    by (simp_all add: piece_of_def)
  then have "contiguous (c + ?n) (map (piece_of payload) ws)" using Cons.prems(1) by (simp del: length_slice)
  then have "?rest = slice (c + ?n) (length ?rest) payload" using Cons by simp
  moreover have "content (map (piece_of payload) (w # ws)) = slice c ?n payload @ ?rest"
    using w by (simp add: content_def piece_of_def)
  moreover have "length (slice c ?n payload @ ?rest) = ?n + length ?rest" using w by simp
  ultimately show ?case using slice_plus[of c ?n "length ?rest" payload] by metis
qed

subsection \<open>Reading a region\<close>

text \<open>The parts of a region in use, as the tracker operations see them.\<close>

lemma region_reads:
  assumes "tracker_ok t" "i < datagrams t" "region t i = (e, vs, payload)"
  shows "length vs = max_fragments_per_datagram (tracker_limits t)" "length payload = max_bytes_per_datagram (tracker_limits t)"
    and "k < max_fragments_per_datagram (tracker_limits t) \<Longrightarrow> byte_at (intervals t) (interval_base t i + k) = Some (vs ! k)"
    and "off + n \<le> max_bytes_per_datagram (tracker_limits t) \<Longrightarrow> bytes_at (payloads t) (payload_base t i + off) n = Some (slice off n payload)"
proof -
  let ?mf = "max_fragments_per_datagram (tracker_limits t)" and ?mb = "max_bytes_per_datagram (tracker_limits t)"
  have len: "length (intervals t) = datagrams t * ?mf" "length (payloads t) = datagrams t * ?mb"
    using assms(1) by (simp_all add: tracker_ok_def tracker_typed_def)
  have v: "vs = slice (interval_base t i) ?mf (intervals t)" and p: "payload = slice (payload_base t i) ?mb (payloads t)"
    using assms(3) by (simp_all add: region_def)
  have fits: "interval_base t i + ?mf \<le> length (intervals t)" "payload_base t i + ?mb \<le> length (payloads t)"
    using block_fits[OF assms(2)] len by simp_all
  show "length vs = ?mf" "length payload = ?mb" using fits by (simp_all add: v p)
  show "k < ?mf \<Longrightarrow> byte_at (intervals t) (interval_base t i + k) = Some (vs ! k)" using fits by (simp add: v)
  show "off + n \<le> ?mb \<Longrightarrow> bytes_at (payloads t) (payload_base t i + off) n = Some (slice off n payload)"
    using fits by (simp add: p slice_def take_drop drop_drop add.commute min_def)
qed

lemma region_pieces_ok:
  assumes "region_ok l (e, vs, payload)" "length payload = max_bytes_per_datagram l" "length vs = max_fragments_per_datagram l"
    and "ws = take (fragment_count e) vs"
  shows "pieces_ok (map (piece_of payload) ws)" "length ws = fragment_count e"
    and "last_end (map (piece_of payload) ws) = (if has_last e then Some (expected_size e) else None)"
proof -
  have ok: "fragment_count e \<le> max_fragments_per_datagram l"
    "\<forall>w \<in> set ws. 0 < interval_size w \<and> interval_offset w + interval_size w \<le> length payload"
    "sorted_wrt (\<lambda>v w. interval_offset v + interval_size v \<le> interval_offset w) ws"
    "has_last e = (\<exists>w \<in> set ws. \<not> interval_more w)"
    "\<forall>w \<in> set ws. \<not> interval_more w \<longrightarrow> expected_size e = interval_offset w + interval_size w"
    using assms by (auto simp: Let_def)
  show "length ws = fragment_count e" using assms(3,4) ok(1) by simp
  have ends: "piece_end (piece_of payload w) = interval_offset w + interval_size w" if "w \<in> set ws" for w
    using that ok(2) by (auto simp: piece_of_def min_def dest!: bspec)
  have "sorted_wrt (\<lambda>v w. piece_end (piece_of payload v) \<le> fst (piece_of payload w)) ws"
    using ok(3) by (rule sorted_wrt_mono_rel[rotated]) (simp add: ends piece_of_def)
  moreover have "\<forall>p \<in> set (map (piece_of payload) ws). fst (snd p) \<noteq> []"
    using ok(2) by (auto simp: piece_of_def slice_def)
  ultimately show "pieces_ok (map (piece_of payload) ws)" by (simp add: pieces_ok_def sorted_wrt_map)
  have flt: "filter (\<lambda>(_, _, m). \<not> m) (map (piece_of payload) ws) = map (piece_of payload) (filter (\<lambda>w. \<not> interval_more w) ws)"
    by (simp add: filter_map o_def piece_of_def)
  show "last_end (map (piece_of payload) ws) = (if has_last e then Some (expected_size e) else None)"
  proof (cases "filter (\<lambda>w. \<not> interval_more w) ws")
    case Nil
    then have "\<not> has_last e" using ok(4) by (auto simp: filter_empty_conv)
    with Nil show ?thesis unfolding last_end_def flt by simp
  next
    case (Cons w zs)
    then have "w \<in> set ws" "\<not> interval_more w" by (auto simp: filter_eq_Cons_iff)
    then have "has_last e" "expected_size e = piece_end (piece_of payload w)" using ok(4,5) ends by auto
    with Cons show ?thesis unfolding last_end_def flt by simp
  qed
qed

subsection \<open>Inspecting and completing\<close>

lemma inspect_loop_pieces:
  assumes ok: "tracker_ok t" "i < datagrams t" "region t i = (e, vs, payload)"
    and bound: "\<forall>k \<in> set ks. k < max_fragments_per_datagram (tracker_limits t)
      \<and> interval_offset (vs ! k) + interval_size (vs ! k) \<le> max_bytes_per_datagram (tracker_limits t)"
  shows "inspect_loop t i off m fr ks = Done (inspect_pieces (off, fr, m) (map (\<lambda>k. piece_of payload (vs ! k)) ks))"
  using bound
proof (induction ks)
  case (Cons k ks)
  note reads = region_reads[OF ok]
  let ?v = "vs ! k"
  have k: "byte_at (intervals t) (interval_base t i + k) = Some ?v" using reads(3) Cons.prems by simp
  have piece: "length (slice (interval_offset ?v) (interval_size ?v) payload) = interval_size ?v"
    using Cons.prems reads(2) by (intro length_slice_in) simp
  have same: "(if off = interval_offset ?v \<and> length fr = interval_size ?v \<and> m = interval_more ?v
        then and_then (raw (bytes_at (payloads t) (payload_base t i + interval_offset ?v) (length fr))) (\<lambda>old. Done (fr = old))
        else Done False) = (Done ((off, fr, m) = piece_of payload ?v) :: (errno, bool) run)"
    using Cons.prems reads(4)[of "interval_offset ?v" "length fr"] piece by (auto simp: piece_of_def)
  show ?case
    using Cons piece unfolding inspect_loop.simps k raw_simps and_then.simps same
    by (simp add: overlap_def piece_of_def del: length_slice)
qed simp

lemma inspect_intervals_pieces:
  assumes ok: "tracker_ok t" "i < datagrams t" "region t i = (e, vs, payload)"
    and ps: "ps = map (piece_of payload) (take (fragment_count e) vs)"
  shows "inspect_intervals t i off m fr = Done (if (off, fr, m) \<in> set ps then JG_FRAGMENT_DUPLICATE
    else if \<exists>q \<in> set ps. overlap (off, fr, m) q then JG_FRAGMENT_OVERLAP else JG_FRAGMENT_STORED)"
proof -
  note reads = region_reads[OF ok]
  have r: "region_ok (tracker_limits t) (e, vs, payload)" using ok by (auto simp: tracker_ok_def)
  note pieces = region_pieces_ok[OF r reads(2,1) refl]
  have count: "fragment_count e \<le> length vs" using r reads(1) by (simp add: Let_def)
  have all: "\<forall>w \<in> set (take (fragment_count e) vs). interval_offset w + interval_size w \<le> max_bytes_per_datagram (tracker_limits t)"
    using r by (simp add: Let_def)
  have bound: "\<forall>k \<in> set [0..<fragment_count e]. k < max_fragments_per_datagram (tracker_limits t)
      \<and> interval_offset (vs ! k) + interval_size (vs ! k) \<le> max_bytes_per_datagram (tracker_limits t)"
  proof
    fix k assume "k \<in> set [0..<fragment_count e]"
    then have "vs ! k \<in> set (take (fragment_count e) vs)" using count by (auto simp: in_set_conv_nth intro!: exI[of _ k])
    with all \<open>k \<in> _\<close> show "k < max_fragments_per_datagram (tracker_limits t)
      \<and> interval_offset (vs ! k) + interval_size (vs ! k) \<le> max_bytes_per_datagram (tracker_limits t)"
      using count reads(1) by simp
  qed
  have "take (fragment_count e) vs = map (\<lambda>k. vs ! k) [0..<fragment_count e]"
    using count by (intro nth_equalityI) auto
  then have "ps = map (\<lambda>k. piece_of payload (vs ! k)) [0..<fragment_count e]" unfolding ps by simp
  moreover have "byte_at (entries t) i = Some e" using update_entry(1)[OF tracker_ok_typed[OF ok(1)] ok(2)] ok(3) by simp
  ultimately show ?thesis
    using inspect_loop_pieces[OF ok bound, of off m fr] inspect_pieces_eq[OF pieces(1), of "(off, fr, m)"]
    unfolding inspect_intervals_def ps by (simp del: byte_at_Some_iff)
qed

lemma complete_loop_pieces:
  assumes ok: "tracker_typed t" "i < datagrams t" "region t i = (e, vs, payload)"
    and "length vs = max_fragments_per_datagram (tracker_limits t)" "length payload = max_bytes_per_datagram (tracker_limits t)"
    and bound: "\<forall>k \<in> set ks. k < length vs \<and> interval_offset (vs ! k) + interval_size (vs ! k) \<le> length payload"
  shows "complete_loop t i ks c = Done (let qs = map (\<lambda>k. piece_of payload (vs ! k)) ks in
    if contiguous c qs then Some (c + length (content qs)) else None)"
  using bound
proof (induction ks arbitrary: c)
  case (Cons k ks)
  let ?v = "vs ! k"
  have "interval_base t i + max_fragments_per_datagram (tracker_limits t) \<le> length (intervals t)"
    using block_fits[OF ok(2)] ok(1) by (simp add: tracker_typed_def)
  then have k: "byte_at (intervals t) (interval_base t i + k) = Some ?v"
    using ok(3) Cons.prems assms(4) by (auto simp: region_def)
  have piece: "length (slice (interval_offset ?v) (interval_size ?v) payload) = interval_size ?v"
    using Cons.prems by (intro length_slice_in) simp
  then have p: "piece_of payload ?v = (interval_offset ?v, slice (interval_offset ?v) (interval_size ?v) payload, interval_more ?v)"
    by (simp add: piece_of_def)
  show ?case
    using Cons piece unfolding complete_loop.simps k raw_simps and_then.simps list.map p
    by (auto simp: Let_def content_def simp del: length_slice)
qed (simp add: content_def)

subsection \<open>Retaining a piece\<close>

lemma insort_key_snoc_less: "f x < f v \<Longrightarrow> insort_key f x (ws @ [v]) = insort_key f x ws @ [v]"
  by (induction ws) auto

lemma insort_key_greater: "\<forall>w \<in> set ws. f w < f x \<Longrightarrow> insort_key f x ws = ws @ [x]"
  by (induction ws) auto

lemma shift_insert:
  assumes "base + n < length ints" "vs = slice base n ints" "sorted_wrt (\<lambda>v w. interval_offset v < interval_offset w) vs"
    and "\<forall>v \<in> set vs. interval_offset v \<noteq> interval_offset x"
  shows "\<exists>ints' k. shift_loop ints base (interval_offset x) n = Done (ints', k) \<and> base + k < length ints'
    \<and> length ints' = length ints \<and> blit ints' (base + k) [x] = blit ints base (insort_key interval_offset x vs)"
  using assms
proof (induction n arbitrary: ints vs)
  case 0
  then show ?case by (simp add: slice_def)
next
  case (Suc n)
  define ws v where "ws = slice base n ints" and "v = ints ! (base + n)"
  have vs: "vs = ws @ [v]" using Suc.prems(1,2) by (auto simp: ws_def v_def slice_def take_Suc_conv_app_nth)
  have read: "byte_at ints (base + n) = Some v" using Suc.prems(1) by (simp add: v_def)
  show ?case
  proof (cases "interval_offset v > interval_offset x")
    case True
    define ints1 where "ints1 = blit ints (base + Suc n) [v]"
    have len: "length ints1 = length ints" using Suc.prems(1) by (simp add: ints1_def)
    have ws1: "ws = slice base n ints1" using Suc.prems(1) by (simp add: ws_def ints1_def slice_blit_other)
    obtain ints' k where IH: "shift_loop ints1 base (interval_offset x) n = Done (ints', k)" "base + k < length ints'"
      "length ints' = length ints1" "blit ints' (base + k) [x] = blit ints1 base (insort_key interval_offset x ws)"
    proof -
      have "base + n < length ints1" "sorted_wrt (\<lambda>v w. interval_offset v < interval_offset w) ws"
        "\<forall>v \<in> set ws. interval_offset v \<noteq> interval_offset x"
        using Suc.prems(1,3,4) len unfolding vs by (simp_all add: sorted_wrt_append)
      then show ?thesis using that Suc.IH[OF _ ws1] by blast
    qed
    have "length (insort_key interval_offset x ws) = Suc n" using Suc.prems(1) by (simp add: ws_def)
    then have "blit ints1 base (insort_key interval_offset x ws) = blit ints base (insort_key interval_offset x ws @ [v])"
      using Suc.prems(1) unfolding ints1_def by (intro nth_equalityI) (auto simp: nth_blit nth_append)
    then have "blit ints' (base + k) [x] = blit ints base (insort_key interval_offset x vs)"
      using IH(4) insort_key_snoc_less[of interval_offset x v ws] True by (simp add: vs)
    moreover have "shift_loop ints base (interval_offset x) (Suc n) = Done (ints', k)"
      using read True IH(1) Suc.prems(1) by (simp add: ints1_def del: byte_at_Some_iff)
    ultimately show ?thesis using IH len by auto
  next
    case False
    have "interval_offset v \<noteq> interval_offset x" using Suc.prems(4) vs by auto
    with False Suc.prems(3) vs have "\<forall>w \<in> set vs. interval_offset w < interval_offset x" by (auto simp: sorted_wrt_append)
    then have "insort_key interval_offset x vs = vs @ [x]" by (rule insort_key_greater)
    moreover have "blit ints (base + Suc n) [x] = blit ints base (vs @ [x])"
      using Suc.prems(1,2) by (intro nth_equalityI) (auto simp: nth_blit nth_append)
    moreover have "shift_loop ints base (interval_offset x) (Suc n) = Done (ints, Suc n)"
      using read False by (simp del: byte_at_Some_iff)
    ultimately show ?thesis using Suc.prems(1) by auto
  qed
qed

lemma map_insort_key:
  "\<forall>w \<in> insert x (set ws). fst (f w) = g w \<Longrightarrow> map f (insort_key g x ws) = insort_key fst (f x) (map f ws)"
  by (induction ws) auto

lemma sorted_insort_disjoint:
  assumes "sorted_wrt (\<lambda>p q. piece_end p \<le> fst q) ps" "\<forall>q \<in> set ps. \<not> overlap p q" "fst p < piece_end p" "\<forall>q \<in> set ps. fst q < piece_end q"
  shows "sorted_wrt (\<lambda>p q. piece_end p \<le> fst q) (insort_key fst p ps)"
  using assms
proof (induction ps)
  case (Cons q qs)
  show ?case
  proof (cases "fst p \<le> fst q")
    case True
    have "\<not> overlap p q" "fst q < piece_end q" "fst p < piece_end p" using Cons.prems by simp_all
    then have pq: "piece_end p \<le> fst q" using True by (auto simp: overlap_def)
    moreover have "piece_end p \<le> fst r" if "r \<in> set qs" for r
    proof -
      have "piece_end q \<le> fst r" using Cons.prems(1) that by simp
      then show ?thesis using pq \<open>fst q < piece_end q\<close> by linarith
    qed
    ultimately show ?thesis using True Cons.prems(1) by simp
  next
    case False
    have "\<not> overlap p q" "fst p < piece_end p" using Cons.prems by simp_all
    then have "piece_end q \<le> fst p" using False by (auto simp: overlap_def)
    then show ?thesis using False Cons by (auto simp: set_insort_key)
  qed
qed simp

text \<open>The region of an entry after a piece is stored in its payload and its intervals.\<close>

lemma store_payload_changes:
  assumes "tracker_typed t" "i < datagrams t" "region t i = (e, vs, payload)"
    and "off + length fr \<le> max_bytes_per_datagram (tracker_limits t)"
  shows "\<exists>pl. store_at (payloads t) (payload_base t i + off) fr = Some pl
    \<and> changes t i (e, vs, blit payload off fr) (t\<lparr>payloads := pl\<rparr>)"
proof -
  have len: "length (payloads t) = datagrams t * max_bytes_per_datagram (tracker_limits t)"
    using assms(1) by (simp add: tracker_typed_def)
  note block = slice_blit_block[OF assms(2) len assms(4)]
  show ?thesis
    using assms(1-3) block by (auto simp: changes_def region_def tracker_typed_def)
qed

lemma insert_interval_changes:
  assumes "tracker_typed t" "i < datagrams t" "region t i = (e, vs, payload)"
    and count: "fragment_count e < max_fragments_per_datagram (tracker_limits t)"
    and ws: "ws = take (fragment_count e) vs" "sorted_wrt (\<lambda>v w. interval_offset v < interval_offset w) ws"
    and x: "x = \<lparr>interval_offset = off, interval_size = n, interval_more = m\<rparr>" "\<forall>w \<in> set ws. interval_offset w \<noteq> off"
  shows "\<exists>t' vs'. insert_interval t i off n m = Done t'
    \<and> changes t i (e\<lparr>fragment_count := fragment_count e + 1\<rparr>, vs', payload) t'
    \<and> take (fragment_count e + 1) vs' = insort_key interval_offset x ws"
proof -
  let ?mf = "max_fragments_per_datagram (tracker_limits t)" and ?b = "interval_base t i" and ?c = "fragment_count e"
  have len: "length (intervals t) = datagrams t * ?mf" "i < length (entries t)"
    using assms(1,2) by (simp_all add: tracker_typed_def)
  have vs: "vs = slice ?b ?mf (intervals t)" and e: "entries t ! i = e" using assms(3) by (simp_all add: region_def)
  have fits: "?b + ?mf \<le> length (intervals t)" using block_fits[OF assms(2)] len by simp
  have w: "ws = slice ?b ?c (intervals t)" using count fits by (simp add: ws(1) vs slice_def min_def)
  obtain ints k where s: "shift_loop (intervals t) ?b off ?c = Done (ints, k)" "?b + k < length ints"
    "length ints = length (intervals t)" "blit ints (?b + k) [x] = blit (intervals t) ?b (insort_key interval_offset x ws)"
    using shift_insert[OF _ w ws(2), of x] count fits x by auto
  have lx: "length (insort_key interval_offset x ws) = ?c + 1" using count fits by (simp add: w)
  note block = slice_blit_block[OF assms(2) len(1), of 0 "insort_key interval_offset x ws", simplified]
  have "insert_interval t i off n m = Done (t\<lparr>intervals := blit (intervals t) ?b (insort_key interval_offset x ws),
      entries := (entries t)[i := e\<lparr>fragment_count := ?c + 1\<rparr>]\<rparr>)"
    using len(2) e s by (simp add: insert_interval_def x(1)[symmetric])
  moreover have "take (?c + 1) (blit vs 0 (insort_key interval_offset x ws)) = insort_key interval_offset x ws"
    using lx by (simp add: blit_start)
  ultimately show ?thesis
    using assms(1-3) len block lx count vs
    by (intro exI[of _ "t\<lparr>intervals := blit (intervals t) ?b (insort_key interval_offset x ws),
      entries := (entries t)[i := e\<lparr>fragment_count := ?c + 1\<rparr>]\<rparr>"] exI[of _ "blit vs 0 (insort_key interval_offset x ws)"])
      (auto simp: changes_def region_def tracker_typed_def)
qed

lemma conflicts_entry:
  assumes "last_end ps = (if has_last e then Some (expected_size e) else None)"
  shows "conflicts ps (off, fr, m) \<longleftrightarrow> has_last e \<and> off + length fr > expected_size e
    \<or> \<not> m \<and> has_last e \<and> expected_size e \<noteq> off + length fr"
  using assms by auto

definition retained_entry :: "fragment_entry \<Rightarrow> u64 \<Rightarrow> piece \<Rightarrow> fragment_entry" where
  "retained_entry e deadline p = (case p of (off, fr, m) \<Rightarrow>
     (if \<not> m then e\<lparr>fragment_count := fragment_count e + 1, has_last := True, expected_size := off + length fr\<rparr>
      else e\<lparr>fragment_count := fragment_count e + 1\<rparr>)\<lparr>expires_at := deadline\<rparr>)"

lemma retained_pieces:
  assumes bounds: "\<forall>w \<in> set ws. 0 < interval_size w \<and> interval_offset w + interval_size w \<le> length payload"
    and fr: "off + length fr \<le> length payload"
    and apart: "\<forall>q \<in> set (map (piece_of payload) ws). \<not> overlap (off, fr, m) q"
    and x: "x = \<lparr>interval_offset = off, interval_size = length fr, interval_more = m\<rparr>"
  shows "map (piece_of (blit payload off fr)) (insort_key interval_offset x ws)
    = insort_key fst (off, fr, m) (map (piece_of payload) ws)"
proof -
  have old: "piece_of (blit payload off fr) w = piece_of payload w" if "w \<in> set ws" for w
  proof -
    have "\<not> overlap (off, fr, m) (piece_of payload w)" "interval_offset w + interval_size w \<le> length payload"
      using that bounds apart by auto
    moreover from this(2) have "length (slice (interval_offset w) (interval_size w) payload) = interval_size w" by (rule length_slice_in)
    ultimately have "interval_offset w + interval_size w \<le> off \<or> off + length fr \<le> interval_offset w"
      by (simp add: overlap_def piece_of_def not_less del: length_slice)
    then show ?thesis
      using fr \<open>interval_offset w + interval_size w \<le> length payload\<close> by (simp add: piece_of_def slice_blit_other)
  qed
  have new: "piece_of (blit payload off fr) x = (off, fr, m)" using fr by (simp add: piece_of_def x)
  have "map (piece_of (blit payload off fr)) (insort_key interval_offset x ws)
      = insort_key fst (piece_of (blit payload off fr) x) (map (piece_of (blit payload off fr)) ws)"
    by (rule map_insort_key) (simp add: piece_of_def)
  also have "map (piece_of (blit payload off fr)) ws = map (piece_of payload) ws" using old by simp
  finally show ?thesis by (simp only: new)
qed

lemma retained_region:
  assumes ok: "region_ok l (e, vs, payload)" "length payload = max_bytes_per_datagram l" "length vs = max_fragments_per_datagram l"
    and e: "active e" "\<not> rejected e" and ws: "ws = take (fragment_count e) vs" "ps = map (piece_of payload) ws"
    and p: "fr \<noteq> []" "off + length fr \<le> max_bytes_per_datagram l" "fragment_count e < max_fragments_per_datagram l"
    and apart: "\<forall>q \<in> set ps. \<not> overlap (off, fr, m) q" "\<not> conflicts ps (off, fr, m)"
    and x: "x = \<lparr>interval_offset = off, interval_size = length fr, interval_more = m\<rparr>"
    and vs': "take (fragment_count e + 1) vs' = insort_key interval_offset x ws"
  shows "region_ok l (retained_entry e d (off, fr, m), vs', blit payload off fr)"
    and "slot_view (retained_entry e d (off, fr, m), vs', blit payload off fr) = Collecting (entry_key e) d (insort_key fst (off, fr, m) ps)"
proof -
  let ?e = "retained_entry e d (off, fr, m)"
  note pieces = region_pieces_ok[OF ok ws(1)]
  have w: "\<forall>w \<in> set ws. 0 < interval_size w \<and> interval_offset w + interval_size w \<le> length payload"
    "sorted_wrt (\<lambda>v w. interval_offset v + interval_size v \<le> interval_offset w) ws"
    "has_last e = (\<exists>w \<in> set ws. \<not> interval_more w)"
    "\<forall>w \<in> set ws. \<not> interval_more w \<longrightarrow> expected_size e = interval_offset w + interval_size w" "canonical_key (entry_key e)"
    using ok(1,2) e(1) unfolding ws(1) by (simp_all add: Let_def)
  have new: "map (piece_of (blit payload off fr)) (insort_key interval_offset x ws) = insort_key fst (off, fr, m) ps"
    using retained_pieces[OF w(1) _ apart(1)[unfolded ws(2)] x] p(2) ok(2) by (simp add: ws(2))
  have count: "fragment_count ?e = fragment_count e + 1" by (simp add: retained_entry_def)
  show view: "slot_view (?e, vs', blit payload off fr) = Collecting (entry_key e) d (insort_key fst (off, fr, m) ps)"
    using e new vs' by (simp add: count) (simp add: retained_entry_def)
  have gap: "off + length fr \<le> interval_offset w \<or> interval_offset w + interval_size w \<le> off" if "w \<in> set ws" for w
  proof -
    have "length (slice (interval_offset w) (interval_size w) payload) = interval_size w" using that w(1) by (intro length_slice_in) simp
    then show ?thesis using apart(1) that unfolding ws(2) by (auto simp: overlap_def piece_of_def not_less simp del: length_slice dest!: bspec)
  qed
  have sorted: "sorted_wrt (\<lambda>v w. interval_offset v + interval_size v \<le> interval_offset w) (insort_key interval_offset x ws)"
    using w(1,2) gap p(1)
  proof (induction ws)
    case (Cons v ws)
    then show ?case by (fastforce simp: x set_insort_key)
  qed simp
  have "conflicts ps (off, fr, m) \<longleftrightarrow> has_last e \<and> off + length fr > expected_size e \<or> \<not> m \<and> has_last e \<and> expected_size e \<noteq> off + length fr"
    by (rule conflicts_entry) (simp add: ws(2) pieces(3))
  then have last: "\<not> m \<Longrightarrow> has_last e \<Longrightarrow> expected_size e = off + length fr" using apart(2) by blast
  have old_last: "interval_offset w + interval_size w = off + length fr" if "\<not> m" "w \<in> set ws" "\<not> interval_more w" for w
    using that w(3,4) last by metis
  have size: "\<forall>w \<in> set (insort_key interval_offset x ws). 0 < interval_size w \<and> interval_offset w + interval_size w \<le> max_bytes_per_datagram l"
    using w(1) p(1,2) ok(2) by (auto simp: x set_insort_key)
  have flag: "has_last ?e = (\<exists>w \<in> set (insort_key interval_offset x ws). \<not> interval_more w)"
    using w(3) by (auto simp: retained_entry_def set_insort_key x)
  have expected: "\<forall>w \<in> set (insort_key interval_offset x ws). \<not> interval_more w \<longrightarrow> expected_size ?e = interval_offset w + interval_size w"
    using w(4) old_last by (auto simp: retained_entry_def set_insort_key x)
  have "if active ?e then canonical_key (entry_key ?e) else ?e = cleared_entry" using w(5) e(1) by (simp add: retained_entry_def)
  then show "region_ok l (?e, vs', blit payload off fr)"
    using p(3) sorted size flag expected unfolding region_ok.simps Let_def count vs' by simp
qed

lemma entry_complete_pieces:
  assumes ok: "tracker_ok t" "i < datagrams t" "region t i = (e, vs, payload)"
    and ps: "ps = map (piece_of payload) (take (fragment_count e) vs)"
  shows "entry_complete t i = Done (reassembled ps \<noteq> None)"
    and "reassembled ps = Some content' \<Longrightarrow> expected_size e = length content'
      \<and> bytes_at (payloads t) (payload_base t i) (expected_size e) = Some content'"
proof -
  note reads = region_reads[OF ok]
  have r: "region_ok (tracker_limits t) (e, vs, payload)" using ok by (auto simp: tracker_ok_def)
  note pieces = region_pieces_ok[OF r reads(2,1) refl, folded ps]
  let ?ws = "take (fragment_count e) vs"
  have count: "fragment_count e \<le> length vs" and bounds: "\<forall>w \<in> set ?ws. interval_offset w + interval_size w \<le> length payload"
    using r reads by (simp_all add: Let_def)
  have each: "\<forall>k \<in> set [0..<fragment_count e]. k < length vs \<and> interval_offset (vs ! k) + interval_size (vs ! k) \<le> length payload"
  proof
    fix k assume k: "k \<in> set [0..<fragment_count e]"
    then have "vs ! k \<in> set ?ws" using count by (auto simp: in_set_conv_nth intro!: exI[of _ k])
    with bounds k count show "k < length vs \<and> interval_offset (vs ! k) + interval_size (vs ! k) \<le> length payload" by simp
  qed
  have "?ws = map (\<lambda>k. vs ! k) [0..<fragment_count e]" using count by (intro nth_equalityI) auto
  then have "ps = map (\<lambda>k. piece_of payload (vs ! k)) [0..<fragment_count e]" unfolding ps by simp
  then have loop: "complete_loop t i [0..<fragment_count e] 0 = Done (if contiguous 0 ps then Some (length (content ps)) else None)"
    using complete_loop_pieces[OF tracker_ok_typed[OF ok(1)] ok(2,3) reads(1,2) each, of 0] by (simp add: Let_def)
  have "byte_at (entries t) i = Some e" using update_entry(1)[OF tracker_ok_typed[OF ok(1)] ok(2)] ok(3) by simp
  then show "entry_complete t i = Done (reassembled ps \<noteq> None)"
    using loop pieces(3) by (auto simp: entry_complete_def reassembled_def simp del: byte_at_Some_iff)
  assume some: "reassembled ps = Some content'"
  then have c: "contiguous 0 ps" "content' = content ps" "expected_size e = length content'"
    using pieces(3) by (auto simp: reassembled_def split: if_splits)
  have "content ps = slice 0 (length (content ps)) payload" using contiguous_content[of 0 payload ?ws] c(1) bounds ps by simp
  moreover have "length (content ps) \<le> length payload"
  proof -
    have "length (content ps) = length (slice 0 (length (content ps)) payload)" using calculation by simp
    then show ?thesis by simp
  qed
  ultimately show "expected_size e = length content' \<and> bytes_at (payloads t) (payload_base t i) (expected_size e) = Some content'"
    using reads(4)[of 0 "length content'"] reads(2) c by simp
qed

text \<open>The counter that each outcome increments.\<close>

fun counted :: "errno + jg_fragment_result \<times> bytes \<Rightarrow> jg_fragment_stats \<Rightarrow> jg_fragment_stats" where
  "counted (Inl _) s = s"
| "counted (Inr (JG_FRAGMENT_STORED, _)) s = s\<lparr>stored := stored s + 1\<rparr>"
| "counted (Inr (JG_FRAGMENT_DUPLICATE, _)) s = s\<lparr>duplicates := duplicates s + 1\<rparr>"
| "counted (Inr (JG_FRAGMENT_COMPLETE, _)) s = s\<lparr>completed := completed s + 1\<rparr>"
| "counted (Inr (JG_FRAGMENT_MALFORMED, _)) s = s\<lparr>malformed := malformed s + 1\<rparr>"
| "counted (Inr (JG_FRAGMENT_OVERLAP, _)) s = s\<lparr>overlaps := overlaps s + 1\<rparr>"
| "counted (Inr (JG_FRAGMENT_EXHAUSTED, _)) s = s\<lparr>exhausted := exhausted s + 1\<rparr>"

text \<open>What an operation on the tracker \<open>t\<close> achieves: the invariant, the slots, the outcome and the counters.\<close>

definition achieves :: "jg_fragment_tracker \<Rightarrow> added \<Rightarrow> slot list \<times> (errno + jg_fragment_result \<times> bytes) \<Rightarrow> bool" where
  "achieves t m spec \<longleftrightarrow> (\<exists>t'. m = Done (t', snd spec) \<and> tracker_ok t' \<and> tracker_limits t' = tracker_limits t
     \<and> slots t' = fst spec \<and> stats t' = counted (snd spec) (stats t))"

lemma achieves_count:
  assumes "tracker_ok t" "slots t = ss" "tracker_limits t = tracker_limits t0" "stats t = stats t0"
  shows "achieves t0 (Done (count_stored t, Inr (JG_FRAGMENT_STORED, []))) (ss, Inr (JG_FRAGMENT_STORED, []))"
    "achieves t0 (Done (count_duplicate t, Inr (JG_FRAGMENT_DUPLICATE, []))) (ss, Inr (JG_FRAGMENT_DUPLICATE, []))"
    "achieves t0 (Done (count_completed t, Inr (JG_FRAGMENT_COMPLETE, c))) (ss, Inr (JG_FRAGMENT_COMPLETE, c))"
    "achieves t0 (Done (count_malformed t, Inr (JG_FRAGMENT_MALFORMED, []))) (ss, Inr (JG_FRAGMENT_MALFORMED, []))"
    "achieves t0 (Done (count_overlap t, Inr (JG_FRAGMENT_OVERLAP, []))) (ss, Inr (JG_FRAGMENT_OVERLAP, []))"
    "achieves t0 (Done (count_exhausted t, Inr (JG_FRAGMENT_EXHAUSTED, []))) (ss, Inr (JG_FRAGMENT_EXHAUSTED, []))"
    "achieves t0 (Done (t, Inl x)) (ss, Inl x)"
  using assms
  by (auto simp: achieves_def count_stored_def count_duplicate_def count_completed_def count_malformed_def count_overlap_def
      count_exhausted_def tracker_ok_def tracker_typed_def slots_def region_def)

lemma reject_slots:
  assumes "tracker_ok t" "i < datagrams t" "slot_key (slots t ! i) = Some k"
  shows "\<exists>t'. reject_entry t i now = Done t' \<and> tracker_ok t' \<and> tracker_limits t' = tracker_limits t
    \<and> slots t' = (slots t)[i := Rejected k (expiration_deadline t now)] \<and> stats t' = stats t"
proof -
  obtain e vs payload where r: "region t i = (e, vs, payload)" by (rule region_cases)
  then have k: "active e" "entry_key e = k" using assms(2,3) by (auto simp: slots_nth split: if_splits)
  then have c: "canonical_key k" using assms(1,2) r by (auto simp: tracker_ok_def Let_def)
  obtain t' vs' where "reject_entry t i now = Done t'"
    and ch: "changes t i (rejected_entry k (expiration_deadline t now), vs', payload) t'"
    using reject_entry_changes[OF tracker_ok_typed[OF assms(1)] assms(2) r] k by blast
  then show ?thesis
    using changes_slots[OF ch assms(2)] changes_ok[OF ch assms(1)] rejected_region c ch by (auto simp: changes_def)
qed

lemma collecting_region:
  assumes "tracker_ok t" "i < datagrams t" "slots t ! i = Collecting k d ps" "region t i = (e, vs, payload)"
  shows "active e" "\<not> rejected e" "entry_key e = k" "ps = map (piece_of payload) (take (fragment_count e) vs)"
    and "region_ok (tracker_limits t) (e, vs, payload)" "fragment_count e = length ps"
proof -
  show "active e" "\<not> rejected e" "entry_key e = k" and ps: "ps = map (piece_of payload) (take (fragment_count e) vs)"
    using assms(2-4) by (auto simp: slots_nth split: if_splits)
  show r: "region_ok (tracker_limits t) (e, vs, payload)" using assms by (auto simp: tracker_ok_def)
  show "fragment_count e = length ps" using r region_reads(1)[OF assms(1,2,4)] ps by (simp add: Let_def)
qed

lemma pieces_order:
  assumes "region_ok l (e, vs, payload)" "length payload = max_bytes_per_datagram l" "ws = take (fragment_count e) vs"
    and "ps = map (piece_of payload) ws" "fr \<noteq> []" "\<forall>q \<in> set ps. \<not> overlap (off, fr, m) q"
  shows "sorted_wrt (\<lambda>v w. interval_offset v < interval_offset w) ws" "\<forall>w \<in> set ws. interval_offset w \<noteq> off"
proof -
  have w: "sorted_wrt (\<lambda>v w. interval_offset v + interval_size v \<le> interval_offset w) ws"
    "\<forall>w \<in> set ws. 0 < interval_size w \<and> interval_offset w + interval_size w \<le> length payload"
    using assms(1,2) by (simp_all add: Let_def assms(3))
  show "sorted_wrt (\<lambda>v w. interval_offset v < interval_offset w) ws"
    using w(1) by (rule sorted_wrt_mono_rel[rotated]) (use w(2) in fastforce)
  show "\<forall>w \<in> set ws. interval_offset w \<noteq> off"
  proof
    fix w assume "w \<in> set ws"
    then have "piece_of payload w \<in> set ps" "0 < interval_size w" "interval_offset w + interval_size w \<le> length payload"
      using w(2) by (auto simp: assms(4))
    moreover from this(3) have "length (slice (interval_offset w) (interval_size w) payload) = interval_size w" by (rule length_slice_in)
    ultimately show "interval_offset w \<noteq> off"
      using assms(5,6) by (auto simp: overlap_def piece_of_def simp del: length_slice dest!: bspec)
  qed
qed

lemma retain_fragment_stores:
  assumes ok: "tracker_ok t" "i < datagrams t" "slots t ! i = Collecting k d ps"
    and p: "fr \<noteq> []" "off + length fr \<le> max_bytes_per_datagram (tracker_limits t)" "length ps < max_fragments_per_datagram (tracker_limits t)"
    and apart: "\<forall>q \<in> set ps. \<not> overlap (off, fr, m) q" "\<not> conflicts ps (off, fr, m)"
    and packet: "fragment_offset packet = off" "more_fragments packet = m"
  shows "\<exists>t' e. tracker_ok t' \<and> tracker_limits t' = tracker_limits t \<and> stats t' = stats t \<and> fst (region t' i) = e
    \<and> slots t' = (slots t)[i := Collecting k (expiration_deadline t now) (insort_key fst (off, fr, m) ps)]
    \<and> retain_fragment t i packet fr now output_size = and_then (entry_complete t' i) (\<lambda>complete.
        if \<not> complete then Done (count_stored t', Inr (JG_FRAGMENT_STORED, []))
        else if output_size < expected_size e then and_then (reject_entry t' i now) (\<lambda>t. Done (t, Inl ENOSPC))
        else and_then (raw (bytes_at (payloads t') (payload_base t' i) (expected_size e))) (\<lambda>reassembled.
             and_then (clear_entry t' i) (\<lambda>t. Done (count_completed t, Inr (JG_FRAGMENT_COMPLETE, reassembled)))))"
proof -
  obtain e vs payload where r: "region t i = (e, vs, payload)" by (rule region_cases)
  note c = collecting_region[OF ok r] and reads = region_reads[OF ok(1,2) r]
  define x where "x = \<lparr>interval_offset = off, interval_size = length fr, interval_more = m\<rparr>"
  define ws where "ws = take (fragment_count e) vs"
  note order = pieces_order[OF c(5) reads(2) ws_def c(4)[folded ws_def] p(1) apart(1)]
  obtain pl where pl: "store_at (payloads t) (payload_base t i + off) fr = Some pl"
    and c1: "changes t i (e, vs, blit payload off fr) (t\<lparr>payloads := pl\<rparr>)"
    using store_payload_changes[OF tracker_ok_typed[OF ok(1)] ok(2) r p(2)] by blast
  define t1 where "t1 = t\<lparr>payloads := pl\<rparr>"
  have t1: "tracker_typed t1" "i < datagrams t1" "region t1 i = (e, vs, blit payload off fr)" "tracker_limits t1 = tracker_limits t"
    using c1 ok(2) by (simp_all add: changes_def t1_def)
  have room: "fragment_count e < max_fragments_per_datagram (tracker_limits t1)" using p(3) c(6) t1(4) by simp
  obtain t2 vs' where t2: "insert_interval t1 i off (length fr) m = Done t2"
    and c2: "changes t1 i (e\<lparr>fragment_count := fragment_count e + 1\<rparr>, vs', blit payload off fr) t2"
    and vs': "take (fragment_count e + 1) vs' = insort_key interval_offset x ws"
    using insert_interval_changes[OF t1(1,2,3) room ws_def order(1) x_def order(2)] by blast
  have ty2: "tracker_typed t2" "i < datagrams t2" "tracker_limits t2 = tracker_limits t"
    "region t2 i = (e\<lparr>fragment_count := fragment_count e + 1\<rparr>, vs', blit payload off fr)"
    using c2 t1 by (simp_all add: changes_def)
  let ?d = "expiration_deadline t now" and ?e = "retained_entry e (expiration_deadline t now) (off, fr, m)"
  define t3 where "t3 = t2\<lparr>entries := (entries t2)[i := ?e]\<rparr>"
  have e2: "byte_at (entries t2) i = Some (e\<lparr>fragment_count := fragment_count e + 1\<rparr>)"
    using update_entry(1)[OF ty2(1,2)] ty2(4) by simp
  have c3: "changes t i (?e, vs', blit payload off fr) t3"
    using changes_trans[OF c1[folded t1_def] changes_trans[OF c2 update_entry(2)[OF ty2(1,2), of ?e]]] ty2(4) by (simp add: t3_def)
  have few: "fragment_count e < max_fragments_per_datagram (tracker_limits t)" using p(3) c(6) by simp
  note new = retained_region[OF c(5) reads(2,1) c(1,2) ws_def c(4)[folded ws_def] p(1,2) few apart x_def vs']
  have ok3: "tracker_ok t3" by (rule changes_ok[OF c3 ok(1) new(1)])
  have s3: "slots t3 = (slots t)[i := Collecting k ?d (insort_key fst (off, fr, m) ps)]"
    using changes_slots[OF c3 ok(2)] unfolding new(2) c(3) .
  have updated: "(if \<not> m then e\<lparr>fragment_count := fragment_count e + 1, has_last := True, expected_size := off + length fr\<rparr>
      else e\<lparr>fragment_count := fragment_count e + 1\<rparr>)\<lparr>expires_at := ?d\<rparr> = ?e" by (simp add: retained_entry_def)
  have dl: "expiration_deadline t2 now = ?d" by (rule deadline_limits[OF ty2(3)])
  have "retain_fragment t i packet fr now output_size = and_then (entry_complete t3 i) (\<lambda>complete.
        if \<not> complete then Done (count_stored t3, Inr (JG_FRAGMENT_STORED, []))
        else if output_size < expected_size ?e then and_then (reject_entry t3 i now) (\<lambda>t. Done (t, Inl ENOSPC))
        else and_then (raw (bytes_at (payloads t3) (payload_base t3 i) (expected_size ?e))) (\<lambda>reassembled.
             and_then (clear_entry t3 i) (\<lambda>t. Done (count_completed t, Inr (JG_FRAGMENT_COMPLETE, reassembled)))))"
    unfolding retain_fragment_def packet pl t1_def[symmetric] t2 e2 raw_simps and_then.simps Let_def dl updated t3_def[symmetric] ..
  moreover have "fst (region t3 i) = ?e" "tracker_limits t3 = tracker_limits t" "stats t3 = stats t" using c3 by (simp_all add: changes_def)
  ultimately show ?thesis using ok3 s3 by blast
qed

lemma retain_fragment_achieves:
  assumes ok: "tracker_ok t" "i < datagrams t" "slots t ! i = Collecting k d ps"
    and p: "fr \<noteq> []" "off + length fr \<le> max_bytes_per_datagram (tracker_limits t)" "length ps < max_fragments_per_datagram (tracker_limits t)"
    and apart: "\<forall>q \<in> set ps. \<not> overlap (off, fr, m) q" "\<not> conflicts ps (off, fr, m)"
    and packet: "fragment_offset packet = off" "more_fragments packet = m"
  shows "achieves t (retain_fragment t i packet fr now output_size) (let ps' = insort_key fst (off, fr, m) ps in
    case reassembled ps' of None \<Rightarrow> ((slots t)[i := Collecting k (expiration_deadline t now) ps'], Inr (JG_FRAGMENT_STORED, []))
    | Some payload \<Rightarrow> if output_size < length payload then ((slots t)[i := Rejected k (expiration_deadline t now)], Inl ENOSPC)
        else ((slots t)[i := Free], Inr (JG_FRAGMENT_COMPLETE, payload)))"
proof -
  obtain t' e where t': "tracker_ok t'" "tracker_limits t' = tracker_limits t" "stats t' = stats t" "fst (region t' i) = e"
    "slots t' = (slots t)[i := Collecting k (expiration_deadline t now) (insort_key fst (off, fr, m) ps)]"
    and run: "retain_fragment t i packet fr now output_size = and_then (entry_complete t' i) (\<lambda>complete.
        if \<not> complete then Done (count_stored t', Inr (JG_FRAGMENT_STORED, []))
        else if output_size < expected_size e then and_then (reject_entry t' i now) (\<lambda>t. Done (t, Inl ENOSPC))
        else and_then (raw (bytes_at (payloads t') (payload_base t' i) (expected_size e))) (\<lambda>reassembled.
             and_then (clear_entry t' i) (\<lambda>t. Done (count_completed t, Inr (JG_FRAGMENT_COMPLETE, reassembled)))))"
    using retain_fragment_stores[OF ok p apart packet] by blast
  let ?ps = "insort_key fst (off, fr, m) ps"
  obtain vs payload where r: "region t' i = (e, vs, payload)" using t'(4) by (cases "region t' i") auto
  have i: "i < datagrams t'" "slots t' ! i = Collecting k (expiration_deadline t now) ?ps" using ok(2) t'(2,5) by simp_all
  note complete = entry_complete_pieces[OF t'(1) i(1) r collecting_region(4)[OF t'(1) i r]]
  show ?thesis
  proof (cases "reassembled ?ps")
    case None
    then show ?thesis using run complete(1) achieves_count(1)[OF t'(1) t'(5) t'(2,3)] by (simp add: Let_def)
  next
    case (Some c)
    have content: "expected_size e = length c" "bytes_at (payloads t') (payload_base t' i) (length c) = Some c"
      using complete(2)[OF Some] by auto
    obtain t2 where t2: "reject_entry t' i now = Done t2" "tracker_ok t2" "tracker_limits t2 = tracker_limits t'"
      "slots t2 = (slots t')[i := Rejected k (expiration_deadline t' now)]" "stats t2 = stats t'"
      using reject_slots[OF t'(1) i(1), of k now] i(2) by auto
    obtain t3 where t3: "clear_entry t' i = Done t3" and ch: "changes t' i (cleared_entry,
        replicate (max_fragments_per_datagram (tracker_limits t')) cleared_interval, payload) t3"
      using clear_entry_changes[OF tracker_ok_typed[OF t'(1)] i(1)] r by auto
    have s3: "tracker_ok t3" "slots t3 = (slots t)[i := Free]" "tracker_limits t3 = tracker_limits t" "stats t3 = stats t"
      using changes_ok[OF ch t'(1) cleared_region(2)] changes_slots[OF ch i(1)] ch t' by (simp_all add: changes_def cleared_region(1) del: slot_view.simps)
    have s2: "slots t2 = (slots t)[i := Rejected k (expiration_deadline t now)]"
      using t2(4) t'(5) deadline_limits[OF t'(2)] by simp
    have "achieves t (Done (t2, Inl ENOSPC)) ((slots t)[i := Rejected k (expiration_deadline t now)], Inl ENOSPC)"
      by (rule achieves_count(7)[OF t2(2) s2]) (simp_all add: t2(3,5) t'(2,3))
    moreover have "achieves t (Done (count_completed t3, Inr (JG_FRAGMENT_COMPLETE, c))) ((slots t)[i := Free], Inr (JG_FRAGMENT_COMPLETE, c))"
      by (rule achieves_count(3)[OF s3(1,2)]) (simp_all add: s3(3,4))
    ultimately show ?thesis
      using run complete(1) Some content t2(1) t3 by (simp add: Let_def)
  qed
qed

section \<open>Refinement\<close>

lemma reject_achieves:
  assumes "tracker_ok t" "i < datagrams t" "slot_key (slots t ! i) = Some k"
  shows "achieves t (reject_with t i now count_overlap JG_FRAGMENT_OVERLAP)
      ((slots t)[i := Rejected k (expiration_deadline t now)], Inr (JG_FRAGMENT_OVERLAP, []))"
    and "achieves t (reject_with t i now count_exhausted JG_FRAGMENT_EXHAUSTED)
      ((slots t)[i := Rejected k (expiration_deadline t now)], Inr (JG_FRAGMENT_EXHAUSTED, []))"
    and "achieves t (reject_with t i now count_malformed JG_FRAGMENT_MALFORMED)
      ((slots t)[i := Rejected k (expiration_deadline t now)], Inr (JG_FRAGMENT_MALFORMED, []))"
proof -
  obtain t' where t': "reject_entry t i now = Done t'" "tracker_ok t'" "tracker_limits t' = tracker_limits t"
    "slots t' = (slots t)[i := Rejected k (expiration_deadline t now)]" "stats t' = stats t"
    using reject_slots[OF assms] by blast
  note counts = achieves_count[OF t'(2,4,3,5)]
  show "achieves t (reject_with t i now count_overlap JG_FRAGMENT_OVERLAP)
      ((slots t)[i := Rejected k (expiration_deadline t now)], Inr (JG_FRAGMENT_OVERLAP, []))"
    "achieves t (reject_with t i now count_exhausted JG_FRAGMENT_EXHAUSTED)
      ((slots t)[i := Rejected k (expiration_deadline t now)], Inr (JG_FRAGMENT_EXHAUSTED, []))"
    "achieves t (reject_with t i now count_malformed JG_FRAGMENT_MALFORMED)
      ((slots t)[i := Rejected k (expiration_deadline t now)], Inr (JG_FRAGMENT_MALFORMED, []))"
    using counts unfolding t'(1) and_then.simps by blast+
qed

lemma check_fragment_achieves:
  assumes ok: "tracker_ok t" "i < datagrams t" "slots t ! i = Collecting k d ps"
    and range: "transport_offset packet + transport_size packet \<le> frame_size packet" "transport_size packet \<noteq> 0"
    and fits: "fragment_end = fragment_offset packet + transport_size packet" "fragment_end \<le> max_bytes_per_datagram (tracker_limits t)"
  shows "achieves t (check_fragment t i packet fragment_end now output_size)
    (spec_piece (max_fragments_per_datagram (tracker_limits t)) (expiration_deadline t now) output_size (slots t) i k ps (packet_piece packet))"
proof -
  define fr where "fr = slice (transport_offset packet) (transport_size packet) (frame packet)"
  have fr: "bytes_at (frame packet) (transport_offset packet) (transport_size packet) = Some fr" "length fr = transport_size packet" "fr \<noteq> []"
    using range by (auto simp: fr_def slice_def)
  let ?off = "fragment_offset packet" and ?m = "more_fragments packet"
  obtain e vs payload where r: "region t i = (e, vs, payload)" by (rule region_cases)
  note c = collecting_region[OF ok r] and reads = region_reads[OF ok(1,2) r]
  have e: "byte_at (entries t) i = Some e" using update_entry(1)[OF tracker_ok_typed[OF ok(1)] ok(2)] r by simp
  note inspect = inspect_intervals_pieces[OF ok(1,2) r c(4), of ?off ?m fr]
  have "last_end ps = (if has_last e then Some (expected_size e) else None)"
    using region_pieces_ok(3)[OF c(5) reads(2,1) refl] c(4) by simp
  from conflicts_entry[OF this, of ?off fr ?m]
  have conflict: "conflicts ps (?off, fr, ?m) \<longleftrightarrow> has_last e \<and> fragment_end > expected_size e
      \<or> \<not> ?m \<and> has_last e \<and> expected_size e \<noteq> fragment_end" by (simp add: fits(1) fr(2))
  have key: "slot_key (slots t ! i) = Some k" using ok(3) by simp
  note rejects = reject_achieves[OF ok(1,2) key, of now]
  have duplicate: "achieves t (Done (count_duplicate t, Inr (JG_FRAGMENT_DUPLICATE, []))) (slots t, Inr (JG_FRAGMENT_DUPLICATE, []))"
    by (rule achieves_count(2)[OF ok(1)]) simp_all
  have piece: "packet_piece packet = (?off, fr, ?m)" by (simp add: packet_piece_def fr_def)
  note retain = retain_fragment_achieves[where packet = packet and now = now and output_size = output_size, OF ok fr(3) _ _ _ _ refl refl]
  consider (clash) "conflicts ps (?off, fr, ?m)" | (clear) "\<not> conflicts ps (?off, fr, ?m)" by blast
  then show ?thesis
  proof cases
    case clash
    then show ?thesis
      using rejects(1) conflict
      unfolding check_fragment_def e fr(1) raw_simps and_then.simps piece spec_piece_def by auto
  next
    case clear
    then have pass: "\<not> (has_last e \<and> fragment_end > expected_size e)" "\<not> (\<not> ?m \<and> has_last e \<and> expected_size e \<noteq> fragment_end)"
      using conflict by blast+
    have run: "check_fragment t i packet fragment_end now output_size =
       (if (?off, fr, ?m) \<in> set ps then Done (count_duplicate t, Inr (JG_FRAGMENT_DUPLICATE, []))
        else if \<exists>q \<in> set ps. overlap (?off, fr, ?m) q then reject_with t i now count_overlap JG_FRAGMENT_OVERLAP
        else if length ps \<ge> max_fragments_per_datagram (tracker_limits t) then reject_with t i now count_exhausted JG_FRAGMENT_EXHAUSTED
        else retain_fragment t i packet fr now output_size)"
      unfolding check_fragment_def e fr(1) raw_simps and_then.simps if_not_P[OF pass(1)] if_not_P[OF pass(2)]
        inspect c(6) by simp
    show ?thesis
      unfolding run piece spec_piece_def if_not_P[OF clear]
      using duplicate rejects retain clear fits fr(2) by (simp add: not_le)
  qed
qed

text \<open>The packets that the tracker accepts; the address fields are the C arrays of 16 bytes.\<close>

definition fragment_packet :: "jg_packet_view \<Rightarrow> bool" where
  "fragment_packet p \<longleftrightarrow> fragmented p \<and> (ip_version p = JG_IP_V4 \<or> ip_version p = JG_IP_V6)
     \<and> address_size p \<noteq> 0 \<and> address_size p \<le> 16 \<and> vlan_count p \<le> 8
     \<and> transport_offset p + transport_size p \<le> frame_size p
     \<and> length (source_address p) = 16 \<and> length (destination_address p) = 16"

lemma build_key_eq:
  assumes "fragment_packet p"
  shows "build_key p = Done (packet_key p)" "canonical_key (packet_key p)"
proof -
  show "build_key p = Done (packet_key p)"
    using assms by (simp add: fragment_packet_def build_key_def packet_key_def cleared_key_def blit_start)
  show "canonical_key (packet_key p)"
    unfolding canonical_key_def
    by (rule exI[of _ "take (address_size p) (source_address p)"], rule exI[of _ "take (address_size p) (destination_address p)"],
        rule exI[of _ "map (\<lambda>tci. tci AND 0x0FFF) (vlan_tci p)"]) (use assms in \<open>simp add: fragment_packet_def packet_key_def\<close>)
qed

lemma initialize_slots:
  assumes "tracker_ok t" "i < datagrams t" "slots t ! i = Free" "canonical_key k"
  shows "\<exists>t'. initialize_entry t i k now = Done t' \<and> tracker_ok t' \<and> tracker_limits t' = tracker_limits t
    \<and> slots t' = (slots t)[i := Collecting k (expiration_deadline t now) []] \<and> stats t' = stats t"
proof -
  obtain e vs payload where r: "region t i = (e, vs, payload)" by (rule region_cases)
  then have "\<not> active e" using assms(2,3) by (simp add: slots_nth split: if_splits)
  then have e: "e = cleared_entry" using assms(1,2) r by (auto simp: tracker_ok_def Let_def)
  obtain t' where t': "initialize_entry t i k now = Done t'"
    and ch: "changes t i (e\<lparr>entry_key := k, expires_at := expiration_deadline t now, active := True\<rparr>, vs, payload) t'"
    using initialize_entry_changes[OF tracker_ok_typed[OF assms(1)] assms(2) r] by blast
  have "region_ok (tracker_limits t) (e\<lparr>entry_key := k, expires_at := expiration_deadline t now, active := True\<rparr>, vs, payload)"
    using assms(4) by (simp add: e cleared_entry_def)
  then show ?thesis
    using t' changes_ok[OF ch assms(1)] changes_slots[OF ch assms(2)] ch by (simp add: changes_def e cleared_entry_def)
qed

lemma achieves_trans: "achieves t1 m spec \<Longrightarrow> tracker_limits t1 = tracker_limits t \<Longrightarrow> stats t1 = stats t \<Longrightarrow> achieves t m spec"
  by (simp add: achieves_def)

lemma new_datagram_achieves:
  assumes ok: "tracker_ok t" "i < datagrams t" "slots t ! i = Free" and packet: "fragment_packet packet" "transport_size packet \<noteq> 0"
    and fits: "fragment_end = fragment_offset packet + transport_size packet" "fragment_end \<le> max_bytes_per_datagram (tracker_limits t)"
  shows "achieves t (and_then (initialize_entry t i (packet_key packet) now) (\<lambda>t. check_fragment t i packet fragment_end now output_size))
    (spec_piece (max_fragments_per_datagram (tracker_limits t)) (expiration_deadline t now) output_size (slots t) i (packet_key packet) [] (packet_piece packet))"
proof -
  obtain t' where t': "initialize_entry t i (packet_key packet) now = Done t'" "tracker_ok t'" "tracker_limits t' = tracker_limits t"
    "slots t' = (slots t)[i := Collecting (packet_key packet) (expiration_deadline t now) []]" "stats t' = stats t"
    using initialize_slots[OF ok build_key_eq(2)[OF packet(1)]] by blast
  have i: "i < datagrams t'" "slots t' ! i = Collecting (packet_key packet) (expiration_deadline t now) []"
    using ok(2) t'(3,4) by simp_all
  have "0 < max_fragments_per_datagram (tracker_limits t)"
    using ok(1) by (auto simp: tracker_ok_def tracker_typed_def jg_fragment_limits_validate_def split: if_splits)
  then have same: "spec_piece (max_fragments_per_datagram (tracker_limits t')) (expiration_deadline t' now) output_size (slots t') i (packet_key packet) [] (packet_piece packet)
      = spec_piece (max_fragments_per_datagram (tracker_limits t)) (expiration_deadline t now) output_size (slots t) i (packet_key packet) [] (packet_piece packet)"
    using deadline_limits[OF t'(3)] unfolding spec_piece_def t'(3,4) by (cases "packet_piece packet") (simp add: last_end_def Let_def split: option.split)
  have "achieves t' (check_fragment t' i packet fragment_end now output_size)
      (spec_piece (max_fragments_per_datagram (tracker_limits t')) (expiration_deadline t' now) output_size (slots t') i (packet_key packet) [] (packet_piece packet))"
    by (rule check_fragment_achieves[OF t'(2) i _ packet(2) fits(1)]) (use packet(1) fits(2) t'(3) in \<open>simp_all add: fragment_packet_def\<close>)
  then show ?thesis unfolding t'(1) and_then.simps same by (rule achieves_trans[OF _ t'(3,5)])
qed

lemma tracker_add_achieves:
  assumes ok: "tracker_ok t" and packet: "fragment_packet packet" and size: "transport_size packet \<le> SIZE_MAX" "fragment_offset packet \<le> SIZE_MAX"
  obtains t1 where "tracker_limits t1 = tracker_limits t"
    "stats t1 = (stats t)\<lparr>timeouts := timeouts (stats t) + of_nat (length (filter (lapsed now) (slots t)))\<rparr>"
    "achieves t1 (jg_fragment_tracker_add t packet now output_size)
      (spec_add (tracker_limits t) (expiration_deadline t) (slots t) packet now output_size)"
proof -
  obtain t1 where t1: "expire_entries t now = Done t1" "tracker_ok t1" "tracker_limits t1 = tracker_limits t"
    "slots t1 = map (\<lambda>s. if slot_expired now s then Free else s) (slots t)"
    "stats t1 = (stats t)\<lparr>timeouts := timeouts (stats t) + of_nat (length (filter (lapsed now) (slots t)))\<rparr>"
    using expire_entries_slots[OF ok] by blast
  define k where "k = packet_key packet"
  define entry where "entry = first_index (\<lambda>s. slot_key s = Some k) (slots t1)"
  note key = build_key_eq[OF packet, folded k_def]
  obtain free where "find_entry t1 k = Done (entry, free) \<and> (entry = None \<longrightarrow> free = first_index (\<lambda>s. s = Free) (slots t1))"
    using find_entry_slots[OF t1(2) key(2)] unfolding entry_def by (rule exE)
  then have find: "find_entry t1 k = Done (entry, free)" and free: "entry = None \<Longrightarrow> free = first_index (\<lambda>s. s = Free) (slots t1)"
    by simp_all
  have accepted: "\<not> (\<not> fragmented packet \<or> (ip_version packet \<noteq> JG_IP_V4 \<and> ip_version packet \<noteq> JG_IP_V6)
         \<or> address_size packet = 0 \<or> address_size packet > JG_PACKET_ADDRESS_SIZE \<or> vlan_count packet > JG_PACKET_VLAN_LIMIT
         \<or> \<not> jg_range_valid (transport_offset packet) (transport_size packet) (frame_size packet))"
    using packet by (auto simp: fragment_packet_def JG_PACKET_ADDRESS_SIZE_def JG_PACKET_VLAN_LIMIT_def)
  let ?dl = "expiration_deadline t now" and ?l = "tracker_limits t" and ?n = "transport_size packet" and ?off = "fragment_offset packet"
  have dl: "expiration_deadline t1 now = ?dl" by (rule deadline_limits[OF t1(3)])
  have n: "length (fst (snd (packet_piece packet))) = ?n" using packet by (auto simp: packet_piece_def fragment_packet_def)
  have pend: "piece_end (packet_piece packet) = ?off + ?n" using packet by (auto simp: packet_piece_def fragment_packet_def)
  have add_none: "jg_size_add ?off ?n = None \<longleftrightarrow> ?off + ?n > SIZE_MAX" using size by (auto simp: jg_size_add_def)
  have slot: "i < datagrams t1 \<and> slot_key (slots t1 ! i) = Some k" if "entry = Some i" for i
    using first_index_Some[of "\<lambda>s. slot_key s = Some k"] that unfolding entry_def by (metis length_slots)
  have count: "achieves t1 (Done (count_overlap t1, Inr (JG_FRAGMENT_OVERLAP, []))) (slots t1, Inr (JG_FRAGMENT_OVERLAP, []))"
    "achieves t1 (Done (count_malformed t1, Inr (JG_FRAGMENT_MALFORMED, []))) (slots t1, Inr (JG_FRAGMENT_MALFORMED, []))"
    "achieves t1 (Done (count_exhausted t1, Inr (JG_FRAGMENT_EXHAUSTED, []))) (slots t1, Inr (JG_FRAGMENT_EXHAUSTED, []))"
    by (rule achieves_count[OF t1(2) refl refl refl])+
  let ?bad = "?n = 0 \<or> (more_fragments packet \<and> ?n mod 8 \<noteq> 0) \<or> ?off + ?n > SIZE_MAX"
  have ok1: "tracker_typed t1" by (rule tracker_ok_typed[OF t1(2)])
  have "achieves t1 (jg_fragment_tracker_add t packet now output_size)
      (spec_add ?l (expiration_deadline t) (slots t) packet now output_size)"
  proof (cases entry)
    case None
    note free' = free[OF None]
    let ?count = "length (filter (\<lambda>s. case slot_key s of None \<Rightarrow> False | Some k' \<Rightarrow> sources_equal k' k) (slots t1))"
    have run: "jg_fragment_tracker_add t packet now output_size =
      (if ?bad then Done (count_malformed t1, Inr (JG_FRAGMENT_MALFORMED, []))
       else if ?off + ?n > max_bytes_per_datagram ?l then Done (count_exhausted t1, Inr (JG_FRAGMENT_EXHAUSTED, []))
       else case first_index (\<lambda>s. s = Free) (slots t1) of None \<Rightarrow> Done (count_exhausted t1, Inr (JG_FRAGMENT_EXHAUSTED, []))
         | Some i \<Rightarrow> if ?count \<ge> max_datagrams_per_source ?l then Done (count_exhausted t1, Inr (JG_FRAGMENT_EXHAUSTED, []))
             else and_then (initialize_entry t1 i k now) (\<lambda>t. check_fragment t i packet (?off + ?n) now output_size))"
      unfolding jg_fragment_tracker_add_def if_not_P[OF accepted] key(1) t1(1) find None free' add_none and_then.simps
      by (cases "first_index (\<lambda>s. s = Free) (slots t1)") (simp_all add: source_entry_count_slots[OF ok1] t1(3) Let_def)
    have new: "achieves t1 (and_then (initialize_entry t1 i k now) (\<lambda>t. check_fragment t i packet (?off + ?n) now output_size))
      (spec_piece (max_fragments_per_datagram ?l) ?dl output_size (slots t1) i k [] (packet_piece packet))"
      if "first_index (\<lambda>s. s = Free) (slots t1) = Some i" "\<not> ?bad" "\<not> ?off + ?n > max_bytes_per_datagram ?l" for i
      using new_datagram_achieves[OF t1(2) _ _ packet _ refl, of i now output_size] first_index_Some[OF that(1)] that(2,3)
      by (simp add: t1(3) dl k_def)
    show ?thesis
      unfolding run spec_add_def Let_def t1(4)[symmetric] k_def[symmetric] entry_def[symmetric] None n pend
      using count new by (simp split: option.split)
  next
    case (Some i)
    note i = slot[OF Some]
    obtain e vs payload where r: "region t1 i = (e, vs, payload)" by (rule region_cases)
    have e: "byte_at (entries t1) i = Some e" using update_entry(1)[OF ok1 conjunct1[OF i]] r by simp
    have view: "slots t1 ! i = (if rejected e then Rejected k (expires_at e)
        else Collecting k (expires_at e) (map (piece_of payload) (take (fragment_count e) vs)))"
      using i r by (auto simp: slots_nth split: if_splits)
    have run: "jg_fragment_tracker_add t packet now output_size =
      (if rejected e then Done (count_overlap t1, Inr (JG_FRAGMENT_OVERLAP, []))
       else if ?bad then reject_with t1 i now count_malformed JG_FRAGMENT_MALFORMED
       else if ?off + ?n > max_bytes_per_datagram ?l then reject_with t1 i now count_exhausted JG_FRAGMENT_EXHAUSTED
       else check_fragment t1 i packet (?off + ?n) now output_size)"
      unfolding jg_fragment_tracker_add_def if_not_P[OF accepted] key(1) t1(1) find Some add_none and_then.simps
      by (simp add: e t1(3) Let_def)
    show ?thesis
    proof (cases "rejected e")
      case True
      then show ?thesis
        unfolding run spec_add_def Let_def t1(4)[symmetric] k_def[symmetric] entry_def[symmetric] Some n pend
        using count view by simp
    next
      case False
      note view' = view[unfolded if_not_P[OF False]]
      note rejects = reject_achieves[OF t1(2) conjunct1[OF i] conjunct2[OF i], of now, unfolded dl]
      note check = check_fragment_achieves[OF t1(2) conjunct1[OF i] view' _ _ refl, of packet now output_size, unfolded dl t1(3)]
      have "transport_offset packet + ?n \<le> frame_size packet" using packet by (simp add: fragment_packet_def)
      then show ?thesis
        unfolding run spec_add_def Let_def t1(4)[symmetric] k_def[symmetric] entry_def[symmetric] Some n pend
        using rejects check view' False by (simp add: not_less)
    qed
  qed
  with t1(3,5) show thesis by (rule that)
qed

end
