(* ===== verification/FragmentReassembly.thy ===== *)
theory FragmentReassembly
  imports FragmentSpec "HOL-Library.Multiset"
begin

text \<open>
  What the fragment tracker guarantees to the data plane: every call refines the specification of
  \<open>FragmentSpec\<close>, and the fragments of one datagram are put together whatever the order of their
  arrival. \<open>datagram\<close> says what the pieces of one datagram are.
\<close>

section \<open>The pieces of one datagram\<close>

definition datagram :: "piece list \<Rightarrow> bool" where
  "datagram parts \<longleftrightarrow> parts \<noteq> [] \<and> contiguous 0 parts \<and> (\<forall>p \<in> set parts. fst (snd p) \<noteq> [])
     \<and> (\<forall>p \<in> set (butlast parts). snd (snd p) \<and> length (fst (snd p)) mod 8 = 0) \<and> \<not> snd (snd (last parts))"

abbreviation bulk :: "piece list \<Rightarrow> nat" where
  "bulk ps \<equiv> sum_list (map (\<lambda>p. length (fst (snd p))) ps)"

lemma length_content: "length (content ps) = bulk ps"
  by (induction ps) (auto simp: content_def)

lemma contiguous_order:
  "contiguous c ps \<Longrightarrow> \<forall>p \<in> set ps. fst (snd p) \<noteq> [] \<Longrightarrow>
     sorted_wrt (\<lambda>p q. piece_end p \<le> fst q) ps \<and> (\<forall>p \<in> set ps. c \<le> fst p \<and> piece_end p \<le> c + bulk ps)"
  by (induction c ps rule: contiguous.induct) (fastforce split: prod.splits)+

lemma contiguous_end: "contiguous c ps \<Longrightarrow> ps \<noteq> [] \<Longrightarrow> piece_end (last ps) = c + bulk ps"
  by (induction c ps rule: contiguous.induct) (auto split: if_splits)

lemma datagram_order:
  assumes "datagram parts"
  shows "sorted_wrt (\<lambda>p q. fst p < fst q) parts" "distinct (map fst parts)" "\<forall>p \<in> set parts. piece_end p \<le> bulk parts"
    and "p \<in> set parts \<Longrightarrow> q \<in> set parts \<Longrightarrow> p \<noteq> q \<Longrightarrow> \<not> overlap p q"
    and "p \<in> set parts \<Longrightarrow> \<not> snd (snd p) \<Longrightarrow> piece_end p = bulk parts"
proof -
  have ne: "\<forall>p \<in> set parts. fst (snd p) \<noteq> []" and c: "contiguous 0 parts" and nonempty: "parts \<noteq> []"
    using assms by (auto simp: datagram_def)
  note order = contiguous_order[OF c ne]
  have less: "fst p < piece_end p" if "p \<in> set parts" for p using ne that by (cases p) auto
  show strict: "sorted_wrt (\<lambda>p q. fst p < fst q) parts"
    using conjunct1[OF order] by (rule sorted_wrt_mono_rel[rotated]) (use less less_le_trans in blast)
  then show "distinct (map fst parts)" by (metis sorted_wrt_map strict_sorted_iff)
  show "\<forall>p \<in> set parts. piece_end p \<le> bulk parts" using order by simp
  show "\<not> overlap p q" if "p \<in> set parts" "q \<in> set parts" "p \<noteq> q"
  proof -
    have "piece_end p \<le> fst q \<or> piece_end q \<le> fst p"
      using conjunct1[OF order] that by (auto simp: sorted_wrt_iff_nth_less in_set_conv_nth) (metis linorder_neqE_nat)
    then show ?thesis by (auto simp: overlap_def)
  qed
  show "piece_end p = bulk parts" if p: "p \<in> set parts" "\<not> snd (snd p)"
  proof -
    have "p \<notin> set (butlast parts)" using assms p by (auto simp: datagram_def)
    then have "p = last parts" using p(1) nonempty by (metis append_butlast_last_id in_set_conv_decomp not_in_set_insert rotate1.simps(2) set_ConsD set_rotate1)
    then show ?thesis using contiguous_end[OF c nonempty] by simp
  qed
qed

lemma last_end_pieces:
  assumes "datagram parts" "set ps \<subseteq> set parts"
  shows "last_end ps = (if \<exists>p \<in> set ps. \<not> snd (snd p) then Some (bulk parts) else None)"
proof (cases "filter (\<lambda>(_, _, m). \<not> m) ps")
  case Nil
  then show ?thesis by (auto simp: last_end_def filter_empty_conv)
next
  case (Cons q r)
  then have q: "q \<in> set ps" "\<not> snd (snd q)" by (auto simp: filter_eq_Cons_iff)
  then have "piece_end q = bulk parts" using datagram_order(5)[OF assms(1)] assms(2) by blast
  with Cons q show ?thesis by (auto simp: last_end_def)
qed

text \<open>Some of the pieces, in ascending order, and one more.\<close>

lemma some_pieces:
  assumes d: "datagram parts" and sub: "mset (p # qs) \<subseteq># mset parts"
  shows "\<not> conflicts qs p" "p \<notin> set qs" "\<not> (\<exists>q \<in> set qs. overlap p q)" "length qs < length parts"
    and "fst (snd p) \<noteq> []" "snd (snd p) \<Longrightarrow> length (fst (snd p)) mod 8 = 0" "piece_end p \<le> bulk parts"
proof -
  obtain rs where "mset rs = mset parts - mset (p # qs)" using ex_mset by blast
  with sub have m: "mset parts = mset (p # qs @ rs)" by (metis mset_append subset_mset.add_diff_inverse append_Cons)
  then have "set parts = set (p # qs @ rs)" by (rule mset_eq_setD)
  then have mem: "p \<in> set parts" "set qs \<subseteq> set parts" by auto
  have starts_before: "\<forall>p \<in> set parts. fst p < piece_end p" using d by (auto simp: datagram_def)
  have "distinct parts" using datagram_order(2)[OF d] by (simp add: distinct_map)
  with m have dist: "distinct (p # qs @ rs)" by (metis mset_eq_imp_distinct_iff)
  then show "p \<notin> set qs" by simp
  then show "\<not> (\<exists>q \<in> set qs. overlap p q)" using datagram_order(4)[OF d] mem by blast
  show "length qs < length parts" using size_mset_mono[OF sub] by simp
  show "fst (snd p) \<noteq> []" using d mem(1) by (auto simp: datagram_def)
  show top: "piece_end p \<le> bulk parts" using datagram_order(3)[OF d] mem(1) by blast
  have "snd (snd p)" if "q \<in> set qs" "\<not> snd (snd q)" for q
  proof (rule ccontr)
    assume "\<not> snd (snd p)"
    have "q \<in> set parts" using mem(2) that(1) by (rule subsetD)
    then have "piece_end p = piece_end q"
      using datagram_order(5)[OF d mem(1) \<open>\<not> snd (snd p)\<close>] datagram_order(5)[OF d _ that(2)] by simp
    moreover have "\<not> overlap p q" using datagram_order(4)[OF d] mem that(1) \<open>p \<notin> set qs\<close> by blast
    moreover have "fst p < piece_end p" "fst q < piece_end q" using starts_before mem that(1) by auto
    ultimately show False by (simp add: overlap_def)
  qed
  then have "last_end qs = None \<or> last_end qs = Some (bulk parts) \<and> snd (snd p)" using last_end_pieces[OF d mem(2)] by auto
  then show "\<not> conflicts qs p" using top by (cases p) auto
  show "length (fst (snd p)) mod 8 = 0" if "snd (snd p)"
  proof -
    have "p \<noteq> last parts" using d that by (auto simp: datagram_def)
    then have "p \<in> set (butlast parts)" using mem(1) by (metis append_butlast_last_id empty_iff in_set_butlast_appendI insert_iff list.set set_append Un_iff)
    then show ?thesis using d by (simp add: datagram_def)
  qed
qed

lemma some_pieces_reassembled:
  assumes d: "datagram parts" and sub: "mset ps \<subseteq># mset parts" and sorted: "sorted (map fst ps)"
  shows "reassembled ps = (if length ps = length parts then Some (content parts) else None)"
proof -
  obtain rs where "mset rs = mset parts - mset ps" using ex_mset by blast
  with sub have m: "mset parts = mset (ps @ rs)" by (metis mset_append subset_mset.add_diff_inverse)
  then have mem: "set parts = set ps \<union> set rs" "length parts = length ps + length rs"
    by (metis mset_eq_setD set_append, metis size_mset length_append)
  have bulk: "bulk parts = bulk ps + bulk rs"
    using m by (metis (no_types, lifting) map_append mset_map sum_list_append sum_mset_sum_list)
  have last: "last_end ps = (if \<exists>p \<in> set ps. \<not> snd (snd p) then Some (bulk parts) else None)"
    using mem by (intro last_end_pieces[OF d]) simp
  show ?thesis
  proof (cases "rs = []")
    case True
    have "sorted (map fst parts)" using datagram_order(1)[OF d] by (simp add: sorted_wrt_map) (erule sorted_wrt_mono_rel[rotated], simp)
    then have same: "ps = parts"
      using m True datagram_order(2)[OF d] sort_key_inj_key_eq[of parts ps fst] sort_key_inj_key_eq[of parts parts fst] sorted
      by (simp add: distinct_map)
    have "contiguous 0 parts" "last parts \<in> set parts" "\<not> snd (snd (last parts))" using d by (auto simp: datagram_def)
    then show ?thesis using same last by (auto simp: reassembled_def length_content)
  next
    case False
    then have "0 < bulk rs" using d mem(1) by (cases rs) (auto simp: datagram_def)
    then have "bulk parts \<noteq> bulk ps" using bulk by linarith
    then have "last_end ps \<noteq> Some (length (content ps))" using last by (simp add: length_content)
    then show ?thesis using False mem(2) by (simp add: reassembled_def)
  qed
qed

lemma spec_piece_accepts:
  assumes d: "datagram parts" "length parts \<le> max_pieces" "bulk parts \<le> output_size"
    and qs: "mset (p # qs) \<subseteq># mset parts" "sorted (map fst qs)"
  shows "spec_piece max_pieces deadline output_size ss i k qs p =
    (if length parts = Suc (length qs) then (ss[i := Free], Inr (JG_FRAGMENT_COMPLETE, content parts))
     else (ss[i := Collecting k deadline (insort_key fst p qs)], Inr (JG_FRAGMENT_STORED, [])))"
proof -
  have "reassembled (insort_key fst p qs) = (if Suc (length qs) = length parts then Some (content parts) else None)"
    using some_pieces_reassembled[OF d(1), of "insort_key fst p qs"] qs by (simp add: sorted_insort_key)
  with some_pieces(1-4)[OF d(1) qs(1)] d(2,3) show ?thesis by (simp add: spec_piece_def length_content)
qed

section \<open>Arrivals\<close>

text \<open>Packets that the tracker sees one after the other, each at its time.\<close>

fun spec_run ::
  "jg_fragment_limits \<Rightarrow> (u64 \<Rightarrow> u64) \<Rightarrow> slot list \<Rightarrow> (jg_packet_view \<times> u64) list \<Rightarrow> nat \<Rightarrow> (errno + jg_fragment_result \<times> bytes) list" where
  "spec_run l deadline ss [] n = []"
| "spec_run l deadline ss ((packet, now) # as) n =
     (let r = spec_add l deadline ss packet now n in snd r # spec_run l deadline (fst r) as n)"

fun add_all ::
  "jg_fragment_tracker \<Rightarrow> (jg_packet_view \<times> u64) list \<Rightarrow> nat \<Rightarrow> (errno, (errno + jg_fragment_result \<times> bytes) list) run" where
  "add_all t [] n = Done []"
| "add_all t ((packet, now) # as) n = and_then (jg_fragment_tracker_add t packet now n) (\<lambda>(t, r).
     and_then (add_all t as n) (\<lambda>rs. Done (r # rs)))"

text \<open>Every packet comes before the deadline that the previous one set.\<close>

fun in_time :: "(u64 \<Rightarrow> u64) \<Rightarrow> u64 \<Rightarrow> (jg_packet_view \<times> u64) list \<Rightarrow> bool" where
  "in_time deadline d [] = True"
| "in_time deadline d ((packet, now) # as) = (now < d \<and> in_time deadline (deadline now) as)"

abbreviation expired :: "u64 \<Rightarrow> slot list \<Rightarrow> slot list" where
  "expired now ss \<equiv> map (\<lambda>s. if slot_expired now s then Free else s) ss"

lemma spec_add_collecting:
  assumes "first_index (\<lambda>s. slot_key s = Some (packet_key packet)) ss = Some i" "ss ! i = Collecting (packet_key packet) d qs" "now < d"
    and "fst (snd (packet_piece packet)) \<noteq> []" "more_fragments packet \<Longrightarrow> length (fst (snd (packet_piece packet))) mod 8 = 0"
    and "piece_end (packet_piece packet) \<le> max_bytes_per_datagram l" "max_bytes_per_datagram l \<le> SIZE_MAX"
  shows "spec_add l deadline ss packet now n = spec_piece (max_fragments_per_datagram l) (deadline now) n (expired now ss) i (packet_key packet) qs (packet_piece packet)"
    and "first_index (\<lambda>s. slot_key s = Some (packet_key packet)) (expired now ss) = Some i"
proof -
  have i: "i < length ss" "\<forall>j < i. slot_key (ss ! j) \<noteq> Some (packet_key packet)" using assms(1) by (auto simp: first_index_Some_iff)
  then have kept: "expired now ss ! i = Collecting (packet_key packet) d qs" using assms(2,3) by simp
  have before: "slot_key (expired now ss ! j) \<noteq> Some (packet_key packet)" if "j < i" for j using i that by auto
  show entry: "first_index (\<lambda>s. slot_key s = Some (packet_key packet)) (expired now ss) = Some i"
    unfolding first_index_Some_iff using i(1) kept before by simp
  show "spec_add l deadline ss packet now n = spec_piece (max_fragments_per_datagram l) (deadline now) n (expired now ss) i (packet_key packet) qs (packet_piece packet)"
    using assms(4-7) unfolding spec_add_def Let_def entry by (auto simp: packet_piece_def kept simp del: length_slice)
qed

definition room :: "jg_fragment_limits \<Rightarrow> slot list \<Rightarrow> fragment_key \<Rightarrow> u64 \<Rightarrow> bool" where
  "room l ss k now \<longleftrightarrow> (\<forall>s \<in> set (expired now ss). slot_key s \<noteq> Some k) \<and> Free \<in> set (expired now ss)
     \<and> length (filter (\<lambda>s. case slot_key s of None \<Rightarrow> False | Some k' \<Rightarrow> sources_equal k' k) (expired now ss)) < max_datagrams_per_source l"

lemma spec_add_fresh:
  assumes "room l ss (packet_key packet) now"
    and "fst (snd (packet_piece packet)) \<noteq> []" "more_fragments packet \<Longrightarrow> length (fst (snd (packet_piece packet))) mod 8 = 0"
    and "piece_end (packet_piece packet) \<le> max_bytes_per_datagram l" "max_bytes_per_datagram l \<le> SIZE_MAX"
  obtains i where "i < length ss" "\<forall>s \<in> set (expired now ss). slot_key s \<noteq> Some (packet_key packet)"
    "spec_add l deadline ss packet now n = spec_piece (max_fragments_per_datagram l) (deadline now) n (expired now ss) i (packet_key packet) [] (packet_piece packet)"
proof -
  have none: "first_index (\<lambda>s. slot_key s = Some (packet_key packet)) (expired now ss) = None"
    using assms(1) by (auto simp: first_index_None_iff room_def)
  obtain i where free: "first_index (\<lambda>s. s = Free) (expired now ss) = Some i"
    using assms(1) first_index_None_iff[of "\<lambda>s. s = Free" "expired now ss"] unfolding room_def by (metis not_Some_eq)
  have "spec_add l deadline ss packet now n = spec_piece (max_fragments_per_datagram l) (deadline now) n (expired now ss) i (packet_key packet) [] (packet_piece packet)"
    using assms unfolding spec_add_def Let_def none free by (auto simp: packet_piece_def room_def simp del: length_slice)
  moreover have "i < length ss" using free by (simp add: first_index_Some_iff)
  moreover have "\<forall>s \<in> set (expired now ss). slot_key s \<noteq> Some (packet_key packet)" using assms(1) unfolding room_def by blast
  ultimately show thesis by (intro that)
qed

section \<open>Any order\<close>

definition completes :: "nat \<Rightarrow> bytes \<Rightarrow> (errno + jg_fragment_result \<times> bytes) list" where
  "completes n payload = replicate n (Inr (JG_FRAGMENT_STORED, [])) @ [Inr (JG_FRAGMENT_COMPLETE, payload)]"

lemma completes_Cons: "n \<noteq> 0 \<Longrightarrow> Inr (JG_FRAGMENT_STORED, []) # completes (n - Suc 0) c = completes n c"
  by (cases n) (simp_all add: completes_def)

lemma spec_run_collecting:
  assumes "datagram parts" "length parts \<le> max_fragments_per_datagram l" "bulk parts \<le> n"
    and "bulk parts \<le> max_bytes_per_datagram l" "max_bytes_per_datagram l \<le> SIZE_MAX"
    and "mset parts = mset (qs @ map (\<lambda>a. packet_piece (fst a)) as)" "sorted (map fst qs)" "as \<noteq> []"
    and "\<forall>a \<in> set as. packet_key (fst a) = k"
    and "first_index (\<lambda>s. slot_key s = Some k) ss = Some i" "ss ! i = Collecting k d qs" "in_time deadline d as"
  shows "spec_run l deadline ss as n = completes (length as - 1) (content parts)"
  using assms(6-)
proof (induction "as" arbitrary: ss qs d)
  case (Cons a as)
  obtain packet now where a: "a = (packet, now)" by (cases a)
  let ?p = "packet_piece packet"
  have k: "packet_key packet = k" using Cons.prems(4) a by simp
  have sub: "mset (?p # qs) \<subseteq># mset parts" using Cons.prems(1) a by simp
  have size: "length parts = Suc (length qs + length as)" using Cons.prems(1) by (metis add_Suc_right length_Cons length_append length_map size_mset)
  note p = some_pieces[OF assms(1) sub]
  have more: "more_fragments packet \<Longrightarrow> length (fst (snd ?p)) mod 8 = 0" using p(6) by (simp add: packet_piece_def)
  have now: "now < d" using Cons.prems(7) a by simp
  note collect = spec_add_collecting[OF _ _ now p(5) more order_trans[OF p(7) assms(4)] assms(5), unfolded k, OF Cons.prems(5,6)]
  note step = trans[OF collect(1) spec_piece_accepts[OF assms(1-3) sub Cons.prems(2)]]
  show ?case
  proof (cases "as = []")
    case True
    then show ?thesis using step size by (simp add: a completes_def)
  next
    case False
    let ?ss = "(expired now ss)[i := Collecting k (deadline now) (insort_key fst ?p qs)]"
    have "i < length ss" using Cons.prems(5) by (simp add: first_index_Some_iff)
    then have "first_index (\<lambda>s. slot_key s = Some k) ?ss = Some i" "?ss ! i = Collecting k (deadline now) (insort_key fst ?p qs)"
      using collect(2) by (auto simp: first_index_Some_iff)
    moreover have "mset parts = mset (insort_key fst ?p qs @ map (\<lambda>a. packet_piece (fst a)) as)" using Cons.prems(1) a by simp
    ultimately have "spec_run l deadline ?ss as n = completes (length as - 1) (content parts)"
      using Cons.prems(2,4,7) False a by (intro Cons.IH) (auto simp: sorted_insort_key)
    then show ?thesis using step size False by (simp add: a completes_Cons)
  qed
qed simp

lemma spec_run_fresh:
  assumes "datagram parts" "length parts \<le> max_fragments_per_datagram l" "bulk parts \<le> n"
    and "bulk parts \<le> max_bytes_per_datagram l" "max_bytes_per_datagram l \<le> SIZE_MAX"
    and "mset parts = mset (map (\<lambda>a. packet_piece (fst a)) ((packet, now) # as))" "\<forall>a \<in> set ((packet, now) # as). packet_key (fst a) = k"
    and "room l ss k now" "in_time deadline (deadline now) as"
  shows "spec_run l deadline ss ((packet, now) # as) n = completes (length as) (content parts)"
proof -
  let ?p = "packet_piece packet"
  have k: "packet_key packet = k" using assms(7) by simp
  have sub: "mset [?p] \<subseteq># mset parts" using assms(6) by simp
  have size: "length parts = Suc (length as)" using assms(6) by (metis length_Cons length_map size_mset)
  note p = some_pieces[OF assms(1) sub]
  have more: "more_fragments packet \<Longrightarrow> length (fst (snd ?p)) mod 8 = 0" using p(6) by (simp add: packet_piece_def)
  obtain i where i: "i < length ss" "\<forall>s \<in> set (expired now ss). slot_key s \<noteq> Some k"
    "spec_add l deadline ss packet now n = spec_piece (max_fragments_per_datagram l) (deadline now) n (expired now ss) i k [] ?p"
    using spec_add_fresh[OF _ p(5) more order_trans[OF p(7) assms(4)] assms(5), unfolded k, OF assms(8)] by blast
  have "sorted (map fst ([] :: piece list))" by simp
  note step = trans[OF i(3) spec_piece_accepts[OF assms(1-3) sub this]]
  show ?thesis
  proof (cases "as = []")
    case True
    then show ?thesis using step size by (simp add: completes_def)
  next
    case False
    let ?ss = "(expired now ss)[i := Collecting k (deadline now) [?p]]"
    have "slot_key (?ss ! j) \<noteq> Some k" if "j < i" for j
      using i(1,2) that nth_mem[of j "expired now ss"] by simp
    then have "first_index (\<lambda>s. slot_key s = Some k) ?ss = Some i" "?ss ! i = Collecting k (deadline now) [?p]"
      using i(1) by (simp_all add: first_index_Some_iff)
    note fresh = this
    have "mset parts = mset ([?p] @ map (\<lambda>a. packet_piece (fst a)) as)" "sorted (map fst [?p])" "\<forall>a \<in> set as. packet_key (fst a) = k"
      using assms(6,7) by simp_all
    note pieces = this
    have "spec_run l deadline ?ss as n = completes (length as - 1) (content parts)"
      by (rule spec_run_collecting[OF assms(1-5) pieces(1,2) False pieces(3) fresh assms(9)])
    then show ?thesis using step size False by (simp add: completes_Cons)
  qed
qed

section \<open>Trackers\<close>

lemma tracker_limits_ok:
  assumes "tracker_ok t"
  shows "max_bytes_per_datagram (tracker_limits t) \<le> SIZE_MAX"
  using assms by (auto simp: tracker_ok_def tracker_typed_def jg_fragment_limits_validate_def JG_FRAGMENT_BYTES_LIMIT_def SIZE_MAX_def split: if_splits)

abbreviation packet_sized :: "jg_packet_view \<Rightarrow> bool" where
  "packet_sized p \<equiv> transport_size p \<le> SIZE_MAX \<and> fragment_offset p \<le> SIZE_MAX"

lemma tracker_add_refines:
  assumes "tracker_ok t" "fragment_packet packet" "packet_sized packet"
    and "spec = spec_add (tracker_limits t) (expiration_deadline t) (slots t) packet now output_size"
  shows "\<exists>t'. jg_fragment_tracker_add t packet now output_size = Done (t', snd spec) \<and> tracker_ok t'
    \<and> tracker_limits t' = tracker_limits t \<and> slots t' = fst spec
    \<and> stats t' = counted (snd spec) ((stats t)\<lparr>timeouts := timeouts (stats t) + of_nat (length (filter (lapsed now) (slots t)))\<rparr>)"
proof -
  obtain t1 where t1: "tracker_limits t1 = tracker_limits t"
    "stats t1 = (stats t)\<lparr>timeouts := timeouts (stats t) + of_nat (length (filter (lapsed now) (slots t)))\<rparr>"
    "achieves t1 (jg_fragment_tracker_add t packet now output_size) spec"
    using tracker_add_achieves[OF assms(1,2) conjunct1[OF assms(3)] conjunct2[OF assms(3)]] unfolding assms(4) by blast
  then show ?thesis by (simp add: achieves_def)
qed

lemma add_all_refines:
  assumes "tracker_ok t" "\<forall>a \<in> set as. fragment_packet (fst a) \<and> packet_sized (fst a)"
  shows "add_all t as n = Done (spec_run (tracker_limits t) (expiration_deadline t) (slots t) as n)"
  using assms
proof (induction "as" arbitrary: t)
  case (Cons a as)
  obtain packet now where a: "a = (packet, now)" by (cases a)
  let ?spec = "spec_add (tracker_limits t) (expiration_deadline t) (slots t) packet now n"
  obtain t' where t': "jg_fragment_tracker_add t packet now n = Done (t', snd ?spec)" "tracker_ok t'"
    "tracker_limits t' = tracker_limits t" "slots t' = fst ?spec"
    using tracker_add_refines[OF Cons.prems(1) _ _ refl] Cons.prems(2) a by fastforce
  have "expiration_deadline t' = expiration_deadline t" using t'(3) by (simp add: expiration_deadline_def fun_eq_iff)
  then show ?case using Cons.IH[OF t'(2)] Cons.prems(2) t' by (simp add: a Let_def)
qed simp

lemma created_tracker:
  assumes "jg_fragment_tracker_create calloc malloc limits = Inr t" "\<And>n b. malloc n = Some b \<Longrightarrow> length b = n"
  shows "tracker_ok t" "slots t = replicate (max_datagrams (tracker_limits t)) Free" "stats t = initialize_stats"
    and "tracker_limits t = (case limits of None \<Rightarrow> jg_fragment_limits_default | Some l \<Rightarrow> l)"
proof -
  define l where "l = (case limits of None \<Rightarrow> jg_fragment_limits_default | Some l \<Rightarrow> l)"
  obtain block where v: "jg_fragment_limits_validate l = Inr ()" and b: "length block = max_datagrams l * max_bytes_per_datagram l"
    and t: "t = \<lparr>tracker_limits = l, entries = replicate (max_datagrams l) cleared_entry,
        intervals = replicate (max_datagrams l * max_fragments_per_datagram l) cleared_interval, payloads = block, stats = initialize_stats\<rparr>"
    using assms unfolding jg_fragment_tracker_create_def Let_def l_def[symmetric]
    by (auto simp: jg_size_multiply_def split: sum.splits option.splits if_splits)
  have typed: "tracker_typed t" using v b by (simp add: tracker_typed_def t)
  have entry: "fst (region t i) = cleared_entry" if "i < max_datagrams l" for i using that by (simp add: region_def t)
  have "region_ok l (region t i) \<and> slot_view (region t i) = Free" if "i < max_datagrams l" for i
    using entry[OF that] by (cases "region t i") (simp add: cleared_entry_def)
  then show "tracker_ok t" "slots t = replicate (max_datagrams (tracker_limits t)) Free"
    using typed by (auto simp: tracker_ok_def t intro!: nth_equalityI simp: slots_nth)
  show "stats t = initialize_stats" "tracker_limits t = (case limits of None \<Rightarrow> jg_fragment_limits_default | Some l \<Rightarrow> l)"
    by (simp_all add: t l_def)
qed

section \<open>Properties\<close>

text \<open>
  C20. Refinement. On a tracker that satisfies the invariant, \<open>jg_fragment_tracker_add\<close> with a packet that it
  accepts terminates without leaving an arena, returns the outcome of the specification \<open>spec_add\<close> on the
  slots of the tracker (stored, duplicate, complete with the reassembled payload, malformed, overlap,
  exhausted, or \<open>ENOSPC\<close>), changes the slots as the specification does, keeps the invariant and counts the
  outcome and the datagrams that timed out. A tracker that was just created satisfies the invariant and has
  only free slots.
\<close>

theorem jg_fragment_tracker_add_refines:
  assumes "tracker_ok t \<or> jg_fragment_tracker_create calloc malloc limits = Inr t \<and> (\<forall>n b. malloc n = Some b \<longrightarrow> length b = n)"
    and "fragment_packet packet" "transport_size packet \<le> SIZE_MAX" "fragment_offset packet \<le> SIZE_MAX"
  shows "\<exists>t'. let (slots', outcome) = spec_add (tracker_limits t) (expiration_deadline t) (slots t) packet now output_size in
      jg_fragment_tracker_add t packet now output_size = Done (t', outcome)
      \<and> tracker_ok t' \<and> tracker_limits t' = tracker_limits t \<and> slots t' = slots'
      \<and> jg_fragment_tracker_get_stats t' = counted outcome ((stats t)\<lparr>timeouts := timeouts (stats t)
          + of_nat (length (filter (lapsed now) (slots t)))\<rparr>)"
proof -
  have "tracker_ok t" using assms(1) created_tracker(1)[of calloc malloc limits t] by blast
  then show ?thesis
    using tracker_add_refines[OF _ assms(2) conjI[OF assms(3,4)] refl, of t now output_size]
    by (auto simp: jg_fragment_tracker_get_stats_def split: prod.split)
qed

definition example_limits :: jg_fragment_limits where
  "example_limits = \<lparr>max_datagrams = 1, max_fragments_per_datagram = 2, max_bytes_per_datagram = 16,
     max_datagrams_per_source = 1, timeout_ms = 10\<rparr>"

definition example_tracker :: jg_fragment_tracker where
  "example_tracker = \<lparr>tracker_limits = example_limits, entries = [cleared_entry],
     intervals = replicate 2 cleared_interval, payloads = replicate 16 0, stats = initialize_stats\<rparr>"

definition example_fragment :: "nat \<Rightarrow> bytes \<Rightarrow> bool \<Rightarrow> jg_packet_view" where
  "example_fragment off data behind = cleared_view\<lparr>frame := data, ip_version := JG_IP_V4, address_size := 4,
     fragmented := True, fragment_offset := off, more_fragments := behind, transport_size := length data\<rparr>"

lemma example_created:
  "jg_fragment_tracker_create (\<lambda>n s. True) (\<lambda>n. Some (replicate n 0)) (Some example_limits) = Inr example_tracker"
  by (simp add: jg_fragment_tracker_create_def example_limits_def example_tracker_def jg_fragment_limits_validate_def
      jg_size_multiply_def SIZE_MAX_def JG_FRAGMENT_DATAGRAM_LIMIT_def JG_FRAGMENT_PER_DATAGRAM_LIMIT_def
      JG_FRAGMENT_BYTES_LIMIT_def JG_FRAGMENT_TIMEOUT_MAX_def)

lemma example_slots: "tracker_ok example_tracker" "slots example_tracker = [Free]" "tracker_limits example_tracker = example_limits"
  using created_tracker[OF example_created] by (simp_all add: example_tracker_def example_limits_def)

lemma example_deadline: "expiration_deadline example_tracker = (\<lambda>now. if now > - 11 then - 1 else now + 10)"
  by (simp add: expiration_deadline_def example_tracker_def example_limits_def fun_eq_iff)

lemma example_fragment_ok: "length data \<le> 16 \<Longrightarrow> off \<le> 16 \<Longrightarrow> fragment_packet (example_fragment off data behind) \<and> packet_sized (example_fragment off data behind)"
  by (simp add: fragment_packet_def example_fragment_def cleared_view_def SIZE_MAX_def)

theorem jg_fragment_tracker_add_refines_witness:
  "\<exists>t'. jg_fragment_tracker_add example_tracker (example_fragment 0 [7, 8, 9] False) 5 16 = Done (t', Inr (JG_FRAGMENT_COMPLETE, [7, 8, 9]))
     \<and> tracker_ok t' \<and> slots t' = [Free] \<and> completed (stats t') = 1"
proof -
  let ?p = "example_fragment 0 [7, 8, 9] False"
  have "spec_add (tracker_limits example_tracker) (expiration_deadline example_tracker) (slots example_tracker) ?p 5 16
      = ([Free], Inr (JG_FRAGMENT_COMPLETE, [7, 8, 9]))"
    unfolding example_slots example_deadline
    by (simp add: spec_add_def spec_piece_def packet_piece_def example_fragment_def cleared_view_def slice_def SIZE_MAX_def
        example_limits_def first_index_def last_end_def reassembled_def content_def)
  then show ?thesis
    using jg_fragment_tracker_add_refines[of example_tracker "\<lambda>n s. True" "\<lambda>n. Some (replicate n 0)" "Some example_limits" ?p 5 16]
      example_created example_fragment_ok[of "[7, 8, 9]" 0 False] example_slots(2)
    by (auto simp: jg_fragment_tracker_get_stats_def example_tracker_def initialize_stats_def)
qed

text \<open>
  C21. Liveness. The fragments of one datagram are put together whatever the order in which they arrive:
  when the datagram respects the limits of the tracker and of the output, there is room for it when the
  first fragment comes, and every fragment comes before the deadline that the previous one set, then all
  fragments but the last one to arrive are stored and the last one completes the datagram with exactly
  its content.
\<close>

theorem fragments_reassembled_in_any_order:
  assumes "tracker_ok t" "datagram parts" "mset (map (\<lambda>a. packet_piece (fst a)) ((packet, now) # later)) = mset parts"
    and "\<forall>p \<in> set (map fst ((packet, now) # later)). fragment_packet p \<and> transport_size p \<le> SIZE_MAX \<and> fragment_offset p \<le> SIZE_MAX
      \<and> packet_key p = packet_key packet"
    and "length parts \<le> max_fragments_per_datagram (tracker_limits t)"
    and "length (content parts) \<le> max_bytes_per_datagram (tracker_limits t)" "length (content parts) \<le> output_size"
    and "room (tracker_limits t) (slots t) (packet_key packet) now"
    and "in_time (expiration_deadline t) (expiration_deadline t now) later"
  shows "add_all t ((packet, now) # later) output_size
    = Done (replicate (length later) (Inr (JG_FRAGMENT_STORED, [])) @ [Inr (JG_FRAGMENT_COMPLETE, content parts)])"
proof -
  have "add_all t ((packet, now) # later) output_size
      = Done (spec_run (tracker_limits t) (expiration_deadline t) (slots t) ((packet, now) # later) output_size)"
    using assms(4) by (intro add_all_refines[OF assms(1)]) auto
  also have "spec_run (tracker_limits t) (expiration_deadline t) (slots t) ((packet, now) # later) output_size
      = completes (length later) (content parts)"
    using assms(2-) tracker_limits_ok[OF assms(1)]
    by (intro spec_run_fresh[where k = "packet_key packet"]) (auto simp: length_content)
  finally show ?thesis by (simp add: completes_def)
qed

theorem fragments_reassembled_in_any_order_witness:
  "add_all example_tracker [(example_fragment 8 [9] False, 5), (example_fragment 0 [1, 2, 3, 4, 5, 6, 7, 8] True, 14)] 16
     = Done [Inr (JG_FRAGMENT_STORED, []), Inr (JG_FRAGMENT_COMPLETE, [1, 2, 3, 4, 5, 6, 7, 8, 9])]"
  using fragments_reassembled_in_any_order[of example_tracker "[(0, [1, 2, 3, 4, 5, 6, 7, 8], True), (8, [9], False)]"
      "example_fragment 8 [9] False" 5 "[(example_fragment 0 [1, 2, 3, 4, 5, 6, 7, 8] True, 14)]" 16]
    example_slots example_fragment_ok[of "[9]" 8 False] example_fragment_ok[of "[1, 2, 3, 4, 5, 6, 7, 8]" 0 True]
  by (simp add: example_deadline datagram_def content_def room_def example_limits_def packet_piece_def packet_key_def
      example_fragment_def cleared_view_def slice_def)

end
