(* ===== verification/TcpStream.thy ===== *)
theory TcpStream
  imports TcpReset DnsResponse
begin

text \<open>
  \<^verbatim>\<open>src/daemon/tcp_stream.c\<close>: the bounded reassembly of client-to-server TCP streams. The arenas are
  flat lists: \<open>flows\<close> (the \<open>entries\<close> of the C code), \<open>buffers\<close> and \<open>present\<close> (\<open>max_buffered_bytes\<close> for each
  flow). \<open>flow_buffer\<close> and \<open>flow_presence\<close> are the slices of one flow; an operation on a slice loads it,
  works on it and stores it back. An access outside an arena or a slice is a fault; \<open>SIZE_MAX\<close> as the
  index of no flow is \<open>None\<close>. Allocation is a parameter.
\<close>

section \<open>Data\<close>

record jg_tcp_stream_limits =
  max_flows :: nat
  max_flows_per_source :: nat
  max_buffered_bytes :: nat
  max_out_of_order_segments :: nat
  max_dns_message_size :: nat
  max_messages_per_packet :: nat
  idle_timeout_ms :: u64
  connection_timeout_ms :: u64

record jg_tcp_stream_message =
  message_offset :: nat
  message_size :: nat

datatype jg_tcp_raw_stream_result =
    JG_TCP_RAW_STREAM_BYTES | JG_TCP_RAW_STREAM_BUFFERED | JG_TCP_RAW_STREAM_DUPLICATE
  | JG_TCP_RAW_STREAM_CLOSED | JG_TCP_RAW_STREAM_CONFLICT | JG_TCP_RAW_STREAM_EXHAUSTED

record jg_tcp_raw_stream_chunk =
  chunk_flow_index :: "nat option"
  chunk_size :: nat
  chunk_new_flow :: bool
  chunk_closed :: bool

datatype jg_tcp_stream_result =
    JG_TCP_STREAM_BUFFERED | JG_TCP_STREAM_DUPLICATE | JG_TCP_STREAM_MESSAGES | JG_TCP_STREAM_CLOSED
  | JG_TCP_STREAM_MALFORMED | JG_TCP_STREAM_CONFLICT | JG_TCP_STREAM_EXHAUSTED

record jg_tcp_stream_stats =
  stat_buffered :: u64
  stat_duplicates :: u64
  stat_messages :: u64
  stat_closed :: u64
  stat_malformed :: u64
  stat_conflicts :: u64
  stat_exhausted :: u64
  stat_timeouts :: u64

record stream_key =
  stream_source :: bytes
  stream_destination :: bytes
  stream_vlan_tci :: "u16 list"
  stream_source_port :: u16
  stream_destination_port :: u16
  stream_address_size :: nat
  stream_vlan_count :: nat
  stream_ip_version :: jg_ip_version

record stream_entry =
  flow_key :: stream_key
  idle_deadline :: u64
  connection_deadline :: u64
  base_sequence :: u32
  flow_rejected :: bool
  flow_active :: bool

record jg_tcp_stream_tracker =
  stream_limits :: jg_tcp_stream_limits
  flows :: "stream_entry list"
  buffers :: bytes
  present :: bytes
  stream_stats :: jg_tcp_stream_stats

definition JG_TCP_STREAM_FLOW_LIMIT :: nat where "JG_TCP_STREAM_FLOW_LIMIT = 1024"
definition JG_TCP_STREAM_BYTES_LIMIT :: nat where "JG_TCP_STREAM_BYTES_LIMIT = 262144"
definition JG_TCP_STREAM_SEGMENT_LIMIT :: nat where "JG_TCP_STREAM_SEGMENT_LIMIT = 128"
definition JG_TCP_STREAM_DNS_LIMIT :: nat where "JG_TCP_STREAM_DNS_LIMIT = 65535"
definition JG_TCP_STREAM_MESSAGE_LIMIT :: nat where "JG_TCP_STREAM_MESSAGE_LIMIT = 128"
definition JG_TCP_STREAM_TIMEOUT_LIMIT :: u64 where "JG_TCP_STREAM_TIMEOUT_LIMIT = 86400000"

text \<open>Zeroed structures.\<close>

definition cleared_stream_key :: stream_key where
  "cleared_stream_key = \<lparr>stream_source = replicate 16 0, stream_destination = replicate 16 0, stream_vlan_tci = replicate 8 0,
     stream_source_port = 0, stream_destination_port = 0, stream_address_size = 0, stream_vlan_count = 0,
     stream_ip_version = JG_IP_NONE\<rparr>"

definition cleared_flow :: stream_entry where
  "cleared_flow = \<lparr>flow_key = cleared_stream_key, idle_deadline = 0, connection_deadline = 0, base_sequence = 0,
     flow_rejected = False, flow_active = False\<rparr>"

definition no_chunk :: jg_tcp_raw_stream_chunk where
  "no_chunk = \<lparr>chunk_flow_index = None, chunk_size = 0, chunk_new_flow = False, chunk_closed = False\<rparr>"

definition initialize_stats :: jg_tcp_stream_stats where
  "initialize_stats = \<lparr>stat_buffered = 0, stat_duplicates = 0, stat_messages = 0, stat_closed = 0, stat_malformed = 0,
     stat_conflicts = 0, stat_exhausted = 0, stat_timeouts = 0\<rparr>"

section \<open>Counters\<close>

abbreviation counting :: "(jg_tcp_stream_stats \<Rightarrow> jg_tcp_stream_stats) \<Rightarrow> jg_tcp_stream_tracker \<Rightarrow> jg_tcp_stream_tracker" where
  "counting c t \<equiv> t\<lparr>stream_stats := c (stream_stats t)\<rparr>"

definition inc_buffered :: "jg_tcp_stream_stats \<Rightarrow> jg_tcp_stream_stats" where
  "inc_buffered s = s\<lparr>stat_buffered := stat_buffered s + 1\<rparr>"

definition inc_duplicates :: "jg_tcp_stream_stats \<Rightarrow> jg_tcp_stream_stats" where
  "inc_duplicates s = s\<lparr>stat_duplicates := stat_duplicates s + 1\<rparr>"

definition add_messages :: "nat \<Rightarrow> jg_tcp_stream_stats \<Rightarrow> jg_tcp_stream_stats" where
  "add_messages n s = s\<lparr>stat_messages := stat_messages s + of_nat n\<rparr>"

definition inc_closed :: "jg_tcp_stream_stats \<Rightarrow> jg_tcp_stream_stats" where
  "inc_closed s = s\<lparr>stat_closed := stat_closed s + 1\<rparr>"

definition inc_malformed :: "jg_tcp_stream_stats \<Rightarrow> jg_tcp_stream_stats" where
  "inc_malformed s = s\<lparr>stat_malformed := stat_malformed s + 1\<rparr>"

definition inc_conflicts :: "jg_tcp_stream_stats \<Rightarrow> jg_tcp_stream_stats" where
  "inc_conflicts s = s\<lparr>stat_conflicts := stat_conflicts s + 1\<rparr>"

definition inc_exhausted :: "jg_tcp_stream_stats \<Rightarrow> jg_tcp_stream_stats" where
  "inc_exhausted s = s\<lparr>stat_exhausted := stat_exhausted s + 1\<rparr>"

definition inc_timeouts :: "jg_tcp_stream_stats \<Rightarrow> jg_tcp_stream_stats" where
  "inc_timeouts s = s\<lparr>stat_timeouts := stat_timeouts s + 1\<rparr>"

section \<open>Flows\<close>

type_synonym tracked = "(errno, jg_tcp_stream_tracker) run"

abbreviation flow_base :: "jg_tcp_stream_tracker \<Rightarrow> nat \<Rightarrow> nat" where
  "flow_base t i \<equiv> i * max_buffered_bytes (stream_limits t)"

definition flow_buffer :: "jg_tcp_stream_tracker \<Rightarrow> nat \<Rightarrow> (errno, bytes) run" where
  "flow_buffer t i = raw (bytes_at (buffers t) (flow_base t i) (max_buffered_bytes (stream_limits t)))"

definition flow_presence :: "jg_tcp_stream_tracker \<Rightarrow> nat \<Rightarrow> (errno, bytes) run" where
  "flow_presence t i = raw (bytes_at (present t) (flow_base t i) (max_buffered_bytes (stream_limits t)))"

definition store_buffer :: "jg_tcp_stream_tracker \<Rightarrow> nat \<Rightarrow> bytes \<Rightarrow> tracked" where
  "store_buffer t i buffer = and_then (raw (store_at (buffers t) (flow_base t i) buffer)) (\<lambda>bs. Done (t\<lparr>buffers := bs\<rparr>))"

definition store_presence :: "jg_tcp_stream_tracker \<Rightarrow> nat \<Rightarrow> bytes \<Rightarrow> tracked" where
  "store_presence t i presence = and_then (raw (store_at (present t) (flow_base t i) presence)) (\<lambda>ps. Done (t\<lparr>present := ps\<rparr>))"

definition load_flow :: "jg_tcp_stream_tracker \<Rightarrow> nat \<Rightarrow> (errno, stream_entry) run" where
  "load_flow t i = raw (byte_at (flows t) i)"

definition store_flow :: "jg_tcp_stream_tracker \<Rightarrow> nat \<Rightarrow> stream_entry \<Rightarrow> tracked" where
  "store_flow t i e = and_then (raw (store_at (flows t) i [e])) (\<lambda>es. Done (t\<lparr>flows := es\<rparr>))"

definition clear_flow :: "jg_tcp_stream_tracker \<Rightarrow> nat \<Rightarrow> tracked" where
  "clear_flow t i =
     and_then (store_presence t i (replicate (max_buffered_bytes (stream_limits t)) 0)) (\<lambda>t. store_flow t i cleared_flow)"

definition build_key :: "jg_packet_view \<Rightarrow> (errno, stream_key) run" where
  "build_key packet =
     and_then (raw (bytes_at (source_address packet) 0 (address_size packet))) (\<lambda>s.
     and_then (raw (store_at (stream_source cleared_stream_key) 0 s)) (\<lambda>source.
     and_then (raw (bytes_at (destination_address packet) 0 (address_size packet))) (\<lambda>d.
     and_then (raw (store_at (stream_destination cleared_stream_key) 0 d)) (\<lambda>destination.
     and_then (raw (store_at (stream_vlan_tci cleared_stream_key) 0 (map (\<lambda>tci. tci AND 0x0FFF) (vlan_tci packet)))) (\<lambda>vlans.
       Done \<lparr>stream_source = source, stream_destination = destination, stream_vlan_tci = vlans,
             stream_source_port = source_port packet, stream_destination_port = destination_port packet,
             stream_address_size = address_size packet, stream_vlan_count = vlan_count packet,
             stream_ip_version = ip_version packet\<rparr>)))))"

definition keys_equal :: "stream_key \<Rightarrow> stream_key \<Rightarrow> bool" where
  "keys_equal left right \<longleftrightarrow>
     stream_source_port left = stream_source_port right \<and> stream_destination_port left = stream_destination_port right
     \<and> stream_address_size left = stream_address_size right \<and> stream_vlan_count left = stream_vlan_count right
     \<and> stream_ip_version left = stream_ip_version right
     \<and> take (stream_address_size left) (stream_source left) = take (stream_address_size left) (stream_source right)
     \<and> take (stream_address_size left) (stream_destination left) = take (stream_address_size left) (stream_destination right)
     \<and> take (stream_vlan_count left) (stream_vlan_tci left) = take (stream_vlan_count left) (stream_vlan_tci right)"

definition sources_equal :: "stream_key \<Rightarrow> stream_key \<Rightarrow> bool" where
  "sources_equal left right \<longleftrightarrow>
     stream_ip_version left = stream_ip_version right \<and> stream_address_size left = stream_address_size right
     \<and> take (stream_address_size left) (stream_source left) = take (stream_address_size left) (stream_source right)"

definition deadline :: "u64 \<Rightarrow> u64 \<Rightarrow> u64" where
  "deadline now_ms duration_ms = (if now_ms > - 1 - duration_ms then - 1 else now_ms + duration_ms)"

fun expire_loop :: "u64 \<Rightarrow> nat list \<Rightarrow> jg_tcp_stream_tracker \<Rightarrow> tracked" where
  "expire_loop now_ms [] t = Done t"
| "expire_loop now_ms (i # is) t =
     and_then (load_flow t i) (\<lambda>e.
       if flow_active e \<and> (idle_deadline e \<le> now_ms \<or> connection_deadline e \<le> now_ms) then
         and_then (clear_flow t i) (\<lambda>t.
           expire_loop now_ms is (if \<not> flow_rejected e then counting inc_timeouts t else t))
       else expire_loop now_ms is t)"

definition expire_flows :: "jg_tcp_stream_tracker \<Rightarrow> u64 \<Rightarrow> tracked" where
  "expire_flows t now_ms = expire_loop now_ms [0..<max_flows (stream_limits t)] t"

text \<open>The index of the key, if any, and of the first free slot seen before.\<close>

fun find_loop :: "jg_tcp_stream_tracker \<Rightarrow> stream_key \<Rightarrow> nat list \<Rightarrow> nat option \<Rightarrow> (errno, nat option \<times> nat option) run" where
  "find_loop t key [] free_index = Done (None, free_index)"
| "find_loop t key (i # is) free_index =
     and_then (load_flow t i) (\<lambda>e.
       if \<not> flow_active e then find_loop t key is (if free_index = None then Some i else free_index)
       else if keys_equal (flow_key e) key then Done (Some i, free_index)
       else find_loop t key is free_index)"

definition find_flow :: "jg_tcp_stream_tracker \<Rightarrow> stream_key \<Rightarrow> (errno, nat option \<times> nat option) run" where
  "find_flow t key = find_loop t key [0..<max_flows (stream_limits t)] None"

fun count_loop :: "jg_tcp_stream_tracker \<Rightarrow> stream_key \<Rightarrow> nat list \<Rightarrow> nat \<Rightarrow> (errno, nat) run" where
  "count_loop t key [] count = Done count"
| "count_loop t key (i # is) count =
     and_then (load_flow t i) (\<lambda>e.
       count_loop t key is (if flow_active e \<and> sources_equal (flow_key e) key then count + 1 else count))"

definition source_flow_count :: "jg_tcp_stream_tracker \<Rightarrow> stream_key \<Rightarrow> (errno, nat) run" where
  "source_flow_count t key = count_loop t key [0..<max_flows (stream_limits t)] 0"

definition initialize_flow :: "jg_tcp_stream_tracker \<Rightarrow> nat \<Rightarrow> stream_key \<Rightarrow> u32 \<Rightarrow> u64 \<Rightarrow> tracked" where
  "initialize_flow t i key base now_ms =
     and_then (load_flow t i) (\<lambda>e.
       store_flow t i (e\<lparr>flow_key := key, idle_deadline := deadline now_ms (idle_timeout_ms (stream_limits t)),
         connection_deadline := deadline now_ms (connection_timeout_ms (stream_limits t)),
         base_sequence := base, flow_active := True\<rparr>))"

definition reject_flow :: "jg_tcp_stream_tracker \<Rightarrow> nat \<Rightarrow> u64 \<Rightarrow> tracked" where
  "reject_flow t i now_ms =
     and_then (load_flow t i) (\<lambda>old.
     and_then (clear_flow t i) (\<lambda>t.
     and_then (initialize_flow t i (flow_key old) (base_sequence old) now_ms) (\<lambda>t.
     and_then (load_flow t i) (\<lambda>e. store_flow t i (e\<lparr>flow_rejected := True\<rparr>)))))"

section \<open>Receive windows\<close>

fun range_loop :: "bytes \<Rightarrow> bool \<Rightarrow> nat \<Rightarrow> nat" where
  "range_loop [] inside count = count"
| "range_loop (p # ps) inside count =
     (if p \<noteq> 0 \<and> \<not> inside then range_loop ps True (count + 1)
      else if p = 0 then range_loop ps False count
      else range_loop ps inside count)"

definition range_count :: "jg_tcp_stream_tracker \<Rightarrow> nat \<Rightarrow> (errno, nat) run" where
  "range_count t i = and_then (flow_presence t i) (\<lambda>ps. Done (range_loop ps False 0))"

fun contiguous_loop :: "bytes \<Rightarrow> nat \<Rightarrow> nat" where
  "contiguous_loop [] n = n"
| "contiguous_loop (p # ps) n = (if p \<noteq> 0 then contiguous_loop ps (n + 1) else n)"

definition contiguous_size :: "jg_tcp_stream_tracker \<Rightarrow> nat \<Rightarrow> (errno, nat) run" where
  "contiguous_size t i = and_then (flow_presence t i) (\<lambda>ps. Done (contiguous_loop ps 0))"

fun has_bytes_loop :: "bytes \<Rightarrow> bool" where
  "has_bytes_loop [] = False"
| "has_bytes_loop (p # ps) = (if p \<noteq> 0 then True else has_bytes_loop ps)"

definition flow_has_bytes :: "jg_tcp_stream_tracker \<Rightarrow> nat \<Rightarrow> (errno, bool) run" where
  "flow_has_bytes t i = and_then (flow_presence t i) (\<lambda>ps. Done (has_bytes_loop ps))"

text \<open>\<open>memmove\<close> of the rest to the front of a slice and \<open>memset\<close> of its end.\<close>

definition shift_slice :: "bytes \<Rightarrow> nat \<Rightarrow> (errno, bytes) run" where
  "shift_slice xs consumed =
     (let remaining = length xs - consumed in
      and_then (raw (bytes_at xs consumed remaining)) (\<lambda>rest.
      and_then (raw (store_at xs 0 rest)) (\<lambda>xs.
        raw (store_at xs remaining (replicate consumed 0)))))"

definition consume_prefix :: "jg_tcp_stream_tracker \<Rightarrow> nat \<Rightarrow> nat \<Rightarrow> tracked" where
  "consume_prefix t i consumed =
     and_then (flow_buffer t i) (\<lambda>buffer.
     and_then (flow_presence t i) (\<lambda>presence.
     and_then (shift_slice buffer consumed) (\<lambda>buffer.
     and_then (shift_slice presence consumed) (\<lambda>presence.
     and_then (store_buffer t i buffer) (\<lambda>t.
     and_then (store_presence t i presence) (\<lambda>t.
     and_then (load_flow t i) (\<lambda>e.
       store_flow t i (e\<lparr>base_sequence := base_sequence e + of_nat consumed\<rparr>))))))))"

text \<open>
  The loop over the payload bytes from \<open>off\<close> on: the slices afterwards, whether the bytes agree with
  what is there, and whether a byte is new.
\<close>

fun insert_loop :: "bytes \<Rightarrow> bytes \<Rightarrow> nat \<Rightarrow> bytes \<Rightarrow> bool \<Rightarrow> (errno, bytes \<times> bytes \<times> bool \<times> bool) run" where
  "insert_loop buffer presence off [] changed = Done (buffer, presence, True, changed)"
| "insert_loop buffer presence off (x # xs) changed =
     and_then (raw (byte_at presence off)) (\<lambda>p.
       if p \<noteq> 0 then
         and_then (raw (byte_at buffer off)) (\<lambda>b.
           if b \<noteq> x then Done (buffer, presence, False, changed)
           else insert_loop buffer presence (off + 1) xs changed)
       else
         and_then (raw (store_at buffer off [x])) (\<lambda>buffer.
         and_then (raw (store_at presence off [1])) (\<lambda>presence.
           insert_loop buffer presence (off + 1) xs True)))"

definition insert_payload ::
  "jg_tcp_stream_tracker \<Rightarrow> nat \<Rightarrow> nat \<Rightarrow> bytes \<Rightarrow> (errno, jg_tcp_stream_tracker \<times> jg_tcp_stream_result \<times> bool) run" where
  "insert_payload t i off payload =
     and_then (flow_buffer t i) (\<lambda>buffer.
     and_then (flow_presence t i) (\<lambda>presence.
     and_then (insert_loop buffer presence off payload False) (\<lambda>(buffer, presence, agrees, changed).
     and_then (store_buffer t i buffer) (\<lambda>t.
     and_then (store_presence t i presence) (\<lambda>t.
       Done (t, if \<not> agrees then JG_TCP_STREAM_CONFLICT
                else if changed then JG_TCP_STREAM_BUFFERED else JG_TCP_STREAM_DUPLICATE, changed))))))"

section \<open>DNS messages\<close>

text \<open>
  The loop that copies complete messages out of the contiguous bytes of a slice. It returns the outcome,
  the output and the message array afterwards, the number of messages and the bytes consumed; the last two
  are stored only when the loop ends without an error.
\<close>

type_synonym emitted = "jg_tcp_stream_result \<times> bytes \<times> jg_tcp_stream_message list \<times> nat \<times> nat"

function emit_loop ::
  "jg_tcp_stream_limits \<Rightarrow> bytes \<Rightarrow> nat \<Rightarrow> nat \<Rightarrow> nat \<Rightarrow> nat \<Rightarrow> bytes \<Rightarrow> jg_tcp_stream_message list \<Rightarrow> (errno, emitted) run" where
  "emit_loop l buffer contiguous cursor output_offset count out messages =
     (if contiguous - cursor < 2
      then Done (if count = 0 then JG_TCP_STREAM_BUFFERED else JG_TCP_STREAM_MESSAGES, out, messages, count, cursor)
      else
      and_then (raw (byte_at buffer cursor)) (\<lambda>high.
      and_then (raw (byte_at buffer (cursor + 1))) (\<lambda>low.
        let n = unat high * 256 + unat low in
        if n < DNS_HEADER_SIZE \<or> n > max_dns_message_size l then Done (JG_TCP_STREAM_MALFORMED, out, messages, 0, 0)
        else if n + 2 > contiguous - cursor
        then Done (if count = 0 then JG_TCP_STREAM_BUFFERED else JG_TCP_STREAM_MESSAGES, out, messages, count, cursor)
        else if count \<ge> max_messages_per_packet l then Done (JG_TCP_STREAM_EXHAUSTED, out, messages, 0, 0)
        else
          and_then (raw (store_at messages count [\<lparr>message_offset = output_offset, message_size = n\<rparr>])) (\<lambda>messages.
          and_then (raw (bytes_at buffer (cursor + 2) n)) (\<lambda>message.
          and_then (raw (store_at out output_offset message)) (\<lambda>out.
            emit_loop l buffer contiguous (cursor + (n + 2)) (output_offset + n) (count + 1) out messages))))))"
  by pat_completeness auto
termination
  by (relation "measure (\<lambda>(l, buffer, contiguous, cursor, _). contiguous - cursor)") auto

declare emit_loop.simps [simp del]

definition emit_messages ::
  "jg_tcp_stream_tracker \<Rightarrow> nat \<Rightarrow> bytes \<Rightarrow> jg_tcp_stream_message list \<Rightarrow> (errno, emitted) run" where
  "emit_messages t i out messages =
     and_then (flow_buffer t i) (\<lambda>buffer.
     and_then (contiguous_size t i) (\<lambda>contiguous.
       emit_loop (stream_limits t) buffer contiguous 0 0 0 out messages))"

section \<open>Trackers\<close>

definition packet_valid_for_port :: "jg_packet_view \<Rightarrow> u16 \<Rightarrow> bool" where
  "packet_valid_for_port packet port \<longleftrightarrow> \<not> fragmented packet \<and> transport packet = JG_TRANSPORT_TCP
     \<and> ip_protocol packet = IPPROTO_TCP \<and> destination_port packet = port
     \<and> (ip_version packet = JG_IP_V4 \<or> ip_version packet = JG_IP_V6) \<and> address_size packet \<noteq> 0
     \<and> address_size packet \<le> JG_PACKET_ADDRESS_SIZE \<and> vlan_count packet \<le> JG_PACKET_VLAN_LIMIT
     \<and> jg_range_valid (payload_offset packet) (payload_size packet) (frame_size packet)"

definition jg_tcp_stream_limits_default :: jg_tcp_stream_limits where
  "jg_tcp_stream_limits_default = \<lparr>max_flows = 128, max_flows_per_source = 16, max_buffered_bytes = 16384,
     max_out_of_order_segments = 32, max_dns_message_size = 4096, max_messages_per_packet = 32,
     idle_timeout_ms = 30000, connection_timeout_ms = 300000\<rparr>"

definition jg_tcp_stream_limits_validate :: "jg_tcp_stream_limits \<Rightarrow> unit result" where
  "jg_tcp_stream_limits_validate l =
     (if max_flows l = 0 \<or> max_flows_per_source l = 0 \<or> max_buffered_bytes l = 0 \<or> max_out_of_order_segments l = 0
         \<or> max_dns_message_size l = 0 \<or> max_messages_per_packet l = 0 \<or> idle_timeout_ms l = 0 \<or> connection_timeout_ms l = 0
      then Inl EINVAL
      else if max_flows l > JG_TCP_STREAM_FLOW_LIMIT \<or> max_flows_per_source l > max_flows l
         \<or> max_buffered_bytes l > JG_TCP_STREAM_BYTES_LIMIT
         \<or> max_out_of_order_segments l > JG_TCP_STREAM_SEGMENT_LIMIT
         \<or> max_out_of_order_segments l > max_buffered_bytes l
         \<or> max_dns_message_size l > JG_TCP_STREAM_DNS_LIMIT
         \<or> max_dns_message_size l + 2 > max_buffered_bytes l
         \<or> max_messages_per_packet l > JG_TCP_STREAM_MESSAGE_LIMIT
         \<or> idle_timeout_ms l > JG_TCP_STREAM_TIMEOUT_LIMIT \<or> connection_timeout_ms l > JG_TCP_STREAM_TIMEOUT_LIMIT
         \<or> idle_timeout_ms l > connection_timeout_ms l
      then Inl ERANGE else Inr ())"

text \<open>\<open>calloc n s\<close> says whether the allocation of \<open>n\<close> zeroed elements of \<open>s\<close> bytes succeeds.\<close>

definition jg_tcp_stream_tracker_create ::
  "(nat \<Rightarrow> nat \<Rightarrow> bool) \<Rightarrow> jg_tcp_stream_limits option \<Rightarrow> jg_tcp_stream_tracker result" where
  "jg_tcp_stream_tracker_create calloc limits =
     (let l = (case limits of None \<Rightarrow> jg_tcp_stream_limits_default | Some l \<Rightarrow> l) in
      case jg_tcp_stream_limits_validate l of
        Inl e \<Rightarrow> Inl e
      | Inr _ \<Rightarrow> (case jg_size_multiply (max_flows l) (max_buffered_bytes l) of
          None \<Rightarrow> Inl EOVERFLOW
        | Some arena_size \<Rightarrow>
            if \<not> calloc 1 152 \<or> \<not> calloc (max_flows l) 104 \<or> \<not> calloc arena_size 1 then Inl ENOMEM
            else Inr \<lparr>stream_limits = l, flows = replicate (max_flows l) cleared_flow, buffers = replicate arena_size 0,
                      present = replicate arena_size 0, stream_stats = initialize_stats\<rparr>))"

text \<open>
  \<open>jg_tcp_stream_tracker_add\<close> and \<open>jg_tcp_stream_tracker_add_raw\<close> repeat the same code up to the place where
  the payload is in the window; here it is shared. \<open>open_flow\<close> finds or creates the flow: it settles the
  packet (\<open>Inl\<close> the outcome and the chunk) or returns the index and whether the flow is new. The outcomes
  of the raw variant are those of the DNS variant under \<open>raw_result\<close>; the chunk is what the raw variant
  reports and the DNS variant ignores.
\<close>

type_synonym settled = "jg_tcp_stream_result \<times> jg_tcp_raw_stream_chunk"

abbreviation has_flag :: "jg_packet_view \<Rightarrow> u8 \<Rightarrow> bool" where
  "has_flag packet flag \<equiv> tcp_flags packet AND flag \<noteq> 0"

definition payload_sequence :: "jg_packet_view \<Rightarrow> u32" where
  "payload_sequence packet = tcp_sequence packet + (if has_flag packet JG_TCP_FLAG_SYN then 1 else 0)"

definition open_flow ::
  "jg_tcp_stream_tracker \<Rightarrow> jg_packet_view \<Rightarrow> u64 \<Rightarrow> (errno, jg_tcp_stream_tracker \<times> (settled + nat \<times> bool)) run" where
  "open_flow t packet now_ms =
     and_then (build_key packet) (\<lambda>key.
     and_then (expire_flows t now_ms) (\<lambda>t.
     and_then (find_flow t key) (\<lambda>(flow_index, free_index).
       let syn = has_flag packet JG_TCP_FLAG_SYN; fin = has_flag packet JG_TCP_FLAG_FIN in
       if has_flag packet JG_TCP_FLAG_RST then
         (case flow_index of
            None \<Rightarrow> Done (counting inc_closed t, Inl (JG_TCP_STREAM_CLOSED, no_chunk))
          | Some i \<Rightarrow> and_then (clear_flow t i) (\<lambda>t.
              Done (counting inc_closed t, Inl (JG_TCP_STREAM_CLOSED, no_chunk\<lparr>chunk_flow_index := Some i\<rparr>))))
       else
       and_then (case flow_index of
           None \<Rightarrow> Done (t, None, free_index)
         | Some i \<Rightarrow> if syn then and_then (clear_flow t i) (\<lambda>t. Done (t, None, Some i))
                     else Done (t, Some i, free_index)) (\<lambda>(t, flow_index, free_index).
       case flow_index of
         Some i \<Rightarrow> and_then (load_flow t i) (\<lambda>e.
           if flow_rejected e then Done (counting inc_conflicts t, Inl (JG_TCP_STREAM_CONFLICT, no_chunk))
           else Done (t, Inr (i, False)))
       | None \<Rightarrow>
           if payload_size packet \<noteq> 0 \<or> syn then
             (case free_index of
                None \<Rightarrow> Done (counting inc_exhausted t, Inl (JG_TCP_STREAM_EXHAUSTED, no_chunk))
              | Some i \<Rightarrow> and_then (source_flow_count t key) (\<lambda>n.
                  if n \<ge> max_flows_per_source (stream_limits t)
                  then Done (counting inc_exhausted t, Inl (JG_TCP_STREAM_EXHAUSTED, no_chunk))
                  else and_then (initialize_flow t i key (payload_sequence packet) now_ms) (\<lambda>t.
                    Done (t, Inr (i, True)))))
           else if fin then Done (counting inc_closed t, Inl (JG_TCP_STREAM_CLOSED, no_chunk))
           else Done (counting inc_duplicates t, Inl (JG_TCP_STREAM_DUPLICATE, no_chunk))))))"

text \<open>FIN on a known flow: rejected when bytes remain, released otherwise.\<close>

definition close_flow :: "jg_tcp_stream_tracker \<Rightarrow> nat \<Rightarrow> u64 \<Rightarrow> tracked" where
  "close_flow t i now_ms =
     and_then (flow_has_bytes t i) (\<lambda>b.
     and_then (if b then reject_flow t i now_ms else clear_flow t i) (\<lambda>t. Done (counting inc_closed t)))"

abbreviation refuse ::
  "jg_tcp_stream_tracker \<Rightarrow> nat \<Rightarrow> u64 \<Rightarrow> (jg_tcp_stream_stats \<Rightarrow> jg_tcp_stream_stats) \<Rightarrow> 'r \<Rightarrow> (errno, jg_tcp_stream_tracker \<times> 'r) run" where
  "refuse t i now_ms count r \<equiv> and_then (reject_flow t i now_ms) (\<lambda>t. Done (counting count t, r))"

text \<open>The position and the bytes of the payload that are not behind the window.\<close>

definition locate_payload :: "u32 \<Rightarrow> u32 \<Rightarrow> bytes \<Rightarrow> (nat \<times> bytes) option" where
  "locate_payload base sq payload =
     (let distance = sq - base in
      if distance \<le> 0x7FFFFFFF then Some (unat distance, payload)
      else let consumed_prefix = unat (base - sq) in
        if consumed_prefix \<ge> length payload then None else Some (0, drop consumed_prefix payload))"

definition place_payload ::
  "jg_tcp_stream_tracker \<Rightarrow> nat \<Rightarrow> bool \<Rightarrow> jg_packet_view \<Rightarrow> u64 \<Rightarrow> (errno, jg_tcp_stream_tracker \<times> (settled + bool)) run" where
  "place_payload t i is_new packet now_ms =
     (let chunk = no_chunk\<lparr>chunk_flow_index := Some i, chunk_new_flow := is_new\<rparr>;
          fin = has_flag packet JG_TCP_FLAG_FIN in
      and_then (load_flow t i) (\<lambda>e.
      and_then (store_flow t i (e\<lparr>idle_deadline := deadline now_ms (idle_timeout_ms (stream_limits t))\<rparr>)) (\<lambda>t.
        if payload_size packet = 0 then
          (if fin then and_then (close_flow t i now_ms) (\<lambda>t. Done (t, Inl (JG_TCP_STREAM_CLOSED, chunk\<lparr>chunk_closed := True\<rparr>)))
           else Done (t, Inl (JG_TCP_STREAM_BUFFERED, chunk)))
        else
        and_then (raw (bytes_at (frame packet) (payload_offset packet) (payload_size packet))) (\<lambda>payload.
          case locate_payload (base_sequence e) (payload_sequence packet) payload of
            None \<Rightarrow>
              (if fin then and_then (close_flow t i now_ms) (\<lambda>t. Done (t, Inl (JG_TCP_STREAM_CLOSED, chunk\<lparr>chunk_closed := True\<rparr>)))
               else Done (counting inc_duplicates t, Inl (JG_TCP_STREAM_DUPLICATE, chunk)))
          | Some (off, payload) \<Rightarrow>
              if \<not> jg_range_valid off (length payload) (max_buffered_bytes (stream_limits t))
              then refuse t i now_ms inc_exhausted (Inl (JG_TCP_STREAM_EXHAUSTED, chunk))
              else
              and_then (insert_payload t i off payload) (\<lambda>(t, operation, changed).
                if operation = JG_TCP_STREAM_CONFLICT
                then refuse t i now_ms inc_conflicts (Inl (JG_TCP_STREAM_CONFLICT, chunk))
                else
                and_then (range_count t i) (\<lambda>n.
                  if n > max_out_of_order_segments (stream_limits t)
                  then refuse t i now_ms inc_exhausted (Inl (JG_TCP_STREAM_EXHAUSTED, chunk))
                  else Done (t, Inr changed)))))))"

section \<open>The three operations\<close>

text \<open>
  \<open>jg_tcp_stream_tracker_add\<close>: the tracker, the outcome, the output buffer, the message array and the
  number of messages afterwards. Before an error it has changed nothing.
\<close>

definition finish_messages ::
  "jg_tcp_stream_tracker \<Rightarrow> nat \<Rightarrow> bool \<Rightarrow> bool \<Rightarrow> u64 \<Rightarrow> bytes \<Rightarrow> jg_tcp_stream_message list \<Rightarrow>
   (errno, jg_tcp_stream_tracker \<times> jg_tcp_stream_result \<times> bytes \<times> jg_tcp_stream_message list \<times> nat) run" where
  "finish_messages t i fin changed now_ms out messages =
     and_then (emit_messages t i out messages) (\<lambda>(operation, out, messages, count, consumed).
       if operation = JG_TCP_STREAM_MALFORMED
       then refuse t i now_ms inc_malformed (JG_TCP_STREAM_MALFORMED, out, messages, count)
       else if operation = JG_TCP_STREAM_EXHAUSTED
       then refuse t i now_ms inc_exhausted (JG_TCP_STREAM_EXHAUSTED, out, messages, count)
       else
       and_then (if operation = JG_TCP_STREAM_MESSAGES
                 then and_then (consume_prefix t i consumed) (\<lambda>t. Done (counting (add_messages count) t, operation))
                 else if changed then Done (counting inc_buffered t, operation)
                 else Done (counting inc_duplicates t, JG_TCP_STREAM_DUPLICATE)) (\<lambda>(t, operation).
         if fin then and_then (close_flow t i now_ms) (\<lambda>t.
              Done (t, if operation \<noteq> JG_TCP_STREAM_MESSAGES then JG_TCP_STREAM_CLOSED else operation, out, messages, count))
         else Done (t, operation, out, messages, count)))"

definition jg_tcp_stream_tracker_add ::
  "jg_tcp_stream_tracker \<Rightarrow> jg_packet_view \<Rightarrow> u64 \<Rightarrow> bytes \<Rightarrow> jg_tcp_stream_message list \<Rightarrow>
   (errno, jg_tcp_stream_tracker \<times> jg_tcp_stream_result \<times> bytes \<times> jg_tcp_stream_message list \<times> nat) run" where
  "jg_tcp_stream_tracker_add t packet now_ms out messages =
     (if \<not> packet_valid_for_port packet 53 then Fail EINVAL
      else if length out < max_buffered_bytes (stream_limits t)
         \<or> length messages < max_messages_per_packet (stream_limits t) then Fail ENOSPC
      else
      and_then (open_flow t packet now_ms) (\<lambda>(t, opened). case opened of
        Inl (r, _) \<Rightarrow> Done (t, r, out, messages, 0)
      | Inr (i, is_new) \<Rightarrow> and_then (place_payload t i is_new packet now_ms) (\<lambda>(t, placed). case placed of
          Inl (r, _) \<Rightarrow> Done (t, r, out, messages, 0)
        | Inr changed \<Rightarrow> finish_messages t i (has_flag packet JG_TCP_FLAG_FIN) changed now_ms out messages)))"

fun raw_result :: "jg_tcp_stream_result \<Rightarrow> jg_tcp_raw_stream_result" where
  "raw_result JG_TCP_STREAM_BUFFERED = JG_TCP_RAW_STREAM_BUFFERED"
| "raw_result JG_TCP_STREAM_DUPLICATE = JG_TCP_RAW_STREAM_DUPLICATE"
| "raw_result JG_TCP_STREAM_CLOSED = JG_TCP_RAW_STREAM_CLOSED"
| "raw_result JG_TCP_STREAM_CONFLICT = JG_TCP_RAW_STREAM_CONFLICT"
| "raw_result _ = JG_TCP_RAW_STREAM_EXHAUSTED"

text \<open>\<open>jg_tcp_stream_tracker_add_raw\<close>: the tracker, the outcome, the chunk and the output afterwards.\<close>

definition finish_bytes ::
  "jg_tcp_stream_tracker \<Rightarrow> nat \<Rightarrow> bool \<Rightarrow> bool \<Rightarrow> bool \<Rightarrow> u64 \<Rightarrow> bytes \<Rightarrow>
   (errno, jg_tcp_stream_tracker \<times> jg_tcp_raw_stream_result \<times> jg_tcp_raw_stream_chunk \<times> bytes) run" where
  "finish_bytes t i is_new fin changed now_ms out =
     (let chunk = no_chunk\<lparr>chunk_flow_index := Some i, chunk_new_flow := is_new\<rparr> in
      and_then (contiguous_size t i) (\<lambda>contiguous.
      and_then (if contiguous > 0
                then and_then (flow_buffer t i) (\<lambda>buffer.
                     and_then (raw (bytes_at buffer 0 contiguous)) (\<lambda>xs.
                     and_then (raw (store_at out 0 xs)) (\<lambda>out.
                     and_then (consume_prefix t i contiguous) (\<lambda>t.
                       Done (counting (add_messages contiguous) t, JG_TCP_RAW_STREAM_BYTES, chunk\<lparr>chunk_size := contiguous\<rparr>, out)))))
                else if changed then Done (counting inc_buffered t, JG_TCP_RAW_STREAM_BUFFERED, chunk, out)
                else Done (counting inc_duplicates t, JG_TCP_RAW_STREAM_DUPLICATE, chunk, out)) (\<lambda>(t, r, chunk, out).
        if fin then and_then (close_flow t i now_ms) (\<lambda>t.
             Done (t, if r \<noteq> JG_TCP_RAW_STREAM_BYTES then JG_TCP_RAW_STREAM_CLOSED else r, chunk\<lparr>chunk_closed := True\<rparr>, out))
        else Done (t, r, chunk, out))))"

definition jg_tcp_stream_tracker_add_raw ::
  "jg_tcp_stream_tracker \<Rightarrow> jg_packet_view \<Rightarrow> u64 \<Rightarrow> bytes \<Rightarrow>
   (errno, jg_tcp_stream_tracker \<times> jg_tcp_raw_stream_result \<times> jg_tcp_raw_stream_chunk \<times> bytes) run" where
  "jg_tcp_stream_tracker_add_raw t packet now_ms out =
     (if \<not> (packet_valid_for_port packet 443 \<or> packet_valid_for_port packet 853) then Fail EINVAL
      else if length out < max_buffered_bytes (stream_limits t) then Fail ENOSPC
      else
      and_then (open_flow t packet now_ms) (\<lambda>(t, opened). case opened of
        Inl (r, chunk) \<Rightarrow> Done (t, raw_result r, chunk, out)
      | Inr (i, is_new) \<Rightarrow> and_then (place_payload t i is_new packet now_ms) (\<lambda>(t, placed). case placed of
          Inl (r, chunk) \<Rightarrow> Done (t, raw_result r, chunk, out)
        | Inr changed \<Rightarrow> finish_bytes t i is_new (has_flag packet JG_TCP_FLAG_FIN) changed now_ms out)))"

text \<open>The expiry of other flows stays also when there is no slot for the rejection.\<close>

definition jg_tcp_stream_tracker_reject_flow ::
  "jg_tcp_stream_tracker \<Rightarrow> jg_packet_view \<Rightarrow> u64 \<Rightarrow> (errno, jg_tcp_stream_tracker \<times> unit result) run" where
  "jg_tcp_stream_tracker_reject_flow t packet now_ms =
     (if \<not> (packet_valid_for_port packet 53 \<or> packet_valid_for_port packet 443 \<or> packet_valid_for_port packet 853)
      then Fail EINVAL
      else
      and_then (build_key packet) (\<lambda>key.
      and_then (expire_flows t now_ms) (\<lambda>t.
      and_then (find_flow t key) (\<lambda>(flow_index, free_index). case flow_index of
        Some i \<Rightarrow> and_then (reject_flow t i now_ms) (\<lambda>t. Done (t, Inr ()))
      | None \<Rightarrow> (case free_index of
            None \<Rightarrow> Done (t, Inl ENOSPC)
          | Some i \<Rightarrow> and_then (source_flow_count t key) (\<lambda>n.
              if n \<ge> max_flows_per_source (stream_limits t) then Done (t, Inl ENOSPC)
              else and_then (initialize_flow t i key (tcp_sequence packet) now_ms) (\<lambda>t.
                   and_then (reject_flow t i now_ms) (\<lambda>t. Done (t, Inr ())))))))))"

definition jg_tcp_stream_tracker_get_stats :: "jg_tcp_stream_tracker \<Rightarrow> jg_tcp_stream_stats" where
  "jg_tcp_stream_tracker_get_stats t = stream_stats t"

end
