(* ===== verification/TcpStreamSpec.thy ===== *)
theory TcpStreamSpec
  imports TcpStream Slots
begin

text \<open>
  What the TCP stream tracker promises, and that its operations implement it. In the specification a flow
  is its entry and a window, a list of optional bytes; \<open>tracker_of\<close> builds the arenas of the tracker from
  one region per flow, so that every access of the C code to an arena is an equation on the regions.
\<close>

section \<open>Regions\<close>

type_synonym region = "stream_entry \<times> bytes \<times> bytes"

definition tracker_of :: "jg_tcp_stream_limits \<Rightarrow> region list \<Rightarrow> jg_tcp_stream_stats \<Rightarrow> jg_tcp_stream_tracker" where
  "tracker_of l rs st = \<lparr>stream_limits = l, flows = map fst rs, buffers = concat (map (\<lambda>r. fst (snd r)) rs),
     present = concat (map (\<lambda>r. snd (snd r)) rs), stream_stats = st\<rparr>"

definition regions_ok :: "jg_tcp_stream_limits \<Rightarrow> region list \<Rightarrow> bool" where
  "regions_ok l rs \<longleftrightarrow> length rs = max_flows l
     \<and> (\<forall>r \<in> set rs. length (fst (snd r)) = max_buffered_bytes l \<and> length (snd (snd r)) = max_buffered_bytes l)"

lemma tracker_of_simps [simp]:
  "stream_limits (tracker_of l rs st) = l" "stream_stats (tracker_of l rs st) = st" "flows (tracker_of l rs st) = map fst rs"
  "(tracker_of l rs st)\<lparr>stream_stats := st'\<rparr> = tracker_of l rs st'"
  by (simp_all add: tracker_of_def)

lemma regions_ok_update [simp]:
  assumes "regions_ok l rs" "length b = max_buffered_bytes l" "length p = max_buffered_bytes l"
  shows "regions_ok l (rs[i := (e, b, p)])"
  using assms by (auto simp: regions_ok_def dest!: set_update_subset_insert[THEN subsetD])

lemma regions_ok_nth:
  assumes "regions_ok l rs" "i < max_flows l"
  shows "i < length rs" "length (fst (snd (rs ! i))) = max_buffered_bytes l" "length (snd (snd (rs ! i))) = max_buffered_bytes l"
  using assms by (auto simp: regions_ok_def)

lemma map_nth_update: "i < length rs \<Longrightarrow> f x = f (rs ! i) \<Longrightarrow> map f (rs[i := x]) = map f rs"
  by (metis list_update_id map_update)

lemma region_access:
  assumes "regions_ok l rs" "i < max_flows l" "rs ! i = (e, b, p)"
  shows "load_flow (tracker_of l rs st) i = Done e"
    and "store_flow (tracker_of l rs st) i e' = Done (tracker_of l (rs[i := (e', b, p)]) st)"
    and "flow_buffer (tracker_of l rs st) i = Done b"
    and "flow_presence (tracker_of l rs st) i = Done p"
    and "length b' = max_buffered_bytes l \<Longrightarrow> store_buffer (tracker_of l rs st) i b' = Done (tracker_of l (rs[i := (e, b', p)]) st)"
    and "length p' = max_buffered_bytes l \<Longrightarrow> store_presence (tracker_of l rs st) i p' = Done (tracker_of l (rs[i := (e, b, p')]) st)"
proof -
  note i = regions_ok_nth[OF assms(1,2)]
  have blocks: "\<forall>xs \<in> set (map (\<lambda>r. fst (snd r)) rs). length xs = max_buffered_bytes l"
    "\<forall>xs \<in> set (map (\<lambda>r. snd (snd r)) rs). length xs = max_buffered_bytes l"
    using assms(1) by (auto simp: regions_ok_def)
  have len: "i < length (map (\<lambda>r. fst (snd r)) rs)" "i < length (map (\<lambda>r. snd (snd r)) rs)" using i(1) by simp_all
  note buffer = block_access[OF blocks(1) len(1)] and presence = block_access[OF blocks(2) len(2)]
  note same = map_nth_update[OF i(1)]
  show "load_flow (tracker_of l rs st) i = Done e" using i(1) assms(3) by (simp add: load_flow_def)
  show "store_flow (tracker_of l rs st) i e' = Done (tracker_of l (rs[i := (e', b, p)]) st)"
    using i(1) assms(3) same[of "\<lambda>r. fst (snd r)" "(e', b, p)"] same[of "\<lambda>r. snd (snd r)" "(e', b, p)"]
    by (simp add: store_flow_def tracker_of_def map_update blit_single)
  show "flow_buffer (tracker_of l rs st) i = Done b" "flow_presence (tracker_of l rs st) i = Done p"
    using buffer(1) presence(1) i(1) assms(3) by (simp_all add: flow_buffer_def flow_presence_def tracker_of_def)
  show "store_buffer (tracker_of l rs st) i b' = Done (tracker_of l (rs[i := (e, b', p)]) st)" if "length b' = max_buffered_bytes l"
    using buffer(2)[OF that] i(1) assms(3) same[of fst "(e, b', p)"] same[of "\<lambda>r. snd (snd r)" "(e, b', p)"]
    by (simp add: store_buffer_def tracker_of_def map_update)
  show "store_presence (tracker_of l rs st) i p' = Done (tracker_of l (rs[i := (e, b, p')]) st)" if "length p' = max_buffered_bytes l"
    using presence(2)[OF that] i(1) assms(3) same[of fst "(e, b, p')"] same[of "\<lambda>r. fst (snd r)" "(e, b, p')"]
    by (simp add: store_presence_def tracker_of_def map_update)
qed

section \<open>Specification\<close>

type_synonym window = "u8 option list"
type_synonym flow = "stream_entry \<times> window"

definition window_of :: "bytes \<Rightarrow> bytes \<Rightarrow> window" where
  "window_of b p = map2 (\<lambda>x q. if q \<noteq> 0 then Some x else None) b p"

definition view :: "region \<Rightarrow> flow" where
  "view r = (fst r, window_of (fst (snd r)) (snd (snd r)))"

definition packet_stream_key :: "jg_packet_view \<Rightarrow> stream_key" where
  "packet_stream_key p = \<lparr>stream_source = take (address_size p) (source_address p) @ replicate (16 - address_size p) 0,
     stream_destination = take (address_size p) (destination_address p) @ replicate (16 - address_size p) 0,
     stream_vlan_tci = map (\<lambda>tci. tci AND 0x0FFF) (vlan_tci p) @ replicate (8 - vlan_count p) 0,
     stream_source_port = source_port p, stream_destination_port = destination_port p,
     stream_address_size = address_size p, stream_vlan_count = vlan_count p, stream_ip_version = ip_version p\<rparr>"

abbreviation unused :: "jg_tcp_stream_limits \<Rightarrow> flow" where
  "unused l \<equiv> (cleared_flow, replicate (max_buffered_bytes l) None)"

definition opened_entry :: "jg_tcp_stream_limits \<Rightarrow> stream_key \<Rightarrow> u32 \<Rightarrow> u64 \<Rightarrow> stream_entry" where
  "opened_entry l key base now = cleared_flow\<lparr>flow_key := key, idle_deadline := deadline now (idle_timeout_ms l),
     connection_deadline := deadline now (connection_timeout_ms l), base_sequence := base, flow_active := True\<rparr>"

definition refused :: "jg_tcp_stream_limits \<Rightarrow> u64 \<Rightarrow> stream_entry \<Rightarrow> flow" where
  "refused l now e = ((opened_entry l (flow_key e) (base_sequence e) now)\<lparr>flow_rejected := True\<rparr>,
     replicate (max_buffered_bytes l) None)"

definition flow_expired :: "u64 \<Rightarrow> stream_entry \<Rightarrow> bool" where
  "flow_expired now e \<longleftrightarrow> flow_active e \<and> (idle_deadline e \<le> now \<or> connection_deadline e \<le> now)"

definition spec_expire :: "jg_tcp_stream_limits \<Rightarrow> u64 \<Rightarrow> flow list \<Rightarrow> flow list" where
  "spec_expire l now = map (\<lambda>f. if flow_expired now (fst f) then unused l else f)"

definition timed_out :: "u64 \<Rightarrow> flow list \<Rightarrow> nat" where
  "timed_out now tab = length (filter (\<lambda>f. flow_expired now (fst f) \<and> \<not> flow_rejected (fst f)) tab)"

definition add_timeouts :: "nat \<Rightarrow> jg_tcp_stream_stats \<Rightarrow> jg_tcp_stream_stats" where
  "add_timeouts n s = s\<lparr>stat_timeouts := stat_timeouts s + of_nat n\<rparr>"

definition spec_find :: "stream_key \<Rightarrow> flow list \<Rightarrow> nat option" where
  "spec_find k = first_index (\<lambda>f. flow_active (fst f) \<and> flow_key (fst f) = k)"

definition spec_free :: "flow list \<Rightarrow> nat option" where
  "spec_free = first_index (\<lambda>f. \<not> flow_active (fst f))"

definition spec_count :: "stream_key \<Rightarrow> flow list \<Rightarrow> nat" where
  "spec_count k tab = length (filter (\<lambda>f. flow_active (fst f) \<and> sources_equal (flow_key (fst f)) k) tab)"

section \<open>Operations on regions\<close>

lemma window_of_zero: "length b = n \<Longrightarrow> window_of b (replicate n 0) = replicate n None"
  by (intro nth_equalityI) (auto simp: window_of_def)

lemma length_window [simp]: "length (window_of b p) = min (length b) (length p)"
  by (simp add: window_of_def)

lemma nth_window: "i < length b \<Longrightarrow> i < length p \<Longrightarrow> window_of b p ! i = (if p ! i \<noteq> 0 then Some (b ! i) else None)"
  by (simp add: window_of_def)

lemma clear_flow_region:
  assumes "regions_ok l rs" "i < max_flows l" "rs ! i = (e, b, p)"
  shows "clear_flow (tracker_of l rs st) i = Done (tracker_of l (rs[i := (cleared_flow, b, replicate (max_buffered_bytes l) 0)]) st)"
proof -
  let ?z = "replicate (max_buffered_bytes l) (0 :: u8)"
  note i = regions_ok_nth[OF assms(1,2)]
  have "regions_ok l (rs[i := (e, b, ?z)])" "(rs[i := (e, b, ?z)]) ! i = (e, b, ?z)" using assms i by simp_all
  then show ?thesis
    using region_access(6)[OF assms, of ?z] region_access(2)[OF _ assms(2)] by (simp add: clear_flow_def)
qed

lemma initialize_flow_region:
  assumes "regions_ok l rs" "i < max_flows l" "rs ! i = (cleared_flow, b, p)"
  shows "initialize_flow (tracker_of l rs st) i key base now = Done (tracker_of l (rs[i := (opened_entry l key base now, b, p)]) st)"
  using region_access(1,2)[OF assms] by (simp add: initialize_flow_def opened_entry_def)

lemma reject_flow_region:
  assumes "regions_ok l rs" "i < max_flows l" "rs ! i = (e, b, p)"
  shows "reject_flow (tracker_of l rs st) i now
    = Done (tracker_of l (rs[i := (fst (refused l now e), b, replicate (max_buffered_bytes l) 0)]) st)"
proof -
  let ?z = "replicate (max_buffered_bytes l) (0 :: u8)" and ?o = "opened_entry l (flow_key e) (base_sequence e) now"
  note i = regions_ok_nth[OF assms(1,2)]
  have b: "length b = max_buffered_bytes l" using i assms(3) by simp
  have c: "regions_ok l (rs[i := (cleared_flow, b, ?z)])" "(rs[i := (cleared_flow, b, ?z)]) ! i = (cleared_flow, b, ?z)"
    and o: "regions_ok l (rs[i := (?o, b, ?z)])" "(rs[i := (?o, b, ?z)]) ! i = (?o, b, ?z)"
    using assms i b by simp_all
  show ?thesis
    using region_access(1)[OF assms] clear_flow_region[OF assms] initialize_flow_region[OF c(1) assms(2) c(2)]
      region_access(1,2)[OF o(1) assms(2) o(2)]
    by (simp add: reject_flow_def refused_def)
qed

definition expired_region :: "jg_tcp_stream_limits \<Rightarrow> u64 \<Rightarrow> region \<Rightarrow> region" where
  "expired_region l now r = (if flow_expired now (fst r) then (cleared_flow, fst (snd r), replicate (max_buffered_bytes l) 0) else r)"

lemma expire_loop_regions:
  assumes "regions_ok l rs" "set is \<subseteq> {..<max_flows l}" "distinct is"
  shows "expire_loop now is (tracker_of l rs st) = Done (tracker_of l
      (map (\<lambda>j. if j \<in> set is then expired_region l now (rs ! j) else rs ! j) [0..<max_flows l])
      (add_timeouts (length (filter (\<lambda>j. flow_expired now (fst (rs ! j)) \<and> \<not> flow_rejected (fst (rs ! j))) is)) st))"
  using assms
proof (induction "is" arbitrary: rs st)
  case Nil
  then have "map ((!) rs) [0..<max_flows l] = rs" by (metis map_nth regions_ok_def)
  then show ?case by (simp add: add_timeouts_def)
next
  case (Cons i "is")
  have i: "i < max_flows l" "i \<notin> set is" "set is \<subseteq> {..<max_flows l}" "distinct is" using Cons.prems by auto
  obtain e b p where r: "rs ! i = (e, b, p)" by (cases "rs ! i")
  note access = region_access[OF Cons.prems(1) i(1) r] and len = regions_ok_nth[OF Cons.prems(1) i(1)]
  have "length b = max_buffered_bytes l" using len(2) r by simp
  let ?P = "\<lambda>j. flow_expired now (fst (rs ! j)) \<and> \<not> flow_rejected (fst (rs ! j))"
  show ?case
  proof (cases "flow_expired now e")
    case True
    let ?rs = "rs[i := (cleared_flow, b, replicate (max_buffered_bytes l) 0)]"
    have ok: "regions_ok l ?rs" using Cons.prems(1) \<open>length b = _\<close> by simp
    have other: "?rs ! j = rs ! j" if "j \<in> set is" for j using i(2) that by (metis nth_list_update_neq)
    have f: "filter (\<lambda>j. flow_expired now (fst (?rs ! j)) \<and> \<not> flow_rejected (fst (?rs ! j))) is
        = filter (\<lambda>j. flow_expired now (fst (rs ! j)) \<and> \<not> flow_rejected (fst (rs ! j))) is"
      by (intro filter_cong) (simp_all add: other)
    have m: "map (\<lambda>j. if j \<in> set is then expired_region l now (?rs ! j) else ?rs ! j) [0..<max_flows l]
        = map (\<lambda>j. if j \<in> set (i # is) then expired_region l now (rs ! j) else rs ! j) [0..<max_flows l]"
      using i(2) len(1) True r by (intro map_cong) (auto simp: expired_region_def nth_list_update)
    have "expire_loop now (i # is) (tracker_of l rs st)
        = expire_loop now is (tracker_of l ?rs (if \<not> flow_rejected e then inc_timeouts st else st))"
      using access(1) clear_flow_region[OF Cons.prems(1) i(1) r] True by (simp add: flow_expired_def)
    also have "\<dots> = Done (tracker_of l (map (\<lambda>j. if j \<in> set is then expired_region l now (?rs ! j) else ?rs ! j) [0..<max_flows l])
        (add_timeouts (length (filter (\<lambda>j. flow_expired now (fst (?rs ! j)) \<and> \<not> flow_rejected (fst (?rs ! j))) is))
          (if \<not> flow_rejected e then inc_timeouts st else st)))"
      by (rule Cons.IH[OF ok i(3,4)])
    finally have "expire_loop now (i # is) (tracker_of l rs st) = \<dots>" .
    moreover have "add_timeouts (length (filter ?P is)) (if \<not> flow_rejected e then inc_timeouts st else st)
        = add_timeouts (length (filter ?P (i # is))) st"
      using True r by (simp add: inc_timeouts_def add_timeouts_def add.assoc)
    ultimately show ?thesis unfolding f m by (simp only:)
  next
    case False
    then have m: "map (\<lambda>j. if j \<in> set is then expired_region l now (rs ! j) else rs ! j) [0..<max_flows l]
        = map (\<lambda>j. if j \<in> set (i # is) then expired_region l now (rs ! j) else rs ! j) [0..<max_flows l]"
      using r by (intro map_cong) (auto simp: expired_region_def)
    have "expire_loop now (i # is) (tracker_of l rs st) = expire_loop now is (tracker_of l rs st)"
      using access(1) False by (auto simp: flow_expired_def)
    also note Cons.IH[OF Cons.prems(1) i(3,4)]
    finally show ?thesis unfolding m using False r by simp
  qed
qed

lemma view_simps [simp]:
  "fst (view r) = fst r" "view (e, b, p) = (e, window_of b p)"
  "length b = max_buffered_bytes l \<Longrightarrow> view (e, b, replicate (max_buffered_bytes l) 0) = (e, replicate (max_buffered_bytes l) None)"
  by (simp_all add: view_def window_of_zero)

lemma expire_flows_regions:
  assumes "regions_ok l rs"
  shows "expire_flows (tracker_of l rs st) now
      = Done (tracker_of l (map (expired_region l now) rs) (add_timeouts (timed_out now (map view rs)) st))"
    and "regions_ok l (map (expired_region l now) rs)" "map view (map (expired_region l now) rs) = spec_expire l now (map view rs)"
proof -
  have n: "length rs = max_flows l" using assms by (simp add: regions_ok_def)
  have all: "map (\<lambda>j. if j \<in> set [0..<max_flows l] then expired_region l now (rs ! j) else rs ! j) [0..<max_flows l] = map (expired_region l now) rs"
    using n by (intro nth_equalityI) auto
  have "length (filter (\<lambda>j. flow_expired now (fst (rs ! j)) \<and> \<not> flow_rejected (fst (rs ! j))) [0..<max_flows l])
      = timed_out now (map view rs)"
    unfolding n[symmetric] timed_out_def
    by (subst (2) map_nth[of rs, symmetric]) (simp only: filter_map o_def length_map map_map view_simps)
  with all show "expire_flows (tracker_of l rs st) now
      = Done (tracker_of l (map (expired_region l now) rs) (add_timeouts (timed_out now (map view rs)) st))"
    using expire_loop_regions[OF assms, of "[0..<max_flows l]" now st] by (simp add: expire_flows_def subset_iff)
  show "regions_ok l (map (expired_region l now) rs)"
    using assms by (auto simp: regions_ok_def expired_region_def)
  have "view (expired_region l now r) = (if flow_expired now (fst (view r)) then unused l else view r)" if "r \<in> set rs" for r
  proof -
    have "length (fst (snd r)) = max_buffered_bytes l" using assms that by (simp add: regions_ok_def)
    then show ?thesis by (cases r) (simp add: expired_region_def window_of_zero)
  qed
  then show "map view (map (expired_region l now) rs) = spec_expire l now (map view rs)" by (simp add: spec_expire_def)
qed

section \<open>Searching\<close>

definition canonical_stream_key :: "stream_key \<Rightarrow> bool" where
  "canonical_stream_key k \<longleftrightarrow> (\<exists>s d vs. stream_source k = s @ replicate (16 - stream_address_size k) 0
     \<and> stream_destination k = d @ replicate (16 - stream_address_size k) 0
     \<and> stream_vlan_tci k = vs @ replicate (8 - stream_vlan_count k) 0
     \<and> length s = stream_address_size k \<and> length d = stream_address_size k \<and> length vs = stream_vlan_count k)"

lemma stream_keys_equal_iff:
  assumes "canonical_stream_key a" "canonical_stream_key b"
  shows "keys_equal a b \<longleftrightarrow> a = b"
proof
  assume eq: "keys_equal a b"
  from assms(1) obtain s d vs where a: "stream_source a = s @ replicate (16 - stream_address_size a) 0"
    "stream_destination a = d @ replicate (16 - stream_address_size a) 0" "stream_vlan_tci a = vs @ replicate (8 - stream_vlan_count a) 0"
    "length s = stream_address_size a" "length d = stream_address_size a" "length vs = stream_vlan_count a"
    unfolding canonical_stream_key_def by blast
  from assms(2) obtain s' d' vs' where b: "stream_source b = s' @ replicate (16 - stream_address_size b) 0"
    "stream_destination b = d' @ replicate (16 - stream_address_size b) 0" "stream_vlan_tci b = vs' @ replicate (8 - stream_vlan_count b) 0"
    "length s' = stream_address_size b" "length d' = stream_address_size b" "length vs' = stream_vlan_count b"
    unfolding canonical_stream_key_def by blast
  show "a = b" using eq a b by (auto simp: keys_equal_def intro!: stream_key.equality)
qed (simp add: keys_equal_def)

definition flow_ok :: "jg_tcp_stream_limits \<Rightarrow> flow \<Rightarrow> bool" where
  "flow_ok l f \<longleftrightarrow> length (snd f) = max_buffered_bytes l \<and>
     (if flow_active (fst f) then canonical_stream_key (flow_key (fst f))
        \<and> (flow_rejected (fst f) \<longrightarrow> snd f = replicate (max_buffered_bytes l) None)
      else f = unused l)"

definition table_ok :: "jg_tcp_stream_limits \<Rightarrow> flow list \<Rightarrow> bool" where
  "table_ok l tab \<longleftrightarrow> length tab = max_flows l \<and> (\<forall>f \<in> set tab. flow_ok l f)"

lemma find_loop_regions:
  assumes "regions_ok l rs" "table_ok l (map view rs)" "canonical_stream_key k" "set is \<subseteq> {..<max_flows l}"
  shows "find_loop (tracker_of l rs st) k is free =
    Done (List.find (\<lambda>i. flow_active (fst (rs ! i)) \<and> flow_key (fst (rs ! i)) = k) is,
      case free of Some i \<Rightarrow> Some i | None \<Rightarrow> List.find (\<lambda>i. \<not> flow_active (fst (rs ! i)))
        (takeWhile (\<lambda>i. \<not> (flow_active (fst (rs ! i)) \<and> flow_key (fst (rs ! i)) = k)) is))"
  using assms(4)
proof (induction "is" arbitrary: free)
  case (Cons i "is")
  then have i: "i < max_flows l" by simp
  obtain e b p where r: "rs ! i = (e, b, p)" by (cases "rs ! i")
  have "view (rs ! i) \<in> set (map view rs)" using regions_ok_nth(1)[OF assms(1) i] by simp
  then have "flow_ok l (view (rs ! i))" using assms(2) unfolding table_ok_def by blast
  then have "flow_active e \<Longrightarrow> keys_equal (flow_key e) k \<longleftrightarrow> flow_key e = k"
    using stream_keys_equal_iff[OF _ assms(3)] r by (simp add: flow_ok_def)
  then show ?case
    using Cons region_access(1)[OF assms(1) i r] r by (auto split: option.splits)
qed (simp split: option.split)

lemma find_flow_regions:
  assumes "regions_ok l rs" "table_ok l (map view rs)" "canonical_stream_key k"
  obtains free where "find_flow (tracker_of l rs st) k = Done (spec_find k (map view rs), free)"
    "spec_find k (map view rs) = None \<Longrightarrow> free = spec_free (map view rs)"
proof -
  have n: "length rs = max_flows l" using assms by (simp add: regions_ok_def)
  have find: "spec_find k (map view rs) = List.find (\<lambda>i. flow_active (fst (rs ! i)) \<and> flow_key (fst (rs ! i)) = k) [0..<max_flows l]"
    "spec_free (map view rs) = List.find (\<lambda>i. \<not> flow_active (fst (rs ! i))) [0..<max_flows l]"
    by (auto simp: spec_find_def spec_free_def first_index_def n intro!: find_cong)
  show thesis
  proof (rule that)
    show "find_flow (tracker_of l rs st) k = Done (spec_find k (map view rs), List.find (\<lambda>i. \<not> flow_active (fst (rs ! i)))
        (takeWhile (\<lambda>i. \<not> (flow_active (fst (rs ! i)) \<and> flow_key (fst (rs ! i)) = k)) [0..<max_flows l]))"
      unfolding find_flow_def find using find_loop_regions[OF assms, of "[0..<max_flows l]"] by (simp add: subset_iff)
    show "List.find (\<lambda>i. \<not> flow_active (fst (rs ! i)))
        (takeWhile (\<lambda>i. \<not> (flow_active (fst (rs ! i)) \<and> flow_key (fst (rs ! i)) = k)) [0..<max_flows l]) = spec_free (map view rs)"
      if "spec_find k (map view rs) = None"
    proof -
      have "takeWhile (\<lambda>i. \<not> (flow_active (fst (rs ! i)) \<and> flow_key (fst (rs ! i)) = k)) [0..<max_flows l] = [0..<max_flows l]"
        using that unfolding find find_None_iff by (intro takeWhile_eq_all_conv[THEN iffD2]) auto
      then show ?thesis by (simp only: find(2))
    qed
  qed
qed

lemma source_flow_count_regions:
  assumes "regions_ok l rs"
  shows "source_flow_count (tracker_of l rs st) k = Done (spec_count k (map view rs))"
proof -
  have n: "length rs = max_flows l" using assms by (simp add: regions_ok_def)
  let ?P = "\<lambda>e. flow_active e \<and> sources_equal (flow_key e) k"
  have "count_loop (tracker_of l rs st) k is c = Done (c + length (filter (\<lambda>i. ?P (fst (rs ! i))) is))" if "set is \<subseteq> {..<max_flows l}" for "is" c
    using that
  proof (induction "is" arbitrary: c)
    case (Cons i "is")
    obtain e b p where r: "rs ! i = (e, b, p)" by (cases "rs ! i")
    show ?case using Cons region_access(1)[OF assms _ r] r by simp
  qed simp
  moreover have "length (filter (\<lambda>i. ?P (fst (rs ! i))) [0..<max_flows l]) = spec_count k (map view rs)"
    unfolding n[symmetric] spec_count_def
    by (subst (2) map_nth[of rs, symmetric]) (simp only: filter_map o_def length_map map_map view_simps)
  ultimately show ?thesis by (simp add: source_flow_count_def subset_iff)
qed

section \<open>Windows\<close>

definition starts :: "u8 option \<Rightarrow> window \<Rightarrow> nat" where
  "starts x w = length (filter (\<lambda>j. (x # w) ! Suc j \<noteq> None \<and> (x # w) ! j = None) [0..<length w])"

definition ranges :: "window \<Rightarrow> nat" where
  "ranges w = starts None w"

definition prefix :: "window \<Rightarrow> bytes" where
  "prefix w = map the (takeWhile (\<lambda>x. x \<noteq> None) w)"

definition agrees :: "window \<Rightarrow> nat \<Rightarrow> bytes \<Rightarrow> bool" where
  "agrees w off xs \<longleftrightarrow> (\<forall>j < length xs. w ! (off + j) = None \<or> w ! (off + j) = Some (xs ! j))"

definition news :: "window \<Rightarrow> nat \<Rightarrow> bytes \<Rightarrow> bool" where
  "news w off xs \<longleftrightarrow> (\<exists>j < length xs. w ! (off + j) = None)"

definition consumed_window :: "nat \<Rightarrow> window \<Rightarrow> window" where
  "consumed_window n w = drop n w @ replicate n None"

lemma starts_Cons: "starts x (y # w) = (if y \<noteq> None \<and> x = None then 1 else 0) + starts y w"
proof -
  have "[0..<length (y # w)] = 0 # map Suc [0..<length w]" by (simp add: upt_conv_Cons map_Suc_upt del: upt_Suc)
  then show ?thesis unfolding starts_def by (simp add: filter_map o_def)
qed

lemma range_loop_window:
  assumes "length b = length p"
  shows "range_loop p inside c = c + starts (if inside then Some 0 else None) (window_of b p)"
  using assms
proof (induction p arbitrary: b inside c)
  case Nil
  then show ?case by (simp add: starts_def window_of_def)
next
  case (Cons q p)
  then obtain x b' where b: "b = x # b'" "length b' = length p" by (cases b) auto
  have w: "window_of b (q # p) = (if q \<noteq> 0 then Some x else None) # window_of b' p" by (simp add: b window_of_def)
  have some: "starts (Some x) w = starts (Some 0) w" for w by (cases w) (simp_all add: starts_Cons, simp add: starts_def)
  show ?case using Cons.IH[OF b(2)] some by (simp add: w starts_Cons)
qed

lemma contiguous_loop_window:
  assumes "length b = length p"
  shows "contiguous_loop p n = n + length (prefix (window_of b p))"
  using assms
proof (induction p arbitrary: b n)
  case (Cons q p)
  then obtain x b' where "b = x # b'" "length b' = length p" by (cases b) auto
  then show ?case using Cons.IH[of b'] by (simp add: prefix_def window_of_def)
qed (simp add: prefix_def window_of_def)

lemma prefix_window:
  assumes "length b = length p"
  shows "take (length (prefix (window_of b p))) b = prefix (window_of b p)"
  using assms
proof (induction p arbitrary: b)
  case (Cons q p)
  then obtain x b' where "b = x # b'" "length b' = length p" by (cases b) auto
  then show ?case using Cons.IH[of b'] by (simp add: prefix_def window_of_def)
qed (simp add: prefix_def window_of_def)

lemma has_bytes_window:
  assumes "length b = length p"
  shows "has_bytes_loop p \<longleftrightarrow> window_of b p \<noteq> replicate (length p) None"
  using assms
proof (induction p arbitrary: b)
  case (Cons q p)
  then obtain x b' where b: "b = x # b'" "length b' = length p" by (cases b) auto
  then show ?case using Cons.IH[of b'] by (simp add: window_of_def)
qed (simp add: window_of_def)

lemma shift_slice_eq: "n \<le> length xs \<Longrightarrow> shift_slice xs n = Done (drop n xs @ replicate n 0)"
  by (simp add: shift_slice_def slice_def blit_def)

lemma window_append:
  "length b = length p \<Longrightarrow> window_of (b @ b') (p @ p') = window_of b p @ window_of b' p'"
  by (simp add: window_of_def)

lemma window_consumed:
  assumes "length b = length p" "n \<le> length p"
  shows "window_of (drop n b @ replicate n 0) (drop n p @ replicate n 0) = consumed_window n (window_of b p)"
  using assms window_of_zero[of "replicate n (0 :: u8)" n]
  by (simp add: window_append consumed_window_def) (simp add: window_of_def drop_map drop_zip)

lemma insert_loop_window:
  assumes "length b = n" "length p = n" "off + length xs \<le> n"
  shows "if agrees (window_of b p) off xs
    then \<exists>b' p'. insert_loop b p off xs c = Done (b', p', True, c \<or> news (window_of b p) off xs)
      \<and> length b' = n \<and> length p' = n \<and> window_of b' p' = blit (window_of b p) off (map Some xs)
    else \<exists>b' p' c'. insert_loop b p off xs c = Done (b', p', False, c') \<and> length b' = n \<and> length p' = n"
  using assms
proof (induction xs arbitrary: b p off c)
  case Nil
  then show ?case by (simp add: agrees_def news_def)
next
  case (Cons x xs)
  let ?w = "window_of b p"
  have off: "off < n" "off + 1 + length xs \<le> n" "off < length b" "off < length p" using Cons.prems by auto
  have at: "?w ! off = (if p ! off \<noteq> 0 then Some (b ! off) else None)" using off by (simp add: nth_window)
  have split: "agrees ?w off (x # xs) \<longleftrightarrow> (?w ! off = None \<or> ?w ! off = Some x) \<and> agrees ?w (off + 1) xs"
    "news ?w off (x # xs) \<longleftrightarrow> ?w ! off = None \<or> news ?w (off + 1) xs"
    unfolding agrees_def news_def by (auto simp: less_Suc_eq_0_disj)
  have blits: "blit ?w off (map Some (x # xs)) = blit (?w[off := Some x]) (off + 1) (map Some xs)"
    using off by (simp add: blit_Cons)
  show ?case
  proof (cases "p ! off = 0")
    case False
    then show ?thesis
      using Cons.IH[OF Cons.prems(1,2) off(2), of c] Cons.prems(1,2) off at split blits list_update_id[of ?w off]
      by (auto split: if_splits)
  next
    case True
    let ?b = "b[off := x]" and ?p = "p[off := 1]"
    have w: "window_of ?b ?p = ?w[off := Some x]"
      using off by (intro nth_equalityI) (auto simp: nth_window nth_list_update)
    have later: "agrees (?w[off := Some x]) (off + 1) xs = agrees ?w (off + 1) xs" "news (?w[off := Some x]) (off + 1) xs = news ?w (off + 1) xs"
      by (simp_all add: agrees_def news_def)
    have "insert_loop b p off (x # xs) c = insert_loop ?b ?p (off + 1) xs True"
      using True off by (simp add: blit_single)
    then show ?thesis
      using Cons.IH[of ?b ?p "off + 1" True] Cons.prems True at split blits w later off(2) by (auto split: if_splits)
  qed
qed

section \<open>Steps of the operations\<close>

definition closed :: "jg_tcp_stream_limits \<Rightarrow> u64 \<Rightarrow> flow \<Rightarrow> flow" where
  "closed l now f = (if snd f = replicate (max_buffered_bytes l) None then unused l else refused l now (fst f))"

text \<open>A run on regions ends in the table, the counters and the result of the specification.\<close>

definition refines ::
  "jg_tcp_stream_limits \<Rightarrow> (errno, jg_tcp_stream_tracker \<times> 'r) run \<Rightarrow> flow list \<times> jg_tcp_stream_stats \<times> 'r \<Rightarrow> bool" where
  "refines l m s \<longleftrightarrow> (\<exists>rs. m = Done (tracker_of l rs (fst (snd s)), snd (snd s)) \<and> regions_ok l rs \<and> map view rs = fst s)"

lemma refines_Done: "regions_ok l rs \<Longrightarrow> map view rs = tab \<Longrightarrow> refines l (Done (tracker_of l rs st, r)) (tab, st, r)"
  by (auto simp: refines_def)

lemma refines_bind:
  assumes "refines l m (tab, st, r)" "\<And>rs. regions_ok l rs \<Longrightarrow> map view rs = tab \<Longrightarrow> refines l (f (tracker_of l rs st, r)) s"
  shows "refines l (and_then m f) s"
  using assms by (auto simp: refines_def)

lemma map_view_update:
  "length b = max_buffered_bytes l \<Longrightarrow> map view (rs[i := (e, b, replicate (max_buffered_bytes l) 0)]) = (map view rs)[i := (e, replicate (max_buffered_bytes l) None)]"
  "map view (rs[i := (e, b, p)]) = (map view rs)[i := (e, window_of b p)]"
  by (simp_all add: map_update window_of_zero)

lemma viewed_region:
  assumes "regions_ok l rs" "i < max_flows l" "map view rs = tab"
  obtains b p where "rs ! i = (fst (tab ! i), b, p)" "window_of b p = snd (tab ! i)"
    "length b = max_buffered_bytes l" "length p = max_buffered_bytes l"
proof -
  note i = regions_ok_nth[OF assms(1,2)]
  obtain e b p where r: "rs ! i = (e, b, p)" by (cases "rs ! i")
  have "tab ! i = view (rs ! i)" unfolding assms(3)[symmetric] using i(1) by (rule nth_map)
  then have "fst (tab ! i) = e" "snd (tab ! i) = window_of b p" by (simp_all add: r)
  then show thesis using r i by (intro that[of b p]) simp_all
qed

lemma clear_refines:
  assumes "regions_ok l rs" "i < max_flows l" "map view rs = tab"
  shows "refines l (and_then (clear_flow (tracker_of l rs st) i) (\<lambda>t. Done (counting c t, r))) (tab[i := unused l], c st, r)"
proof -
  obtain b p where r: "rs ! i = (fst (tab ! i), b, p)" "length b = max_buffered_bytes l" using viewed_region[OF assms] by blast
  show ?thesis
    unfolding clear_flow_region[OF assms(1,2) r(1)] and_then.simps tracker_of_simps
    by (rule refines_Done) (use assms r(2) in \<open>simp_all add: map_view_update(2) window_of_zero\<close>)
qed

lemma reject_refines:
  assumes "regions_ok l rs" "i < max_flows l" "map view rs = tab"
  shows "refines l (refuse (tracker_of l rs st) i now c r) (tab[i := refused l now (fst (tab ! i))], c st, r)"
proof -
  obtain b p where r: "rs ! i = (fst (tab ! i), b, p)" "length b = max_buffered_bytes l" using viewed_region[OF assms] by blast
  show ?thesis
    unfolding reject_flow_region[OF assms(1,2) r(1)] and_then.simps tracker_of_simps
    by (rule refines_Done) (use assms r(2) in \<open>simp_all add: map_view_update(2) window_of_zero refused_def\<close>)
qed

lemma window_queries:
  assumes "regions_ok l rs" "i < max_flows l" "map view rs = tab"
  shows "range_count (tracker_of l rs st) i = Done (ranges (snd (tab ! i)))"
    and "contiguous_size (tracker_of l rs st) i = Done (length (prefix (snd (tab ! i))))"
    and "flow_has_bytes (tracker_of l rs st) i = Done (snd (tab ! i) \<noteq> replicate (max_buffered_bytes l) None)"
proof -
  obtain b p where r: "rs ! i = (fst (tab ! i), b, p)" and w: "window_of b p = snd (tab ! i)"
    and len: "length b = max_buffered_bytes l" "length p = max_buffered_bytes l" using viewed_region[OF assms] by blast
  note p = region_access(4)[OF assms(1,2) r] and same = trans[OF len(1) len(2)[symmetric]]
  show "range_count (tracker_of l rs st) i = Done (ranges (snd (tab ! i)))"
    "contiguous_size (tracker_of l rs st) i = Done (length (prefix (snd (tab ! i))))"
    "flow_has_bytes (tracker_of l rs st) i = Done (snd (tab ! i) \<noteq> replicate (max_buffered_bytes l) None)"
    using range_loop_window[OF same, of False 0] contiguous_loop_window[OF same, of 0] has_bytes_window[OF same]
    by (simp_all add: range_count_def contiguous_size_def flow_has_bytes_def p ranges_def w len)
qed

lemma close_refines:
  assumes "regions_ok l rs" "i < max_flows l" "map view rs = tab"
  shows "refines l (and_then (close_flow (tracker_of l rs st) i now) (\<lambda>t. Done (t, r))) (tab[i := closed l now (tab ! i)], inc_closed st, r)"
proof (cases "snd (tab ! i) = replicate (max_buffered_bytes l) None")
  case True
  have "and_then (close_flow (tracker_of l rs st) i now) (\<lambda>t. Done (t, r))
      = and_then (clear_flow (tracker_of l rs st) i) (\<lambda>t. Done (counting inc_closed t, r))"
    by (cases "clear_flow (tracker_of l rs st) i") (simp_all add: close_flow_def window_queries(3)[OF assms] True)
  then show ?thesis using clear_refines[OF assms, of st inc_closed r] True by (simp add: closed_def)
next
  case False
  have "and_then (close_flow (tracker_of l rs st) i now) (\<lambda>t. Done (t, r)) = refuse (tracker_of l rs st) i now inc_closed r"
    by (cases "reject_flow (tracker_of l rs st) i now") (simp_all add: close_flow_def window_queries(3)[OF assms] False)
  then show ?thesis using reject_refines[OF assms, of st now inc_closed r] False by (simp add: closed_def)
qed

lemma consume_refines:
  assumes "regions_ok l rs" "i < max_flows l" "map view rs = tab" "n \<le> max_buffered_bytes l"
  shows "refines l (and_then (consume_prefix (tracker_of l rs st) i n) (\<lambda>t. Done (counting c t, r)))
    (tab[i := ((fst (tab ! i))\<lparr>base_sequence := base_sequence (fst (tab ! i)) + of_nat n\<rparr>, consumed_window n (snd (tab ! i)))], c st, r)"
proof -
  obtain b p where r: "rs ! i = (fst (tab ! i), b, p)" and w: "window_of b p = snd (tab ! i)"
    and len: "length b = max_buffered_bytes l" "length p = max_buffered_bytes l" using viewed_region[OF assms(1-3)] by blast
  let ?e = "fst (tab ! i)" and ?b = "drop n b @ replicate n 0" and ?p = "drop n p @ replicate n 0"
  have i: "i < length rs" by (rule regions_ok_nth(1)[OF assms(1,2)])
  have len': "length ?b = max_buffered_bytes l" "length ?p = max_buffered_bytes l" using len assms(4) by simp_all
  have r1: "regions_ok l (rs[i := (?e, ?b, p)])" "(rs[i := (?e, ?b, p)]) ! i = (?e, ?b, p)"
    and r2: "regions_ok l (rs[i := (?e, ?b, ?p)])" "(rs[i := (?e, ?b, ?p)]) ! i = (?e, ?b, ?p)"
    using assms(1) i len len' by (simp_all del: length_append)
  note a = region_access[OF assms(1,2) r] and a1 = region_access[OF r1(1) assms(2) r1(2)] and a2 = region_access[OF r2(1) assms(2) r2(2)]
  have "consume_prefix (tracker_of l rs st) i n = Done (tracker_of l (rs[i := (?e\<lparr>base_sequence := base_sequence ?e + of_nat n\<rparr>, ?b, ?p)]) st)"
    using assms(4) len by (simp add: consume_prefix_def a(3,4) shift_slice_eq a(5)[OF len'(1)] a1(6)[OF len'(2)] a2(1,2))
  moreover have "window_of ?b ?p = consumed_window n (snd (tab ! i))"
    using window_consumed[of b p n] len assms(4) w by simp
  ultimately show ?thesis
    using assms(1,3) len' by (auto intro!: refines_Done simp: map_view_update(2) simp del: length_append)
qed

lemma insert_payload_region:
  assumes "regions_ok l rs" "i < max_flows l" "map view rs = tab" "off + length xs \<le> max_buffered_bytes l"
  shows "agrees (snd (tab ! i)) off xs \<Longrightarrow> \<exists>rs'. insert_payload (tracker_of l rs st) i off xs
      = Done (tracker_of l rs' st, if news (snd (tab ! i)) off xs then JG_TCP_STREAM_BUFFERED else JG_TCP_STREAM_DUPLICATE, news (snd (tab ! i)) off xs)
      \<and> regions_ok l rs' \<and> map view rs' = tab[i := (fst (tab ! i), blit (snd (tab ! i)) off (map Some xs))]"
    and "\<not> agrees (snd (tab ! i)) off xs \<Longrightarrow> \<exists>rs' c w. insert_payload (tracker_of l rs st) i off xs
      = Done (tracker_of l rs' st, JG_TCP_STREAM_CONFLICT, c) \<and> regions_ok l rs' \<and> map view rs' = tab[i := (fst (tab ! i), w)]"
proof -
  obtain b p where r: "rs ! i = (fst (tab ! i), b, p)" and w: "window_of b p = snd (tab ! i)"
    and len: "length b = max_buffered_bytes l" "length p = max_buffered_bytes l" using viewed_region[OF assms(1-3)] by blast
  let ?e = "fst (tab ! i)"
  have i: "i < length rs" by (rule regions_ok_nth(1)[OF assms(1,2)])
  note a = region_access[OF assms(1,2) r]
  have run: "insert_payload (tracker_of l rs st) i off xs = Done (tracker_of l (rs[i := (?e, b', p')]) st,
      if \<not> ag then JG_TCP_STREAM_CONFLICT else if c then JG_TCP_STREAM_BUFFERED else JG_TCP_STREAM_DUPLICATE, c)
      \<and> regions_ok l (rs[i := (?e, b', p')]) \<and> map view (rs[i := (?e, b', p')]) = tab[i := (?e, window_of b' p')]"
    if "insert_loop b p off xs False = Done (b', p', ag, c)" "length b' = max_buffered_bytes l" "length p' = max_buffered_bytes l" for b' p' ag c
  proof -
    have r1: "regions_ok l (rs[i := (?e, b', p)])" "(rs[i := (?e, b', p)]) ! i = (?e, b', p)" using assms(1) i len that by simp_all
    show ?thesis
      using that assms(1,3) region_access(6)[OF r1(1) assms(2) r1(2) that(3)]
      by (simp add: insert_payload_def a(3,4) a(5)[OF that(2)] map_view_update(2))
  qed
  note loop = insert_loop_window[OF len assms(4), of False, unfolded w]
  show "\<exists>rs'. insert_payload (tracker_of l rs st) i off xs
      = Done (tracker_of l rs' st, if news (snd (tab ! i)) off xs then JG_TCP_STREAM_BUFFERED else JG_TCP_STREAM_DUPLICATE, news (snd (tab ! i)) off xs)
      \<and> regions_ok l rs' \<and> map view rs' = tab[i := (?e, blit (snd (tab ! i)) off (map Some xs))]" if ag: "agrees (snd (tab ! i)) off xs"
  proof -
    obtain b' p' where loop': "insert_loop b p off xs False = Done (b', p', True, news (snd (tab ! i)) off xs)"
      "length b' = max_buffered_bytes l" "length p' = max_buffered_bytes l" "window_of b' p' = blit (snd (tab ! i)) off (map Some xs)"
      using loop ag by auto
    show ?thesis using run[OF loop'(1-3)] unfolding loop'(4) by (intro exI[of _ "rs[i := (?e, b', p')]"]) simp
  qed
  show "\<exists>rs' c w. insert_payload (tracker_of l rs st) i off xs = Done (tracker_of l rs' st, JG_TCP_STREAM_CONFLICT, c)
      \<and> regions_ok l rs' \<and> map view rs' = tab[i := (?e, w)]" if ag: "\<not> agrees (snd (tab ! i)) off xs"
  proof -
    obtain b' p' c where loop': "insert_loop b p off xs False = Done (b', p', False, c)"
      "length b' = max_buffered_bytes l" "length p' = max_buffered_bytes l" using loop ag by auto
    show ?thesis using run[OF loop'] by (intro exI[of _ "rs[i := (?e, b', p')]"] exI[of _ c] exI[of _ "window_of b' p'"]) simp
  qed
qed

section \<open>Opening a flow\<close>

definition spec_open ::
  "jg_tcp_stream_limits \<Rightarrow> flow list \<Rightarrow> jg_tcp_stream_stats \<Rightarrow> jg_packet_view \<Rightarrow> u64 \<Rightarrow> flow list \<times> jg_tcp_stream_stats \<times> (settled + nat \<times> bool)" where
  "spec_open l tab0 st0 packet now =
     (let tab = spec_expire l now tab0; st = add_timeouts (timed_out now tab0) st0; k = packet_stream_key packet;
          found = spec_find k tab; syn = has_flag packet JG_TCP_FLAG_SYN in
      if has_flag packet JG_TCP_FLAG_RST then
        (case found of None \<Rightarrow> (tab, inc_closed st, Inl (JG_TCP_STREAM_CLOSED, no_chunk))
         | Some i \<Rightarrow> (tab[i := unused l], inc_closed st, Inl (JG_TCP_STREAM_CLOSED, no_chunk\<lparr>chunk_flow_index := Some i\<rparr>)))
      else if found \<noteq> None \<and> \<not> syn then
        (if flow_rejected (fst (tab ! the found)) then (tab, inc_conflicts st, Inl (JG_TCP_STREAM_CONFLICT, no_chunk))
         else (tab, st, Inr (the found, False)))
      else
        let tab = (case found of None \<Rightarrow> tab | Some i \<Rightarrow> tab[i := unused l]);
            free = (case found of None \<Rightarrow> spec_free tab | Some i \<Rightarrow> Some i) in
        if payload_size packet = 0 \<and> \<not> syn then
          (if has_flag packet JG_TCP_FLAG_FIN then (tab, inc_closed st, Inl (JG_TCP_STREAM_CLOSED, no_chunk))
           else (tab, inc_duplicates st, Inl (JG_TCP_STREAM_DUPLICATE, no_chunk)))
        else (case free of
            None \<Rightarrow> (tab, inc_exhausted st, Inl (JG_TCP_STREAM_EXHAUSTED, no_chunk))
          | Some i \<Rightarrow>
              if spec_count k tab \<ge> max_flows_per_source l then (tab, inc_exhausted st, Inl (JG_TCP_STREAM_EXHAUSTED, no_chunk))
              else (tab[i := (opened_entry l k (payload_sequence packet) now, replicate (max_buffered_bytes l) None)], st, Inr (i, True))))"

definition stream_packet :: "jg_packet_view \<Rightarrow> bool" where
  "stream_packet p \<longleftrightarrow> address_size p \<le> 16 \<and> vlan_count p \<le> 8 \<and> length (source_address p) = 16 \<and> length (destination_address p) = 16
     \<and> payload_offset p + payload_size p \<le> frame_size p"

lemma build_stream_key:
  assumes "stream_packet p"
  shows "build_key p = Done (packet_stream_key p)" "canonical_stream_key (packet_stream_key p)"
proof -
  show "build_key p = Done (packet_stream_key p)"
    using assms by (simp add: stream_packet_def build_key_def packet_stream_key_def cleared_stream_key_def blit_start)
  show "canonical_stream_key (packet_stream_key p)"
    unfolding canonical_stream_key_def
    by (rule exI[of _ "take (address_size p) (source_address p)"], rule exI[of _ "take (address_size p) (destination_address p)"],
        rule exI[of _ "map (\<lambda>tci. tci AND 0x0FFF) (vlan_tci p)"]) (use assms in \<open>simp add: stream_packet_def packet_stream_key_def\<close>)
qed

lemma flow_ok_unused: "flow_ok l (unused l)"
  by (simp add: flow_ok_def cleared_flow_def)

lemma table_ok_update: "table_ok l tab \<Longrightarrow> flow_ok l f \<Longrightarrow> table_ok l (tab[i := f])"
  by (auto simp: table_ok_def dest!: set_update_subset_insert[THEN subsetD])

lemma table_ok_expire: "table_ok l tab \<Longrightarrow> table_ok l (spec_expire l now tab)"
  using flow_ok_unused by (auto simp: table_ok_def spec_expire_def)

lemma spec_find_Some:
  assumes "spec_find k tab = Some i" "table_ok l tab"
  shows "i < max_flows l" "flow_active (fst (tab ! i))" "flow_key (fst (tab ! i)) = k"
  using assms by (auto simp: spec_find_def table_ok_def dest!: first_index_Some)

lemma spec_free_Some:
  assumes "spec_free tab = Some i" "table_ok l tab"
  shows "i < max_flows l" "tab ! i = unused l"
proof -
  show i: "i < max_flows l" using assms by (auto simp: spec_free_def table_ok_def dest!: first_index_Some)
  have "flow_ok l (tab ! i)" "\<not> flow_active (fst (tab ! i))"
    using assms i by (auto simp: spec_free_def table_ok_def dest!: first_index_Some)
  then show "tab ! i = unused l" by (simp add: flow_ok_def)
qed

lemma create_refines:
  assumes "regions_ok l rs" "map view rs = tab" "i < max_flows l" "tab ! i = unused l"
  shows "refines l (and_then (source_flow_count (tracker_of l rs st) k) (\<lambda>n.
      if n \<ge> max_flows_per_source l then Done (counting inc_exhausted (tracker_of l rs st), Inl x)
      else and_then (initialize_flow (tracker_of l rs st) i k base now) (\<lambda>t. Done (t, Inr y))))
    (if spec_count k tab \<ge> max_flows_per_source l then (tab, inc_exhausted st, Inl x)
     else (tab[i := (opened_entry l k base now, replicate (max_buffered_bytes l) None)], st, Inr y))"
proof -
  obtain b p where r: "rs ! i = (cleared_flow, b, p)" and w: "window_of b p = replicate (max_buffered_bytes l) None"
    and len: "length b = max_buffered_bytes l" "length p = max_buffered_bytes l" using viewed_region[OF assms(1,3,2)] assms(4) by auto
  show ?thesis
    using assms len w unfolding source_flow_count_regions[OF assms(1)] initialize_flow_region[OF assms(1,3) r]
    by (auto intro!: refines_Done simp: map_view_update(2))
qed

lemma open_refines:
  assumes "regions_ok l rs0" "map view rs0 = tab0" "table_ok l tab0" "stream_packet packet"
  shows "refines l (open_flow (tracker_of l rs0 st0) packet now) (spec_open l tab0 st0 packet now)"
proof -
  define k where "k = packet_stream_key packet"
  define rs where "rs = map (expired_region l now) rs0"
  define tab where "tab = spec_expire l now tab0"
  define st where "st = add_timeouts (timed_out now tab0) st0"
  note expire = expire_flows_regions(1)[OF assms(1), of st0 now, unfolded assms(2), folded rs_def st_def]
  have rs: "regions_ok l rs" "map view rs = tab" "table_ok l tab"
    using expire_flows_regions(2,3)[OF assms(1)] table_ok_expire[OF assms(3)] assms(2) by (simp_all add: rs_def tab_def)
  obtain free where find: "find_flow (tracker_of l rs st) k = Done (spec_find k tab, free)"
    and free: "spec_find k tab = None \<Longrightarrow> free = spec_free tab"
    using find_flow_regions[OF rs(1) _ build_stream_key(2)[OF assms(4), folded k_def], of st] rs(2,3) by auto
  note start = build_stream_key(1)[OF assms(4), folded k_def] expire find
  let ?syn = "has_flag packet JG_TCP_FLAG_SYN" and ?rst = "has_flag packet JG_TCP_FLAG_RST" and ?fin = "has_flag packet JG_TCP_FLAG_FIN"
  have fresh: "refines l (case free' of
        None \<Rightarrow> Done (counting inc_exhausted (tracker_of l rs' st), Inl (JG_TCP_STREAM_EXHAUSTED, no_chunk))
      | Some i \<Rightarrow> and_then (source_flow_count (tracker_of l rs' st) k) (\<lambda>n.
          if n \<ge> max_flows_per_source l then Done (counting inc_exhausted (tracker_of l rs' st), Inl (JG_TCP_STREAM_EXHAUSTED, no_chunk))
          else and_then (initialize_flow (tracker_of l rs' st) i k (payload_sequence packet) now) (\<lambda>t. Done (t, Inr (i, True)))))
      (case free' of None \<Rightarrow> (tab', inc_exhausted st, Inl (JG_TCP_STREAM_EXHAUSTED, no_chunk))
       | Some i \<Rightarrow> if spec_count k tab' \<ge> max_flows_per_source l then (tab', inc_exhausted st, Inl (JG_TCP_STREAM_EXHAUSTED, no_chunk))
           else (tab'[i := (opened_entry l k (payload_sequence packet) now, replicate (max_buffered_bytes l) None)], st, Inr (i, True)))"
    if "regions_ok l rs'" "map view rs' = tab'" "\<And>i. free' = Some i \<Longrightarrow> i < max_flows l \<and> tab' ! i = unused l" for rs' tab' free'
  proof (cases free')
    case None
    then show ?thesis using that(1,2) by (auto intro: refines_Done)
  next
    case (Some i)
    show ?thesis unfolding Some option.case by (rule create_refines[OF that(1,2)]) (use that(3)[OF Some] in blast)+
  qed
  show ?thesis
  proof (cases "spec_find k tab")
    case None
    note fresh[OF rs(1,2), of "spec_free tab"]
    moreover have "i < max_flows l \<and> tab ! i = unused l" if "spec_free tab = Some i" for i using spec_free_Some[OF that rs(3)] by simp
    ultimately show ?thesis
      unfolding open_flow_def start None free[OF None] and_then.simps spec_open_def k_def[symmetric] tab_def[symmetric] st_def[symmetric] Let_def prod.case option.case tracker_of_simps(1)
      by (cases ?rst; cases ?fin; cases "payload_size packet = 0 \<and> \<not> ?syn") (auto simp: None refines_Done[OF rs(1,2)] split del: if_split)
  next
    case (Some i)
    note i = spec_find_Some[OF Some rs(3)]
    obtain b p where r: "rs ! i = (fst (tab ! i), b, p)" and len: "length b = max_buffered_bytes l"
      using viewed_region[OF rs(1) i(1) rs(2)] by blast
    let ?rs = "rs[i := (cleared_flow, b, replicate (max_buffered_bytes l) 0)]"
    have cleared: "clear_flow (tracker_of l rs st) i = Done (tracker_of l ?rs st)" "regions_ok l ?rs" "map view ?rs = tab[i := unused l]"
      using clear_flow_region[OF rs(1) i(1) r] rs len by (simp_all add: map_view_update(2) window_of_zero)
    have at: "tab[i := unused l] ! i = unused l" using rs(3) i(1) by (simp add: table_ok_def)
    show ?thesis
      using fresh[OF cleared(2,3), of "Some i"] at i(1)
      unfolding open_flow_def start Some and_then.simps spec_open_def k_def[symmetric] tab_def[symmetric] st_def[symmetric] Let_def prod.case option.case tracker_of_simps(1)
      by (cases ?rst; cases ?syn; cases ?fin; cases "flow_rejected (fst (tab ! i))")
        (auto simp: Some rs cleared refines_Done[OF cleared(2,3)] refines_Done[OF rs(1,2)] region_access(1)[OF rs(1) i(1) r] split del: if_split)
  qed
qed

section \<open>Placing a payload\<close>

definition spec_place ::
  "jg_tcp_stream_limits \<Rightarrow> flow list \<Rightarrow> jg_tcp_stream_stats \<Rightarrow> nat \<Rightarrow> bool \<Rightarrow> jg_packet_view \<Rightarrow> u64 \<Rightarrow>
   flow list \<times> jg_tcp_stream_stats \<times> (settled + bool)" where
  "spec_place l tab0 st i is_new packet now =
     (let e = (fst (tab0 ! i))\<lparr>idle_deadline := deadline now (idle_timeout_ms l)\<rparr>; w = snd (tab0 ! i); tab = tab0[i := (e, w)];
          chunk = no_chunk\<lparr>chunk_flow_index := Some i, chunk_new_flow := is_new\<rparr>;
          fin = has_flag packet JG_TCP_FLAG_FIN;
          finished = (tab[i := closed l now (e, w)], inc_closed st, Inl (JG_TCP_STREAM_CLOSED, chunk\<lparr>chunk_closed := True\<rparr>));
          refusal = (\<lambda>c r. (tab[i := refused l now e], c st, Inl (r, chunk))) in
      if payload_size packet = 0 then (if fin then finished else (tab, st, Inl (JG_TCP_STREAM_BUFFERED, chunk)))
      else case locate_payload (base_sequence e) (payload_sequence packet) (slice (payload_offset packet) (payload_size packet) (frame packet)) of
        None \<Rightarrow> if fin then finished else (tab, inc_duplicates st, Inl (JG_TCP_STREAM_DUPLICATE, chunk))
      | Some (off, xs) \<Rightarrow>
          if off + length xs > max_buffered_bytes l then refusal inc_exhausted JG_TCP_STREAM_EXHAUSTED
          else if \<not> agrees w off xs then refusal inc_conflicts JG_TCP_STREAM_CONFLICT
          else let w' = blit w off (map Some xs) in
            if ranges w' > max_out_of_order_segments l then refusal inc_exhausted JG_TCP_STREAM_EXHAUSTED
            else (tab[i := (e, w')], st, Inr (news w off xs)))"

lemma place_refines:
  assumes "regions_ok l rs0" "map view rs0 = tab0" "i < max_flows l" "stream_packet packet"
  shows "refines l (place_payload (tracker_of l rs0 st) i is_new packet now) (spec_place l tab0 st i is_new packet now)"
proof -
  obtain b p where r0: "rs0 ! i = (fst (tab0 ! i), b, p)" and w: "window_of b p = snd (tab0 ! i)"
    and len: "length b = max_buffered_bytes l" "length p = max_buffered_bytes l" using viewed_region[OF assms(1,3,2)] by blast
  define e where "e = (fst (tab0 ! i))\<lparr>idle_deadline := deadline now (idle_timeout_ms l)\<rparr>"
  define rs where "rs = rs0[i := (e, b, p)]"
  define tab where "tab = tab0[i := (e, snd (tab0 ! i))]"
  have rs: "regions_ok l rs" "map view rs = tab" using assms(1,2) len w by (simp_all add: rs_def tab_def map_view_update(2))
  have n: "i < length tab0" using regions_ok_nth(1)[OF assms(1,3)] assms(2) by auto
  have at: "tab ! i = (e, snd (tab0 ! i))" using n by (simp add: tab_def)
  let ?chunk = "no_chunk\<lparr>chunk_flow_index := Some i, chunk_new_flow := is_new\<rparr>"
  let ?xs = "slice (payload_offset packet) (payload_size packet) (frame packet)"
  have payload: "bytes_at (frame packet) (payload_offset packet) (payload_size packet) = Some ?xs" using assms(4) by (simp add: stream_packet_def)
  note start = region_access(1)[OF assms(1,3) r0, of st]
    region_access(2)[OF assms(1,3) r0, of st e, folded rs_def]
  note finish = close_refines[OF rs(1) assms(3) rs(2), of st now, unfolded at] and reject = reject_refines[OF rs(1) assms(3) rs(2), of st now, unfolded at fst_conv]
  have base: "base_sequence (fst (tab0 ! i)) = base_sequence e" by (simp add: e_def)
  have insert: "refines l (and_then (insert_payload (tracker_of l rs st) i off xs) (\<lambda>(t, operation, changed).
        if operation = JG_TCP_STREAM_CONFLICT then refuse t i now inc_conflicts (Inl (JG_TCP_STREAM_CONFLICT, ?chunk))
        else and_then (range_count t i) (\<lambda>n. if n > max_out_of_order_segments (stream_limits t)
          then refuse t i now inc_exhausted (Inl (JG_TCP_STREAM_EXHAUSTED, ?chunk)) else Done (t, Inr changed))))
      (if \<not> agrees (snd (tab0 ! i)) off xs then (tab[i := refused l now e], inc_conflicts st, Inl (JG_TCP_STREAM_CONFLICT, ?chunk))
       else let w' = blit (snd (tab0 ! i)) off (map Some xs) in
         if ranges w' > max_out_of_order_segments l then (tab[i := refused l now e], inc_exhausted st, Inl (JG_TCP_STREAM_EXHAUSTED, ?chunk))
         else (tab[i := (e, w')], st, Inr (news (snd (tab0 ! i)) off xs)))"
    if fits: "off + length xs \<le> max_buffered_bytes l" for off xs
  proof (cases "agrees (snd (tab0 ! i)) off xs")
    case False
    then obtain rs' c w' where rs': "insert_payload (tracker_of l rs st) i off xs = Done (tracker_of l rs' st, JG_TCP_STREAM_CONFLICT, c)"
      "regions_ok l rs'" "map view rs' = tab[i := (e, w')]"
      using insert_payload_region(2)[OF rs(1) assms(3) rs(2) fits, of st] at by auto
    show ?thesis
      using reject_refines[OF rs'(2) assms(3) rs'(3), of st now inc_conflicts "Inl (JG_TCP_STREAM_CONFLICT, ?chunk)"] n False rs'(1)
      by (simp add: tab_def)
  next
    case True
    then obtain rs' where rs': "insert_payload (tracker_of l rs st) i off xs
        = Done (tracker_of l rs' st, if news (snd (tab0 ! i)) off xs then JG_TCP_STREAM_BUFFERED else JG_TCP_STREAM_DUPLICATE, news (snd (tab0 ! i)) off xs)"
      "regions_ok l rs'" "map view rs' = tab[i := (e, blit (snd (tab0 ! i)) off (map Some xs))]"
      using insert_payload_region(1)[OF rs(1) assms(3) rs(2) fits, of st] at by auto
    show ?thesis
      using reject_refines[OF rs'(2) assms(3) rs'(3), of st now inc_exhausted "Inl (JG_TCP_STREAM_EXHAUSTED, ?chunk)"]
        window_queries(1)[OF rs'(2) assms(3) rs'(3), of st] n True rs'
      by (auto simp: tab_def Let_def intro: refines_Done)
  qed
  note stay = refines_Done[OF rs]
  show ?thesis
  proof (cases "payload_size packet = 0")
    case True
    then show ?thesis
      unfolding place_payload_def spec_place_def Let_def start and_then.simps tracker_of_simps e_def[symmetric] tab_def[symmetric]
      by (simp add: finish stay)
  next
    case False
    note run = place_payload_def spec_place_def Let_def start and_then.simps tracker_of_simps e_def[symmetric] tab_def[symmetric]
      if_not_P[OF False] payload raw_simps base jg_range_valid_iff
    show ?thesis
    proof (cases "locate_payload (base_sequence e) (payload_sequence packet) ?xs")
      case None
      then show ?thesis unfolding run by (simp add: finish stay)
    next
      case (Some located)
      obtain off xs where located: "located = (off, xs)" by (cases located)
      show ?thesis
        unfolding run Some located option.case prod.case
        using reject[of inc_exhausted "Inl (JG_TCP_STREAM_EXHAUSTED, ?chunk)"] insert[of off xs, unfolded Let_def]
        by (cases "off + length xs \<le> max_buffered_bytes l") (simp_all add: not_less)
    qed
  qed
qed

section \<open>Delivering bytes\<close>

definition advanced :: "nat \<Rightarrow> flow \<Rightarrow> flow" where
  "advanced n f = ((fst f)\<lparr>base_sequence := base_sequence (fst f) + of_nat n\<rparr>, consumed_window n (snd f))"

definition spec_bytes ::
  "jg_tcp_stream_limits \<Rightarrow> flow list \<Rightarrow> jg_tcp_stream_stats \<Rightarrow> nat \<Rightarrow> bool \<Rightarrow> bool \<Rightarrow> bool \<Rightarrow> u64 \<Rightarrow>
   flow list \<times> jg_tcp_stream_stats \<times> jg_tcp_raw_stream_result \<times> jg_tcp_raw_stream_chunk \<times> bytes" where
  "spec_bytes l tab0 st0 i is_new fin changed now =
     (let xs = prefix (snd (tab0 ! i));
          chunk = no_chunk\<lparr>chunk_flow_index := Some i, chunk_size := length xs, chunk_new_flow := is_new, chunk_closed := fin\<rparr>;
          tab = (if xs = [] then tab0 else tab0[i := advanced (length xs) (tab0 ! i)]);
          st = (if xs \<noteq> [] then add_messages (length xs) st0 else if changed then inc_buffered st0 else inc_duplicates st0);
          r = (if xs \<noteq> [] then JG_TCP_RAW_STREAM_BYTES else if fin then JG_TCP_RAW_STREAM_CLOSED
               else if changed then JG_TCP_RAW_STREAM_BUFFERED else JG_TCP_RAW_STREAM_DUPLICATE) in
      if fin then (tab[i := closed l now (tab ! i)], inc_closed st, r, chunk, xs) else (tab, st, r, chunk, xs))"

lemma prefix_le: "length (prefix w) \<le> length w"
  by (simp add: prefix_def length_takeWhile_le)

lemma viewed_bytes:
  assumes "regions_ok l rs" "i < max_flows l" "map view rs = tab"
  shows "\<exists>b. flow_buffer (tracker_of l rs st) i = Done b \<and> length b = max_buffered_bytes l
    \<and> take (length (prefix (snd (tab ! i)))) b = prefix (snd (tab ! i)) \<and> length (prefix (snd (tab ! i))) \<le> max_buffered_bytes l"
proof -
  obtain b p where r: "rs ! i = (fst (tab ! i), b, p)" and w: "window_of b p = snd (tab ! i)"
    and len: "length b = max_buffered_bytes l" "length p = max_buffered_bytes l" using viewed_region[OF assms] by blast
  have "length (snd (tab ! i)) = max_buffered_bytes l" using len by (simp flip: w)
  then show ?thesis
    using region_access(3)[OF assms(1,2) r, of st] prefix_window[of b p] prefix_le[of "snd (tab ! i)"] w len by simp
qed

lemma bytes_refine:
  assumes "regions_ok l rs" "map view rs = tab" "i < max_flows l" "max_buffered_bytes l \<le> length out"
    and "spec_bytes l tab st i is_new fin changed now = (tab', st', r, chunk, xs)"
  shows "refines l (finish_bytes (tracker_of l rs st) i is_new fin changed now out) (tab', st', r, chunk, blit out 0 xs)"
proof -
  obtain b where b: "flow_buffer (tracker_of l rs st) i = Done b" "length b = max_buffered_bytes l"
    "take (length (prefix (snd (tab ! i)))) b = prefix (snd (tab ! i))" "length (prefix (snd (tab ! i))) \<le> max_buffered_bytes l"
    using viewed_bytes[OF assms(1,3,2)] by blast
  note size = window_queries(2)[OF assms(1,3,2)] and consume = consume_refines[OF assms(1,3,2) b(4), of st]
  have end_flow: "refines l (if fin then and_then (close_flow (tracker_of l rs' st1) i now) (\<lambda>t. Done (t, x)) else Done (tracker_of l rs' st1, y))
      (if fin then (tab1[i := closed l now (tab1 ! i)], inc_closed st1, x) else (tab1, st1, y))"
    if "regions_ok l rs'" "map view rs' = tab1" for rs' tab1 st1 and x y :: "jg_tcp_raw_stream_result \<times> jg_tcp_raw_stream_chunk \<times> bytes"
    using that close_refines[OF that(1) assms(3) that(2)] refines_Done[OF that] by auto
  let ?xs = "prefix (snd (tab ! i))" and ?chunk = "no_chunk\<lparr>chunk_flow_index := Some i, chunk_new_flow := is_new\<rparr>"
  show ?thesis
  proof (cases "?xs = []")
    case True
    then show ?thesis
      using end_flow[OF assms(1,2)] assms(5) by (auto simp: finish_bytes_def spec_bytes_def size no_chunk_def Let_def split: if_splits)
  next
    case False
    let ?n = "length ?xs" and ?tab = "tab[i := advanced (length ?xs) (tab ! i)]"
    have out: "raw (bytes_at b 0 ?n) = (Done ?xs :: (errno, bytes) run)" "raw (store_at out 0 ?xs) = (Done (blit out 0 ?xs) :: (errno, bytes) run)"
      using b assms(4) by (simp_all add: slice_def)
    obtain rs' where rs': "consume_prefix (tracker_of l rs st) i ?n = Done (tracker_of l rs' st)" "regions_ok l rs'" "map view rs' = ?tab"
      using consume_refines[OF assms(1,3,2) b(4), of st id "()"] unfolding refines_def advanced_def
      by (cases "consume_prefix (tracker_of l rs st) i ?n") (auto simp: tracker_of_def)
    show ?thesis
      using end_flow[OF rs'(2,3)] assms(5) False by (auto simp: finish_bytes_def spec_bytes_def size no_chunk_def Let_def b(1) out rs'(1) split: if_splits)
  qed
qed

section \<open>Delivering DNS messages\<close>

text \<open>
  The complete messages at the start of a byte sequence, each behind its 16-bit length, and whether what
  follows them can still become a message.
\<close>

function frames :: "jg_tcp_stream_limits \<Rightarrow> bytes \<Rightarrow> bytes list \<times> bool" where
  "frames l xs =
     (if length xs < 2 then ([], True)
      else let n = unat (xs ! 0) * 256 + unat (xs ! 1) in
        if n < 12 \<or> n > max_dns_message_size l then ([], False)
        else if n + 2 > length xs then ([], True)
        else let (ms, ok) = frames l (drop (n + 2) xs) in (take n (drop 2 xs) # ms, ok))"
  by pat_completeness auto
termination
  by (relation "measure (\<lambda>(l, xs). length xs)") auto

declare frames.simps [simp del]

fun locations :: "nat \<Rightarrow> bytes list \<Rightarrow> jg_tcp_stream_message list" where
  "locations off [] = []"
| "locations off (m # ms) = \<lparr>message_offset = off, message_size = length m\<rparr> # locations (off + length m) ms"

definition framed_size :: "bytes list \<Rightarrow> nat" where
  "framed_size ms = sum_list (map (\<lambda>m. length m + 2) ms)"

lemma length_locations [simp]: "length (locations off ms) = length ms"
  by (induction ms arbitrary: off) auto

lemma frames_size: "framed_size (fst (frames l xs)) \<le> length xs"
proof (induction l xs rule: frames.induct)
  case (1 l xs)
  then show ?case
    by (subst frames.simps) (auto simp: Let_def framed_size_def split: prod.split if_splits)
qed

lemma emit_loop_frames:
  assumes "xs = take contiguous b" "contiguous \<le> length b" "contiguous \<le> length out" "max_messages_per_packet l \<le> length msgs"
    and "cursor \<le> contiguous" "off \<le> cursor" "count \<le> max_messages_per_packet l" "frames l (drop cursor xs) = (ms, ok)"
  shows "\<exists>out' msgs'. length out' = length out \<and> length msgs' = length msgs \<and>
    emit_loop l b contiguous cursor off count out msgs = Done
     (if count + length ms > max_messages_per_packet l then (JG_TCP_STREAM_EXHAUSTED, out', msgs', 0, 0)
      else if \<not> ok then (JG_TCP_STREAM_MALFORMED, out', msgs', 0, 0)
      else (if count + length ms = 0 then JG_TCP_STREAM_BUFFERED else JG_TCP_STREAM_MESSAGES,
        blit out off (concat ms), blit msgs count (locations off ms), count + length ms, cursor + framed_size ms))"
  using assms
proof (induction "contiguous - cursor" arbitrary: cursor off count out msgs ms ok rule: less_induct)
  case less
  define ys where "ys = drop cursor xs"
  have len: "length ys = contiguous - cursor" using less.prems(1,2) by (simp add: ys_def)
  show ?case
  proof (cases "contiguous - cursor < 2")
    case True
    then have "ms = []" "ok" using less.prems(8)[folded ys_def] len by (simp_all add: frames.simps[of l ys])
    then show ?thesis using True less.prems(7) by (subst emit_loop.simps) (auto simp: framed_size_def)
  next
    case False
    define n where "n = unat (b ! cursor) * 256 + unat (b ! (cursor + 1))"
    have at: "ys ! 0 = b ! cursor" "ys ! 1 = b ! (cursor + 1)" "cursor + 1 < length b" "cursor < length b"
      using False less.prems(1,2) by (auto simp: ys_def)
    have frames: "frames l ys = (if n < 12 \<or> n > max_dns_message_size l then ([], False) else if n + 2 > contiguous - cursor then ([], True)
        else let (ms, ok) = frames l (drop (n + 2) ys) in (take n (drop 2 ys) # ms, ok))"
      using False len at by (subst frames.simps) (simp add: n_def Let_def)
    have loop: "emit_loop l b contiguous cursor off count out msgs =
       (if n < 12 \<or> n > max_dns_message_size l then Done (JG_TCP_STREAM_MALFORMED, out, msgs, 0, 0)
        else if n + 2 > contiguous - cursor then Done (if count = 0 then JG_TCP_STREAM_BUFFERED else JG_TCP_STREAM_MESSAGES, out, msgs, count, cursor)
        else if count \<ge> max_messages_per_packet l then Done (JG_TCP_STREAM_EXHAUSTED, out, msgs, 0, 0)
        else and_then (raw (store_at msgs count [\<lparr>message_offset = off, message_size = n\<rparr>])) (\<lambda>messages.
          and_then (raw (bytes_at b (cursor + 2) n)) (\<lambda>message.
          and_then (raw (store_at out off message)) (\<lambda>out.
            emit_loop l b contiguous (cursor + (n + 2)) (off + n) (count + 1) out messages))))"
      using False at(3,4) by (subst emit_loop.simps) (simp add: n_def Let_def)
    consider (bad) "n < 12 \<or> n > max_dns_message_size l" | (short) "\<not> (n < 12 \<or> n > max_dns_message_size l)" "n + 2 > contiguous - cursor"
      | (message) "\<not> (n < 12 \<or> n > max_dns_message_size l)" "n + 2 \<le> contiguous - cursor" by linarith
    then show ?thesis
    proof cases
      case bad
      then show ?thesis using frames loop less.prems(7) less.prems(8)[folded ys_def] by auto
    next
      case short
      then show ?thesis using frames loop less.prems(7) less.prems(8)[folded ys_def] by (auto simp: framed_size_def)
    next
      case message
      let ?m = "take n (drop 2 ys)"
      obtain ms' ok' where rest: "frames l (drop (n + 2) ys) = (ms', ok')" by (cases "frames l (drop (n + 2) ys)")
      have here: "ms = ?m # ms'" "ok = ok'" using frames message rest less.prems(8)[folded ys_def] by auto
      have m: "bytes_at b (cursor + 2) n = Some ?m" "length ?m = n"
      proof -
        have "take n (drop 2 ys) = take (min n (contiguous - (cursor + 2))) (drop (cursor + 2) b)"
          by (simp add: ys_def less.prems(1) drop_take add.commute)
        moreover have "min n (contiguous - (cursor + 2)) = n" "cursor + 2 + n \<le> length b" using message(2) less.prems(2) by auto
        ultimately show "bytes_at b (cursor + 2) n = Some ?m" "length ?m = n" by (simp_all add: slice_def)
      qed
      show ?thesis
      proof (cases "count \<ge> max_messages_per_packet l")
        case True
        then show ?thesis using loop message here(1) by auto
      next
        case False
        have fits: "off + length ?m \<le> length out" "count + 1 \<le> length msgs" using message(2) less.prems(3,4,5,6) False m(2) by linarith+
        define out1 where "out1 = blit out off ?m"
        define msgs1 where "msgs1 = blit msgs count [\<lparr>message_offset = off, message_size = n\<rparr>]"
        have len1: "length out1 = length out" "length msgs1 = length msgs" using fits by (simp_all add: out1_def msgs1_def del: length_take length_drop)
        have pre: "contiguous - (cursor + (n + 2)) < contiguous - cursor" "contiguous \<le> length out1" "max_messages_per_packet l \<le> length msgs1"
          "cursor + (n + 2) \<le> contiguous" "off + n \<le> cursor + (n + 2)" "count + 1 \<le> max_messages_per_packet l"
          using message(2) less.prems(3-6) False len1 by linarith+
        have "frames l (drop (cursor + (n + 2)) xs) = (ms', ok')" using rest by (simp add: ys_def add.commute)
        from less.hyps[OF pre(1) less.prems(1,2) pre(2-6) this]
        obtain out' msgs' where IH: "length out' = length out1" "length msgs' = length msgs1"
          "emit_loop l b contiguous (cursor + (n + 2)) (off + n) (count + 1) out1 msgs1 = Done
           (if count + 1 + length ms' > max_messages_per_packet l then (JG_TCP_STREAM_EXHAUSTED, out', msgs', 0, 0)
            else if \<not> ok' then (JG_TCP_STREAM_MALFORMED, out', msgs', 0, 0)
            else (if count + 1 + length ms' = 0 then JG_TCP_STREAM_BUFFERED else JG_TCP_STREAM_MESSAGES, blit out1 (off + n) (concat ms'),
              blit msgs1 (count + 1) (locations (off + n) ms'), count + 1 + length ms', cursor + (n + 2) + framed_size ms'))"
          by blast
        have loop1: "emit_loop l b contiguous cursor off count out msgs = emit_loop l b contiguous (cursor + (n + 2)) (off + n) (count + 1) out1 msgs1"
          using loop message False m(1) fits by (simp add: out1_def msgs1_def del: length_take length_drop)
        have size: "framed_size ms' \<le> length (drop (n + 2) ys)" using frames_size[of l "drop (n + 2) ys"] rest by simp
        have "length (concat ms') \<le> framed_size ms'" unfolding framed_size_def by (induction ms') auto
        then have "off + length ?m + length (concat ms') \<le> length out" using size len m(2) message(2) less.prems(3,5,6) by simp
        from blit_blit_adjacent[OF add_leD1[OF this]] have blit_out: "blit out1 (off + n) (concat ms') = blit out off (concat ms)"
          unfolding out1_def m(2) here(1) by simp
        have blit_msgs: "blit msgs1 (count + 1) (locations (off + n) ms') = blit msgs count (locations off ms)"
          if "count + 1 + length ms' \<le> max_messages_per_packet l"
          using blit_blit_adjacent[of count "[\<lparr>message_offset = off, message_size = n\<rparr>]" msgs "locations (off + n) ms'"] that less.prems(4) m(2)
          unfolding msgs1_def here(1) by simp
        have sizes: "count + length ms = count + 1 + length ms'" "cursor + framed_size ms = cursor + (n + 2) + framed_size ms'"
          using m(2) by (simp_all add: here(1) framed_size_def)
        show ?thesis
          unfolding loop1 IH(3) sizes here(2) using IH(1,2) len1 blit_out blit_msgs
          by (intro exI[of _ out'] exI[of _ msgs']) (auto simp: not_less)
      qed
    qed
  qed
qed

definition spec_messages ::
  "jg_tcp_stream_limits \<Rightarrow> flow list \<Rightarrow> jg_tcp_stream_stats \<Rightarrow> nat \<Rightarrow> bool \<Rightarrow> bool \<Rightarrow> u64 \<Rightarrow>
   flow list \<times> jg_tcp_stream_stats \<times> jg_tcp_stream_result \<times> bytes list" where
  "spec_messages l tab0 st0 i fin changed now =
     (let (ms, ok) = frames l (prefix (snd (tab0 ! i))) in
      if length ms > max_messages_per_packet l
      then (tab0[i := refused l now (fst (tab0 ! i))], inc_exhausted st0, JG_TCP_STREAM_EXHAUSTED, [])
      else if \<not> ok then (tab0[i := refused l now (fst (tab0 ! i))], inc_malformed st0, JG_TCP_STREAM_MALFORMED, [])
      else
      let tab = (if ms = [] then tab0 else tab0[i := advanced (framed_size ms) (tab0 ! i)]);
          st = (if ms \<noteq> [] then add_messages (length ms) st0 else if changed then inc_buffered st0 else inc_duplicates st0);
          r = (if ms \<noteq> [] then JG_TCP_STREAM_MESSAGES else if fin then JG_TCP_STREAM_CLOSED
               else if changed then JG_TCP_STREAM_BUFFERED else JG_TCP_STREAM_DUPLICATE) in
      if fin then (tab[i := closed l now (tab ! i)], inc_closed st, r, ms) else (tab, st, r, ms))"

text \<open>The messages that the caller reads from its output buffer and its message array.\<close>

definition delivered :: "bytes \<Rightarrow> jg_tcp_stream_message list \<Rightarrow> nat \<Rightarrow> bytes list" where
  "delivered out msgs count = map (\<lambda>m. slice (message_offset m) (message_size m) out) (take count msgs)"

lemma delivered_locations:
  "off + length (concat ms) \<le> length out \<Longrightarrow> map (\<lambda>m. slice (message_offset m) (message_size m) (blit out off (concat ms))) (locations off ms) = ms"
proof (induction ms arbitrary: off out)
  case (Cons m ms)
  have "blit out off (concat (m # ms)) = blit (blit out off m) (off + length m) (concat ms)" using Cons.prems by (simp add: blit_blit_adjacent)
  moreover have "slice off (length m) (blit (blit out off m) (off + length m) (concat ms)) = m"
    using Cons.prems by (subst slice_blit_other) simp_all
  ultimately show ?case using Cons.IH[of "off + length m" "blit out off m"] Cons.prems by simp
qed simp

lemma messages_refine:
  assumes "regions_ok l rs" "map view rs = tab" "i < max_flows l" "max_buffered_bytes l \<le> length out" "max_messages_per_packet l \<le> length msgs"
    and "spec_messages l tab st i fin changed now = (tab', st', r, ms)"
  shows "\<exists>out' msgs'. refines l (finish_messages (tracker_of l rs st) i fin changed now out msgs) (tab', st', r, out', msgs', length ms)
    \<and> length out' = length out \<and> length msgs' = length msgs \<and> delivered out' msgs' (length ms) = ms"
proof -
  obtain b where b: "flow_buffer (tracker_of l rs st) i = Done b" "length b = max_buffered_bytes l"
    "take (length (prefix (snd (tab ! i)))) b = prefix (snd (tab ! i))" "length (prefix (snd (tab ! i))) \<le> max_buffered_bytes l"
    using viewed_bytes[OF assms(1,3,2)] by blast
  let ?xs = "prefix (snd (tab ! i))"
  obtain ms0 ok where frames: "frames l ?xs = (ms0, ok)" by (cases "frames l ?xs")
  have size: "framed_size ms0 \<le> length ?xs" using frames_size[of l ?xs] frames by simp
  have concat: "length (concat ms0) \<le> framed_size ms0" unfolding framed_size_def by (induction ms0) auto
  obtain out1 msgs1 where emit: "length out1 = length out" "length msgs1 = length msgs"
    "emit_messages (tracker_of l rs st) i out msgs = Done
     (if length ms0 > max_messages_per_packet l then (JG_TCP_STREAM_EXHAUSTED, out1, msgs1, 0, 0)
      else if \<not> ok then (JG_TCP_STREAM_MALFORMED, out1, msgs1, 0, 0)
      else (if length ms0 = 0 then JG_TCP_STREAM_BUFFERED else JG_TCP_STREAM_MESSAGES,
        blit out 0 (concat ms0), blit msgs 0 (locations 0 ms0), length ms0, framed_size ms0))"
    using emit_loop_frames[of ?xs "length ?xs" b out l msgs 0 0 0 ms0 ok] b assms(4,5) frames
    by (auto simp: emit_messages_def window_queries(2)[OF assms(1,3,2)])
  note reject = reject_refines[OF assms(1,3,2), of st now]
  consider (many) "length ms0 > max_messages_per_packet l" | (bad) "length ms0 \<le> max_messages_per_packet l" "\<not> ok"
    | (fine) "length ms0 \<le> max_messages_per_packet l" ok by linarith
  then show ?thesis
  proof cases
    case many
    then show ?thesis
      using assms(6) frames emit reject[of inc_exhausted "(JG_TCP_STREAM_EXHAUSTED, out1, msgs1, 0)"]
      by (intro exI[of _ out1] exI[of _ msgs1]) (auto simp: finish_messages_def spec_messages_def delivered_def)
  next
    case bad
    then show ?thesis
      using assms(6) frames emit reject[of inc_malformed "(JG_TCP_STREAM_MALFORMED, out1, msgs1, 0)"]
      by (intro exI[of _ out1] exI[of _ msgs1]) (auto simp: finish_messages_def spec_messages_def delivered_def)
  next
    case fine
    have end_flow: "refines l (if fin then and_then (close_flow (tracker_of l rs' st1) i now) (\<lambda>t. Done (t, x)) else Done (tracker_of l rs' st1, y))
        (if fin then (tab1[i := closed l now (tab1 ! i)], inc_closed st1, x) else (tab1, st1, y))"
      if "regions_ok l rs'" "map view rs' = tab1" for rs' tab1 st1 and x y :: "jg_tcp_stream_result \<times> bytes \<times> jg_tcp_stream_message list \<times> nat"
      using that close_refines[OF that(1) assms(3) that(2)] refines_Done[OF that] by auto
    let ?out = "blit out 0 (concat ms0)" and ?msgs = "blit msgs 0 (locations 0 ms0)"
    have fits: "length (concat ms0) \<le> length out" "length ms0 \<le> length msgs" using size concat b(4) assms(4,5) fine(1) by linarith+
    have del: "delivered ?out ?msgs (length ms0) = ms0"
      using delivered_locations[of 0 ms0 out] fits by (simp add: delivered_def blit_start)
    have len: "length ?out = length out" "length ?msgs = length msgs" using fits by simp_all
    show ?thesis
    proof (cases "ms0 = []")
      case True
      then show ?thesis
        using end_flow[OF assms(1,2)] assms(6) frames emit fine
        by (intro exI[of _ out] exI[of _ msgs]) (auto simp: finish_messages_def spec_messages_def Let_def delivered_def split: if_splits)
    next
      case False
      obtain rs' where rs': "consume_prefix (tracker_of l rs st) i (framed_size ms0) = Done (tracker_of l rs' st)" "regions_ok l rs'"
        "map view rs' = tab[i := advanced (framed_size ms0) (tab ! i)]"
        using consume_refines[OF assms(1,3,2), of "framed_size ms0" st id "()"] size b(4) unfolding refines_def advanced_def
        by (cases "consume_prefix (tracker_of l rs st) i (framed_size ms0)") (auto simp: tracker_of_def)
      have "refines l (finish_messages (tracker_of l rs st) i fin changed now out msgs) (tab', st', r, ?out, ?msgs, length ms0) \<and> ms = ms0"
        using end_flow[OF rs'(2,3)] assms(6) frames emit(3) fine False
        by (auto simp: finish_messages_def spec_messages_def Let_def rs'(1) split: if_splits)
      then show ?thesis using del len by (intro exI[of _ ?out] exI[of _ ?msgs]) auto
    qed
  qed
qed

end
