(* ===== verification/TcpReassembly.thy ===== *)
theory TcpReassembly
  imports TcpStreamSpec
begin

text \<open>
  The guarantees of the TCP stream tracker: its three operations refine their specification on flow tables,
  and the bytes of a flow are delivered once, in order and as soon as they are contiguous.
\<close>

section \<open>Operations on flow tables\<close>

definition spec_stream_add ::
  "jg_tcp_stream_limits \<Rightarrow> flow list \<Rightarrow> jg_tcp_stream_stats \<Rightarrow> jg_packet_view \<Rightarrow> u64 \<Rightarrow>
   flow list \<times> jg_tcp_stream_stats \<times> jg_tcp_stream_result \<times> bytes list" where
  "spec_stream_add l tab st packet now =
     (case spec_open l tab st packet now of
        (tab, st, Inl (r, _)) \<Rightarrow> (tab, st, r, [])
      | (tab, st, Inr (i, is_new)) \<Rightarrow> (case spec_place l tab st i is_new packet now of
            (tab, st, Inl (r, _)) \<Rightarrow> (tab, st, r, [])
          | (tab, st, Inr changed) \<Rightarrow> spec_messages l tab st i (has_flag packet JG_TCP_FLAG_FIN) changed now))"

definition spec_stream_raw ::
  "jg_tcp_stream_limits \<Rightarrow> flow list \<Rightarrow> jg_tcp_stream_stats \<Rightarrow> jg_packet_view \<Rightarrow> u64 \<Rightarrow>
   flow list \<times> jg_tcp_stream_stats \<times> jg_tcp_raw_stream_result \<times> jg_tcp_raw_stream_chunk \<times> bytes" where
  "spec_stream_raw l tab st packet now =
     (case spec_open l tab st packet now of
        (tab, st, Inl (r, chunk)) \<Rightarrow> (tab, st, raw_result r, chunk, [])
      | (tab, st, Inr (i, is_new)) \<Rightarrow> (case spec_place l tab st i is_new packet now of
            (tab, st, Inl (r, chunk)) \<Rightarrow> (tab, st, raw_result r, chunk, [])
          | (tab, st, Inr changed) \<Rightarrow> spec_bytes l tab st i is_new (has_flag packet JG_TCP_FLAG_FIN) changed now))"

definition spec_stream_reject ::
  "jg_tcp_stream_limits \<Rightarrow> flow list \<Rightarrow> jg_tcp_stream_stats \<Rightarrow> jg_packet_view \<Rightarrow> u64 \<Rightarrow> flow list \<times> jg_tcp_stream_stats \<times> unit result" where
  "spec_stream_reject l tab0 st packet now =
     (let tab = spec_expire l now tab0; st = add_timeouts (timed_out now tab0) st; k = packet_stream_key packet in
      case spec_find k tab of
        Some i \<Rightarrow> (tab[i := refused l now (fst (tab ! i))], st, Inr ())
      | None \<Rightarrow> (case spec_free tab of
            None \<Rightarrow> (tab, st, Inl ENOSPC)
          | Some i \<Rightarrow> if spec_count k tab \<ge> max_flows_per_source l then (tab, st, Inl ENOSPC)
              else (tab[i := refused l now (opened_entry l k (tcp_sequence packet) now)], st, Inr ())))"

section \<open>The invariant\<close>

lemma flow_ok_opened: "canonical_stream_key k \<Longrightarrow> flow_ok l (opened_entry l k base now, replicate (max_buffered_bytes l) None)"
  by (simp add: flow_ok_def opened_entry_def cleared_flow_def)

lemma flow_ok_refused: "canonical_stream_key (flow_key e) \<Longrightarrow> flow_ok l (refused l now e)"
  by (simp add: flow_ok_def refused_def opened_entry_def cleared_flow_def)

lemma flow_ok_closed: "canonical_stream_key (flow_key (fst f)) \<Longrightarrow> flow_ok l (closed l now f)"
  by (simp add: closed_def flow_ok_unused flow_ok_refused)

text \<open>A flow that collects bytes: active and not rejected.\<close>

definition collects :: "jg_tcp_stream_limits \<Rightarrow> flow list \<Rightarrow> nat \<Rightarrow> bool" where
  "collects l tab i \<longleftrightarrow> table_ok l tab \<and> i < max_flows l \<and> flow_active (fst (tab ! i)) \<and> \<not> flow_rejected (fst (tab ! i))"

lemma collects_update:
  assumes "collects l tab i" "flow_key e = flow_key (fst (tab ! i))" "flow_active e" "\<not> flow_rejected e" "length w = max_buffered_bytes l"
  shows "collects l (tab[i := (e, w)]) i"
proof -
  have "flow_ok l (tab ! i)" "i < length tab" using assms(1) by (auto simp: collects_def table_ok_def)
  then have "flow_ok l (e, w)" using assms by (auto simp: flow_ok_def collects_def)
  then show ?thesis using assms(1,3,4) \<open>i < length tab\<close> by (auto simp: collects_def intro: table_ok_update)
qed

lemma collects_key:
  assumes "collects l tab i"
  shows "canonical_stream_key (flow_key (fst (tab ! i)))" "length (snd (tab ! i)) = max_buffered_bytes l" "i < length tab"
  using assms by (auto simp: collects_def table_ok_def flow_ok_def)

lemma spec_open_ok:
  assumes "table_ok l tab" "stream_packet packet" "spec_open l tab st packet now = (tab', st', r)"
  shows "table_ok l tab'" "r = Inr (i, is_new) \<Longrightarrow> collects l tab' i"
proof -
  let ?tab = "spec_expire l now tab" and ?k = "packet_stream_key packet"
  note t = table_ok_expire[OF assms(1), of now] and k = build_stream_key(2)[OF assms(2)]
  note found = spec_find_Some[OF _ t, of ?k] and free = spec_free_Some[OF _ t]
  have upd: "table_ok l (?tab[j := unused l])" "table_ok l (?tab[j := (opened_entry l ?k base now, replicate (max_buffered_bytes l) None)])"
    "table_ok l (?tab[j := unused l, j' := (opened_entry l ?k base now, replicate (max_buffered_bytes l) None)])" for j j' base
    using t by (auto intro!: table_ok_update flow_ok_unused flow_ok_opened k)
  have n: "length ?tab = max_flows l" using t by (simp add: table_ok_def)
  show "table_ok l tab'" using assms(3) t upd by (auto simp: spec_open_def Let_def split: if_splits option.splits)
  show "collects l tab' i" if "r = Inr (i, is_new)"
    using assms(3) that t upd found free n
    by (auto simp: spec_open_def Let_def collects_def opened_entry_def cleared_flow_def split: if_splits option.splits)
qed

lemma spec_place_ok:
  assumes "collects l tab i" "spec_place l tab st i is_new packet now = (tab', st', r)"
  shows "table_ok l tab'" "r = Inr changed \<Longrightarrow> collects l tab' i"
proof -
  define e where "e = (fst (tab ! i))\<lparr>idle_deadline := deadline now (idle_timeout_ms l)\<rparr>"
  note key = collects_key[OF assms(1)]
  have e: "flow_key e = flow_key (fst (tab ! i))" "flow_active e" "\<not> flow_rejected e" using assms(1) by (simp_all add: e_def collects_def)
  have upd: "collects l (tab[i := (e, w)]) i" if "length w = max_buffered_bytes l" for w using collects_update[OF assms(1) e that] .
  then have upd_ok: "table_ok l (tab[i := (e, w)])" if "length w = max_buffered_bytes l" for w using that by (auto simp: collects_def)
  have bad: "table_ok l (tab[i := refused l now e])" "table_ok l (tab[i := closed l now (e, snd (tab ! i))])"
    using assms(1) key e(1) by (auto simp: collects_def intro!: table_ok_update flow_ok_refused flow_ok_closed)
  show "table_ok l tab'"
    using assms(2) key upd_ok bad by (auto simp: spec_place_def e_def[symmetric] Let_def split: if_splits option.splits)
  show "collects l tab' i" if "r = Inr changed"
    using assms(2) that key upd by (auto simp: spec_place_def e_def[symmetric] Let_def split: if_splits option.splits)
qed

lemma collects_advanced:
  assumes "collects l tab i" "n \<le> max_buffered_bytes l"
  shows "collects l (tab[i := advanced n (tab ! i)]) i"
  using assms collects_key[OF assms(1)] unfolding advanced_def
  by (intro collects_update[OF assms(1)]) (auto simp: collects_def consumed_window_def)

lemma collects_closed:
  assumes "collects l tab i"
  shows "table_ok l (tab[i := closed l now (tab ! i)])" "table_ok l (tab[i := refused l now (fst (tab ! i))])"
  using assms collects_key[OF assms] by (auto simp: collects_def intro!: table_ok_update flow_ok_refused flow_ok_closed)

lemma spec_bytes_ok:
  assumes "collects l tab i" "spec_bytes l tab st i is_new fin changed now = (tab', st', r, chunk, xs)"
  shows "table_ok l tab'"
proof -
  let ?xs = "prefix (snd (tab ! i))"
  have "length ?xs \<le> max_buffered_bytes l" using prefix_le[of "snd (tab ! i)"] collects_key[OF assms(1)] by simp
  note adv = collects_advanced[OF assms(1) this]
  have "table_ok l tab" "table_ok l (tab[i := advanced (length ?xs) (tab ! i)])" using assms(1) adv by (simp_all add: collects_def)
  then show ?thesis
    using assms(2) collects_closed[OF assms(1)] collects_closed[OF adv] by (auto simp: spec_bytes_def Let_def split: if_splits)
qed

lemma spec_messages_ok:
  assumes "collects l tab i" "spec_messages l tab st i fin changed now = (tab', st', r, ms)"
  shows "table_ok l tab'"
proof -
  let ?xs = "prefix (snd (tab ! i))" and ?n = "framed_size (fst (frames l (prefix (snd (tab ! i)))))"
  have "?n \<le> max_buffered_bytes l"
    using frames_size[of l ?xs] prefix_le[of "snd (tab ! i)"] collects_key[OF assms(1)] by simp
  note adv = collects_advanced[OF assms(1) this]
  have "table_ok l tab" "table_ok l (tab[i := advanced ?n (tab ! i)])" using assms(1) adv by (simp_all add: collects_def)
  then show ?thesis
    using assms(2) collects_closed[OF assms(1)] collects_closed[OF adv]
    by (cases "frames l ?xs") (auto simp: spec_messages_def Let_def split: if_splits)
qed

section \<open>Trackers as flow tables\<close>

definition flow_table :: "jg_tcp_stream_tracker \<Rightarrow> flow list" where
  "flow_table t = (let n = max_buffered_bytes (stream_limits t) in
     map (\<lambda>i. (flows t ! i, window_of (slice (i * n) n (buffers t)) (slice (i * n) n (present t)))) [0..<max_flows (stream_limits t)])"

definition streams_ok :: "jg_tcp_stream_tracker \<Rightarrow> bool" where
  "streams_ok t \<longleftrightarrow> (let l = stream_limits t in jg_tcp_stream_limits_validate l = Inr () \<and> length (flows t) = max_flows l
     \<and> length (buffers t) = max_flows l * max_buffered_bytes l \<and> length (present t) = max_flows l * max_buffered_bytes l
     \<and> table_ok l (flow_table t))"

lemma concat_slices: "n * m \<le> length xs \<Longrightarrow> concat (map (\<lambda>i. slice (i * m) m xs) [0..<n]) = take (n * m) xs"
proof (induction n)
  case (Suc n)
  have "take (Suc n * m) xs = take (n * m) xs @ slice (n * m) m xs" by (simp add: slice_def add.commute flip: take_add)
  with Suc show ?case by simp
qed simp

lemma streams_ok_regions:
  assumes "streams_ok t"
  obtains rs where "t = tracker_of (stream_limits t) rs (stream_stats t)" "regions_ok (stream_limits t) rs" "map view rs = flow_table t"
proof -
  let ?l = "stream_limits t" and ?m = "max_buffered_bytes (stream_limits t)" and ?n = "max_flows (stream_limits t)"
  let ?rs = "map (\<lambda>i. (flows t ! i, slice (i * ?m) ?m (buffers t), slice (i * ?m) ?m (present t))) [0..<?n]"
  have len: "length (flows t) = ?n" "length (buffers t) = ?n * ?m" "length (present t) = ?n * ?m" using assms by (simp_all add: streams_ok_def Let_def)
  have "map ((!) (flows t)) [0..<?n] = flows t" using len(1) by (metis map_nth)
  then have "t = tracker_of ?l ?rs (stream_stats t)"
    using concat_slices[of ?n ?m "buffers t"] concat_slices[of ?n ?m "present t"] len
    by (simp add: tracker_of_def o_def)
  moreover have "regions_ok ?l ?rs" using len block_fits[of _ ?n ?m] by (fastforce simp: regions_ok_def)
  moreover have "map view ?rs = flow_table t" by (simp add: flow_table_def Let_def)
  ultimately show thesis by (rule that)
qed

lemma tracker_of_ok:
  assumes "regions_ok l rs"
  shows "flow_table (tracker_of l rs st) = map view rs"
    and "jg_tcp_stream_limits_validate l = Inr () \<Longrightarrow> table_ok l (map view rs) \<Longrightarrow> streams_ok (tracker_of l rs st)"
proof -
  have n: "length rs = max_flows l" and blocks: "\<forall>xs \<in> set (map (\<lambda>r. fst (snd r)) rs). length xs = max_buffered_bytes l"
    "\<forall>xs \<in> set (map (\<lambda>r. snd (snd r)) rs). length xs = max_buffered_bytes l"
    using assms by (auto simp: regions_ok_def)
  have "view (rs ! i) = (flows (tracker_of l rs st) ! i, window_of (slice (i * max_buffered_bytes l) (max_buffered_bytes l) (buffers (tracker_of l rs st)))
      (slice (i * max_buffered_bytes l) (max_buffered_bytes l) (present (tracker_of l rs st))))" if "i < max_flows l" for i
    using block_access(1)[OF blocks(1), of i] block_access(1)[OF blocks(2), of i] that n
    by (simp add: tracker_of_def view_def bytes_at_Some_iff)
  then show table: "flow_table (tracker_of l rs st) = map view rs"
    using n by (intro nth_equalityI) (simp_all add: flow_table_def Let_def)
  show "streams_ok (tracker_of l rs st)" if "jg_tcp_stream_limits_validate l = Inr ()" "table_ok l (map view rs)"
    using concat_blocks(1)[OF blocks(1)] concat_blocks(1)[OF blocks(2)] n that table by (simp add: streams_ok_def tracker_of_def Let_def)
qed

lemma stream_add_refines:
  assumes "regions_ok l rs" "map view rs = tab" "table_ok l tab" "stream_packet packet" "packet_valid_for_port packet 53"
    and "max_buffered_bytes l \<le> length out" "max_messages_per_packet l \<le> length msgs"
    and "spec_stream_add l tab st packet now = (tab', st', r, ms)"
  shows "\<exists>out' msgs'. refines l (jg_tcp_stream_tracker_add (tracker_of l rs st) packet now out msgs) (tab', st', r, out', msgs', length ms)
    \<and> length out' = length out \<and> length msgs' = length msgs \<and> delivered out' msgs' (length ms) = ms \<and> table_ok l tab'"
proof -
  obtain tab1 st1 r1 where o: "spec_open l tab st packet now = (tab1, st1, r1)" by (cases "spec_open l tab st packet now")
  obtain rs1 where run1: "open_flow (tracker_of l rs st) packet now = Done (tracker_of l rs1 st1, r1)" "regions_ok l rs1" "map view rs1 = tab1"
    using open_refines[OF assms(1-4), of st now] unfolding o refines_def by auto
  note start = jg_tcp_stream_tracker_add_def tracker_of_simps run1(1)
  have pass: "\<not> \<not> packet_valid_for_port packet 53" "\<not> (length out < max_buffered_bytes l \<or> length msgs < max_messages_per_packet l)"
    using assms(5-7) by auto
  show ?thesis
  proof (cases r1)
    case (Inl s)
    then show ?thesis
      using assms(8) o spec_open_ok(1)[OF assms(3,4) o] run1(2,3) unfolding start if_not_P[OF pass(1)] if_not_P[OF pass(2)]
      by (cases s) (auto simp: spec_stream_add_def delivered_def intro!: exI[of _ out] exI[of _ msgs] refines_Done)
  next
    case (Inr s)
    obtain i is_new where s: "s = (i, is_new)" by (cases s)
    note c1 = spec_open_ok(2)[OF assms(3,4) o Inr[unfolded s]]
    then have i: "i < max_flows l" by (simp add: collects_def)
    obtain tab2 st2 r2 where p: "spec_place l tab1 st1 i is_new packet now = (tab2, st2, r2)" by (cases "spec_place l tab1 st1 i is_new packet now")
    obtain rs2 where run2: "place_payload (tracker_of l rs1 st1) i is_new packet now = Done (tracker_of l rs2 st2, r2)" "regions_ok l rs2" "map view rs2 = tab2"
      using place_refines[OF run1(2,3) i assms(4), of st1 is_new now] unfolding p refines_def by auto
    show ?thesis
    proof (cases r2)
      case (Inl s2)
      then show ?thesis
        using assms(8) o p Inr s spec_place_ok(1)[OF c1 p] run2 unfolding start if_not_P[OF pass(1)] if_not_P[OF pass(2)]
        by (cases s2) (auto simp: spec_stream_add_def delivered_def intro!: exI[of _ out] exI[of _ msgs] refines_Done)
    next
      case (Inr changed)
      have m: "spec_messages l tab2 st2 i (has_flag packet JG_TCP_FLAG_FIN) changed now = (tab', st', r, ms)"
        using assms(8) o p \<open>r1 = Inr s\<close> s Inr by (simp add: spec_stream_add_def)
      show ?thesis
        using messages_refine[OF run2(2,3) i assms(6,7) m] spec_messages_ok[OF spec_place_ok(2)[OF c1 p Inr] m] \<open>r1 = Inr s\<close> s Inr run2(1)
        unfolding start if_not_P[OF pass(1)] if_not_P[OF pass(2)] by auto
    qed
  qed
qed

lemma stream_raw_refines:
  assumes "regions_ok l rs" "map view rs = tab" "table_ok l tab" "stream_packet packet" "packet_valid_for_port packet 443 \<or> packet_valid_for_port packet 853"
    and "max_buffered_bytes l \<le> length out" "spec_stream_raw l tab st packet now = (tab', st', r, chunk, xs)"
  shows "refines l (jg_tcp_stream_tracker_add_raw (tracker_of l rs st) packet now out) (tab', st', r, chunk, blit out 0 xs) \<and> table_ok l tab'"
proof -
  obtain tab1 st1 r1 where o: "spec_open l tab st packet now = (tab1, st1, r1)" by (cases "spec_open l tab st packet now")
  obtain rs1 where run1: "open_flow (tracker_of l rs st) packet now = Done (tracker_of l rs1 st1, r1)" "regions_ok l rs1" "map view rs1 = tab1"
    using open_refines[OF assms(1-4), of st now] unfolding o refines_def by auto
  note start = jg_tcp_stream_tracker_add_raw_def tracker_of_simps run1(1)
  have pass: "\<not> \<not> (packet_valid_for_port packet 443 \<or> packet_valid_for_port packet 853)" "\<not> length out < max_buffered_bytes l"
    using assms(5,6) by auto
  show ?thesis
  proof (cases r1)
    case (Inl s)
    then show ?thesis
      using assms(7) o spec_open_ok(1)[OF assms(3,4) o] run1(2,3) unfolding start if_not_P[OF pass(1)] if_not_P[OF pass(2)]
      by (cases s) (auto simp: spec_stream_raw_def intro!: refines_Done)
  next
    case (Inr s)
    obtain i is_new where s: "s = (i, is_new)" by (cases s)
    note c1 = spec_open_ok(2)[OF assms(3,4) o Inr[unfolded s]]
    then have i: "i < max_flows l" by (simp add: collects_def)
    obtain tab2 st2 r2 where p: "spec_place l tab1 st1 i is_new packet now = (tab2, st2, r2)" by (cases "spec_place l tab1 st1 i is_new packet now")
    obtain rs2 where run2: "place_payload (tracker_of l rs1 st1) i is_new packet now = Done (tracker_of l rs2 st2, r2)" "regions_ok l rs2" "map view rs2 = tab2"
      using place_refines[OF run1(2,3) i assms(4), of st1 is_new now] unfolding p refines_def by auto
    show ?thesis
    proof (cases r2)
      case (Inl s2)
      then show ?thesis
        using assms(7) o p Inr s spec_place_ok(1)[OF c1 p] run2 unfolding start if_not_P[OF pass(1)] if_not_P[OF pass(2)]
        by (cases s2) (auto simp: spec_stream_raw_def intro!: refines_Done)
    next
      case (Inr changed)
      have m: "spec_bytes l tab2 st2 i is_new (has_flag packet JG_TCP_FLAG_FIN) changed now = (tab', st', r, chunk, xs)"
        using assms(7) o p \<open>r1 = Inr s\<close> s Inr by (simp add: spec_stream_raw_def)
      show ?thesis
        using bytes_refine[OF run2(2,3) i assms(6) m] spec_bytes_ok[OF spec_place_ok(2)[OF c1 p Inr] m] \<open>r1 = Inr s\<close> s Inr run2(1)
        unfolding start if_not_P[OF pass(1)] if_not_P[OF pass(2)] by auto
    qed
  qed
qed

lemma stream_reject_refines:
  assumes "regions_ok l rs0" "map view rs0 = tab0" "table_ok l tab0" "stream_packet packet"
    and "packet_valid_for_port packet 53 \<or> packet_valid_for_port packet 443 \<or> packet_valid_for_port packet 853"
    and "spec_stream_reject l tab0 st0 packet now = (tab', st', r)"
  shows "refines l (jg_tcp_stream_tracker_reject_flow (tracker_of l rs0 st0) packet now) (tab', st', r) \<and> table_ok l tab'"
proof -
  define k where "k = packet_stream_key packet"
  define rs where "rs = map (expired_region l now) rs0"
  define tab where "tab = spec_expire l now tab0"
  define st where "st = add_timeouts (timed_out now tab0) st0"
  note expire = expire_flows_regions(1)[OF assms(1), of st0 now, unfolded assms(2), folded rs_def st_def]
  have rs: "regions_ok l rs" "map view rs = tab" "table_ok l tab"
    using expire_flows_regions(2,3)[OF assms(1)] table_ok_expire[OF assms(3)] assms(2) by (simp_all add: rs_def tab_def)
  note key = build_stream_key[OF assms(4), folded k_def]
  obtain free where find: "find_flow (tracker_of l rs st) k = Done (spec_find k tab, free)"
    and free: "spec_find k tab = None \<Longrightarrow> free = spec_free tab"
    using find_flow_regions[OF rs(1) _ key(2), of st] rs(2,3) by auto
  have pass: "\<not> \<not> (packet_valid_for_port packet 53 \<or> packet_valid_for_port packet 443 \<or> packet_valid_for_port packet 853)" using assms(5) by simp
  note run = jg_tcp_stream_tracker_reject_flow_def if_not_P[OF pass] key(1) expire find and_then.simps prod.case tracker_of_simps(1)
  note spec = assms(6)[unfolded spec_stream_reject_def Let_def, folded k_def tab_def st_def]
  have no_slot: "refines l (Done (tracker_of l rs st, Inl ENOSPC)) (tab, st, Inl ENOSPC)" by (rule refines_Done[OF rs(1,2)])
  show ?thesis
  proof (cases "spec_find k tab")
    case (Some i)
    note i = spec_find_Some[OF Some rs(3)]
    show ?thesis
      using spec reject_refines[OF rs(1) i(1) rs(2), of st now "\<lambda>s. s" "Inr ()"] key(2) i rs(3)
      unfolding run Some option.case by (auto simp: tracker_of_def intro!: table_ok_update flow_ok_refused)
  next
    case None
    show ?thesis
    proof (cases "spec_free tab")
      case None
      then show ?thesis using spec no_slot rs(3) unfolding run \<open>spec_find k tab = None\<close> free[OF \<open>spec_find k tab = None\<close>] option.case by auto
    next
      case (Some i)
      note i = spec_free_Some[OF Some rs(3)]
      let ?o = "opened_entry l k (tcp_sequence packet) now"
      obtain b p where r: "rs ! i = (cleared_flow, b, p)" and w: "window_of b p = replicate (max_buffered_bytes l) None"
        and len: "length b = max_buffered_bytes l" "length p = max_buffered_bytes l" using viewed_region[OF rs(1) i(1) rs(2)] i(2) by auto
      have rs': "regions_ok l (rs[i := (?o, b, p)])" "map view (rs[i := (?o, b, p)]) = tab[i := (?o, replicate (max_buffered_bytes l) None)]"
        using rs(1,2) len w by (simp_all add: map_view_update(2))
      have at: "fst (tab[i := (?o, replicate (max_buffered_bytes l) None)] ! i) = ?o" using rs(3) i(1) by (simp add: table_ok_def)
      have "flow_key ?o = k" by (simp add: opened_entry_def)
      then have ok: "table_ok l (tab[i := refused l now ?o])" using key(2) rs(3) by (auto intro!: table_ok_update flow_ok_refused)
      show ?thesis
        using spec reject_refines[OF rs'(1) i(1) rs'(2), of st now "\<lambda>s. s" "Inr ()", unfolded at] no_slot rs(3) ok
          source_flow_count_regions[OF rs(1), of st k] initialize_flow_region[OF rs(1) i(1) r, of st k "tcp_sequence packet" now]
        unfolding run Some free[OF \<open>spec_find k tab = None\<close>] \<open>spec_find k tab = None\<close> option.case rs(2)
        by (auto simp: tracker_of_def split: if_splits)
    qed
  qed
qed

lemma created_streams:
  assumes "jg_tcp_stream_tracker_create calloc limits = Inr t"
  shows "streams_ok t" "flow_table t = replicate (max_flows (stream_limits t)) (unused (stream_limits t))"
    "stream_limits t = (case limits of None \<Rightarrow> jg_tcp_stream_limits_default | Some l \<Rightarrow> l)" "stream_stats t = TcpStream.initialize_stats"
proof -
  define l where "l = (case limits of None \<Rightarrow> jg_tcp_stream_limits_default | Some l \<Rightarrow> l)"
  let ?z = "replicate (max_buffered_bytes l) (0 :: u8)"
  have v: "jg_tcp_stream_limits_validate l = Inr ()" and t: "t = \<lparr>stream_limits = l, flows = replicate (max_flows l) cleared_flow,
      buffers = replicate (max_flows l * max_buffered_bytes l) 0, present = replicate (max_flows l * max_buffered_bytes l) 0,
      stream_stats = TcpStream.initialize_stats\<rparr>"
    using assms unfolding jg_tcp_stream_tracker_create_def Let_def l_def[symmetric]
    by (auto simp: jg_size_multiply_def split: sum.splits option.splits if_splits)
  have rep: "replicate (n * m) x = concat (replicate n (replicate m x))" for n m and x :: u8
    by (induction n) (simp_all add: replicate_add)
  define rs :: "TcpStreamSpec.region list" where "rs = replicate (max_flows l) (cleared_flow, ?z, ?z)"
  have "t = tracker_of l rs TcpStream.initialize_stats" by (simp add: t tracker_of_def rs_def rep)
  moreover have rs: "regions_ok l rs" "map view rs = replicate (max_flows l) (unused l)" by (auto simp: regions_ok_def rs_def window_of_zero)
  moreover have "table_ok l (map view rs)" using flow_ok_unused by (auto simp: rs(2) table_ok_def)
  ultimately show "streams_ok t" "flow_table t = replicate (max_flows (stream_limits t)) (unused (stream_limits t))"
    using tracker_of_ok[OF rs(1)] v by simp_all
  show "stream_limits t = (case limits of None \<Rightarrow> jg_tcp_stream_limits_default | Some l \<Rightarrow> l)" "stream_stats t = TcpStream.initialize_stats"
    by (simp_all add: t l_def)
qed

section \<open>The bytes of one stream\<close>

text \<open>
  A flow that carries the stream \<open>s\<close> whose first byte has the sequence number \<open>b\<close>, and of which the
  positions \<open>R\<close> were received. \<open>front\<close> is the first position that is missing: what lies before it was
  delivered, and the window holds what was received behind it.
\<close>

definition front :: "bytes \<Rightarrow> nat set \<Rightarrow> nat" where
  "front s R = length (takeWhile (\<lambda>j. j \<in> R) [0..<length s])"

definition window_at :: "jg_tcp_stream_limits \<Rightarrow> bytes \<Rightarrow> nat set \<Rightarrow> nat \<Rightarrow> window" where
  "window_at l s R c = map (\<lambda>j. if c + j \<in> R then Some (s ! (c + j)) else None) [0..<max_buffered_bytes l]"

lemma front_le: "front s R \<le> length s"
  unfolding front_def by (metis length_takeWhile_le length_upt diff_zero)

lemma front_received: "j < front s R \<Longrightarrow> j \<in> R"
  unfolding front_def using nth_length_takeWhile set_takeWhileD
  by (metis add_0 diff_zero length_takeWhile_le length_upt less_le_trans nth_mem nth_upt takeWhile_nth)

lemma front_missing: "R \<subseteq> {..<length s} \<Longrightarrow> front s R \<notin> R"
proof
  assume R: "R \<subseteq> {..<length s}" and "front s R \<in> R"
  then have "length (takeWhile (\<lambda>j. j \<in> R) [0..<length s]) < length [0..<length s]" by (auto simp: front_def)
  from nth_length_takeWhile[OF this] show False using \<open>front s R \<in> R\<close> R by (auto simp: front_def)
qed

lemma front_empty: "front s {} = 0"
  using front_received[of 0 s "{}"] by auto

lemma front_unique:
  assumes "\<And>j. j < n \<Longrightarrow> j \<in> R" "n \<notin> R" "R \<subseteq> {..<length s}"
  shows "front s R = n"
  using front_received[of _ s R] front_missing[OF assms(3)] assms(1,2) by (metis linorder_neqE_nat)

lemma front_mono: "R \<subseteq> R' \<Longrightarrow> R' \<subseteq> {..<length s} \<Longrightarrow> front s R \<le> front s R'"
  using front_received[of _ s R] front_missing[of R' s] by (metis not_le subsetD)

lemma prefix_window_at:
  assumes "R \<subseteq> {..<length s}" "R \<subseteq> {..<c + max_buffered_bytes l}" "c \<le> front s R"
  shows "prefix (window_at l s R c) = slice c (front s R - c) s"
proof -
  let ?n = "front s R - c"
  have le: "?n \<le> max_buffered_bytes l"
  proof (rule ccontr)
    assume "\<not> ?n \<le> max_buffered_bytes l"
    then have "c + max_buffered_bytes l \<in> R" by (intro front_received[of _ s]) auto
    then show False using assms(2) by auto
  qed
  have "takeWhile (\<lambda>x. x \<noteq> None) (window_at l s R c) = take ?n (window_at l s R c)"
    using le front_received[of _ s R] front_missing[OF assms(1)] assms(3)
    by (intro takeWhile_eq_take_P_nth) (auto simp: window_at_def)
  moreover have "c + ?n \<le> length s" using front_le[of s R] assms(3) by simp
  ultimately show ?thesis
    using le front_received[of _ s R] assms(3) by (intro nth_equalityI) (auto simp: prefix_def window_at_def)
qed

lemma consumed_window_at:
  assumes "R \<subseteq> {..<c + max_buffered_bytes l}" "n \<le> max_buffered_bytes l"
  shows "consumed_window n (window_at l s R c) = window_at l s R (c + n)"
  using assms by (intro nth_equalityI) (auto simp: consumed_window_def window_at_def nth_append ac_simps)

lemma agrees_window_at:
  assumes "c \<le> d" "d + n \<le> c + max_buffered_bytes l" "d + n \<le> length s"
  shows "agrees (window_at l s R c) (d - c) (slice d n s)"
    and "blit (window_at l s R c) (d - c) (map Some (slice d n s)) = window_at l s (R \<union> {d..<d + n}) c"
proof -
  show "agrees (window_at l s R c) (d - c) (slice d n s)" using assms by (auto simp: agrees_def window_at_def)
  show "blit (window_at l s R c) (d - c) (map Some (slice d n s)) = window_at l s (R \<union> {d..<d + n}) c"
    using assms by (intro nth_equalityI) (auto simp: window_at_def nth_blit ac_simps)
qed

lemma locate_payload_stream:
  assumes "length s \<le> 2 ^ 31" "d + n \<le> length s" "0 < n" "c \<le> length s"
  shows "locate_payload (b + of_nat c) (b + of_nat d) (slice d n s) =
    (if c \<le> d then Some (d - c, slice d n s) else if c - d \<ge> n then None else Some (0, slice c (d + n - c) s))"
proof (cases "c \<le> d")
  case True
  have dist: "b + of_nat d - (b + of_nat c) = (of_nat (d - c) :: u32)" using True by (simp add: of_nat_diff)
  have small: "d - c \<le> 2147483647" using assms by simp
  then have u: "unat (of_nat (d - c) :: u32) = d - c" by (simp add: unat_of_nat)
  then have "(of_nat (d - c) :: u32) \<le> 0x7FFFFFFF" using small by (simp add: word_le_nat_alt)
  then show ?thesis using True u by (simp add: locate_payload_def dist)
next
  case False
  define w :: u32 where "w = of_nat (c - d)"
  have dist: "b + of_nat d - (b + of_nat c) = - w" "b + of_nat c - (b + of_nat d) = w"
    using False by (simp_all add: w_def of_nat_diff)
  have small: "0 < c - d" "c - d \<le> 2147483648" using assms False by simp_all
  then have u: "unat w = c - d" unfolding w_def unat_of_nat by simp
  define m where "m = 4294967296 - (c - d)"
  have m: "2147483648 \<le> m" "m < 4294967296" using small by (simp_all add: m_def)
  have "of_nat m = (of_nat 4294967296 - w :: u32)" unfolding m_def w_def using small by (intro of_nat_diff) simp
  then have "- w = of_nat m" by simp
  then have "unat (- w) = m" using m by (simp add: unat_of_nat)
  then have "\<not> - w \<le> 0x7FFFFFFF" using m by (simp add: word_le_nat_alt)
  moreover have "drop (c - d) (slice d n s) = slice c (d + n - c) s"
    using False assms by (simp add: slice_def drop_take add.commute)
  moreover have "length (slice d n s) = n" using assms by simp
  ultimately show ?thesis using False u unfolding locate_payload_def Let_def dist by simp
qed

definition receiving :: "jg_tcp_stream_limits \<Rightarrow> flow list \<Rightarrow> nat \<Rightarrow> stream_key \<Rightarrow> bytes \<Rightarrow> u32 \<Rightarrow> nat set \<Rightarrow> bool" where
  "receiving l tab i k s b R \<longleftrightarrow> collects l tab i \<and> spec_find k tab = Some i \<and> R \<subseteq> {..<length s}
     \<and> R \<subseteq> {..<front s R + max_buffered_bytes l} \<and> base_sequence (fst (tab ! i)) = b + of_nat (front s R)
     \<and> snd (tab ! i) = window_at l s R (front s R)"

text \<open>A segment of the stream at position \<open>d\<close>.\<close>

definition carries :: "stream_key \<Rightarrow> bytes \<Rightarrow> u32 \<Rightarrow> jg_packet_view \<Rightarrow> nat \<Rightarrow> bool" where
  "carries k s b p d \<longleftrightarrow> stream_packet p \<and> (packet_valid_for_port p 443 \<or> packet_valid_for_port p 853) \<and> packet_stream_key p = k
     \<and> \<not> has_flag p JG_TCP_FLAG_SYN \<and> \<not> has_flag p JG_TCP_FLAG_FIN \<and> \<not> has_flag p JG_TCP_FLAG_RST
     \<and> payload_size p \<noteq> 0 \<and> tcp_sequence p = b + of_nat d \<and> d + payload_size p \<le> length s
     \<and> slice (payload_offset p) (payload_size p) (frame p) = slice d (payload_size p) s"

lemma find_update:
  assumes "spec_find k tab = Some i" "flow_active e" "flow_key e = k"
  shows "spec_find k (tab[i := (e, w)]) = Some i"
  using assms by (auto simp: spec_find_def first_index_Some_iff)

lemma receiving_update:
  assumes "receiving l tab i k s b R" "flow_active e" "flow_key e = k" "\<not> flow_rejected e"
    and "R' \<subseteq> {..<length s}" "R' \<subseteq> {..<front s R' + max_buffered_bytes l}" "base_sequence e = b + of_nat (front s R')"
  shows "receiving l (tab[i := (e, window_at l s R' (front s R'))]) i k s b R'"
proof -
  have c: "collects l tab i" "spec_find k tab = Some i" using assms(1) by (simp_all add: receiving_def)
  have t: "table_ok l tab" using c(1) by (simp add: collects_def)
  have "collects l (tab[i := (e, window_at l s R' (front s R'))]) i"
    by (rule collects_update[OF c(1)]) (use assms(2-4) spec_find_Some[OF c(2) t] in \<open>simp_all add: window_at_def\<close>)
  then show ?thesis
    using assms(5-7) find_update[OF c(2) assms(2,3)] collects_key(3)[OF c(1)] by (simp add: receiving_def)
qed

lemma receiving_expire:
  assumes "receiving l tab i k s b R" "\<not> flow_expired now (fst (tab ! i))"
  shows "receiving l (spec_expire l now tab) i k s b R" "spec_expire l now tab ! i = tab ! i"
proof -
  have c: "collects l tab i" "spec_find k tab = Some i" using assms(1) by (simp_all add: receiving_def)
  show at: "spec_expire l now tab ! i = tab ! i" using collects_key(3)[OF c(1)] assms(2) by (simp add: spec_expire_def)
  have before: "\<not> (flow_active (fst (spec_expire l now tab ! j)) \<and> flow_key (fst (spec_expire l now tab ! j)) = k)" if "j < i" for j
    using c(2) that collects_key(3)[OF c(1)] by (auto simp: spec_find_def first_index_Some_iff spec_expire_def cleared_flow_def)
  have "spec_find k (spec_expire l now tab) = Some i"
    using c(2) before at by (auto simp: spec_find_def first_index_Some_iff) (simp add: spec_expire_def)
  moreover have "table_ok l (spec_expire l now tab)" using c(1) by (intro table_ok_expire) (simp add: collects_def)
  ultimately show "receiving l (spec_expire l now tab) i k s b R" using assms(1) at by (auto simp: receiving_def collects_def)
qed

lemma spec_bytes_receiving:
  assumes "receiving l tab i k s b R" "flow_active e" "flow_key e = k" "\<not> flow_rejected e" "base_sequence e = b + of_nat c"
    and "R' \<subseteq> {..<length s}" "R' \<subseteq> {..<c + max_buffered_bytes l}" "c \<le> front s R'"
  shows "\<exists>tab' st' r chunk. spec_bytes l (tab[i := (e, window_at l s R' c)]) st i False False changed now = (tab', st', r, chunk, slice c (front s R' - c) s)
    \<and> receiving l tab' i k s b R' \<and> chunk_size chunk = front s R' - c \<and> idle_deadline (fst (tab' ! i)) = idle_deadline e
    \<and> connection_deadline (fst (tab' ! i)) = connection_deadline e"
proof -
  let ?c' = "front s R'" and ?tab = "tab[i := (e, window_at l s R' c)]" and ?e' = "e\<lparr>base_sequence := base_sequence e + of_nat (front s R' - c)\<rparr>"
  have i: "i < length tab" using assms(1) collects_key(3)[of l tab i] by (simp add: receiving_def)
  have prefix: "prefix (snd (?tab ! i)) = slice c (?c' - c) s" "length (slice c (?c' - c) s) = ?c' - c"
    using prefix_window_at[OF assms(6-8)] i front_le[of s R'] by simp_all
  have wide: "R' \<subseteq> {..<?c' + max_buffered_bytes l}" using assms(7,8) by auto
  have "length (slice c (?c' - c) s) \<le> length (window_at l s R' c)" using prefix_le[of "window_at l s R' c"] prefix(1) i by simp
  then have small: "?c' - c \<le> max_buffered_bytes l" unfolding prefix(2) by (simp add: window_at_def)
  have base: "base_sequence e + of_nat (?c' - c) = b + of_nat ?c'" using assms(5,8) by (simp add: of_nat_diff)
  have "receiving l (tab[i := (?e', window_at l s R' ?c')]) i k s b R'"
    using assms(2-4) base by (intro receiving_update[OF assms(1) _ _ _ assms(6) wide]) simp_all
  moreover have "advanced (?c' - c) (?tab ! i) = (?e', window_at l s R' ?c')"
    using i consumed_window_at[OF assms(7) small, of s] assms(8) by (simp add: advanced_def)
  ultimately have rec: "receiving l (tab[i := advanced (?c' - c) (?tab ! i)]) i k s b R'" by simp
  have at: "advanced (?c' - c) (?tab ! i) = (?e', consumed_window (?c' - c) (window_at l s R' c))" using i by (simp add: advanced_def)
  show ?thesis
  proof (cases "?c' = c")
    case True
    then have same: "?tab = tab[i := advanced (?c' - c) (?tab ! i)]" using i by (simp add: advanced_def consumed_window_def)
    have "prefix (window_at l s R' c) = []" using prefix(1) i True by (simp add: slice_def)
    then show ?thesis
      using rec i True unfolding same[symmetric] by (simp add: spec_bytes_def no_chunk_def Let_def slice_def)
  next
    case False
    then have "slice c (?c' - c) s \<noteq> []" using prefix(2) assms(8) by (metis diff_is_0_eq le_antisym list.size(3))
    then show ?thesis
      using rec at i unfolding spec_bytes_def Let_def prefix by (simp add: no_chunk_def)
  qed
qed

lemma spec_raw_receiving:
  assumes rec: "receiving l tab i k s b R" and live: "\<not> flow_expired now (fst (tab ! i))" and seg: "carries k s b p d"
    and s: "length s \<le> 2 ^ 31" and fits: "d + payload_size p \<le> front s R + max_buffered_bytes l" and R': "R' = R \<union> {d..<d + payload_size p}"
    and few: "ranges (window_at l s R' (front s R)) \<le> max_out_of_order_segments l"
  shows "\<exists>tab' st' r chunk. spec_stream_raw l tab st p now = (tab', st', r, chunk, slice (front s R) (front s R' - front s R) s)
    \<and> receiving l tab' i k s b R' \<and> chunk_size chunk = front s R' - front s R \<and> idle_deadline (fst (tab' ! i)) = deadline now (idle_timeout_ms l)
    \<and> connection_deadline (fst (tab' ! i)) = connection_deadline (fst (tab ! i))"
proof -
  define tab1 where "tab1 = spec_expire l now tab"
  define e where "e = (fst (tab ! i))\<lparr>idle_deadline := deadline now (idle_timeout_ms l)\<rparr>"
  let ?c = "front s R" and ?c' = "front s R'" and ?n = "payload_size p" and ?w = "window_at l s R (front s R)"
  note rec1 = receiving_expire[OF rec live, folded tab1_def]
  have c1: "collects l tab1 i" "spec_find k tab1 = Some i" and sub: "R \<subseteq> {..<length s}" "R \<subseteq> {..<?c + max_buffered_bytes l}"
    using rec1(1) by (simp_all add: receiving_def)
  have flow: "snd (tab ! i) = ?w" "base_sequence e = b + of_nat ?c" "flow_active e" "\<not> flow_rejected e" "flow_key e = k"
    using rec spec_find_Some[of k tab i l] by (auto simp: receiving_def e_def collects_def)
  have sub': "R' \<subseteq> {..<length s}" "R' \<subseteq> {..<?c + max_buffered_bytes l}" using sub seg fits by (auto simp: R' carries_def)
  have mono: "?c \<le> ?c'" using sub' by (intro front_mono) (auto simp: R')
  then have wide: "R' \<subseteq> {..<?c' + max_buffered_bytes l}" using sub'(2) by auto
  have open1: "spec_open l tab st p now = (tab1, add_timeouts (timed_out now tab) st, Inr (i, False))"
    using seg c1 by (simp add: spec_open_def Let_def carries_def tab1_def[symmetric] collects_def)
  have seq: "payload_sequence p = b + of_nat d" using seg by (simp add: payload_sequence_def carries_def)
  have n: "0 < ?n" "d + ?n \<le> length s" using seg by (simp_all add: carries_def)
  note loc = locate_payload_stream[OF s n(2,1) front_le, of b R]
  note keep = receiving_update[OF rec1(1) flow(3,5,4)]
  define st1 where "st1 = add_timeouts (timed_out now tab) st"
  let ?chunk = "no_chunk\<lparr>chunk_flow_index := Some i, chunk_new_flow := False\<rparr>"
  have place: "spec_place l tab1 st1 i False p now =
      (case locate_payload (b + of_nat ?c) (b + of_nat d) (slice d ?n s) of
        None \<Rightarrow> (tab1[i := (e, ?w)], inc_duplicates st1, Inl (JG_TCP_STREAM_DUPLICATE, ?chunk))
      | Some (off, xs) \<Rightarrow> if off + length xs > max_buffered_bytes l then (tab1[i := refused l now e], inc_exhausted st1, Inl (JG_TCP_STREAM_EXHAUSTED, ?chunk))
          else if \<not> agrees ?w off xs then (tab1[i := refused l now e], inc_conflicts st1, Inl (JG_TCP_STREAM_CONFLICT, ?chunk))
          else if ranges (blit ?w off (map Some xs)) > max_out_of_order_segments l then (tab1[i := refused l now e], inc_exhausted st1, Inl (JG_TCP_STREAM_EXHAUSTED, ?chunk))
          else (tab1[i := (e, blit ?w off (map Some xs))], st1, Inr (news ?w off xs)))"
    using seg unfolding spec_place_def Let_def rec1(2) e_def[symmetric] flow(1) flow(2) seq carries_def list_update_overwrite by simp
  note step = spec_bytes_receiving[OF rec1(1) flow(3,5,4,2) sub' mono, of st1 _ now]
  have deadlines: "idle_deadline e = deadline now (idle_timeout_ms l)" "connection_deadline e = connection_deadline (fst (tab ! i))" by (simp_all add: e_def)
  have raw: "spec_stream_raw l tab st p now = spec_bytes l (tab1[i := (e, window_at l s R' ?c)]) st1 i False False changed now"
    if "spec_place l tab1 st1 i False p now = (tab1[i := (e, window_at l s R' ?c)], st1, Inr changed)" for changed
    using that seg unfolding spec_stream_raw_def open1 st1_def[symmetric] carries_def by simp
  have finish: ?thesis if "locate_payload (b + of_nat ?c) (b + of_nat d) (slice d ?n s) = Some (off, xs)" "off + length xs \<le> max_buffered_bytes l"
      "agrees ?w off xs" "blit ?w off (map Some xs) = window_at l s R' ?c" for off xs
  proof -
    have "spec_place l tab1 st1 i False p now = (tab1[i := (e, window_at l s R' ?c)], st1, Inr (news ?w off xs))"
      unfolding place that(1) option.case prod.case using that(2-4) few by simp
    from raw[OF this] step[of "news ?w off xs"] show ?thesis unfolding deadlines by simp
  qed
  consider (ahead) "?c \<le> d" | (old) "\<not> ?c \<le> d" "?c - d \<ge> ?n" | (across) "\<not> ?c \<le> d" "\<not> ?c - d \<ge> ?n" by blast
  then show ?thesis
  proof cases
    case ahead
    have placed: "agrees ?w (d - ?c) (slice d ?n s)" "blit ?w (d - ?c) (map Some (slice d ?n s)) = window_at l s R' ?c"
      using agrees_window_at[OF ahead fits n(2), of R] by (simp_all add: R')
    have "d - ?c + length (slice d ?n s) \<le> max_buffered_bytes l" using ahead fits n by simp
    moreover have "locate_payload (b + of_nat ?c) (b + of_nat d) (slice d ?n s) = Some (d - ?c, slice d ?n s)" unfolding loc using ahead by simp
    ultimately show ?thesis using finish placed by blast
  next
    case old
    have "R' = R" using old front_received[of _ s R] by (auto simp: R')
    have "spec_stream_raw l tab st p now = (tab1[i := (e, ?w)], inc_duplicates st1, JG_TCP_RAW_STREAM_DUPLICATE, ?chunk, [])"
      using old unfolding spec_stream_raw_def open1 st1_def[symmetric] prod.case sum.case place loc by simp
    moreover have "receiving l (tab1[i := (e, ?w)]) i k s b R'"
      using keep[OF sub flow(2)] \<open>R' = R\<close> by simp
    ultimately show ?thesis using collects_key(3)[OF c1(1)] deadlines \<open>R' = R\<close> by (simp add: no_chunk_def slice_def)
  next
    case across
    have "R \<union> {?c..<?c + (d + ?n - ?c)} = R'" using across front_received[of _ s R] by (auto simp: R')
    moreover have "?c + (d + ?n - ?c) \<le> ?c + max_buffered_bytes l" "?c + (d + ?n - ?c) \<le> length s" using across fits n by simp_all
    ultimately have placed: "agrees ?w 0 (slice ?c (d + ?n - ?c) s)" "blit ?w 0 (map Some (slice ?c (d + ?n - ?c) s)) = window_at l s R' ?c"
      using agrees_window_at[of ?c ?c "d + ?n - ?c" l s R] by simp_all
    have "0 + length (slice ?c (d + ?n - ?c) s) \<le> max_buffered_bytes l" using across fits by simp
    moreover have "locate_payload (b + of_nat ?c) (b + of_nat d) (slice d ?n s) = Some (0, slice ?c (d + ?n - ?c) s)" unfolding loc using across by simp
    ultimately show ?thesis using finish placed by blast
  qed
qed

section \<open>Sequences of segments\<close>

type_synonym arrival = "jg_packet_view \<times> nat \<times> u64"

text \<open>What the caller reads after each segment.\<close>

fun deliver_all :: "jg_tcp_stream_tracker \<Rightarrow> arrival list \<Rightarrow> bytes \<Rightarrow> (errno, bytes list) run" where
  "deliver_all t [] out = Done []"
| "deliver_all t ((p, d, now) # as) out =
     and_then (jg_tcp_stream_tracker_add_raw t p now out) (\<lambda>(t, r, chunk, out').
     and_then (deliver_all t as out) (\<lambda>xs. Done (take (chunk_size chunk) out' # xs)))"

fun received :: "nat set \<Rightarrow> arrival list \<Rightarrow> nat set" where
  "received R [] = R"
| "received R ((p, d, now) # as) = received (R \<union> {d..<d + payload_size p}) as"

text \<open>Every segment comes before the deadlines, fits the window, and does not leave too many ranges.\<close>

fun admitted :: "jg_tcp_stream_limits \<Rightarrow> bytes \<Rightarrow> u64 \<Rightarrow> u64 \<Rightarrow> nat set \<Rightarrow> arrival list \<Rightarrow> bool" where
  "admitted l s conn idle R [] = True"
| "admitted l s conn idle R ((p, d, now) # as) = (let R' = R \<union> {d..<d + payload_size p} in
     now < idle \<and> now < conn \<and> d + payload_size p \<le> front s R + max_buffered_bytes l
     \<and> ranges (window_at l s R' (front s R)) \<le> max_out_of_order_segments l
     \<and> admitted l s conn (deadline now (idle_timeout_ms l)) R' as)"

lemma received_sub: "\<forall>(p, d, now) \<in> set as. d + payload_size p \<le> length s \<Longrightarrow> R \<subseteq> {..<length s} \<Longrightarrow> R \<subseteq> received R as \<and> received R as \<subseteq> {..<length s}"
proof (induction R "as" rule: received.induct)
  case (2 R p d now "as")
  then have "R \<union> {d..<d + payload_size p} \<subseteq> {..<length s}" by auto
  with 2 show ?case by auto
qed simp

lemma slice_slice_append: "a \<le> b \<Longrightarrow> b \<le> c \<Longrightarrow> slice a (b - a) xs @ slice b (c - b) xs = slice a (c - a) xs"
proof -
  assume "a \<le> b" "b \<le> c"
  then have "drop b xs = drop (b - a) (drop a xs)" "c - a = (b - a) + (c - b)" by simp_all
  then show ?thesis by (simp only: slice_def take_add)
qed

lemma deliver_all_receiving:
  assumes "regions_ok l rs" "map view rs = tab" "receiving l tab i k s b R" "\<forall>(p, d, now) \<in> set as. carries k s b p d" "length s \<le> 2 ^ 31"
    and "admitted l s (connection_deadline (fst (tab ! i))) (idle_deadline (fst (tab ! i))) R as" "max_buffered_bytes l \<le> length out"
  shows "\<exists>xs. deliver_all (tracker_of l rs st) as out = Done xs \<and> concat xs = slice (front s R) (front s (received R as) - front s R) s"
  using assms
proof (induction "as" arbitrary: rs tab st R)
  case Nil
  then show ?case by (simp add: slice_def)
next
  case (Cons a "as")
  obtain p d now where a: "a = (p, d, now)" by (cases a)
  define R' where "R' = R \<union> {d..<d + payload_size p}"
  have seg: "carries k s b p d" using Cons.prems(4) a by simp
  have adm: "now < idle_deadline (fst (tab ! i))" "now < connection_deadline (fst (tab ! i))" "d + payload_size p \<le> front s R + max_buffered_bytes l"
    "ranges (window_at l s R' (front s R)) \<le> max_out_of_order_segments l"
    "admitted l s (connection_deadline (fst (tab ! i))) (deadline now (idle_timeout_ms l)) R' as"
    using Cons.prems(6) by (simp_all add: a Let_def R'_def)
  have live: "\<not> flow_expired now (fst (tab ! i))" using adm(1,2) by (simp add: flow_expired_def not_le)
  obtain tab' st' r chunk where spec: "spec_stream_raw l tab st p now = (tab', st', r, chunk, slice (front s R) (front s R' - front s R) s)"
    and rec: "receiving l tab' i k s b R'" and chunk: "chunk_size chunk = front s R' - front s R"
    and dl: "idle_deadline (fst (tab' ! i)) = deadline now (idle_timeout_ms l)" "connection_deadline (fst (tab' ! i)) = connection_deadline (fst (tab ! i))"
    using spec_raw_receiving[OF Cons.prems(3) live seg Cons.prems(5) adm(3) R'_def adm(4)] by blast
  have "table_ok l tab" using Cons.prems(3) by (simp add: receiving_def collects_def)
  from stream_raw_refines[OF Cons.prems(1,2) this _ _ Cons.prems(7) spec] seg
  obtain rs' where run: "jg_tcp_stream_tracker_add_raw (tracker_of l rs st) p now out
      = Done (tracker_of l rs' st', r, chunk, blit out 0 (slice (front s R) (front s R' - front s R) s))" "regions_ok l rs'" "map view rs' = tab'"
    by (auto simp: carries_def refines_def)
  obtain xs where xs: "deliver_all (tracker_of l rs' st') as out = Done xs" "concat xs = slice (front s R') (front s (received R' as) - front s R') s"
    using Cons.IH[OF run(2,3) rec, of st'] Cons.prems(4,5,7) adm(5) dl by auto
  have within: "\<forall>(p, d, now) \<in> set (a # as). d + payload_size p \<le> length s" using Cons.prems(4) by (auto simp: carries_def)
  have R: "R \<subseteq> {..<length s}" using Cons.prems(3) by (simp add: receiving_def)
  then have R': "R \<subseteq> R'" "R' \<subseteq> {..<length s}" using within by (auto simp: R'_def a)
  have "R' \<subseteq> received R' as \<and> received R' as \<subseteq> {..<length s}" using within by (intro received_sub[OF _ R'(2)]) auto
  then have order: "front s R \<le> front s R'" "front s R' \<le> front s (received R' as)" using R' by (auto intro: front_mono)
  have "length (slice (front s R) (front s R' - front s R) s) = front s R' - front s R" using front_le[of s R'] by simp
  then have "take (chunk_size chunk) (blit out 0 (slice (front s R) (front s R' - front s R) s)) = slice (front s R) (front s R' - front s R) s"
    by (simp add: chunk blit_start)
  then show ?case
    using run(1) xs slice_slice_append[OF order, of s] by (simp add: a R'_def[symmetric])
qed

lemma spec_open_syn:
  assumes "table_ok l tab" "has_flag p JG_TCP_FLAG_SYN" "\<not> has_flag p JG_TCP_FLAG_RST" "spec_open l tab st p now = (tab', st', Inr (i, is_new))"
  obtains T where "table_ok l T" "i < max_flows l" "tab' = T[i := (opened_entry l (packet_stream_key p) (payload_sequence p) now, replicate (max_buffered_bytes l) None)]"
    "\<forall>j < i. \<not> (flow_active (fst (T ! j)) \<and> flow_key (fst (T ! j)) = packet_stream_key p)"
proof -
  let ?tab = "spec_expire l now tab" and ?k = "packet_stream_key p"
  note t = table_ok_expire[OF assms(1), of now]
  show thesis
  proof (cases "spec_find ?k ?tab")
    case None
    then have free: "spec_free ?tab = Some i" "tab' = ?tab[i := (opened_entry l ?k (payload_sequence p) now, replicate (max_buffered_bytes l) None)]"
      using assms(2-4) by (auto simp: spec_open_def Let_def split: option.splits if_splits)
    note i = spec_free_Some[OF free(1) t]
    have "\<forall>f \<in> set ?tab. \<not> (flow_active (fst f) \<and> flow_key (fst f) = ?k)"
      using None unfolding spec_find_def first_index_None_iff .
    moreover have "\<forall>j < i. ?tab ! j \<in> set ?tab" using i(1) t by (auto simp: table_ok_def)
    ultimately have "\<forall>j < i. \<not> (flow_active (fst (?tab ! j)) \<and> flow_key (fst (?tab ! j)) = ?k)" by blast
    then show thesis by (rule that[OF t i(1) free(2)])
  next
    case (Some i')
    then have i: "i' = i" "tab' = ?tab[i := unused l, i := (opened_entry l ?k (payload_sequence p) now, replicate (max_buffered_bytes l) None)]"
      using assms(2-4) by (auto simp: spec_open_def Let_def split: if_splits)
    have "\<forall>j < i. \<not> (flow_active (fst ((?tab[i := unused l]) ! j)) \<and> flow_key (fst ((?tab[i := unused l]) ! j)) = ?k)"
      using Some i(1) by (auto simp: spec_find_def first_index_Some_iff)
    then show thesis
      using spec_find_Some(1)[OF Some t] i by (intro that[OF table_ok_update[OF t flow_ok_unused, of i]]) simp_all
  qed
qed

lemma opened_receiving:
  assumes "table_ok l T" "i < max_flows l" "canonical_stream_key k" "flow_active e" "\<not> flow_rejected e" "flow_key e = k" "base_sequence e = b"
    and "\<forall>j < i. \<not> (flow_active (fst (T ! j)) \<and> flow_key (fst (T ! j)) = k)"
  shows "receiving l (T[i := (e, replicate (max_buffered_bytes l) None)]) i k s b {}"
proof -
  have n: "i < length T" using assms(1,2) by (simp add: table_ok_def)
  note front_empty[of s]
  moreover have "window_at l s {} 0 = replicate (max_buffered_bytes l) None" by (intro nth_equalityI) (simp_all add: window_at_def)
  moreover have "flow_ok l (e, replicate (max_buffered_bytes l) None)" using assms by (simp add: flow_ok_def)
  ultimately show ?thesis
    using assms n by (auto simp: receiving_def collects_def spec_find_def first_index_Some_iff intro: table_ok_update)
qed

section \<open>Properties\<close>

definition tracks :: "jg_tcp_stream_tracker \<Rightarrow> jg_tcp_stream_limits \<Rightarrow> flow list \<Rightarrow> jg_tcp_stream_stats \<Rightarrow> bool" where
  "tracks t l tab st \<longleftrightarrow> streams_ok t \<and> stream_limits t = l \<and> flow_table t = tab \<and> jg_tcp_stream_tracker_get_stats t = st"

lemma tracks_tracker_of:
  "regions_ok l rs \<Longrightarrow> table_ok l (map view rs) \<Longrightarrow> jg_tcp_stream_limits_validate l = Inr () \<Longrightarrow> tracks (tracker_of l rs st) l (map view rs) st"
  using tracker_of_ok[of l rs st] by (simp add: tracks_def jg_tcp_stream_tracker_get_stats_def)

lemma valid_stream_packet:
  "packet_valid_for_port p port \<Longrightarrow> length (source_address p) = 16 \<Longrightarrow> length (destination_address p) = 16 \<Longrightarrow> stream_packet p"
  by (simp add: packet_valid_for_port_def stream_packet_def JG_PACKET_ADDRESS_SIZE_def JG_PACKET_VLAN_LIMIT_def)

lemma streams_ok_table: "streams_ok t \<Longrightarrow> table_ok (stream_limits t) (flow_table t) \<and> jg_tcp_stream_limits_validate (stream_limits t) = Inr ()"
  by (simp add: streams_ok_def Let_def)

text \<open>
  C22. Refinement. On a tracker that satisfies the invariant (a created one does) and with buffers of the
  required sizes, the three operations terminate without leaving an arena or a buffer, keep the invariant,
  and have the outcome, the flow table and the counters of their specifications: \<open>jg_tcp_stream_tracker_add\<close>
  hands out exactly the complete DNS messages at the front of the flow's window,
  \<open>jg_tcp_stream_tracker_add_raw\<close> the contiguous bytes there, and \<open>jg_tcp_stream_tracker_reject_flow\<close> leaves
  a rejection for the flow or reports that there is no slot.
\<close>

theorem jg_tcp_stream_tracker_refines:
  assumes "streams_ok t \<or> jg_tcp_stream_tracker_create calloc limits = Inr t"
    and "length (source_address packet) = 16" "length (destination_address packet) = 16"
    and "max_buffered_bytes (stream_limits t) \<le> length out" "max_messages_per_packet (stream_limits t) \<le> length msgs"
  shows "(packet_valid_for_port packet 53 \<longrightarrow>
      (\<exists>t' out' msgs'. let (tab, st, r, ms) = spec_stream_add (stream_limits t) (flow_table t) (stream_stats t) packet now in
        jg_tcp_stream_tracker_add t packet now out msgs = Done (t', r, out', msgs', length ms)
        \<and> delivered out' msgs' (length ms) = ms \<and> tracks t' (stream_limits t) tab st))
    \<and> (packet_valid_for_port packet 443 \<or> packet_valid_for_port packet 853 \<longrightarrow>
      (\<exists>t'. let (tab, st, r, chunk, xs) = spec_stream_raw (stream_limits t) (flow_table t) (stream_stats t) packet now in
        jg_tcp_stream_tracker_add_raw t packet now out = Done (t', r, chunk, blit out 0 xs) \<and> tracks t' (stream_limits t) tab st))
    \<and> (packet_valid_for_port packet 53 \<or> packet_valid_for_port packet 443 \<or> packet_valid_for_port packet 853 \<longrightarrow>
      (\<exists>t'. let (tab, st, r) = spec_stream_reject (stream_limits t) (flow_table t) (stream_stats t) packet now in
        jg_tcp_stream_tracker_reject_flow t packet now = Done (t', r) \<and> tracks t' (stream_limits t) tab st))"
proof -
  have ok: "streams_ok t" using assms(1) created_streams(1) by blast
  let ?l = "stream_limits t" and ?tab = "flow_table t" and ?st = "stream_stats t"
  obtain rs where t: "t = tracker_of ?l rs ?st" "regions_ok ?l rs" "map view rs = ?tab" by (rule streams_ok_regions[OF ok])
  note table = streams_ok_table[OF ok]
  note packet = valid_stream_packet[OF _ assms(2,3)]
  have add: "\<exists>t' out' msgs'. let (tab, st, r, ms) = spec_stream_add ?l ?tab ?st packet now in
      jg_tcp_stream_tracker_add t packet now out msgs = Done (t', r, out', msgs', length ms)
      \<and> delivered out' msgs' (length ms) = ms \<and> tracks t' ?l tab st" if v: "packet_valid_for_port packet 53"
  proof -
    obtain tab st r ms where spec: "spec_stream_add ?l ?tab ?st packet now = (tab, st, r, ms)" by (cases "spec_stream_add ?l ?tab ?st packet now")
    obtain out' msgs' where o: "refines ?l (jg_tcp_stream_tracker_add t packet now out msgs) (tab, st, r, out', msgs', length ms)"
      "delivered out' msgs' (length ms) = ms" "table_ok ?l tab"
      using stream_add_refines[OF t(2,3) conjunct1[OF table] packet[OF v] v assms(4,5) spec] t(1) by auto
    obtain rs' where "jg_tcp_stream_tracker_add t packet now out msgs = Done (tracker_of ?l rs' st, r, out', msgs', length ms)"
      "regions_ok ?l rs'" "map view rs' = tab" using o(1) by (auto simp: refines_def)
    with o(2,3) spec tracks_tracker_of[of ?l rs' st] table show ?thesis by auto
  qed
  have raw: "\<exists>t'. let (tab, st, r, chunk, xs) = spec_stream_raw ?l ?tab ?st packet now in
      jg_tcp_stream_tracker_add_raw t packet now out = Done (t', r, chunk, blit out 0 xs) \<and> tracks t' ?l tab st"
    if v: "packet_valid_for_port packet 443 \<or> packet_valid_for_port packet 853"
  proof -
    obtain tab st r chunk xs where spec: "spec_stream_raw ?l ?tab ?st packet now = (tab, st, r, chunk, xs)" by (cases "spec_stream_raw ?l ?tab ?st packet now")
    have "stream_packet packet" using v packet by blast
    from stream_raw_refines[OF t(2,3) conjunct1[OF table] this v assms(4) spec] t(1)
    obtain rs' where "jg_tcp_stream_tracker_add_raw t packet now out = Done (tracker_of ?l rs' st, r, chunk, blit out 0 xs)"
      "regions_ok ?l rs'" "map view rs' = tab" "table_ok ?l tab" by (auto simp: refines_def)
    with spec tracks_tracker_of[of ?l rs' st] table show ?thesis by auto
  qed
  have reject: "\<exists>t'. let (tab, st, r) = spec_stream_reject ?l ?tab ?st packet now in
      jg_tcp_stream_tracker_reject_flow t packet now = Done (t', r) \<and> tracks t' ?l tab st"
    if v: "packet_valid_for_port packet 53 \<or> packet_valid_for_port packet 443 \<or> packet_valid_for_port packet 853"
  proof -
    obtain tab st r where spec: "spec_stream_reject ?l ?tab ?st packet now = (tab, st, r)" by (cases "spec_stream_reject ?l ?tab ?st packet now")
    have "stream_packet packet" using v packet by blast
    from stream_reject_refines[OF t(2,3) conjunct1[OF table] this v spec] t(1)
    obtain rs' where "jg_tcp_stream_tracker_reject_flow t packet now = Done (tracker_of ?l rs' st, r)"
      "regions_ok ?l rs'" "map view rs' = tab" "table_ok ?l tab" by (auto simp: refines_def)
    with spec tracks_tracker_of[of ?l rs' st] table show ?thesis by auto
  qed
  from add raw reject show ?thesis by blast
qed

definition sample_limits :: jg_tcp_stream_limits where
  "sample_limits = \<lparr>max_flows = 1, max_flows_per_source = 1, max_buffered_bytes = 4, max_out_of_order_segments = 2,
     max_dns_message_size = 2, max_messages_per_packet = 1, idle_timeout_ms = 10, connection_timeout_ms = 20\<rparr>"

definition sample_tracker :: jg_tcp_stream_tracker where
  "sample_tracker = \<lparr>stream_limits = sample_limits, flows = [cleared_flow], buffers = replicate 4 0, present = replicate 4 0,
     stream_stats = TcpStream.initialize_stats\<rparr>"

definition sample_segment :: "u8 \<Rightarrow> u32 \<Rightarrow> bytes \<Rightarrow> jg_packet_view" where
  "sample_segment flags sq data = cleared_view\<lparr>frame := data, ip_version := JG_IP_V4, address_size := 4, ip_protocol := IPPROTO_TCP,
     transport := JG_TRANSPORT_TCP, destination_port := 443, tcp_flags := flags, tcp_sequence := sq, payload_size := length data\<rparr>"

lemma sample_created: "jg_tcp_stream_tracker_create (\<lambda>n m. True) (Some sample_limits) = Inr sample_tracker"
  by (simp add: jg_tcp_stream_tracker_create_def sample_limits_def sample_tracker_def jg_tcp_stream_limits_validate_def jg_size_multiply_def
      SIZE_MAX_def JG_TCP_STREAM_FLOW_LIMIT_def JG_TCP_STREAM_BYTES_LIMIT_def JG_TCP_STREAM_SEGMENT_LIMIT_def JG_TCP_STREAM_DNS_LIMIT_def
      JG_TCP_STREAM_MESSAGE_LIMIT_def JG_TCP_STREAM_TIMEOUT_LIMIT_def)

lemma sample_state: "streams_ok sample_tracker" "flow_table sample_tracker = [unused sample_limits]" "stream_limits sample_tracker = sample_limits"
  "stream_stats sample_tracker = TcpStream.initialize_stats"
  using created_streams[OF sample_created] by (simp_all add: sample_limits_def)

lemma sample_valid:
  "packet_valid_for_port (sample_segment flags sq data) 443"
  "length (source_address (sample_segment flags sq data)) = 16" "length (destination_address (sample_segment flags sq data)) = 16"
  by (simp_all add: sample_segment_def cleared_view_def packet_valid_for_port_def JG_PACKET_ADDRESS_SIZE_def)

lemma sample_syn:
  "\<exists>tab st chunk. spec_stream_raw sample_limits [unused sample_limits] TcpStream.initialize_stats (sample_segment JG_TCP_FLAG_SYN sq []) now
     = (tab, st, JG_TCP_RAW_STREAM_BUFFERED, chunk, [])"
  by (simp add: spec_stream_raw_def spec_open_def spec_place_def spec_expire_def spec_find_def spec_free_def spec_count_def first_index_def
      flow_expired_def cleared_flow_def sample_segment_def cleared_view_def sample_limits_def JG_TCP_FLAG_SYN_def JG_TCP_FLAG_FIN_def
      JG_TCP_FLAG_RST_def Let_def)

theorem jg_tcp_stream_tracker_refines_witness:
  "\<exists>t' chunk. jg_tcp_stream_tracker_add_raw sample_tracker (sample_segment JG_TCP_FLAG_SYN 7 []) 5 [1, 2, 3, 4]
      = Done (t', JG_TCP_RAW_STREAM_BUFFERED, chunk, [1, 2, 3, 4]) \<and> streams_ok t'"
  using jg_tcp_stream_tracker_refines[of sample_tracker "\<lambda>n m. True" "Some sample_limits" "sample_segment JG_TCP_FLAG_SYN 7 []" "[1, 2, 3, 4]"
      "[\<lparr>message_offset = 0, message_size = 0\<rparr>]" 5]
    sample_state sample_valid[of JG_TCP_FLAG_SYN 7 "[]"] sample_syn[of 7 5]
  by (auto simp: tracks_def sample_limits_def split: prod.splits)

text \<open>
  C23. Functional. After a SYN that the tracker admits, the segments of a stream of at most 2^31 bytes may
  come in any order, overlapping and repeated, across the wrap-around of the sequence numbers: when each
  comes in time, fits the window and does not leave too many ranges, the bytes handed out one call after
  the other are exactly the stream up to the first byte that did not arrive; no byte is lost, repeated,
  reordered or delayed.
\<close>

theorem tcp_stream_delivered_in_order:
  assumes "streams_ok t" "packet_valid_for_port syn 443 \<or> packet_valid_for_port syn 853"
    and "length (source_address syn) = 16" "length (destination_address syn) = 16" "payload_size syn = 0"
    and "has_flag syn JG_TCP_FLAG_SYN" "\<not> has_flag syn JG_TCP_FLAG_RST" "\<not> has_flag syn JG_TCP_FLAG_FIN"
    and "jg_tcp_stream_tracker_add_raw t syn now out = Done (t', JG_TCP_RAW_STREAM_BUFFERED, chunk, out')"
    and "\<forall>(p, d, _) \<in> set as. carries (packet_stream_key syn) s (tcp_sequence syn + 1) p d" "length s \<le> 2 ^ 31"
    and "admitted (stream_limits t) s (deadline now (connection_timeout_ms (stream_limits t))) (deadline now (idle_timeout_ms (stream_limits t))) {} as"
    and "max_buffered_bytes (stream_limits t) \<le> length out"
  shows "\<exists>xs. deliver_all t' as out = Done xs \<and> concat xs = take (front s (received {} as)) s"
proof -
  let ?l = "stream_limits t" and ?tab = "flow_table t" and ?st = "stream_stats t" and ?k = "packet_stream_key syn"
  obtain rs where t: "t = tracker_of ?l rs ?st" "regions_ok ?l rs" "map view rs = ?tab" by (rule streams_ok_regions[OF assms(1)])
  note table = conjunct1[OF streams_ok_table[OF assms(1)]]
  have packet: "stream_packet syn" using assms(2-4) valid_stream_packet by blast
  obtain tab st r c xs where spec: "spec_stream_raw ?l ?tab ?st syn now = (tab, st, r, c, xs)" by (cases "spec_stream_raw ?l ?tab ?st syn now")
  from stream_raw_refines[OF t(2,3) table packet assms(2,13) spec] t(1)
  obtain rs' where run: "jg_tcp_stream_tracker_add_raw t syn now out = Done (tracker_of ?l rs' st, r, c, blit out 0 xs)"
    and rs': "regions_ok ?l rs'" "map view rs' = tab" by (auto simp: refines_def)
  with assms(9) have r: "r = JG_TCP_RAW_STREAM_BUFFERED" "t' = tracker_of ?l rs' st" by simp_all
  obtain tab1 st1 r1 where o: "spec_open ?l ?tab ?st syn now = (tab1, st1, r1)" by (cases "spec_open ?l ?tab ?st syn now")
  from spec o r(1) assms(6,7) obtain i is_new where r1: "r1 = Inr (i, is_new)"
    by (auto simp: spec_stream_raw_def spec_open_def Let_def split: option.splits if_splits)
  obtain T where T: "table_ok ?l T" "i < max_flows ?l" "\<forall>j < i. \<not> (flow_active (fst (T ! j)) \<and> flow_key (fst (T ! j)) = ?k)"
    and tab1: "tab1 = T[i := (opened_entry ?l ?k (payload_sequence syn) now, replicate (max_buffered_bytes ?l) None)]"
    using spec_open_syn[OF table assms(6,7) o[unfolded r1]] by blast
  define e where "e = (opened_entry ?l ?k (payload_sequence syn) now)\<lparr>idle_deadline := deadline now (idle_timeout_ms ?l)\<rparr>"
  have i: "i < length T" using T(1,2) by (simp add: table_ok_def)
  have "tab = T[i := (e, replicate (max_buffered_bytes ?l) None)]"
    using spec o r1 assms(5,8) i by (simp add: spec_stream_raw_def spec_place_def Let_def tab1 e_def)
  moreover have e: "flow_active e" "\<not> flow_rejected e" "flow_key e = ?k" "base_sequence e = tcp_sequence syn + 1"
    "idle_deadline e = deadline now (idle_timeout_ms ?l)" "connection_deadline e = deadline now (connection_timeout_ms ?l)"
    using assms(6) by (simp_all add: e_def opened_entry_def cleared_flow_def payload_sequence_def)
  ultimately have rec: "receiving ?l tab i ?k s (tcp_sequence syn + 1) {}" "fst (tab ! i) = e"
    using opened_receiving[OF T(1,2) build_stream_key(2)[OF packet] e(1-4) T(3)] i by simp_all
  note front_empty[of s]
  moreover have segments: "\<forall>(p, d, now) \<in> set as. carries ?k s (tcp_sequence syn + 1) p d" using assms(10) by auto
  ultimately show ?thesis
    using deliver_all_receiving[OF rs' rec(1) segments assms(11) _ assms(13), of st] assms(12) rec(2) e(5,6) r(2) by simp
qed

theorem tcp_stream_delivered_in_order_witness:
  "\<exists>t' chunk xs. jg_tcp_stream_tracker_add_raw sample_tracker (sample_segment JG_TCP_FLAG_SYN (- 2) []) 5 [0, 0, 0, 0]
       = Done (t', JG_TCP_RAW_STREAM_BUFFERED, chunk, [0, 0, 0, 0])
     \<and> deliver_all t' [(sample_segment 0 0 [2, 3], 1, 6), (sample_segment 0 (- 1) [1, 2], 0, 14)] [0, 0, 0, 0] = Done xs \<and> concat xs = [1, 2, 3]"
proof -
  let ?syn = "sample_segment JG_TCP_FLAG_SYN (- 2) []" and ?as = "[(sample_segment 0 0 [2, 3], 1, 6), (sample_segment 0 (- 1) [1, 2], 0, 14)] :: arrival list"
    and ?out = "[0, 0, 0, 0] :: bytes" and ?s = "[1, 2, 3] :: bytes"
  obtain rs where t: "sample_tracker = tracker_of sample_limits rs TcpStream.initialize_stats" "regions_ok sample_limits rs" "map view rs = [unused sample_limits]"
    using streams_ok_regions[OF sample_state(1)] unfolding sample_state(2-4) by blast
  have table: "table_ok sample_limits [unused sample_limits]" using streams_ok_table[OF sample_state(1)] unfolding sample_state(2-4) by blast
  note valid = sample_valid[of JG_TCP_FLAG_SYN "- 2" "[]"]
  obtain tab st chunk where syn: "spec_stream_raw sample_limits [unused sample_limits] TcpStream.initialize_stats ?syn 5 = (tab, st, JG_TCP_RAW_STREAM_BUFFERED, chunk, [])"
    using sample_syn by blast
  obtain t' where t': "jg_tcp_stream_tracker_add_raw sample_tracker ?syn 5 ?out = Done (t', JG_TCP_RAW_STREAM_BUFFERED, chunk, ?out)"
    using stream_raw_refines[OF t(2,3) table valid_stream_packet[OF valid] disjI1[OF valid(1)] _ syn, of ?out] t(1)
    by (auto simp: refines_def sample_limits_def)
  have segment: "carries (packet_stream_key ?syn) ?s (tcp_sequence ?syn + 1) (sample_segment 0 (- 1 + of_nat d) xs) d"
    if "xs \<noteq> []" "d + length xs \<le> 3" "xs = slice d (length xs) ?s" for d xs
    using that sample_valid[of 0 "- 1 + of_nat d" xs] valid_stream_packet[OF sample_valid, of 0 "- 1 + of_nat d" xs]
    by (simp add: carries_def packet_stream_key_def sample_segment_def cleared_view_def)
  have fronts: "front ?s {} = 0" "front ?s {Suc 0..<3} = 0" "front ?s ({Suc 0..<3} \<union> {0..<2}) = 3" by (simp_all add: front_def upt_rec)
  have "\<exists>xs. deliver_all t' ?as ?out = Done xs \<and> concat xs = take (front ?s (received {} ?as)) ?s"
  proof (rule tcp_stream_delivered_in_order[OF sample_state(1) disjI1[OF valid(1)] valid(2,3) _ _ _ _ t'])
    show "\<forall>(p, d, _) \<in> set ?as. carries (packet_stream_key ?syn) ?s (tcp_sequence ?syn + 1) p d"
      using segment[of "[2, 3]" 1] segment[of "[1, 2]" 0] by (simp add: slice_def)
    show "admitted (stream_limits sample_tracker) ?s (deadline 5 (connection_timeout_ms (stream_limits sample_tracker)))
        (deadline 5 (idle_timeout_ms (stream_limits sample_tracker))) {} ?as"
      using fronts by (simp add: sample_state sample_limits_def deadline_def sample_segment_def cleared_view_def window_at_def ranges_def starts_def upt_rec)
  qed (simp_all add: sample_state(3) sample_limits_def sample_segment_def cleared_view_def JG_TCP_FLAG_SYN_def JG_TCP_FLAG_RST_def JG_TCP_FLAG_FIN_def)
  moreover have "received {} ?as = {Suc 0..<3} \<union> {0..<2}" by (simp add: sample_segment_def cleared_view_def eval_nat_numeral)
  ultimately show ?thesis using t' fronts(3) by auto
qed

end
