(* ===== verification/Collector.thy ===== *)
theory Collector
  imports Dataplane Slots Transitions
begin

text \<open>
  \<^verbatim>\<open>src/daemon/policy_stats_collector.c\<close>: the bounded queue between the packet workers and the one
  thread that writes statistics to the database. The packet path submits without waiting, the writer
  drains batches, and a change of policy or a restore pauses the collector, which discards the queue and
  waits until the writer is quiet.

  Every access to the shared state is in a critical section of one mutex, so the operations are modelled at
  that grain: an action is one critical section, or the work of the writer between two of them, and any
  interleaving of actions is a behaviour. The outcome of \<open>pthread_mutex_trylock\<close> and of the condition
  waits are arguments, the other locks succeed. The database is a parameter: its state and the four
  functions that the collector calls.
\<close>

section \<open>Data\<close>

datatype jg_policy_stats_dimension = JG_POLICY_STATS_DOMAIN | JG_POLICY_STATS_DESTINATION | DIMENSION_OTHER nat

record jg_policy_stats_event_rule =
  er_dimension :: jg_policy_stats_dimension
  er_rule_id :: u64
  er_statistics_id :: bytes
  er_decision :: bool
  er_would_block :: bool
  er_enforced_block :: bool
  er_allow_decision :: bool
  er_shadowed :: bool

text \<open>The rules are the first \<open>rule_count\<close> entries of the array of four.\<close>

record jg_policy_stats_event =
  ev_generation :: u64
  ev_occurred_at :: u64
  ev_path :: jg_policy_stats_path
  ev_client :: jg_policy_client
  ev_domain :: bytes
  ev_query_type :: u16
  ev_matched :: bool
  ev_would_block :: bool
  ev_enforced_block :: bool
  ev_rules :: "jg_policy_stats_event_rule list"

record jg_policy_traffic_sample =
  ts_occurred_at :: u64
  ts_path :: jg_policy_stats_path
  ts_matched :: bool
  ts_would_block :: bool
  ts_enforced_block :: bool

record jg_policy_rule_sample =
  rs_occurred_at :: u64
  rs_dimension :: jg_policy_stats_dimension
  rs_rule_id :: u64
  rs_statistics_id :: bytes
  rs_path :: jg_policy_stats_path
  rs_client :: jg_policy_client
  rs_domain :: bytes
  rs_query_type :: u16
  rs_decision :: bool
  rs_would_block :: bool
  rs_enforced_block :: bool
  rs_allow_decision :: bool
  rs_shadowed :: bool

record jg_policy_stats_storage =
  so_detail_rows :: u64
  so_estimated_bytes :: u64
  so_cardinality_dropped :: u64
  so_storage_dropped :: u64
  so_storage_suspended :: bool

record jg_policy_stats_collector_stats =
  submitted :: u64
  dropped :: u64
  restore_dropped :: u64
  stale_generation_dropped :: u64
  recorded_requests :: u64
  recorded_rules :: u64
  write_failures :: u64
  cleanup_batches :: u64
  cleanup_failures :: u64
  detail_rows :: u64
  estimated_bytes :: u64
  cardinality_dropped :: u64
  storage_dropped :: u64
  storage_suspended :: u64

record jg_policy_stats_collector =
  queue :: "jg_policy_stats_event list"
  batch :: "jg_policy_stats_event list"
  traffic :: "jg_policy_traffic_sample list"
  rule_samples :: "jg_policy_rule_sample list"
  collector_stats :: jg_policy_stats_collector_stats
  capacity :: nat
  batch_capacity :: nat
  queue_head :: nat
  queue_count :: nat
  next_cleanup_at :: u64
  collector_generation :: u64
  started :: bool
  stopping :: bool
  paused :: bool
  restore_pause :: bool
  writer_active :: bool

text \<open>
  The database as the collector sees it. Of the configuration it reads whether retention is enabled, of
  the cleanup report whether the cleanup is complete.
\<close>

record 'd database_ops =
  record_policy_stats :: "jg_policy_traffic_sample list \<Rightarrow> jg_policy_rule_sample list \<Rightarrow> 'd \<Rightarrow> unit result \<times> 'd"
  load_policy_stats_storage :: "'d \<Rightarrow> jg_policy_stats_storage result"
  load_retention_enabled :: "'d \<Rightarrow> bool result"
  cleanup_policy_stats :: "u64 \<Rightarrow> nat \<Rightarrow> 'd \<Rightarrow> bool result \<times> 'd"

definition POLICY_STATS_WRITE_BATCH :: nat where "POLICY_STATS_WRITE_BATCH = 128"
definition POLICY_STATS_CLEANUP_BATCH :: nat where "POLICY_STATS_CLEANUP_BATCH = 1000"
definition POLICY_STATS_CLEANUP_CONTINUE_SECONDS :: u64 where "POLICY_STATS_CLEANUP_CONTINUE_SECONDS = 1"
definition POLICY_STATS_CLEANUP_RETRY_SECONDS :: u64 where "POLICY_STATS_CLEANUP_RETRY_SECONDS = 60"
definition POLICY_STATS_CLEANUP_INTERVAL_SECONDS :: u64 where "POLICY_STATS_CLEANUP_INTERVAL_SECONDS = 86400"
definition JG_POLICY_STATS_QUEUE_MIN :: nat where "JG_POLICY_STATS_QUEUE_MIN = 2"
definition JG_POLICY_STATS_QUEUE_MAX :: nat where "JG_POLICY_STATS_QUEUE_MAX = 65536"
definition JG_POLICY_STATS_EVENT_RULE_MAX :: nat where "JG_POLICY_STATS_EVENT_RULE_MAX = 4"
definition INT64_MAX :: u64 where "INT64_MAX = 0x7FFFFFFFFFFFFFFF"

section \<open>Counters\<close>

definition atomic_saturating_add :: "u64 \<Rightarrow> u64 \<Rightarrow> u64" where
  "atomic_saturating_add current increment_by =
     (let remaining = - 1 - current in current + (if increment_by > remaining then remaining else increment_by))"

definition initialize_stats :: jg_policy_stats_collector_stats where
  "initialize_stats = \<lparr>submitted = 0, dropped = 0, restore_dropped = 0, stale_generation_dropped = 0, recorded_requests = 0,
     recorded_rules = 0, write_failures = 0, cleanup_batches = 0, cleanup_failures = 0, detail_rows = 0, estimated_bytes = 0,
     cardinality_dropped = 0, storage_dropped = 0, storage_suspended = 0\<rparr>"

abbreviation tally ::
  "(jg_policy_stats_collector_stats \<Rightarrow> jg_policy_stats_collector_stats) \<Rightarrow> jg_policy_stats_collector \<Rightarrow> jg_policy_stats_collector" where
  "tally f c \<equiv> c\<lparr>collector_stats := f (collector_stats c)\<rparr>"

definition add_submitted where "add_submitted n s = s\<lparr>submitted := atomic_saturating_add (submitted s) n\<rparr>"
definition add_dropped where "add_dropped n s = s\<lparr>dropped := atomic_saturating_add (dropped s) n\<rparr>"
definition add_restore_dropped where
  "add_restore_dropped n s = s\<lparr>restore_dropped := atomic_saturating_add (restore_dropped s) n\<rparr>"
definition add_stale_dropped where
  "add_stale_dropped n s = s\<lparr>stale_generation_dropped := atomic_saturating_add (stale_generation_dropped s) n\<rparr>"
definition add_recorded where
  "add_recorded n m s = s\<lparr>recorded_requests := atomic_saturating_add (recorded_requests s) n,
     recorded_rules := atomic_saturating_add (recorded_rules s) m\<rparr>"
definition add_write_failure where
  "add_write_failure s = s\<lparr>write_failures := atomic_saturating_add (write_failures s) 1\<rparr>"
definition add_cleanup_batch where
  "add_cleanup_batch s = s\<lparr>cleanup_batches := atomic_saturating_add (cleanup_batches s) 1\<rparr>"
definition add_cleanup_failure where
  "add_cleanup_failure s = s\<lparr>cleanup_failures := atomic_saturating_add (cleanup_failures s) 1\<rparr>"

definition refresh_storage_stats ::
  "'d database_ops \<Rightarrow> 'd \<Rightarrow> jg_policy_stats_collector \<Rightarrow> unit result \<times> jg_policy_stats_collector" where
  "refresh_storage_stats ops d c = (case load_policy_stats_storage ops d of
     Inl e \<Rightarrow> (Inl e, c)
   | Inr s \<Rightarrow> (Inr (), tally (\<lambda>st. st\<lparr>detail_rows := so_detail_rows s, estimated_bytes := so_estimated_bytes s,
       cardinality_dropped := so_cardinality_dropped s, storage_dropped := so_storage_dropped s,
       storage_suspended := (if so_storage_suspended s then 1 else 0)\<rparr>) c))"

section \<open>Valid events\<close>

text \<open>The array of the domain holds a terminator exactly when the string is short enough.\<close>

definition event_path_valid :: "jg_policy_stats_event \<Rightarrow> bool" where
  "event_path_valid event =
     (if length (ev_domain event) > JG_DOMAIN_NAME_MAX then False
      else if ev_path event = JG_POLICY_STATS_DNS
      then ev_query_type event \<noteq> 0 \<and> jg_domain_is_normalized (ev_domain event)
      else if ev_path event = JG_POLICY_STATS_TLS_SNI
      then ev_query_type event = 0 \<and> jg_domain_is_normalized (ev_domain event)
      else ev_path event = JG_POLICY_STATS_NETWORK_DESTINATION \<and> ev_query_type event = 0 \<and> ev_domain event = [])"

definition event_client_valid :: "jg_policy_client \<Rightarrow> bool" where
  "event_client_valid c \<longleftrightarrow>
     (c_family c = JG_POLICY_ADDRESS_NONE \<or> c_family c = JG_POLICY_ADDRESS_IPV4 \<or> c_family c = JG_POLICY_ADDRESS_IPV6)
     \<and> (\<not> has_vlan c \<or> c_vlan_id c \<le> 4094)"

definition event_rule_valid :: "jg_policy_stats_event_rule \<Rightarrow> bool" where
  "event_rule_valid r \<longleftrightarrow>
     (er_dimension r = JG_POLICY_STATS_DOMAIN \<or> er_dimension r = JG_POLICY_STATS_DESTINATION)
     \<and> er_rule_id r \<noteq> 0 \<and> er_rule_id r \<le> INT64_MAX
     \<and> er_statistics_id r \<noteq> replicate 16 0 \<and> er_decision r \<noteq> er_shadowed r
     \<and> (\<not> er_enforced_block r \<or> er_would_block r)
     \<and> (\<not> er_allow_decision r \<or> (\<not> er_would_block r \<and> \<not> er_enforced_block r))"

definition event_valid :: "jg_policy_stats_event \<Rightarrow> bool" where
  "event_valid event =
     (if ev_generation event = 0 \<or> ev_occurred_at event > INT64_MAX
         \<or> length (ev_rules event) > JG_POLICY_STATS_EVENT_RULE_MAX
         \<or> \<not> event_path_valid event \<or> \<not> event_client_valid (ev_client event)
         \<or> (ev_would_block event \<and> \<not> ev_matched event)
         \<or> (ev_enforced_block event \<and> \<not> ev_would_block event)
      then False else list_all event_rule_valid (ev_rules event))"

section \<open>The writer\<close>

fun drain_loop :: "nat \<Rightarrow> nat \<Rightarrow> jg_policy_stats_collector \<Rightarrow> (errno, jg_policy_stats_collector) run" where
  "drain_loop index 0 c = Done c"
| "drain_loop index (Suc n) c =
     and_then (raw (byte_at (queue c) (queue_head c))) (\<lambda>event.
     and_then (raw (store_at (batch c) index [event])) (\<lambda>b.
       drain_loop (index + 1) n (c\<lparr>batch := b, queue_head := (queue_head c + 1) mod capacity c\<rparr>)))"

definition drain_batch :: "jg_policy_stats_collector \<Rightarrow> (errno, jg_policy_stats_collector \<times> nat) run" where
  "drain_batch c =
     (let drained = (if queue_count c < batch_capacity c then queue_count c else batch_capacity c) in
      and_then (drain_loop 0 drained c) (\<lambda>c. Done (c\<lparr>queue_count := queue_count c - drained\<rparr>, drained)))"

definition traffic_sample :: "jg_policy_stats_event \<Rightarrow> jg_policy_traffic_sample" where
  "traffic_sample event = \<lparr>ts_occurred_at = ev_occurred_at event, ts_path = ev_path event, ts_matched = ev_matched event,
     ts_would_block = ev_would_block event, ts_enforced_block = ev_enforced_block event\<rparr>"

definition rule_sample :: "jg_policy_stats_event \<Rightarrow> jg_policy_stats_event_rule \<Rightarrow> jg_policy_rule_sample" where
  "rule_sample event rule =
     (let domain = er_dimension rule = JG_POLICY_STATS_DOMAIN in
      \<lparr>rs_occurred_at = ev_occurred_at event, rs_dimension = er_dimension rule, rs_rule_id = er_rule_id rule,
       rs_statistics_id = er_statistics_id rule,
       rs_path = (if domain then ev_path event else JG_POLICY_STATS_NETWORK_DESTINATION), rs_client = ev_client event,
       rs_domain = (if domain then ev_domain event else []), rs_query_type = (if domain then ev_query_type event else 0),
       rs_decision = er_decision rule, rs_would_block = er_would_block rule, rs_enforced_block = er_enforced_block rule,
       rs_allow_decision = er_allow_decision rule, rs_shadowed = er_shadowed rule\<rparr>)"

fun prepare_event_rules ::
  "jg_policy_stats_event \<Rightarrow> jg_policy_stats_event_rule list \<Rightarrow> nat \<Rightarrow> jg_policy_rule_sample list \<Rightarrow>
   (errno, nat \<times> jg_policy_rule_sample list) run" where
  "prepare_event_rules event [] rules_stored samples = Done (rules_stored, samples)"
| "prepare_event_rules event (rule # rest) rules_stored samples =
     and_then (raw (store_at samples rules_stored [rule_sample event rule])) (\<lambda>samples.
       prepare_event_rules event rest (rules_stored + 1) samples)"

fun prepare_loop ::
  "nat list \<Rightarrow> nat \<Rightarrow> jg_policy_stats_collector \<Rightarrow> (errno, nat \<times> jg_policy_stats_collector) run" where
  "prepare_loop [] rules_stored c = Done (rules_stored, c)"
| "prepare_loop (i # is) rules_stored c =
     and_then (raw (byte_at (batch c) i)) (\<lambda>event.
     and_then (raw (store_at (traffic c) i [traffic_sample event])) (\<lambda>samples.
     and_then (prepare_event_rules event (ev_rules event) rules_stored (rule_samples c)) (\<lambda>(rules_stored, rules).
       prepare_loop is rules_stored (c\<lparr>traffic := samples, rule_samples := rules\<rparr>))))"

definition prepare_database_batch ::
  "jg_policy_stats_collector \<Rightarrow> nat \<Rightarrow> (errno, nat \<times> jg_policy_stats_collector) run" where
  "prepare_database_batch c event_count = prepare_loop [0..<event_count] 0 c"

definition write_batch ::
  "'d database_ops \<Rightarrow> jg_policy_stats_collector \<Rightarrow> nat \<Rightarrow> 'd \<Rightarrow> (errno, jg_policy_stats_collector \<times> 'd) run" where
  "write_batch ops c event_count d =
     and_then (prepare_database_batch c event_count) (\<lambda>(rules_stored, c).
     and_then (raw (bytes_at (traffic c) 0 event_count)) (\<lambda>samples.
     and_then (raw (bytes_at (rule_samples c) 0 rules_stored)) (\<lambda>rules.
       let (r, d) = record_policy_stats ops samples rules d;
           c = (case r of Inr _ \<Rightarrow> tally (add_recorded (of_nat event_count) (of_nat rules_stored)) c
                | Inl _ \<Rightarrow> tally add_write_failure c);
           (refreshed, c) = refresh_storage_stats ops d c
       in Done (case refreshed of Inr _ \<Rightarrow> c | Inl _ \<Rightarrow> tally add_write_failure c, d))))"

definition future_time :: "u64 \<Rightarrow> u64 \<Rightarrow> u64" where
  "future_time now delay = (if delay > - 1 - now then - 1 else now + delay)"

definition run_cleanup ::
  "'d database_ops \<Rightarrow> jg_policy_stats_collector \<Rightarrow> u64 \<Rightarrow> 'd \<Rightarrow> jg_policy_stats_collector \<times> 'd" where
  "run_cleanup ops c now d =
     (let (r, d) = (case load_retention_enabled ops d of
            Inl e \<Rightarrow> (Inl e, d)
          | Inr False \<Rightarrow> (Inr (False, False), d)
          | Inr True \<Rightarrow> (case cleanup_policy_stats ops now POLICY_STATS_CLEANUP_BATCH d of
              (Inl e, d) \<Rightarrow> (Inl e, d) | (Inr complete, d) \<Rightarrow> (Inr (True, complete), d)));
          c = (case r of
            Inl _ \<Rightarrow> (tally add_cleanup_failure c)\<lparr>next_cleanup_at := future_time now POLICY_STATS_CLEANUP_RETRY_SECONDS\<rparr>
          | Inr (enabled, complete) \<Rightarrow>
              if \<not> enabled \<or> complete
              then (if enabled then tally add_cleanup_batch c else c)
                     \<lparr>next_cleanup_at := future_time now POLICY_STATS_CLEANUP_INTERVAL_SECONDS\<rparr>
              else (tally add_cleanup_batch c)\<lparr>next_cleanup_at := future_time now POLICY_STATS_CLEANUP_CONTINUE_SECONDS\<rparr>);
          (refreshed, c) = refresh_storage_stats ops d c
      in (case refreshed of Inr _ \<Rightarrow> c | Inl _ \<Rightarrow> tally add_cleanup_failure c, d))"

text \<open>
  Whether \<open>wait_for_work\<close> returns in its critical section: the loop condition fails, a condition wait
  ended with an error, or the retention deadline has passed. \<open>current\<close> is the result of \<open>time\<close>.
\<close>

definition cleanup_time :: "int \<Rightarrow> jg_policy_stats_collector \<Rightarrow> bool" where
  "cleanup_time current c \<longleftrightarrow> current < 0 \<or> of_int current \<ge> next_cleanup_at c"

definition wait_for_work :: "bool \<Rightarrow> int \<Rightarrow> jg_policy_stats_collector \<Rightarrow> bool" where
  "wait_for_work wait_failed current c \<longleftrightarrow>
     \<not> ((queue_count c = 0 \<or> paused c) \<and> \<not> stopping c) \<or> wait_failed \<or> (\<not> paused c \<and> cleanup_time current c)"

text \<open>One round of \<open>collector_main\<close>: the first critical section, the work outside, the second one.\<close>

definition writer_take ::
  "int \<Rightarrow> jg_policy_stats_collector \<Rightarrow> (errno, jg_policy_stats_collector \<times> nat \<times> bool \<times> bool) run" where
  "writer_take current c =
     and_then (if paused c then Done (c, 0, False)
               else and_then (drain_batch c) (\<lambda>(c, n). Done (c, n, cleanup_time current c))) (\<lambda>(c, event_count, cleanup_due).
       Done (c\<lparr>writer_active := event_count \<noteq> 0 \<or> cleanup_due\<rparr>, event_count, cleanup_due, stopping c))"

definition writer_work ::
  "'d database_ops \<Rightarrow> int \<Rightarrow> nat \<Rightarrow> bool \<Rightarrow> bool \<Rightarrow> jg_policy_stats_collector \<Rightarrow> 'd \<Rightarrow>
   (errno, jg_policy_stats_collector \<times> 'd) run" where
  "writer_work ops current event_count cleanup_due is_stopping c d =
     and_then (if event_count \<noteq> 0 then write_batch ops c event_count d else Done (c, d)) (\<lambda>(c, d).
       Done (if \<not> is_stopping \<and> cleanup_due \<and> current \<ge> 0 then run_cleanup ops c (of_int current) d else (c, d)))"

definition writer_finish :: "jg_policy_stats_collector \<Rightarrow> jg_policy_stats_collector" where
  "writer_finish c = c\<lparr>writer_active := False\<rparr>"

section \<open>The callers\<close>

text \<open>
  \<open>allocated\<close> says whether all five allocations succeed, \<open>initialised\<close> is the outcome of the mutex, the
  condition and the database connection. The blocks of \<open>calloc\<close> are zeroed events and samples.
\<close>

definition cleared_event :: jg_policy_stats_event where
  "cleared_event = \<lparr>ev_generation = 0, ev_occurred_at = 0, ev_path = JG_POLICY_STATS_NONE, ev_client = cleared_client, ev_domain = [],
     ev_query_type = 0, ev_matched = False, ev_would_block = False, ev_enforced_block = False, ev_rules = []\<rparr>"

definition cleared_rule_sample :: jg_policy_rule_sample where
  "cleared_rule_sample = \<lparr>rs_occurred_at = 0, rs_dimension = DIMENSION_OTHER 0, rs_rule_id = 0, rs_statistics_id = replicate 16 0,
     rs_path = JG_POLICY_STATS_NONE, rs_client = cleared_client, rs_domain = [], rs_query_type = 0, rs_decision = False,
     rs_would_block = False, rs_enforced_block = False, rs_allow_decision = False, rs_shadowed = False\<rparr>"

definition jg_policy_stats_collector_create ::
  "'d database_ops \<Rightarrow> 'd \<Rightarrow> bool \<Rightarrow> unit result \<Rightarrow> nat \<Rightarrow> u64 \<Rightarrow> jg_policy_stats_collector result" where
  "jg_policy_stats_collector_create ops d allocated initialised n gen =
     (if n < JG_POLICY_STATS_QUEUE_MIN \<or> gen = 0 \<or> n > JG_POLICY_STATS_QUEUE_MAX then Inl EINVAL
      else if \<not> allocated then Inl ENOMEM
      else case initialised of
        Inl e \<Rightarrow> Inl e
      | Inr _ \<Rightarrow>
          let size = (if n < POLICY_STATS_WRITE_BATCH then n else POLICY_STATS_WRITE_BATCH);
              c = \<lparr>queue = replicate n cleared_event, batch = replicate size cleared_event,
                   traffic = replicate size (traffic_sample cleared_event),
                   rule_samples = replicate (size * JG_POLICY_STATS_EVENT_RULE_MAX) cleared_rule_sample,
                   collector_stats = initialize_stats, capacity = n, batch_capacity = size, queue_head = 0, queue_count = 0,
                   next_cleanup_at = 0, collector_generation = gen, started = False, stopping = False, paused = False,
                   restore_pause = False, writer_active = False\<rparr>
          in (case refresh_storage_stats ops d c of (Inl e, _) \<Rightarrow> Inl e | (Inr _, c) \<Rightarrow> Inr c))"

definition jg_policy_stats_collector_start ::
  "int \<Rightarrow> unit result \<Rightarrow> jg_policy_stats_collector \<Rightarrow> unit result \<times> jg_policy_stats_collector" where
  "jg_policy_stats_collector_start current create_thread c =
     (if started c then (Inl EALREADY, c)
      else if stopping c then (Inl ECANCELED, c)
      else let c = c\<lparr>next_cleanup_at := (if current < 0 then 0 else of_int current)\<rparr> in
        case create_thread of Inr _ \<Rightarrow> (Inr (), c\<lparr>started := True\<rparr>) | Inl e \<Rightarrow> (Inl e, c))"

text \<open>\<open>lock\<close> is the outcome of \<open>pthread_mutex_trylock\<close>.\<close>

definition jg_policy_stats_collector_submit ::
  "unit result \<Rightarrow> jg_policy_stats_event \<Rightarrow> jg_policy_stats_collector \<Rightarrow>
   (errno, unit result \<times> jg_policy_stats_collector) run" where
  "jg_policy_stats_collector_submit lock event c =
     (if \<not> event_valid event then Done (Inl EINVAL, c)
      else case lock of
        Inl e \<Rightarrow> Done (Inl (if e = EBUSY then EAGAIN else e), tally (add_dropped 1) c)
      | Inr _ \<Rightarrow>
          let refuse_with = (\<lambda>e restore stale. Done (Inl e,
                tally (\<lambda>s. (if stale then add_stale_dropped 1 else id) ((if restore then add_restore_dropped 1 else id) (add_dropped 1 s))) c))
          in if \<not> started c \<or> stopping c then refuse_with ECANCELED False False
             else if paused c then refuse_with ECANCELED (restore_pause c) (\<not> restore_pause c)
             else if ev_generation event \<noteq> collector_generation c then refuse_with ESTALE False True
             else if queue_count c = capacity c then refuse_with EAGAIN False False
             else let tail = (queue_head c + queue_count c) mod capacity c in
               and_then (raw (store_at (queue c) tail [event])) (\<lambda>q.
                 Done (Inr (), tally (add_submitted 1) (c\<lparr>queue := q, queue_count := queue_count c + 1\<rparr>))))"

text \<open>
  \<open>jg_policy_stats_collector_pause\<close> up to its wait for the writer, which releases the mutex: \<open>Inr\<close> when it
  goes on to wait.
\<close>

definition jg_policy_stats_collector_pause ::
  "bool \<Rightarrow> jg_policy_stats_collector \<Rightarrow> unit result \<times> jg_policy_stats_collector" where
  "jg_policy_stats_collector_pause restore c =
     (if \<not> started c \<or> stopping c then (Inl ECANCELED, c)
      else if paused c then (Inl EALREADY, c)
      else let discarded = of_nat (queue_count c) in
        (Inr (), tally (\<lambda>s. (if restore then add_restore_dropped discarded else add_stale_dropped discarded) (add_dropped discarded s))
           (c\<lparr>paused := True, restore_pause := restore, queue_head := 0, queue_count := 0\<rparr>)))"

definition jg_policy_stats_collector_resume ::
  "'d database_ops \<Rightarrow> 'd \<Rightarrow> u64 \<Rightarrow> jg_policy_stats_collector \<Rightarrow> unit result \<times> jg_policy_stats_collector" where
  "jg_policy_stats_collector_resume ops d gen c =
     (if gen = 0 then (Inl EINVAL, c)
      else if \<not> started c \<or> stopping c then (Inl ECANCELED, c)
      else if \<not> paused c then (Inl EALREADY, c)
      else case refresh_storage_stats ops d c of
        (Inl e, c) \<Rightarrow> (Inl e, c)
      | (Inr _, c) \<Rightarrow> (Inr (), c\<lparr>collector_generation := gen, paused := False, restore_pause := False\<rparr>))"

definition jg_policy_stats_collector_request_stop ::
  "jg_policy_stats_collector \<Rightarrow> unit result \<times> jg_policy_stats_collector" where
  "jg_policy_stats_collector_request_stop c =
     (if \<not> started c then (Inl ECANCELED, c) else (Inr (), c\<lparr>stopping := True\<rparr>))"

text \<open>The last critical section of \<open>jg_policy_stats_collector_join\<close>, after the thread has ended.\<close>

definition jg_policy_stats_collector_join ::
  "jg_policy_stats_collector \<Rightarrow> unit result \<times> jg_policy_stats_collector" where
  "jg_policy_stats_collector_join c =
     (if \<not> started c \<or> \<not> stopping c then (Inl EINVAL, c) else (Inr (), c\<lparr>started := False\<rparr>))"

definition jg_policy_stats_collector_get_stats :: "jg_policy_stats_collector \<Rightarrow> jg_policy_stats_collector_stats" where
  "jg_policy_stats_collector_get_stats c = collector_stats c"

section \<open>The ring\<close>

text \<open>The \<open>n\<close> elements of a ring from a position on.\<close>

definition ring_slice :: "'a list \<Rightarrow> nat \<Rightarrow> nat \<Rightarrow> 'a list" where
  "ring_slice q from n = map (\<lambda>i. q ! ((from + i) mod length q)) [0..<n]"

lemma length_ring_slice [simp]: "length (ring_slice q from n) = n"
  by (simp add: ring_slice_def)

lemma ring_slice_0 [simp]: "ring_slice q from 0 = []"
  by (simp add: ring_slice_def)

lemma ring_slice_Suc: "from < length q \<Longrightarrow> ring_slice q from (Suc n) = q ! from # ring_slice q ((from + 1) mod length q) n"
proof -
  assume "from < length q"
  moreover have "[0..<Suc n] = 0 # map Suc [0..<n]" by (simp add: map_Suc_upt upt_conv_Cons del: upt_Suc)
  ultimately show ?thesis by (simp add: ring_slice_def mod_add_left_eq del: upt_Suc)
qed

lemma ring_slice_add:
  "from < length q \<Longrightarrow> ring_slice q from (n + m) = ring_slice q from n @ ring_slice q ((from + n) mod length q) m"
  by (rule nth_equalityI) (auto simp: ring_slice_def nth_append mod_add_left_eq)

lemma ring_slice_push:
  assumes "n < length q"
  shows "ring_slice (q[(from + n) mod length q := x]) from (n + 1) = ring_slice q from n @ [x]"
proof -
  have t: "(from + n) mod length q < length q" using assms by (intro mod_less_divisor) auto
  have "(from + i) mod length q \<noteq> (from + n) mod length q" if "i < n" for i
    using that assms mod_eq_dvd_iff_nat[of "from + i" "from + n" "length q"] by (auto dest: dvd_imp_le)
  then show ?thesis using t by (simp add: ring_slice_def) (metis atLeastLessThan_iff nth_list_update_neq)
qed

definition contents :: "jg_policy_stats_collector \<Rightarrow> jg_policy_stats_event list" where
  "contents c = ring_slice (queue c) (queue_head c) (queue_count c)"

definition ring_ok :: "jg_policy_stats_collector \<Rightarrow> bool" where
  "ring_ok c \<longleftrightarrow> 0 < capacity c \<and> length (queue c) = capacity c \<and> queue_head c < capacity c \<and> queue_count c \<le> capacity c
     \<and> length (batch c) = batch_capacity c \<and> length (traffic c) = batch_capacity c
     \<and> length (rule_samples c) = batch_capacity c * JG_POLICY_STATS_EVENT_RULE_MAX"


text \<open>What the writer drains are the oldest events, in order.\<close>

lemma drain_loop_ring:
  assumes "ring_ok c" "index + n \<le> batch_capacity c"
  shows "drain_loop index n c = Done (c\<lparr>batch := blit (batch c) index (ring_slice (queue c) (queue_head c) n),
    queue_head := (queue_head c + n) mod capacity c\<rparr>)"
  using assms
proof (induction n arbitrary: index c)
  case 0
  have "queue_head c mod capacity c = queue_head c" using 0 by (simp add: ring_ok_def)
  then show ?case by simp
next
  case (Suc n)
  have ring: "queue_head c < length (queue c)" "index < length (batch c)" "length (queue c) = capacity c"
    using Suc.prems by (simp_all add: ring_ok_def)
  define c1 where "c1 = c\<lparr>batch := (batch c)[index := queue c ! queue_head c], queue_head := (queue_head c + 1) mod capacity c\<rparr>"
  have "drain_loop index (Suc n) c = drain_loop (index + 1) n c1"
    using ring by (simp add: c1_def blit_single)
  also have "\<dots> = Done (c1\<lparr>batch := blit (batch c1) (index + 1) (ring_slice (queue c1) (queue_head c1) n),
      queue_head := (queue_head c1 + n) mod capacity c1\<rparr>)"
    using Suc.prems by (intro Suc.IH) (simp_all add: c1_def ring_ok_def)
  finally show ?case
    using ring Suc.prems by (simp add: c1_def ring_slice_Suc mod_add_left_eq blit_Cons ring_ok_def)
qed

lemma drain_batch_ring:
  assumes "ring_ok c"
  defines "n \<equiv> min (queue_count c) (batch_capacity c)"
  shows "\<exists>c'. drain_batch c = Done (c', n) \<and> ring_ok c' \<and> contents c = take n (batch c') @ contents c'
    \<and> c' = c\<lparr>batch := batch c', queue_head := queue_head c', queue_count := queue_count c - n\<rparr>"
proof -
  let ?es = "ring_slice (queue c) (queue_head c) n"
  define c' where "c' = c\<lparr>batch := blit (batch c) 0 ?es, queue_head := (queue_head c + n) mod capacity c, queue_count := queue_count c - n\<rparr>"
  have n: "n \<le> batch_capacity c" "n \<le> queue_count c" "(if queue_count c < batch_capacity c then queue_count c else batch_capacity c) = n"
    by (simp_all add: n_def)
  have drain: "drain_batch c = Done (c', n)"
    using drain_loop_ring[OF assms(1), of 0 n] n by (simp add: drain_batch_def Let_def c'_def)
  have ok: "ring_ok c'" using assms(1) n(1) by (auto simp: ring_ok_def c'_def)
  have "take n (batch c') = ?es" using assms(1) n(1) by (simp add: c'_def blit_def ring_ok_def)
  moreover have "contents c = ?es @ contents c'"
    using ring_slice_add[of "queue_head c" "queue c" n "queue_count c - n"] assms(1) n(2) by (simp add: contents_def c'_def ring_ok_def)
  ultimately show ?thesis using drain ok by (intro exI[of _ c']) (simp add: c'_def)
qed

section \<open>The samples\<close>

abbreviation event_samples :: "jg_policy_stats_event \<Rightarrow> jg_policy_rule_sample list" where
  "event_samples event \<equiv> map (rule_sample event) (ev_rules event)"

lemma prepare_event_rules_eq:
  assumes "k + length rs \<le> length samples"
  shows "prepare_event_rules event rs k samples = Done (k + length rs, blit samples k (map (rule_sample event) rs))"
  using assms by (induction rs arbitrary: k samples) (simp_all add: blit_single blit_Cons)

lemma prepare_loop_eq:
  assumes "i + n \<le> length (batch c)" "length (batch c) = length (traffic c)"
    and "\<forall>e \<in> set (slice i n (batch c)). length (ev_rules e) \<le> JG_POLICY_STATS_EVENT_RULE_MAX"
    and "k + n * JG_POLICY_STATS_EVENT_RULE_MAX \<le> length (rule_samples c)"
  shows "prepare_loop [i..<i + n] k c = Done (k + length (concat (map event_samples (slice i n (batch c)))),
    c\<lparr>traffic := blit (traffic c) i (map traffic_sample (slice i n (batch c))),
      rule_samples := blit (rule_samples c) k (concat (map event_samples (slice i n (batch c))))\<rparr>)"
  using assms
proof (induction n arbitrary: i k c)
  case 0
  then show ?case by (simp add: slice_def)
next
  case (Suc n)
  let ?e = "batch c ! i" and ?m = JG_POLICY_STATS_EVENT_RULE_MAX
  have i: "i < length (batch c)" "i < length (traffic c)" using Suc.prems by simp_all
  have sl: "slice i (Suc n) (batch c) = ?e # slice (i + 1) n (batch c)"
    using i(1) by (simp add: slice_def Cons_nth_drop_Suc[symmetric])
  have m: "length (ev_rules ?e) \<le> ?m" using Suc.prems(3) sl by simp
  have room: "k + length (ev_rules ?e) \<le> length (rule_samples c)" using Suc.prems(4) m by simp
  define c1 where "c1 = c\<lparr>traffic := (traffic c)[i := traffic_sample ?e], rule_samples := blit (rule_samples c) k (event_samples ?e)\<rparr>"
  have "prepare_loop [i..<i + Suc n] k c = prepare_loop [i + 1..<i + 1 + n] (k + length (ev_rules ?e)) c1"
    using i room by (simp add: upt_conv_Cons blit_single prepare_event_rules_eq c1_def del: upt_Suc)
  also have "\<dots> = Done (k + length (ev_rules ?e) + length (concat (map event_samples (slice (i + 1) n (batch c1)))),
      c1\<lparr>traffic := blit (traffic c1) (i + 1) (map traffic_sample (slice (i + 1) n (batch c1))),
         rule_samples := blit (rule_samples c1) (k + length (ev_rules ?e)) (concat (map event_samples (slice (i + 1) n (batch c1))))\<rparr>)"
    using Suc.prems m room sl by (intro Suc.IH) (simp_all add: c1_def)
  finally show ?case
    using i room blit_blit_adjacent[of k "event_samples ?e" "rule_samples c"] by (simp add: sl c1_def blit_Cons)
qed

lemma samples_bound:
  "\<forall>e \<in> set es. length (ev_rules e) \<le> m \<Longrightarrow> length (concat (map event_samples es)) \<le> length es * m"
  by (induction es) auto

text \<open>The database gets one traffic sample per event and one rule sample per rule, in the order of the batch.\<close>

lemma write_batch_eq:
  assumes "ring_ok c" "n \<le> batch_capacity c" "\<forall>e \<in> set (take n (batch c)). event_valid e"
  defines "es \<equiv> take n (batch c)"
  shows "\<exists>ts rs st. write_batch ops c n d = Done (c\<lparr>traffic := ts, rule_samples := rs, collector_stats := st\<rparr>,
      snd (record_policy_stats ops (map traffic_sample es) (concat (map event_samples es)) d))
    \<and> length ts = length (traffic c) \<and> length rs = length (rule_samples c)"
proof -
  let ?m = JG_POLICY_STATS_EVENT_RULE_MAX and ?rs = "concat (map event_samples es)"
  have rules: "\<forall>e \<in> set es. length (ev_rules e) \<le> ?m" using assms(3) by (auto simp: event_valid_def es_def split: if_splits)
  have n: "length es = n" "n \<le> length (traffic c)" using assms(1,2) by (simp_all add: es_def ring_ok_def)
  have room: "length ?rs \<le> length (rule_samples c)"
    using samples_bound[OF rules] n assms(1,2) by (simp add: ring_ok_def) (meson le_trans mult_le_mono1)
  define c1 where "c1 = c\<lparr>traffic := blit (traffic c) 0 (map traffic_sample es), rule_samples := blit (rule_samples c) 0 ?rs\<rparr>"
  have prep: "prepare_database_batch c n = Done (length ?rs, c1)"
    using prepare_loop_eq[of 0 n c 0] assms(1,2) rules by (simp add: prepare_database_batch_def c1_def es_def ring_ok_def)
  have reads: "bytes_at (traffic c1) 0 n = Some (map traffic_sample es)" "bytes_at (rule_samples c1) 0 (length ?rs) = Some ?rs"
    using n room by (simp_all add: bytes_at_def c1_def blit_def)
  obtain r d' where rec: "record_policy_stats ops (map traffic_sample es) ?rs d = (r, d')" by fastforce
  have "\<exists>st. write_batch ops c n d = Done (c1\<lparr>collector_stats := st\<rparr>, d')"
    unfolding write_batch_def prep using reads rec
    by (cases r; cases "load_policy_stats_storage ops d'") (auto simp: refresh_storage_stats_def Let_def)
  then obtain st where "write_batch ops c n d = Done (c1\<lparr>collector_stats := st\<rparr>, d')" ..
  then show ?thesis using rec n room
    by (intro exI[of _ "traffic c1"] exI[of _ "rule_samples c1"] exI[of _ st]) (simp add: c1_def)
qed

section \<open>The collector and its threads\<close>

text \<open>
  Where the writer thread stands: not started, in \<open>wait_for_work\<close>, between its critical sections with the
  number of events, the cleanup and the stop flag it read, before and after the work, or ended. Where the
  calls that pause and resume, which are serialised, stand: between pauses, in the wait of
  \<open>jg_policy_stats_collector_pause\<close>, or after it has reported success.

  The last three fields only observe: the events that a submission accepted, the events that left the
  queue, marked whether the writer took them, and the events handed to the database.
\<close>

datatype writer_phase = Idle | Waiting | Working nat bool bool | Worked nat bool | Ended

datatype controller_state = Running | Pausing | Quiesced

record 'd collector_system =
  collector :: jg_policy_stats_collector
  phase :: writer_phase
  controller :: controller_state
  database :: 'd
  accepted :: "jg_policy_stats_event list"
  settled :: "(bool \<times> jg_policy_stats_event) list"
  handed :: "jg_policy_stats_event list"

datatype collector_action =
    Start int "unit result" | Submit "unit result" jg_policy_stats_event
  | Take bool int int | Work int | Finish
  | Pause bool | Pause_return bool | Resume u64 | Request_stop | Join

fun collector_perform :: "'d database_ops \<Rightarrow> collector_action \<Rightarrow> 'd collector_system \<Rightarrow> 'd collector_system option" where
  "collector_perform ops (Start current created) s =
     (case jg_policy_stats_collector_start current created (collector s) of
        (Inr _, c) \<Rightarrow> Some (s\<lparr>collector := c, phase := Waiting\<rparr>)
      | (Inl _, c) \<Rightarrow> Some (s\<lparr>collector := c\<rparr>))"
| "collector_perform ops (Submit lock event) s =
     (case jg_policy_stats_collector_submit lock event (collector s) of
        Done (r, c) \<Rightarrow> Some (s\<lparr>collector := c, accepted := accepted s @ (if r = Inr () then [event] else [])\<rparr>)
      | _ \<Rightarrow> None)"
| "collector_perform ops (Take wait_failed waited current) s =
     (if phase s = Waiting \<and> wait_for_work wait_failed waited (collector s) then
        (case writer_take current (collector s) of
           Done (c, n, due, stop) \<Rightarrow> Some (s\<lparr>collector := c, phase := Working n due stop,
             settled := settled s @ map (Pair True) (take n (batch c))\<rparr>)
         | _ \<Rightarrow> None)
      else None)"
| "collector_perform ops (Work current) s =
     (case phase s of
        Working n due stop \<Rightarrow>
          (case writer_work ops current n due stop (collector s) (database s) of
             Done (c, d) \<Rightarrow> Some (s\<lparr>collector := c, phase := Worked n stop, database := d,
               handed := handed s @ take n (batch (collector s))\<rparr>)
           | _ \<Rightarrow> None)
      | _ \<Rightarrow> None)"
| "collector_perform ops Finish s =
     (case phase s of
        Worked n stop \<Rightarrow> Some (s\<lparr>collector := writer_finish (collector s),
          phase := (if stop \<and> n = 0 then Ended else Waiting)\<rparr>)
      | _ \<Rightarrow> None)"
| "collector_perform ops (Pause restore) s =
     (case jg_policy_stats_collector_pause restore (collector s) of
        (Inl _, c) \<Rightarrow> Some (s\<lparr>collector := c\<rparr>)
      | (Inr _, c) \<Rightarrow> Some (s\<lparr>collector := c, controller := Pausing,
          settled := settled s @ map (Pair False) (contents (collector s))\<rparr>))"
| "collector_perform ops (Pause_return wait_failed) s =
     (if controller s = Pausing \<and> (wait_failed \<or> \<not> writer_active (collector s))
      then Some (s\<lparr>controller := (if wait_failed then Running else Quiesced)\<rparr>) else None)"
| "collector_perform ops (Resume gen) s =
     (if controller s = Pausing then None
      else case jg_policy_stats_collector_resume ops (database s) gen (collector s) of
        (Inl _, c) \<Rightarrow> Some (s\<lparr>collector := c\<rparr>)
      | (Inr _, c) \<Rightarrow> Some (s\<lparr>collector := c, controller := Running\<rparr>))"
| "collector_perform ops Request_stop s =
     Some (s\<lparr>collector := snd (jg_policy_stats_collector_request_stop (collector s))\<rparr>)"
| "collector_perform ops Join s =
     (if stopping (collector s) \<and> phase s \<noteq> Ended then None
      else Some (s\<lparr>collector := snd (jg_policy_stats_collector_join (collector s))\<rparr>))"

definition collector_initial :: "'d database_ops \<Rightarrow> 'd collector_system \<Rightarrow> bool" where
  "collector_initial ops s \<longleftrightarrow> phase s = Idle \<and> controller s = Running \<and> accepted s = [] \<and> settled s = [] \<and> handed s = []
     \<and> (\<exists>allocated initialised n gen.
          jg_policy_stats_collector_create ops (database s) allocated initialised n gen = Inr (collector s))"

text \<open>The batch in the hands of the writer.\<close>

definition in_progress :: "writer_phase \<Rightarrow> jg_policy_stats_collector \<Rightarrow> jg_policy_stats_event list" where
  "in_progress p c = (case p of Working n _ _ \<Rightarrow> take n (batch c) | _ \<Rightarrow> [])"

definition phase_ok :: "writer_phase \<Rightarrow> controller_state \<Rightarrow> jg_policy_stats_collector \<Rightarrow> bool" where
  "phase_ok p ctl c = (case p of
     Idle \<Rightarrow> \<not> writer_active c \<and> \<not> started c
   | Waiting \<Rightarrow> \<not> writer_active c \<and> started c
   | Working n due stop \<Rightarrow> started c \<and> n \<le> batch_capacity c \<and> (writer_active c \<longleftrightarrow> n \<noteq> 0 \<or> due)
       \<and> list_all event_valid (take n (batch c)) \<and> (ctl = Quiesced \<longrightarrow> n = 0 \<and> \<not> due)
       \<and> (stop \<longrightarrow> stopping c)
   | Worked n stop \<Rightarrow> started c \<and> (stop \<longrightarrow> stopping c)
   | Ended \<Rightarrow> \<not> writer_active c \<and> stopping c)"

definition collector_ok :: "'d collector_system \<Rightarrow> bool" where
  "collector_ok s \<longleftrightarrow> (let c = collector s in
     ring_ok c \<and> (paused c \<longrightarrow> queue_count c = 0)
     \<and> list_all (\<lambda>e. event_valid e \<and> ev_generation e = collector_generation c) (contents c)
     \<and> phase_ok (phase s) (controller s) c \<and> (controller s \<noteq> Running \<longrightarrow> paused c)
     \<and> map snd (settled s) @ contents c = accepted s
     \<and> map snd (filter fst (settled s)) = handed s @ in_progress (phase s) c)"

lemma created_collector:
  "jg_policy_stats_collector_create ops d allocated initialised n gen = Inr c \<Longrightarrow>
   ring_ok c \<and> queue_count c = 0 \<and> \<not> started c \<and> \<not> writer_active c"
  by (cases initialised; cases "load_policy_stats_storage ops d")
    (auto simp: jg_policy_stats_collector_create_def refresh_storage_stats_def Let_def
      ring_ok_def JG_POLICY_STATS_QUEUE_MIN_def split: if_splits)

lemma initial_ok: "collector_initial ops s \<Longrightarrow> collector_ok s"
  by (auto simp: collector_initial_def collector_ok_def phase_ok_def in_progress_def contents_def Let_def dest: created_collector)

lemma in_progress_simps [simp]:
  "in_progress Idle c = []" "in_progress Waiting c = []" "in_progress (Working n due stop) c = take n (batch c)"
  "in_progress (Worked n stop) c = []" "in_progress Ended c = []"
  by (simp_all add: in_progress_def)

lemma in_progress_cong: "batch c' = batch c \<Longrightarrow> in_progress p c' = in_progress p c"
  by (simp add: in_progress_def split: writer_phase.split)

text \<open>An action that does not touch the queue, the batch and the generation keeps the invariant when it keeps that of the phase.\<close>

definition same_queue :: "jg_policy_stats_collector \<Rightarrow> jg_policy_stats_collector \<Rightarrow> bool" where
  "same_queue c c' \<longleftrightarrow> queue c' = queue c \<and> queue_head c' = queue_head c \<and> queue_count c' = queue_count c \<and> capacity c' = capacity c
     \<and> batch c' = batch c \<and> batch_capacity c' = batch_capacity c \<and> collector_generation c' = collector_generation c
     \<and> length (traffic c') = length (traffic c) \<and> length (rule_samples c') = length (rule_samples c)"

lemma collector_ok_same:
  assumes "collector_ok s" "same_queue (collector s) c" "phase_ok p ctl c"
    and "ctl \<noteq> Running \<longrightarrow> paused c" "paused c \<longrightarrow> paused (collector s)"
    and "in_progress p c = in_progress (phase s) (collector s)"
  shows "collector_ok (s\<lparr>collector := c, phase := p, controller := ctl\<rparr>)"
proof -
  have "ring_ok c" "contents c = contents (collector s)" "queue_count c = queue_count (collector s)"
    "collector_generation c = collector_generation (collector s)"
    using assms(1,2) by (auto simp: collector_ok_def same_queue_def Let_def ring_ok_def contents_def)
  then show ?thesis using assms(1,3-6) by (simp add: collector_ok_def Let_def)
qed

lemma phase_ok_cong:
  "writer_active c' = writer_active c \<Longrightarrow> started c' = started c \<Longrightarrow> stopping c' = stopping c \<Longrightarrow> batch c' = batch c \<Longrightarrow>
   batch_capacity c' = batch_capacity c \<Longrightarrow> phase_ok p ctl c' = phase_ok p ctl c"
  by (simp add: phase_ok_def split: writer_phase.split)

lemma same_queue_refl [simp]: "same_queue c c"
  by (simp add: same_queue_def)

lemma collector_okD:
  assumes "collector_ok s"
  shows "ring_ok (collector s)" "paused (collector s) \<Longrightarrow> queue_count (collector s) = 0"
    "phase_ok (phase s) (controller s) (collector s)" "controller s \<noteq> Running \<Longrightarrow> paused (collector s)"
  using assms by (auto simp: collector_ok_def Let_def)

lemma start_ok:
  assumes "collector_ok s" "collector_perform ops (Start t r) s = Some s'"
  shows "collector_ok s'"
proof -
  let ?c = "collector s"
  note ok = collector_okD[OF assms(1)]
  obtain res c where start: "jg_policy_stats_collector_start t r ?c = (res, c)" by fastforce
  then have same: "same_queue ?c c" "paused c = paused ?c" "writer_active c = writer_active ?c" "stopping c = stopping ?c"
      "batch c = batch ?c" "batch_capacity c = batch_capacity ?c"
    and res: "res = Inr () \<Longrightarrow> \<not> started ?c \<and> \<not> stopping ?c \<and> started c" "res \<noteq> Inr () \<Longrightarrow> started c = started ?c"
    by (auto simp: jg_policy_stats_collector_start_def Let_def same_queue_def split: if_splits sum.splits)
  have s': "s' = (if res = Inr () then s\<lparr>collector := c, phase := Waiting\<rparr> else s\<lparr>collector := c\<rparr>)"
    using assms(2) start by (auto split: sum.splits)
  show ?thesis
  proof (cases "res = Inr ()")
    case True
    have "phase s = Idle" using ok(3) res(1)[OF True] by (auto simp: phase_ok_def split: writer_phase.splits)
    moreover from this have "phase_ok Waiting (controller s) c" using ok(3) res(1)[OF True] same(3) by (simp add: phase_ok_def)
    ultimately show ?thesis
      using collector_ok_same[OF assms(1) same(1), of Waiting "controller s"] ok(4) same(2) True s' by simp
  next
    case False
    then have "phase_ok (phase s) (controller s) c" using ok(3) phase_ok_cong[of c ?c] same res(2) by simp
    then show ?thesis
      using collector_ok_same[OF assms(1) same(1), of "phase s" "controller s"] ok(4) same s' False in_progress_cong[of c ?c] by simp
  qed
qed

text \<open>A submission: refused without a change of the queue, or appended to it.\<close>

definition refusal where
  "refusal c x \<longleftrightarrow> (\<exists>e st. x = Done (Inl e, c\<lparr>collector_stats := st\<rparr>))"

lemma refusal_Done [simp]: "refusal c (Done (Inl e, c\<lparr>collector_stats := st\<rparr>))" "refusal c (Done (Inl e, c))"
  by (auto simp: refusal_def intro: exI[of _ "collector_stats c"])

lemma submit_cases:
  assumes "ring_ok c"
  shows "refusal c (jg_policy_stats_collector_submit lock event c)
    \<or> event_valid event \<and> \<not> paused c \<and> ev_generation event = collector_generation c
      \<and> (\<exists>q st. jg_policy_stats_collector_submit lock event c
          = Done (Inr (), c\<lparr>collector_stats := st, queue := q, queue_count := queue_count c + 1\<rparr>)
        \<and> queue_count c < capacity c \<and> length q = capacity c
        \<and> ring_slice q (queue_head c) (queue_count c + 1) = contents c @ [event])"
proof (cases "event_valid event \<and> lock = Inr () \<and> started c \<and> \<not> stopping c \<and> \<not> paused c
    \<and> ev_generation event = collector_generation c \<and> queue_count c \<noteq> capacity c")
  case True
  let ?t = "(queue_head c + queue_count c) mod capacity c"
  have room: "queue_count c < capacity c" "length (queue c) = capacity c" using True assms by (auto simp: ring_ok_def)
  from room have "?t < capacity c" by (intro mod_less_divisor) auto
  then have "store_at (queue c) ?t [event] = Some ((queue c)[?t := event])" using room(2) by (simp add: store_at_def blit_single)
  then have "jg_policy_stats_collector_submit lock event c = Done (Inr (), (tally (add_submitted 1)
      (c\<lparr>queue := (queue c)[?t := event], queue_count := queue_count c + 1\<rparr>)))"
    using True by (simp add: jg_policy_stats_collector_submit_def Let_def)
  then show ?thesis
    using True room ring_slice_push[of "queue_count c" "queue c" "queue_head c" event]
    by (intro disjI2 conjI exI[of _ "(queue c)[?t := event]"] exI[of _ "add_submitted 1 (collector_stats c)"])
      (simp_all add: contents_def)
next
  case False
  then have "refusal c (jg_policy_stats_collector_submit lock event c)"
    by (cases lock) (auto simp: jg_policy_stats_collector_submit_def Let_def)
  then show ?thesis ..
qed

lemma submit_ok:
  assumes "collector_ok s" "collector_perform ops (Submit lock event) s = Some s'"
  shows "collector_ok s'"
proof -
  let ?c = "collector s"
  note ok = collector_okD[OF assms(1)]
  consider e st where "jg_policy_stats_collector_submit lock event ?c = Done (Inl e, ?c\<lparr>collector_stats := st\<rparr>)"
    | q st where "jg_policy_stats_collector_submit lock event ?c
          = Done (Inr (), ?c\<lparr>collector_stats := st, queue := q, queue_count := queue_count ?c + 1\<rparr>)"
      "event_valid event" "\<not> paused ?c" "ev_generation event = collector_generation ?c" "queue_count ?c < capacity ?c"
      "length q = capacity ?c" "ring_slice q (queue_head ?c) (queue_count ?c + 1) = contents ?c @ [event]"
    using submit_cases[OF ok(1), of lock event] unfolding refusal_def by blast
  then show ?thesis
  proof cases
    case 1
    let ?d = "?c\<lparr>collector_stats := st\<rparr>"
    have "collector_ok (s\<lparr>collector := ?d, phase := phase s, controller := controller s\<rparr>)"
      using ok(3,4) by (intro collector_ok_same[OF assms(1)]) (simp_all add: same_queue_def phase_ok_cong[of ?d ?c] in_progress_cong[of ?d ?c])
    then show ?thesis using assms(2) 1 by simp
  next
    case 2
    let ?d = "?c\<lparr>collector_stats := st, queue := q, queue_count := queue_count ?c + 1\<rparr>"
    have "contents ?d = contents ?c @ [event]" "ring_ok ?d" using 2 ok(1) by (simp_all add: contents_def ring_ok_def)
    moreover have "phase_ok (phase s) (controller s) ?d" using ok(3) phase_ok_cong[of ?d ?c] by simp
    moreover have "s' = s\<lparr>collector := ?d, accepted := accepted s @ [event]\<rparr>" using assms(2) 2(1) by simp
    ultimately show ?thesis
      using assms(1) 2 in_progress_cong[of ?d ?c] by (simp add: collector_ok_def Let_def)
  qed
qed

lemma take_ok:
  assumes "collector_ok s" "collector_perform ops (Take f w t) s = Some s'"
  shows "collector_ok s'"
proof -
  let ?c = "collector s"
  note ok = collector_okD[OF assms(1)]
  have waiting: "phase s = Waiting" "started ?c" using assms(2) ok(3) by (auto simp: phase_ok_def split: if_splits)
  show ?thesis
  proof (cases "paused ?c")
    case True
    have "writer_take t ?c = Done (?c\<lparr>writer_active := False\<rparr>, 0, False, stopping ?c)"
      using True by (simp add: writer_take_def)
    then have s': "s' = s\<lparr>collector := ?c\<lparr>writer_active := False\<rparr>, phase := Working 0 False (stopping ?c), controller := controller s\<rparr>"
      using assms(2) waiting by (simp split: if_splits)
    show ?thesis
      unfolding s' using ok(4) waiting True by (intro collector_ok_same[OF assms(1)]) (simp_all add: same_queue_def phase_ok_def)
  next
    case False
    obtain c n where d: "drain_batch ?c = Done (c, n)" "ring_ok c" "contents ?c = take n (batch c) @ contents c" "n = min (queue_count ?c) (batch_capacity ?c)"
      "c = ?c\<lparr>batch := batch c, queue_head := queue_head c, queue_count := queue_count ?c - n\<rparr>"
      using drain_batch_ring[OF ok(1)] by blast
    have fields: "batch_capacity c = batch_capacity ?c" "collector_generation c = collector_generation ?c" "paused c = paused ?c"
      "started c = started ?c" "stopping c = stopping ?c"
      by (subst d(5), simp)+
    let ?due = "cleanup_time t c" and ?d = "c\<lparr>writer_active := n \<noteq> 0 \<or> cleanup_time t c\<rparr>"
    have s': "s' = s\<lparr>collector := ?d, phase := Working n ?due (stopping c), settled := settled s @ map (Pair True) (take n (batch c))\<rparr>"
      using assms(2) waiting False d(1) by (auto simp: writer_take_def split: if_splits)
    have running: "controller s = Running" using ok(4) False by blast
    have "contents ?d = contents c" "ring_ok ?d" using d(2) by (simp_all add: contents_def ring_ok_def)
    then show ?thesis
      using assms(1) d(3,4) waiting running False
      by (simp add: collector_ok_def Let_def s' phase_ok_def fields list_all_append comp_def) (auto simp: list_all_iff)
  qed
qed

text \<open>Work outside the critical sections leaves the shared state alone.\<close>

definition same_control :: "jg_policy_stats_collector \<Rightarrow> jg_policy_stats_collector \<Rightarrow> bool" where
  "same_control c c' \<longleftrightarrow> same_queue c c' \<and> started c' = started c \<and> stopping c' = stopping c \<and> paused c' = paused c
     \<and> writer_active c' = writer_active c"

lemma same_control_simps [simp]:
  "same_control c c" "same_control c (c'\<lparr>collector_stats := st\<rparr>) = same_control c c'"
  "same_control c (c'\<lparr>next_cleanup_at := u\<rparr>) = same_control c c'"
  by (simp_all add: same_control_def same_queue_def)

lemma refresh_same: "same_control c (snd (refresh_storage_stats ops d c'))= same_control c c'"
  by (simp add: refresh_storage_stats_def split: sum.split)

lemma run_cleanup_same: "same_control c (fst (run_cleanup ops c now d))"
proof -
  obtain r d' where step: "(case load_retention_enabled ops d of
            Inl e \<Rightarrow> (Inl e, d)
          | Inr False \<Rightarrow> (Inr (False, False), d)
          | Inr True \<Rightarrow> (case cleanup_policy_stats ops now POLICY_STATS_CLEANUP_BATCH d of
              (Inl e, d) \<Rightarrow> (Inl e, d) | (Inr complete, d) \<Rightarrow> (Inr (True, complete), d))) = (r, d')" by fastforce
  show ?thesis
    unfolding run_cleanup_def step Let_def prod.case
    by (cases r; cases "load_policy_stats_storage ops d'") (auto simp: refresh_storage_stats_def)
qed

lemma work_ok:
  assumes "collector_ok s" "collector_perform ops (Work t) s = Some s'"
  shows "collector_ok s'"
proof -
  let ?c = "collector s" and ?d = "database s"
  note ok = collector_okD[OF assms(1)]
  obtain n due stop where p: "phase s = Working n due stop" using assms(2) by (auto split: writer_phase.splits)
  have n: "n \<le> batch_capacity ?c" "\<forall>e \<in> set (take n (batch ?c)). event_valid e" "started ?c" "stop \<longrightarrow> stopping ?c"
    using ok(3) p by (auto simp: phase_ok_def list_all_iff)
  obtain c1 d1 where w: "(if n \<noteq> 0 then write_batch ops ?c n ?d else Done (?c, ?d)) = Done (c1, d1)" "same_control ?c c1"
    using write_batch_eq[OF ok(1) n(1,2), of ops ?d]
    by (cases "n = 0") (auto simp: same_control_def same_queue_def)
  define r where "r = (if \<not> stop \<and> due \<and> t \<ge> 0 then run_cleanup ops c1 (of_int t) d1 else (c1, d1))"
  have "same_control c1 (fst r)" by (simp add: r_def run_cleanup_same)
  then have same: "same_control ?c (fst r)" using w(2) by (simp add: same_control_def same_queue_def)
  have "writer_work ops t n due stop ?c ?d = Done r" using w(1) by (simp add: writer_work_def r_def)
  then have s': "s' = s\<lparr>collector := fst r, phase := Worked n stop, database := snd r, handed := handed s @ take n (batch ?c)\<rparr>"
    using assms(2) p by (cases r) simp
  have q: "ring_ok (fst r)" "contents (fst r) = contents ?c" using same ok(1) by (simp_all add: same_control_def same_queue_def ring_ok_def contents_def)
  show ?thesis
    using assms(1) same q n(3,4) p by (simp add: s' collector_ok_def Let_def phase_ok_def same_control_def same_queue_def)
qed

lemma finish_ok:
  assumes "collector_ok s" "collector_perform ops Finish s = Some s'"
  shows "collector_ok s'"
proof -
  note ok = collector_okD[OF assms(1)]
  obtain n stop where p: "phase s = Worked n stop" using assms(2) by (auto split: writer_phase.splits)
  let ?p = "if stop \<and> n = 0 then Ended else Waiting"
  have "collector_ok (s\<lparr>collector := writer_finish (collector s), phase := ?p, controller := controller s\<rparr>)"
    using ok(3,4) p by (intro collector_ok_same[OF assms(1)]) (auto simp: same_queue_def writer_finish_def phase_ok_def)
  moreover have "s' = s\<lparr>collector := writer_finish (collector s), phase := ?p\<rparr>" using assms(2) p by simp
  ultimately show ?thesis by simp
qed

lemma pause_ok:
  assumes "collector_ok s" "collector_perform ops (Pause restore) s = Some s'"
  shows "collector_ok s'"
proof (cases "started (collector s) \<and> \<not> stopping (collector s) \<and> \<not> paused (collector s)")
  case True
  let ?c = "collector s"
  note ok = collector_okD[OF assms(1)]
  obtain c where c: "jg_policy_stats_collector_pause restore ?c = (Inr (), c)" "queue_count c = 0" "queue_head c = 0"
    "queue c = queue ?c" "capacity c = capacity ?c" "batch c = batch ?c" "batch_capacity c = batch_capacity ?c" "traffic c = traffic ?c"
    "rule_samples c = rule_samples ?c" "paused c" "writer_active c = writer_active ?c" "started c = started ?c" "stopping c = stopping ?c"
    using True by (auto simp: jg_policy_stats_collector_pause_def Let_def)
  have ring: "ring_ok c" "contents c = []" using ok(1) c by (simp_all add: ring_ok_def contents_def)
  have "controller s = Running \<or> paused ?c" using ok(4) by blast
  then have phase: "phase_ok (phase s) Pausing c"
    using ok(3) c True by (auto simp: phase_ok_def split: writer_phase.splits)
  have s': "s' = s\<lparr>collector := c, controller := Pausing, settled := settled s @ map (Pair False) (contents ?c)\<rparr>"
    using assms(2) c(1) by simp
  show ?thesis
    using assms(1) ring phase c(2,10) in_progress_cong[OF c(6)] by (simp add: s' collector_ok_def Let_def comp_def)
next
  case False
  then obtain e where "jg_policy_stats_collector_pause restore (collector s) = (Inl e, collector s)"
    unfolding jg_policy_stats_collector_pause_def by (metis (no_types))
  then have "s' = s" using assms(2) by simp
  then show ?thesis using assms(1) by simp
qed

lemma pause_return_ok:
  assumes "collector_ok s" "collector_perform ops (Pause_return f) s = Some s'"
  shows "collector_ok s'"
proof -
  note ok = collector_okD[OF assms(1)]
  let ?ctl = "if f then Running else Quiesced"
  have s': "s' = s\<lparr>collector := collector s, phase := phase s, controller := ?ctl\<rparr>" "controller s = Pausing"
    "f \<or> \<not> writer_active (collector s)"
    using assms(2) by (auto split: if_splits)
  show ?thesis
    unfolding s'(1) using ok(3,4) s'(2,3)
    by (intro collector_ok_same[OF assms(1)]) (auto simp: phase_ok_def split: writer_phase.splits)
qed

lemma resume_ok:
  assumes "collector_ok s" "collector_perform ops (Resume gen) s = Some s'"
  shows "collector_ok s'"
proof -
  let ?c = "collector s"
  note ok = collector_okD[OF assms(1)]
  obtain r c where res: "jg_policy_stats_collector_resume ops (database s) gen ?c = (r, c)" by fastforce
  show ?thesis
  proof (cases r)
    case (Inl e)
    have "same_control ?c c"
      using res Inl by (auto simp: jg_policy_stats_collector_resume_def refresh_storage_stats_def split: if_splits sum.splits prod.splits)
    moreover have "s' = s\<lparr>collector := c, phase := phase s, controller := controller s\<rparr>" using assms(2) res Inl by (auto split: if_splits)
    ultimately show ?thesis
      using ok(3,4) phase_ok_cong[of c ?c] in_progress_cong[of c ?c] collector_ok_same[OF assms(1), of c "phase s" "controller s"]
      by (simp add: same_control_def same_queue_def)
  next
    case (Inr u)
    have paused: "paused ?c"
      using res Inr by (auto simp: jg_policy_stats_collector_resume_def split: if_splits)
    have c: "queue_count c = queue_count ?c" "\<not> paused c" "ring_ok c" "batch c = batch ?c" "batch_capacity c = batch_capacity ?c"
      "writer_active c = writer_active ?c" "started c = started ?c" "stopping c = stopping ?c"
      using res Inr ok(1) by (auto simp: jg_policy_stats_collector_resume_def refresh_storage_stats_def ring_ok_def split: if_splits sum.splits prod.splits)
    have s': "s' = s\<lparr>collector := c, controller := Running\<rparr>" using assms(2) res Inr by (auto split: if_splits)
    have "phase_ok (phase s) Running c" using ok(3) c by (auto simp: phase_ok_def split: writer_phase.splits)
    moreover have "contents c = []" "contents ?c = []" using c(1) ok(2)[OF paused] by (simp_all add: contents_def)
    ultimately show ?thesis
      using assms(1) c(2,3) in_progress_cong[OF c(4)] by (simp add: s' collector_ok_def Let_def)
  qed
qed

lemma stop_ok:
  assumes "collector_ok s" "collector_perform ops Request_stop s = Some s' \<or> collector_perform ops Join s = Some s'"
  shows "collector_ok s'"
proof -
  let ?c = "collector s"
  note ok = collector_okD[OF assms(1)]
  define c where "c = collector s'"
  have s': "s' = s\<lparr>collector := c\<rparr>" using assms(2) by (auto simp: c_def split: if_splits)
  have "c = snd (jg_policy_stats_collector_request_stop ?c) \<or> c = snd (jg_policy_stats_collector_join ?c)
      \<and> (stopping ?c \<longrightarrow> phase s = Ended)"
    using assms(2) by (auto simp: c_def split: if_splits)
  then have same: "same_queue ?c c" "paused c = paused ?c" "batch c = batch ?c" and phase: "phase_ok (phase s) (controller s) c"
    using ok(3) by (auto simp: jg_policy_stats_collector_request_stop_def jg_policy_stats_collector_join_def same_queue_def phase_ok_def
        split: if_splits writer_phase.splits)
  have "collector_ok (s\<lparr>collector := c, phase := phase s, controller := controller s\<rparr>)"
    using phase same ok(4) in_progress_cong[of c ?c] by (intro collector_ok_same[OF assms(1)]) simp_all
  then show ?thesis by (simp add: s')
qed

lemma perform_ok:
  assumes "collector_ok s" "collector_perform ops a s = Some s'"
  shows "collector_ok s'"
  using assms by (cases a) (metis start_ok submit_ok take_ok work_ok finish_ok pause_ok pause_return_ok resume_ok stop_ok)+

interpretation stats_collector: transition_system "collector_initial ops" "collector_perform ops" collector_ok
  for ops :: "'d database_ops"
  by unfold_locales (auto intro: initial_ok perform_ok)


text \<open>One submission that the writer takes, and a pause while it works.\<close>

definition sample_ops :: "nat database_ops" where
  "sample_ops = \<lparr>record_policy_stats = (\<lambda>ts rs d. (Inr (), d + length ts)),
     load_policy_stats_storage = (\<lambda>d. Inr \<lparr>so_detail_rows = 0, so_estimated_bytes = 0, so_cardinality_dropped = 0,
       so_storage_dropped = 0, so_storage_suspended = False\<rparr>),
     load_retention_enabled = (\<lambda>d. Inr False), cleanup_policy_stats = (\<lambda>now n d. (Inr True, d))\<rparr>"

definition sample_event :: jg_policy_stats_event where
  "sample_event = cleared_event\<lparr>ev_generation := 7, ev_path := JG_POLICY_STATS_NETWORK_DESTINATION\<rparr>"

definition sample_collector :: jg_policy_stats_collector where
  "sample_collector = (case jg_policy_stats_collector_create sample_ops 0 True (Inr ()) 2 7 of Inr c \<Rightarrow> c)"

definition sample_start :: "nat collector_system" where
  "sample_start = \<lparr>collector = sample_collector, phase = Idle, controller = Running, database = 0, accepted = [], settled = [], handed = []\<rparr>"

lemma sample_collector_created: "jg_policy_stats_collector_create sample_ops 0 True (Inr ()) 2 7 = Inr sample_collector"
  by (simp add: sample_collector_def jg_policy_stats_collector_create_def refresh_storage_stats_def sample_ops_def Let_def
      JG_POLICY_STATS_QUEUE_MIN_def JG_POLICY_STATS_QUEUE_MAX_def)

lemma sample_initial: "collector_initial sample_ops sample_start"
  using sample_collector_created by (auto simp: collector_initial_def sample_start_def)

lemma sample_run_reachable: "stats_collector.run sample_ops as sample_start = Some s \<Longrightarrow> stats_collector.reachable sample_ops s"
  by (rule stats_collector.run_reachable[OF stats_collector.start[OF sample_initial]])



text \<open>
  Quiescence: once a pause has reported success, no action of any thread hands an event to the database
  or changes it, and no event is accepted, until the collection is resumed.
\<close>

theorem policy_stats_quiesced:
  assumes "stats_collector.reachable ops s" "controller s = Quiesced" "collector_perform ops a s = Some s'"
  shows "database s' = database s \<and> handed s' = handed s \<and> accepted s' = accepted s
    \<and> (controller s' = Quiesced \<or> (\<exists>gen. a = Resume gen))"
proof -
  have ok: "collector_ok s" by (rule stats_collector.reachable_invariant[OF assms(1)])
  note parts = collector_okD[OF ok]
  have paused: "paused (collector s)" using parts(4) assms(2) by simp
  show ?thesis
  proof (cases a)
    case (Submit lock event)
    then show ?thesis using assms(2,3) paused submit_cases[OF parts(1), of lock event] by (auto simp: refusal_def)
  next
    case (Work t)
    then obtain n due stop where p: "phase s = Working n due stop" using assms(3) by (auto split: writer_phase.splits)
    then have "n = 0" "\<not> due" using parts(3) assms(2) by (auto simp: phase_ok_def)
    then show ?thesis using assms(2,3) Work p by (auto simp: writer_work_def)
  next
    case (Pause restore)
    then show ?thesis using assms(2,3) paused by (auto simp: jg_policy_stats_collector_pause_def split: if_splits)
  qed (use assms(2,3) in \<open>auto split: if_splits sum.splits prod.splits run.splits writer_phase.splits\<close>)
qed

text \<open>The writer holds a batch while the pause begins; the pause returns once the batch is written.\<close>

lemma sample_pauses:
  "case stats_collector.run sample_ops [Start 5 (Inr ()), Submit (Inr ()) sample_event, Take False 0 0, Pause True, Work 0, Finish,
      Pause_return False] sample_start of
     None \<Rightarrow> False
   | Some s \<Rightarrow> controller s = Quiesced \<and> database s = 1 \<and> handed s = [sample_event]
       \<and> collector_perform sample_ops (Submit (Inr ()) sample_event) s \<noteq> None"
  unfolding stats_collector.run.simps by code_simp

theorem policy_stats_quiesced_witness:
  "\<exists>s s'. controller s = Quiesced \<and> collector_perform sample_ops (Submit (Inr ()) sample_event) s = Some s'
     \<and> database s' = 1 \<and> handed s' = [sample_event] \<and> controller s' = Quiesced"
proof -
  obtain s s' where s: "stats_collector.run sample_ops [Start 5 (Inr ()), Submit (Inr ()) sample_event, Take False 0 0, Pause True, Work 0,
      Finish, Pause_return False] sample_start = Some s" "controller s = Quiesced" "database s = 1" "handed s = [sample_event]"
    "collector_perform sample_ops (Submit (Inr ()) sample_event) s = Some s'"
    using sample_pauses by (auto split: option.splits)
  show ?thesis
    using policy_stats_quiesced[OF sample_run_reachable[OF s(1)] s(2,5)] s(2-5) by auto
qed

end
