(* ===== verification/Spec2Isabelle.thy ===== *)
theory Spec2Isabelle
  imports Utf8 Dataplane PolicyStore DnsPolicy Netd Access Tls TcpReset DnsResponse FragmentReassembly
    TcpReassembly Collector
begin

text \<open>
  A verification development for JanusGate, a transparent bridge that filters DNS queries, visible TLS
  server names and network destinations by policy.

  \<^bold>\<open>The program.\<close> The daemon takes Ethernet frames from kernel queues. A worker parses each frame
  (\<^verbatim>\<open>src/common/packet.c\<close>), reassembles fragments (\<^verbatim>\<open>src/daemon/fragment.c\<close>) and TCP streams
  (\<^verbatim>\<open>src/daemon/tcp_stream.c\<close>), extracts DNS queries (\<^verbatim>\<open>src/common/dns.c\<close>) and ClientHello
  messages (\<^verbatim>\<open>src/common/tls_client_hello.c\<close>), evaluates them (\<^verbatim>\<open>src/daemon/dataplane.c\<close>)
  against a policy snapshot (\<^verbatim>\<open>src/common/policy.c\<close>), and answers blocked traffic with DNS responses
  (\<^verbatim>\<open>src/daemon/dns_response.c\<close>) and TCP resets (\<^verbatim>\<open>src/daemon/tcp_reset.c\<close>). Snapshots are
  published to the workers through hazard pointers (\<^verbatim>\<open>src/daemon/policy_store.c\<close>); what the workers
  decided goes through a bounded queue to one database writer
  (\<^verbatim>\<open>src/daemon/policy_stats_collector.c\<close>). A privileged helper (\<^verbatim>\<open>src/netd\<close>) applies the
  network configuration as transactions that must be confirmed; daemon, helper and tools talk in binary
  frames (\<^verbatim>\<open>src/common/ipc.c\<close>, \<^verbatim>\<open>network.c\<close>, \<^verbatim>\<open>dns_policy.c\<close>), and
  administrators are checked against an access vocabulary (\<^verbatim>\<open>src/common/access.c\<close>).

  \<^bold>\<open>Conventions.\<close>
  \<^item> A function that reads or writes memory returns \<open>run\<close>: \<open>Done x\<close>, \<open>Fail e\<close> for an error
    that it reports, or \<open>Fault\<close> for an access outside an object or a loop that does not end. That
    \<open>Fault\<close> does not occur is part of the properties. Functions without such accesses return
    \<open>result\<close>, an errno or a value.
  \<^item> Buffers and fixed arrays are byte lists, a C string is its bytes without the terminator,
    \<^verbatim>\<open>size_t\<close> is a natural number with the guards against \<^verbatim>\<open>SIZE_MAX\<close> written out, and the
    fixed-width integers are words that wrap around as they do in C; sizes of structures are those
    of an LP64 platform. The 16-byte address arrays of scopes and clients have their size by
    hypothesis (the \<open>_typed\<close> predicates).
  \<^item> Output parameters are results, so checks of them against null have no counterpart; a null pointer
    with a meaning is \<open>None\<close>, and so is the index \<^verbatim>\<open>SIZE_MAX\<close>. A value outside the enumerators of
    an enumeration is an \<open>_OTHER\<close> constructor, and \<open>cleared_\<close> definitions are structures after
    \<^verbatim>\<open>memset\<close>.
  \<^item> Allocation, libidn2, libsodium, clocks, the database, the kernel and thread creation are parameters:
    records of functions or arguments, about which no law is assumed unless a property states it.
    \<^verbatim>\<open>qsort\<close> is a stable sort.
  \<^item> Loops are structural recursions or functions with a termination proof. Where a loop of the code
    has no bound of its own (the insertion into the hash table, the ClientHello feed), the model has fuel
    that the properties show to be enough: the capacity of the table, and the number of bytes fed.
  \<^item> Concurrent code is a partial function on actions, interpreted as a \<open>transition_system\<close>: one
    action is one atomic operation (policy store), one critical section (statistics) or one request
    (network helper), and every sequence of actions is a behaviour.

  \<^bold>\<open>The theories.\<close>
  \<^item> \<open>Prelude\<close>, \<open>Checked\<close> (\<^verbatim>\<open>checked.c\<close>: overflow checks and big-endian access), \<open>Ordering\<close>
    (comparison functions, sorting and removal of duplicates), \<open>Slots\<close> (tables of preallocated
    slots), \<open>Codec\<close> (the contract of the binary codecs), \<open>Transitions\<close>, \<open>Checksum\<close> and \<open>Frames\<close>
    (Internet checksums and the frames that JanusGate sends) hold what the components share. The checksum
    functions, which three C files repeat, are one definition.
  \<^item> \<open>Domain\<close>, \<open>Utf8\<close>, \<open>Dns\<close>, \<open>Packet\<close>, \<open>Tls\<close>: the parsers. The lemmas compare each with a
    specification of the format (labels, the inductive wire format of names, header geometry, records
    and handshake messages) and show that it reads inside its input.
  \<^item> \<open>PolicyScope\<close>, \<open>Policy\<close> (construction of a snapshot) and \<open>PolicyMatch\<close> (lookup, destination
    matching and simulation, with every read of the snapshot checked) model \<^verbatim>\<open>policy.c\<close>.
    \<open>PolicyLookup\<close> relates the checked matchers to a reference without bounds on snapshots whose
    layout is in bounds; \<open>PolicyTable\<close> shows that the hash table implements an index by domain and
    \<open>PolicyDecision\<close> that the loops select the highest rank; \<open>PolicyBuild\<close> relates a built snapshot
    to the rule inputs; \<open>PolicyVerdict\<close> and \<open>PolicyDestination\<close> state the verdicts in terms of the inputs.
    The builder normalises each name twice and ignores the second result. The verdict properties
    therefore have the hypothesis \<open>second_pass\<close>: the second normalisation, with an allocator of its own,
    succeeds as the first did. \<open>second_pass_unchecked\<close> shows what happens otherwise.
  \<^item> \<open>Dataplane\<close>: \<^verbatim>\<open>dataplane.c\<close>, from the bytes of a frame to the verdict.
  \<^item> \<open>PolicyStore\<close>: no use after free, protection, reclamation and publication in every interleaving.
  \<^item> \<open>Collector\<close>: every accepted event is queued, discarded by a pause or handed to the database
    exactly once, and a paused collector is quiescent.
  \<^item> \<open>Fragment\<close>, \<open>FragmentSpec\<close>, \<open>FragmentReassembly\<close> and \<open>TcpStream\<close>, \<open>TcpStreamSpec\<close>,
    \<open>TcpReassembly\<close>: the trackers over arenas, their specifications without arenas, the refinement,
    and that datagrams and streams are delivered. Code that the two add functions of \<^verbatim>\<open>tcp_stream.c\<close>
    repeat is one definition.
  \<^item> \<open>DnsResponse\<close>, \<open>TcpReset\<close>: the built frames parse back as what they should be.
  \<^item> \<open>Ipc\<close>, \<open>Network\<close>, \<open>DnsPolicy\<close>: the codecs, as interpretations of \<open>wire_codec\<close>, and validation.
  \<^item> \<open>Access\<close>: scope texts and permission checks. \<open>Netd\<close>: \<^verbatim>\<open>transaction.c\<close> and the request
    dispatch of \<^verbatim>\<open>server.c\<close>; the operations of \<^verbatim>\<open>bridge.c\<close> and \<^verbatim>\<open>nftables.c\<close> are arbitrary
    functions on the state of the kernel.

  \<^bold>\<open>The interfaces\<close> are locales, each interpreted on the definitions of the model: \<open>comparison\<close> (the
  three comparison functions of the builder), \<open>domain_index\<close> (the hash table), \<open>selection\<close> (the two
  precedence tests), \<open>wire_codec\<close> (four codecs) and \<open>transition_system\<close> (policy store, statistics,
  network helper).

  \<^bold>\<open>Not modelled\<close> are the worker that composes the data plane with the trackers and the output
  (\<^verbatim>\<open>dataplane_worker.c\<close>), sockets, netlink, threads and process life cycle, the database and
  everything that is rows in it (accounts, alerts, blocklists, audit), the JSON management handlers,
  certificates, backups, the command line and the web gateway: they are input and output around
  the components above, or calls of libraries outside the sources. The destroy functions of the
  trackers and of the collector, which only free, have no counterpart.
\<close>

end
